(* ===== verification/Rust_Prelude.thy ===== *)
theory Rust_Prelude
  imports "HOL-Library.Word" "HOL-Library.List_Lexorder"
begin

text \<open>
  Shared vocabulary of the development: the machine integers of the Rust sources as words,
  the checked and saturating integer operations the code calls, \<open>Result\<close> with its
  \<open>?\<close> operator, big-endian byte strings and their order, UTF-8 validity and decimal
  numerals. The services are built in release mode (\<open>Cargo.toml\<close> sets no
  \<open>overflow-checks\<close>), so plain \<open>+\<close>, \<open>-\<close> and \<open>*\<close> of the sources wrap around,
  as they do on words.
\<close>

unbundle bit_operations_syntax

section \<open>Collections of facts\<close>

named_theorems codec_intros \<open>codec laws of the encodings, closed under the combinators\<close>
named_theorems rust_simps \<open>unfolding of the Rust integer operations\<close>

section \<open>Types\<close>

type_synonym u8 = "8 word"
type_synonym u16 = "16 word"
type_synonym u32 = "32 word"
type_synonym u64 = "64 word"
type_synonym u128 = "128 word"
type_synonym bytes = "u8 list"

section \<open>Integer operations\<close>

definition checked_add :: "'a::len word \<Rightarrow> 'a word \<Rightarrow> 'a word option" where
  "checked_add x y = (if uint x + uint y < 2 ^ LENGTH('a) then Some (x + y) else None)"

definition checked_sub :: "'a::len word \<Rightarrow> 'a word \<Rightarrow> 'a word option" where
  "checked_sub x y = (if y \<le> x then Some (x - y) else None)"

definition checked_mul :: "'a::len word \<Rightarrow> 'a word \<Rightarrow> 'a word option" where
  "checked_mul x y = (if uint x * uint y < 2 ^ LENGTH('a) then Some (x * y) else None)"

definition saturating_add :: "'a::len word \<Rightarrow> 'a word \<Rightarrow> 'a word" where
  "saturating_add x y = (if uint x + uint y < 2 ^ LENGTH('a) then x + y else - 1)"

definition saturating_sub :: "'a::len word \<Rightarrow> 'a word \<Rightarrow> 'a word" where
  "saturating_sub x y = (if y \<le> x then x - y else 0)"

definition saturating_mul :: "'a::len word \<Rightarrow> 'a word \<Rightarrow> 'a word" where
  "saturating_mul x y = (if uint x * uint y < 2 ^ LENGTH('a) then x * y else - 1)"

text \<open>\<open>TryFrom\<close> between unsigned integer types: the value, if it fits the target.\<close>

definition try_from :: "'a::len word \<Rightarrow> 'b::len word option" where
  "try_from x = (if uint x < 2 ^ LENGTH('b) then Some (ucast x) else None)"

section \<open>Result and the question mark\<close>

fun and_then :: "'e + 'a \<Rightarrow> ('a \<Rightarrow> 'e + 'b) \<Rightarrow> 'e + 'b" where
  "and_then (Inl e) f = Inl e"
| "and_then (Inr x) f = f x"

section \<open>Big-endian byte strings\<close>

definition to_be_bytes :: "'a::len word \<Rightarrow> bytes" where
  "to_be_bytes w = map (\<lambda>i. ucast (drop_bit (8 * i) w)) (rev [0..<LENGTH('a) div 8])"

fun be_val :: "bytes \<Rightarrow> int" where
  "be_val [] = 0"
| "be_val (b # bs) = uint b * 256 ^ length bs + be_val bs"

definition from_be_bytes :: "bytes \<Rightarrow> 'a::len word" where
  "from_be_bytes bs = word_of_int (be_val bs)"

section \<open>Decimal numerals\<close>

text \<open>\<open>to_string\<close> of an unsigned integer and \<open>parse\<close> (digits only, value within the type).\<close>

fun dec_string :: "nat \<Rightarrow> string" where
  "dec_string n = (if n < 10 then [char_of (48 + n)] else dec_string (n div 10) @ [char_of (48 + n mod 10)])"

declare dec_string.simps [simp del]

definition is_digit :: "char \<Rightarrow> bool" where
  "is_digit c \<longleftrightarrow> 48 \<le> (of_char c :: nat) \<and> (of_char c :: nat) \<le> 57"

definition digit_val :: "char \<Rightarrow> nat" where
  "digit_val c = of_char c - 48"

definition dec_value :: "string \<Rightarrow> nat" where
  "dec_value s = foldl (\<lambda>n c. 10 * n + digit_val c) 0 s"

text \<open>Rust's integer parser also accepts one leading plus sign.\<close>

definition parse_uint :: "string \<Rightarrow> 'a::len word option" where
  "parse_uint s =
     (let d = (case s of c # cs \<Rightarrow> if c = CHR ''+'' then cs else s | [] \<Rightarrow> s) in
      if d = [] \<or> \<not> list_all is_digit d then None
      else if int (dec_value d) < 2 ^ LENGTH('a) then Some (word_of_nat (dec_value d)) else None)"

text \<open>\<open>split\<close> and \<open>join\<close> of a string at a character.\<close>

fun split_on :: "char \<Rightarrow> string \<Rightarrow> string list" where
  "split_on c [] = [[]]"
| "split_on c (x # xs) =
     (if x = c then [] # split_on c xs
      else case split_on c xs of [] \<Rightarrow> [[x]] | w # ws \<Rightarrow> (x # w) # ws)"

fun join_with :: "char \<Rightarrow> string list \<Rightarrow> string" where
  "join_with c [] = []"
| "join_with c [w] = w"
| "join_with c (w # v # ws) = w @ c # join_with c (v # ws)"

section \<open>UTF-8\<close>

text \<open>
  What \<open>std::str::from_utf8\<close> accepts: well-formed sequences of one to four bytes, without
  overlong forms, surrogates or code points above 10FFFF.
\<close>

definition utf8_cont :: "u8 \<Rightarrow> bool" where
  "utf8_cont b \<longleftrightarrow> 0x80 \<le> b \<and> b \<le> 0xBF"

fun is_utf8 :: "bytes \<Rightarrow> bool" where
  "is_utf8 [] = True"
| "is_utf8 (a # bs) =
     (if a \<le> 0x7F then is_utf8 bs
      else case bs of [] \<Rightarrow> False | b # bs \<Rightarrow>
        if 0xC2 \<le> a \<and> a \<le> 0xDF then utf8_cont b \<and> is_utf8 bs
        else case bs of [] \<Rightarrow> False | c # bs \<Rightarrow>
          if a = 0xE0 then 0xA0 \<le> b \<and> b \<le> 0xBF \<and> utf8_cont c \<and> is_utf8 bs
          else if a = 0xED then 0x80 \<le> b \<and> b \<le> 0x9F \<and> utf8_cont c \<and> is_utf8 bs
          else if 0xE1 \<le> a \<and> a \<le> 0xEF then utf8_cont b \<and> utf8_cont c \<and> is_utf8 bs
          else case bs of [] \<Rightarrow> False | d # bs \<Rightarrow>
            if a = 0xF0 then 0x90 \<le> b \<and> b \<le> 0xBF \<and> utf8_cont c \<and> utf8_cont d \<and> is_utf8 bs
            else if 0xF1 \<le> a \<and> a \<le> 0xF3 then
              utf8_cont b \<and> utf8_cont c \<and> utf8_cont d \<and> is_utf8 bs
            else if a = 0xF4 then
              0x80 \<le> b \<and> b \<le> 0x8F \<and> utf8_cont c \<and> utf8_cont d \<and> is_utf8 bs
            else False)"

section \<open>Facts on integers\<close>

lemma checked_add_Some:
  "checked_add x y = Some z \<Longrightarrow> z = x + y \<and> uint z = uint x + uint y"
  by (auto simp: checked_add_def uint_word_ariths split: if_splits)

lemma checked_mul_Some:
  "checked_mul x y = Some z \<Longrightarrow> z = x * y \<and> uint z = uint x * uint y"
  by (auto simp: checked_mul_def uint_word_ariths split: if_splits)

lemma checked_sub_Some:
  "checked_sub x y = Some z \<longleftrightarrow> y \<le> x \<and> z = x - y"
  by (auto simp: checked_sub_def split: if_splits)

lemma checked_sub_None:
  "checked_sub x y = None \<longleftrightarrow> x < y"
  by (auto simp: checked_sub_def)

lemma uint_max: "uint (- 1 :: 'a::len word) = 2 ^ LENGTH('a) - 1"
  by (simp add: mask_eq_exp_minus_1 unsigned_minus_1_eq_mask)

lemma uint_of_nat_small: "int k < 2 ^ LENGTH('a) \<Longrightarrow> uint (word_of_nat k :: 'a::len word) = int k"
  by (metis of_int_of_nat_eq of_nat_0_le_iff take_bit_int_eq_self uint_word_of_int_eq)

lemma unat_of_nat_small: "int k < 2 ^ LENGTH('a) \<Longrightarrow> unat (word_of_nat k :: 'a::len word) = k"
  using uint_of_nat_small [of k] by (metis nat_int unat_eq_nat_uint)

lemma uint_plus_small:
  "uint x + uint y < 2 ^ LENGTH('a) \<Longrightarrow> uint (x + y) = uint x + uint y" for x y :: "'a::len word"
  by (simp add: uint_word_ariths)

lemma uint_times_small:
  "uint x * uint y < 2 ^ LENGTH('a) \<Longrightarrow> uint (x * y) = uint x * uint y" for x y :: "'a::len word"
  by (simp add: uint_word_ariths)

lemma uint_saturating_add:
  "uint (saturating_add x y) = min (uint x + uint y) (2 ^ LENGTH('a) - 1)"
  for x y :: "'a::len word"
  by (cases "uint x + uint y < 2 ^ LENGTH('a)")
    (simp_all add: saturating_add_def uint_plus_small uint_max del: unsigned_minus_1_eq_mask)

lemma uint_saturating_mul:
  "uint (saturating_mul x y) = min (uint x * uint y) (2 ^ LENGTH('a) - 1)"
  for x y :: "'a::len word"
  by (cases "uint x * uint y < 2 ^ LENGTH('a)")
    (simp_all add: saturating_mul_def uint_times_small uint_max del: unsigned_minus_1_eq_mask)

lemma try_from_Some:
  "try_from (x :: 'a::len word) = Some (z :: 'b::len word) \<Longrightarrow> uint z = uint x"
  by (auto simp: try_from_def unsigned_ucast_eq take_bit_int_eq_self split: if_splits)

lemma try_from_ucast:
  "LENGTH('b) \<le> LENGTH('a) \<Longrightarrow> try_from (ucast (x :: 'b::len word) :: 'a::len word) = Some x"
proof -
  assume le: "LENGTH('b) \<le> LENGTH('a)"
  have lt: "uint x < 2 ^ LENGTH('b)" by simp
  have "(2 :: int) ^ LENGTH('b) \<le> 2 ^ LENGTH('a)" using le by simp
  with lt have "uint x < 2 ^ LENGTH('a)" by linarith
  then have "uint (ucast x :: 'a word) = uint x"
    by (simp add: unsigned_ucast_eq take_bit_int_eq_self)
  moreover have "ucast (ucast x :: 'a word) = x"
    using calculation by (metis ucast_eq word_of_int_uint)
  ultimately show ?thesis using lt
    by (simp add: try_from_def)
qed

section \<open>Facts on results\<close>

lemma and_then_Inr_iff: "and_then r f = Inr y \<longleftrightarrow> (\<exists>x. r = Inr x \<and> f x = Inr y)"
  by (cases r) auto

lemma and_then_Inl_iff: "and_then r f = Inl e \<longleftrightarrow> r = Inl e \<or> (\<exists>x. r = Inr x \<and> f x = Inl e)"
  by (cases r) auto

section \<open>Facts on byte strings\<close>

lemma length_to_be_bytes [simp]:
  "length (to_be_bytes (w :: 'a::len word)) = LENGTH('a) div 8"
  by (simp add: to_be_bytes_def)

lemma be_val_nonneg [simp]: "0 \<le> be_val bs"
  by (induction bs) auto

lemma uint_u8_less [simp]: "uint (b :: u8) < 256"
  using uint_lt2p [of b] by simp

lemma u8_nat_less: "unat (b :: u8) < 256"
proof -
  have "unat b < 2 ^ LENGTH(8)" by (rule unsigned_less)
  then show ?thesis by simp
qed

lemma be_val_less: "be_val bs < 256 ^ length bs"
proof (induction bs)
  case (Cons b bs)
  have "uint b \<le> 255" using uint_u8_less [of b] by linarith
  then have "uint b * 256 ^ length bs \<le> 255 * 256 ^ length bs"
    by (intro mult_right_mono) auto
  moreover have "(256 :: int) * 256 ^ length bs = 255 * 256 ^ length bs + 256 ^ length bs" by simp
  moreover have "(256 :: int) ^ length (b # bs) = 256 * 256 ^ length bs" by simp
  ultimately show ?case using Cons.IH unfolding be_val.simps by linarith
qed simp

lemma be_val_append: "be_val (xs @ ys) = be_val xs * 256 ^ length ys + be_val ys"
  by (induction xs) (auto simp: algebra_simps power_add)

lemma be_val_digits:
  "be_val (map (\<lambda>i. ucast (drop_bit (8 * i) w)) (rev [0..<n])) = uint w mod 256 ^ n"
  for w :: "'a::len word"
proof (induction n)
  case (Suc n)
  have digit: "uint (ucast (drop_bit (8 * n) w) :: u8) = uint w div 256 ^ n mod 256"
    unfolding unsigned_ucast_eq unsigned_drop_bit_eq
    by (simp add: take_bit_eq_mod power_mult flip: uint_div_distrib) (simp add: drop_bit_eq_div power_mult)
  have "uint w mod 256 ^ Suc n = 256 ^ n * (uint w div 256 ^ n mod 256) + uint w mod 256 ^ n"
    using zmod_zmult2_eq [of 256 "uint w" "256 ^ n"] by (simp add: mult.commute)
  with Suc.IH digit show ?case by (simp add: mult.commute)
qed simp

lemma be_val_to_be_bytes:
  "8 dvd LENGTH('a) \<Longrightarrow> be_val (to_be_bytes (w :: 'a::len word)) = uint w"
proof -
  assume "8 dvd LENGTH('a)"
  then obtain k where k: "LENGTH('a) = 8 * k" ..
  have "(256 :: int) ^ k = 2 ^ LENGTH('a)" by (simp add: k power_mult)
  moreover have "uint w mod 2 ^ LENGTH('a) = uint w" by (rule mod_pos_pos_trivial) auto
  ultimately show ?thesis
    by (simp add: to_be_bytes_def be_val_digits k)
qed

lemma from_to_be_bytes [simp]:
  "8 dvd LENGTH('a) \<Longrightarrow> from_be_bytes (to_be_bytes w) = (w :: 'a::len word)"
  by (simp add: from_be_bytes_def be_val_to_be_bytes)

lemma be_val_less_iff:
  "length xs = length ys \<Longrightarrow> be_val xs < be_val ys \<longleftrightarrow> xs < ys"
proof (induction xs ys rule: list_induct2)
  case (Cons x xs y ys)
  let ?p = "256 ^ length xs :: int"
  have bx: "be_val xs < ?p" and by': "be_val ys < ?p"
    using be_val_less [of xs] be_val_less [of ys] Cons.hyps by simp_all
  have step: "uint a * ?p + be_val u < uint b * ?p + be_val v"
    if "uint a < uint b" "be_val u < ?p" for a b :: u8 and u v
  proof -
    have "(uint a + 1) * ?p \<le> uint b * ?p" using that(1) by (intro mult_right_mono) auto
    moreover have "uint a * ?p + be_val u < (uint a + 1) * ?p"
      using that(2) by (simp add: algebra_simps)
    ultimately show ?thesis using be_val_nonneg [of v] by linarith
  qed
  have len: "length ys = length xs" using Cons.hyps by simp
  consider "x < y" | "x = y" | "y < x" by (rule linorder_cases)
  then show ?case
  proof cases
    case 1
    then show ?thesis using step [of x y xs ys] bx len by (simp add: word_less_def)
  next
    case 2
    then show ?thesis using Cons.IH len by simp
  next
    case 3
    then have "uint y < uint x" by (simp add: word_less_def)
    from step [OF this by', of xs] 3 len show ?thesis by (auto simp: word_less_def)
  qed
qed simp

lemma append_less_same [simp]: "xs @ ys < xs @ zs \<longleftrightarrow> ys < zs" for ys :: "'a::linorder list"
  by (induction xs) auto

lemma append_le_same [simp]: "xs @ ys \<le> xs @ zs \<longleftrightarrow> ys \<le> zs" for ys :: "'a::linorder list"
  by (induction xs) auto

lemma append_less_append:
  "length xs = length ys \<Longrightarrow> xs < ys \<Longrightarrow> xs @ us < ys @ vs" for xs :: "'a::linorder list"
  by (induction xs ys rule: list_induct2) auto

lemma append_less_append_iff:
  "length xs = length ys \<Longrightarrow> xs @ us < ys @ vs \<longleftrightarrow> xs < ys \<or> (xs = ys \<and> us < vs)"
  for xs :: "'a::linorder list"
  by (induction xs ys rule: list_induct2) auto

lemma to_be_bytes_less_iff:
  assumes "8 dvd LENGTH('a)"
  shows "to_be_bytes (v :: 'a::len word) < to_be_bytes w \<longleftrightarrow> v < w"
  using be_val_less_iff [of "to_be_bytes v" "to_be_bytes w"] assms
  by (simp add: be_val_to_be_bytes word_less_def)

lemma to_be_bytes_inject:
  assumes "8 dvd LENGTH('a)"
  shows "to_be_bytes (v :: 'a::len word) = to_be_bytes w \<longleftrightarrow> v = w"
  by (metis assms from_to_be_bytes)

section \<open>Facts on decimal numerals\<close>

lemma digit_char [simp]:
  "d < 10 \<Longrightarrow> is_digit (char_of (48 + d))" "d < 10 \<Longrightarrow> digit_val (char_of (48 + d)) = d"
  by (simp_all add: is_digit_def digit_val_def)

lemma dec_value_snoc: "dec_value (s @ [c]) = 10 * dec_value s + digit_val c"
  by (simp add: dec_value_def)

lemma dec_string_digits: "list_all is_digit (dec_string n) \<and> dec_string n \<noteq> []"
  by (induction n rule: dec_string.induct) (subst (1 2) dec_string.simps, auto)

lemma dec_value_string [simp]: "dec_value (dec_string n) = n"
proof (induction n rule: dec_string.induct)
  case (1 n)
  show ?case
  proof (cases "n < 10")
    case True
    then show ?thesis by (subst dec_string.simps) (simp add: dec_value_def)
  next
    case False
    then show ?thesis using 1 by (subst dec_string.simps) (simp add: dec_value_snoc)
  qed
qed

lemma plus_no_digit [simp]: "\<not> is_digit (CHR ''+'')"
  by (simp add: is_digit_def)

lemma parse_dec_string [simp]: "parse_uint (dec_string (unat w)) = Some (w :: 'a::len word)"
proof -
  have d: "list_all is_digit (dec_string (unat w))" "dec_string (unat w) \<noteq> []"
    using dec_string_digits by auto
  then obtain c cs where c: "dec_string (unat w) = c # cs" "is_digit c"
    by (cases "dec_string (unat w)") auto
  then have "c \<noteq> CHR ''+''" using plus_no_digit by metis
  then have "(case dec_string (unat w) of [] \<Rightarrow> dec_string (unat w)
      | x # xs \<Rightarrow> if x = CHR ''+'' then xs else dec_string (unat w)) = dec_string (unat w)"
    by (simp add: c(1))
  moreover have "int (unat w) < 2 ^ LENGTH('a)" using uint_lt2p [of w] by (simp only: uint_nat)
  ultimately show ?thesis using d by (simp add: parse_uint_def Let_def)
qed

section \<open>Facts on split strings\<close>

lemma split_on_nonempty: "split_on c s \<noteq> []"
  by (induction s) (auto split: list.splits)

lemma split_on_append:
  "c \<notin> set w \<Longrightarrow> split_on c (w @ c # s) = w # split_on c s"
  by (induction w) auto

lemma split_on_single: "c \<notin> set w \<Longrightarrow> split_on c w = [w]"
  by (induction w) auto

lemma split_join:
  "ws \<noteq> [] \<Longrightarrow> \<forall>w\<in>set ws. c \<notin> set w \<Longrightarrow> split_on c (join_with c ws) = ws"
  by (induction c ws rule: join_with.induct) (auto simp: split_on_append split_on_single)

end
