(* ===== verification/Timbre_Codec.thy ===== *)
theory Timbre_Codec
  imports Rust_Prelude "HOL-Library.Product_Lexorder"
begin

text \<open>
  The byte encodings of the crate \<open>timbre-xbt\<close> (\<open>encdec/encode.rs\<close>, \<open>encdec/decode.rs\<close>,
  \<open>encdec/builder.rs\<close>, the derive macros, the wrapper types of \<open>lib.rs\<close>). A Rust
  \<open>impl Encode\<close> is a function to bytes, an \<open>impl Decode\<close> a function from bytes to a
  \<open>Result\<close> of the value and the remaining slice; generic impls are functions of the encoders
  of their type parameters. The locale \<open>codec\<close> is the contract every pair keeps (decoding
  an encoding followed by anything gives the value back and leaves the rest), the locale
  \<open>ordered_codec\<close> adds that the bytes order as the values do, on which the key ranges rest.
  \<open>usize\<close> has 64 bits; slicing out of range, which panics in Rust, is the error
  \<open>Panicked\<close>.
\<close>

section \<open>Types of lib.rs\<close>

datatype TimbreError =
    MalformedInput string
  | InvalidUtf8 bytes
  | InvalidUtf8Str bytes
  | MalformedBase64
  | InvalidRange
  | VarUIntCasting u128
  | Panicked

type_synonym 'a decoder = "bytes \<Rightarrow> TimbreError + 'a \<times> bytes"

record CursorValue =
  cv_height :: u64
  cv_hash :: bytes
  cv_was_mempool :: bool
  cv_timestamp :: u64
  cv_mempool_info :: "((u64 \<times> bytes) \<times> u64) option"

datatype ShortByteString = ShortByteString (sbs_bytes: bytes)

datatype 'a TimbreVec = TimbreVec (tv_vec: "'a list")

datatype VarUInt = VarUInt (inner: u128)

instantiation VarUInt :: linorder
begin

definition less_eq_VarUInt :: "VarUInt \<Rightarrow> VarUInt \<Rightarrow> bool" where
  "less_eq_VarUInt a b \<longleftrightarrow> inner a \<le> inner b"

definition less_VarUInt :: "VarUInt \<Rightarrow> VarUInt \<Rightarrow> bool" where
  "less_VarUInt a b \<longleftrightarrow> inner a < inner b"

instance
  by standard (auto simp: less_eq_VarUInt_def less_VarUInt_def VarUInt.expand)

end

definition sbs_try_from :: "bytes \<Rightarrow> bytes + ShortByteString" where
  "sbs_try_from bs = (if length bs > 255 then Inl bs else Inr (ShortByteString bs))"

definition varuint_from :: "'a::len word \<Rightarrow> TimbreError + VarUInt" where
  "varuint_from v = (case try_from v of None \<Rightarrow> Inl Panicked | Some w \<Rightarrow> Inr (VarUInt w))"

definition try_from_varuint :: "VarUInt \<Rightarrow> TimbreError + 'a::len word" where
  "try_from_varuint v =
     (case try_from (inner v) of None \<Rightarrow> Inl (VarUIntCasting (inner v)) | Some w \<Rightarrow> Inr w)"

section \<open>The builder\<close>

definition BREAK :: u8 where "BREAK = 0x60"
definition BREAK_1 :: u8 where "BREAK_1 = BREAK + 1"
definition PREFIX_CURSOR :: u8 where "PREFIX_CURSOR = 0x43"
definition PREFIX_DATA :: u8 where "PREFIX_DATA = 0x44"
definition PREFIX_INFO :: u8 where "PREFIX_INFO = 0x49"
definition PREFIX_BATCHING_LOCK :: u8 where "PREFIX_BATCHING_LOCK = 0x4C"
definition PREFIX_BATCH_COMPLETE :: u8 where "PREFIX_BATCH_COMPLETE = 0x42"
definition PREFIX_ROLLBACK :: u8 where "PREFIX_ROLLBACK = 0x52"
definition PREFIX_COLLECTION_METADATA :: u8 where "PREFIX_COLLECTION_METADATA = 0x54"
definition PREFIX_MINER_METADATA :: u8 where "PREFIX_MINER_METADATA = 0x55"

record EncodeBuilder =
  eb_output :: bytes

definition enc_new :: EncodeBuilder where
  "enc_new = \<lparr>eb_output = []\<rparr>"

definition enc_tag :: "u8 \<Rightarrow> EncodeBuilder \<Rightarrow> EncodeBuilder" where
  "enc_tag t b = b\<lparr>eb_output := eb_output b @ [t]\<rparr>"

definition enc_break :: "EncodeBuilder \<Rightarrow> EncodeBuilder" where
  "enc_break b = enc_tag BREAK b"

definition enc_break1 :: "EncodeBuilder \<Rightarrow> EncodeBuilder" where
  "enc_break1 b = enc_tag BREAK_1 b"

definition enc_append :: "bytes \<Rightarrow> EncodeBuilder \<Rightarrow> EncodeBuilder" where
  "enc_append bs b = b\<lparr>eb_output := eb_output b @ bs\<rparr>"

definition enc_append_with_break :: "bytes \<Rightarrow> EncodeBuilder \<Rightarrow> EncodeBuilder" where
  "enc_append_with_break bs b = enc_break (enc_append bs b)"

definition enc_build :: "EncodeBuilder \<Rightarrow> bytes" where
  "enc_build b = eb_output b"

text \<open>The derived encoding of a struct: the encoded fields with a break after all but the last.\<close>

fun derive_encode_loop :: "bytes list \<Rightarrow> EncodeBuilder \<Rightarrow> EncodeBuilder" where
  "derive_encode_loop [] b = b"
| "derive_encode_loop [f] b = enc_append f b"
| "derive_encode_loop (f # g # fs) b = derive_encode_loop (g # fs) (enc_append_with_break f b)"

definition derive_encode :: "bytes list \<Rightarrow> bytes" where
  "derive_encode fs = enc_build (derive_encode_loop fs enc_new)"

text \<open>Decoding a field that is not the last: the byte after it is skipped unread.\<close>

definition derive_decode_field :: "'a decoder \<Rightarrow> 'a decoder" where
  "derive_decode_field d bs =
     and_then (d bs) (\<lambda>(x, rest). case rest of [] \<Rightarrow> Inl Panicked | _ # bs \<Rightarrow> Inr (x, bs))"

section \<open>Primitive types\<close>

definition encode_int :: "'a::len word \<Rightarrow> bytes" where
  "encode_int w = to_be_bytes w"

definition decode_int :: "'a::len word decoder" where
  "decode_int bs =
     (let size = LENGTH('a) div 8 in
      if length bs < size then Inl (MalformedInput ''Insufficient bytes for decoding'')
      else Inr (from_be_bytes (take size bs), drop size bs))"

definition encode_bool :: "bool \<Rightarrow> bytes" where
  "encode_bool b = [if b then 1 else 0]"

definition decode_bool :: "bool decoder" where
  "decode_bool bs =
     (case bs of [] \<Rightarrow> Inl (MalformedInput ''Insufficient bytes for bool decoding'')
      | b # bs \<Rightarrow> Inr (b \<noteq> 0, bs))"

definition encode_array :: "bytes \<Rightarrow> bytes" where
  "encode_array a = a"

definition decode_array :: "nat \<Rightarrow> bytes decoder" where
  "decode_array n bs =
     (if length bs < n then Inl (MalformedInput ''Insufficient bytes for array decoding'')
      else Inr (take n bs, drop n bs))"

definition split_at_checked :: "nat \<Rightarrow> bytes \<Rightarrow> (bytes \<times> bytes) option" where
  "split_at_checked n bs = (if length bs < n then None else Some (take n bs, drop n bs))"

definition encode_ShortByteString :: "ShortByteString \<Rightarrow> bytes" where
  "encode_ShortByteString s = encode_int (word_of_nat (length (sbs_bytes s)) :: u8) @ sbs_bytes s"

definition decode_ShortByteString :: "ShortByteString decoder" where
  "decode_ShortByteString bs =
     (case bs of [] \<Rightarrow> Inl (MalformedInput ''Empty bytes for ShortByteString decode'')
      | len # bs \<Rightarrow>
        (case split_at_checked (unat len) bs of
           None \<Rightarrow> Inl (MalformedInput ''Insufficient bytes for ShortByteString decode'')
         | Some (d, bs) \<Rightarrow> Inr (ShortByteString d, bs)))"

text \<open>
  \<open>VarUInt\<close> skips the leading zero bytes; the loop over the index is the recursion over the
  remaining suffix of the 16 bytes.
\<close>

fun encode_VarUInt_loop :: "bytes \<Rightarrow> bytes" where
  "encode_VarUInt_loop [] = [0]"
| "encode_VarUInt_loop (b # bend) =
     (if b \<noteq> 0 then word_of_nat (length (b # bend)) # b # bend else encode_VarUInt_loop bend)"

definition encode_VarUInt :: "VarUInt \<Rightarrow> bytes" where
  "encode_VarUInt v = encode_VarUInt_loop (to_be_bytes (inner v))"

definition decode_VarUInt :: "VarUInt decoder" where
  "decode_VarUInt bs =
     (case bs of [] \<Rightarrow> Inl (MalformedInput ''Empty bytes for VarUInt decode'')
      | len # bs \<Rightarrow>
        if unat len > 16 then Inl (MalformedInput ''VarUInt length byte exceeds 16'')
        else (case split_at_checked (unat len) bs of
           None \<Rightarrow> Inl (MalformedInput ''Insufficient bytes for VarUInt decode'')
         | Some (d, bs) \<Rightarrow>
             Inr (VarUInt (from_be_bytes (replicate (16 - unat len) 0 @ d)), bs)))"

definition encode_string :: "bytes \<Rightarrow> bytes" where
  "encode_string s = encode_int (word_of_nat (length s) :: u64) @ s"

text \<open>
  \<open>String::decode\<close> hands only the first four bytes to \<open>u32::decode\<close> and goes on with what
  that call leaves of them.
\<close>

definition decode_string :: "bytes decoder" where
  "decode_string bs =
     (if length bs < 4 then Inl Panicked
      else and_then (decode_int (take 4 bs) :: TimbreError + u32 \<times> bytes) (\<lambda>(len, bs).
        if length bs < unat len then Inl Panicked
        else let s = take (unat len) bs in
          if is_utf8 s then Inr (s, drop (unat len) bs) else Inl (InvalidUtf8 s)))"

definition encode_char :: "u32 \<Rightarrow> bytes" where
  "encode_char c = [ucast c]"

definition decode_char :: "u32 decoder" where
  "decode_char bs =
     (case bs of [] \<Rightarrow> Inl (MalformedInput ''Insufficient bytes for char decoding'')
      | b # bs \<Rightarrow> Inr (ucast b, bs))"

section \<open>Generic types\<close>

definition encode_pair :: "('a \<Rightarrow> bytes) \<Rightarrow> ('b \<Rightarrow> bytes) \<Rightarrow> 'a \<times> 'b \<Rightarrow> bytes" where
  "encode_pair ea eb p = ea (fst p) @ eb (snd p)"

definition decode_pair :: "'a decoder \<Rightarrow> 'b decoder \<Rightarrow> ('a \<times> 'b) decoder" where
  "decode_pair da db bs =
     and_then (da bs) (\<lambda>(first, bs). and_then (db bs) (\<lambda>(second, bs). Inr ((first, second), bs)))"

definition encode_triple ::
  "('a \<Rightarrow> bytes) \<Rightarrow> ('b \<Rightarrow> bytes) \<Rightarrow> ('c \<Rightarrow> bytes) \<Rightarrow> 'a \<times> 'b \<times> 'c \<Rightarrow> bytes" where
  "encode_triple ea eb ec t = (case t of (a, b, c) \<Rightarrow> ea a @ eb b @ ec c)"

definition decode_triple :: "'a decoder \<Rightarrow> 'b decoder \<Rightarrow> 'c decoder \<Rightarrow> ('a \<times> 'b \<times> 'c) decoder" where
  "decode_triple da db dc bs =
     and_then (da bs) (\<lambda>(first, bs). and_then (db bs) (\<lambda>(second, bs).
       and_then (dc bs) (\<lambda>(third, bs). Inr ((first, second, third), bs))))"

definition encode_option :: "('a \<Rightarrow> bytes) \<Rightarrow> 'a option \<Rightarrow> bytes" where
  "encode_option e o1 = encode_bool (o1 \<noteq> None) @ (case o1 of None \<Rightarrow> [] | Some x \<Rightarrow> e x)"

definition decode_option :: "'a decoder \<Rightarrow> 'a option decoder" where
  "decode_option d bs =
     and_then (decode_int bs :: TimbreError + u8 \<times> bytes) (\<lambda>(presence, bs).
       if presence = 0 then Inr (None, bs)
       else and_then (d bs) (\<lambda>(v, bs). Inr (Some v, bs)))"

fun decode_items :: "'a decoder \<Rightarrow> nat \<Rightarrow> 'a list decoder" where
  "decode_items d 0 bs = Inr ([], bs)"
| "decode_items d (Suc n) bs =
     and_then (d bs) (\<lambda>(item, bs). and_then (decode_items d n bs) (\<lambda>(vec, bs). Inr (item # vec, bs)))"

definition encode_vec :: "('a \<Rightarrow> bytes) \<Rightarrow> 'a list \<Rightarrow> bytes" where
  "encode_vec e xs = encode_int (word_of_nat (length xs) :: u32) @ concat (map e xs)"

definition decode_vec :: "'a decoder \<Rightarrow> 'a list decoder" where
  "decode_vec d bs =
     and_then (decode_int bs :: TimbreError + u32 \<times> bytes) (\<lambda>(len, bs). decode_items d (unat len) bs)"

definition encode_TimbreVec :: "('a \<Rightarrow> bytes) \<Rightarrow> 'a TimbreVec \<Rightarrow> bytes" where
  "encode_TimbreVec e v =
     encode_VarUInt (VarUInt (word_of_nat (length (tv_vec v)))) @ concat (map e (tv_vec v))"

definition decode_TimbreVec :: "'a decoder \<Rightarrow> 'a TimbreVec decoder" where
  "decode_TimbreVec d bs =
     and_then (decode_VarUInt bs) (\<lambda>(v, bs).
       and_then (try_from_varuint v :: TimbreError + u64) (\<lambda>len.
         and_then (decode_items d (unat len) bs) (\<lambda>(vec, bs). Inr (TimbreVec vec, bs))))"

text \<open>\<open>IndexMap\<close> keeps the insertion order: an association list whose keys are distinct.\<close>

fun index_map_insert :: "'k \<Rightarrow> 'v \<Rightarrow> ('k \<times> 'v) list \<Rightarrow> ('k \<times> 'v) list" where
  "index_map_insert k v [] = [(k, v)]"
| "index_map_insert k v ((k', v') # m) =
     (if k = k' then (k', v) # m else (k', v') # index_map_insert k v m)"

fun decode_entries ::
  "'k decoder \<Rightarrow> 'v decoder \<Rightarrow> nat \<Rightarrow> ('k \<times> 'v) list \<Rightarrow> ('k \<times> 'v) list decoder" where
  "decode_entries dk dv 0 m bs = Inr (m, bs)"
| "decode_entries dk dv (Suc n) m bs =
     and_then (dk bs) (\<lambda>(key, bs). and_then (dv bs) (\<lambda>(v, bs).
       decode_entries dk dv n (index_map_insert key v m) bs))"

definition encode_IndexMap :: "('k \<Rightarrow> bytes) \<Rightarrow> ('v \<Rightarrow> bytes) \<Rightarrow> ('k \<times> 'v) list \<Rightarrow> bytes" where
  "encode_IndexMap ek ev m =
     encode_int (word_of_nat (length m) :: u64) @ concat (map (\<lambda>(k, v). ek k @ ev v) m)"

definition decode_IndexMap :: "'k decoder \<Rightarrow> 'v decoder \<Rightarrow> ('k \<times> 'v) list decoder" where
  "decode_IndexMap dk dv bs =
     and_then (decode_int bs :: TimbreError + u64 \<times> bytes) (\<lambda>(len, bs).
       decode_entries dk dv (unat len) [] bs)"

definition encode_CursorValue :: "CursorValue \<Rightarrow> bytes" where
  "encode_CursorValue c =
     encode_int (cv_height c) @ encode_array (cv_hash c) @ encode_bool (cv_was_mempool c) @
     encode_int (cv_timestamp c) @
     encode_option (encode_pair (encode_pair encode_int encode_array) encode_int) (cv_mempool_info c)"

definition decode_CursorValue :: "CursorValue decoder" where
  "decode_CursorValue bs =
     and_then (decode_int bs) (\<lambda>(height, bs).
     and_then (decode_array 32 bs) (\<lambda>(hash, bs).
     and_then (decode_bool bs) (\<lambda>(was_mempool, bs).
     and_then (decode_int bs) (\<lambda>(timestamp, bs).
     and_then (decode_option (decode_pair (decode_pair decode_int (decode_array 32)) decode_int) bs)
       (\<lambda>(mempool_info, bs).
     Inr (\<lparr>cv_height = height, cv_hash = hash, cv_was_mempool = was_mempool,
           cv_timestamp = timestamp, cv_mempool_info = mempool_info\<rparr>, bs))))))"

text \<open>The derived encoding of an enum: the index of the variant as one byte, then its fields.\<close>

datatype AssetKind = Dogecoin | Rune "VarUInt \<times> VarUInt"

definition encode_AssetKind :: "AssetKind \<Rightarrow> bytes" where
  "encode_AssetKind k =
     (case k of Dogecoin \<Rightarrow> [0] | Rune f \<Rightarrow> 1 # encode_pair encode_VarUInt encode_VarUInt f)"

definition decode_AssetKind :: "AssetKind decoder" where
  "decode_AssetKind bs =
     (case bs of [] \<Rightarrow> Inl Panicked
      | kind # bs \<Rightarrow>
        if kind = 0 then Inr (Dogecoin, bs)
        else if kind = 1 then
          and_then (decode_pair decode_VarUInt decode_VarUInt bs) (\<lambda>(f, bs). Inr (Rune f, bs))
        else Inl (MalformedInput ''Unrecognized asset kind''))"

text \<open>The base64 engine is a crate of its own: its two functions are parameters.\<close>

definition encode_base64 :: "(bytes \<Rightarrow> string) \<Rightarrow> ('a \<Rightarrow> bytes) \<Rightarrow> 'a \<Rightarrow> string" where
  "encode_base64 b64_encode e x = b64_encode (e x)"

definition decode_base64 ::
  "(string \<Rightarrow> bytes option) \<Rightarrow> 'a decoder \<Rightarrow> string \<Rightarrow> TimbreError + 'a \<times> bytes" where
  "decode_base64 b64_decode d s =
     (case b64_decode s of None \<Rightarrow> Inl MalformedBase64
      | Some binding \<Rightarrow> and_then (d binding) (\<lambda>(decoded, remaining).
          if is_utf8 remaining then Inr (decoded, remaining) else Inl (InvalidUtf8Str remaining)))"

section \<open>The contract of an encoding\<close>

locale codec =
  fixes wf :: "'a \<Rightarrow> bool" and e :: "'a \<Rightarrow> bytes" and d :: "'a decoder"
  assumes dec_enc: "wf x \<Longrightarrow> d (e x @ rest) = Inr (x, rest)"
begin

lemma roundtrip: "wf x \<Longrightarrow> d (e x) = Inr (x, [])"
  using dec_enc [of x "[]"] by simp

lemma enc_append_inject:
  assumes "wf x" "wf y"
  shows "e x @ r = e y @ s \<longleftrightarrow> x = y \<and> r = s"
  by (metis assms dec_enc prod.inject sum.inject(2))

lemma enc_inject: "wf x \<Longrightarrow> wf y \<Longrightarrow> e x = e y \<longleftrightarrow> x = y"
  using enc_append_inject [of x y "[]" "[]"] by simp

text \<open>No encoding is a proper prefix of another one, so concatenations parse in one way only.\<close>

lemma enc_prefix_free:
  assumes "wf x" "wf y" "take (length (e x)) (e y) = e x"
  shows "x = y"
proof -
  have "e x @ drop (length (e x)) (e y) = e y @ []"
    using append_take_drop_id [of "length (e x)" "e y"] assms(3) by simp
  then show ?thesis using enc_append_inject [OF assms(1,2)] by blast
qed

end

locale ordered_codec = codec wf e d
  for wf :: "'a::linorder \<Rightarrow> bool" and e :: "'a \<Rightarrow> bytes" and d :: "'a decoder" +
  assumes enc_less: "wf x \<Longrightarrow> wf y \<Longrightarrow> x < y \<Longrightarrow> e x @ r < e y @ s"
begin

lemma enc_less_iff:
  assumes "wf x" "wf y"
  shows "e x @ r < e y @ s \<longleftrightarrow> x < y \<or> (x = y \<and> r < s)"
proof (cases x y rule: linorder_cases)
  case less
  then show ?thesis using enc_less [OF assms less] by auto
next
  case equal
  then show ?thesis by simp
next
  case greater
  then show ?thesis using enc_less [OF assms(2,1) greater, of s r] by auto
qed

end

section \<open>The primitive encodings keep the contract\<close>

lemma split_at_checked_append [simp]:
  "length xs = n \<Longrightarrow> split_at_checked n (xs @ ys) = Some (xs, ys)"
  by (simp add: split_at_checked_def)

lemma decode_encode_int [simp]:
  assumes "8 dvd LENGTH('a)"
  shows "decode_int (encode_int (w :: 'a::len word) @ rest) = Inr (w, rest)"
  using assms by (simp add: decode_int_def encode_int_def Let_def)

lemma ordered_codec_int [codec_intros]:
  assumes "8 dvd LENGTH('a)"
  shows "ordered_codec (\<lambda>_. True) encode_int (decode_int :: 'a::len word decoder)"
proof
  show "decode_int (encode_int x @ rest) = Inr (x, rest)" for x :: "'a word" and rest
    using assms by simp
  show "encode_int x @ r < encode_int y @ s" if "x < y" for x y :: "'a word" and r s
    using append_less_append [of "encode_int x" "encode_int y"] that assms
    by (simp add: encode_int_def to_be_bytes_less_iff)
qed

lemma ordered_codec_bool [codec_intros]: "ordered_codec (\<lambda>_. True) encode_bool decode_bool"
  by unfold_locales (auto simp: encode_bool_def decode_bool_def)

lemma ordered_codec_array [codec_intros]:
  "ordered_codec (\<lambda>a. length a = n) encode_array (decode_array n)"
  by unfold_locales (auto simp: encode_array_def decode_array_def intro: append_less_append)

lemma codec_ShortByteString [codec_intros]:
  "codec (\<lambda>s. length (sbs_bytes s) \<le> 255) encode_ShortByteString decode_ShortByteString"
  by unfold_locales
    (auto simp: encode_ShortByteString_def decode_ShortByteString_def encode_int_def to_be_bytes_def
      unat_of_nat upt_rec)

section \<open>VarUInt\<close>

fun strip_zeros :: "bytes \<Rightarrow> bytes" where
  "strip_zeros [] = []"
| "strip_zeros (b # bs) = (if b \<noteq> 0 then b # bs else strip_zeros bs)"

lemma encode_VarUInt_loop_strip:
  "encode_VarUInt_loop bs = word_of_nat (length (strip_zeros bs)) # strip_zeros bs"
  by (induction bs) auto

lemma length_strip_zeros: "length (strip_zeros bs) \<le> length bs"
  by (induction bs) auto

lemma be_val_strip_zeros [simp]: "be_val (strip_zeros bs) = be_val bs"
  by (induction bs) auto

lemma strip_zeros_hd: "strip_zeros bs = b # cs \<Longrightarrow> b \<noteq> 0"
  by (induction bs) (auto split: if_splits)

lemma be_val_replicate_0 [simp]: "be_val (replicate n 0 @ bs) = be_val bs"
  by (induction n) auto

lemma be_val_ge_strip:
  "strip_zeros bs \<noteq> [] \<Longrightarrow> 256 ^ (length (strip_zeros bs) - 1) \<le> be_val bs"
proof -
  assume "strip_zeros bs \<noteq> []"
  then obtain b cs where s: "strip_zeros bs = b # cs" by (cases "strip_zeros bs") auto
  then have "b \<noteq> 0" by (rule strip_zeros_hd)
  then have "1 \<le> uint b" by (metis int_one_le_iff_zero_less uint_ge_0 order_le_less uint_0_iff)
  then have "1 * 256 ^ length cs \<le> uint b * 256 ^ length cs" by (intro mult_right_mono) auto
  moreover have "be_val bs = uint b * 256 ^ length cs + be_val cs"
    using be_val_strip_zeros [of bs] s by simp
  ultimately have "256 ^ length cs \<le> be_val bs" using be_val_nonneg [of cs] by linarith
  then show ?thesis using s by simp
qed

lemma strip_zeros_length_mono:
  assumes "be_val xs \<le> be_val ys"
  shows "length (strip_zeros xs) \<le> length (strip_zeros ys)"
proof (rule ccontr)
  assume c: "\<not> ?thesis"
  then have ne: "strip_zeros xs \<noteq> []" by auto
  have "be_val ys < 256 ^ length (strip_zeros ys)"
    using be_val_less [of "strip_zeros ys"] by simp
  also have "(256 :: int) ^ length (strip_zeros ys) \<le> 256 ^ (length (strip_zeros xs) - 1)"
    using c by (intro power_increasing) auto
  also have "\<dots> \<le> be_val xs" by (rule be_val_ge_strip [OF ne])
  finally show False using assms by simp
qed

lemma encode_VarUInt_strip:
  obtains zs where "encode_VarUInt v = word_of_nat (length zs) # zs" "length zs \<le> 16"
    "be_val zs = uint (inner v)" "zs = strip_zeros (to_be_bytes (inner v))"
proof
  let ?zs = "strip_zeros (to_be_bytes (inner v))"
  show "encode_VarUInt v = word_of_nat (length ?zs) # ?zs"
    by (simp add: encode_VarUInt_def encode_VarUInt_loop_strip)
  show "length ?zs \<le> 16" using length_strip_zeros [of "to_be_bytes (inner v)"] by simp
  show "be_val ?zs = uint (inner v)" by (simp add: be_val_to_be_bytes)
qed simp

lemma unat_word8_small: "n \<le> 16 \<Longrightarrow> unat (word_of_nat n :: u8) = n"
  by (simp add: unat_of_nat)

lemma decode_encode_VarUInt [simp]: "decode_VarUInt (encode_VarUInt v @ rest) = Inr (v, rest)"
proof -
  obtain zs where zs: "encode_VarUInt v = word_of_nat (length zs) # zs" "length zs \<le> 16"
    "be_val zs = uint (inner v)" by (rule encode_VarUInt_strip)
  then show ?thesis
    by (simp add: decode_VarUInt_def unat_word8_small from_be_bytes_def)
qed

lemma encode_VarUInt_less: "v < w \<Longrightarrow> encode_VarUInt v @ r < encode_VarUInt w @ s"
proof -
  assume lt: "v < w"
  obtain xs where xs: "encode_VarUInt v = word_of_nat (length xs) # xs" "length xs \<le> 16"
    "be_val xs = uint (inner v)" "xs = strip_zeros (to_be_bytes (inner v))"
    by (rule encode_VarUInt_strip)
  obtain ys where ys: "encode_VarUInt w = word_of_nat (length ys) # ys" "length ys \<le> 16"
    "be_val ys = uint (inner w)" "ys = strip_zeros (to_be_bytes (inner w))"
    by (rule encode_VarUInt_strip)
  from lt have val: "be_val xs < be_val ys"
    by (simp add: xs(3) ys(3) less_VarUInt_def word_less_def)
  then have len: "length xs \<le> length ys"
    using strip_zeros_length_mono [of "to_be_bytes (inner v)" "to_be_bytes (inner w)"]
    by (simp add: xs(4) ys(4))
  show ?thesis
  proof (cases "length xs = length ys")
    case True
    then show ?thesis using val be_val_less_iff [OF True] xs ys
      by (auto intro: append_less_append)
  next
    case False
    then have "(word_of_nat (length xs) :: u8) < word_of_nat (length ys)"
      using len xs(2) ys(2) by (simp add: word_less_nat_alt unat_word8_small)
    then show ?thesis by (simp add: xs(1) ys(1))
  qed
qed

lemma ordered_codec_VarUInt [codec_intros]:
  "ordered_codec (\<lambda>_. True) encode_VarUInt decode_VarUInt"
  by unfold_locales (auto intro: encode_VarUInt_less)

section \<open>Generic encodings preserve the contract\<close>

lemma codec_pair [codec_intros]:
  assumes "codec wa ea da" "codec wb eb db"
  shows "codec (\<lambda>p. wa (fst p) \<and> wb (snd p)) (encode_pair ea eb) (decode_pair da db)"
proof -
  note a = codec.dec_enc [OF assms(1)] and b = codec.dec_enc [OF assms(2)]
  show ?thesis by unfold_locales (auto simp: encode_pair_def decode_pair_def a b)
qed

lemma codec_triple [codec_intros]:
  assumes "codec wa ea da" "codec wb eb db" "codec wc ec dc"
  shows "codec (\<lambda>(a, b, c). wa a \<and> wb b \<and> wc c) (encode_triple ea eb ec) (decode_triple da db dc)"
  using assms
  by (auto simp: codec_def encode_triple_def decode_triple_def)

lemma decode_presence [simp]:
  "decode_int (0 # rest) = Inr (0 :: u8, rest)" "decode_int (1 # rest) = Inr (1 :: u8, rest)"
  by (simp_all add: decode_int_def from_be_bytes_def)

lemma codec_option [codec_intros]:
  assumes "codec w e d"
  shows "codec (pred_option w) (encode_option e) (decode_option d)"
  using assms
  by (auto simp: codec_def encode_option_def decode_option_def encode_bool_def split: option.splits)

lemma decode_items_append:
  assumes "codec w e d" "list_all w xs"
  shows "decode_items d (length xs) (concat (map e xs) @ rest) = Inr (xs, rest)"
  using assms(2) by (induction xs) (simp_all add: codec.dec_enc [OF assms(1)])

lemma codec_vec [codec_intros]:
  assumes "codec w e d"
  shows "codec (\<lambda>xs. length xs < 2 ^ 32 \<and> list_all w xs) (encode_vec e) (decode_vec d)"
  by unfold_locales
    (simp add: encode_vec_def decode_vec_def decode_items_append [OF assms] unat_of_nat)

lemma codec_TimbreVec [codec_intros]:
  assumes "codec w e d"
  shows "codec (\<lambda>v. length (tv_vec v) < 2 ^ 64 \<and> list_all w (tv_vec v))
    (encode_TimbreVec e) (decode_TimbreVec d)"
proof
  fix v :: "'a TimbreVec" and rest
  assume v: "length (tv_vec v) < 2 ^ 64 \<and> list_all w (tv_vec v)"
  let ?n = "word_of_nat (length (tv_vec v)) :: u128"
  have n: "unat ?n = length (tv_vec v)" using v by (simp add: unat_of_nat)
  have "(ucast ?n :: u64) = word_of_nat (unat ?n)" by (rule of_nat_unat [symmetric])
  then have "(try_from_varuint (VarUInt ?n) :: TimbreError + u64) = Inr (word_of_nat (length (tv_vec v)))"
    using v by (simp add: try_from_varuint_def try_from_def uint_nat n)
  then show "decode_TimbreVec d (encode_TimbreVec e v @ rest) = Inr (v, rest)"
    using v by (simp add: encode_TimbreVec_def decode_TimbreVec_def unat_of_nat
        decode_items_append [OF assms])
qed

lemma index_map_insert_new:
  "k \<notin> fst ` set m \<Longrightarrow> index_map_insert k v m = m @ [(k, v)]"
  by (induction m) auto

lemma decode_entries_append:
  assumes "codec wk ek dk" "codec wv ev dv"
  shows "list_all (\<lambda>(k, v). wk k \<and> wv v) m \<Longrightarrow> distinct (map fst (acc @ m)) \<Longrightarrow>
    decode_entries dk dv (length m) acc (concat (map (\<lambda>(k, v). ek k @ ev v) m) @ rest)
      = Inr (acc @ m, rest)"
  by (induction m arbitrary: acc)
    (auto simp: codec.dec_enc [OF assms(1)] codec.dec_enc [OF assms(2)] index_map_insert_new)

lemma codec_IndexMap [codec_intros]:
  assumes "codec wk ek dk" "codec wv ev dv"
  shows "codec (\<lambda>m. length m < 2 ^ 64 \<and> distinct (map fst m) \<and> list_all (\<lambda>(k, v). wk k \<and> wv v) m)
    (encode_IndexMap ek ev) (decode_IndexMap dk dv)"
  using decode_entries_append [OF assms, where acc = "[]"]
  by unfold_locales (simp add: encode_IndexMap_def decode_IndexMap_def unat_of_nat)

definition wf_mempool_info :: "(u64 \<times> bytes) \<times> u64 \<Rightarrow> bool" where
  "wf_mempool_info i \<longleftrightarrow> length (snd (fst i)) = 32"

definition wf_CursorValue :: "CursorValue \<Rightarrow> bool" where
  "wf_CursorValue c \<longleftrightarrow> length (cv_hash c) = 32 \<and> pred_option wf_mempool_info (cv_mempool_info c)"

lemmas primitive_laws =
  codec.dec_enc [OF ordered_codec.axioms(1) [OF ordered_codec_bool], simplified]
  codec.dec_enc [OF ordered_codec.axioms(1) [OF ordered_codec_array]]
  codec.dec_enc [OF codec_ShortByteString]

lemma codec_CursorValue [codec_intros]:
  "codec wf_CursorValue encode_CursorValue decode_CursorValue"
proof -
  have "codec (\<lambda>p. (\<lambda>q. True \<and> length (snd q) = 32) (fst p) \<and> True)
    (encode_pair (encode_pair encode_int encode_array) encode_int)
    (decode_pair (decode_pair decode_int (decode_array 32)) (decode_int :: u64 decoder) ::
      ((u64 \<times> bytes) \<times> u64) decoder)"
    by (intro codec_pair ordered_codec.axioms(1) codec_intros) simp_all
  then have "codec (pred_option wf_mempool_info)
    (encode_option (encode_pair (encode_pair encode_int encode_array) encode_int))
    (decode_option (decode_pair (decode_pair decode_int (decode_array 32)) decode_int))"
    unfolding wf_mempool_info_def by (intro codec_option) simp
  note info = codec.dec_enc [OF this]
  show ?thesis
    by unfold_locales
      (simp add: wf_CursorValue_def encode_CursorValue_def decode_CursorValue_def primitive_laws info)
qed

lemma codec_AssetKind [codec_intros]: "codec (\<lambda>_. True) encode_AssetKind decode_AssetKind"
  by unfold_locales
    (auto simp: encode_AssetKind_def decode_AssetKind_def encode_pair_def decode_pair_def
      split: AssetKind.splits)

section \<open>Derived encodings\<close>

lemma enc_build_append [simp]:
  "enc_build (enc_append f b) = enc_build b @ f"
  "enc_build (enc_tag t b) = enc_build b @ [t]"
  "enc_build (enc_break b) = enc_build b @ [BREAK]"
  "enc_build (enc_break1 b) = enc_build b @ [BREAK_1]"
  "enc_build (enc_append_with_break f b) = enc_build b @ f @ [BREAK]"
  "enc_build enc_new = []"
  by (simp_all add: enc_build_def enc_append_def enc_append_with_break_def enc_break_def
      enc_break1_def enc_tag_def enc_new_def)

fun break_separated :: "bytes list \<Rightarrow> bytes" where
  "break_separated [] = []"
| "break_separated [f] = f"
| "break_separated (f # g # fs) = f @ BREAK # break_separated (g # fs)"

lemma derive_encode_loop_build:
  "enc_build (derive_encode_loop fs b) = enc_build b @ break_separated fs"
  by (induction fs b rule: derive_encode_loop.induct) simp_all

lemma derive_encode_simps [simp]:
  "derive_encode [] = []"
  "derive_encode [f] = f"
  "derive_encode (f # g # fs) = f @ BREAK # derive_encode (g # fs)"
  by (simp_all add: derive_encode_def derive_encode_loop_build)

lemma derive_decode_field_law:
  "codec w e d \<Longrightarrow> w x \<Longrightarrow> derive_decode_field d (e x @ b # rest) = Inr (x, rest)"
  by (simp add: derive_decode_field_def codec.dec_enc)

section \<open>Interpretations\<close>

interpretation u64_codec: ordered_codec "\<lambda>_. True" "encode_int :: u64 \<Rightarrow> bytes" decode_int
  by (rule ordered_codec_int) simp

interpretation varuint_codec: ordered_codec "\<lambda>_. True" encode_VarUInt decode_VarUInt
  by (rule ordered_codec_VarUInt)

interpretation cursor_codec: codec wf_CursorValue encode_CursorValue decode_CursorValue
  by (rule codec_CursorValue)

interpretation hash_codec: ordered_codec "\<lambda>a. length a = 32" encode_array "decode_array 32"
  by (rule ordered_codec_array)

interpretation script_hash_codec: ordered_codec "\<lambda>a. length a = 20" encode_array "decode_array 20"
  by (rule ordered_codec_array)

section \<open>Properties\<close>

text \<open>
  Keys that contain a \<open>VarUInt\<close> sort as the integers do: whatever follows the two
  encodings, they compare as the numbers, and equal numbers compare by what follows.
\<close>

theorem varuint_order:
  "encode_VarUInt v @ r < encode_VarUInt w @ s \<longleftrightarrow> v < w \<or> (v = w \<and> r < s)"
  by (rule varuint_codec.enc_less_iff) simp_all

text \<open>
  A cursor written to the store is read back: decoding an encoded cursor whose hashes have
  32 bytes gives the cursor and leaves exactly the bytes that followed it.
\<close>

theorem cursor_value_roundtrip:
  assumes "wf_CursorValue c"
  shows "decode_CursorValue (encode_CursorValue c @ rest) = Inr (c, rest)"
  using assms by (rule cursor_codec.dec_enc)

definition sample_cursor :: CursorValue where
  "sample_cursor = \<lparr>cv_height = 1337, cv_hash = replicate 32 10, cv_was_mempool = True,
     cv_timestamp = 123456789, cv_mempool_info = Some ((1336, replicate 32 7), 5)\<rparr>"

theorem cursor_value_roundtrip_witness:
  "wf_CursorValue sample_cursor \<and>
   decode_CursorValue (encode_CursorValue sample_cursor @ [1, 2]) = Inr (sample_cursor, [1, 2])"
proof -
  have "wf_CursorValue sample_cursor"
    by (simp add: wf_CursorValue_def wf_mempool_info_def sample_cursor_def)
  then show ?thesis using cursor_value_roundtrip [of sample_cursor "[1, 2]"] by simp
qed

lemma to_be_bytes_u64_high:
  assumes "n < 2 ^ 32"
  shows "\<exists>lo. to_be_bytes (word_of_nat n :: u64) = [0, 0, 0, 0] @ lo"
proof -
  let ?w = "word_of_nat n :: u64"
  have high: "drop_bit (8 * i) ?w = 0" if "4 \<le> i" for i
  proof -
    have "n < 2 ^ (8 * i)"
      using assms that power_increasing [of 32 "8 * i" "2 :: nat"] by linarith
    moreover have "unat (drop_bit (8 * i) ?w) = drop_bit (8 * i) n"
      using assms unat_drop_bit_eq [of "8 * i" ?w] by (simp add: unat_of_nat)
    ultimately have "unat (drop_bit (8 * i) ?w) = 0" by (simp add: drop_bit_eq_div)
    then show ?thesis by (simp only: unat_eq_zero)
  qed
  show ?thesis using high [of 4] high [of 5] high [of 6] high [of 7]
    by (simp add: to_be_bytes_def upt_rec)
qed

text \<open>
  \<open>String\<close> does not survive its encoding: the length is written as eight bytes and read
  from the first four of them, and the decoder continues inside these four bytes. Decoding any
  encoded string shorter than 4 GiB succeeds with the empty string and an empty rest.
\<close>

theorem string_decode_empty:
  assumes "length s < 2 ^ 32"
  shows "decode_string (encode_string s @ rest) = Inr ([], [])"
proof -
  obtain lo where "to_be_bytes (word_of_nat (length s) :: u64) = [0, 0, 0, 0] @ lo"
    using to_be_bytes_u64_high [OF assms] by blast
  then show ?thesis
    by (simp add: decode_string_def encode_string_def encode_int_def decode_int_def
        from_be_bytes_def Let_def)
qed

theorem string_decode_empty_witness:
  "decode_string (encode_string [0x44, 0x4F, 0x47, 0x45] @ [1]) = Inr ([], []) \<and>
   length [0x44, 0x4F, 0x47, 0x45 :: u8] < 2 ^ 32"
  using string_decode_empty [of "[0x44, 0x4F, 0x47, 0x45]" "[1]"] by simp

end
