(* ===== verification/Timbre_Keys.thy ===== *)
theory Timbre_Keys
  imports Timbre_Codec
begin

text \<open>
  The layout of the database keys (\<open>timbre-xbt/src/lib.rs\<close>, \<open>encdec/namespace.rs\<close>,
  \<open>rollback/mod.rs\<close>, \<open>reducers/mod.rs\<close>): namespaces, the prefix of each kind of key, the
  rollback metadata key, and the key ranges scanned by the services. A range is a pair of
  bounds, the lower one included and the upper one excluded; an empty upper bound leaves the
  range open, as it does for the store. The lemmas state which keys a range selects.
\<close>

section \<open>Reducers and ingestors\<close>

datatype Reducer =
    EtchingByRuneId | MintsByRuneId | UtxosByRuneId | UtxosByScriptHash | RunesByUtxo
  | RuneInfoByRuneId | ScriptByScriptHash | ScriptHashByAddressPayloadHash | RuneIdByRuneName
  | InscriptionsByUtxo | Brc20TotalBalanceByScriptHash | Brc20AvailableBalanceByScriptHash
  | Brc20TermsByTicker | BalancesByBrc20 | TxsByScriptHash | RuneBalancesByScriptHash
  | InscriptionsByScriptHash | ContentByInscriptionId | TransferInscriptionsByScriptHash
  | SatsPerVbByBlock | InscriptionUtxosByScriptHash | InscriptionActivityByBlock | BlockByTxHash
  | HeightByBlockHash | InscriptionActivityByTx | TxsByInscription | TxInfo | BlockInfo
  | TxsByBlock | BalancesByRuneId | SpendingTxByTxo | RuneUtxosByScriptHash | TxsByRuneId
  | TxFirstSeenTimestamp | RuneTxsByScriptHash | SatBalanceByScriptHash | SatTxsByScriptHash
  | InscriptionActivityByScriptHash

fun reducer_u8 :: "Reducer \<Rightarrow> u8" where
  "reducer_u8 EtchingByRuneId = 97"
| "reducer_u8 MintsByRuneId = 98"
| "reducer_u8 UtxosByRuneId = 99"
| "reducer_u8 UtxosByScriptHash = 100"
| "reducer_u8 RunesByUtxo = 101"
| "reducer_u8 RuneInfoByRuneId = 102"
| "reducer_u8 ScriptByScriptHash = 103"
| "reducer_u8 ScriptHashByAddressPayloadHash = 104"
| "reducer_u8 RuneIdByRuneName = 105"
| "reducer_u8 InscriptionsByUtxo = 106"
| "reducer_u8 Brc20TotalBalanceByScriptHash = 107"
| "reducer_u8 Brc20AvailableBalanceByScriptHash = 108"
| "reducer_u8 Brc20TermsByTicker = 109"
| "reducer_u8 BalancesByBrc20 = 110"
| "reducer_u8 TxsByScriptHash = 111"
| "reducer_u8 RuneBalancesByScriptHash = 112"
| "reducer_u8 InscriptionsByScriptHash = 113"
| "reducer_u8 ContentByInscriptionId = 114"
| "reducer_u8 TransferInscriptionsByScriptHash = 115"
| "reducer_u8 SatsPerVbByBlock = 116"
| "reducer_u8 InscriptionUtxosByScriptHash = 117"
| "reducer_u8 InscriptionActivityByBlock = 118"
| "reducer_u8 BlockByTxHash = 119"
| "reducer_u8 HeightByBlockHash = 120"
| "reducer_u8 InscriptionActivityByTx = 121"
| "reducer_u8 TxsByInscription = 122"
| "reducer_u8 TxInfo = 123"
| "reducer_u8 BlockInfo = 124"
| "reducer_u8 TxsByBlock = 125"
| "reducer_u8 BalancesByRuneId = 126"
| "reducer_u8 SpendingTxByTxo = 127"
| "reducer_u8 RuneUtxosByScriptHash = 129"
| "reducer_u8 TxsByRuneId = 130"
| "reducer_u8 TxFirstSeenTimestamp = 131"
| "reducer_u8 RuneTxsByScriptHash = 132"
| "reducer_u8 SatBalanceByScriptHash = 133"
| "reducer_u8 SatTxsByScriptHash = 134"
| "reducer_u8 InscriptionActivityByScriptHash = 135"

definition encode_Reducer :: "Reducer \<Rightarrow> bytes" where
  "encode_Reducer r = [reducer_u8 r]"

datatype CollectionIngestor =
  MetadataByInscription | InscriptionsBySymbol | TokenMetadataByInscription | MetadataBySymbol

fun encode_CollectionIngestor :: "CollectionIngestor \<Rightarrow> bytes" where
  "encode_CollectionIngestor MetadataByInscription = [67]"
| "encode_CollectionIngestor InscriptionsBySymbol = [73]"
| "encode_CollectionIngestor TokenMetadataByInscription = [77]"
| "encode_CollectionIngestor MetadataBySymbol = [83]"

definition encode_MinerIngestor :: bytes where
  "encode_MinerIngestor = [77]"

section \<open>Ranges\<close>

type_synonym key_range = "bytes \<times> bytes"

definition in_range :: "key_range \<Rightarrow> bytes \<Rightarrow> bool" where
  "in_range r k \<longleftrightarrow> fst r \<le> k \<and> (snd r = [] \<or> k < snd r)"

text \<open>The loop runs over the bytes from the last one: it is the recursion over their reverse.\<close>

fun prefix_end_loop :: "bytes \<Rightarrow> bytes option" where
  "prefix_end_loop [] = None"
| "prefix_end_loop (b # bs) =
     (if b \<noteq> 255 then Some (rev ((b + 1) # bs)) else prefix_end_loop bs)"

definition prefix_key_range :: "bytes \<Rightarrow> key_range" where
  "prefix_key_range prefix =
     (prefix, case prefix_end_loop (rev prefix) of None \<Rightarrow> [] | Some e \<Rightarrow> e)"

section \<open>Namespaces and prefixes\<close>

record Namespace =
  dataplane_id :: u8
  instance_id :: u8

definition encode_Namespace :: "Namespace \<Rightarrow> bytes" where
  "encode_Namespace n =
     enc_build (enc_append (encode_int (instance_id n)) (enc_append (encode_int (dataplane_id n)) enc_new))"

definition dataplane_key_range :: "Namespace \<Rightarrow> key_range" where
  "dataplane_key_range n = prefix_key_range [dataplane_id n]"

definition instance_key_range :: "Namespace \<Rightarrow> key_range" where
  "instance_key_range n = prefix_key_range (encode_Namespace n)"

definition batch_complete_key_range :: "Namespace \<Rightarrow> key_range" where
  "batch_complete_key_range n =
     prefix_key_range (enc_build (enc_break (enc_tag PREFIX_BATCH_COMPLETE
       (enc_append (encode_Namespace n) enc_new))))"

definition prefix_cursor :: "Namespace \<Rightarrow> bytes" where
  "prefix_cursor n = enc_build (enc_tag PREFIX_CURSOR (enc_append (encode_Namespace n) enc_new))"

definition prefix_info :: "Namespace \<Rightarrow> bytes" where
  "prefix_info n = enc_build (enc_append (encode_Namespace n) (enc_break (enc_tag PREFIX_INFO enc_new)))"

definition prefix_data :: "Namespace \<Rightarrow> Reducer \<Rightarrow> bytes \<Rightarrow> bytes" where
  "prefix_data n kind d =
     enc_build (enc_append d (enc_append_with_break (encode_Reducer kind)
       (enc_tag PREFIX_DATA (enc_append (encode_Namespace n) enc_new))))"

definition prefix_collection_metadata :: "Namespace \<Rightarrow> CollectionIngestor \<Rightarrow> bytes \<Rightarrow> bytes" where
  "prefix_collection_metadata n kind d =
     enc_build (enc_append d (enc_append_with_break (encode_CollectionIngestor kind)
       (enc_tag PREFIX_COLLECTION_METADATA (enc_append (encode_Namespace n) enc_new))))"

definition prefix_miner_metadata :: "Namespace \<Rightarrow> bytes \<Rightarrow> bytes" where
  "prefix_miner_metadata n d =
     enc_build (enc_append d (enc_append_with_break encode_MinerIngestor
       (enc_tag PREFIX_MINER_METADATA (enc_append (encode_Namespace n) enc_new))))"

section \<open>Rollback metadata\<close>

record MetadataKey =
  mk_height :: u64
  mk_hash :: bytes
  mk_operation_idx :: u64
  mk_modified_key :: bytes

definition encode_MetadataKey :: "MetadataKey \<Rightarrow> bytes" where
  "encode_MetadataKey k =
     derive_encode [encode_int (mk_height k), encode_array (mk_hash k),
       encode_int (mk_operation_idx k), encode_vec encode_int (mk_modified_key k)]"

definition decode_MetadataKey :: "MetadataKey decoder" where
  "decode_MetadataKey bs =
     and_then (derive_decode_field decode_int bs) (\<lambda>(height, bs).
     and_then (derive_decode_field (decode_array 32) bs) (\<lambda>(hash, bs).
     and_then (derive_decode_field decode_int bs) (\<lambda>(operation_idx, bs).
     and_then (decode_vec decode_int bs) (\<lambda>(modified_key, bs).
     Inr (\<lparr>mk_height = height, mk_hash = hash, mk_operation_idx = operation_idx,
           mk_modified_key = modified_key\<rparr>, bs)))))"

definition prefix_rollback :: "Namespace \<Rightarrow> MetadataKey \<Rightarrow> bytes" where
  "prefix_rollback n k =
     enc_build (enc_append (encode_MetadataKey k)
       (enc_break (enc_tag PREFIX_ROLLBACK (enc_append (encode_Namespace n) enc_new))))"

definition rollback_metadata_key_range ::
  "('a \<Rightarrow> bytes) \<Rightarrow> ('b \<Rightarrow> bytes) \<Rightarrow> Namespace \<Rightarrow> 'a option \<Rightarrow> 'b option \<Rightarrow> key_range" where
  "rollback_metadata_key_range ea eb n lower upper =
     (let prefix = enc_tag PREFIX_ROLLBACK (enc_append (encode_Namespace n) enc_new);
          empty_start = enc_build (enc_break prefix);
          empty_end = enc_build (enc_break1 prefix);
          start = map_option (\<lambda>v. enc_build (enc_append (ea v) (enc_break prefix))) lower;
          stop = map_option (\<lambda>v. enc_build (enc_append (eb v) (enc_break prefix))) upper
      in (case start of None \<Rightarrow> empty_start | Some s \<Rightarrow> s,
          case stop of None \<Rightarrow> empty_end | Some e \<Rightarrow> e))"

section \<open>Ranges of a reducer\<close>

definition reducer_maybe_key_range ::
  "('a \<Rightarrow> bytes) \<Rightarrow> ('b \<Rightarrow> bytes) \<Rightarrow> ('c \<Rightarrow> bytes) \<Rightarrow> Namespace \<Rightarrow> Reducer \<Rightarrow> 'a option \<Rightarrow>
   'b option \<Rightarrow> 'c option \<Rightarrow> bytes option \<times> bytes option" where
  "reducer_maybe_key_range ea eb ec n reducer params lower upper =
     (let prefix = enc_append_with_break (encode_Reducer reducer)
            (enc_tag PREFIX_DATA (enc_append (encode_Namespace n) enc_new));
          prefix = (case params of None \<Rightarrow> prefix | Some p \<Rightarrow> enc_append_with_break (ea p) prefix)
      in (map_option (\<lambda>v. enc_build (enc_append (eb v) prefix)) lower,
          map_option (\<lambda>v. enc_build (enc_append (ec v) prefix)) upper))"

definition reducer_key_range ::
  "('a \<Rightarrow> bytes) \<Rightarrow> ('b \<Rightarrow> bytes) \<Rightarrow> ('c \<Rightarrow> bytes) \<Rightarrow> Namespace \<Rightarrow> Reducer \<Rightarrow> 'a option \<Rightarrow>
   'b option \<Rightarrow> 'c option \<Rightarrow> key_range" where
  "reducer_key_range ea eb ec n reducer params lower upper =
     (let e = enc_append (encode_Reducer reducer)
            (enc_tag PREFIX_DATA (enc_append (encode_Namespace n) enc_new));
          e = (case params of None \<Rightarrow> e | Some p \<Rightarrow> enc_append (ea p) (enc_break e));
          empty_start = enc_build (enc_break e);
          empty_end = enc_build (enc_break1 e);
          (start, stop) = reducer_maybe_key_range ea eb ec n reducer params lower upper
      in (case start of None \<Rightarrow> empty_start | Some s \<Rightarrow> s,
          case stop of None \<Rightarrow> empty_end | Some x \<Rightarrow> x))"

section \<open>Which keys a range selects\<close>

definition has_prefix :: "bytes \<Rightarrow> bytes \<Rightarrow> bool" where
  "has_prefix p k \<longleftrightarrow> take (length p) k = p"

lemma has_prefix_simps [simp]:
  "has_prefix [] k" "\<not> has_prefix (b # p) []"
  "has_prefix (b # p) (c # k) \<longleftrightarrow> c = b \<and> has_prefix p k"
  "has_prefix (q @ p) (q @ k) \<longleftrightarrow> has_prefix p k"
  by (auto simp: has_prefix_def)

lemma has_prefix_append: "has_prefix p k \<longleftrightarrow> (\<exists>r. k = p @ r)"
  unfolding has_prefix_def by (metis append_eq_conv_conj append_take_drop_id)

lemma u8_le_255 [simp]: "b \<le> (255 :: u8)"
proof -
  have "uint b \<le> 255" using uint_u8_less [of b] by linarith
  then show ?thesis by (simp add: word_le_def)
qed

lemma u8_less_succ: "b \<noteq> 255 \<Longrightarrow> c < b + 1 \<longleftrightarrow> c \<le> b" for b c :: u8
proof -
  assume "b \<noteq> 255"
  then have "uint b \<noteq> uint (255 :: u8)" by (simp only: word_uint_eq_iff) simp
  then have "uint b \<noteq> 255" by simp
  then have "uint b < 255" using uint_u8_less [of b] by linarith
  then have "uint (b + 1) = uint b + 1" using uint_plus_small [of b 1] by simp
  then show ?thesis by (simp add: word_less_def word_le_def)
qed

lemma prefix_end_loop_None: "prefix_end_loop bs = None \<longleftrightarrow> bs = replicate (length bs) 255"
  by (induction bs) auto

lemma prefix_end_loop_Some:
  "prefix_end_loop bs = Some e \<Longrightarrow> \<exists>n b qs. b \<noteq> 255 \<and> bs = replicate n 255 @ b # qs \<and> e = rev qs @ [b + 1]"
proof (induction bs)
  case (Cons c bs)
  show ?case
  proof (cases "c = 255")
    case True
    with Cons obtain n b qs where "b \<noteq> 255" "bs = replicate n 255 @ b # qs" "e = rev qs @ [b + 1]"
      by auto
    with True have "c # bs = replicate (Suc n) 255 @ b # qs" by simp
    with \<open>b \<noteq> 255\<close> \<open>e = rev qs @ [b + 1]\<close> show ?thesis by blast
  next
    case False
    with Cons.prems have "c \<noteq> 255 \<and> c # bs = replicate 0 255 @ c # bs \<and> e = rev bs @ [c + 1]" by simp
    then show ?thesis by blast
  qed
qed simp

lemma max_prefix_le: "replicate n (255 :: u8) \<le> k \<longleftrightarrow> has_prefix (replicate n 255) k"
proof (induction n arbitrary: k)
  case (Suc n)
  show ?case
  proof (cases k)
    case (Cons c k')
    have "\<not> 255 < c" using u8_le_255 [of c] by (simp only: not_less)
    then show ?thesis using Cons Suc.IH [of k'] by auto
  qed simp
qed simp

lemma prefix_interval:
  assumes "b \<noteq> 255"
  shows "q @ b # replicate n 255 \<le> k \<and> k < q @ [b + 1] \<longleftrightarrow> has_prefix (q @ b # replicate n 255) k"
proof (induction q arbitrary: k)
  case Nil
  show ?case
  proof (cases k)
    case (Cons c k')
    then show ?thesis
      using u8_less_succ [OF assms, of c] max_prefix_le [of n k'] by (auto simp: less_le_not_le)
  qed simp
next
  case (Cons c q)
  note IH = Cons.IH
  show ?case
  proof (cases k)
    case (Cons d k')
    show ?thesis using IH [of k'] Cons by (cases c d rule: linorder_cases) auto
  qed simp
qed

lemma in_prefix_key_range: "in_range (prefix_key_range p) k \<longleftrightarrow> has_prefix p k"
proof (cases "prefix_end_loop (rev p)")
  case None
  then have "rev p = replicate (length p) 255" by (simp add: prefix_end_loop_None)
  then have "p = replicate (length p) 255" by (metis rev_replicate rev_rev_ident)
  with None show ?thesis
    using max_prefix_le [of "length p" k] by (simp add: in_range_def prefix_key_range_def)
next
  case (Some e)
  from prefix_end_loop_Some [OF this] obtain n b qs
    where b: "b \<noteq> 255" and p: "rev p = replicate n 255 @ b # qs" and e: "e = rev qs @ [b + 1]" by blast
  from p have "p = rev (replicate n 255 @ b # qs)" by (simp flip: p)
  then have "p = rev qs @ b # replicate n 255" by simp
  with Some e show ?thesis
    using prefix_interval [OF b, of "rev qs" n k] by (simp add: in_range_def prefix_key_range_def)
qed

definition break_range :: "bytes \<Rightarrow> bytes option \<Rightarrow> bytes option \<Rightarrow> key_range" where
  "break_range x lo up =
     (x @ BREAK # (case lo of None \<Rightarrow> [] | Some l \<Rightarrow> l),
      case up of None \<Rightarrow> x @ [BREAK_1] | Some u \<Rightarrow> x @ BREAK # u)"

lemma break_range_full: "break_range x None None = prefix_key_range (x @ [BREAK])"
  by (simp add: break_range_def prefix_key_range_def BREAK_1_def BREAK_def)

lemma in_break_range_prefix:
  assumes "in_range (break_range x lo up) k"
  shows "has_prefix (x @ [BREAK]) k"
proof -
  have "x @ [BREAK] \<le> fst (break_range x lo up)" by (simp add: break_range_def)
  also have "\<dots> \<le> k" using assms by (simp add: in_range_def)
  finally have "x @ [BREAK] \<le> k" .
  moreover have "snd (break_range x lo up) \<noteq> []"
    "snd (break_range x lo up) \<le> x @ [BREAK_1]"
    by (auto simp: break_range_def BREAK_1_def BREAK_def split: option.splits)
  ultimately have "in_range (break_range x None None) k"
    using assms unfolding in_range_def
    by (auto simp: break_range_def intro: order.strict_trans2)
  then show ?thesis by (simp add: break_range_full in_prefix_key_range)
qed

lemma in_break_range:
  "in_range (break_range x lo up) k \<longleftrightarrow>
   (\<exists>t. k = x @ BREAK # t \<and> (case lo of None \<Rightarrow> True | Some l \<Rightarrow> l \<le> t) \<and>
        (case up of None \<Rightarrow> True | Some u \<Rightarrow> t < u))" (is "?L \<longleftrightarrow> ?R")
proof
  assume l: ?L
  then obtain t where k: "k = x @ BREAK # t"
    using in_break_range_prefix by (fastforce simp: has_prefix_append)
  with l show ?R by (auto simp: in_range_def break_range_def split: option.splits)
next
  assume ?R
  then show ?L by (auto simp: in_range_def break_range_def BREAK_1_def BREAK_def split: option.splits)
qed

lemma encode_int_u8 [simp]: "encode_int (b :: u8) = [b]"
  by (simp add: encode_int_def to_be_bytes_def)

lemma key_layout [simp]:
  "encode_Namespace n = [dataplane_id n, instance_id n]"
  "prefix_cursor n = [dataplane_id n, instance_id n, PREFIX_CURSOR]"
  "prefix_info n = [PREFIX_INFO, BREAK, dataplane_id n, instance_id n]"
  "prefix_data n r d = [dataplane_id n, instance_id n, PREFIX_DATA, reducer_u8 r] @ BREAK # d"
  "prefix_rollback n k = [dataplane_id n, instance_id n, PREFIX_ROLLBACK] @ BREAK # encode_MetadataKey k"
  by (simp_all add: encode_Namespace_def prefix_cursor_def prefix_info_def prefix_data_def
      prefix_rollback_def encode_Reducer_def)

lemma reducer_key_range_break:
  "reducer_key_range ea eb ec n r (Some p) lo up =
     break_range ([dataplane_id n, instance_id n, PREFIX_DATA, reducer_u8 r] @ BREAK # ea p)
       (map_option eb lo) (map_option ec up)"
  "reducer_key_range ea eb ec n r None lo up =
     break_range [dataplane_id n, instance_id n, PREFIX_DATA, reducer_u8 r]
       (map_option eb lo) (map_option ec up)"
  by (auto simp: reducer_key_range_def reducer_maybe_key_range_def break_range_def encode_Reducer_def
      Let_def split: option.splits)

lemma rollback_range_break:
  "rollback_metadata_key_range ea eb n lo up =
     break_range [dataplane_id n, instance_id n, PREFIX_ROLLBACK] (map_option ea lo) (map_option eb up)"
  by (auto simp: rollback_metadata_key_range_def break_range_def Let_def split: option.splits)

text \<open>
  A scan of a reducer's keys: the parameter field comes first and its encodings are prefix free,
  the field the bounds are about comes second and its encodings sort as its values.
\<close>

locale keyed_scan =
  params: codec wp ep dp + bounds: ordered_codec wb eb db
  for wp :: "'p \<Rightarrow> bool" and ep :: "'p \<Rightarrow> bytes" and dp :: "'p decoder"
    and wb :: "'b::linorder \<Rightarrow> bool" and eb :: "'b \<Rightarrow> bytes" and db :: "'b decoder"
begin

lemma bound_le: "wb l \<Longrightarrow> wb h \<Longrightarrow> eb l \<le> eb h @ t \<longleftrightarrow> l \<le> h"
  using bounds.enc_less_iff [of l h "[]" t] bounds.enc_less_iff [of h l t "[]"]
  by (cases l h rule: linorder_cases) (auto simp: le_less)

lemma bound_less: "wb h \<Longrightarrow> wb u \<Longrightarrow> eb h @ t < eb u \<longleftrightarrow> h < u"
  using bounds.enc_less_iff [of h u t "[]"] by auto

lemma scan_exact:
  assumes "wp p" "wp q" "wb h" "pred_option wb lo" "pred_option wb up"
  shows "in_range (reducer_key_range ep eb eb n r (Some q) lo up)
      (prefix_data n r (ep p @ BREAK # eb h @ t)) \<longleftrightarrow>
    p = q \<and> pred_option (\<lambda>l. l \<le> h) lo \<and> pred_option (\<lambda>u. h < u) up"
  using assms params.enc_append_inject [OF assms(1,2)] bound_le bound_less
  by (auto simp: reducer_key_range_break in_break_range split: option.splits)

end

lemma keyed_scan_I [intro]: "codec wp ep dp \<Longrightarrow> ordered_codec wb eb db \<Longrightarrow> keyed_scan wp ep dp wb eb db"
  by (simp add: keyed_scan_def)

section \<open>Interpretations\<close>

definition wf_MetadataKey :: "MetadataKey \<Rightarrow> bool" where
  "wf_MetadataKey k \<longleftrightarrow> length (mk_hash k) = 32 \<and> length (mk_modified_key k) < 2 ^ 32"

lemmas int_codec = ordered_codec.axioms(1) [OF ordered_codec_int]
lemmas array_codec = ordered_codec.axioms(1) [OF ordered_codec_array]
lemmas varuint_codec_law = ordered_codec.axioms(1) [OF ordered_codec_VarUInt]
lemmas field_laws =
  derive_decode_field_law [OF int_codec] derive_decode_field_law [OF array_codec]
  derive_decode_field_law [OF varuint_codec_law]
  derive_decode_field_law [OF codec_ShortByteString]

interpretation metadata_key_codec: codec wf_MetadataKey encode_MetadataKey decode_MetadataKey
proof
  fix k rest
  assume wf: "wf_MetadataKey k"
  have "codec (\<lambda>xs. length xs < 2 ^ 32 \<and> list_all (\<lambda>_. True) xs)
    (encode_vec encode_int) (decode_vec (decode_int :: u8 decoder))"
    by (intro codec_vec int_codec) simp
  note vec = codec.dec_enc [OF this]
  show "decode_MetadataKey (encode_MetadataKey k @ rest) = Inr (k, rest)"
    using wf
    by (simp add: wf_MetadataKey_def encode_MetadataKey_def decode_MetadataKey_def field_laws vec list_all_iff)
qed

interpretation script_scan: keyed_scan "\<lambda>a. length a = 20" encode_array "decode_array 20"
  "\<lambda>_. True" "encode_int :: u64 \<Rightarrow> bytes" decode_int
  by unfold_locales

section \<open>Properties\<close>

text \<open>
  The range computed from a prefix selects exactly the keys that start with the prefix, also
  when the prefix ends in bytes 255 or consists of them only (then the range has no upper end).
\<close>

theorem prefix_key_range_exact:
  "in_range (prefix_key_range p) k \<longleftrightarrow> take (length p) k = p"
  by (simp add: in_prefix_key_range has_prefix_def)

text \<open>
  The scan over the rollback metadata between two heights reads exactly the entries of the
  same instance whose block height is at least the lower and below the upper bound.
\<close>

theorem rollback_range_exact:
  "in_range (rollback_metadata_key_range encode_int encode_int n (lo :: u64 option) (up :: u64 option))
     (prefix_rollback m k) \<longleftrightarrow>
   m = n \<and> pred_option (\<lambda>l. l \<le> mk_height k) lo \<and> pred_option (\<lambda>u. mk_height k < u) up"
  using script_scan.bound_le script_scan.bound_less
  by (auto simp: rollback_range_break in_break_range encode_MetadataKey_def split: option.splits)

text \<open>
  The metadata key written for an inverse operation decodes to its height, block hash,
  operation index and modified key, when the hash has 32 bytes and the key less than 4 GiB.
\<close>

theorem metadata_key_roundtrip:
  assumes "length (mk_hash k) = 32" "length (mk_modified_key k) < 2 ^ 32"
  shows "decode_MetadataKey (encode_MetadataKey k @ rest) = Inr (k, rest)"
  using assms by (intro metadata_key_codec.dec_enc) (simp add: wf_MetadataKey_def)

definition sample_metadata_key :: MetadataKey where
  "sample_metadata_key = \<lparr>mk_height = 3, mk_hash = replicate 32 25, mk_operation_idx = 42,
     mk_modified_key = [7, 8, 9]\<rparr>"

theorem metadata_key_roundtrip_witness:
  "length (mk_hash sample_metadata_key) = 32 \<and> length (mk_modified_key sample_metadata_key) < 2 ^ 32 \<and>
   decode_MetadataKey (encode_MetadataKey sample_metadata_key @ [5]) = Inr (sample_metadata_key, [5])"
  using metadata_key_roundtrip [of sample_metadata_key "[5]"] by (simp add: sample_metadata_key_def)

text \<open>
  A scan of a reducer keyed by a script hash and a height (such as \<open>UtxosByScriptHash\<close>)
  with a script hash and height bounds selects exactly the keys of that script hash whose height
  lies between the bounds, whatever fields follow the height.
\<close>

theorem script_hash_scan_exact:
  assumes "length p = 20" "length q = 20"
  shows "in_range (reducer_key_range encode_array encode_int encode_int n r (Some q) lo up)
      (prefix_data n r (encode_array p @ BREAK # encode_int (h :: u64) @ t)) \<longleftrightarrow>
    p = q \<and> pred_option (\<lambda>l. l \<le> h) lo \<and> pred_option (\<lambda>u. h < u) up"
  using assms by (intro script_scan.scan_exact) (auto simp: option.pred_True)

theorem script_hash_scan_exact_witness:
  "in_range (reducer_key_range encode_array encode_int encode_int
       \<lparr>dataplane_id = 1, instance_id = 2\<rparr> UtxosByScriptHash (Some (replicate 20 7)) (Some (5 :: u64))
       (None :: u64 option))
     (prefix_data \<lparr>dataplane_id = 1, instance_id = 2\<rparr> UtxosByScriptHash
       (encode_array (replicate 20 7) @ BREAK # encode_int (6 :: u64) @ [BREAK, 1]))"
  using script_hash_scan_exact [of "replicate 20 7" "replicate 20 7"
      "\<lparr>dataplane_id = 1, instance_id = 2\<rparr>" UtxosByScriptHash "Some 5" None 6 "[BREAK, 1]"]
  by simp

text \<open>
  C31. Which keys lie in the range of an instance. A cursor, data or rollback key, or a key of the
  collection or miner ingestors, lies in it exactly when it was built for that instance. The
  info key is different, since its tag comes before the namespace: the info keys of all instances
  lie in the range of the instance whose two bytes are the info tag and the separator, and in the
  range of no other instance, their own included. Still the info keys of different instances
  differ, and an info key equals no key of another kind.
\<close>

theorem instance_isolation:
  "(in_range (instance_key_range m) (prefix_cursor n) \<longleftrightarrow> m = n) \<and>
   (in_range (instance_key_range m) (prefix_data n r d) \<longleftrightarrow> m = n) \<and>
   (in_range (instance_key_range m) (prefix_rollback n k) \<longleftrightarrow> m = n) \<and>
   (in_range (instance_key_range m) (prefix_collection_metadata n c d) \<longleftrightarrow> m = n) \<and>
   (in_range (instance_key_range m) (prefix_miner_metadata n d) \<longleftrightarrow> m = n) \<and>
   (in_range (instance_key_range m) (prefix_info n) \<longleftrightarrow> dataplane_id m = PREFIX_INFO \<and> instance_id m = BREAK) \<and>
   (prefix_info m = prefix_info n \<longleftrightarrow> m = n) \<and>
   prefix_info m \<notin> {prefix_cursor n, prefix_data n r d, prefix_rollback n k,
     prefix_collection_metadata n c d, prefix_miner_metadata n d}"
proof -
  have "prefix_collection_metadata n c d =
      [dataplane_id n, instance_id n, PREFIX_COLLECTION_METADATA] @ encode_CollectionIngestor c @ BREAK # d"
    "prefix_miner_metadata n d = [dataplane_id n, instance_id n, PREFIX_MINER_METADATA, 77, BREAK] @ d"
    by (simp_all add: prefix_collection_metadata_def prefix_miner_metadata_def encode_MinerIngestor_def)
  then show ?thesis
    by (cases c) (auto simp: instance_key_range_def in_prefix_key_range encode_MetadataKey_def)
qed

end
