(* ===== verification/Timbre_Schema.thy ===== *)
theory Timbre_Schema
  imports Timbre_Keys
begin

text \<open>
  The persisted schema: the keys, values and cursors of every reducer under
  \<open>timbre-xbt/src/reducers/\<close>. A struct with derived \<open>Encode\<close> and \<open>Decode\<close> is the
  schema built from the schemas of its fields in their order; \<open>sc_field\<close> puts the break
  after a field that is not the last, as the derive macros do. The law \<open>lawful\<close> of a schema
  is the codec contract, and every schema below has it.
\<close>

section \<open>Schemas\<close>

record 'a schema =
  sc_wf :: "'a \<Rightarrow> bool"
  sc_enc :: "'a \<Rightarrow> bytes"
  sc_dec :: "'a decoder"

definition sc_int :: "'a::len word schema" where
  "sc_int = \<lparr>sc_wf = (\<lambda>_. True), sc_enc = encode_int, sc_dec = decode_int\<rparr>"

abbreviation sc_u8 :: "u8 schema" where "sc_u8 \<equiv> sc_int"
abbreviation sc_u16 :: "u16 schema" where "sc_u16 \<equiv> sc_int"
abbreviation sc_u32 :: "u32 schema" where "sc_u32 \<equiv> sc_int"
abbreviation sc_u64 :: "u64 schema" where "sc_u64 \<equiv> sc_int"
abbreviation sc_u128 :: "u128 schema" where "sc_u128 \<equiv> sc_int"

definition sc_bool :: "bool schema" where
  "sc_bool = \<lparr>sc_wf = (\<lambda>_. True), sc_enc = encode_bool, sc_dec = decode_bool\<rparr>"

definition sc_array :: "nat \<Rightarrow> bytes schema" where
  "sc_array n = \<lparr>sc_wf = (\<lambda>a. length a = n), sc_enc = encode_array, sc_dec = decode_array n\<rparr>"

definition sc_varuint :: "VarUInt schema" where
  "sc_varuint = \<lparr>sc_wf = (\<lambda>_. True), sc_enc = encode_VarUInt, sc_dec = decode_VarUInt\<rparr>"

definition sc_sbs :: "ShortByteString schema" where
  "sc_sbs = \<lparr>sc_wf = (\<lambda>s. length (sbs_bytes s) \<le> 255), sc_enc = encode_ShortByteString,
     sc_dec = decode_ShortByteString\<rparr>"

definition sc_pair :: "'a schema \<Rightarrow> 'b schema \<Rightarrow> ('a \<times> 'b) schema" where
  "sc_pair a b = \<lparr>sc_wf = (\<lambda>p. sc_wf a (fst p) \<and> sc_wf b (snd p)),
     sc_enc = encode_pair (sc_enc a) (sc_enc b), sc_dec = decode_pair (sc_dec a) (sc_dec b)\<rparr>"

definition sc_triple :: "'a schema \<Rightarrow> 'b schema \<Rightarrow> 'c schema \<Rightarrow> ('a \<times> 'b \<times> 'c) schema" where
  "sc_triple a b c = \<lparr>sc_wf = (\<lambda>(x, y, z). sc_wf a x \<and> sc_wf b y \<and> sc_wf c z),
     sc_enc = encode_triple (sc_enc a) (sc_enc b) (sc_enc c),
     sc_dec = decode_triple (sc_dec a) (sc_dec b) (sc_dec c)\<rparr>"

definition sc_option :: "'a schema \<Rightarrow> 'a option schema" where
  "sc_option a = \<lparr>sc_wf = pred_option (sc_wf a), sc_enc = encode_option (sc_enc a),
     sc_dec = decode_option (sc_dec a)\<rparr>"

definition sc_vec :: "'a schema \<Rightarrow> 'a list schema" where
  "sc_vec a = \<lparr>sc_wf = (\<lambda>xs. length xs < 2 ^ 32 \<and> list_all (sc_wf a) xs),
     sc_enc = encode_vec (sc_enc a), sc_dec = decode_vec (sc_dec a)\<rparr>"

definition sc_tvec :: "'a schema \<Rightarrow> 'a TimbreVec schema" where
  "sc_tvec a = \<lparr>sc_wf = (\<lambda>v. length (tv_vec v) < 2 ^ 64 \<and> list_all (sc_wf a) (tv_vec v)),
     sc_enc = encode_TimbreVec (sc_enc a), sc_dec = decode_TimbreVec (sc_dec a)\<rparr>"

definition sc_imap :: "'k schema \<Rightarrow> 'v schema \<Rightarrow> ('k \<times> 'v) list schema" where
  "sc_imap a b = \<lparr>sc_wf = (\<lambda>m. length m < 2 ^ 64 \<and> distinct (map fst m) \<and>
       list_all (\<lambda>(k, v). sc_wf a k \<and> sc_wf b v) m),
     sc_enc = encode_IndexMap (sc_enc a) (sc_enc b), sc_dec = decode_IndexMap (sc_dec a) (sc_dec b)\<rparr>"

definition encode_field :: "('a \<Rightarrow> bytes) \<Rightarrow> ('b \<Rightarrow> bytes) \<Rightarrow> 'a \<times> 'b \<Rightarrow> bytes" where
  "encode_field ea eb p = derive_encode [ea (fst p), eb (snd p)]"

definition decode_field :: "'a decoder \<Rightarrow> 'b decoder \<Rightarrow> ('a \<times> 'b) decoder" where
  "decode_field da db bs =
     and_then (derive_decode_field da bs) (\<lambda>(x, bs). and_then (db bs) (\<lambda>(y, bs). Inr ((x, y), bs)))"

definition sc_field :: "'a schema \<Rightarrow> 'b schema \<Rightarrow> ('a \<times> 'b) schema" where
  "sc_field a b = \<lparr>sc_wf = (\<lambda>p. sc_wf a (fst p) \<and> sc_wf b (snd p)),
     sc_enc = encode_field (sc_enc a) (sc_enc b), sc_dec = decode_field (sc_dec a) (sc_dec b)\<rparr>"

section \<open>The structs of the reducers\<close>

text \<open>
  \<open>balances_by_brc20.rs\<close>. \<open>Key\<close>: ticker, script_hash.
\<close>

definition balances_by_brc20_Key where
  "balances_by_brc20_Key =
    sc_field sc_sbs (sc_array 20)"

text \<open>
  \<open>balances_by_rune_id.rs\<close>. \<open>Key\<close>: rune_id, script_hash.
\<close>

definition balances_by_rune_id_Key where
  "balances_by_rune_id_Key =
    sc_field (sc_pair sc_varuint sc_varuint) (sc_array 20)"

text \<open>
  \<open>block_by_tx_hash.rs\<close>. \<open>Key\<close>: tx_hash; \<open>Value\<close>:
  height, index.
\<close>

definition block_by_tx_hash_Key where
  "block_by_tx_hash_Key =
    sc_array 32"

definition block_by_tx_hash_Value where
  "block_by_tx_hash_Value =
    sc_field sc_varuint sc_varuint"

text \<open>
  \<open>block_info.rs\<close>. \<open>Key\<close>: height; \<open>Value\<close>: block_hash,
  block_size, block_weight_units, timestamp, total_fees, total_volume, total_txs,
  involves_inscriptions, involves_runes, involves_brc20, coinbase_script_sig.
\<close>

definition block_info_Key where
  "block_info_Key =
    sc_varuint"

definition block_info_Value where
  "block_info_Value =
    sc_field (sc_option (sc_array 32)) (sc_field sc_varuint (sc_field sc_varuint (sc_field
     (sc_option sc_varuint) (sc_field sc_varuint (sc_field sc_varuint (sc_field sc_varuint
     (sc_field sc_bool (sc_field sc_bool (sc_field sc_bool (sc_tvec sc_u8))))))))))"

text \<open>
  \<open>brc20_balances_by_script_hash.rs\<close>. \<open>Key\<close>: script_hash, ticker.
\<close>

definition brc20_balances_by_script_hash_Key where
  "brc20_balances_by_script_hash_Key =
    sc_field (sc_array 20) sc_sbs"

text \<open>
  \<open>brc20_terms_by_ticker.rs\<close>. \<open>Key\<close>: ticker; \<open>Value\<close>:
  max, limit, dec, self_mint, deploy_id.
\<close>

definition brc20_terms_by_ticker_Key where
  "brc20_terms_by_ticker_Key =
    sc_sbs"

definition brc20_terms_by_ticker_Value where
  "brc20_terms_by_ticker_Value =
    sc_field sc_u128 (sc_field sc_u128 (sc_field sc_u8 (sc_field sc_bool (sc_pair (sc_array 32)
     sc_u32))))"

text \<open>
  \<open>content_by_inscription_id.rs\<close>. \<open>Key\<close>: inscription_id;
  \<open>Value\<close>: created_at, inscription_num, content_type, content_body;
  \<open>Cursor\<close>: offset.
\<close>

definition content_by_inscription_id_Key where
  "content_by_inscription_id_Key =
    sc_pair (sc_array 32) sc_u32"

definition content_by_inscription_id_Value where
  "content_by_inscription_id_Value =
    sc_field sc_u64 (sc_field sc_u64 (sc_field (sc_vec sc_u8) (sc_vec sc_u8)))"

definition content_by_inscription_id_Cursor where
  "content_by_inscription_id_Cursor =
    sc_u64"

text \<open>
  \<open>etching_by_rune_id.rs\<close>. \<open>Key\<close>: rune_id; \<open>Value\<close>:
  tx_hash, name, spacers, symbol, divisibility, premine, max_mint_txs, amount_per_mint,
  start_height, end_height, start_offset, end_offset, turbo, cenotaph.
\<close>

definition etching_by_rune_id_Key where
  "etching_by_rune_id_Key =
    sc_pair sc_u64 sc_u32"

definition etching_by_rune_id_Value where
  "etching_by_rune_id_Value =
    sc_field (sc_array 32) (sc_field (sc_option sc_u128) (sc_field (sc_option sc_u32) (sc_field
     (sc_option sc_u32) (sc_field (sc_option sc_u8) (sc_field (sc_option sc_u128) (sc_field
     (sc_option sc_u128) (sc_field (sc_option sc_u128) (sc_field (sc_option sc_u64) (sc_field
     (sc_option sc_u64) (sc_field (sc_option sc_u64) (sc_field (sc_option sc_u64) (sc_field
     sc_bool sc_bool))))))))))))"

text \<open>
  \<open>height_by_block_hash.rs\<close>. \<open>Key\<close>: block_hash;
  \<open>Value\<close>: block_height.
\<close>

definition height_by_block_hash_Key where
  "height_by_block_hash_Key =
    sc_array 32"

definition height_by_block_hash_Value where
  "height_by_block_hash_Value =
    sc_varuint"

text \<open>
  \<open>inscription_activity_by_block.rs\<close>. \<open>Key\<close>: height;
  \<open>Value\<close>: inscriptions_activity; \<open>Cursor\<close>: index.
\<close>

definition inscription_activity_by_block_Key where
  "inscription_activity_by_block_Key =
    sc_varuint"

definition inscription_activity_by_block_Value where
  "inscription_activity_by_block_Value =
    sc_vec (sc_triple sc_varuint (sc_array 32) (sc_vec (sc_pair (sc_pair (sc_array 32) sc_u32)
     (sc_pair (sc_option (sc_triple (sc_array 20) sc_varuint sc_varuint)) (sc_triple (sc_array
     20) sc_varuint sc_varuint)))))"

definition inscription_activity_by_block_Cursor where
  "inscription_activity_by_block_Cursor =
    sc_varuint"

text \<open>
  \<open>inscription_activity_by_script_hash.rs\<close>.
  \<open>SelfTransferredInscription\<close>: inscription_id, input_index, input_sat_offset,
  output_index, output_sat_offset; \<open>SentInscription\<close>: inscription_id,
  input_index, input_sat_offset, output_index, output_sat_offset, output_script_hash;
  \<open>ReceivedInscription\<close>: inscription_id, input_index, input_sat_offset,
  input_script_hash, output_index, output_sat_offset; \<open>Key\<close>: script_hash, height,
  activity_tx_index, tx_hash; \<open>Value\<close>: self_transfers, sent, received;
  \<open>Cursor\<close>: height, activity_tx_index, tx_hash.
\<close>

definition inscription_activity_by_script_hash_SelfTransferredInscription where
  "inscription_activity_by_script_hash_SelfTransferredInscription =
    sc_field (sc_pair (sc_array 32) sc_u32) (sc_field sc_u32 (sc_field sc_u32 (sc_field sc_u32
     sc_u32)))"

definition inscription_activity_by_script_hash_SentInscription where
  "inscription_activity_by_script_hash_SentInscription =
    sc_field (sc_pair (sc_array 32) sc_u32) (sc_field sc_u32 (sc_field sc_u32 (sc_field sc_u32
     (sc_field sc_u32 (sc_array 20)))))"

definition inscription_activity_by_script_hash_ReceivedInscription where
  "inscription_activity_by_script_hash_ReceivedInscription =
    sc_field (sc_pair (sc_array 32) sc_u32) (sc_field (sc_option sc_u32) (sc_field (sc_option
     sc_u32) (sc_field (sc_option (sc_array 20)) (sc_field sc_u32 sc_u32))))"

definition inscription_activity_by_script_hash_Key where
  "inscription_activity_by_script_hash_Key =
    sc_field (sc_array 20) (sc_field sc_u64 (sc_field sc_u32 (sc_array 32)))"

definition inscription_activity_by_script_hash_Value where
  "inscription_activity_by_script_hash_Value =
    sc_field (sc_vec inscription_activity_by_script_hash_SelfTransferredInscription) (sc_field
     (sc_vec inscription_activity_by_script_hash_SentInscription) (sc_vec
     inscription_activity_by_script_hash_ReceivedInscription))"

definition inscription_activity_by_script_hash_Cursor where
  "inscription_activity_by_script_hash_Cursor =
    sc_field sc_u64 (sc_field sc_u32 (sc_array 32))"

text \<open>
  \<open>inscription_activity_by_tx.rs\<close>. \<open>Key\<close>: height, tx_index;
  \<open>Value\<close>: tx_hash, inscriptions_activity; \<open>Cursor\<close>: tx_index,
  activity_index.
\<close>

definition inscription_activity_by_tx_Key where
  "inscription_activity_by_tx_Key =
    sc_field sc_varuint sc_varuint"

definition inscription_activity_by_tx_Value where
  "inscription_activity_by_tx_Value =
    sc_field (sc_array 32) (sc_tvec (sc_pair (sc_pair (sc_array 32) sc_varuint) (sc_pair
     (sc_option (sc_triple (sc_array 20) sc_varuint sc_varuint)) (sc_triple (sc_array 20)
     sc_varuint sc_varuint))))"

definition inscription_activity_by_tx_Cursor where
  "inscription_activity_by_tx_Cursor =
    sc_field sc_varuint sc_varuint"

text \<open>
  \<open>inscription_utxos_by_script_hash.rs\<close>. \<open>Key\<close>: script_hash, height,
  utxo_hash, utxo_index; \<open>Value\<close>: satoshis, inscriptions; \<open>Cursor\<close>:
  tx_id, index.
\<close>

definition inscription_utxos_by_script_hash_Key where
  "inscription_utxos_by_script_hash_Key =
    sc_field (sc_array 20) (sc_field sc_varuint (sc_field (sc_array 32) sc_varuint))"

definition inscription_utxos_by_script_hash_Value where
  "inscription_utxos_by_script_hash_Value =
    sc_field sc_varuint (sc_tvec (sc_pair sc_varuint (sc_pair (sc_array 32) sc_varuint)))"

definition inscription_utxos_by_script_hash_Cursor where
  "inscription_utxos_by_script_hash_Cursor =
    sc_field (sc_array 32) sc_varuint"

text \<open>
  \<open>inscriptions_by_script_hash.rs\<close>. \<open>Key\<close>: script_hash,
  inscription_id; \<open>Value\<close>: height, utxo_hash, utxo_index, offset;
  \<open>Cursor\<close>: inscription_id.
\<close>

definition inscriptions_by_script_hash_Key where
  "inscriptions_by_script_hash_Key =
    sc_field (sc_array 20) (sc_pair (sc_array 32) sc_u32)"

definition inscriptions_by_script_hash_Value where
  "inscriptions_by_script_hash_Value =
    sc_field sc_u64 (sc_field (sc_array 32) (sc_field sc_u32 sc_u32))"

definition inscriptions_by_script_hash_Cursor where
  "inscriptions_by_script_hash_Cursor =
    sc_pair (sc_array 32) sc_u32"

text \<open>
  \<open>inscriptions_by_utxo.rs\<close>. \<open>Key\<close>: utxo_hash, utxo_index;
  \<open>Value\<close>: inscriptions.
\<close>

definition inscriptions_by_utxo_Key where
  "inscriptions_by_utxo_Key =
    sc_field (sc_array 32) sc_u32"

definition inscriptions_by_utxo_Value where
  "inscriptions_by_utxo_Value =
    sc_vec (sc_pair sc_u32 (sc_pair (sc_array 32) sc_u32))"

text \<open>
  \<open>mints_by_rune_id.rs\<close>. \<open>Key\<close>: rune_id.
\<close>

definition mints_by_rune_id_Key where
  "mints_by_rune_id_Key =
    sc_pair sc_u64 sc_u32"

text \<open>
  \<open>rune_balances_by_script_hash.rs\<close>. \<open>Key\<close>: script_hash, rune_id.
\<close>

definition rune_balances_by_script_hash_Key where
  "rune_balances_by_script_hash_Key =
    sc_field (sc_array 20) (sc_pair sc_u64 sc_u32)"

text \<open>
  \<open>rune_id_by_rune_name.rs\<close>. \<open>Key\<close>: rune_name; \<open>Value\<close>:
  rune_id.
\<close>

definition rune_id_by_rune_name_Key where
  "rune_id_by_rune_name_Key =
    sc_u128"

definition rune_id_by_rune_name_Value where
  "rune_id_by_rune_name_Value =
    sc_pair sc_u64 sc_u32"

text \<open>
  \<open>rune_txs_by_script_hash.rs\<close>. \<open>Key\<close>: script_hash, height,
  activity_tx_index, tx_hash; \<open>Value\<close>: etched, minted, increased_balances,
  decreased_balances; \<open>Cursor\<close>: height, activity_tx_index, tx_hash.
\<close>

definition rune_txs_by_script_hash_Key where
  "rune_txs_by_script_hash_Key =
    sc_field (sc_array 20) (sc_field sc_u64 (sc_field sc_u32 (sc_array 32)))"

definition rune_txs_by_script_hash_Value where
  "rune_txs_by_script_hash_Value =
    sc_field (sc_option (sc_pair (sc_pair sc_u64 sc_u32) (sc_option sc_u128))) (sc_field
     (sc_option (sc_pair sc_u64 sc_u32)) (sc_field (sc_vec (sc_pair (sc_pair sc_u64 sc_u32)
     sc_u128)) (sc_vec (sc_pair (sc_pair sc_u64 sc_u32) sc_u128))))"

definition rune_txs_by_script_hash_Cursor where
  "rune_txs_by_script_hash_Cursor =
    sc_field sc_u64 (sc_field sc_u32 (sc_array 32))"

text \<open>
  \<open>rune_utxos_by_script_hash.rs\<close>. \<open>Key\<close>: script_hash, height,
  utxo_hash, utxo_index; \<open>Value\<close>: satoshis, runes.
\<close>

definition rune_utxos_by_script_hash_Key where
  "rune_utxos_by_script_hash_Key =
    sc_field (sc_array 20) (sc_field sc_varuint (sc_field (sc_array 32) sc_varuint))"

definition rune_utxos_by_script_hash_Value where
  "rune_utxos_by_script_hash_Value =
    sc_field sc_varuint (sc_vec (sc_pair (sc_pair sc_varuint sc_varuint) sc_varuint))"

text \<open>
  \<open>runes_by_utxo.rs\<close>. \<open>Key\<close>: utxo_hash, utxo_index;
  \<open>Value\<close>: runes.
\<close>

definition runes_by_utxo_Key where
  "runes_by_utxo_Key =
    sc_field (sc_array 32) sc_u32"

definition runes_by_utxo_Value where
  "runes_by_utxo_Value =
    sc_imap (sc_pair sc_u64 sc_u32) sc_u128"

text \<open>
  \<open>sat_balance_by_script_hash.rs\<close>. \<open>Key\<close>: script_hash;
  \<open>Value\<close>: satoshis.
\<close>

definition sat_balance_by_script_hash_Key where
  "sat_balance_by_script_hash_Key =
    sc_array 20"

definition sat_balance_by_script_hash_Value where
  "sat_balance_by_script_hash_Value =
    sc_u64"

text \<open>
  \<open>sat_txs_by_script_hash.rs\<close>. \<open>Key\<close>: script_hash, height,
  activity_tx_index, tx_hash; \<open>Value\<close>: increased, amount; \<open>Cursor\<close>:
  height, activity_tx_index, tx_hash.
\<close>

definition sat_txs_by_script_hash_Key where
  "sat_txs_by_script_hash_Key =
    sc_field (sc_array 20) (sc_field sc_u64 (sc_field sc_u32 (sc_array 32)))"

definition sat_txs_by_script_hash_Value where
  "sat_txs_by_script_hash_Value =
    sc_field sc_bool sc_u64"

definition sat_txs_by_script_hash_Cursor where
  "sat_txs_by_script_hash_Cursor =
    sc_field sc_u64 (sc_field sc_u32 (sc_array 32))"

text \<open>
  \<open>sats_per_vb_by_block.rs\<close>. \<open>Key\<close>: height; \<open>Value\<close>:
  min, median, max.
\<close>

definition sats_per_vb_by_block_Key where
  "sats_per_vb_by_block_Key =
    sc_u64"

definition sats_per_vb_by_block_Value where
  "sats_per_vb_by_block_Value =
    sc_field sc_u64 (sc_field sc_u64 sc_u64)"

text \<open>
  \<open>script_by_script_hash.rs\<close>. \<open>Key\<close>: script_hash;
  \<open>Value\<close>: script.
\<close>

definition script_by_script_hash_Key where
  "script_by_script_hash_Key =
    sc_array 20"

definition script_by_script_hash_Value where
  "script_by_script_hash_Value =
    sc_vec sc_u8"

text \<open>
  \<open>script_hash_by_address_payload_hash.rs\<close>. \<open>Key\<close>: payload_hash;
  \<open>Value\<close>: script_hash.
\<close>

definition script_hash_by_address_payload_hash_Key where
  "script_hash_by_address_payload_hash_Key =
    sc_array 20"

definition script_hash_by_address_payload_hash_Value where
  "script_hash_by_address_payload_hash_Value =
    sc_array 20"

text \<open>
  \<open>spending_tx_by_txo.rs\<close>. \<open>Key\<close>: utxo_tx_hash, utxo_vout;
  \<open>Value\<close>: height, tx_index.
\<close>

definition spending_tx_by_txo_Key where
  "spending_tx_by_txo_Key =
    sc_field (sc_array 32) sc_varuint"

definition spending_tx_by_txo_Value where
  "spending_tx_by_txo_Value =
    sc_field sc_varuint sc_varuint"

text \<open>
  \<open>transfer_inscriptions_by_script_hash.rs\<close>. \<open>Key\<close>: script_hash,
  ticker, inscription_id; \<open>Value\<close>: token_amount, sat_amount, utxo_hash,
  utxo_index, offset, block_height; \<open>Cursor\<close>: ticker, inscription_id.
\<close>

definition transfer_inscriptions_by_script_hash_Key where
  "transfer_inscriptions_by_script_hash_Key =
    sc_field (sc_array 20) (sc_field sc_sbs (sc_pair (sc_array 32) sc_u32))"

definition transfer_inscriptions_by_script_hash_Value where
  "transfer_inscriptions_by_script_hash_Value =
    sc_field sc_u128 (sc_field sc_u64 (sc_field (sc_array 32) (sc_field sc_u32 (sc_field sc_u32
     sc_u64))))"

definition transfer_inscriptions_by_script_hash_Cursor where
  "transfer_inscriptions_by_script_hash_Cursor =
    sc_field sc_sbs (sc_pair (sc_array 32) sc_u32)"

text \<open>
  \<open>tx_first_seen_timestamp.rs\<close>. \<open>Key\<close>: tx_hash;
  \<open>Value\<close>: timestamp.
\<close>

definition tx_first_seen_timestamp_Key where
  "tx_first_seen_timestamp_Key =
    sc_array 32"

definition tx_first_seen_timestamp_Value where
  "tx_first_seen_timestamp_Value =
    sc_varuint"

text \<open>
  \<open>tx_info.rs\<close>. \<open>TxIn\<close>: utxo_hash, utxo_vout, script_hash, satoshis,
  inscriptions, runes; \<open>TxOut\<close>: script_hash, satoshis, inscriptions, runes;
  \<open>Key\<close>: height, tx_index; \<open>Value\<close>: block_hash, timestamp, volume,
  fees, sats_per_vb, involves_inscriptions, involves_runes, involves_brc20, inputs, outputs.
\<close>

definition tx_info_TxIn where
  "tx_info_TxIn =
    sc_field (sc_array 32) (sc_field sc_varuint (sc_field (sc_array 20) (sc_field sc_varuint
     (sc_field (sc_tvec (sc_pair sc_varuint (sc_pair (sc_array 32) sc_varuint))) (sc_tvec
     (sc_pair (sc_pair sc_varuint sc_varuint) sc_varuint))))))"

definition tx_info_TxOut where
  "tx_info_TxOut =
    sc_field (sc_array 20) (sc_field sc_varuint (sc_field (sc_tvec (sc_pair sc_varuint (sc_pair
     (sc_array 32) sc_varuint))) (sc_tvec (sc_pair (sc_pair sc_varuint sc_varuint)
     sc_varuint))))"

definition tx_info_Key where
  "tx_info_Key =
    sc_field sc_varuint sc_varuint"

definition tx_info_Value where
  "tx_info_Value =
    sc_field (sc_option (sc_array 32)) (sc_field (sc_option sc_varuint) (sc_field sc_varuint
     (sc_field sc_varuint (sc_field sc_varuint (sc_field sc_bool (sc_field sc_bool (sc_field
     sc_bool (sc_field (sc_tvec tx_info_TxIn) (sc_tvec tx_info_TxOut)))))))))"

text \<open>
  \<open>txs_by_block.rs\<close>. \<open>Key\<close>: height, tx_index; \<open>Value\<close>:
  tx_hash; \<open>Cursor\<close>: tx_index.
\<close>

definition txs_by_block_Key where
  "txs_by_block_Key =
    sc_field sc_varuint sc_varuint"

definition txs_by_block_Value where
  "txs_by_block_Value =
    sc_array 32"

definition txs_by_block_Cursor where
  "txs_by_block_Cursor =
    sc_varuint"

text \<open>
  \<open>txs_by_inscription.rs\<close>. \<open>Key\<close>: bucket_id, height;
  \<open>Value\<close>: activity; \<open>Cursor\<close>: height, tx_index.
\<close>

definition txs_by_inscription_Key where
  "txs_by_inscription_Key =
    sc_field (sc_array 2) sc_varuint"

definition txs_by_inscription_Value where
  "txs_by_inscription_Value =
    sc_imap (sc_pair (sc_array 30) sc_varuint) (sc_tvec (sc_pair sc_varuint sc_varuint))"

definition txs_by_inscription_Cursor where
  "txs_by_inscription_Cursor =
    sc_field sc_varuint sc_varuint"

text \<open>
  \<open>txs_by_rune_id.rs\<close>. \<open>Key\<close>: rune_id, height, activity_tx_index,
  tx_hash; \<open>Value\<close>: etched, minted, self_transfers, senders, receivers;
  \<open>Cursor\<close>: height, activity_tx_index, tx_hash.
\<close>

definition txs_by_rune_id_Key where
  "txs_by_rune_id_Key =
    sc_field (sc_pair sc_u64 sc_u32) (sc_field sc_u64 (sc_field sc_u32 (sc_array 32)))"

definition txs_by_rune_id_Value where
  "txs_by_rune_id_Value =
    sc_field sc_bool (sc_field sc_bool (sc_field (sc_vec (sc_pair (sc_array 20) sc_u128))
     (sc_field (sc_vec (sc_pair (sc_array 20) sc_u128)) (sc_vec (sc_pair (sc_array 20)
     sc_u128)))))"

definition txs_by_rune_id_Cursor where
  "txs_by_rune_id_Cursor =
    sc_field sc_u64 (sc_field sc_u32 (sc_array 32))"

text \<open>
  \<open>txs_by_script_hash.rs\<close>. \<open>Key\<close>: script_hash, height, blk_index,
  tx_hash; \<open>Value\<close>: input, output; \<open>Cursor\<close>: height, blk_index,
  tx_hash.
\<close>

definition txs_by_script_hash_Key where
  "txs_by_script_hash_Key =
    sc_field (sc_array 20) (sc_field sc_u64 (sc_field sc_u16 (sc_array 32)))"

definition txs_by_script_hash_Value where
  "txs_by_script_hash_Value =
    sc_field sc_bool sc_bool"

definition txs_by_script_hash_Cursor where
  "txs_by_script_hash_Cursor =
    sc_field sc_u64 (sc_field sc_u16 (sc_array 32))"

text \<open>
  \<open>utxos_by_rune_id.rs\<close>. \<open>Key\<close>: rune_id, height, utxo_hash,
  utxo_index; \<open>Value\<close>: script_hash, rune_quantity, satoshis;
  \<open>Cursor\<close>: height, utxo_hash, utxo_index.
\<close>

definition utxos_by_rune_id_Key where
  "utxos_by_rune_id_Key =
    sc_field (sc_pair sc_u64 sc_u32) (sc_field sc_u64 (sc_field (sc_array 32) sc_u32))"

definition utxos_by_rune_id_Value where
  "utxos_by_rune_id_Value =
    sc_field (sc_array 20) (sc_field sc_u128 sc_u64)"

definition utxos_by_rune_id_Cursor where
  "utxos_by_rune_id_Cursor =
    sc_field sc_u64 (sc_field (sc_array 32) sc_u32)"

text \<open>
  \<open>utxos_by_script_hash.rs\<close>. \<open>Key\<close>: script_hash, height, utxo_hash,
  utxo_index; \<open>Value\<close>: satoshis; \<open>Cursor\<close>: height, utxo_hash,
  utxo_index.
\<close>

definition utxos_by_script_hash_Key where
  "utxos_by_script_hash_Key =
    sc_field (sc_array 20) (sc_field sc_u64 (sc_field (sc_array 32) sc_u32))"

definition utxos_by_script_hash_Value where
  "utxos_by_script_hash_Value =
    sc_u64"

definition utxos_by_script_hash_Cursor where
  "utxos_by_script_hash_Cursor =
    sc_field sc_u64 (sc_field (sc_array 32) sc_u32)"

text \<open>
  \<open>rune_utxos_by_script_hash.rs\<close> also has a cursor that is an enum: the index of the variant,
  then its fields with no break between them.
\<close>

datatype RuneUtxosCursor = ByHeight VarUInt bytes VarUInt | ByAmount VarUInt bytes VarUInt

definition encode_RuneUtxosCursor :: "RuneUtxosCursor \<Rightarrow> bytes" where
  "encode_RuneUtxosCursor c =
     (case c of
        ByHeight height h i \<Rightarrow> 0 # encode_VarUInt height @ encode_array h @ encode_VarUInt i
      | ByAmount amount h i \<Rightarrow> 1 # encode_VarUInt amount @ encode_array h @ encode_VarUInt i)"

definition decode_RuneUtxosCursor :: "RuneUtxosCursor decoder" where
  "decode_RuneUtxosCursor bs =
     (case bs of [] \<Rightarrow> Inl Panicked
      | kind # bs \<Rightarrow>
        if kind = 0 \<or> kind = 1 then
          and_then (decode_VarUInt bs) (\<lambda>(a, bs). and_then (decode_array 32 bs) (\<lambda>(h, bs).
            and_then (decode_VarUInt bs) (\<lambda>(i, bs).
              Inr (if kind = 0 then ByHeight a h i else ByAmount a h i, bs))))
        else Inl (MalformedInput ''Unrecognized asset kind''))"

definition miner_metadata_key_range :: "Namespace \<Rightarrow> key_range" where
  "miner_metadata_key_range n =
     (let e = enc_append encode_MinerIngestor
            (enc_tag PREFIX_MINER_METADATA (enc_append (encode_Namespace n) enc_new))
      in (enc_build (enc_break e), enc_build (enc_break1 e)))"

section \<open>The schema law\<close>

definition lawful :: "'a schema \<Rightarrow> bool" where
  "lawful s \<longleftrightarrow> codec (sc_wf s) (sc_enc s) (sc_dec s)"

lemma lawful_dec_enc: "lawful s \<Longrightarrow> sc_wf s x \<Longrightarrow> sc_dec s (sc_enc s x @ rest) = Inr (x, rest)"
  by (simp add: lawful_def codec.dec_enc)

lemma lawful_inject: "lawful s \<Longrightarrow> sc_wf s x \<Longrightarrow> sc_wf s y \<Longrightarrow> sc_enc s x = sc_enc s y \<longleftrightarrow> x = y"
  by (simp add: lawful_def codec.enc_inject)

lemma lawful_int [simp]: "8 dvd LENGTH('a) \<Longrightarrow> lawful (sc_int :: 'a::len word schema)"
  by (simp add: lawful_def sc_int_def int_codec)

lemma lawful_prims [simp]: "lawful sc_bool" "lawful (sc_array n)" "lawful sc_varuint" "lawful sc_sbs"
  by (simp_all add: lawful_def sc_bool_def sc_array_def sc_varuint_def sc_sbs_def
      ordered_codec.axioms(1) [OF ordered_codec_bool] array_codec varuint_codec_law codec_ShortByteString)

lemma lawful_pair [simp]: "lawful a \<Longrightarrow> lawful b \<Longrightarrow> lawful (sc_pair a b)"
  by (simp add: lawful_def sc_pair_def codec_pair)

lemma lawful_triple [simp]: "lawful a \<Longrightarrow> lawful b \<Longrightarrow> lawful c \<Longrightarrow> lawful (sc_triple a b c)"
  using codec_triple [of "sc_wf a" "sc_enc a" "sc_dec a" "sc_wf b" "sc_enc b" "sc_dec b"
      "sc_wf c" "sc_enc c" "sc_dec c"]
  by (simp add: lawful_def sc_triple_def)

lemma lawful_option [simp]: "lawful a \<Longrightarrow> lawful (sc_option a)"
  by (simp add: lawful_def sc_option_def codec_option)

lemma lawful_vec [simp]: "lawful a \<Longrightarrow> lawful (sc_vec a)"
  using codec_vec [of "sc_wf a" "sc_enc a" "sc_dec a"] by (simp add: lawful_def sc_vec_def)

lemma lawful_tvec [simp]: "lawful a \<Longrightarrow> lawful (sc_tvec a)"
  using codec_TimbreVec [of "sc_wf a" "sc_enc a" "sc_dec a"] by (simp add: lawful_def sc_tvec_def)

lemma lawful_imap [simp]: "lawful a \<Longrightarrow> lawful b \<Longrightarrow> lawful (sc_imap a b)"
  using codec_IndexMap [of "sc_wf a" "sc_enc a" "sc_dec a" "sc_wf b" "sc_enc b" "sc_dec b"]
  by (simp add: lawful_def sc_imap_def)

lemma lawful_field [simp]: "lawful a \<Longrightarrow> lawful b \<Longrightarrow> lawful (sc_field a b)"
  by (auto simp: lawful_def sc_field_def codec_def encode_field_def decode_field_def
      derive_decode_field_def)

lemma codec_RuneUtxosCursor:
  "codec (\<lambda>c. case c of ByHeight _ h _ \<Rightarrow> length h = 32 | ByAmount _ h _ \<Rightarrow> length h = 32)
    encode_RuneUtxosCursor decode_RuneUtxosCursor"
  by unfold_locales
    (auto simp: encode_RuneUtxosCursor_def decode_RuneUtxosCursor_def primitive_laws
      split: RuneUtxosCursor.splits)

lemmas schema_defs =
  balances_by_brc20_Key_def balances_by_rune_id_Key_def block_by_tx_hash_Key_def
  block_by_tx_hash_Value_def block_info_Key_def block_info_Value_def
  brc20_balances_by_script_hash_Key_def brc20_terms_by_ticker_Key_def
  brc20_terms_by_ticker_Value_def content_by_inscription_id_Key_def
  content_by_inscription_id_Value_def content_by_inscription_id_Cursor_def
  etching_by_rune_id_Key_def etching_by_rune_id_Value_def height_by_block_hash_Key_def
  height_by_block_hash_Value_def inscription_activity_by_block_Key_def
  inscription_activity_by_block_Value_def inscription_activity_by_block_Cursor_def
  inscription_activity_by_script_hash_SelfTransferredInscription_def
  inscription_activity_by_script_hash_SentInscription_def
  inscription_activity_by_script_hash_ReceivedInscription_def
  inscription_activity_by_script_hash_Key_def inscription_activity_by_script_hash_Value_def
  inscription_activity_by_script_hash_Cursor_def inscription_activity_by_tx_Key_def
  inscription_activity_by_tx_Value_def inscription_activity_by_tx_Cursor_def
  inscription_utxos_by_script_hash_Key_def inscription_utxos_by_script_hash_Value_def
  inscription_utxos_by_script_hash_Cursor_def inscriptions_by_script_hash_Key_def
  inscriptions_by_script_hash_Value_def inscriptions_by_script_hash_Cursor_def
  inscriptions_by_utxo_Key_def inscriptions_by_utxo_Value_def mints_by_rune_id_Key_def
  rune_balances_by_script_hash_Key_def rune_id_by_rune_name_Key_def
  rune_id_by_rune_name_Value_def rune_txs_by_script_hash_Key_def
  rune_txs_by_script_hash_Value_def rune_txs_by_script_hash_Cursor_def
  rune_utxos_by_script_hash_Key_def rune_utxos_by_script_hash_Value_def
  runes_by_utxo_Key_def runes_by_utxo_Value_def sat_balance_by_script_hash_Key_def
  sat_balance_by_script_hash_Value_def sat_txs_by_script_hash_Key_def
  sat_txs_by_script_hash_Value_def sat_txs_by_script_hash_Cursor_def
  sats_per_vb_by_block_Key_def sats_per_vb_by_block_Value_def script_by_script_hash_Key_def
  script_by_script_hash_Value_def script_hash_by_address_payload_hash_Key_def
  script_hash_by_address_payload_hash_Value_def spending_tx_by_txo_Key_def
  spending_tx_by_txo_Value_def transfer_inscriptions_by_script_hash_Key_def
  transfer_inscriptions_by_script_hash_Value_def
  transfer_inscriptions_by_script_hash_Cursor_def tx_first_seen_timestamp_Key_def
  tx_first_seen_timestamp_Value_def tx_info_TxIn_def tx_info_TxOut_def tx_info_Key_def
  tx_info_Value_def txs_by_block_Key_def txs_by_block_Value_def txs_by_block_Cursor_def
  txs_by_inscription_Key_def txs_by_inscription_Value_def txs_by_inscription_Cursor_def
  txs_by_rune_id_Key_def txs_by_rune_id_Value_def txs_by_rune_id_Cursor_def
  txs_by_script_hash_Key_def txs_by_script_hash_Value_def txs_by_script_hash_Cursor_def
  utxos_by_rune_id_Key_def utxos_by_rune_id_Value_def utxos_by_rune_id_Cursor_def
  utxos_by_script_hash_Key_def utxos_by_script_hash_Value_def
  utxos_by_script_hash_Cursor_def

interpretation utxo_key_codec: codec "sc_wf utxos_by_script_hash_Key" "sc_enc utxos_by_script_hash_Key"
  "sc_dec utxos_by_script_hash_Key"
  by (rule lawful_def [THEN iffD1]) (simp add: utxos_by_script_hash_Key_def)

section \<open>Properties\<close>

text \<open>
  C30. Every key of every reducer decodes to itself: for each key struct of the schema, decoding
  the bytes of a well-formed key, followed by anything, gives the key and leaves what followed.
\<close>

theorem reducer_keys_lawful:
  "lawful balances_by_brc20_Key \<and>
   lawful balances_by_rune_id_Key \<and>
   lawful block_by_tx_hash_Key \<and>
   lawful block_info_Key \<and>
   lawful brc20_balances_by_script_hash_Key \<and>
   lawful brc20_terms_by_ticker_Key \<and>
   lawful content_by_inscription_id_Key \<and>
   lawful etching_by_rune_id_Key \<and>
   lawful height_by_block_hash_Key \<and>
   lawful inscription_activity_by_block_Key \<and>
   lawful inscription_activity_by_script_hash_Key \<and>
   lawful inscription_activity_by_tx_Key \<and>
   lawful inscription_utxos_by_script_hash_Key \<and>
   lawful inscriptions_by_script_hash_Key \<and>
   lawful inscriptions_by_utxo_Key \<and>
   lawful mints_by_rune_id_Key \<and>
   lawful rune_balances_by_script_hash_Key \<and>
   lawful rune_id_by_rune_name_Key \<and>
   lawful rune_txs_by_script_hash_Key \<and>
   lawful rune_utxos_by_script_hash_Key \<and>
   lawful runes_by_utxo_Key \<and>
   lawful sat_balance_by_script_hash_Key \<and>
   lawful sat_txs_by_script_hash_Key \<and>
   lawful sats_per_vb_by_block_Key \<and>
   lawful script_by_script_hash_Key \<and>
   lawful script_hash_by_address_payload_hash_Key \<and>
   lawful spending_tx_by_txo_Key \<and>
   lawful transfer_inscriptions_by_script_hash_Key \<and>
   lawful tx_first_seen_timestamp_Key \<and>
   lawful tx_info_Key \<and>
   lawful txs_by_block_Key \<and>
   lawful txs_by_inscription_Key \<and>
   lawful txs_by_rune_id_Key \<and>
   lawful txs_by_script_hash_Key \<and>
   lawful utxos_by_rune_id_Key \<and>
   lawful utxos_by_script_hash_Key"
  by (simp add: schema_defs)

text \<open>
  The same holds for every value and cursor struct of the reducers, with their nested vectors,
  options, tuples and maps.
\<close>

theorem reducer_values_lawful:
  "lawful block_by_tx_hash_Value \<and>
   lawful block_info_Value \<and>
   lawful brc20_terms_by_ticker_Value \<and>
   lawful content_by_inscription_id_Value \<and>
   lawful content_by_inscription_id_Cursor \<and>
   lawful etching_by_rune_id_Value \<and>
   lawful height_by_block_hash_Value \<and>
   lawful inscription_activity_by_block_Value \<and>
   lawful inscription_activity_by_block_Cursor \<and>
   lawful inscription_activity_by_script_hash_SelfTransferredInscription \<and>
   lawful inscription_activity_by_script_hash_SentInscription \<and>
   lawful inscription_activity_by_script_hash_ReceivedInscription \<and>
   lawful inscription_activity_by_script_hash_Value \<and>
   lawful inscription_activity_by_script_hash_Cursor \<and>
   lawful inscription_activity_by_tx_Value \<and>
   lawful inscription_activity_by_tx_Cursor \<and>
   lawful inscription_utxos_by_script_hash_Value \<and>
   lawful inscription_utxos_by_script_hash_Cursor \<and>
   lawful inscriptions_by_script_hash_Value \<and>
   lawful inscriptions_by_script_hash_Cursor \<and>
   lawful inscriptions_by_utxo_Value \<and>
   lawful rune_id_by_rune_name_Value \<and>
   lawful rune_txs_by_script_hash_Value \<and>
   lawful rune_txs_by_script_hash_Cursor \<and>
   lawful rune_utxos_by_script_hash_Value \<and>
   lawful runes_by_utxo_Value \<and>
   lawful sat_balance_by_script_hash_Value \<and>
   lawful sat_txs_by_script_hash_Value \<and>
   lawful sat_txs_by_script_hash_Cursor \<and>
   lawful sats_per_vb_by_block_Value \<and>
   lawful script_by_script_hash_Value \<and>
   lawful script_hash_by_address_payload_hash_Value \<and>
   lawful spending_tx_by_txo_Value \<and>
   lawful transfer_inscriptions_by_script_hash_Value \<and>
   lawful transfer_inscriptions_by_script_hash_Cursor \<and>
   lawful tx_first_seen_timestamp_Value \<and>
   lawful tx_info_TxIn \<and>
   lawful tx_info_TxOut \<and>
   lawful tx_info_Value \<and>
   lawful txs_by_block_Value \<and>
   lawful txs_by_block_Cursor \<and>
   lawful txs_by_inscription_Value \<and>
   lawful txs_by_inscription_Cursor \<and>
   lawful txs_by_rune_id_Value \<and>
   lawful txs_by_rune_id_Cursor \<and>
   lawful txs_by_script_hash_Value \<and>
   lawful txs_by_script_hash_Cursor \<and>
   lawful utxos_by_rune_id_Value \<and>
   lawful utxos_by_rune_id_Cursor \<and>
   lawful utxos_by_script_hash_Value \<and>
   lawful utxos_by_script_hash_Cursor"
  by (simp add: schema_defs)

end
