(* ===== verification/Storage_Action.thy ===== *)
theory Storage_Action
  imports Rust_Prelude
begin

text \<open>
  The storage actions of \<open>polyphony-xdg/src/model.rs\<close>: what a reducer asks the database to do
  with one key, and \<open>merge\<close>, by which the batcher folds all actions on a key into one. A
  panic of \<open>merge\<close> is \<open>None\<close>. The lemmas relate a merged action to the sequence it
  replaces: through the bytes left for sets, deletes and inserts, through the number stored for
  increments and decrements.
\<close>

section \<open>Actions\<close>

datatype StorageAction =
    Set bytes bytes
  | Delete bytes
  | Insert bytes bytes
  | IncrementU64 bytes u64
  | DecrementU64 bytes u64
  | IncrementU128 bytes u128
  | DecrementU128 bytes u128
  | DecrementU128NoDelete bytes u128

type_synonym StorageActions = "StorageAction list"

fun action_key :: "StorageAction \<Rightarrow> bytes" where
  "action_key (Set k _) = k"
| "action_key (Delete k) = k"
| "action_key (Insert k _) = k"
| "action_key (IncrementU64 k _) = k"
| "action_key (DecrementU64 k _) = k"
| "action_key (IncrementU128 k _) = k"
| "action_key (DecrementU128 k _) = k"
| "action_key (DecrementU128NoDelete k _) = k"

fun requires_previous_value :: "StorageAction \<Rightarrow> bool" where
  "requires_previous_value (IncrementU64 _ _) = True"
| "requires_previous_value (DecrementU64 _ _) = True"
| "requires_previous_value (IncrementU128 _ _) = True"
| "requires_previous_value (DecrementU128 _ _) = True"
| "requires_previous_value (DecrementU128NoDelete _ _) = True"
| "requires_previous_value (Insert _ _) = True"
| "requires_previous_value (Set _ _) = False"
| "requires_previous_value (Delete _) = False"

fun action_size :: "StorageAction \<Rightarrow> nat" where
  "action_size (Set k v) = length k + length v"
| "action_size (Delete k) = length k"
| "action_size (Insert k v) = length k + length v"
| "action_size (IncrementU64 k _) = length k + 8"
| "action_size (DecrementU64 k _) = length k + 8"
| "action_size (IncrementU128 k _) = length k + 16"
| "action_size (DecrementU128 k _) = length k + 16"
| "action_size (DecrementU128NoDelete k _) = length k + 16"

text \<open>The body of \<open>merge\<close> after the assertion on the keys; the sums wrap around.\<close>

fun merge_same_key :: "StorageAction \<Rightarrow> StorageAction \<Rightarrow> StorageAction option" where
  "merge_same_key (IncrementU64 k pd) other =
     (case other of
        IncrementU64 nk nd \<Rightarrow> Some (IncrementU64 nk (pd + nd))
      | DecrementU64 nk nd \<Rightarrow>
          if nd \<le> pd then Some (IncrementU64 nk (pd - nd)) else Some (DecrementU64 nk (nd - pd))
      | _ \<Rightarrow> None)"
| "merge_same_key (DecrementU64 k pd) other =
     (case other of
        DecrementU64 nk nd \<Rightarrow> Some (DecrementU64 nk (pd + nd))
      | IncrementU64 nk nd \<Rightarrow>
          if nd \<le> pd then Some (DecrementU64 nk (pd - nd)) else Some (IncrementU64 nk (nd - pd))
      | _ \<Rightarrow> None)"
| "merge_same_key (IncrementU128 k pd) other =
     (case other of
        IncrementU128 nk nd \<Rightarrow> Some (IncrementU128 nk (pd + nd))
      | DecrementU128 nk nd \<Rightarrow>
          if nd \<le> pd then Some (IncrementU128 nk (pd - nd)) else Some (DecrementU128 nk (nd - pd))
      | DecrementU128NoDelete nk nd \<Rightarrow>
          if nd \<le> pd then Some (IncrementU128 nk (pd - nd))
          else Some (DecrementU128NoDelete nk (nd - pd))
      | _ \<Rightarrow> None)"
| "merge_same_key (DecrementU128 k pd) other =
     (case other of
        DecrementU128 nk nd \<Rightarrow> Some (DecrementU128 nk (pd + nd))
      | IncrementU128 nk nd \<Rightarrow>
          if nd \<le> pd then Some (DecrementU128 nk (pd - nd)) else Some (IncrementU128 nk (nd - pd))
      | _ \<Rightarrow> None)"
| "merge_same_key (DecrementU128NoDelete k pd) other =
     (case other of
        DecrementU128NoDelete nk nd \<Rightarrow> Some (DecrementU128NoDelete nk (pd + nd))
      | IncrementU128 nk nd \<Rightarrow>
          if nd \<le> pd then Some (DecrementU128NoDelete nk (pd - nd))
          else Some (IncrementU128 nk (nd - pd))
      | _ \<Rightarrow> None)"
| "merge_same_key (Set k v) other =
     (case other of
        Set _ _ \<Rightarrow> Some other | Delete _ \<Rightarrow> Some other
      | Insert _ _ \<Rightarrow> Some (Set k v)
      | _ \<Rightarrow> None)"
| "merge_same_key (Delete k) other =
     (case other of
        Insert k v \<Rightarrow> Some (Set k v)
      | Set _ _ \<Rightarrow> Some other | Delete _ \<Rightarrow> Some other
      | _ \<Rightarrow> None)"
| "merge_same_key (Insert k v) other =
     (case other of
        Set _ _ \<Rightarrow> Some other | Delete _ \<Rightarrow> Some other
      | Insert _ _ \<Rightarrow> Some (Insert k v)
      | _ \<Rightarrow> None)"

definition merge :: "StorageAction \<Rightarrow> StorageAction \<Rightarrow> StorageAction option" where
  "merge a other = (if action_key a = action_key other then merge_same_key a other else None)"

section \<open>What an action means for the value of its key\<close>

text \<open>
  The reading of an action by the number its key holds: an absent key counts as zero. Sets,
  deletes and inserts are read by the bytes they leave.
\<close>

fun action_delta :: "StorageAction \<Rightarrow> int option" where
  "action_delta (IncrementU64 _ d) = Some (uint d)"
| "action_delta (DecrementU64 _ d) = Some (- uint d)"
| "action_delta (IncrementU128 _ d) = Some (uint d)"
| "action_delta (DecrementU128 _ d) = Some (- uint d)"
| "action_delta (DecrementU128NoDelete _ d) = Some (- uint d)"
| "action_delta _ = None"

fun action_width :: "StorageAction \<Rightarrow> nat" where
  "action_width (IncrementU64 _ d) = 64"
| "action_width (DecrementU64 _ d) = 64"
| "action_width _ = 128"

fun write_effect :: "StorageAction \<Rightarrow> bytes option \<Rightarrow> bytes option" where
  "write_effect (Set _ v) old = Some v"
| "write_effect (Delete _) old = None"
| "write_effect (Insert _ v) old = (case old of None \<Rightarrow> Some v | Some w \<Rightarrow> Some w)"
| "write_effect _ old = old"

fun merge_all :: "StorageAction \<Rightarrow> StorageAction list \<Rightarrow> StorageAction option" where
  "merge_all a [] = Some a"
| "merge_all a (b # bs) = (case merge a b of None \<Rightarrow> None | Some c \<Rightarrow> merge_all c bs)"

section \<open>Merging keeps the meaning\<close>

lemma uint_minus_le: "nd \<le> pd \<Longrightarrow> uint (pd - nd) = uint pd - uint nd" for pd nd :: "'a::len word"
  by (simp add: uint_minus_simple_alt word_le_def)

lemma merge_key: "merge a b = Some c \<Longrightarrow> action_key c = action_key a \<and> action_key a = action_key b"
  by (cases a; cases b; auto simp: merge_def split: if_splits)

lemma merge_write:
  assumes "merge a b = Some c" "action_delta a = None"
  shows "action_delta b = None \<and> action_delta c = None \<and>
    write_effect c old = write_effect b (write_effect a old)"
  using assms by (cases a; cases b; auto simp: merge_def split: if_splits option.splits)

lemma merge_numeric_closed:
  assumes "merge a b = Some c" "action_delta a = Some x"
  shows "\<exists>y z. action_delta b = Some y \<and> action_delta c = Some z"
  using assms by (cases a; cases b; auto simp: merge_def split: if_splits)

lemma merge_width:
  assumes "merge a b = Some c" "action_delta a = Some x"
  shows "action_width c = action_width a \<and> action_width b = action_width a"
  using assms by (cases a; cases b; auto simp: merge_def split: if_splits)

lemma merge_delta:
  assumes "merge a b = Some c" "action_delta a = Some x" "action_delta b = Some y"
    "\<bar>x + y\<bar> < 2 ^ action_width a"
  shows "action_delta c = Some (x + y)"
proof -
  note small = uint_plus_small [where 'a = 64] uint_plus_small [where 'a = 128]
  show ?thesis
    using assms
    by (cases a; cases b) (auto simp: merge_def uint_minus_le not_le small split: if_splits)
qed

lemma merge_all_write:
  "merge_all a bs = Some c \<Longrightarrow> action_delta a = None \<Longrightarrow>
   action_delta c = None \<and> write_effect c old = fold write_effect (a # bs) old"
proof (induction a bs arbitrary: old rule: merge_all.induct)
  case (2 a b bs)
  then obtain m where m: "merge a b = Some m" by (auto split: option.splits)
  with 2 merge_write [OF m] show ?case by (simp add: m)
qed simp

definition deltas :: "StorageAction list \<Rightarrow> int list" where
  "deltas as = map (\<lambda>a. case action_delta a of None \<Rightarrow> 0 | Some d \<Rightarrow> d) as"

text \<open>
  A run of increments and decrements from the number \<open>n\<close> that stays within the width.
\<close>

fun stays_in_width :: "nat \<Rightarrow> int \<Rightarrow> int list \<Rightarrow> bool" where
  "stays_in_width w n [] = True"
| "stays_in_width w n (d # ds) = (0 \<le> n + d \<and> n + d < 2 ^ w \<and> stays_in_width w (n + d) ds)"

lemma merge_all_delta:
  assumes "0 \<le> n" "n < 2 ^ action_width a" "action_delta a = Some x" "0 \<le> n + x" "n + x < 2 ^ action_width a"
    "merge_all a bs = Some c" "stays_in_width (action_width a) (n + x) (deltas bs)"
  shows "action_delta c = Some (x + sum_list (deltas bs)) \<and> action_width c = action_width a"
  using assms
proof (induction a bs arbitrary: x rule: merge_all.induct)
  case (2 a b bs)
  then obtain m where m: "merge a b = Some m" and rest: "merge_all m bs = Some c"
    by (auto split: option.splits)
  obtain y z where y: "action_delta b = Some y" and z: "action_delta m = Some z"
    using merge_numeric_closed [OF m 2(4)] by blast
  have w: "action_width m = action_width a" using merge_width [OF m 2(4)] by simp
  have range: "0 \<le> n + x + y" "n + x + y < 2 ^ action_width a"
    "stays_in_width (action_width a) (n + x + y) (deltas bs)"
    using 2(8) by (simp_all add: deltas_def y)
  have "\<bar>x + y\<bar> < 2 ^ action_width a" using range(1,2) 2(2,3) by linarith
  from merge_delta [OF m 2(4) y this] have zxy: "z = x + y" by (simp add: z)
  have "action_delta c = Some (z + sum_list (deltas bs)) \<and> action_width c = action_width m"
    by (rule 2(1) [OF m]) (use 2(2,3) z zxy range rest w in \<open>simp_all add: add.assoc\<close>)
  then show ?case by (simp add: deltas_def y zxy w)
qed (simp add: deltas_def)

section \<open>Properties\<close>

text \<open>
  C27. Merging a sequence of sets, deletes and inserts on a key leaves for every previous value
  the same bytes as carrying them out one after the other.
\<close>

theorem merge_writes_correct:
  assumes "merge_all a bs = Some c" "action_delta a = None"
  shows "write_effect c old = fold write_effect (a # bs) old"
  using merge_all_write [OF assms] by simp

theorem merge_writes_correct_witness:
  "write_effect (Set [1] [8]) (Some [9]) =
     fold write_effect [Insert [1] [5], Delete [1], Insert [1] [8], Insert [1] [7]] (Some [9])"
  by (rule merge_writes_correct) (simp_all add: merge_def)

text \<open>
  Merging increments and decrements of a counter, in any order, gives one action whose signed
  amount is the sum of theirs, provided that the counter stays between zero and the bound of its
  width at every step: nothing is lost to the wrapping sums inside \<open>merge\<close>.
\<close>

theorem merge_counts_correct:
  assumes "merge_all a bs = Some c" "action_delta a = Some x"
    "0 \<le> n" "n < 2 ^ action_width a" "stays_in_width (action_width a) n (deltas (a # bs))"
  shows "action_delta c = Some (sum_list (deltas (a # bs)))"
proof -
  from assms(2,5) have "0 \<le> n + x" "n + x < 2 ^ action_width a"
    "stays_in_width (action_width a) (n + x) (deltas bs)" by (simp_all add: deltas_def)
  from merge_all_delta [OF assms(3,4,2) this(1,2) assms(1) this(3)] show ?thesis
    using assms(2) by (simp add: deltas_def)
qed

theorem merge_counts_correct_witness:
  "action_delta (DecrementU64 [1] 5) =
     Some (sum_list (deltas [IncrementU64 [1] 10, DecrementU64 [1] 15]))"
  by (rule merge_counts_correct [where a = "IncrementU64 [1] 10" and bs = "[DecrementU64 [1] 15]"
        and x = 10 and n = 20])
    (simp_all add: merge_def deltas_def)

end
