(* ===== verification/Rollback_Buffer.thy ===== *)
theory Rollback_Buffer
  imports Storage_Action
begin

text \<open>
  The in-memory rollback buffer of \<open>polyphony-xdg/src/rollback/buffer.rs\<close>, newest block first,
  and the error policies of \<open>crosscut/policies.rs\<close>. Its abstract counterpart is the full
  history of the chain; the buffer always holds the newest part of it, so that a rollback it can
  serve is the rollback of the history.
\<close>

section \<open>The buffer\<close>

record Point =
  pt_height :: u64
  pt_hash :: bytes

record 'a PointWithResult =
  pr_point :: Point
  pr_result :: 'a

record 'a RollbackBuffer =
  rb_blocks :: "'a PointWithResult list"
  rb_size :: nat

definition MAX_BUFFER_LEN :: nat where
  "MAX_BUFFER_LEN = 16"

definition rb_new :: "nat \<Rightarrow> 'a RollbackBuffer" where
  "rb_new sz = \<lparr>rb_blocks = [], rb_size = sz\<rparr>"

definition rb_default :: "'a RollbackBuffer" where
  "rb_default = rb_new MAX_BUFFER_LEN"

fun iter_position :: "('b \<Rightarrow> bool) \<Rightarrow> 'b list \<Rightarrow> nat option" where
  "iter_position P [] = None"
| "iter_position P (x # xs) = (if P x then Some 0 else map_option Suc (iter_position P xs))"

definition rb_position :: "'a RollbackBuffer \<Rightarrow> Point \<Rightarrow> nat option" where
  "rb_position b point = iter_position (\<lambda>p. pr_point p = point) (rb_blocks b)"

definition rb_len :: "'a RollbackBuffer \<Rightarrow> nat" where
  "rb_len b = length (rb_blocks b)"

definition rb_is_empty :: "'a RollbackBuffer \<Rightarrow> bool" where
  "rb_is_empty b \<longleftrightarrow> rb_blocks b = []"

definition rb_latest :: "'a RollbackBuffer \<Rightarrow> 'a PointWithResult option" where
  "rb_latest b = (case rb_blocks b of [] \<Rightarrow> None | p # _ \<Rightarrow> Some p)"

definition rb_oldest :: "'a RollbackBuffer \<Rightarrow> 'a PointWithResult option" where
  "rb_oldest b = (case rev (rb_blocks b) of [] \<Rightarrow> None | p # _ \<Rightarrow> Some p)"

definition rb_add_block :: "Point \<Rightarrow> 'a \<Rightarrow> 'a RollbackBuffer \<Rightarrow> 'a RollbackBuffer" where
  "rb_add_block point result b =
     b\<lparr>rb_blocks := take (rb_size b) (\<lparr>pr_point = point, pr_result = result\<rparr> # rb_blocks b)\<rparr>"

definition rb_rollback_to_point ::
  "Point \<Rightarrow> 'a RollbackBuffer \<Rightarrow> Point + 'a PointWithResult list \<times> 'a RollbackBuffer" where
  "rb_rollback_to_point point b =
     (case rb_position b point of
        Some p \<Rightarrow> Inr (take p (rb_blocks b), b\<lparr>rb_blocks := drop p (rb_blocks b)\<rparr>)
      | None \<Rightarrow> Inl point)"

definition rb_points_since :: "'a RollbackBuffer \<Rightarrow> Point \<Rightarrow> Point + 'a PointWithResult list" where
  "rb_points_since b point =
     (case rb_position b point of
        Some p \<Rightarrow> Inr (take p (rb_blocks b))
      | None \<Rightarrow> Inl point)"

section \<open>Error policies\<close>

datatype ErrorAction = Skip | Warn | DefaultAction

datatype PolyError =
  MissingUtxo bytes | LedgerError string | RollbackOutOfRange Point | OtherError string

record RuntimePolicy =
  missing_data :: "ErrorAction option"
  ledger_errors :: "ErrorAction option"
  rollback_errors :: "ErrorAction option"
  any_error :: "ErrorAction option"

definition handle_error :: "PolyError \<Rightarrow> ErrorAction option \<Rightarrow> PolyError + 'a option" where
  "handle_error err action =
     (case action of Some Skip \<Rightarrow> Inr None | Some Warn \<Rightarrow> Inr None | _ \<Rightarrow> Inl err)"

definition apply_policy :: "PolyError + 'a \<Rightarrow> RuntimePolicy \<Rightarrow> PolyError + 'a option" where
  "apply_policy r policy =
     (case r of Inr t \<Rightarrow> Inr (Some t)
      | Inl err \<Rightarrow>
        if any_error policy \<noteq> None then handle_error err (any_error policy)
        else (case err of
            MissingUtxo _ \<Rightarrow> handle_error err (missing_data policy)
          | LedgerError _ \<Rightarrow> handle_error err (ledger_errors policy)
          | RollbackOutOfRange _ \<Rightarrow> handle_error err (rollback_errors policy)
          | OtherError _ \<Rightarrow> Inl err))"

section \<open>The history of the chain\<close>

text \<open>
  The specification: every block ever added and not rolled back, newest first, with no bound.
\<close>

type_synonym 'a history = "'a PointWithResult list"

definition hist_add :: "Point \<Rightarrow> 'a \<Rightarrow> 'a history \<Rightarrow> 'a history" where
  "hist_add point result h = \<lparr>pr_point = point, pr_result = result\<rparr> # h"

fun hist_rollback :: "Point \<Rightarrow> 'a history \<Rightarrow> 'a history \<times> 'a history" where
  "hist_rollback point [] = ([], [])"
| "hist_rollback point (b # h) =
     (if pr_point b = point then ([], b # h)
      else let (undone, kept) = hist_rollback point h in (b # undone, kept))"

definition represents :: "'a RollbackBuffer \<Rightarrow> 'a history \<Rightarrow> bool" where
  "represents b h \<longleftrightarrow> length (rb_blocks b) \<le> rb_size b \<and> rb_blocks b = take (length (rb_blocks b)) h"

section \<open>The buffer refines the history\<close>

lemma iter_position_Some:
  "iter_position P xs = Some i \<Longrightarrow>
   i < length xs \<and> P (xs ! i) \<and> (\<forall>x\<in>set (take i xs). \<not> P x)"
  by (induction xs arbitrary: i) (auto split: if_splits)

lemma iter_position_None: "iter_position P xs = None \<longleftrightarrow> (\<forall>x\<in>set xs. \<not> P x)"
  by (induction xs) auto

lemma represents_prefix:
  "represents b h \<longleftrightarrow> length (rb_blocks b) \<le> rb_size b \<and> (\<exists>older. h = rb_blocks b @ older)"
  unfolding represents_def by (metis append_eq_conv_conj append_take_drop_id)

lemma represents_new: "represents (rb_new n) h"
  by (simp add: represents_def rb_new_def)

lemma represents_add:
  assumes "represents b h"
  shows "represents (rb_add_block point result b) (hist_add point result h)"
proof -
  obtain older where h: "h = rb_blocks b @ older" using assms by (auto simp: represents_prefix)
  show ?thesis
    unfolding represents_def
    by (cases "rb_size b") (auto simp: rb_add_block_def hist_add_def h min_def)
qed

lemma hist_rollback_position:
  "iter_position (\<lambda>p. pr_point p = point) bs = Some i \<Longrightarrow>
   hist_rollback point (bs @ older) = (take i bs, drop i bs @ older)"
  by (induction bs arbitrary: i) (auto split: if_splits)

lemma represents_rollback:
  assumes "represents b h" "rb_rollback_to_point point b = Inr (undone, b')"
  shows "hist_rollback point h = (undone, drop (length undone) h) \<and>
    represents b' (snd (hist_rollback point h)) \<and> rb_points_since b point = Inr undone"
proof -
  obtain older where h: "h = rb_blocks b @ older" and len: "length (rb_blocks b) \<le> rb_size b"
    using assms(1) by (auto simp: represents_prefix)
  obtain i where i: "rb_position b point = Some i" and u: "undone = take i (rb_blocks b)"
    and b': "b' = b\<lparr>rb_blocks := drop i (rb_blocks b)\<rparr>"
    using assms(2) by (auto simp: rb_rollback_to_point_def split: option.splits)
  have "i < length (rb_blocks b)" using i iter_position_Some [of _ "rb_blocks b" i]
    by (auto simp: rb_position_def)
  moreover have "hist_rollback point h = (take i (rb_blocks b), drop i (rb_blocks b) @ older)"
    using i hist_rollback_position by (auto simp: rb_position_def h)
  ultimately show ?thesis
    using len by (auto simp: h u b' represents_prefix rb_points_since_def i min_def)
qed

section \<open>The interface of an undo log\<close>

datatype 'a chain_event = Forward Point 'a | Back Point

fun hist_run :: "'a chain_event list \<Rightarrow> 'a history \<Rightarrow> 'a history" where
  "hist_run [] h = h"
| "hist_run (Forward p r # es) h = hist_run es (hist_add p r h)"
| "hist_run (Back p # es) h = hist_run es (snd (hist_rollback p h))"

fun log_run :: "(Point \<Rightarrow> 'a \<Rightarrow> 'b \<Rightarrow> 'b) \<Rightarrow>
  (Point \<Rightarrow> 'b \<Rightarrow> Point + 'a PointWithResult list \<times> 'b) \<Rightarrow> 'a chain_event list \<Rightarrow> 'b \<Rightarrow> 'b option" where
  "log_run add roll [] b = Some b"
| "log_run add roll (Forward p r # es) b = log_run add roll es (add p r b)"
| "log_run add roll (Back p # es) b =
     (case roll p b of Inl _ \<Rightarrow> None | Inr (_, b') \<Rightarrow> log_run add roll es b')"

locale undo_log =
  fixes repr :: "'b \<Rightarrow> 'a history \<Rightarrow> bool"
    and add :: "Point \<Rightarrow> 'a \<Rightarrow> 'b \<Rightarrow> 'b"
    and since :: "'b \<Rightarrow> Point \<Rightarrow> Point + 'a PointWithResult list"
    and roll :: "Point \<Rightarrow> 'b \<Rightarrow> Point + 'a PointWithResult list \<times> 'b"
  assumes add_repr: "repr b h \<Longrightarrow> repr (add p r b) (hist_add p r h)"
    and roll_repr: "repr b h \<Longrightarrow> roll p b = Inr (undone, b') \<Longrightarrow>
      fst (hist_rollback p h) = undone \<and> repr b' (snd (hist_rollback p h))"
    and since_roll: "since b p = map_sum id fst (roll p b)"
begin

lemma run_repr: "repr b h \<Longrightarrow> log_run add roll es b = Some b' \<Longrightarrow> repr b' (hist_run es h)"
proof (induction es arbitrary: b h)
  case (Cons e es)
  show ?case
  proof (cases e)
    case (Forward p r)
    with Cons.prems show ?thesis using Cons.IH [OF add_repr [OF Cons.prems(1), of p r]] by simp
  next
    case (Back p)
    with Cons.prems obtain u b1 where r: "roll p b = Inr (u, b1)" by (auto split: sum.splits)
    with Cons Back roll_repr [OF Cons.prems(1) r] show ?thesis by auto
  qed
qed simp

lemma run_since:
  assumes "repr b h" "log_run add roll es b = Some b'" "since b' p = Inr undone"
  shows "undone = fst (hist_rollback p (hist_run es h))"
  using run_repr [OF assms(1,2)] roll_repr assms(3) since_roll [of b' p] by (cases "roll p b'") auto

end

interpretation rb_log: undo_log represents rb_add_block rb_points_since rb_rollback_to_point
proof
  show "represents (rb_add_block p r b) (hist_add p r h)" if "represents b h"
    for b :: "'a RollbackBuffer" and h p r using that by (rule represents_add)
  show "fst (hist_rollback p h) = undone \<and> represents b' (snd (hist_rollback p h))"
    if "represents b h" "rb_rollback_to_point p b = Inr (undone, b')"
    for b :: "'a RollbackBuffer" and h p undone b' using represents_rollback [OF that] by auto
  show "rb_points_since b p = map_sum id fst (rb_rollback_to_point p b)"
    for b :: "'a RollbackBuffer" and p
    by (simp add: rb_points_since_def rb_rollback_to_point_def split: option.splits)
qed

section \<open>Properties\<close>

lemma hist_rollback_split:
  assumes "hist_rollback p h = (undone, kept)"
  shows "h = undone @ kept \<and> (\<forall>b\<in>set undone. pr_point b \<noteq> p) \<and> (kept = [] \<or> pr_point (hd kept) = p)"
  using assms by (induction h arbitrary: undone) (auto split: if_splits prod.splits)

text \<open>
  C21. A rollback served by the buffer, after any number of blocks and earlier rollbacks, takes
  exactly the blocks that the history holds above the point, newest first; the point is then the
  newest block left, and \<open>points_since\<close> announced the same blocks without removing them.
\<close>

theorem rollback_buffer_refines_history:
  assumes "represents b h" "rb_rollback_to_point p b = Inr (undone, b')"
  shows "rb_points_since b p = Inr undone \<and> represents b' (drop (length undone) h) \<and>
    take (length undone) h = undone \<and> (\<forall>x \<in> set undone. pr_point x \<noteq> p) \<and>
    map_option pr_point (rb_latest b') = Some p"
proof -
  have u: "hist_rollback p h = (undone, drop (length undone) h)"
    and s: "rb_points_since b p = Inr undone"
    using represents_rollback [OF assms] by auto
  have r: "represents b' (drop (length undone) h)" using represents_rollback [OF assms] by (simp add: u)
  from hist_rollback_split [OF u] have split: "h = undone @ drop (length undone) h"
    "\<forall>x \<in> set undone. pr_point x \<noteq> p" by simp_all
  obtain i where "rb_position b p = Some i" "b' = b\<lparr>rb_blocks := drop i (rb_blocks b)\<rparr>"
    using assms(2) by (auto simp: rb_rollback_to_point_def split: option.splits)
  then have "map_option pr_point (rb_latest b') = Some p"
    using iter_position_Some [of _ "rb_blocks b" i]
    by (auto simp: rb_latest_def rb_position_def Cons_nth_drop_Suc [symmetric])
  with u r s split show ?thesis by (metis append_eq_conv_conj)
qed

definition sample_point :: "u64 \<Rightarrow> Point" where
  "sample_point n = \<lparr>pt_height = n, pt_hash = replicate 32 (ucast n)\<rparr>"

definition sample_buffer :: "u64 RollbackBuffer" where
  "sample_buffer = rb_add_block (sample_point 2) 20 (rb_add_block (sample_point 1) 10 (rb_new 16))"

theorem rollback_buffer_refines_history_witness:
  "represents sample_buffer (rb_blocks sample_buffer) \<and>
   rb_points_since sample_buffer (sample_point 1) =
     Inr [\<lparr>pr_point = sample_point 2, pr_result = 20\<rparr>]"
proof -
  have r: "represents sample_buffer (rb_blocks sample_buffer)"
    by (simp add: represents_def sample_buffer_def rb_add_block_def rb_new_def)
  have "rb_rollback_to_point (sample_point 1) sample_buffer =
    Inr ([\<lparr>pr_point = sample_point 2, pr_result = 20\<rparr>],
      sample_buffer\<lparr>rb_blocks := [\<lparr>pr_point = sample_point 1, pr_result = 10\<rparr>]\<rparr>)"
    by (simp add: rb_rollback_to_point_def rb_position_def sample_buffer_def rb_add_block_def rb_new_def
        sample_point_def)
  from rollback_buffer_refines_history [OF r this] r show ?thesis by simp
qed

text \<open>
  After any sequence of added blocks and served rollbacks the buffer holds at most its size
  and the blocks to be undone for a point are those the unbounded history would undo.
\<close>

theorem rollback_buffer_trace:
  assumes "represents b h" "log_run rb_add_block rb_rollback_to_point es b = Some b'" "rb_points_since b' p = Inr undone"
  shows "undone = fst (hist_rollback p (hist_run es h)) \<and> rb_len b' \<le> rb_size b'"
  using rb_log.run_since [OF assms] rb_log.run_repr [OF assms(1,2)]
  by (simp add: represents_def rb_len_def)

theorem rollback_buffer_trace_witness:
  "\<exists>b'. log_run rb_add_block rb_rollback_to_point [Forward (sample_point 3) 30, Back (sample_point 2)] sample_buffer = Some b' \<and>
     [\<lparr>pr_point = sample_point 2, pr_result = 20\<rparr>] =
       fst (hist_rollback (sample_point 1)
         (hist_run [Forward (sample_point 3) 30, Back (sample_point 2)] (rb_blocks sample_buffer)))"
proof -
  have run: "log_run rb_add_block rb_rollback_to_point [Forward (sample_point 3) 30, Back (sample_point 2)] sample_buffer =
      Some sample_buffer"
    by (simp add: rb_rollback_to_point_def rb_position_def sample_buffer_def rb_add_block_def
        rb_new_def sample_point_def)
  have r: "represents sample_buffer (rb_blocks sample_buffer)"
    by (simp add: represents_def sample_buffer_def rb_add_block_def rb_new_def)
  have "rb_points_since sample_buffer (sample_point 1) =
      Inr [\<lparr>pr_point = sample_point 2, pr_result = 20\<rparr>]"
    by (simp add: rb_points_since_def rb_position_def sample_buffer_def rb_add_block_def rb_new_def
        sample_point_def)
  from rollback_buffer_trace [OF r run this] run show ?thesis by blast
qed

end
