(* ===== verification/Reducer_Outputs.thy ===== *)
theory Reducer_Outputs
  imports Timbre_Schema Rollback_Buffer
begin

text \<open>
  What the reducers of \<open>polyphony-xdg\<close> emit (\<open>reducers/mod.rs\<close> and the \<open>Output\<close> structs)
  and how the storage stage turns it into storage actions
  (\<open>storage/tikv.rs: reducer_output_to_storage_ops\<close>): one definition per arm of the match.
  The arguments of a constructor are the fields of the \<open>Output\<close> struct in their order. A
  ticker of more than 255 bytes makes the conversion panic: \<open>None\<close>.
\<close>

section \<open>Outputs\<close>

datatype 'a UtxoAction = Consumed | Produced 'a

datatype 'a IncrOrDecr = Increment 'a | Decrement 'a

record EtchingInfo =
  ei_name :: "u128 option"
  ei_spacers :: "u32 option"
  ei_symbol :: "u32 option"
  ei_divisibility :: "u8 option"
  ei_max_mint_txs :: "u128 option"
  ei_amount_per_mint :: "u128 option"
  ei_start_height :: "u64 option"
  ei_end_height :: "u64 option"
  ei_start_offset :: "u64 option"
  ei_end_offset :: "u64 option"
  ei_turbo :: bool

type_synonym rune_id = "u64 \<times> u32"
type_synonym inscription_ref = "bytes \<times> u32"

datatype ReducerOutput =
    Out_BalancesByBrc20 bytes bytes "u128 IncrOrDecr"
  | Out_BalancesByRuneId rune_id bytes "u128 IncrOrDecr"
  | Out_Brc20BalancesByScriptHash bytes bytes "u128 IncrOrDecr" "u128 IncrOrDecr"
  | Out_Brc20TermsByTicker bytes u128 u128 u8 bool inscription_ref
  | Out_EtchingByRuneId rune_id bytes EtchingInfo bool
  | Out_InscriptionUtxosByScriptHash bytes u64 bytes u32 "(u64 \<times> (u32 \<times> inscription_ref) list) UtxoAction"
  | Out_ContentByInscriptionId inscription_ref u64 u64 bytes bytes
  | Out_InscriptionsByScriptHash bytes inscription_ref "(u64 \<times> (bytes \<times> u32) \<times> u32) UtxoAction"
  | Out_InscriptionsByUtxo bytes u32 "(u32 \<times> inscription_ref) list UtxoAction"
  | Out_MintsByRuneId rune_id
  | Out_RuneBalancesByScriptHash bytes rune_id "u128 IncrOrDecr"
  | Out_RuneIdByRuneName u128 rune_id
  | Out_RunesByUtxo bytes u32 "(rune_id \<times> u128) list UtxoAction"
  | Out_SatBalanceByScriptHash bytes "u64 IncrOrDecr"
  | Out_ScriptByScriptHash bytes bytes
  | Out_ScriptHashByAddressPayloadHash bytes bytes
  | Out_TransferInscriptionsByScriptHash bytes bytes inscription_ref
      "(u128 \<times> u64 \<times> (bytes \<times> u32) \<times> u32 \<times> u64) UtxoAction"
  | Out_TxsByScriptHash bytes u64 bytes u16 bool bool
  | Out_UtxosByRuneId rune_id u64 bytes u32 "(bytes \<times> u128 \<times> u64) UtxoAction"
  | Out_UtxosByScriptHash bytes u64 bytes u32 "u64 UtxoAction"
  | Out_Cursor Point bool u64

section \<open>From outputs to storage actions\<close>

definition incr_or_decr_u128 :: "bytes \<Rightarrow> u128 IncrOrDecr \<Rightarrow> StorageAction" where
  "incr_or_decr_u128 key delta =
     (case delta of Increment x \<Rightarrow> IncrementU128 key x | Decrement x \<Rightarrow> DecrementU128 key x)"

definition incr_or_decr_no_delete :: "bytes \<Rightarrow> u128 IncrOrDecr \<Rightarrow> StorageAction" where
  "incr_or_decr_no_delete key delta =
     (case delta of Increment x \<Rightarrow> IncrementU128 key x | Decrement x \<Rightarrow> DecrementU128NoDelete key x)"

definition set_or_delete :: "bytes \<Rightarrow> ('a \<Rightarrow> bytes) \<Rightarrow> 'a UtxoAction \<Rightarrow> StorageAction" where
  "set_or_delete key value action =
     (case action of Consumed \<Rightarrow> Delete key | Produced x \<Rightarrow> Set key (value x))"

definition ops_balances_by_brc20 ::
  "Namespace \<Rightarrow> bytes \<Rightarrow> bytes \<Rightarrow> u128 IncrOrDecr \<Rightarrow> StorageAction list option" where
  "ops_balances_by_brc20 n brc_ticker script_hash total_delta =
     (case sbs_try_from brc_ticker of Inl _ \<Rightarrow> None | Inr ticker \<Rightarrow>
        Some [incr_or_decr_u128
          (prefix_data n BalancesByBrc20 (sc_enc balances_by_brc20_Key (ticker, script_hash))) total_delta])"

definition ops_balances_by_rune_id ::
  "Namespace \<Rightarrow> rune_id \<Rightarrow> bytes \<Rightarrow> u128 IncrOrDecr \<Rightarrow> StorageAction list" where
  "ops_balances_by_rune_id n rune_id script_hash action =
     [incr_or_decr_u128
       (prefix_data n BalancesByRuneId (sc_enc balances_by_rune_id_Key
         ((VarUInt (ucast (fst rune_id)), VarUInt (ucast (snd rune_id))), script_hash))) action]"

definition ops_brc20_balances_by_script_hash ::
  "Namespace \<Rightarrow> bytes \<Rightarrow> bytes \<Rightarrow> u128 IncrOrDecr \<Rightarrow> u128 IncrOrDecr \<Rightarrow> StorageAction list option" where
  "ops_brc20_balances_by_script_hash n script_hash brc_ticker total_delta available_delta =
     (case sbs_try_from brc_ticker of Inl _ \<Rightarrow> None | Inr ticker \<Rightarrow>
        let key = sc_enc brc20_balances_by_script_hash_Key (script_hash, ticker) in
        Some [incr_or_decr_no_delete (prefix_data n Brc20TotalBalanceByScriptHash key) total_delta,
              incr_or_decr_no_delete (prefix_data n Brc20AvailableBalanceByScriptHash key) available_delta])"

definition ops_brc20_terms_by_ticker ::
  "Namespace \<Rightarrow> bytes \<Rightarrow> u128 \<Rightarrow> u128 \<Rightarrow> u8 \<Rightarrow> bool \<Rightarrow> inscription_ref \<Rightarrow> StorageAction list option" where
  "ops_brc20_terms_by_ticker n ticker maximum limit dec self_mint deploy_id =
     (case sbs_try_from ticker of Inl _ \<Rightarrow> None | Inr ticker \<Rightarrow>
        Some [Set (prefix_data n Brc20TermsByTicker (sc_enc brc20_terms_by_ticker_Key ticker))
          (sc_enc brc20_terms_by_ticker_Value (maximum, limit, dec, self_mint, deploy_id))])"

definition ops_etching_by_rune_id ::
  "Namespace \<Rightarrow> rune_id \<Rightarrow> bytes \<Rightarrow> EtchingInfo \<Rightarrow> bool \<Rightarrow> StorageAction list" where
  "ops_etching_by_rune_id n rune_id tx_hash etching cenotaph =
     [Set (prefix_data n EtchingByRuneId (sc_enc etching_by_rune_id_Key rune_id))
        (sc_enc etching_by_rune_id_Value
          (tx_hash, ei_name etching, ei_spacers etching, ei_symbol etching, ei_divisibility etching,
           None, ei_max_mint_txs etching, ei_amount_per_mint etching, ei_start_height etching,
           ei_end_height etching, ei_start_offset etching, ei_end_offset etching, ei_turbo etching,
           cenotaph))]"

definition ops_content_by_inscription_id ::
  "Namespace \<Rightarrow> inscription_ref \<Rightarrow> u64 \<Rightarrow> u64 \<Rightarrow> bytes \<Rightarrow> bytes \<Rightarrow> StorageAction list" where
  "ops_content_by_inscription_id n inscription_id created_at inscription_num content_type content_body =
     [Set (prefix_data n ContentByInscriptionId (sc_enc content_by_inscription_id_Key inscription_id))
        (sc_enc content_by_inscription_id_Value (created_at, inscription_num, content_type, content_body))]"

definition ops_inscription_utxos_by_script_hash ::
  "Namespace \<Rightarrow> bytes \<Rightarrow> u64 \<Rightarrow> bytes \<Rightarrow> u32 \<Rightarrow> (u64 \<times> (u32 \<times> inscription_ref) list) UtxoAction \<Rightarrow>
   StorageAction list" where
  "ops_inscription_utxos_by_script_hash n script_hash height utxo_hash utxo_index action =
     [set_or_delete
       (prefix_data n InscriptionUtxosByScriptHash (sc_enc inscription_utxos_by_script_hash_Key
         (script_hash, VarUInt (ucast height), utxo_hash, VarUInt (ucast utxo_index))))
       (\<lambda>(satoshis, inscriptions). sc_enc inscription_utxos_by_script_hash_Value
         (VarUInt (ucast satoshis),
          TimbreVec (map (\<lambda>(offset, reveal_tx_hash, inscription_index).
            (VarUInt (ucast offset), reveal_tx_hash, VarUInt (ucast inscription_index))) inscriptions)))
       action]"

definition ops_inscriptions_by_script_hash ::
  "Namespace \<Rightarrow> bytes \<Rightarrow> inscription_ref \<Rightarrow> (u64 \<times> (bytes \<times> u32) \<times> u32) UtxoAction \<Rightarrow> StorageAction list" where
  "ops_inscriptions_by_script_hash n script_hash inscription_id action =
     [set_or_delete
       (prefix_data n InscriptionsByScriptHash
         (sc_enc inscriptions_by_script_hash_Key (script_hash, inscription_id)))
       (\<lambda>(height, (utxo_hash, utxo_index), offset).
         sc_enc inscriptions_by_script_hash_Value (height, utxo_hash, utxo_index, offset))
       action]"

definition ops_inscriptions_by_utxo ::
  "Namespace \<Rightarrow> bytes \<Rightarrow> u32 \<Rightarrow> (u32 \<times> inscription_ref) list UtxoAction \<Rightarrow> StorageAction list" where
  "ops_inscriptions_by_utxo n utxo_hash utxo_index action =
     [set_or_delete
       (prefix_data n InscriptionsByUtxo (sc_enc inscriptions_by_utxo_Key (utxo_hash, utxo_index)))
       (sc_enc inscriptions_by_utxo_Value) action]"

definition ops_mints_by_rune_id :: "Namespace \<Rightarrow> rune_id \<Rightarrow> StorageAction list" where
  "ops_mints_by_rune_id n rune_id =
     [IncrementU128 (prefix_data n MintsByRuneId (sc_enc mints_by_rune_id_Key rune_id)) 1]"

definition ops_rune_balances_by_script_hash ::
  "Namespace \<Rightarrow> bytes \<Rightarrow> rune_id \<Rightarrow> u128 IncrOrDecr \<Rightarrow> StorageAction list" where
  "ops_rune_balances_by_script_hash n script_hash rune_id delta =
     [incr_or_decr_u128
       (prefix_data n RuneBalancesByScriptHash
         (sc_enc rune_balances_by_script_hash_Key (script_hash, rune_id))) delta]"

definition ops_rune_id_by_rune_name :: "Namespace \<Rightarrow> u128 \<Rightarrow> rune_id \<Rightarrow> StorageAction list" where
  "ops_rune_id_by_rune_name n rune_name rune_id =
     [Set (prefix_data n RuneIdByRuneName (sc_enc rune_id_by_rune_name_Key rune_name))
        (sc_enc rune_id_by_rune_name_Value rune_id)]"

definition index_map_collect :: "('k \<times> 'v) list \<Rightarrow> ('k \<times> 'v) list" where
  "index_map_collect kvs = fold (\<lambda>(k, v). index_map_insert k v) kvs []"

definition ops_runes_by_utxo ::
  "Namespace \<Rightarrow> bytes \<Rightarrow> u32 \<Rightarrow> (rune_id \<times> u128) list UtxoAction \<Rightarrow> StorageAction list" where
  "ops_runes_by_utxo n utxo_hash utxo_index action =
     [set_or_delete
       (prefix_data n RunesByUtxo (sc_enc runes_by_utxo_Key (utxo_hash, utxo_index)))
       (\<lambda>runes. sc_enc runes_by_utxo_Value (index_map_collect runes)) action]"

definition ops_sat_balance_by_script_hash ::
  "Namespace \<Rightarrow> bytes \<Rightarrow> u64 IncrOrDecr \<Rightarrow> StorageAction list" where
  "ops_sat_balance_by_script_hash n script_hash delta =
     (let key = prefix_data n SatBalanceByScriptHash (sc_enc sat_balance_by_script_hash_Key script_hash) in
      case delta of Increment x \<Rightarrow> [IncrementU64 key x] | Decrement x \<Rightarrow> [DecrementU64 key x])"

definition ops_script_by_script_hash :: "Namespace \<Rightarrow> bytes \<Rightarrow> bytes \<Rightarrow> StorageAction list" where
  "ops_script_by_script_hash n script_hash script =
     [Set (prefix_data n ScriptByScriptHash (sc_enc script_by_script_hash_Key script_hash))
        (sc_enc script_by_script_hash_Value script)]"

definition ops_script_hash_by_address_payload_hash ::
  "Namespace \<Rightarrow> bytes \<Rightarrow> bytes \<Rightarrow> StorageAction list" where
  "ops_script_hash_by_address_payload_hash n payload_hash script_hash =
     [Set (prefix_data n ScriptHashByAddressPayloadHash
          (sc_enc script_hash_by_address_payload_hash_Key payload_hash))
        (sc_enc script_hash_by_address_payload_hash_Value script_hash)]"

text \<open>The ticker of this arm is wrapped without the length check of the others.\<close>

definition ops_transfer_inscriptions_by_script_hash ::
  "Namespace \<Rightarrow> bytes \<Rightarrow> bytes \<Rightarrow> inscription_ref \<Rightarrow>
   (u128 \<times> u64 \<times> (bytes \<times> u32) \<times> u32 \<times> u64) UtxoAction \<Rightarrow> StorageAction list" where
  "ops_transfer_inscriptions_by_script_hash n script_hash ticker inscription_id action =
     [set_or_delete
       (prefix_data n TransferInscriptionsByScriptHash
         (sc_enc transfer_inscriptions_by_script_hash_Key
           (script_hash, ShortByteString ticker, inscription_id)))
       (\<lambda>(token_amount, sat_amount, (utxo_hash, utxo_index), offset, block_height).
         sc_enc transfer_inscriptions_by_script_hash_Value
           (token_amount, sat_amount, utxo_hash, utxo_index, offset, block_height))
       action]"

definition ops_txs_by_script_hash ::
  "Namespace \<Rightarrow> bytes \<Rightarrow> u64 \<Rightarrow> bytes \<Rightarrow> u16 \<Rightarrow> bool \<Rightarrow> bool \<Rightarrow> StorageAction list" where
  "ops_txs_by_script_hash n script_hash height tx_hash tx_block_index input output =
     [Set (prefix_data n TxsByScriptHash
          (sc_enc txs_by_script_hash_Key (script_hash, height, tx_block_index, tx_hash)))
        (sc_enc txs_by_script_hash_Value (input, output))]"

definition ops_utxos_by_rune_id ::
  "Namespace \<Rightarrow> rune_id \<Rightarrow> u64 \<Rightarrow> bytes \<Rightarrow> u32 \<Rightarrow> (bytes \<times> u128 \<times> u64) UtxoAction \<Rightarrow> StorageAction list" where
  "ops_utxos_by_rune_id n rune_id height utxo_hash utxo_index action =
     [set_or_delete
       (prefix_data n UtxosByRuneId (sc_enc utxos_by_rune_id_Key (rune_id, height, utxo_hash, utxo_index)))
       (sc_enc utxos_by_rune_id_Value) action]"

definition ops_utxos_by_script_hash ::
  "Namespace \<Rightarrow> bytes \<Rightarrow> u64 \<Rightarrow> bytes \<Rightarrow> u32 \<Rightarrow> u64 UtxoAction \<Rightarrow> StorageAction list" where
  "ops_utxos_by_script_hash n script_hash height utxo_hash utxo_index action =
     [set_or_delete
       (prefix_data n UtxosByScriptHash
         (sc_enc utxos_by_script_hash_Key (script_hash, height, utxo_hash, utxo_index)))
       (sc_enc utxos_by_script_hash_Value) action]"

definition ops_cursor :: "Namespace \<Rightarrow> Point \<Rightarrow> bool \<Rightarrow> u64 \<Rightarrow> StorageAction list" where
  "ops_cursor n point was_mempool timestamp =
     (let value = encode_CursorValue \<lparr>cv_height = pt_height point, cv_hash = pt_hash point,
            cv_was_mempool = was_mempool, cv_timestamp = timestamp, cv_mempool_info = None\<rparr>
      in [Set (prefix_cursor n) value, Set (prefix_info n) value])"

fun reducer_output_to_storage_ops :: "Namespace \<Rightarrow> ReducerOutput \<Rightarrow> StorageAction list option" where
  "reducer_output_to_storage_ops n (Out_BalancesByBrc20 t s d) = ops_balances_by_brc20 n t s d"
| "reducer_output_to_storage_ops n (Out_BalancesByRuneId r s a) = Some (ops_balances_by_rune_id n r s a)"
| "reducer_output_to_storage_ops n (Out_Brc20BalancesByScriptHash s t d a) =
     ops_brc20_balances_by_script_hash n s t d a"
| "reducer_output_to_storage_ops n (Out_Brc20TermsByTicker t m l d s i) =
     ops_brc20_terms_by_ticker n t m l d s i"
| "reducer_output_to_storage_ops n (Out_EtchingByRuneId r h e c) = Some (ops_etching_by_rune_id n r h e c)"
| "reducer_output_to_storage_ops n (Out_InscriptionUtxosByScriptHash s h u i a) =
     Some (ops_inscription_utxos_by_script_hash n s h u i a)"
| "reducer_output_to_storage_ops n (Out_ContentByInscriptionId i c m t b) =
     Some (ops_content_by_inscription_id n i c m t b)"
| "reducer_output_to_storage_ops n (Out_InscriptionsByScriptHash s i a) =
     Some (ops_inscriptions_by_script_hash n s i a)"
| "reducer_output_to_storage_ops n (Out_InscriptionsByUtxo h i a) = Some (ops_inscriptions_by_utxo n h i a)"
| "reducer_output_to_storage_ops n (Out_MintsByRuneId r) = Some (ops_mints_by_rune_id n r)"
| "reducer_output_to_storage_ops n (Out_RuneBalancesByScriptHash s r d) =
     Some (ops_rune_balances_by_script_hash n s r d)"
| "reducer_output_to_storage_ops n (Out_RuneIdByRuneName m r) = Some (ops_rune_id_by_rune_name n m r)"
| "reducer_output_to_storage_ops n (Out_RunesByUtxo h i a) = Some (ops_runes_by_utxo n h i a)"
| "reducer_output_to_storage_ops n (Out_SatBalanceByScriptHash s d) =
     Some (ops_sat_balance_by_script_hash n s d)"
| "reducer_output_to_storage_ops n (Out_ScriptByScriptHash h s) = Some (ops_script_by_script_hash n h s)"
| "reducer_output_to_storage_ops n (Out_ScriptHashByAddressPayloadHash p s) =
     Some (ops_script_hash_by_address_payload_hash n p s)"
| "reducer_output_to_storage_ops n (Out_TransferInscriptionsByScriptHash s t i a) =
     Some (ops_transfer_inscriptions_by_script_hash n s t i a)"
| "reducer_output_to_storage_ops n (Out_TxsByScriptHash s h t b i p) =
     Some (ops_txs_by_script_hash n s h t b i p)"
| "reducer_output_to_storage_ops n (Out_UtxosByRuneId r h u i a) =
     Some (ops_utxos_by_rune_id n r h u i a)"
| "reducer_output_to_storage_ops n (Out_UtxosByScriptHash s h u i a) =
     Some (ops_utxos_by_script_hash n s h u i a)"
| "reducer_output_to_storage_ops n (Out_Cursor p m t) = Some (ops_cursor n p m t)"

text \<open>All outputs of a block, in the order the reducers emitted them.\<close>

fun block_storage_ops :: "Namespace \<Rightarrow> ReducerOutput list \<Rightarrow> StorageAction list option" where
  "block_storage_ops n [] = Some []"
| "block_storage_ops n (x # xs) =
     (case reducer_output_to_storage_ops n x of None \<Rightarrow> None
      | Some ops \<Rightarrow> map_option ((@) ops) (block_storage_ops n xs))"

section \<open>Where the actions write\<close>

lemmas ops_defs = ops_balances_by_brc20_def ops_balances_by_rune_id_def
  ops_brc20_balances_by_script_hash_def ops_brc20_terms_by_ticker_def ops_etching_by_rune_id_def
  ops_content_by_inscription_id_def ops_inscription_utxos_by_script_hash_def
  ops_inscriptions_by_script_hash_def ops_inscriptions_by_utxo_def ops_mints_by_rune_id_def
  ops_rune_balances_by_script_hash_def ops_rune_id_by_rune_name_def ops_runes_by_utxo_def
  ops_sat_balance_by_script_hash_def ops_script_by_script_hash_def
  ops_script_hash_by_address_payload_hash_def ops_transfer_inscriptions_by_script_hash_def
  ops_txs_by_script_hash_def ops_utxos_by_rune_id_def ops_utxos_by_script_hash_def ops_cursor_def

lemma action_key_helpers [simp]:
  "action_key (incr_or_decr_u128 k d) = k"
  "action_key (incr_or_decr_no_delete k d) = k"
  "action_key (set_or_delete k f a) = k"
  by (simp_all add: incr_or_decr_u128_def incr_or_decr_no_delete_def set_or_delete_def
      split: IncrOrDecr.splits UtxoAction.splits)

definition is_data_key :: "Namespace \<Rightarrow> bytes \<Rightarrow> bool" where
  "is_data_key n k \<longleftrightarrow> (\<exists>r d. k = prefix_data n r d)"

lemma is_data_key_I [simp]: "is_data_key n (prefix_data n r d)"
  unfolding is_data_key_def by blast

lemma output_keys:
  assumes "reducer_output_to_storage_ops n out = Some ops" "a \<in> set ops"
  shows "is_data_key n (action_key a) \<or> action_key a = prefix_cursor n \<or> action_key a = prefix_info n"
  using assms
  by (cases "(n, out)" rule: reducer_output_to_storage_ops.cases)
    (auto simp: ops_defs Let_def simp del: key_layout split: sum.splits IncrOrDecr.splits)

lemma block_keys:
  assumes "block_storage_ops n outs = Some ops" "a \<in> set ops"
  shows "is_data_key n (action_key a) \<or> action_key a = prefix_cursor n \<or> action_key a = prefix_info n"
  using assms
proof (induction outs arbitrary: ops)
  case (Cons x xs)
  then obtain o1 o2 where "reducer_output_to_storage_ops n x = Some o1"
    "block_storage_ops n xs = Some o2" "ops = o1 @ o2"
    by (auto split: option.splits)
  with Cons output_keys show ?case by (auto simp del: key_layout)
qed simp

definition is_rollback_key :: "Namespace \<Rightarrow> bytes \<Rightarrow> bool" where
  "is_rollback_key n k \<longleftrightarrow> has_prefix [dataplane_id n, instance_id n, PREFIX_ROLLBACK, BREAK] k"

lemma block_keys_not_rollback:
  assumes "block_storage_ops n outs = Some ops" "a \<in> set ops"
  shows "\<not> is_rollback_key n (action_key a)"
  using block_keys [OF assms]
  by (auto simp: is_rollback_key_def is_data_key_def PREFIX_ROLLBACK_def PREFIX_DATA_def
      PREFIX_CURSOR_def PREFIX_INFO_def BREAK_def)

section \<open>Properties\<close>

text \<open>
  C32. Whatever the reducers emit for a block, the actions derived from it touch only data keys of
  this instance, its cursor and its info key: never the rollback metadata of any instance, so
  a block cannot damage the records needed to undo earlier blocks.
\<close>

theorem block_actions_never_touch_rollback_metadata:
  assumes "block_storage_ops n outs = Some ops" "a \<in> set ops"
  shows "(is_data_key n (action_key a) \<or> action_key a = prefix_cursor n \<or> action_key a = prefix_info n) \<and>
    action_key a \<noteq> prefix_rollback m k"
  using block_keys [OF assms]
  by (auto simp: is_data_key_def PREFIX_ROLLBACK_def PREFIX_DATA_def PREFIX_CURSOR_def PREFIX_INFO_def
      encode_MetadataKey_def encode_int_def BREAK_def dest: arg_cong [where f = length])

definition sample_ns :: Namespace where
  "sample_ns = \<lparr>dataplane_id = 1, instance_id = 2\<rparr>"

theorem block_actions_never_touch_rollback_metadata_witness:
  "prefix_cursor sample_ns \<noteq>
   prefix_rollback sample_ns \<lparr>mk_height = 1, mk_hash = [], mk_operation_idx = 0, mk_modified_key = []\<rparr>"
proof -
  let ?p = "\<lparr>pt_height = 7, pt_hash = replicate 32 1\<rparr> :: Point"
  obtain v where "block_storage_ops sample_ns [Out_Cursor ?p False 0] =
      Some [Set (prefix_cursor sample_ns) v, Set (prefix_info sample_ns) v]"
    by (auto simp: ops_cursor_def Let_def)
  from block_actions_never_touch_rollback_metadata [OF this, of "Set (prefix_cursor sample_ns) v"]
  show ?thesis by simp
qed

end
