(* ===== verification/Tikv_Exec.thy ===== *)
theory Tikv_Exec
  imports Reducer_Outputs "HOL-Library.Multiset"
begin

text \<open>
  How the storage stage of \<open>polyphony-xdg\<close> carries out storage actions inside one database
  transaction (\<open>storage/tikv.rs\<close>: \<open>execute_storage_op_in_txn\<close>, its variant that returns the
  inverse action, \<open>batch_get_required_kvs_for_batch\<close>, \<open>apply_actions\<close>) and how it merges the
  actions of several blocks (\<open>SyncBatcher\<close>).

  The TiKV client is a parameter: a record of its operations on a transaction, with the laws its
  documentation gives (\<open>tikv_laws\<close>): reads see the transaction's own writes, scans return the
  live keys of the range in order. The order in which a Rust \<open>HashMap\<close> lists its values is
  unspecified: it is a parameter too, a permutation.
\<close>

section \<open>The database client\<close>

record 't Tikv =
  tk_get :: "'t \<Rightarrow> bytes \<Rightarrow> bytes option"
  tk_put :: "bytes \<Rightarrow> bytes \<Rightarrow> 't \<Rightarrow> 't"
  tk_delete :: "bytes \<Rightarrow> 't \<Rightarrow> 't"
  tk_batch_get :: "'t \<Rightarrow> bytes list \<Rightarrow> (bytes \<times> bytes) list"
  tk_scan :: "'t \<Rightarrow> key_range \<Rightarrow> nat \<Rightarrow> (bytes \<times> bytes) list"
  tk_scan_keys :: "'t \<Rightarrow> key_range \<Rightarrow> nat \<Rightarrow> bytes list"
  tk_scan_keys_reverse :: "'t \<Rightarrow> key_range \<Rightarrow> nat \<Rightarrow> bytes list"

definition live_keys :: "'t Tikv \<Rightarrow> 't \<Rightarrow> key_range \<Rightarrow> bytes set" where
  "live_keys T t r = {k. in_range r k \<and> tk_get T t k \<noteq> None}"

definition tikv_rw_laws :: "'t Tikv \<Rightarrow> bool" where
  "tikv_rw_laws T \<longleftrightarrow>
     (\<forall>k v t k'. tk_get T (tk_put T k v t) k' = (if k' = k then Some v else tk_get T t k')) \<and>
     (\<forall>k t k'. tk_get T (tk_delete T k t) k' = (if k' = k then None else tk_get T t k')) \<and>
     (\<forall>t ks k. map_of (tk_batch_get T t ks) k = (if k \<in> set ks then tk_get T t k else None))"

definition tikv_scan_laws :: "'t Tikv \<Rightarrow> bool" where
  "tikv_scan_laws T \<longleftrightarrow>
     (\<forall>t. finite {k. tk_get T t k \<noteq> None}) \<and>
     (\<forall>t r n. tk_scan T t r n =
        take n (map (\<lambda>k. (k, the (tk_get T t k))) (sorted_list_of_set (live_keys T t r)))) \<and>
     (\<forall>t r n. tk_scan_keys T t r n = take n (sorted_list_of_set (live_keys T t r))) \<and>
     (\<forall>t r n. tk_scan_keys_reverse T t r n = take n (rev (sorted_list_of_set (live_keys T t r))))"

datatype GasketError = Restart | WorkPanic | RustPanic

type_synonym kv_map = "bytes \<rightharpoonup> bytes"

section \<open>One action\<close>

definition increment_value :: "bytes \<Rightarrow> 'a::len word \<Rightarrow> bytes option" where
  "increment_value prev d =
     (let size = LENGTH('a) div 8 in
      if length prev < size then None else Some (to_be_bytes (from_be_bytes (take size prev) + d)))"

definition decrement_value :: "bytes \<Rightarrow> 'a::len word \<Rightarrow> 'a word option option" where
  "decrement_value prev d =
     (let size = LENGTH('a) div 8 in
      if length prev < size then None else Some (checked_sub (from_be_bytes (take size prev)) d))"

fun execute_storage_op_in_txn ::
  "'t Tikv \<Rightarrow> StorageAction \<Rightarrow> 't \<times> kv_map \<Rightarrow> GasketError + 't \<times> kv_map" where
  "execute_storage_op_in_txn T (Set k v) (t, m) = Inr (tk_put T k v t, m)"
| "execute_storage_op_in_txn T (Delete k) (t, m) = Inr (tk_delete T k t, m)"
| "execute_storage_op_in_txn T (Insert k v) (t, m) =
     (case m k of Some _ \<Rightarrow> Inr (t, m(k := None)) | None \<Rightarrow> Inr (tk_put T k v t, m))"
| "execute_storage_op_in_txn T (IncrementU64 k d) (t, m) =
     (if d = 0 then Inr (t, m)
      else case m k of
        Some prev \<Rightarrow> (case increment_value prev d of None \<Rightarrow> Inl RustPanic
          | Some v \<Rightarrow> Inr (tk_put T k v t, m(k := None)))
      | None \<Rightarrow> Inr (tk_put T k (to_be_bytes d) t, m))"
| "execute_storage_op_in_txn T (DecrementU64 k d) (t, m) =
     (if d = 0 then Inr (t, m)
      else case m k of
        Some prev \<Rightarrow> (case decrement_value prev d of None \<Rightarrow> Inl RustPanic
          | Some None \<Rightarrow> Inr (tk_delete T k t, m(k := None))
          | Some (Some v) \<Rightarrow>
              if v = 0 then Inr (tk_delete T k t, m(k := None))
              else Inr (tk_put T k (to_be_bytes v) t, m(k := None)))
      | None \<Rightarrow> Inr (t, m))"
| "execute_storage_op_in_txn T (IncrementU128 k d) (t, m) =
     (if d = 0 then Inr (t, m)
      else case m k of
        Some prev \<Rightarrow> (case increment_value prev d of None \<Rightarrow> Inl RustPanic
          | Some v \<Rightarrow> Inr (tk_put T k v t, m(k := None)))
      | None \<Rightarrow> Inr (tk_put T k (to_be_bytes d) t, m))"
| "execute_storage_op_in_txn T (DecrementU128 k d) (t, m) =
     (if d = 0 then Inr (t, m)
      else case m k of
        Some prev \<Rightarrow> (case decrement_value prev d of None \<Rightarrow> Inl RustPanic
          | Some None \<Rightarrow> Inr (tk_delete T k t, m(k := None))
          | Some (Some v) \<Rightarrow>
              if v = 0 then Inr (tk_delete T k t, m(k := None))
              else Inr (tk_put T k (to_be_bytes v) t, m(k := None)))
      | None \<Rightarrow> Inr (t, m))"
| "execute_storage_op_in_txn T (DecrementU128NoDelete k d) (t, m) =
     (if d = 0 then Inr (t, m)
      else case m k of
        Some prev \<Rightarrow> (case decrement_value prev d of None \<Rightarrow> Inl RustPanic
          | Some None \<Rightarrow> Inr (tk_put T k (to_be_bytes (0 :: u128)) t, m(k := None))
          | Some (Some v) \<Rightarrow> Inr (tk_put T k (to_be_bytes v) t, m(k := None)))
      | None \<Rightarrow> Inr (t, m))"

text \<open>The variant for the mutable part of the chain; it has no shortcut for a delta of zero.\<close>

fun execute_storage_op_in_txn_with_inverse ::
  "'t Tikv \<Rightarrow> StorageAction \<Rightarrow> 't \<times> kv_map \<Rightarrow> GasketError + ('t \<times> kv_map) \<times> StorageAction option" where
  "execute_storage_op_in_txn_with_inverse T (Set k v) (t, m) =
     (case m k of
        Some prev \<Rightarrow>
          if prev = v then Inr ((t, m(k := None)), None)
          else Inr ((tk_put T k v t, m(k := None)), Some (Set k prev))
      | None \<Rightarrow> Inr ((tk_put T k v t, m), Some (Delete k)))"
| "execute_storage_op_in_txn_with_inverse T (Delete k) (t, m) =
     (case m k of
        Some prev \<Rightarrow> Inr ((tk_delete T k t, m(k := None)), Some (Set k prev))
      | None \<Rightarrow> Inr ((t, m), None))"
| "execute_storage_op_in_txn_with_inverse T (Insert k v) (t, m) =
     (case m k of
        Some _ \<Rightarrow> Inr ((t, m(k := None)), None)
      | None \<Rightarrow> Inr ((tk_put T k v t, m), Some (Delete k)))"
| "execute_storage_op_in_txn_with_inverse T (IncrementU64 k d) (t, m) =
     (case m k of
        Some prev \<Rightarrow> (case increment_value prev d of None \<Rightarrow> Inl RustPanic
          | Some v \<Rightarrow> Inr ((tk_put T k v t, m(k := None)), Some (Set k prev)))
      | None \<Rightarrow> Inr ((tk_put T k (to_be_bytes d) t, m), Some (Delete k)))"
| "execute_storage_op_in_txn_with_inverse T (DecrementU64 k d) (t, m) =
     (case m k of
        Some prev \<Rightarrow> (case decrement_value prev d of None \<Rightarrow> Inl RustPanic
          | Some None \<Rightarrow> Inr ((tk_delete T k t, m(k := None)), Some (Set k prev))
          | Some (Some v) \<Rightarrow>
              Inr ((if v = 0 then tk_delete T k t else tk_put T k (to_be_bytes v) t, m(k := None)),
                   Some (Set k prev)))
      | None \<Rightarrow> Inr ((t, m), None))"
| "execute_storage_op_in_txn_with_inverse T (IncrementU128 k d) (t, m) =
     (case m k of
        Some prev \<Rightarrow> (case increment_value prev d of None \<Rightarrow> Inl RustPanic
          | Some v \<Rightarrow> Inr ((tk_put T k v t, m(k := None)), Some (Set k prev)))
      | None \<Rightarrow> Inr ((tk_put T k (to_be_bytes d) t, m), Some (Delete k)))"
| "execute_storage_op_in_txn_with_inverse T (DecrementU128 k d) (t, m) =
     (case m k of
        Some prev \<Rightarrow> (case decrement_value prev d of None \<Rightarrow> Inl RustPanic
          | Some None \<Rightarrow> Inr ((tk_delete T k t, m(k := None)), Some (Set k prev))
          | Some (Some v) \<Rightarrow>
              Inr ((if v = 0 then tk_delete T k t else tk_put T k (to_be_bytes v) t, m(k := None)),
                   Some (Set k prev)))
      | None \<Rightarrow> Inr ((t, m), None))"
| "execute_storage_op_in_txn_with_inverse T (DecrementU128NoDelete k d) (t, m) =
     (case m k of
        Some prev \<Rightarrow> (case decrement_value prev d of None \<Rightarrow> Inl RustPanic
          | Some None \<Rightarrow> Inr ((tk_put T k (to_be_bytes (0 :: u128)) t, m(k := None)), Some (Set k prev))
          | Some (Some v) \<Rightarrow> Inr ((tk_put T k (to_be_bytes v) t, m(k := None)), Some (Set k prev)))
      | None \<Rightarrow> Inr ((t, m), None))"

section \<open>A list of actions\<close>

fun chunks :: "nat \<Rightarrow> 'a list \<Rightarrow> 'a list list" where
  "chunks n [] = []"
| "chunks n (x # xs) = take n (x # xs) # chunks n (drop (n - 1) xs)"

definition required_keys :: "StorageActions \<Rightarrow> bool \<Rightarrow> bytes list" where
  "required_keys actions need_inverses =
     (if need_inverses then map action_key actions
      else map action_key (filter requires_previous_value actions))"

text \<open>The keys are read in chunks of 1000; each chunk's pairs extend the map.\<close>

definition batch_get_required_kvs_for_batch :: "'t Tikv \<Rightarrow> 't \<Rightarrow> StorageActions \<Rightarrow> bool \<Rightarrow> kv_map" where
  "batch_get_required_kvs_for_batch T t actions need_inverses =
     fold (\<lambda>key_batch acc. acc ++ map_of (tk_batch_get T t key_batch))
       (chunks 1000 (required_keys actions need_inverses)) Map.empty"

fun exec_all :: "'t Tikv \<Rightarrow> StorageActions \<Rightarrow> 't \<times> kv_map \<Rightarrow> GasketError + 't \<times> kv_map" where
  "exec_all T [] s = Inr s"
| "exec_all T (a # as) s = and_then (execute_storage_op_in_txn T a s) (exec_all T as)"

fun exec_all_with_inverse ::
  "'t Tikv \<Rightarrow> StorageActions \<Rightarrow> 't \<times> kv_map \<Rightarrow> GasketError + ('t \<times> kv_map) \<times> StorageActions" where
  "exec_all_with_inverse T [] s = Inr (s, [])"
| "exec_all_with_inverse T (a # as) s =
     and_then (execute_storage_op_in_txn_with_inverse T a s) (\<lambda>(s, inverse).
       and_then (exec_all_with_inverse T as s) (\<lambda>(s, inverses).
         Inr (s, case inverse of None \<Rightarrow> inverses | Some i \<Rightarrow> i # inverses)))"

definition apply_actions ::
  "'t Tikv \<Rightarrow> StorageActions \<Rightarrow> bool \<Rightarrow> 't \<Rightarrow> GasketError + 't \<times> StorageActions option" where
  "apply_actions T actions return_inverses t =
     (let m = batch_get_required_kvs_for_batch T t actions return_inverses in
      if return_inverses then
        and_then (exec_all_with_inverse T actions (t, m)) (\<lambda>((t, _), inverses). Inr (t, Some inverses))
      else and_then (exec_all T actions (t, m)) (\<lambda>(t, _). Inr (t, None)))"

section \<open>The batcher\<close>

record SyncBatcher =
  batch_actions :: "(bytes \<times> StorageAction) list"
  max_len :: nat
  current_len :: nat
  max_bytes :: nat
  estimated_bytes :: nat
  merge_counter :: nat
  merge_counter_incr :: "nat \<times> nat"
  merge_counter_set :: "nat \<times> nat"

definition sb_new :: "nat \<Rightarrow> nat \<Rightarrow> SyncBatcher" where
  "sb_new mlen raft_bytes = \<lparr>batch_actions = [], max_len = mlen, current_len = 0,
     max_bytes = raft_bytes, estimated_bytes = 0, merge_counter = 0,
     merge_counter_incr = (0, 0), merge_counter_set = (0, 0)\<rparr>"

fun is_set_or_delete :: "StorageAction \<Rightarrow> bool" where
  "is_set_or_delete (Set _ _) = True"
| "is_set_or_delete (Delete _) = True"
| "is_set_or_delete _ = False"

text \<open>Merging into the entry of a key that the map holds; \<open>None\<close> when \<open>merge\<close> panics.\<close>

fun merge_entry :: "bytes \<Rightarrow> StorageAction \<Rightarrow> (bytes \<times> StorageAction) list \<Rightarrow>
  (bytes \<times> StorageAction) list option" where
  "merge_entry k a [] = Some []"
| "merge_entry k a ((k', b) # m) =
     (if k' = k then (case merge b a of None \<Rightarrow> None | Some c \<Rightarrow> Some ((k', c) # m))
      else map_option (Cons (k', b)) (merge_entry k a m))"

definition sb_push_action :: "StorageAction \<Rightarrow> SyncBatcher \<Rightarrow> SyncBatcher option" where
  "sb_push_action action b =
     (let bump = (\<lambda>b. if is_set_or_delete action
            then b\<lparr>merge_counter_set := apsnd Suc (merge_counter_set b)\<rparr>
            else b\<lparr>merge_counter_incr := apsnd Suc (merge_counter_incr b)\<rparr>);
          b = bump (b\<lparr>estimated_bytes := estimated_bytes b + action_size action\<rparr>)
      in case map_of (batch_actions b) (action_key action) of
           Some _ \<Rightarrow>
             (case merge_entry (action_key action) action (batch_actions b) of None \<Rightarrow> None
              | Some m \<Rightarrow>
                let b = b\<lparr>batch_actions := m, merge_counter := Suc (merge_counter b)\<rparr> in
                Some (if is_set_or_delete action
                  then b\<lparr>merge_counter_set := apfst Suc (merge_counter_set b)\<rparr>
                  else b\<lparr>merge_counter_incr := apfst Suc (merge_counter_incr b)\<rparr>))
         | None \<Rightarrow> Some (b\<lparr>batch_actions := batch_actions b @ [(action_key action, action)]\<rparr>))"

fun sb_push_all :: "StorageActions \<Rightarrow> SyncBatcher \<Rightarrow> SyncBatcher option" where
  "sb_push_all [] b = Some b"
| "sb_push_all (a # as) b = (case sb_push_action a b of None \<Rightarrow> None | Some b \<Rightarrow> sb_push_all as b)"

definition push_actions :: "StorageActions \<Rightarrow> SyncBatcher \<Rightarrow> SyncBatcher option" where
  "push_actions actions b =
     map_option (\<lambda>b. b\<lparr>current_len := current_len b + 1\<rparr>) (sb_push_all actions b)"

definition wipe :: "SyncBatcher \<Rightarrow> SyncBatcher" where
  "wipe b = b\<lparr>current_len := 0, batch_actions := [], estimated_bytes := 0, merge_counter := 0,
     merge_counter_incr := (0, 0), merge_counter_set := (0, 0)\<rparr>"

definition get_batch_actions :: "(StorageActions \<Rightarrow> StorageActions) \<Rightarrow> SyncBatcher \<Rightarrow> StorageActions" where
  "get_batch_actions order b = order (map snd (batch_actions b))"

definition should_flush :: "SyncBatcher \<Rightarrow> StorageActions \<Rightarrow> bool" where
  "should_flush b next_actions =
     (let next_size = sum_list (map action_size next_actions) in
      if (estimated_bytes b + next_size) * 2 > max_bytes b then True
      else if current_len b \<ge> max_len b then True
      else False)"

definition sb_is_empty :: "SyncBatcher \<Rightarrow> bool" where
  "sb_is_empty b \<longleftrightarrow> batch_actions b = []"

section \<open>What the actions do to the key-value map\<close>

definition decrement_to :: "'a::len word option \<Rightarrow> bytes option" where
  "decrement_to r = (case r of None \<Rightarrow> None | Some v \<Rightarrow> if v = 0 then None else Some (to_be_bytes v))"

definition counter_value ::
  "(bytes \<Rightarrow> 'a::len word \<Rightarrow> bytes option option) \<Rightarrow> bytes option \<Rightarrow> 'a word \<Rightarrow> bytes option \<Rightarrow>
   GasketError + bytes option" where
  "counter_value f absent d old =
     (case old of None \<Rightarrow> Inr absent
      | Some prev \<Rightarrow> (case f prev d of None \<Rightarrow> Inl RustPanic | Some v \<Rightarrow> Inr v))"

text \<open>The new value of the key of an action, given its old value: without shortcut first.\<close>

fun op_value_inv :: "StorageAction \<Rightarrow> bytes option \<Rightarrow> GasketError + bytes option" where
  "op_value_inv (Set _ v) old = Inr (Some v)"
| "op_value_inv (Delete _) old = Inr None"
| "op_value_inv (Insert _ v) old = (case old of None \<Rightarrow> Inr (Some v) | Some w \<Rightarrow> Inr (Some w))"
| "op_value_inv (IncrementU64 _ d) old =
     counter_value (\<lambda>p d. map_option Some (increment_value p d)) (Some (to_be_bytes d)) d old"
| "op_value_inv (DecrementU64 _ d) old =
     counter_value (\<lambda>p d. map_option decrement_to (decrement_value p d)) None d old"
| "op_value_inv (IncrementU128 _ d) old =
     counter_value (\<lambda>p d. map_option Some (increment_value p d)) (Some (to_be_bytes d)) d old"
| "op_value_inv (DecrementU128 _ d) old =
     counter_value (\<lambda>p d. map_option decrement_to (decrement_value p d)) None d old"
| "op_value_inv (DecrementU128NoDelete _ d) old =
     counter_value (\<lambda>p d. map_option (\<lambda>r. Some (to_be_bytes (case r of None \<Rightarrow> 0 | Some v \<Rightarrow> v)))
       (decrement_value p d)) None d old"

definition zero_delta :: "StorageAction \<Rightarrow> bool" where
  "zero_delta a \<longleftrightarrow> action_delta a = Some 0"

definition op_value :: "StorageAction \<Rightarrow> bytes option \<Rightarrow> GasketError + bytes option" where
  "op_value a old = (if zero_delta a then Inr old else op_value_inv a old)"

fun run_vals ::
  "(StorageAction \<Rightarrow> bytes option \<Rightarrow> GasketError + bytes option) \<Rightarrow> StorageActions \<Rightarrow> kv_map \<Rightarrow>
   GasketError + kv_map" where
  "run_vals val [] f = Inr f"
| "run_vals val (a # as) f =
     and_then (val a (f (action_key a))) (\<lambda>v. run_vals val as (f(action_key a := v)))"

text \<open>The contract both ways of executing an action share: it fails only by a panic.\<close>

locale value_semantics =
  fixes val :: "StorageAction \<Rightarrow> bytes option \<Rightarrow> GasketError + bytes option"
  assumes only_panics: "val a old = Inl e \<Longrightarrow> e = RustPanic"
begin

lemma run_error: "run_vals val as f = Inl e \<Longrightarrow> e = RustPanic"
  by (induction as arbitrary: f) (auto simp: and_then_Inl_iff dest: only_panics)

lemma run_swap:
  assumes "action_key a \<noteq> action_key b"
  shows "run_vals val (a # b # as) f = run_vals val (b # a # as) f"
proof (cases "val a (f (action_key a))")
  case (Inl e)
  then show ?thesis using assms by (cases "val b (f (action_key b))") (auto dest!: only_panics)
next
  case (Inr v)
  then show ?thesis using only_panics assms
    by (cases "val b (f (action_key b))") (auto simp: fun_upd_twist)
qed

lemma run_move:
  assumes "action_key a \<notin> action_key ` set us"
  shows "run_vals val (us @ a # vs) f = run_vals val (a # us @ vs) f"
  using assms
proof (induction us arbitrary: f)
  case (Cons u us)
  have "run_vals val ((u # us) @ a # vs) f = run_vals val (u # a # us @ vs) f"
    using Cons by (cases "val u (f (action_key u))") auto
  also have "\<dots> = run_vals val (a # u # us @ vs) f" using Cons.prems by (intro run_swap) auto
  finally show ?case by simp
qed simp

text \<open>Actions on distinct keys commute: the order in which a hash map lists them is irrelevant.\<close>

lemma run_perm:
  assumes "mset as = mset bs" "distinct (map action_key as)"
  shows "run_vals val as f = run_vals val bs f"
  using assms
proof (induction as arbitrary: bs f)
  case (Cons a as)
  then have "a \<in> set bs" by (metis list.set_intros(1) mset_eq_setD)
  then obtain us vs where bs: "bs = us @ a # vs" by (meson split_list)
  from Cons.prems(1) bs have perm: "mset as = mset (us @ vs)" by simp
  then have "set as = set (us @ vs)" by (rule mset_eq_setD)
  then have "action_key a \<notin> action_key ` set us" using Cons.prems(2) by auto
  then have "run_vals val bs f = run_vals val (a # us @ vs) f" by (simp add: bs run_move)
  moreover have "run_vals val as g = run_vals val (us @ vs) g" for g
    using Cons.IH [OF perm] Cons.prems(2) by simp
  ultimately show ?case by simp
qed simp

lemma run_frame:
  "run_vals val as f = Inr g \<Longrightarrow> k \<notin> action_key ` set as \<Longrightarrow> g k = f k"
  by (induction as arbitrary: f) (auto simp: and_then_Inr_iff)

lemma run_append:
  "run_vals val (as @ bs) f = and_then (run_vals val as f) (run_vals val bs)"
proof (induction as arbitrary: f)
  case (Cons a as)
  then show ?case
    by (cases "val a (f (action_key a))") (simp_all only: run_vals.simps append_Cons and_then.simps)
qed simp

end

lemma op_value_inv_error: "op_value_inv a old = Inl e \<Longrightarrow> e = RustPanic"
  by (cases a) (auto simp: counter_value_def split: option.splits)

interpretation inv_sem: value_semantics op_value_inv
  by unfold_locales (rule op_value_inv_error)

interpretation plain_sem: value_semantics op_value
  by unfold_locales (auto simp: op_value_def split: if_splits dest: op_value_inv_error)

section \<open>Execution in a transaction refines the map semantics\<close>

lemma tk_get_put: "tikv_rw_laws T \<Longrightarrow> tk_get T (tk_put T k v t) = (tk_get T t)(k \<mapsto> v)"
  by (auto simp: tikv_rw_laws_def)

lemma tk_get_delete: "tikv_rw_laws T \<Longrightarrow> tk_get T (tk_delete T k t) = (tk_get T t)(k := None)"
  by (auto simp: tikv_rw_laws_def)

lemma zero_delta_simps [simp]:
  "\<not> zero_delta (Set k v)" "\<not> zero_delta (Delete k)" "\<not> zero_delta (Insert k v)"
  "zero_delta (IncrementU64 k d) \<longleftrightarrow> d = 0" "zero_delta (DecrementU64 k d) \<longleftrightarrow> d = 0"
  "zero_delta (IncrementU128 k e) \<longleftrightarrow> e = 0" "zero_delta (DecrementU128 k e) \<longleftrightarrow> e = 0"
  "zero_delta (DecrementU128NoDelete k e) \<longleftrightarrow> e = 0"
  by (simp_all add: zero_delta_def uint_0_iff)

definition fresh_map :: "(bytes \<rightharpoonup> bytes) \<Rightarrow> kv_map \<Rightarrow> StorageAction \<Rightarrow> bool" where
  "fresh_map f m a \<longleftrightarrow> (requires_previous_value a \<longrightarrow> m (action_key a) = f (action_key a))"

lemma execute_op_refines:
  assumes "tikv_rw_laws T" "fresh_map (tk_get T t) m a"
  shows "case execute_storage_op_in_txn T a (t, m) of
      Inl e \<Rightarrow> op_value a (tk_get T t (action_key a)) = Inl e
    | Inr (t', m') \<Rightarrow> (\<exists>v. op_value a (tk_get T t (action_key a)) = Inr v \<and>
        tk_get T t' = (tk_get T t)(action_key a := v)) \<and> (\<forall>k. k \<noteq> action_key a \<longrightarrow> m' k = m k)"
  using assms(2)
  by (cases a)
    (auto simp: fresh_map_def op_value_def counter_value_def decrement_to_def
      tk_get_put [OF assms(1)] tk_get_delete [OF assms(1)] fun_upd_idem_iff
      split: option.splits sum.splits if_splits)

lemma execute_op_with_inverse_refines:
  assumes "tikv_rw_laws T" "m (action_key a) = tk_get T t (action_key a)"
  shows "case execute_storage_op_in_txn_with_inverse T a (t, m) of
      Inl e \<Rightarrow> op_value_inv a (tk_get T t (action_key a)) = Inl e
    | Inr ((t', m'), i) \<Rightarrow> (\<exists>v. op_value_inv a (tk_get T t (action_key a)) = Inr v \<and>
        tk_get T t' = (tk_get T t)(action_key a := v) \<and>
        (case i of
           None \<Rightarrow> v = tk_get T t (action_key a)
         | Some b \<Rightarrow> b = (case tk_get T t (action_key a) of
               None \<Rightarrow> Delete (action_key a) | Some p \<Rightarrow> Set (action_key a) p))) \<and>
        (\<forall>k. k \<noteq> action_key a \<longrightarrow> m' k = m k)"
  using assms(2)
  by (cases a)
    (auto simp: counter_value_def decrement_to_def
      tk_get_put [OF assms(1)] tk_get_delete [OF assms(1)] fun_upd_idem_iff
      split: option.splits sum.splits if_splits)

text \<open>
  A batch whose reads all concern keys written once only, so that the values read before it are
  still those the actions find.
\<close>

definition stable_batch :: "StorageActions \<Rightarrow> bool" where
  "stable_batch as \<longleftrightarrow> distinct (map action_key as) \<or> (\<forall>a\<in>set as. \<not> requires_previous_value a)"

lemma exec_all_refines:
  assumes T: "tikv_rw_laws T"
  shows "stable_batch as \<Longrightarrow> \<forall>a\<in>set as. fresh_map (tk_get T t) m a \<Longrightarrow>
    (case exec_all T as (t, m) of
       Inl e \<Rightarrow> run_vals op_value as (tk_get T t) = Inl e
     | Inr (t', m') \<Rightarrow> run_vals op_value as (tk_get T t) = Inr (tk_get T t'))"
proof (induction as arbitrary: t m)
  case (Cons a as)
  note step = execute_op_refines [OF T, of t m a]
  show ?case
  proof (cases "execute_storage_op_in_txn T a (t, m)")
    case (Inl e)
    then show ?thesis using step Cons.prems by simp
  next
    case (Inr s')
    obtain t' m' where s': "s' = (t', m')" by (cases s')
    then obtain v where v: "op_value a (tk_get T t (action_key a)) = Inr v"
      and t': "tk_get T t' = (tk_get T t)(action_key a := v)"
      and m': "\<forall>k. k \<noteq> action_key a \<longrightarrow> m' k = m k"
      using step Cons.prems Inr by auto
    have "stable_batch as" using Cons.prems(1) by (auto simp: stable_batch_def)
    moreover have "\<forall>b\<in>set as. fresh_map (tk_get T t') m' b"
      using Cons.prems m' by (auto simp: stable_batch_def fresh_map_def t' image_iff)
    ultimately have "case exec_all T as (t', m') of
        Inl e \<Rightarrow> run_vals op_value as (tk_get T t') = Inl e
      | Inr (t'', m'') \<Rightarrow> run_vals op_value as (tk_get T t') = Inr (tk_get T t'')"
      by (rule Cons.IH)
    moreover have "run_vals op_value (a # as) (tk_get T t) = run_vals op_value as (tk_get T t')"
      by (simp add: v flip: t')
    ultimately show ?thesis using Inr s' by (auto simp del: run_vals.simps split: sum.splits)
  qed
qed simp

text \<open>Executing with inverses: the actions that undo a batch, in the order it was applied.\<close>

fun undo_actions :: "StorageActions \<Rightarrow> kv_map \<Rightarrow> StorageActions \<Rightarrow> bool" where
  "undo_actions [] f invs \<longleftrightarrow> invs = []"
| "undo_actions (a # as) f invs \<longleftrightarrow>
     (\<exists>v. op_value_inv a (f (action_key a)) = Inr v \<and>
       ((v = f (action_key a) \<and> undo_actions as (f(action_key a := v)) invs) \<or>
        (\<exists>rest. invs = (case f (action_key a) of
            None \<Rightarrow> Delete (action_key a) | Some p \<Rightarrow> Set (action_key a) p) # rest \<and>
          undo_actions as (f(action_key a := v)) rest)))"

lemma undo_actions_step:
  assumes "op_value_inv a (f (action_key a)) = Inr v" "undo_actions as (f(action_key a := v)) rest"
    "case i of None \<Rightarrow> v = f (action_key a)
     | Some b \<Rightarrow> b = (case f (action_key a) of
         None \<Rightarrow> Delete (action_key a) | Some p \<Rightarrow> Set (action_key a) p)"
  shows "undo_actions (a # as) f (case i of None \<Rightarrow> rest | Some b \<Rightarrow> b # rest)"
  using assms by (cases i) simp_all

lemma exec_all_with_inverse_refines:
  assumes T: "tikv_rw_laws T"
  shows "distinct (map action_key as) \<Longrightarrow> \<forall>a\<in>set as. m (action_key a) = tk_get T t (action_key a) \<Longrightarrow>
    (case exec_all_with_inverse T as (t, m) of
       Inl e \<Rightarrow> run_vals op_value_inv as (tk_get T t) = Inl e
     | Inr ((t', m'), invs) \<Rightarrow> run_vals op_value_inv as (tk_get T t) = Inr (tk_get T t') \<and>
         undo_actions as (tk_get T t) invs)"
proof (induction as arbitrary: t m)
  case (Cons a as)
  note step = execute_op_with_inverse_refines [OF T, of m a t]
  show ?case
  proof (cases "execute_storage_op_in_txn_with_inverse T a (t, m)")
    case (Inl e)
    then show ?thesis using step Cons.prems by simp
  next
    case (Inr s')
    obtain t' m' i where s': "s' = ((t', m'), i)" by (metis surj_pair)
    then obtain v where v: "op_value_inv a (tk_get T t (action_key a)) = Inr v"
      and t': "tk_get T t' = (tk_get T t)(action_key a := v)"
      and i: "case i of None \<Rightarrow> v = tk_get T t (action_key a)
         | Some b \<Rightarrow> b = (case tk_get T t (action_key a) of
               None \<Rightarrow> Delete (action_key a) | Some p \<Rightarrow> Set (action_key a) p)"
      and m': "\<forall>k. k \<noteq> action_key a \<longrightarrow> m' k = m k"
      using step Cons.prems Inr by auto
    have "\<forall>b\<in>set as. m' (action_key b) = tk_get T t' (action_key b)"
      using Cons.prems m' by (auto simp: t' image_iff)
    with Cons.IH [of m' t'] Cons.prems(1) have ih: "case exec_all_with_inverse T as (t', m') of
        Inl e \<Rightarrow> run_vals op_value_inv as (tk_get T t') = Inl e
      | Inr ((t'', m''), invs) \<Rightarrow> run_vals op_value_inv as (tk_get T t') = Inr (tk_get T t'') \<and>
          undo_actions as (tk_get T t') invs" by simp
    have run: "run_vals op_value_inv (a # as) (tk_get T t) = run_vals op_value_inv as (tk_get T t')"
      by (simp add: v flip: t')
    show ?thesis
    proof (cases "exec_all_with_inverse T as (t', m')")
      case (Inl e)
      then show ?thesis using ih Inr s' run by (simp del: run_vals.simps)
    next
      case r: (Inr r)
      obtain t'' m'' invs where "r = ((t'', m''), invs)" by (metis surj_pair)
      then show ?thesis
        using ih Inr r s' run undo_actions_step [where f = "tk_get T t" and rest = invs, OF v _ i]
        by (simp add: t' del: undo_actions.simps run_vals.simps)
    qed
  qed
qed simp

lemma undo_actions_restore:
  assumes "run_vals op_value_inv as f = Inr g" "undo_actions as f invs"
  shows "run_vals op_value (rev invs) g = Inr f"
  using assms
proof (induction as arbitrary: f invs)
  case (Cons a as)
  then obtain v where v: "op_value_inv a (f (action_key a)) = Inr v"
    and run: "run_vals op_value_inv as (f(action_key a := v)) = Inr g"
    by (auto simp: and_then_Inr_iff)
  let ?u = "case f (action_key a) of None \<Rightarrow> Delete (action_key a) | Some p \<Rightarrow> Set (action_key a) p"
  from Cons.prems(2) v consider
      "v = f (action_key a)" "undo_actions as (f(action_key a := v)) invs"
    | rest where "invs = ?u # rest" "undo_actions as (f(action_key a := v)) rest" by auto
  then show ?case
  proof cases
    case 1
    then show ?thesis using Cons.IH [OF run, of invs] by (simp add: fun_upd_idem)
  next
    case 2
    have "run_vals op_value (rev rest @ [?u]) g = Inr f"
      unfolding plain_sem.run_append Cons.IH [OF run 2(2)]
      by (auto simp: op_value_def split: option.splits)
    then show ?thesis using 2 by simp
  qed
qed simp

lemma undo_actions_kind:
  "undo_actions as f invs \<Longrightarrow> u \<in> set invs \<Longrightarrow>
   \<not> requires_previous_value u \<and> action_key u \<in> action_key ` set as"
proof (induction as arbitrary: f invs)
  case (Cons a as)
  then show ?case by (fastforce split: option.splits)
qed simp

section \<open>Batched reads\<close>

lemma concat_chunks: "0 < n \<Longrightarrow> concat (chunks n xs) = xs"
  by (induction n xs rule: chunks.induct) (auto simp: gr0_conv_Suc)

lemma fold_batches:
  assumes "tikv_rw_laws T"
  shows "fold (\<lambda>ks acc. acc ++ map_of (tk_batch_get T t ks)) kss m k =
    (if k \<in> set (concat kss) then (case tk_get T t k of None \<Rightarrow> m k | Some v \<Rightarrow> Some v) else m k)"
  using assms
  by (induction kss arbitrary: m) (auto simp: tikv_rw_laws_def map_add_def split: option.splits)

lemma batch_get_view:
  assumes "tikv_rw_laws T"
  shows "batch_get_required_kvs_for_batch T t as need k =
    (if k \<in> set (required_keys as need) then tk_get T t k else None)"
  by (simp add: batch_get_required_kvs_for_batch_def fold_batches [OF assms] concat_chunks
      split: option.splits del: set_concat)

lemma apply_actions_plain:
  assumes "tikv_rw_laws T" "stable_batch as"
  shows "case apply_actions T as False t of
      Inl e \<Rightarrow> run_vals op_value as (tk_get T t) = Inl e
    | Inr (t', r) \<Rightarrow> run_vals op_value as (tk_get T t) = Inr (tk_get T t') \<and> r = None"
proof -
  let ?m = "batch_get_required_kvs_for_batch T t as False"
  have "\<forall>a\<in>set as. fresh_map (tk_get T t) ?m a"
    by (auto simp: fresh_map_def batch_get_view [OF assms(1)] required_keys_def)
  from exec_all_refines [OF assms this] show ?thesis
    by (auto simp: apply_actions_def split: sum.splits)
qed

lemma apply_actions_inverse:
  assumes "tikv_rw_laws T" "distinct (map action_key as)"
  shows "case apply_actions T as True t of
      Inl e \<Rightarrow> run_vals op_value_inv as (tk_get T t) = Inl e
    | Inr (t', r) \<Rightarrow> run_vals op_value_inv as (tk_get T t) = Inr (tk_get T t') \<and>
        (\<exists>invs. r = Some invs \<and> undo_actions as (tk_get T t) invs)"
proof -
  let ?m = "batch_get_required_kvs_for_batch T t as True"
  have "\<forall>a\<in>set as. ?m (action_key a) = tk_get T t (action_key a)"
    by (auto simp: batch_get_view [OF assms(1)] required_keys_def)
  from exec_all_with_inverse_refines [OF assms this] show ?thesis
    by (auto simp: apply_actions_def split: sum.splits)
qed

text \<open>The inverse of an action depends on the value its key had, and on nothing else.\<close>

fun inverse_of :: "StorageAction \<Rightarrow> bytes option \<Rightarrow> StorageAction option" where
  "inverse_of (Set k v) old =
     (case old of None \<Rightarrow> Some (Delete k) | Some p \<Rightarrow> if p = v then None else Some (Set k p))"
| "inverse_of (Insert k v) old = (case old of None \<Rightarrow> Some (Delete k) | Some _ \<Rightarrow> None)"
| "inverse_of (IncrementU64 k d) old = Some (case old of None \<Rightarrow> Delete k | Some p \<Rightarrow> Set k p)"
| "inverse_of (IncrementU128 k d) old = Some (case old of None \<Rightarrow> Delete k | Some p \<Rightarrow> Set k p)"
| "inverse_of a old = map_option (Set (action_key a)) old"

lemma execute_op_inverse_of:
  "execute_storage_op_in_txn_with_inverse T a (t, m) = Inr ((t', m'), i) \<Longrightarrow>
   i = inverse_of a (m (action_key a)) \<and> (\<forall>k. k \<noteq> action_key a \<longrightarrow> m' k = m k)"
  by (cases a) (auto split: option.splits if_splits)

lemma map_filter_agree:
  "(\<And>x. x \<in> set xs \<Longrightarrow> f x = g x) \<Longrightarrow> List.map_filter f xs = List.map_filter g xs"
  by (induction xs) (auto simp: List.map_filter_simps split: option.splits)

lemma exec_all_inverses_of:
  "exec_all_with_inverse T as (t, m) = Inr (s, invs) \<Longrightarrow> distinct (map action_key as) \<Longrightarrow>
   invs = List.map_filter (\<lambda>a. inverse_of a (m (action_key a))) as"
proof (induction as arbitrary: t m invs)
  case (Cons a as)
  obtain t1 m1 i rest where step: "execute_storage_op_in_txn_with_inverse T a (t, m) = Inr ((t1, m1), i)"
    and run: "exec_all_with_inverse T as (t1, m1) = Inr (s, rest)"
    and invs: "invs = (case i of None \<Rightarrow> rest | Some i \<Rightarrow> i # rest)"
    using Cons.prems(1) by (auto simp: and_then_Inr_iff)
  have "rest = List.map_filter (\<lambda>a. inverse_of a (m1 (action_key a))) as"
    using Cons.IH [OF run] Cons.prems(2) by simp
  also have "\<dots> = List.map_filter (\<lambda>a. inverse_of a (m (action_key a))) as"
    using execute_op_inverse_of [OF step] Cons.prems(2)
    by (intro map_filter_agree) (auto simp: image_iff)
  finally show ?case
    using execute_op_inverse_of [OF step] by (simp add: invs List.map_filter_simps split: option.splits)
qed (simp add: List.map_filter_simps)

lemma mset_map_filter: "mset as = mset bs \<Longrightarrow> mset (List.map_filter f as) = mset (List.map_filter f bs)"
  by (simp add: List.map_filter_def mset_filter)

lemma distinct_perm: "mset as = mset bs \<Longrightarrow> distinct (map f as) \<Longrightarrow> distinct (map f bs)"
  by (metis mset_eq_imp_distinct_iff mset_map)

text \<open>The order of a batch on distinct keys changes neither the contents nor the set of inverses.\<close>

lemma apply_plain_perm:
  assumes "tikv_rw_laws T" "mset as = mset bs" "distinct (map action_key as)"
  shows "map_sum id (\<lambda>(t, r). (tk_get T t, r)) (apply_actions T as False t) =
    map_sum id (\<lambda>(t, r). (tk_get T t, r)) (apply_actions T bs False t)"
proof -
  have "stable_batch as" "stable_batch bs"
    using assms(3) distinct_perm [OF assms(2,3)] by (simp_all add: stable_batch_def)
  from apply_actions_plain [OF assms(1) this(1), of t] apply_actions_plain [OF assms(1) this(2), of t]
    plain_sem.run_perm [OF assms(2,3), of "tk_get T t"]
  show ?thesis by (auto split: sum.splits)
qed

lemma apply_inverse_perm:
  assumes "tikv_rw_laws T" "mset as = mset bs" "distinct (map action_key as)"
  shows "map_sum id (\<lambda>(t, r). (tk_get T t, map_option mset r)) (apply_actions T as True t) =
    map_sum id (\<lambda>(t, r). (tk_get T t, map_option mset r)) (apply_actions T bs True t)"
proof -
  have d: "distinct (map action_key bs)" by (rule distinct_perm [OF assms(2,3)])
  have get: "batch_get_required_kvs_for_batch T t cs True (action_key a) = tk_get T t (action_key a)"
    if "a \<in> set cs" for cs a
    using that by (simp add: batch_get_view [OF assms(1)] required_keys_def)
  have invs: "invs = List.map_filter (\<lambda>a. inverse_of a (tk_get T t (action_key a))) cs"
    if run: "apply_actions T cs True t = Inr (t', Some invs)" and dc: "distinct (map action_key cs)" for cs t' invs
  proof -
    have "invs = List.map_filter
        (\<lambda>a. inverse_of a (batch_get_required_kvs_for_batch T t cs True (action_key a))) cs"
      using run by (auto simp: apply_actions_def and_then_Inr_iff intro: exec_all_inverses_of [OF _ dc])
    also have "\<dots> = List.map_filter (\<lambda>a. inverse_of a (tk_get T t (action_key a))) cs"
      by (rule map_filter_agree) (simp only: get)
    finally show ?thesis .
  qed
  from apply_actions_inverse [OF assms(1,3), of t] apply_actions_inverse [OF assms(1) d, of t]
    inv_sem.run_perm [OF assms(2,3), of "tk_get T t"]
  show ?thesis
    by (auto split: sum.splits dest!: invs [OF _ assms(3)] invs [OF _ d] intro: mset_map_filter [OF assms(2)])
qed

section \<open>The batcher folds all actions on a key into one\<close>

definition key_actions :: "bytes \<Rightarrow> StorageActions \<Rightarrow> StorageActions" where
  "key_actions k as = filter (\<lambda>a. action_key a = k) as"

definition merged_action :: "bytes \<Rightarrow> StorageActions \<Rightarrow> StorageAction option option" where
  "merged_action k as =
     (case key_actions k as of [] \<Rightarrow> Some None | a # rest \<Rightarrow> map_option Some (merge_all a rest))"

definition batch_inv :: "SyncBatcher \<Rightarrow> StorageActions \<Rightarrow> bool" where
  "batch_inv b as \<longleftrightarrow>
     distinct (map fst (batch_actions b)) \<and>
     (\<forall>(k, a)\<in>set (batch_actions b). action_key a = k) \<and>
     (\<forall>k. merged_action k as = Some (map_of (batch_actions b) k))"

lemma merge_all_snoc:
  "merge_all a (bs @ [c]) = (case merge_all a bs of None \<Rightarrow> None | Some m \<Rightarrow> merge m c)"
  by (induction a bs rule: merge_all.induct) (auto split: option.splits)

lemma merge_entry_map_of:
  assumes "merge_entry k a m = Some m'" "map_of m k = Some b"
  shows "map fst m' = map fst m \<and> map_of m' = (map_of m)(k := merge b a) \<and> merge b a \<noteq> None"
  using assms
proof (induction m arbitrary: m')
  case (Cons e m)
  then show ?case by (cases e) (auto split: if_splits option.splits simp: fun_eq_iff)
qed simp

lemma merge_entry_keys:
  assumes "merge_entry k a m = Some m'" "\<forall>(k, a)\<in>set m. action_key a = k"
  shows "\<forall>(k, a)\<in>set m'. action_key a = k"
  using assms
proof (induction m arbitrary: m')
  case (Cons e m)
  then show ?case by (cases e) (auto split: if_splits option.splits dest: merge_key)
qed simp

lemma sb_push_action_batch:
  assumes "sb_push_action a b = Some b'"
  shows "batch_actions b' = (case map_of (batch_actions b) (action_key a) of
      None \<Rightarrow> batch_actions b @ [(action_key a, a)]
    | Some _ \<Rightarrow> the (merge_entry (action_key a) a (batch_actions b)))"
    "map_of (batch_actions b) (action_key a) \<noteq> None \<Longrightarrow>
      merge_entry (action_key a) a (batch_actions b) = Some (batch_actions b')"
  using assms by (auto simp: sb_push_action_def Let_def split: option.splits if_splits)

lemma merged_action_snoc:
  "merged_action k (as @ [a]) =
     (if action_key a = k then
        (case merged_action k as of None \<Rightarrow> None | Some None \<Rightarrow> Some (Some a)
         | Some (Some m) \<Rightarrow> map_option Some (merge m a))
      else merged_action k as)"
  by (auto simp: merged_action_def key_actions_def merge_all_snoc split: list.splits option.splits)

lemma batch_inv_push:
  assumes "batch_inv b as" "sb_push_action a b = Some b'"
  shows "batch_inv b' (as @ [a])"
proof -
  have old: "merged_action k as = Some (map_of (batch_actions b) k)" for k
    using assms(1) by (simp add: batch_inv_def)
  show ?thesis
  proof (cases "map_of (batch_actions b) (action_key a)")
    case None
    then have b': "batch_actions b' = batch_actions b @ [(action_key a, a)]"
      using sb_push_action_batch(1) [OF assms(2)] by simp
    have "map_of (batch_actions b') = (map_of (batch_actions b))(action_key a \<mapsto> a)"
      using None by (auto simp: b' fun_eq_iff map_add_def split: option.splits)
    then have "merged_action k (as @ [a]) = Some (map_of (batch_actions b') k)" for k
      using None by (auto simp: merged_action_snoc old)
    with None assms(1) show ?thesis by (auto simp: batch_inv_def b' map_of_eq_None_iff)
  next
    case (Some c)
    then have m: "merge_entry (action_key a) a (batch_actions b) = Some (batch_actions b')"
      using sb_push_action_batch(2) [OF assms(2)] by simp
    note mo = merge_entry_map_of [OF m Some]
    then have "merged_action k (as @ [a]) = Some (map_of (batch_actions b') k)" for k
      using Some by (auto simp: merged_action_snoc old)
    then show ?thesis using assms(1) mo merge_entry_keys [OF m] by (simp add: batch_inv_def)
  qed
qed

lemma batch_inv_push_all:
  "batch_inv b as \<Longrightarrow> sb_push_all bs b = Some b' \<Longrightarrow> batch_inv b' (as @ bs)"
proof (induction bs arbitrary: b as)
  case (Cons x bs)
  then obtain b1 where "sb_push_action x b = Some b1" "sb_push_all bs b1 = Some b'"
    by (auto split: option.splits)
  then show ?case using Cons.IH [OF batch_inv_push [OF Cons.prems(1)]] by simp
qed simp

lemma batch_inv_new: "batch_inv (sb_new l m) []"
  by (simp add: batch_inv_def sb_new_def key_actions_def merged_action_def)

lemma batch_inv_current_len: "batch_inv (b\<lparr>current_len := n\<rparr>) as \<longleftrightarrow> batch_inv b as"
  by (simp add: batch_inv_def)

lemma batch_inv_push_actions:
  "batch_inv b as \<Longrightarrow> push_actions bs b = Some b' \<Longrightarrow> batch_inv b' (as @ bs)"
  by (auto simp: push_actions_def batch_inv_current_len dest: batch_inv_push_all)

lemma batch_inv_wipe: "batch_inv (wipe b) []"
  by (simp add: batch_inv_def wipe_def key_actions_def merged_action_def)

text \<open>Several calls of \<open>push_actions\<close>, one for each block, and what the counters then say.\<close>

fun push_blocks :: "StorageActions list \<Rightarrow> SyncBatcher \<Rightarrow> SyncBatcher option" where
  "push_blocks [] b = Some b"
| "push_blocks (actions # blocks) b =
     (case push_actions actions b of None \<Rightarrow> None | Some b \<Rightarrow> push_blocks blocks b)"

definition batch_counts :: "SyncBatcher \<Rightarrow> nat \<Rightarrow> nat \<Rightarrow> bool" where
  "batch_counts b calls bytes \<longleftrightarrow> current_len b = calls \<and> estimated_bytes b = bytes"

lemma sb_push_counts:
  assumes "sb_push_action a b = Some b'" "batch_counts b c n"
  shows "batch_counts b' c (n + action_size a)"
  using assms by (auto simp: sb_push_action_def batch_counts_def Let_def split: option.splits if_splits)

lemma sb_push_all_counts:
  "sb_push_all as b = Some b' \<Longrightarrow> batch_counts b c n \<Longrightarrow> batch_counts b' c (n + sum_list (map action_size as))"
proof (induction as arbitrary: b n)
  case (Cons a as)
  then obtain b1 where "sb_push_action a b = Some b1" "sb_push_all as b1 = Some b'"
    by (auto split: option.splits)
  then show ?case using Cons.IH [OF _ sb_push_counts [OF _ Cons.prems(2)]] by (auto simp: add.assoc)
qed simp

lemma push_actions_counts:
  "push_actions as b = Some b' \<Longrightarrow> batch_counts b c n \<Longrightarrow>
   batch_counts b' (Suc c) (n + sum_list (map action_size as))"
  by (auto simp: push_actions_def batch_counts_def dest: sb_push_all_counts [of as b _ c n, unfolded batch_counts_def])

lemma push_blocks_inv:
  "batch_inv b as \<Longrightarrow> batch_counts b c n \<Longrightarrow> push_blocks blocks b = Some b' \<Longrightarrow>
   batch_inv b' (as @ concat blocks) \<and>
   batch_counts b' (c + length blocks) (n + sum_list (map action_size (concat blocks)))"
proof (induction blocks arbitrary: b as c n)
  case (Cons x blocks)
  then obtain b1 where b1: "push_actions x b = Some b1" "push_blocks blocks b1 = Some b'"
    by (auto split: option.splits)
  from Cons.IH [OF batch_inv_push_actions [OF Cons.prems(1) b1(1)] push_actions_counts [OF b1(1) Cons.prems(2)] b1(2)]
  show ?case by (simp add: add.assoc)
qed simp

lemma batch_keys_distinct:
  assumes "batch_inv b as"
  shows "distinct (map action_key (map snd (batch_actions b)))"
proof -
  have "map action_key (map snd (batch_actions b)) = map fst (batch_actions b)"
    using assms by (auto simp: batch_inv_def)
  then show ?thesis using assms unfolding batch_inv_def by metis
qed

section \<open>Counters\<close>

text \<open>How a counter of a given width is stored: zero is the absent key.\<close>

definition stored :: "'a::len word \<Rightarrow> bytes option" where
  "stored w = (if w = 0 then None else Some (to_be_bytes w))"

lemma increment_stored:
  assumes "8 dvd LENGTH('a)" "d \<noteq> 0" "uint n + uint d < 2 ^ LENGTH('a)"
  shows "counter_value (\<lambda>p d. map_option Some (increment_value p d)) (Some (to_be_bytes d)) d (stored n)
    = Inr (stored (n + d :: 'a::len word))"
proof -
  have "uint (n + d) = uint n + uint d" using assms(3) by (rule uint_plus_small)
  moreover have "0 < uint d" using assms(2) by (simp add: uint_0_iff order.strict_iff_order)
  ultimately have "n + d \<noteq> 0" using uint_ge_0 [of n] by (metis add_nonneg_pos less_irrefl unsigned_0)
  then show ?thesis using assms(1,2)
    by (simp add: stored_def counter_value_def increment_value_def Let_def)
qed

lemma decrement_stored:
  assumes "8 dvd LENGTH('a)" "d \<le> n" "d \<noteq> 0"
  shows "counter_value (\<lambda>p d. map_option decrement_to (decrement_value p d)) None d (stored n)
    = Inr (stored (n - d :: 'a::len word))"
  using assms
  by (auto simp: stored_def counter_value_def decrement_value_def decrement_to_def checked_sub_def Let_def
      split: option.splits)

section \<open>A reference store\<close>

text \<open>An association list with the client's operations: it has the laws assumed of the client.\<close>

definition ref_keys :: "(bytes \<times> bytes) list \<Rightarrow> key_range \<Rightarrow> bytes list" where
  "ref_keys t r = sorted_list_of_set (set (filter (in_range r) (map fst t)))"

definition ref_store :: "(bytes \<times> bytes) list Tikv" where
  "ref_store = \<lparr>tk_get = map_of,
     tk_put = (\<lambda>k v t. (k, v) # filter (\<lambda>e. fst e \<noteq> k) t),
     tk_delete = (\<lambda>k t. filter (\<lambda>e. fst e \<noteq> k) t),
     tk_batch_get = (\<lambda>t ks. filter (\<lambda>e. fst e \<in> set ks) t),
     tk_scan = (\<lambda>t r n. take n (map (\<lambda>k. (k, the (map_of t k))) (ref_keys t r))),
     tk_scan_keys = (\<lambda>t r n. take n (ref_keys t r)),
     tk_scan_keys_reverse = (\<lambda>t r n. take n (rev (ref_keys t r)))\<rparr>"

lemma map_of_filter_key: "map_of (filter (\<lambda>e. P (fst e)) t) k = (if P k then map_of t k else None)"
  by (induction t) auto

lemma ref_store_rw: "tikv_rw_laws ref_store"
  by (auto simp: tikv_rw_laws_def ref_store_def
      map_of_filter_key [where P = "\<lambda>x. x \<noteq> k" for k] map_of_filter_key [where P = "\<lambda>x. x \<in> A" for A])

lemma ref_store_scan: "tikv_scan_laws ref_store"
proof -
  have get: "tk_get ref_store = map_of" by (simp add: ref_store_def)
  have "live_keys ref_store t r = set (filter (in_range r) (map fst t))" for r t
    unfolding live_keys_def get by (auto simp: map_of_eq_None_iff)
  moreover have "finite {k. map_of t k \<noteq> None}" for t :: "(bytes \<times> bytes) list"
    using finite_dom_map_of [of t] by (simp add: dom_def)
  ultimately show ?thesis
    unfolding tikv_scan_laws_def get by (simp add: ref_keys_def ref_store_def del: set_filter)
qed

section \<open>Properties\<close>

text \<open>
  C7. Undoing a block restores the database: applying, in reverse order, the inverse actions
  returned for a batch on distinct keys succeeds and leaves every key as it was before the batch.
\<close>

theorem inverse_actions_restore:
  assumes "tikv_rw_laws T" "distinct (map action_key as)"
    "apply_actions T as True t = Inr (t', Some invs)"
  shows "\<exists>t''. apply_actions T (rev invs) False t' = Inr (t'', None) \<and> tk_get T t'' = tk_get T t"
proof -
  have run: "run_vals op_value_inv as (tk_get T t) = Inr (tk_get T t')"
    and undo: "undo_actions as (tk_get T t) invs"
    using apply_actions_inverse [OF assms(1,2), of t] assms(3) by auto
  have "stable_batch (rev invs)" using undo_actions_kind [OF undo] by (auto simp: stable_batch_def)
  from apply_actions_plain [OF assms(1) this, of t'] undo_actions_restore [OF run undo]
  show ?thesis by (cases "apply_actions T (rev invs) False t'") auto
qed

theorem inverse_actions_restore_witness:
  "\<exists>t''. apply_actions ref_store (rev [Set [1] [7], Delete [2]]) False [([2], [9]), ([1], [8])] =
      Inr (t'', None) \<and> map_of t'' = map_of [([1], [7 :: u8])]"
proof -
  have "apply_actions ref_store [Set [1] [8], Set [2] [9]] True [([1], [7])] =
      Inr ([([2], [9]), ([1], [8])], Some [Set [1] [7], Delete [2]])"
    by (simp add: apply_actions_def batch_get_required_kvs_for_batch_def required_keys_def ref_store_def Let_def)
  from inverse_actions_restore [OF ref_store_rw _ this] show ?thesis by (simp add: ref_store_def)
qed

text \<open>
  C26. The batcher holds one action per key, and that action is the merge, in order, of all actions
  pushed for the key since the batcher was created or last wiped, over any number of calls of
  \<open>push_actions\<close>; a key without actions has no entry. The counters that decide about flushing
  are the number of calls and the size of all actions pushed since then.
\<close>

theorem batcher_merges_per_key:
  assumes "b0 = sb_new l m \<or> b0 = wipe b1" "push_blocks blocks b0 = Some b"
  shows "distinct (map action_key (map snd (batch_actions b))) \<and>
    Some (map_of (batch_actions b) k) =
      (case filter (\<lambda>a. action_key a = k) (concat blocks) of
         [] \<Rightarrow> Some None
       | a # rest \<Rightarrow> map_option Some (merge_all a rest)) \<and>
    current_len b = length blocks \<and> estimated_bytes b = sum_list (map action_size (concat blocks))"
proof -
  have "batch_inv b0 [] \<and> batch_counts b0 0 0"
    using assms(1) batch_inv_new batch_inv_wipe by (auto simp: batch_counts_def sb_new_def wipe_def)
  with push_blocks_inv [OF _ _ assms(2)]
  have "batch_inv b (concat blocks)" "batch_counts b (length blocks) (sum_list (map action_size (concat blocks)))"
    by fastforce+
  then show ?thesis using batch_keys_distinct [of b "concat blocks"]
    by (simp add: batch_inv_def batch_counts_def merged_action_def key_actions_def del: map_map)
qed

theorem batcher_merges_per_key_witness:
  "\<exists>b. push_blocks [[IncrementU64 [1] 10, Set [2] []], [DecrementU64 [1] 15]]
      (wipe ((sb_new 1 9)\<lparr>batch_actions := [([1], Set [1] [7])]\<rparr>)) = Some b \<and>
    map_of (batch_actions b) [1] = Some (DecrementU64 [1] 5) \<and> current_len b = 2"
proof -
  let ?b0 = "wipe ((sb_new 1 9)\<lparr>batch_actions := [([1], Set [1] [7])]\<rparr>)"
  obtain b where b: "push_blocks [[IncrementU64 [1] 10, Set [2] []], [DecrementU64 [1] 15]] ?b0 = Some b"
    by (simp add: push_actions_def sb_push_action_def sb_new_def wipe_def Let_def merge_def)
  from batcher_merges_per_key [OF disjI2 [OF refl] this, of "[1]"]
  have "map_of (batch_actions b) [1] = Some (DecrementU64 [1] 5)" "current_len b = 2"
    by (simp_all add: merge_def)
  with b show ?thesis by blast
qed

text \<open>
  A counter stored big-endian, with zero as the absent key, moves by exactly the delta of the
  action as long as the result fits: increments, and decrements of keys that are removed at zero.
\<close>

theorem counter_actions_exact:
  fixes n64 d64 :: u64 and n128 d128 :: u128
  assumes "uint n64 + uint d64 < 2 ^ 64" "uint n128 + uint d128 < 2 ^ 128" "e64 \<le> n64" "e128 \<le> n128"
  shows "op_value (IncrementU64 k d64) (stored n64) = Inr (stored (n64 + d64)) \<and>
    op_value (IncrementU128 k d128) (stored n128) = Inr (stored (n128 + d128)) \<and>
    op_value (DecrementU64 k e64) (stored n64) = Inr (stored (n64 - e64)) \<and>
    op_value (DecrementU128 k e128) (stored n128) = Inr (stored (n128 - e128))"
  using increment_stored [of d64 n64] increment_stored [of d128 n128]
    decrement_stored [of e64 n64] decrement_stored [of e128 n128] assms
  by (simp add: op_value_def)

theorem counter_actions_exact_witness:
  "op_value (DecrementU64 [1] 7) (stored (7 :: u64)) = Inr None"
  using counter_actions_exact [of 7 0 0 0 7 0 "[1]"] by (simp add: stored_def)

text \<open>
  Bulk and mutable mode treat a net change of zero on an absent key differently: in bulk mode
  nothing is written, in mutable mode the key is created with the value zero.
\<close>

theorem zero_increment_modes_differ:
  "op_value (IncrementU64 k 0) None = Inr None \<and>
   op_value_inv (IncrementU64 k 0) None = Inr (Some (to_be_bytes (0 :: u64))) \<and>
   op_value (IncrementU128 k 0) None = Inr None \<and>
   op_value_inv (IncrementU128 k 0) None = Inr (Some (to_be_bytes (0 :: u128)))"
  by (simp add: op_value_def counter_value_def)

end
