(* ===== verification/Redis_Entry.thy ===== *)
theory Redis_Entry
  imports Rust_Prelude
begin

text \<open>
  The cursor entries that the storage stage writes to Redis (\<open>polyphony-xdg/src/storage/mod.rs\<close>)
  and that the garbage collector reads (\<open>tikv-gc/src/entry.rs\<close>, \<open>types.rs\<close>): comma separated
  fields. The crate \<open>hex\<close> and the version number of a TiKV timestamp are parameters. Strings
  are ASCII.
\<close>

section \<open>Strings\<close>

definition lower_char :: "char \<Rightarrow> char" where
  "lower_char c = (let n = (of_char c :: nat) in if 65 \<le> n \<and> n \<le> 90 then char_of (n + 32) else c)"

definition to_lowercase :: "string \<Rightarrow> string" where
  "to_lowercase s = map lower_char s"

definition bool_to_string :: "bool \<Rightarrow> string" where
  "bool_to_string b = (if b then ''true'' else ''false'')"

definition parse_bool :: "string \<Rightarrow> bool option" where
  "parse_bool s = (if s = ''true'' then Some True else if s = ''false'' then Some False else None)"

text \<open>Splitting an iterator: \<open>next\<close> gives the head, and nothing once it is exhausted.\<close>

definition iter_next :: "'a list \<Rightarrow> 'a option \<times> 'a list" where
  "iter_next xs = (case xs of [] \<Rightarrow> (None, []) | x # xs \<Rightarrow> (Some x, xs))"

section \<open>Timestamps\<close>

text \<open>\<open>physical\<close> and \<open>logical\<close> are signed 64-bit integers.\<close>

record TiKVTimestamp =
  ts_physical :: int
  ts_logical :: int
  ts_suffix_bits :: int

text \<open>The crate's own timestamp, ordered by physical and then logical time.\<close>

type_synonym Timestamp = "int \<times> int"

definition timestamp_from :: "TiKVTimestamp \<Rightarrow> Timestamp" where
  "timestamp_from ts = (ts_physical ts, ts_logical ts)"

definition timestamp_into :: "Timestamp \<Rightarrow> TiKVTimestamp" where
  "timestamp_into t = \<lparr>ts_physical = fst t, ts_logical = snd t, ts_suffix_bits = 0\<rparr>"

section \<open>Parameters\<close>

record EntryCodec =
  hex_encode :: "bytes \<Rightarrow> string"
  hex_decode :: "string \<Rightarrow> bytes option"
  ts_version :: "TiKVTimestamp \<Rightarrow> u64"
  ts_from_version :: "u64 \<Rightarrow> TiKVTimestamp"

definition hex_laws :: "EntryCodec \<Rightarrow> bool" where
  "hex_laws X \<longleftrightarrow> (\<forall>b. hex_decode X (hex_encode X b) = Some b \<and> CHR '','' \<notin> set (hex_encode X b))"

section \<open>The entry of the storage stage\<close>

record PolyRedisEntry =
  pe_height :: u64
  pe_block_hash :: bytes
  pe_was_mempool :: bool
  pe_commit_ts :: TiKVTimestamp
  pe_network :: string

definition poly_entry_to_string :: "EntryCodec \<Rightarrow> PolyRedisEntry \<Rightarrow> string" where
  "poly_entry_to_string X e = join_with (CHR '','')
     [dec_string (unat (pe_height e)), hex_encode X (pe_block_hash e), bool_to_string (pe_was_mempool e),
      dec_string (unat (ts_version X (pe_commit_ts e))), to_lowercase (pe_network e),
      dec_string (unat (pe_height e)), hex_encode X (pe_block_hash e), dec_string 0]"

datatype RedisError = Malformed string

definition decode_hash :: "EntryCodec \<Rightarrow> string option \<Rightarrow> bytes option" where
  "decode_hash X s = Option.bind s (\<lambda>x. Option.bind (hex_decode X x) (\<lambda>b.
     if length b = 32 then Some b else None))"

definition ok_or :: "'a option \<Rightarrow> 'e \<Rightarrow> 'e + 'a" where
  "ok_or x e = (case x of None \<Rightarrow> Inl e | Some v \<Rightarrow> Inr v)"

definition poly_entry_parse :: "EntryCodec \<Rightarrow> string \<Rightarrow> RedisError + PolyRedisEntry" where
  "poly_entry_parse X s =
     (let (f1, s) = iter_next (split_on (CHR '','') s) in
      and_then (ok_or (Option.bind f1 parse_uint) (Malformed ''height'')) (\<lambda>height.
      let (f2, s) = iter_next s in
      and_then (ok_or (decode_hash X f2) (Malformed ''block hash'')) (\<lambda>block_hash.
      let (f3, s) = iter_next s in
      and_then (ok_or (Option.bind f3 parse_bool) (Malformed ''was_mempool'')) (\<lambda>was_mempool.
      let (f4, s) = iter_next s in
      and_then (ok_or (map_option (ts_from_version X) (Option.bind f4 parse_uint))
        (Malformed ''commit timestamp'')) (\<lambda>commit_ts.
      let (f5, s) = iter_next s in
      Inr \<lparr>pe_height = height, pe_block_hash = block_hash, pe_was_mempool = was_mempool,
           pe_commit_ts = commit_ts, pe_network = to_lowercase (case f5 of None \<Rightarrow> [] | Some n \<Rightarrow> n)\<rparr>)))))"

section \<open>The entry of the garbage collector\<close>

record RedisEntry =
  re_height :: u64
  re_block_hash :: bytes
  re_was_mempool :: bool
  re_commit_ts :: TiKVTimestamp
  re_network :: string
  re_chain_tip_height :: u64
  re_chain_tip_hash :: bytes
  re_mempool_view_ts :: u64

definition gc_entry_to_string :: "EntryCodec \<Rightarrow> RedisEntry \<Rightarrow> string" where
  "gc_entry_to_string X e = join_with (CHR '','')
     [dec_string (unat (re_height e)), hex_encode X (re_block_hash e), bool_to_string (re_was_mempool e),
      dec_string (unat (ts_version X (re_commit_ts e))), to_lowercase (re_network e),
      dec_string (unat (re_chain_tip_height e)), hex_encode X (re_chain_tip_hash e),
      dec_string (unat (re_mempool_view_ts e))]"

definition unwrap_or :: "'a option \<Rightarrow> 'a \<Rightarrow> 'a" where
  "unwrap_or x d = (case x of None \<Rightarrow> d | Some v \<Rightarrow> v)"

definition gc_entry_parse :: "EntryCodec \<Rightarrow> string \<Rightarrow> RedisError + RedisEntry" where
  "gc_entry_parse X s =
     (let (f1, s) = iter_next (split_on (CHR '','') s) in
      and_then (ok_or (Option.bind f1 parse_uint) (Malformed ''height'')) (\<lambda>height.
      let (f2, s) = iter_next s in
      and_then (ok_or (decode_hash X f2) (Malformed ''block hash'')) (\<lambda>block_hash.
      let (f3, s) = iter_next s in
      and_then (ok_or (Option.bind f3 parse_bool) (Malformed ''was_mempool'')) (\<lambda>was_mempool.
      let (f4, s) = iter_next s in
      and_then (ok_or (map_option (ts_from_version X) (Option.bind f4 parse_uint))
        (Malformed ''commit timestamp'')) (\<lambda>commit_ts.
      let (f5, s) = iter_next s; (f6, s) = iter_next s; (f7, s) = iter_next s; (f8, s) = iter_next s in
      Inr \<lparr>re_height = height, re_block_hash = block_hash, re_was_mempool = was_mempool,
           re_commit_ts = commit_ts, re_network = to_lowercase (unwrap_or f5 []),
           re_chain_tip_height = unwrap_or (Option.bind f6 parse_uint) 0,
           re_chain_tip_hash = unwrap_or (decode_hash X f7) (replicate 32 0),
           re_mempool_view_ts = unwrap_or (Option.bind f8 parse_uint) 0\<rparr>)))))"

section \<open>Splitting a joined line\<close>

lemma no_comma_dec: "CHR '','' \<notin> set (dec_string n)"
proof -
  have "\<not> is_digit (CHR '','')" by (simp add: is_digit_def)
  then show ?thesis using dec_string_digits [of n] by (auto simp: list_all_iff)
qed

lemma no_comma_bool: "CHR '','' \<notin> set (bool_to_string b)"
  by (simp add: bool_to_string_def)

lemma parse_bool_string [simp]: "parse_bool (bool_to_string b) = Some b"
  by (simp add: parse_bool_def bool_to_string_def)

lemma lower_idem [simp]: "to_lowercase (to_lowercase s) = to_lowercase s"
  by (induction s) (auto simp: to_lowercase_def lower_char_def Let_def)

lemma parse_zero [simp]: "parse_uint (dec_string 0) = Some (0 :: 'a::len word)"
  using parse_dec_string [of "0 :: 'a word"] by simp

lemma decode_hash_encoded:
  "hex_laws X \<Longrightarrow> length b = 32 \<Longrightarrow> decode_hash X (Some (hex_encode X b)) = Some b"
  by (simp add: decode_hash_def hex_laws_def)

lemma gc_entry_parse_poly:
  assumes "hex_laws X" "length (pe_block_hash e) = 32" "CHR '','' \<notin> set (to_lowercase (pe_network e))"
    "ts_from_version X (ts_version X (pe_commit_ts e)) = pe_commit_ts e"
  shows "gc_entry_parse X (poly_entry_to_string X e) =
    Inr \<lparr>re_height = pe_height e, re_block_hash = pe_block_hash e, re_was_mempool = pe_was_mempool e,
      re_commit_ts = pe_commit_ts e, re_network = to_lowercase (pe_network e),
      re_chain_tip_height = pe_height e, re_chain_tip_hash = pe_block_hash e, re_mempool_view_ts = 0\<rparr>"
proof -
  have "split_on (CHR '','') (poly_entry_to_string X e) =
    [dec_string (unat (pe_height e)), hex_encode X (pe_block_hash e), bool_to_string (pe_was_mempool e),
      dec_string (unat (ts_version X (pe_commit_ts e))), to_lowercase (pe_network e),
      dec_string (unat (pe_height e)), hex_encode X (pe_block_hash e), dec_string 0]"
    unfolding poly_entry_to_string_def
    using assms(1,3) by (intro split_join) (auto simp: no_comma_dec no_comma_bool hex_laws_def)
  then show ?thesis using assms
    by (simp add: gc_entry_parse_def iter_next_def ok_or_def unwrap_or_def decode_hash_encoded Let_def)
qed

section \<open>Properties\<close>

text \<open>
  What the storage stage writes the garbage collector reads: an entry with a 32-byte hash and
  a network name without commas parses to the same height, hash, mempool flag, timestamp and
  lower-case network, with the block as its own chain tip and no mempool view.
\<close>

theorem gc_reads_storage_entry:
  assumes "hex_laws X" "length (pe_block_hash e) = 32" "CHR '','' \<notin> set (to_lowercase (pe_network e))"
    "ts_from_version X (ts_version X (pe_commit_ts e)) = pe_commit_ts e"
  shows "gc_entry_parse X (poly_entry_to_string X e) =
    Inr \<lparr>re_height = pe_height e, re_block_hash = pe_block_hash e, re_was_mempool = pe_was_mempool e,
      re_commit_ts = pe_commit_ts e, re_network = to_lowercase (pe_network e),
      re_chain_tip_height = pe_height e, re_chain_tip_hash = pe_block_hash e, re_mempool_view_ts = 0\<rparr>"
  using assms by (rule gc_entry_parse_poly)

fun sample_hex_decode :: "string \<Rightarrow> bytes option" where
  "sample_hex_decode [] = Some []"
| "sample_hex_decode (c # d # s) =
     map_option (Cons (word_of_nat (16 * (of_char c - 97) + (of_char d - 97)))) (sample_hex_decode s)"
| "sample_hex_decode [c] = None"

definition sample_hex_encode :: "bytes \<Rightarrow> string" where
  "sample_hex_encode b =
     concat (map (\<lambda>x. [char_of (97 + unat x div 16), char_of (97 + unat x mod 16)]) b)"

definition sample_entry_codec :: EntryCodec where
  "sample_entry_codec = \<lparr>hex_encode = sample_hex_encode, hex_decode = sample_hex_decode,
     ts_version = (\<lambda>t. word_of_int (ts_physical t)),
     ts_from_version = (\<lambda>v. \<lparr>ts_physical = uint v, ts_logical = 0, ts_suffix_bits = 0\<rparr>)\<rparr>"

lemma sample_hex_step:
  "sample_hex_decode (sample_hex_encode (x # b)) =
   map_option (Cons x) (sample_hex_decode (sample_hex_encode b))"
proof -
  have "unat x < 256" by (rule u8_nat_less)
  then have "unat x div 16 < 16" "unat x mod 16 < 16" "16 * (unat x div 16) + unat x mod 16 = unat x" by auto
  then show ?thesis by (simp add: sample_hex_encode_def)
qed

lemma sample_hex_laws: "hex_laws sample_entry_codec"
proof -
  have "sample_hex_decode (sample_hex_encode b) = Some b" for b
    by (induction b) (simp_all add: sample_hex_step, simp add: sample_hex_encode_def)
  moreover have "CHR '','' \<notin> set (sample_hex_encode b)" for b
  proof -
    have ne: "char_of (97 + n :: nat) \<noteq> (CHR '','')" if "n < 16" for n
    proof
      assume "char_of (97 + n) = (CHR '','')"
      then have "(of_char (char_of (97 + n :: nat)) :: nat) = of_char (CHR '','')" by simp
      then show False using that by simp
    qed
    have "unat (x :: u8) div 16 < 16" for x using u8_nat_less [of x] by simp
    then show ?thesis by (auto simp: sample_hex_encode_def ne ne [symmetric])
  qed
  ultimately show ?thesis by (simp add: hex_laws_def sample_entry_codec_def)
qed

definition sample_poly_entry :: PolyRedisEntry where
  "sample_poly_entry = \<lparr>pe_height = 123, pe_block_hash = replicate 32 1, pe_was_mempool = True,
     pe_commit_ts = \<lparr>ts_physical = 456, ts_logical = 0, ts_suffix_bits = 0\<rparr>, pe_network = ''MainNet''\<rparr>"

theorem gc_reads_storage_entry_witness:
  "\<exists>e. gc_entry_parse sample_entry_codec (poly_entry_to_string sample_entry_codec sample_poly_entry) = Inr e \<and>
     re_height e = 123 \<and> re_network e = ''mainnet'' \<and> re_chain_tip_height e = 123"
proof -
  have "to_lowercase ''MainNet'' = ''mainnet''" by code_simp
  then show ?thesis
    using gc_reads_storage_entry [of sample_entry_codec sample_poly_entry] sample_hex_laws
    by (simp add: sample_poly_entry_def sample_entry_codec_def)
qed

end
