(* ===== verification/Tikv_Worker.thy ===== *)
theory Tikv_Worker
  imports Tikv_Exec Redis_Entry
begin

text \<open>
  The storage stage of \<open>polyphony-xdg\<close> (\<open>storage/tikv.rs\<close>: \<open>Worker\<close>): bulk mode with
  batched transactions, mutable mode with inverse actions kept in memory and in the database,
  rollbacks, and the re-scheduling of a work unit whose transaction failed.

  External calls can fail. The environment fixes the outcome of the n-th call: \<open>we_commit\<close> for
  the commit of a transaction and \<open>we_call\<close> for any other call (Redis, lock cleanup);
  \<open>we_now\<close> is what the timestamp oracle answers. A commit answers with its timestamp, or with
  an error; then the client is asked to roll the transaction back, and whether that works or not
  the stage restarts. An error does not say what became of the writes: they may have been
  discarded, or the transaction may have been committed all the same (the answer got lost, and
  the rollback came too late or failed). A transaction whose begin, read or write fails has the
  effect of one whose writes were discarded. The loops over scans are partial functions: \<open>None\<close>
  is a loop that does not end.
\<close>

section \<open>State\<close>

datatype StorageActionPayload =
    RollForward Point "ReducerOutput list" bool bool
  | RollBack Point bool

datatype RedisWrite =
    ZaddEntry string PolyRedisEntry int
  | ZaddIndex string string int
  | ZaddScore string bytes u64

text \<open>
  What a commit, followed by a rollback when it answers with an error, comes to: the timestamp of
  the commit; an error and nothing written; an error although the writes were applied.
\<close>

datatype CommitOutcome =
    Committed "TiKVTimestamp option"
  | CommitFailed
  | CommitUndetermined

record 't WorkerEnv =
  we_tikv :: "'t Tikv"
  we_commit :: "nat \<Rightarrow> CommitOutcome"
  we_call :: "nat \<Rightarrow> bool"
  we_now :: "nat \<Rightarrow> TiKVTimestamp option"
  we_order :: "StorageActions \<Rightarrow> StorageActions"
  we_ns :: Namespace
  we_network :: string
  we_buffer_size :: nat
  we_instance_names :: "string list"
  we_advertise_immediately :: "bool option"
  we_cleanup_locks :: "bool option"
  we_policy :: RuntimePolicy

record 't Worker =
  wk_store :: 't
  wk_calls :: nat
  wk_redis :: "RedisWrite list"
  wk_sync_batcher :: SyncBatcher
  wk_rollback_buffer :: "StorageActions RollbackBuffer"
  wk_mutable :: bool
  wk_work_unit_2pc :: "StorageActionPayload option"
  wk_last_processed :: "Point option"
  wk_registered :: bool

type_synonym ('t, 'a) outcome = "(GasketError + 'a) \<times> 't Worker"

definition wbind :: "('t, 'a) outcome \<Rightarrow> ('a \<Rightarrow> 't Worker \<Rightarrow> ('t, 'b) outcome) \<Rightarrow> ('t, 'b) outcome" where
  "wbind r f = (case r of (Inl e, w) \<Rightarrow> (Inl e, w) | (Inr x, w) \<Rightarrow> f x w)"

definition wlift :: "GasketError + 'a \<Rightarrow> 't Worker \<Rightarrow> ('t, 'a) outcome" where
  "wlift r w = (r, w)"

section \<open>External calls\<close>

definition commit_txn_or_rollback :: "'t WorkerEnv \<Rightarrow> 't \<Rightarrow> 't Worker \<Rightarrow> ('t, TiKVTimestamp option) outcome" where
  "commit_txn_or_rollback E txn w =
     (let w' = w\<lparr>wk_calls := Suc (wk_calls w)\<rparr> in
      case we_commit E (wk_calls w) of
        Committed ts \<Rightarrow> (Inr ts, w'\<lparr>wk_store := txn\<rparr>)
      | CommitFailed \<Rightarrow> (Inl Restart, w')
      | CommitUndetermined \<Rightarrow> (Inl Restart, w'\<lparr>wk_store := txn\<rparr>))"

definition external_call :: "'t WorkerEnv \<Rightarrow> 't Worker \<Rightarrow> ('t, unit) outcome" where
  "external_call E w =
     (let w' = w\<lparr>wk_calls := Suc (wk_calls w)\<rparr> in
      if we_call E (wk_calls w) then (Inr (), w') else (Inl Restart, w'))"

definition redis_write :: "'t WorkerEnv \<Rightarrow> RedisWrite \<Rightarrow> 't Worker \<Rightarrow> ('t, unit) outcome" where
  "redis_write E c w = wbind (external_call E w) (\<lambda>_ w. (Inr (), w\<lparr>wk_redis := wk_redis w @ [c]\<rparr>))"

definition timestamps_key :: "Namespace \<Rightarrow> string" where
  "timestamps_key n =
     ''tikv-timestamps:'' @ dec_string (unat (dataplane_id n)) @ '':'' @ dec_string (unat (instance_id n))"

definition index_timestamps_key :: "'t WorkerEnv \<Rightarrow> int \<Rightarrow> 't Worker \<Rightarrow> ('t, unit) outcome" where
  "index_timestamps_key E physical w =
     redis_write E (ZaddIndex ''tikv-timestamps-keys'' (timestamps_key (we_ns E)) physical) w"

fun write_scores :: "'t WorkerEnv \<Rightarrow> u64 \<Rightarrow> string list \<Rightarrow> 't Worker \<Rightarrow> ('t, unit) outcome" where
  "write_scores E height [] w = (Inr (), w)"
| "write_scores E height (name # names) w =
     wbind (redis_write E (ZaddScore (''dogecoin:'' @ to_lowercase (we_network E) @ '':'' @ name @ '':scores'')
       [dataplane_id (we_ns E), instance_id (we_ns E)] height) w)
       (\<lambda>_. write_scores E height names)"

definition update_registry_scores :: "'t WorkerEnv \<Rightarrow> u64 \<Rightarrow> 't Worker \<Rightarrow> ('t, unit) outcome" where
  "update_registry_scores E height w = write_scores E height (we_instance_names E) w"

definition maybe_advertise :: "'t WorkerEnv \<Rightarrow> u64 \<Rightarrow> 't Worker \<Rightarrow> ('t, unit) outcome" where
  "maybe_advertise E height w =
     (if wk_registered w then update_registry_scores E height w
      else if \<not> (wk_mutable w \<or> unwrap_or (we_advertise_immediately E) False) then (Inr (), w)
      else wbind (update_registry_scores E height w) (\<lambda>_ w. (Inr (), w\<lparr>wk_registered := True\<rparr>)))"

definition cleanup_locks_range :: "Namespace \<Rightarrow> bool \<Rightarrow> key_range" where
  "cleanup_locks_range n just_data =
     (if just_data then (encode_Namespace n @ [PREFIX_DATA], encode_Namespace n @ [PREFIX_DATA + 1])
      else let dp = dataplane_id n; inst = instance_id n in
        if inst \<noteq> 255 then ([dp, inst], [dp, inst + 1])
        else if dp \<noteq> 255 then ([dp, inst], [dp + 1])
        else ([dp, inst], []))"

definition record_commit :: "'t WorkerEnv \<Rightarrow> Point \<Rightarrow> bool \<Rightarrow> TiKVTimestamp option \<Rightarrow> 't Worker \<Rightarrow> ('t, unit) outcome" where
  "record_commit E point was_mempool commit_ts w =
     (case commit_ts of None \<Rightarrow> (Inr (), w)
      | Some ts \<Rightarrow>
        wbind (if unwrap_or (we_cleanup_locks E) True then external_call E w else (Inr (), w)) (\<lambda>_ w.
        wbind (redis_write E (ZaddEntry (timestamps_key (we_ns E))
          \<lparr>pe_height = pt_height point, pe_block_hash = pt_hash point, pe_was_mempool = was_mempool,
           pe_commit_ts = ts, pe_network = we_network E\<rparr> (ts_physical ts)) w) (\<lambda>_ w.
        wbind (index_timestamps_key E (ts_physical ts) w) (\<lambda>_ w.
        maybe_advertise E (pt_height point) w))))"

section \<open>Rollback metadata\<close>

fun write_rb_actions ::
  "'t Tikv \<Rightarrow> Namespace \<Rightarrow> u64 \<Rightarrow> bytes \<Rightarrow> nat \<Rightarrow> StorageActions \<Rightarrow> 't \<Rightarrow> GasketError + 't" where
  "write_rb_actions T n b_height b_hash idx [] t = Inr t"
| "write_rb_actions T n b_height b_hash idx (action # actions) t =
     (let key = prefix_rollback n \<lparr>mk_height = b_height, mk_hash = b_hash,
            mk_operation_idx = word_of_nat idx, mk_modified_key = action_key action\<rparr>
      in case action of
           Set _ v \<Rightarrow> write_rb_actions T n b_height b_hash (Suc idx) actions (tk_put T key v t)
         | Delete _ \<Rightarrow> write_rb_actions T n b_height b_hash (Suc idx) actions (tk_put T key [] t)
         | _ \<Rightarrow> Inl WorkPanic)"

definition apply_storage_rb_actions ::
  "'t Tikv \<Rightarrow> Namespace \<Rightarrow> StorageActions \<Rightarrow> u64 \<Rightarrow> bytes \<Rightarrow> 't \<Rightarrow> GasketError + 't" where
  "apply_storage_rb_actions T n inverse_ops b_height b_hash t =
     write_rb_actions T n b_height b_hash 0 inverse_ops t"

definition metadata_of_key :: "bytes \<Rightarrow> MetadataKey option" where
  "metadata_of_key k =
     (if length k < 4 then None
      else case decode_MetadataKey (drop 4 k) of Inl _ \<Rightarrow> None | Inr (mk, _) \<Rightarrow> Some mk)"

text \<open>
  The body of the deletion loops: one transaction per height, committed when the height changes.
\<close>

fun delete_metadata_keys ::
  "'t WorkerEnv \<Rightarrow> bytes list \<Rightarrow> u64 option \<Rightarrow> nat \<Rightarrow> 't \<Rightarrow> 't Worker \<Rightarrow>
   ('t, u64 option \<times> nat \<times> 't) outcome" where
  "delete_metadata_keys E [] ch deleted txn w = (Inr (ch, deleted, txn), w)"
| "delete_metadata_keys E (k # ks) ch deleted txn w =
     (case metadata_of_key k of None \<Rightarrow> (Inl RustPanic, w)
      | Some mk \<Rightarrow>
        wbind (case ch of
             Some c \<Rightarrow>
               if c \<noteq> mk_height mk then
                 wbind (commit_txn_or_rollback E txn w) (\<lambda>_ w. (Inr (wk_store w), w))
               else (Inr txn, w)
           | None \<Rightarrow> (Inr txn, w))
          (\<lambda>txn. delete_metadata_keys E ks (Some (mk_height mk)) (Suc deleted) (tk_delete (we_tikv E) k txn)))"

partial_function (option) delete_metadata_loop ::
  "'t WorkerEnv \<Rightarrow> ('t \<Rightarrow> bytes list) \<Rightarrow> u64 option \<Rightarrow> nat \<Rightarrow> 't \<Rightarrow> 't Worker \<Rightarrow> ('t, nat) outcome option" where
  "delete_metadata_loop E scan ch deleted txn w =
     (if scan txn = [] then
        Some (wbind (commit_txn_or_rollback E txn w) (\<lambda>_ w. (Inr deleted, w)))
      else case delete_metadata_keys E (scan txn) ch deleted txn w of
          (Inl e, w) \<Rightarrow> Some (Inl e, w)
        | (Inr (ch, deleted, txn), w) \<Rightarrow> delete_metadata_loop E scan ch deleted txn w)"

definition garbage_collect_rollback_metadata ::
  "'t WorkerEnv \<Rightarrow> u64 \<Rightarrow> 't Worker \<Rightarrow> ('t, nat) outcome option" where
  "garbage_collect_rollback_metadata E b_height w =
     (if b_height \<ge> word_of_nat (we_buffer_size E) then
        let gc_range = rollback_metadata_key_range encode_int encode_int (we_ns E) (None :: u64 option)
              (Some (b_height - word_of_nat (we_buffer_size E)))
        in delete_metadata_loop E (\<lambda>t. tk_scan_keys (we_tikv E) t gc_range 1000) None 0 (wk_store w) w
      else Some (Inr 0, w))"

definition trim_persistent_rollback_metadata ::
  "'t WorkerEnv \<Rightarrow> u64 \<Rightarrow> 't Worker \<Rightarrow> ('t, nat) outcome option" where
  "trim_persistent_rollback_metadata E after_height w =
     (let r = rollback_metadata_key_range encode_int encode_int (we_ns E) (Some (after_height + 1))
            (None :: u64 option)
      in delete_metadata_loop E (\<lambda>t. tk_scan_keys_reverse (we_tikv E) t r 1000) None 0 (wk_store w) w)"

section \<open>Applying batches\<close>

fun run_txns :: "'t WorkerEnv \<Rightarrow> ('t \<Rightarrow> GasketError + 't) list \<Rightarrow> 't Worker \<Rightarrow> ('t, unit) outcome" where
  "run_txns E [] w = (Inr (), w)"
| "run_txns E (f # fs) w =
     wbind (wlift (f (wk_store w)) w) (\<lambda>txn w.
     wbind (commit_txn_or_rollback E txn w) (\<lambda>_. run_txns E fs))"

definition exec_batch :: "'t Tikv \<Rightarrow> StorageActions \<Rightarrow> 't \<Rightarrow> GasketError + 't" where
  "exec_batch T as t =
     and_then (exec_all T as (t, batch_get_required_kvs_for_batch T t as False)) (\<lambda>(t, _). Inr t)"

fun is_cursor_set :: "Namespace \<Rightarrow> StorageAction \<Rightarrow> bool" where
  "is_cursor_set n (Set k _) = (k = prefix_cursor n)"
| "is_cursor_set n _ = False"

fun is_delete :: "StorageAction \<Rightarrow> bool" where
  "is_delete (Delete _) = True"
| "is_delete _ = False"

fun is_set :: "StorageAction \<Rightarrow> bool" where
  "is_set (Set _ _) = True"
| "is_set _ = False"

text \<open>Deletes, then chunks of 5000 sets, then the rest together with the cursor, which must exist.\<close>

definition staggered_txns ::
  "'t Tikv \<Rightarrow> Namespace \<Rightarrow> StorageActions \<Rightarrow> ('t \<Rightarrow> GasketError + 't) list" where
  "staggered_txns T n actions =
     (let dels = filter is_delete actions;
          cursors = filter (is_cursor_set n) actions;
          sets = filter (\<lambda>a. is_set a \<and> \<not> is_cursor_set n a) actions;
          others = filter (\<lambda>a. \<not> is_delete a \<and> \<not> is_set a) actions
      in (\<lambda>t. and_then (exec_all T dels (t, Map.empty)) (\<lambda>(t, _). Inr t)) #
         map (exec_batch T) (chunks 5000 sets) @
         [if cursors = [] then (\<lambda>_. Inl RustPanic) else exec_batch T (others @ [last cursors])])"

definition apply_staggered_actions :: "'t WorkerEnv \<Rightarrow> StorageActions \<Rightarrow> 't Worker \<Rightarrow> ('t, unit) outcome" where
  "apply_staggered_actions E actions w = run_txns E (staggered_txns (we_tikv E) (we_ns E) actions) w"

section \<open>The handlers\<close>

definition roll_forward_bulk ::
  "'t WorkerEnv \<Rightarrow> StorageActionPayload \<Rightarrow> Point \<Rightarrow> StorageActions \<Rightarrow> 't Worker \<Rightarrow> ('t, unit) outcome" where
  "roll_forward_bulk E payload point ops w =
     (let push = (\<lambda>w. case push_actions ops (wk_sync_batcher w) of
            None \<Rightarrow> (Inl RustPanic, w) | Some b \<Rightarrow> (Inr (), w\<lparr>wk_sync_batcher := b\<rparr>))
      in if should_flush (wk_sync_batcher w) ops then
           let w = w\<lparr>wk_work_unit_2pc := Some payload\<rparr>;
               actions = get_batch_actions (we_order E) (wk_sync_batcher w)
           in wbind (if length actions > 5000 then apply_staggered_actions E actions w
                     else wbind (wlift (apply_actions (we_tikv E) actions False (wk_store w)) w) (\<lambda>(txn, _) w.
                       wbind (commit_txn_or_rollback E txn w) (\<lambda>_ w. (Inr (), w)))) (\<lambda>_ w.
              wbind (maybe_advertise E (pt_height point)
                (w\<lparr>wk_work_unit_2pc := None, wk_last_processed := Some point\<rparr>)) (\<lambda>_ w.
              push (w\<lparr>wk_sync_batcher := wipe (wk_sync_batcher w)\<rparr>)))
         else push w)"

definition block_txn ::
  "'t WorkerEnv \<Rightarrow> Point \<Rightarrow> StorageActions \<Rightarrow> bool \<Rightarrow> Point option \<Rightarrow> 't \<Rightarrow> GasketError + 't \<times> StorageActions" where
  "block_txn E point actions first_mutable last_processed t =
     and_then (apply_actions (we_tikv E) actions True t) (\<lambda>(t, invs).
     let inverse_ops = unwrap_or invs [] in
     and_then (case last_processed of
          Some p \<Rightarrow>
            if first_mutable then
              apply_storage_rb_actions (we_tikv E) (we_ns E) [Delete []] (pt_height p) (pt_hash p) t
            else Inr t
        | None \<Rightarrow> Inr t) (\<lambda>t.
     and_then (apply_storage_rb_actions (we_tikv E) (we_ns E) inverse_ops (pt_height point) (pt_hash point) t)
       (\<lambda>t. Inr (t, inverse_ops))))"

definition roll_forward_mutable ::
  "'t WorkerEnv \<Rightarrow> StorageActionPayload \<Rightarrow> Point \<Rightarrow> StorageActions \<Rightarrow> bool \<Rightarrow> 't Worker \<Rightarrow> ('t, unit) outcome option" where
  "roll_forward_mutable E payload point ops mempool w =
     (let first_mutable = rb_is_empty (wk_rollback_buffer w);
          w = w\<lparr>wk_work_unit_2pc := Some payload\<rparr>;
          flushed = (if sb_is_empty (wk_sync_batcher w) then (Inr (), w)
            else wbind (apply_staggered_actions E (get_batch_actions (we_order E) (wk_sync_batcher w)) w)
              (\<lambda>_ w. (Inr (), w\<lparr>wk_sync_batcher := wipe (wk_sync_batcher w)\<rparr>)));
          committed = wbind flushed (\<lambda>_ w.
            case push_actions ops (sb_new 1 (2 ^ 64 - 1)) of None \<Rightarrow> (Inl RustPanic, w)
            | Some merger \<Rightarrow>
              wbind (wlift (block_txn E point (get_batch_actions (we_order E) merger) first_mutable
                (wk_last_processed w) (wk_store w)) w) (\<lambda>(txn, inverse_ops) w.
              wbind (commit_txn_or_rollback E txn w) (\<lambda>commit_ts w.
              let w = w\<lparr>wk_work_unit_2pc := None\<rparr>;
                  init_point = unwrap_or (wk_last_processed w) \<lparr>pt_height = 0, pt_hash = replicate 32 0\<rparr>;
                  w = (if first_mutable
                       then w\<lparr>wk_rollback_buffer := rb_add_block init_point [] (wk_rollback_buffer w)\<rparr> else w);
                  w = w\<lparr>wk_last_processed := Some point,
                        wk_rollback_buffer := rb_add_block point inverse_ops (wk_rollback_buffer w)\<rparr>
              in record_commit E point mempool commit_ts w)))
      in case committed of
           (Inl e, w) \<Rightarrow> Some (Inl e, w)
         | (Inr _, w) \<Rightarrow>
             map_option (\<lambda>r. wbind r (\<lambda>_ w. (Inr (), w)))
               (garbage_collect_rollback_metadata E (pt_height point) w))"

text \<open>One transaction per block, newest first; the timestamp of the last one is kept.\<close>

fun undo_blocks ::
  "'t WorkerEnv \<Rightarrow> StorageActions PointWithResult list \<Rightarrow> TiKVTimestamp option \<Rightarrow> 't Worker \<Rightarrow>
   ('t, TiKVTimestamp option) outcome" where
  "undo_blocks E [] ts w = (Inr ts, w)"
| "undo_blocks E (p # ps) ts w =
     wbind (wlift (apply_actions (we_tikv E) (rev (pr_result p)) False (wk_store w)) w) (\<lambda>(txn, _) w.
     wbind (commit_txn_or_rollback E txn w) (\<lambda>ts. undo_blocks E ps ts))"

definition with_policy :: "RuntimePolicy \<Rightarrow> Point + 'a \<Rightarrow> GasketError + 'a option" where
  "with_policy policy r =
     (case apply_policy (case r of Inl p \<Rightarrow> Inl (RollbackOutOfRange p) | Inr x \<Rightarrow> Inr x) policy of
        Inl _ \<Rightarrow> Inl WorkPanic | Inr x \<Rightarrow> Inr x)"

definition roll_back ::
  "'t WorkerEnv \<Rightarrow> StorageActionPayload \<Rightarrow> Point \<Rightarrow> 't Worker \<Rightarrow> ('t, unit) outcome option" where
  "roll_back E payload point w =
     (let w = w\<lparr>wk_work_unit_2pc := Some payload\<rparr> in
      case with_policy (we_policy E) (rb_points_since (wk_rollback_buffer w) point) of
        Inl e \<Rightarrow> Some (Inl e, w)
      | Inr None \<Rightarrow> Some (Inl RustPanic, w)
      | Inr (Some points) \<Rightarrow>
        (case wbind (undo_blocks E points None w) (\<lambda>ts w. record_commit E point False ts w) of
           (Inl e, w) \<Rightarrow> Some (Inl e, w)
         | (Inr _, w) \<Rightarrow>
           (case trim_persistent_rollback_metadata E (pt_height point) w of None \<Rightarrow> None
            | Some r \<Rightarrow> Some (wbind r (\<lambda>_ w.
                let w = w\<lparr>wk_work_unit_2pc := None, wk_last_processed := Some point\<rparr> in
                case rb_rollback_to_point point (wk_rollback_buffer w) of
                  Inr (_, b) \<Rightarrow> (Inr (), w\<lparr>wk_rollback_buffer := b\<rparr>)
                | Inl p \<Rightarrow> (map_sum id (\<lambda>_. ()) (with_policy (we_policy E) (Inl p :: Point + unit)), w))))))"

definition execute :: "'t WorkerEnv \<Rightarrow> StorageActionPayload \<Rightarrow> 't Worker \<Rightarrow> ('t, unit) outcome option" where
  "execute E payload w =
     (case payload of
        RollForward point outputs mut mempool \<Rightarrow>
          (let w = w\<lparr>wk_mutable := (wk_mutable w \<or> mut)\<rparr> in
           case block_storage_ops (we_ns E) outputs of None \<Rightarrow> Some (Inl RustPanic, w)
           | Some ops \<Rightarrow>
             if \<not> wk_mutable w then Some (roll_forward_bulk E payload point ops w)
             else roll_forward_mutable E payload point ops mempool w)
      | RollBack point mut \<Rightarrow>
          roll_back E payload point (w\<lparr>wk_mutable := (wk_mutable w \<or> mut)\<rparr>))"

text \<open>The unit that failed is scheduled again; otherwise the next message.\<close>

definition schedule :: "'t Worker \<Rightarrow> StorageActionPayload option \<Rightarrow> StorageActionPayload option" where
  "schedule w msg = (case wk_work_unit_2pc w of Some u \<Rightarrow> Some u | None \<Rightarrow> msg)"

section \<open>Start-up\<close>

text \<open>The entries under a key of Redis, from the writes that reached it.\<close>

definition redis_entries :: "string \<Rightarrow> RedisWrite list \<Rightarrow> PolyRedisEntry list" where
  "redis_entries key log =
     concat (map (\<lambda>c. case c of ZaddEntry k e _ \<Rightarrow> if k = key then [e] else [] | _ \<Rightarrow> []) log)"

definition current_timestamp :: "'t WorkerEnv \<Rightarrow> 't Worker \<Rightarrow> ('t, TiKVTimestamp) outcome" where
  "current_timestamp E w =
     (let w' = w\<lparr>wk_calls := Suc (wk_calls w)\<rparr> in
      case we_now E (wk_calls w) of None \<Rightarrow> (Inl Restart, w') | Some ts \<Rightarrow> (Inr ts, w'))"

definition decode_point :: "(u64 \<times> bytes) decoder" where
  "decode_point = decode_pair decode_int (decode_array 32)"

definition repair_redis ::
  "'t WorkerEnv \<Rightarrow> TiKVTimestamp \<Rightarrow> u64 \<Rightarrow> bytes \<Rightarrow> bytes \<Rightarrow> 't Worker \<Rightarrow> ('t, unit) outcome" where
  "repair_redis E ts height hash rem_bytes w =
     wbind (external_call E w) (\<lambda>_ w.
     let entries = redis_entries (timestamps_key (we_ns E)) (wk_redis w) in
     if entries \<noteq> [] \<and> \<not> list_ex (\<lambda>r. pe_height r = height \<and> pe_block_hash r = hash) entries \<and>
        rem_bytes \<noteq> [] then
       (case decode_bool rem_bytes of Inl _ \<Rightarrow> (Inl RustPanic, w)
        | Inr (was_mempool, _) \<Rightarrow>
          wbind (redis_write E (ZaddEntry (timestamps_key (we_ns E))
            \<lparr>pe_height = height, pe_block_hash = hash, pe_was_mempool = was_mempool,
             pe_commit_ts = ts, pe_network = we_network E\<rparr> (ts_physical ts)) w) (\<lambda>_.
          index_timestamps_key E (ts_physical ts)))
     else (Inr (), w))"

definition bootstrap :: "'t WorkerEnv \<Rightarrow> 't Worker \<Rightarrow> ('t, unit) outcome" where
  "bootstrap E w =
     wbind (current_timestamp E w) (\<lambda>ts w.
     wbind (if unwrap_or (we_cleanup_locks E) True then external_call E w else (Inr (), w)) (\<lambda>_ w.
     case tk_get (we_tikv E) (wk_store w) (prefix_cursor (we_ns E)) of
       None \<Rightarrow> (Inr (), w)
     | Some cursor_bytes \<Rightarrow>
       (case decode_point cursor_bytes of Inl _ \<Rightarrow> (Inl RustPanic, w)
        | Inr ((height, hash), rem_bytes) \<Rightarrow> repair_redis E ts height hash rem_bytes w)))"

definition last_point :: "'t Tikv \<Rightarrow> Namespace \<Rightarrow> 't \<Rightarrow> Point option option" where
  "last_point T n t =
     (case tk_get T t (prefix_cursor n) of None \<Rightarrow> Some None
      | Some x \<Rightarrow> (case decode_point x of Inl _ \<Rightarrow> None
          | Inr ((height, hash), _) \<Rightarrow> Some (Some \<lparr>pt_height = height, pt_hash = hash\<rparr>)))"

section \<open>The persistent rollback buffer\<close>

datatype ScanOutcome = ScanOk | ScanTooLarge | ScanError

partial_function (option) scan_metadata ::
  "'t Tikv \<Rightarrow> 't \<Rightarrow> (nat \<Rightarrow> ScanOutcome) \<Rightarrow> nat \<Rightarrow> key_range \<Rightarrow> nat \<Rightarrow> (bytes \<times> bytes) list \<Rightarrow>
   (string + (bytes \<times> bytes) list) option" where
  "scan_metadata T t outcome i r scan_size kvs =
     (case outcome i of
        ScanError \<Rightarrow> Some (Inl ''storage'')
      | ScanTooLarge \<Rightarrow> scan_metadata T t outcome (Suc i) r (scan_size div 2) kvs
      | ScanOk \<Rightarrow>
        (let kvs_vec = tk_scan T t r scan_size in
         if kvs_vec = [] then Some (Inr kvs)
         else scan_metadata T t outcome (Suc i) (fst (last kvs_vec) @ [0], snd r) scan_size (kvs @ kvs_vec)))"

record PersistentBufferValue =
  pb_point :: Point
  pb_inverse_actions :: StorageActions

text \<open>The accumulators of the loop over the pairs: the point, its actions and the finished points.\<close>

fun group_metadata ::
  "(bytes \<times> bytes) list \<Rightarrow> Point \<Rightarrow> StorageActions \<Rightarrow> PersistentBufferValue list \<Rightarrow>
   PersistentBufferValue list option" where
  "group_metadata [] current actions buf =
     Some (if pt_height current \<noteq> 0 then buf @ [\<lparr>pb_point = current, pb_inverse_actions = actions\<rparr>] else buf)"
| "group_metadata ((k, v) # kvs) current actions buf =
     (case metadata_of_key k of None \<Rightarrow> None
      | Some mk \<Rightarrow>
        let action = (if v = [] then Delete (mk_modified_key mk) else Set (mk_modified_key mk) v) in
        if mk_height mk \<noteq> pt_height current then
          group_metadata kvs \<lparr>pt_height = mk_height mk, pt_hash = mk_hash mk\<rparr> [action]
            (if pt_height current \<noteq> 0 then buf @ [\<lparr>pb_point = current, pb_inverse_actions = actions\<rparr>] else buf)
        else group_metadata kvs current (actions @ [action]) buf)"

definition origin_point :: Point where
  "origin_point = \<lparr>pt_height = 0, pt_hash = replicate 32 0\<rparr>"

definition fetch_persistent_buffer ::
  "'t Tikv \<Rightarrow> Namespace \<Rightarrow> (nat \<Rightarrow> ScanOutcome) \<Rightarrow> 't \<Rightarrow>
   (string + PersistentBufferValue list option option) option" where
  "fetch_persistent_buffer T n outcome t =
     map_option (map_sum id (\<lambda>kvs.
         map_option (\<lambda>buf. if buf = [] then None else Some buf) (group_metadata kvs origin_point [] [])))
       (scan_metadata T t outcome 0
         (rollback_metadata_key_range encode_int encode_int n (None :: u64 option) (None :: u64 option)) 2000 [])"

definition spawn_worker ::
  "'t \<Rightarrow> nat option \<Rightarrow> nat option \<Rightarrow> Point option \<Rightarrow> PersistentBufferValue list option \<Rightarrow> nat \<Rightarrow> 't Worker" where
  "spawn_worker t sync_batch_size raft_entry_max_size intersect buf buffer_size =
     \<lparr>wk_store = t, wk_calls = 0, wk_redis = [],
      wk_sync_batcher = sb_new (unwrap_or sync_batch_size 1) (unwrap_or raft_entry_max_size 4000000),
      wk_rollback_buffer = fold (\<lambda>e. rb_add_block (pb_point e) (pb_inverse_actions e)) (unwrap_or buf [])
        (rb_new buffer_size),
      wk_mutable = False, wk_work_unit_2pc = None, wk_last_processed = intersect, wk_registered = False\<rparr>"

section \<open>Calls that leave the core of the state alone\<close>

definition same_core :: "'t Worker \<Rightarrow> 't Worker \<Rightarrow> bool" where
  "same_core w w' \<longleftrightarrow> wk_store w' = wk_store w \<and> wk_sync_batcher w' = wk_sync_batcher w \<and>
     wk_rollback_buffer w' = wk_rollback_buffer w \<and> wk_mutable w' = wk_mutable w \<and>
     wk_work_unit_2pc w' = wk_work_unit_2pc w \<and> wk_last_processed w' = wk_last_processed w"

lemma same_core_refl [simp]: "same_core w w"
  by (simp add: same_core_def)

lemma same_core_registered [simp]: "same_core w (w\<lparr>wk_registered := b\<rparr>)"
  by (simp add: same_core_def)

lemma same_core_trans: "same_core w w' \<Longrightarrow> same_core w' w'' \<Longrightarrow> same_core w w''"
  by (simp add: same_core_def)

lemma wbind_snd:
  assumes "same_core w (snd r)" "\<And>x v. r = (Inr x, v) \<Longrightarrow> same_core v (snd (f x v))"
  shows "same_core w (snd (wbind r f))"
  using assms by (cases r; cases "fst r") (auto simp: wbind_def intro: same_core_trans)

lemma wbind_Inr: "wbind r f = (Inr y, v) \<longleftrightarrow> (\<exists>x u. r = (Inr x, u) \<and> f x u = (Inr y, v))"
  by (cases r; cases "fst r") (auto simp: wbind_def)

lemma wbind_Inl:
  "wbind r f = (Inl e, v) \<longleftrightarrow> r = (Inl e, v) \<or> (\<exists>x u. r = (Inr x, u) \<and> f x u = (Inl e, v))"
  by (cases r; cases "fst r") (auto simp: wbind_def)

lemma external_core: "same_core w (snd (external_call E w))"
  by (simp add: external_call_def same_core_def Let_def)

lemma redis_core: "same_core w (snd (redis_write E c w))"
  unfolding redis_write_def
  by (rule wbind_snd) (simp_all add: external_core, simp add: same_core_def)

lemma write_scores_core: "same_core w (snd (write_scores E h names w))"
  by (induction names arbitrary: w) (auto intro: wbind_snd redis_core)

lemma advertise_core: "same_core w (snd (maybe_advertise E h w))"
  unfolding maybe_advertise_def update_registry_scores_def
  by (auto intro!: wbind_snd write_scores_core)

lemma record_commit_core: "same_core w (snd (record_commit E p m ts w))"
  unfolding record_commit_def index_timestamps_key_def
  by (cases ts) (auto intro!: wbind_snd redis_core external_core advertise_core)

lemma timestamp_core: "same_core w (snd (current_timestamp E w))"
  by (simp add: current_timestamp_def same_core_def Let_def split: option.splits)

lemma repair_core: "same_core w (snd (repair_redis E ts h hs r w))"
  unfolding repair_redis_def index_timestamps_key_def Let_def
  by (rule wbind_snd)
    (auto intro!: wbind_snd redis_core external_core split: sum.splits)

lemma bootstrap_core: "same_core w (snd (bootstrap E w))"
  unfolding bootstrap_def
  by (rule wbind_snd)
    (auto intro!: wbind_snd external_core timestamp_core repair_core split: sum.splits option.splits)

section \<open>The data seen through the deletion loops\<close>

definition data_view :: "Namespace \<Rightarrow> kv_map \<Rightarrow> kv_map" where
  "data_view n f = (\<lambda>k. if is_rollback_key n k then None else f k)"

abbreviation wk_data :: "'t WorkerEnv \<Rightarrow> 't Worker \<Rightarrow> kv_map" where
  "wk_data E w \<equiv> data_view (we_ns E) (tk_get (we_tikv E) (wk_store w))"

lemma data_view_upd: "data_view n (f(k := v)) = (if is_rollback_key n k then data_view n f else (data_view n f)(k := v))"
  by (auto simp: data_view_def fun_eq_iff)

text \<open>What the deletion loops keep: everything but the store, and of the store all data.\<close>

definition same_but_metadata :: "'t WorkerEnv \<Rightarrow> 't Worker \<Rightarrow> 't Worker \<Rightarrow> bool" where
  "same_but_metadata E w w' \<longleftrightarrow> wk_data E w' = wk_data E w \<and> same_core (w\<lparr>wk_store := wk_store w'\<rparr>) w'"

lemma same_but_metadata_refl [simp]: "same_but_metadata E w w"
  by (simp add: same_but_metadata_def)

lemma same_but_metadata_trans:
  "same_but_metadata E w w' \<Longrightarrow> same_but_metadata E w' w'' \<Longrightarrow> same_but_metadata E w w''"
  by (simp add: same_but_metadata_def same_core_def)

lemma commit_metadata:
  assumes "data_view (we_ns E) (tk_get (we_tikv E) txn) = wk_data E w"
  shows "same_but_metadata E w (snd (commit_txn_or_rollback E txn w))"
  using assms
  by (auto simp: commit_txn_or_rollback_def same_but_metadata_def same_core_def Let_def
      split: CommitOutcome.splits)

lemma delete_keys_metadata:
  assumes "tikv_rw_laws (we_tikv E)" "\<forall>k\<in>set ks. is_rollback_key (we_ns E) k"
    "data_view (we_ns E) (tk_get (we_tikv E) txn) = wk_data E w"
    "delete_metadata_keys E ks ch d txn w = (r, w')"
  shows "same_but_metadata E w w' \<and>
    (\<forall>ch' d' txn'. r = Inr (ch', d', txn') \<longrightarrow> data_view (we_ns E) (tk_get (we_tikv E) txn') = wk_data E w')"
  using assms(2-)
proof (induction ks arbitrary: ch d txn w)
  case (Cons k ks)
  let ?T = "we_tikv E"
  note del = tk_get_delete [OF assms(1)]
  show ?case
  proof (cases "metadata_of_key k")
    case None
    then show ?thesis using Cons.prems by auto
  next
    case (Some mk)
    have step: ?thesis if same: "same_but_metadata E w v" and dv: "data_view (we_ns E) (tk_get ?T u) = wk_data E v"
      and run: "delete_metadata_keys E ks (Some (mk_height mk)) (Suc d) (tk_delete ?T k u) v = (r, w')" for u v
    proof -
      have "data_view (we_ns E) (tk_get ?T (tk_delete ?T k u)) = wk_data E v"
        using dv Cons.prems(1) by (simp add: del data_view_upd)
      from Cons.IH [OF _ this run] Cons.prems(1) show ?thesis
        using same_but_metadata_trans [OF same] by auto
    qed
    show ?thesis
    proof (cases "\<exists>c. ch = Some c \<and> c \<noteq> mk_height mk")
      case True
      then obtain c where c: "ch = Some c" "c \<noteq> mk_height mk" by blast
      have same: "same_but_metadata E w (snd (commit_txn_or_rollback E txn w))"
        by (rule commit_metadata [OF Cons.prems(2)])
      show ?thesis
      proof (cases "commit_txn_or_rollback E txn w")
        case (Pair o1 v)
        then show ?thesis
          using Cons.prems(3) same step [of v "wk_store v"] Some c by (cases o1) (auto simp: wbind_def)
      qed
    next
      case False
      then have "delete_metadata_keys E ks (Some (mk_height mk)) (Suc d) (tk_delete ?T k txn) w = (r, w')"
        using Cons.prems(3) Some by (cases ch) (auto simp: wbind_def)
      from step [OF same_but_metadata_refl Cons.prems(2) this] show ?thesis .
    qed
  qed
qed auto

lemma delete_loop_metadata:
  assumes "delete_metadata_loop E scan ch d txn w = Some y"
    "tikv_rw_laws (we_tikv E)" "\<forall>t. \<forall>k\<in>set (scan t). is_rollback_key (we_ns E) k"
    "data_view (we_ns E) (tk_get (we_tikv E) txn) = wk_data E w"
  shows "same_but_metadata E w (snd y)"
proof -
  let ?P = "\<lambda>E scan ch d txn w y. tikv_rw_laws (we_tikv E) \<longrightarrow>
    (\<forall>t. \<forall>k\<in>set (scan t). is_rollback_key (we_ns E) k) \<longrightarrow>
    data_view (we_ns E) (tk_get (we_tikv E) txn) = wk_data E w \<longrightarrow> same_but_metadata E w (snd y)"
  have "?P E scan ch d txn w y"
  proof (rule delete_metadata_loop.raw_induct [where P = ?P, OF _ assms(1)], intro impI)
    fix loop and E :: "'a WorkerEnv" and scan ch d txn w and y :: "('a, nat) outcome"
    assume ih: "\<And>E scan ch d txn w y. loop E scan ch d txn w = Some y \<Longrightarrow> ?P E scan ch d txn w y"
      and body: "(if scan txn = [] then Some (wbind (commit_txn_or_rollback E txn w) (\<lambda>_ w. (Inr d, w)))
        else case delete_metadata_keys E (scan txn) ch d txn w of
            (Inl e, w) \<Rightarrow> Some (Inl e, w)
          | (Inr (ch, d, txn), w) \<Rightarrow> loop E scan ch d txn w) = Some y"
      and laws: "tikv_rw_laws (we_tikv E)" and keys: "\<forall>t. \<forall>k\<in>set (scan t). is_rollback_key (we_ns E) k"
      and dv: "data_view (we_ns E) (tk_get (we_tikv E) txn) = wk_data E w"
    show "same_but_metadata E w (snd y)"
    proof (cases "scan txn = []")
      case True
      obtain o1 v where c: "commit_txn_or_rollback E txn w = (o1, v)" by (cases "commit_txn_or_rollback E txn w")
      then have "snd y = v" using body True by (cases o1) (auto simp: wbind_def)
      then show ?thesis using commit_metadata [OF dv] c by simp
    next
      case False
      obtain o1 v where c: "delete_metadata_keys E (scan txn) ch d txn w = (o1, v)"
        by (cases "delete_metadata_keys E (scan txn) ch d txn w")
      note step = delete_keys_metadata [OF laws spec [OF keys] dv c]
      show ?thesis
      proof (cases o1)
        case (Inl e)
        then show ?thesis using body False c step by auto
      next
        case (Inr x)
        obtain ch' d' txn' where x: "x = (ch', d', txn')" by (cases x)
        have "loop E scan ch' d' txn' v = Some y" using body False c Inr x by simp
        from ih [OF this] step laws keys Inr x show ?thesis by (auto intro: same_but_metadata_trans)
      qed
    qed
  qed
  then show ?thesis using assms(2-4) by simp
qed

lemma rollback_range_keys:
  "in_range (rollback_metadata_key_range ea eb n lo up) k \<Longrightarrow> is_rollback_key n k"
  using in_break_range_prefix
  by (fastforce simp: rollback_range_break is_rollback_key_def)

lemma scan_keys_in_range:
  assumes "tikv_scan_laws T"
  shows "\<forall>k\<in>set (tk_scan_keys T t r n). in_range r k" "\<forall>k\<in>set (tk_scan_keys_reverse T t r n). in_range r k"
proof -
  have "finite {k. tk_get T t k \<noteq> None}" using assms by (simp add: tikv_scan_laws_def)
  then have "finite (live_keys T t r)" by (rule rev_finite_subset) (auto simp: live_keys_def)
  then have s: "set (sorted_list_of_set (live_keys T t r)) = live_keys T t r" by simp
  then have "set (tk_scan_keys T t r n) \<subseteq> live_keys T t r"
    "set (tk_scan_keys_reverse T t r n) \<subseteq> live_keys T t r"
    using assms by (cases r; auto simp: tikv_scan_laws_def dest!: in_set_takeD)+
  then show "\<forall>k\<in>set (tk_scan_keys T t r n). in_range r k" "\<forall>k\<in>set (tk_scan_keys_reverse T t r n). in_range r k"
    by (auto simp: live_keys_def)
qed

definition client_laws :: "'t WorkerEnv \<Rightarrow> bool" where
  "client_laws E \<longleftrightarrow> tikv_rw_laws (we_tikv E) \<and> tikv_scan_laws (we_tikv E)"

lemma range_scans_metadata:
  assumes "client_laws E"
  shows "\<forall>t. \<forall>k\<in>set (tk_scan_keys (we_tikv E) t (rollback_metadata_key_range ea eb (we_ns E) lo up) m).
      is_rollback_key (we_ns E) k"
    "\<forall>t. \<forall>k\<in>set (tk_scan_keys_reverse (we_tikv E) t (rollback_metadata_key_range ea eb (we_ns E) lo up) m).
      is_rollback_key (we_ns E) k"
  using assms scan_keys_in_range [of "we_tikv E"] rollback_range_keys unfolding client_laws_def by meson+

lemma gc_keeps_data:
  assumes "client_laws E" "garbage_collect_rollback_metadata E h w = Some y"
  shows "same_but_metadata E w (snd y)"
proof (cases "word_of_nat (we_buffer_size E) \<le> h")
  case True
  with assms(2) have "delete_metadata_loop E (\<lambda>t. tk_scan_keys (we_tikv E) t
      (rollback_metadata_key_range encode_int encode_int (we_ns E) (None :: u64 option)
        (Some (h - word_of_nat (we_buffer_size E)))) 1000) None 0 (wk_store w) w = Some y"
    by (simp add: garbage_collect_rollback_metadata_def Let_def)
  from delete_loop_metadata [OF this _ range_scans_metadata(1) [OF assms(1)] refl] show ?thesis
    using assms(1) by (simp add: client_laws_def)
next
  case False
  then show ?thesis using assms(2) by (auto simp: garbage_collect_rollback_metadata_def)
qed

lemma trim_keeps_data:
  assumes "client_laws E" "trim_persistent_rollback_metadata E h w = Some y"
  shows "same_but_metadata E w (snd y)"
proof -
  from assms(2) have "delete_metadata_loop E (\<lambda>t. tk_scan_keys_reverse (we_tikv E) t
      (rollback_metadata_key_range encode_int encode_int (we_ns E) (Some (h + 1)) (None :: u64 option)) 1000)
      None 0 (wk_store w) w = Some y"
    by (simp add: trim_persistent_rollback_metadata_def Let_def)
  from delete_loop_metadata [OF this _ range_scans_metadata(2) [OF assms(1)] refl] show ?thesis
    using assms(1) by (simp add: client_laws_def)
qed

end
