(* ===== verification/Worker_Recovery.thy ===== *)
theory Worker_Recovery
  imports Tikv_Worker
begin

text \<open>
  What the storage stage guarantees in the mutable window across rollbacks and failures. The
  specification is the history of the chain: for every block, newest first, its point and the
  data after it. The stage is run as a step relation: a unit is taken from the queue, or the unit
  kept from a failed attempt is executed again. From a worker in mutable mode with an empty
  batcher on, whatever transactions, Redis calls and lock cleanups fail in between, every block
  is applied once and every rollback restores the data of its point, provided that a commit that
  reports an error has written nothing (\<open>definite_commits\<close>). Two lemmas show that the provisos
  are needed: a block whose commit was applied although it reported an error is applied again
  (\<open>undetermined_commit_applied_again\<close>), and in bulk mode a failed announcement loses a block
  (\<open>bulk_advertise_failure_loses_block\<close>). Rollbacks need no proviso about commits.
\<close>

section \<open>Actions that only write\<close>

definition writes_only :: "StorageActions \<Rightarrow> bool" where
  "writes_only as \<longleftrightarrow> (\<forall>a\<in>set as. \<not> requires_previous_value a)"

fun written_value :: "StorageAction \<Rightarrow> bytes option" where
  "written_value (Set _ v) = Some v"
| "written_value _ = None"

definition writes :: "StorageActions \<Rightarrow> kv_map \<Rightarrow> kv_map" where
  "writes as f = fold (\<lambda>a f. f(action_key a := written_value a)) as f"

lemma writes_simps [simp]:
  "writes [] f = f" "writes (a # as) f = writes as (f(action_key a := written_value a))"
  "writes (as @ bs) f = writes bs (writes as f)"
  by (simp_all add: writes_def)

lemma writes_only_simps [simp]:
  "writes_only []" "writes_only (a # as) \<longleftrightarrow> \<not> requires_previous_value a \<and> writes_only as"
  "writes_only (as @ bs) \<longleftrightarrow> writes_only as \<and> writes_only bs" "writes_only (rev as) \<longleftrightarrow> writes_only as"
  by (auto simp: writes_only_def)

lemma run_writes: "writes_only as \<Longrightarrow> run_vals op_value as f = Inr (writes as f)"
proof (induction as arbitrary: f)
  case (Cons a as)
  then show ?case by (cases a) (simp_all add: op_value_def)
qed simp

lemma writes_frame: "k \<notin> action_key ` set as \<Longrightarrow> writes as f k = f k"
  by (induction as arbitrary: f) auto

lemma writes_agree:
  "(\<And>k. k \<notin> action_key ` set as \<Longrightarrow> f k = g k) \<Longrightarrow> writes as f = writes as g"
proof (induction as arbitrary: f g)
  case (Cons a as)
  have "writes as (f(action_key a := written_value a)) = writes as (g(action_key a := written_value a))"
    using Cons.prems by (intro Cons.IH) auto
  then show ?case by simp
qed (auto simp: fun_eq_iff)

text \<open>Writing a list again after a part of it has been written gives what writing it once gives.\<close>

lemma writes_resume:
  assumes "set bs \<subseteq> set as"
  shows "writes as (writes bs f) = writes as f"
  using assms by (intro writes_agree writes_frame) auto

lemma data_view_writes:
  "(\<And>a. a \<in> set as \<Longrightarrow> \<not> is_rollback_key n (action_key a)) \<Longrightarrow>
   data_view n (writes as f) = writes as (data_view n f)"
  by (induction as arbitrary: f) (simp_all add: data_view_upd)

lemma data_view_run:
  assumes "\<And>a. a \<in> set as \<Longrightarrow> \<not> is_rollback_key n (action_key a)" "run_vals val as f = Inr g"
  shows "run_vals val as (data_view n f) = Inr (data_view n g)"
  using assms
proof (induction as arbitrary: f)
  case (Cons a as)
  then have k: "data_view n f (action_key a) = f (action_key a)" by (simp add: data_view_def)
  from Cons.prems(2) obtain v where v: "val a (f (action_key a)) = Inr v"
    and run: "run_vals val as (f(action_key a := v)) = Inr g" by (auto simp: and_then_Inr_iff)
  have "\<not> is_rollback_key n (action_key a)" using Cons.prems(1) by simp
  moreover have "run_vals val as (data_view n (f(action_key a := v))) = Inr (data_view n g)"
    by (rule Cons.IH [OF _ run]) (simp add: Cons.prems(1))
  ultimately show ?case using v k by (simp add: data_view_upd)
qed simp

section \<open>Undoing blocks\<close>

definition undoable :: "Namespace \<Rightarrow> StorageActions \<Rightarrow> bool" where
  "undoable n as \<longleftrightarrow> writes_only as \<and> (\<forall>a\<in>set as. \<not> is_rollback_key n (action_key a))"

definition undo_ops :: "StorageActions PointWithResult list \<Rightarrow> StorageActions" where
  "undo_ops ps = concat (map (\<lambda>p. rev (pr_result p)) ps)"

lemma undo_ops_simps [simp]:
  "undo_ops [] = []" "undo_ops (p # ps) = rev (pr_result p) @ undo_ops ps"
  by (simp_all add: undo_ops_def)

lemma undo_ops_take: "set (undo_ops (take i ps)) \<subseteq> set (undo_ops ps)"
  by (auto simp: undo_ops_def dest: in_set_takeD)

lemma apply_writes:
  assumes "tikv_rw_laws T" "writes_only as"
  obtains t' where "apply_actions T as False t = Inr (t', None)" "tk_get T t' = writes as (tk_get T t)"
proof -
  have "stable_batch as" using assms(2) by (simp add: stable_batch_def writes_only_def)
  from apply_actions_plain [OF assms(1) this, of t] run_writes [OF assms(2), of "tk_get T t"] that
  show thesis by (cases "apply_actions T as False t") auto
qed

text \<open>Two workers that differ at most in the store, in call counts and in what was told to Redis.\<close>

definition same_buffers :: "'t Worker \<Rightarrow> 't Worker \<Rightarrow> bool" where
  "same_buffers w w' \<longleftrightarrow> same_core (w\<lparr>wk_store := wk_store w'\<rparr>) w'"

lemma same_buffers_iff:
  "same_buffers w w' \<longleftrightarrow> wk_sync_batcher w' = wk_sync_batcher w \<and>
     wk_rollback_buffer w' = wk_rollback_buffer w \<and> wk_mutable w' = wk_mutable w \<and>
     wk_work_unit_2pc w' = wk_work_unit_2pc w \<and> wk_last_processed w' = wk_last_processed w"
  by (simp add: same_buffers_def same_core_def)

lemma same_core_buffers: "same_core w w' \<Longrightarrow> same_buffers w w'"
  by (simp add: same_buffers_iff same_core_def)

text \<open>A commit that reports an error has not been applied.\<close>

definition definite_commits :: "'t WorkerEnv \<Rightarrow> bool" where
  "definite_commits E \<longleftrightarrow> (\<forall>n. we_commit E n \<noteq> CommitUndetermined)"

lemma commit_cases:
  "commit_txn_or_rollback E txn w = (r, w') \<Longrightarrow>
   same_buffers w w' \<and>
   (case r of
      Inl e \<Rightarrow> e = Restart \<and> (wk_store w' = wk_store w \<or> wk_store w' = txn \<and> \<not> definite_commits E)
    | Inr ts \<Rightarrow> wk_store w' = txn)"
  by (auto simp: commit_txn_or_rollback_def same_buffers_iff definite_commits_def Let_def
      split: CommitOutcome.splits)

lemma undo_blocks_view:
  assumes "tikv_rw_laws (we_tikv E)" "\<forall>p\<in>set ps. undoable (we_ns E) (pr_result p)"
    "undo_blocks E ps ts w = (r, w')"
  shows "same_buffers w w' \<and> (\<exists>i \<le> length ps.
      wk_data E w' = writes (undo_ops (take i ps)) (wk_data E w) \<and>
      (case r of Inl e \<Rightarrow> e = Restart | Inr _ \<Rightarrow> i = length ps))"
  using assms(2-)
proof (induction ps arbitrary: ts w)
  case Nil
  then show ?case by (auto simp: same_buffers_iff)
next
  case (Cons p ps)
  have undo: "writes_only (rev (pr_result p))" and keys: "\<And>a. a \<in> set (rev (pr_result p)) \<Longrightarrow>
      \<not> is_rollback_key (we_ns E) (action_key a)" using Cons.prems(1) by (auto simp: undoable_def)
  obtain t' where t': "apply_actions (we_tikv E) (rev (pr_result p)) False (wk_store w) = Inr (t', None)"
    and get: "tk_get (we_tikv E) t' = writes (rev (pr_result p)) (tk_get (we_tikv E) (wk_store w))"
    using apply_writes [OF assms(1) undo] by blast
  obtain o1 v where c: "commit_txn_or_rollback E t' w = (o1, v)" by (cases "commit_txn_or_rollback E t' w")
  show ?case
  proof (cases o1)
    case (Inl e)
    then have r: "r = Inl e" "w' = v" using Cons.prems(2) t' c by (auto simp: wbind_def wlift_def)
    have "wk_data E v = wk_data E w \<or> wk_data E v = writes (rev (pr_result p)) (wk_data E w)"
      using commit_cases [OF c] Inl get data_view_writes [of "rev (pr_result p)", OF keys] by auto
    then obtain i where "i \<le> 1" "wk_data E v = writes (undo_ops (take i (p # ps))) (wk_data E w)"
      using that [of 0] that [of 1] by auto
    then show ?thesis using commit_cases [OF c] Inl r by (auto intro: exI [of _ i])
  next
    case (Inr x)
    then have run: "undo_blocks E ps x v = (r, w')" using Cons.prems(2) t' c by (auto simp: wbind_def wlift_def)
    have data: "wk_data E v = writes (rev (pr_result p)) (wk_data E w)"
      using commit_cases [OF c] Inr get data_view_writes [of "rev (pr_result p)", OF keys] by simp
    from Cons.IH [OF _ run] Cons.prems(1) obtain i where
      "same_buffers v w'" "i \<le> length ps" "wk_data E w' = writes (undo_ops (take i ps)) (wk_data E v)"
      "case r of Inl e \<Rightarrow> e = Restart | Inr _ \<Rightarrow> i = length ps" by auto
    then show ?thesis using commit_cases [OF c] data
      by (auto simp: same_buffers_iff intro!: exI [of _ "Suc i"] split: sum.splits)
  qed
qed

lemma points_since_roll:
  "rb_points_since b p = Inr points \<Longrightarrow>
   rb_rollback_to_point p b = Inr (points, b\<lparr>rb_blocks := drop (length points) (rb_blocks b)\<rparr>) \<and>
   points = take (length points) (rb_blocks b) \<and> length points < length (rb_blocks b) \<and>
   pr_point (rb_blocks b ! length points) = p"
  using iter_position_Some [of "\<lambda>x. pr_point x = p" "rb_blocks b"]
  by (fastforce simp: rb_points_since_def rb_rollback_to_point_def rb_position_def split: option.splits)

text \<open>
  An attempt to roll back: on success all blocks are undone and the unit is released; otherwise
  some of them are undone, the unit and the buffer are kept.
\<close>

definition rolled :: "'t WorkerEnv \<Rightarrow> StorageActionPayload \<Rightarrow> Point \<Rightarrow>
  StorageActions PointWithResult list \<Rightarrow> 't Worker \<Rightarrow> 't Worker \<Rightarrow> bool" where
  "rolled E u p points w w' \<longleftrightarrow>
     wk_data E w' = writes (undo_ops points) (wk_data E w) \<and> wk_work_unit_2pc w' = None \<and>
     wk_last_processed w' = Some p \<and> wk_sync_batcher w' = wk_sync_batcher w \<and> wk_mutable w' = wk_mutable w \<and>
     wk_rollback_buffer w' = (wk_rollback_buffer w)
       \<lparr>rb_blocks := drop (length points) (rb_blocks (wk_rollback_buffer w))\<rparr>"

definition interrupted :: "'t WorkerEnv \<Rightarrow> StorageActionPayload \<Rightarrow>
  StorageActions PointWithResult list \<Rightarrow> 't Worker \<Rightarrow> 't Worker \<Rightarrow> bool" where
  "interrupted E u points w w' \<longleftrightarrow>
     (\<exists>i \<le> length points. wk_data E w' = writes (undo_ops (take i points)) (wk_data E w)) \<and>
     same_buffers (w\<lparr>wk_work_unit_2pc := Some u\<rparr>) w'"

lemma trim_cases:
  assumes "client_laws E" "trim_persistent_rollback_metadata E h w = Some (r, w')"
  shows "wk_data E w' = wk_data E w \<and> same_buffers w w'"
  using trim_keeps_data [OF assms] by (simp add: same_but_metadata_def same_buffers_def)

lemma record_commit_cases:
  "record_commit E p m ts w = (r, w') \<Longrightarrow> wk_data E w' = wk_data E w \<and> same_buffers w w'"
  using record_commit_core [of w E p m ts] by (auto simp: same_core_def same_buffers_iff)

lemma roll_back_cases:
  assumes laws: "client_laws E" and since: "rb_points_since (wk_rollback_buffer w) p = Inr points"
    and undo: "\<forall>b\<in>set points. undoable (we_ns E) (pr_result b)"
    and run: "roll_back E u p w = Some (r, w')"
  shows "case r of Inr _ \<Rightarrow> rolled E u p points w w' | Inl _ \<Rightarrow> interrupted E u points w w'"
proof -
  let ?w = "w\<lparr>wk_work_unit_2pc := Some u\<rparr>"
  have rw: "tikv_rw_laws (we_tikv E)" using laws by (simp add: client_laws_def)
  obtain o1 v where b: "undo_blocks E points None ?w = (o1, v)" by (cases "undo_blocks E points None ?w")
  obtain i where v: "same_buffers ?w v" and i: "i \<le> length points"
    "wk_data E v = writes (undo_ops (take i points)) (wk_data E w)"
    "case o1 of Inl e \<Rightarrow> e = Restart | Inr _ \<Rightarrow> i = length points"
    using undo_blocks_view [OF rw undo b] by auto
  have start: "roll_back E u p w =
      (case wbind (o1, v) (record_commit E p False) of
         (Inl e, w) \<Rightarrow> Some (Inl e, w)
       | (Inr _, w) \<Rightarrow>
         (case trim_persistent_rollback_metadata E (pt_height p) w of None \<Rightarrow> None
          | Some r \<Rightarrow> Some (wbind r (\<lambda>_ w.
              let w = w\<lparr>wk_work_unit_2pc := None, wk_last_processed := Some p\<rparr> in
              case rb_rollback_to_point p (wk_rollback_buffer w) of
                Inr (_, b) \<Rightarrow> (Inr (), w\<lparr>wk_rollback_buffer := b\<rparr>)
              | Inl p \<Rightarrow> (map_sum id (\<lambda>_. ()) (with_policy (we_policy E) (Inl p :: Point + unit)), w)))))"
    using since b by (simp add: roll_back_def with_policy_def apply_policy_def Let_def)
  show ?thesis
  proof (cases o1)
    case (Inl e)
    then show ?thesis using run start v i by (auto simp: wbind_def interrupted_def)
  next
    case (Inr ts)
    obtain o2 v2 where c: "record_commit E p False ts v = (o2, v2)" by (cases "record_commit E p False ts v")
    note c' = record_commit_cases [OF c]
    show ?thesis
    proof (cases o2)
      case (Inl e)
      then show ?thesis using run start v i c c' Inr
        by (auto simp: wbind_def interrupted_def same_buffers_iff intro!: exI [of _ "length points"])
    next
      case i2: (Inr x)
      obtain o3 v3 where t: "trim_persistent_rollback_metadata E (pt_height p) v2 = Some (o3, v3)"
        using run start c Inr i2 by (auto simp: wbind_def split: option.splits)
      note t' = trim_cases [OF laws t]
      show ?thesis
      proof (cases o3)
        case (Inl e)
        then show ?thesis using run start v i c c' t t' Inr i2
          by (auto simp: wbind_def interrupted_def same_buffers_iff intro!: exI [of _ "length points"])
      next
        case i3: (Inr y)
        show ?thesis using run start v i c c' t t' Inr i2 i3 points_since_roll [OF since]
          by (auto simp: wbind_def rolled_def same_buffers_iff Let_def)
      qed
    qed
  qed
qed

section \<open>The history of the chain\<close>

type_synonym chain_history = "(Point \<times> kv_map) list"

text \<open>The data after a block, from the data before it and the outputs of the reducers.\<close>

definition block_data :: "Namespace \<Rightarrow> ReducerOutput list \<Rightarrow> kv_map \<Rightarrow> kv_map option" where
  "block_data n outputs d =
     Option.bind (block_storage_ops n outputs) (\<lambda>ops.
     Option.bind (push_actions ops (sb_new 1 (2 ^ 64 - 1))) (\<lambda>merger.
     case run_vals op_value_inv (map snd (batch_actions merger)) d of Inl _ \<Rightarrow> None | Inr d' \<Rightarrow> Some d'))"

fun chain_step :: "Namespace \<Rightarrow> StorageActionPayload \<Rightarrow> chain_history \<Rightarrow> chain_history option" where
  "chain_step n (RollForward p outputs _ _) h =
     (case h of [] \<Rightarrow> None | (_, d) # _ \<Rightarrow> map_option (\<lambda>d'. (p, d') # h) (block_data n outputs d))"
| "chain_step n (RollBack p _) h =
     (case dropWhile (\<lambda>b. fst b \<noteq> p) h of [] \<Rightarrow> None | h' \<Rightarrow> Some h')"

fun chain_run :: "Namespace \<Rightarrow> StorageActionPayload list \<Rightarrow> chain_history \<Rightarrow> chain_history option" where
  "chain_run n [] h = Some h"
| "chain_run n (u # us) h = Option.bind (chain_step n u h) (chain_run n us)"

lemma chain_run_snoc: "chain_run n (us @ [u]) h = Option.bind (chain_run n us h) (chain_step n u)"
  by (induction us arbitrary: h) (simp_all split: Option.bind_split)

text \<open>The buffer is a part of the history, and its inverse actions lead from block to block.\<close>

fun linked :: "Namespace \<Rightarrow> StorageActions PointWithResult list \<Rightarrow> chain_history \<Rightarrow> bool" where
  "linked n [] h \<longleftrightarrow> True"
| "linked n (b # bs) [] \<longleftrightarrow> False"
| "linked n (b # bs) (x # h) \<longleftrightarrow>
     fst x = pr_point b \<and> undoable n (pr_result b) \<and> linked n bs h \<and>
     (case h of [] \<Rightarrow> True | y # _ \<Rightarrow> writes (rev (pr_result b)) (snd x) = snd y)"

lemma linked_take: "linked n bs h \<Longrightarrow> linked n (take k bs) h"
  by (induction n bs h arbitrary: k rule: linked.induct) (auto simp: take_Cons split: nat.splits)

lemma linked_back:
  "linked n bs h \<Longrightarrow> iter_position (\<lambda>x. pr_point x = p) bs = Some i \<Longrightarrow>
   dropWhile (\<lambda>b. fst b \<noteq> p) h = drop i h \<and> drop i h \<noteq> [] \<and> linked n (drop i bs) (drop i h) \<and>
   writes (undo_ops (take i bs)) (snd (hd h)) = snd (hd (drop i h)) \<and>
   (\<forall>b\<in>set (take i bs). undoable n (pr_result b))"
proof (induction n bs h arbitrary: i rule: linked.induct)
  case (3 n b bs x h)
  show ?case
  proof (cases "pr_point b = p")
    case True
    then show ?thesis using 3 by auto
  next
    case False
    then obtain j where j: "iter_position (\<lambda>x. pr_point x = p) bs = Some j" "i = Suc j" using 3 by auto
    then obtain y h' where h: "h = y # h'" using 3 by (cases h; cases bs) auto
    from 3 j h False show ?thesis by auto
  qed
qed auto

text \<open>With an empty buffer the next block first enters the point before it, with nothing to undo.\<close>

definition seeded_buffer :: "'t Worker \<Rightarrow> StorageActions RollbackBuffer" where
  "seeded_buffer w =
     (if rb_is_empty (wk_rollback_buffer w)
      then rb_add_block (unwrap_or (wk_last_processed w) origin_point) [] (wk_rollback_buffer w)
      else wk_rollback_buffer w)"

definition skeleton :: "'t WorkerEnv \<Rightarrow> 't Worker \<Rightarrow> chain_history \<Rightarrow> bool" where
  "skeleton E w h \<longleftrightarrow> h \<noteq> [] \<and> linked (we_ns E) (rb_blocks (seeded_buffer w)) h \<and>
     0 < rb_size (wk_rollback_buffer w) \<and> sb_is_empty (wk_sync_batcher w) \<and> wk_mutable w"

definition tracks :: "'t WorkerEnv \<Rightarrow> 't Worker \<Rightarrow> chain_history \<Rightarrow> bool" where
  "tracks E w h \<longleftrightarrow> skeleton E w h \<and> wk_data E w = snd (hd h)"

text \<open>A rollback that may have been interrupted: data differ at most on the keys it undoes.\<close>

definition rolling :: "'t WorkerEnv \<Rightarrow> Point \<Rightarrow> 't Worker \<Rightarrow> chain_history \<Rightarrow> bool" where
  "rolling E p w h \<longleftrightarrow> skeleton E w h \<and> (\<exists>points. rb_points_since (wk_rollback_buffer w) p = Inr points \<and>
     (\<forall>k. k \<notin> action_key ` set (undo_ops points) \<longrightarrow> wk_data E w k = snd (hd h) k))"

lemma skeleton_buffers: "same_buffers w w' \<Longrightarrow> skeleton E w' h \<longleftrightarrow> skeleton E w h"
  by (simp add: skeleton_def same_buffers_iff seeded_buffer_def)

lemma skeleton_2pc [simp]: "skeleton E (w\<lparr>wk_work_unit_2pc := x\<rparr>) h \<longleftrightarrow> skeleton E w h"
  by (simp add: skeleton_def seeded_buffer_def)

lemma seeded_id: "rb_blocks (wk_rollback_buffer w) \<noteq> [] \<Longrightarrow> seeded_buffer w = wk_rollback_buffer w"
  by (simp add: seeded_buffer_def rb_is_empty_def)

lemma roll_back_step:
  assumes laws: "client_laws E" and roll: "rolling E p w h"
    and run: "roll_back E u p w = Some (r, w')"
  shows "case r of
      Inr _ \<Rightarrow> wk_work_unit_2pc w' = None \<and> (\<exists>h'. chain_step (we_ns E) (RollBack p m) h = Some h' \<and> tracks E w' h')
    | Inl _ \<Rightarrow> wk_work_unit_2pc w' = Some u \<and> rolling E p w' h"
proof -
  obtain points where since: "rb_points_since (wk_rollback_buffer w) p = Inr points"
    and sk: "skeleton E w h" and agree: "\<And>k. k \<notin> action_key ` set (undo_ops points) \<Longrightarrow> wk_data E w k = snd (hd h) k"
    using roll by (auto simp: rolling_def)
  obtain i where i: "iter_position (\<lambda>x. pr_point x = p) (rb_blocks (wk_rollback_buffer w)) = Some i"
    "points = take i (rb_blocks (wk_rollback_buffer w))"
    using since by (auto simp: rb_points_since_def rb_position_def split: option.splits)
  have ilt: "i < length (rb_blocks (wk_rollback_buffer w))" using iter_position_Some [OF i(1)] by simp
  note bk = linked_back [OF _ i(1), of "we_ns E" h]
  have lk: "linked (we_ns E) (rb_blocks (wk_rollback_buffer w)) h"
    using sk ilt seeded_id [of w] by (force simp: skeleton_def)
  have und: "\<forall>b\<in>set points. undoable (we_ns E) (pr_result b)" using bk [OF lk] i(2) by simp
  have same: "writes (undo_ops points) (wk_data E w) = writes (undo_ops points) (snd (hd h))"
    using agree by (rule writes_agree)
  note result = roll_back_cases [OF laws since und run]
  show ?thesis
  proof (cases r)
    case (Inl e)
    then obtain j where j: "wk_data E w' = writes (undo_ops (take j points)) (wk_data E w)"
      and sb: "same_buffers (w\<lparr>wk_work_unit_2pc := Some u\<rparr>) w'" using result by (auto simp: interrupted_def)
    have "wk_data E w' k = snd (hd h) k" if "k \<notin> action_key ` set (undo_ops points)" for k
      using agree [OF that] that undo_ops_take [of j points]
      by (simp add: j) (metis image_mono subset_iff writes_frame)
    moreover have "skeleton E w' h" using skeleton_buffers [OF sb] sk by simp
    ultimately show ?thesis using Inl sb since by (auto simp: rolling_def same_buffers_iff)
  next
    case (Inr x)
    then have "rolled E u p points w w'" using result by simp
    moreover have "length points = i" using ilt i(2) by simp
    ultimately show ?thesis using Inr sk bk [OF lk] same i(2) ilt seeded_id [of w']
      by (auto simp: rolled_def tracks_def skeleton_def split: list.splits)
  qed
qed

section \<open>Applying a block\<close>

lemma rb_key_is_rollback: "is_rollback_key n (prefix_rollback n mk)"
  by (simp add: is_rollback_key_def BREAK_def)

lemma write_rb_view:
  assumes "tikv_rw_laws T" "writes_only as"
  shows "\<exists>t'. write_rb_actions T n h hs i as t = Inr t' \<and> data_view n (tk_get T t') = data_view n (tk_get T t)"
  using assms(2)
proof (induction as arbitrary: i t)
  case (Cons a as)
  then have "writes_only as" by simp
  note ih = Cons.IH [OF this]
  have put: "data_view n (tk_get T (tk_put T (prefix_rollback n mk) v t)) = data_view n (tk_get T t)" for mk v
    by (simp add: tk_get_put [OF assms(1)] data_view_upd rb_key_is_rollback del: key_layout)
  have step: "\<exists>t'. write_rb_actions T n h hs (Suc i) as (tk_put T (prefix_rollback n mk) v t) = Inr t' \<and>
      data_view n (tk_get T t') = data_view n (tk_get T t)" for mk v
    using ih [of "Suc i" "tk_put T (prefix_rollback n mk) v t"] unfolding put .
  show ?case
  proof (cases a)
    case (Set k v)
    show ?thesis unfolding write_rb_actions.simps Let_def Set StorageAction.case by (rule step)
  next
    case (Delete k)
    show ?thesis unfolding write_rb_actions.simps Let_def Delete StorageAction.case by (rule step)
  qed (use Cons.prems in simp_all)
qed simp

lemma merged_keys:
  assumes "push_actions ops (sb_new l m) = Some b" "a \<in> set (map snd (batch_actions b))"
  shows "\<exists>o1 \<in> set ops. action_key o1 = action_key a"
proof -
  have inv: "batch_inv b ops" using batch_inv_push_actions [OF batch_inv_new assms(1)] by simp
  obtain k where ka: "(k, a) \<in> set (batch_actions b)" using assms(2) by auto
  then have "map_of (batch_actions b) k = Some a" "action_key a = k" using inv by (auto simp: batch_inv_def)
  moreover have "merged_action k ops = Some (map_of (batch_actions b) k)" using inv by (auto simp: batch_inv_def)
  ultimately have "merged_action k ops = Some (Some a)" "action_key a = k" by simp_all
  moreover from this have "filter (\<lambda>x. action_key x = k) ops \<noteq> []"
    by (auto simp: merged_action_def key_actions_def simp del: filter_empty_conv)
  ultimately show ?thesis by (auto simp: filter_empty_conv)
qed

definition fair_order :: "'t WorkerEnv \<Rightarrow> bool" where
  "fair_order E \<longleftrightarrow> (\<forall>as. mset (we_order E as) = mset as)"

text \<open>The transaction of a block: the data it leaves, and the inverse actions that lead back.\<close>

lemma block_txn_view:
  assumes rw: "tikv_rw_laws (we_tikv E)" and d: "distinct (map action_key as)"
    and keys: "\<And>a. a \<in> set as \<Longrightarrow> \<not> is_rollback_key (we_ns E) (action_key a)"
    and run: "block_txn E p as fm lp t = Inr (t', invs)"
  shows "undoable (we_ns E) invs \<and>
    run_vals op_value_inv as (data_view (we_ns E) (tk_get (we_tikv E) t)) =
      Inr (data_view (we_ns E) (tk_get (we_tikv E) t')) \<and>
    writes (rev invs) (data_view (we_ns E) (tk_get (we_tikv E) t')) = data_view (we_ns E) (tk_get (we_tikv E) t)"
proof -
  let ?dv = "\<lambda>t. data_view (we_ns E) (tk_get (we_tikv E) t)"
  obtain t1 r where a: "apply_actions (we_tikv E) as True t = Inr (t1, r)"
    using run by (auto simp: block_txn_def and_then_Inr_iff)
  obtain invs' where ops: "run_vals op_value_inv as (tk_get (we_tikv E) t) = Inr (tk_get (we_tikv E) t1)"
    "r = Some invs'" "undo_actions as (tk_get (we_tikv E) t) invs'"
    using apply_actions_inverse [OF rw d, of t] a by auto
  have kind: "writes_only invs'" "\<forall>a\<in>set invs'. \<not> is_rollback_key (we_ns E) (action_key a)"
    using undo_actions_kind [OF ops(3)] keys by (auto simp: writes_only_def) (metis imageE)
  obtain t2 where t2: "(case lp of
          Some p \<Rightarrow>
            if fm then apply_storage_rb_actions (we_tikv E) (we_ns E) [Delete []] (pt_height p) (pt_hash p) t1
            else Inr t1
        | None \<Rightarrow> Inr t1) = Inr t2" "?dv t2 = ?dv t1"
  proof -
    have "writes_only [Delete []]" by simp
    note w = write_rb_view [OF rw this, of "we_ns E"]
    show thesis
    proof (cases lp)
      case None
      then show thesis using that [of t1] by simp
    next
      case (Some q)
      obtain t2 where "apply_storage_rb_actions (we_tikv E) (we_ns E) [Delete []] (pt_height q) (pt_hash q) t1 = Inr t2"
        "?dv t2 = ?dv t1" using w [of "pt_height q" "pt_hash q" 0 t1] unfolding apply_storage_rb_actions_def by blast
      then show thesis using Some that [of "if fm then t2 else t1"] by (cases fm) simp_all
    qed
  qed
  obtain t3 where t3: "apply_storage_rb_actions (we_tikv E) (we_ns E) invs' (pt_height p) (pt_hash p) t2 = Inr t3"
    "?dv t3 = ?dv t2"
    using write_rb_view [OF rw kind(1)] unfolding apply_storage_rb_actions_def by metis
  have res: "t' = t3" "invs = invs'" using run a ops(2) t2(1) t3(1)
    by (auto simp: block_txn_def unwrap_or_def)
  have "run_vals op_value (rev invs') (tk_get (we_tikv E) t1) = Inr (tk_get (we_tikv E) t)"
    by (rule undo_actions_restore [OF ops(1,3)])
  then have "writes (rev invs') (tk_get (we_tikv E) t1) = tk_get (we_tikv E) t"
    using run_writes [of "rev invs'"] kind(1) by simp
  then have "writes (rev invs') (?dv t1) = ?dv t"
    using data_view_writes [of "rev invs'" "we_ns E"] kind(2) by (metis set_rev)
  then show ?thesis using data_view_run [OF keys ops(1)] kind res t2(2) t3(2) by (simp add: undoable_def)
qed

lemma tracks_buffers:
  "same_buffers w w' \<Longrightarrow> wk_data E w' = wk_data E w \<Longrightarrow> tracks E w' h \<longleftrightarrow> tracks E w h"
  by (simp add: tracks_def skeleton_buffers)

lemma tracks_2pc [simp]: "tracks E (w\<lparr>wk_work_unit_2pc := x\<rparr>) h \<longleftrightarrow> tracks E w h"
  by (simp add: tracks_def)

lemma gc_cases:
  assumes "client_laws E" "garbage_collect_rollback_metadata E h w = Some (r, w')"
  shows "wk_data E w' = wk_data E w \<and> same_buffers w w'"
  using gc_keeps_data [OF assms] by (simp add: same_but_metadata_def same_buffers_def)

text \<open>The state once the transaction of a block is committed.\<close>

definition committed_block :: "'t Worker \<Rightarrow> Point \<Rightarrow> StorageActions \<Rightarrow> 't Worker" where
  "committed_block w p invs = w\<lparr>wk_work_unit_2pc := None, wk_last_processed := Some p,
     wk_rollback_buffer := rb_add_block p invs (seeded_buffer w)\<rparr>"

lemma seeded_size [simp]: "rb_size (seeded_buffer w) = rb_size (wk_rollback_buffer w)"
  by (simp add: seeded_buffer_def rb_add_block_def)

lemma committed_tracks:
  assumes "tracks E w h" "undoable (we_ns E) invs" "same_buffers w v"
    "writes (rev invs) (wk_data E v) = wk_data E w"
  shows "tracks E (committed_block v p invs) ((p, wk_data E v) # h)"
proof -
  let ?b = "\<lparr>pr_point = p, pr_result = invs\<rparr>"
  obtain x h' where h: "h = x # h'" using assms(1) by (cases h) (auto simp: tracks_def skeleton_def)
  have sd: "seeded_buffer v = seeded_buffer w" using assms(3) by (simp add: seeded_buffer_def same_buffers_iff)
  have sz: "0 < rb_size (wk_rollback_buffer w)" using assms(1) by (simp add: tracks_def skeleton_def)
  let ?buf = "rb_add_block p invs (seeded_buffer w)"
  have ne: "rb_blocks ?buf \<noteq> []" using sz by (simp add: rb_add_block_def)
  have "linked (we_ns E) (?b # rb_blocks (seeded_buffer w)) ((p, wk_data E v) # h)"
    using assms h by (auto simp: tracks_def skeleton_def)
  from linked_take [OF this, of "rb_size (wk_rollback_buffer w)"]
  have "linked (we_ns E) (rb_blocks ?buf) ((p, wk_data E v) # h)" by (simp add: rb_add_block_def)
  then show ?thesis
    using assms ne sd sz seeded_id [of "committed_block v p invs"]
    by (simp add: tracks_def skeleton_def committed_block_def rb_add_block_def same_buffers_iff)
qed

lemma roll_forward_mutable_eq:
  assumes "tracks E w h"
  shows "roll_forward_mutable E u p ops mp w =
    (case (case push_actions ops (sb_new 1 (2 ^ 64 - 1)) of None \<Rightarrow> (Inl RustPanic, w\<lparr>wk_work_unit_2pc := Some u\<rparr>)
       | Some merger \<Rightarrow>
         wbind (wlift (block_txn E p (get_batch_actions (we_order E) merger) (rb_is_empty (wk_rollback_buffer w))
           (wk_last_processed w) (wk_store w)) (w\<lparr>wk_work_unit_2pc := Some u\<rparr>)) (\<lambda>(txn, invs) v.
         wbind (commit_txn_or_rollback E txn v) (\<lambda>ts v.
         record_commit E p mp ts (if rb_is_empty (wk_rollback_buffer w)
           then v\<lparr>wk_work_unit_2pc := None, wk_last_processed := Some p,
             wk_rollback_buffer := rb_add_block p invs (rb_add_block (unwrap_or (wk_last_processed v) origin_point) []
               (wk_rollback_buffer v))\<rparr>
           else v\<lparr>wk_work_unit_2pc := None,
             wk_last_processed := Some p, wk_rollback_buffer := rb_add_block p invs (wk_rollback_buffer v)\<rparr>)))) of
       (Inl e, w) \<Rightarrow> Some (Inl e, w)
     | (Inr _, w) \<Rightarrow> map_option (\<lambda>r. wbind r (\<lambda>_ w. (Inr (), w)))
         (garbage_collect_rollback_metadata E (pt_height p) w))"
proof -
  have "sb_is_empty (wk_sync_batcher w)" using assms by (auto simp: tracks_def skeleton_def)
  then show ?thesis
    by (cases "rb_is_empty (wk_rollback_buffer w)")
      (simp_all add: roll_forward_mutable_def Let_def wbind_def [of "(Inr (), _)"] origin_point_def
        cong: option.case_cong)
qed

lemma committed_block_eq:
  assumes "wk_rollback_buffer v = wk_rollback_buffer w"
  shows "(if rb_is_empty (wk_rollback_buffer w)
     then v\<lparr>wk_work_unit_2pc := None, wk_last_processed := Some p,
             wk_rollback_buffer := rb_add_block p invs (rb_add_block (unwrap_or (wk_last_processed v) origin_point) []
               (wk_rollback_buffer v))\<rparr>
     else v\<lparr>wk_work_unit_2pc := None,
       wk_last_processed := Some p, wk_rollback_buffer := rb_add_block p invs (wk_rollback_buffer v)\<rparr>) =
     committed_block v p invs"
  using assms by (simp add: committed_block_def seeded_buffer_def)

lemma merged_batch:
  assumes "fair_order E" "block_storage_ops (we_ns E) outs = Some ops"
    "push_actions ops (sb_new l m) = Some merger"
  shows "distinct (map action_key (get_batch_actions (we_order E) merger))"
    "a \<in> set (get_batch_actions (we_order E) merger) \<Longrightarrow> \<not> is_rollback_key (we_ns E) (action_key a)"
    "run_vals op_value_inv (get_batch_actions (we_order E) merger) d =
       run_vals op_value_inv (map snd (batch_actions merger)) d"
proof -
  let ?as = "map snd (batch_actions merger)"
  have perm: "mset (get_batch_actions (we_order E) merger) = mset ?as"
    using assms(1) by (simp add: fair_order_def get_batch_actions_def)
  have "batch_inv merger ops" using batch_inv_push_actions [OF batch_inv_new assms(3)] by simp
  then have d: "distinct (map action_key ?as)" by (rule batch_keys_distinct)
  then show d': "distinct (map action_key (get_batch_actions (we_order E) merger))"
    using perm by (metis mset_eq_imp_distinct_iff mset_map)
  show "\<not> is_rollback_key (we_ns E) (action_key a)" if "a \<in> set (get_batch_actions (we_order E) merger)"
    using merged_keys [OF assms(3), of a] block_keys_not_rollback [OF assms(2)] that
      mset_eq_setD [OF perm] by metis
  show "run_vals op_value_inv (get_batch_actions (we_order E) merger) d = run_vals op_value_inv ?as d"
    using inv_sem.run_perm [OF perm d'] .
qed

lemma forward_step:
  assumes laws: "client_laws E" "fair_order E" "definite_commits E" and tr: "tracks E w h"
    and ops: "block_storage_ops (we_ns E) outs = Some ops"
    and run: "roll_forward_mutable E u p ops mp w = Some (r, w')"
  shows "(r \<noteq> Inr () \<and> wk_work_unit_2pc w' = Some u \<and> tracks E w' h) \<or>
    (wk_work_unit_2pc w' = None \<and>
     (\<exists>h'. chain_step (we_ns E) (RollForward p outs m mp) h = Some h' \<and> tracks E w' h'))"
proof -
  let ?w = "w\<lparr>wk_work_unit_2pc := Some u\<rparr>"
  have rw: "tikv_rw_laws (we_tikv E)" using laws(1) by (simp add: client_laws_def)
  show ?thesis
  proof (cases "push_actions ops (sb_new 1 (2 ^ 64 - 1))")
    case None
    then show ?thesis using run tr by (auto simp: roll_forward_mutable_eq [OF tr])
  next
    case (Some merger)
    let ?as = "get_batch_actions (we_order E) merger"
    note mb = merged_batch [OF laws(2) ops Some]
    show ?thesis
    proof (cases "block_txn E p ?as (rb_is_empty (wk_rollback_buffer w)) (wk_last_processed w) (wk_store w)")
      case (Inl e)
      then show ?thesis using run tr Some by (auto simp: roll_forward_mutable_eq [OF tr] wbind_def wlift_def)
    next
      case (Inr x)
      obtain txn invs where x: "x = (txn, invs)" by (cases x)
      note bt = block_txn_view [OF rw mb(1,2) Inr [unfolded x]]
      obtain o1 v where c: "commit_txn_or_rollback E txn ?w = (o1, v)" by (cases "commit_txn_or_rollback E txn ?w")
      note c' = commit_cases [OF c]
      show ?thesis
      proof (cases o1)
        case il: (Inl e)
        then have "r = Inl e \<and> w' = v" using run Some Inr x c
          by (auto simp: roll_forward_mutable_eq [OF tr] wbind_def wlift_def)
        moreover have "tracks E v h" using c' il tr laws(3) tracks_buffers [of ?w v E h] by simp
        ultimately show ?thesis using c' il by (simp add: same_buffers_iff)
      next
        case ir: (Inr ts)
        have st: "wk_store v = txn" and sb: "same_buffers ?w v" using c' ir by simp_all
        have tr1: "tracks E (committed_block v p invs) ((p, wk_data E v) # h)"
          using committed_tracks [of E ?w h invs v p] tr bt sb st by simp
        have blk: "block_data (we_ns E) outs (wk_data E w) = Some (wk_data E v)"
          using bt mb(3) ops Some st by (simp add: block_data_def)
        have h': "chain_step (we_ns E) (RollForward p outs m mp) h = Some ((p, wk_data E v) # h)"
          using blk tr by (cases h) (auto simp: tracks_def skeleton_def)
        obtain o2 v2 where rc: "record_commit E p mp ts (committed_block v p invs) = (o2, v2)"
          by (cases "record_commit E p mp ts (committed_block v p invs)")
        note rc' = record_commit_cases [OF rc]
        have eq: "(case (o2, v2) of (Inl e, w) \<Rightarrow> Some (Inl e, w)
            | (Inr _, w) \<Rightarrow> map_option (\<lambda>r. wbind r (\<lambda>_ w. (Inr (), w)))
                (garbage_collect_rollback_metadata E (pt_height p) w)) = Some (r, w')"
          using run Some Inr x c ir rc sb
          by (simp add: roll_forward_mutable_eq [OF tr] wbind_def wlift_def same_buffers_iff
              committed_block_eq [where w = w])
        have "wk_data E w' = wk_data E v2 \<and> same_buffers v2 w'"
        proof (cases o2)
          case (Inl e)
          then show ?thesis using eq by (auto simp: same_buffers_iff)
        next
          case (Inr y)
          then obtain g where "garbage_collect_rollback_metadata E (pt_height p) v2 = Some g"
            "wbind g (\<lambda>_ w. (Inr (), w)) = (r, w')" using eq by auto
          then show ?thesis using gc_cases [OF laws(1), of "pt_height p" v2 "fst g" "snd g"]
            by (cases g; cases "fst g") (auto simp: wbind_def)
        qed
        then have "tracks E w' ((p, wk_data E v) # h)" "wk_work_unit_2pc w' = None"
          using tr1 rc' tracks_buffers [of "committed_block v p invs" w' E]
          by (auto simp: same_buffers_iff committed_block_def)
        then show ?thesis using h' by blast
      qed
    qed
  qed
qed

section \<open>What the provisos exclude\<close>

lemma mutable_id: "wk_mutable w \<Longrightarrow> w\<lparr>wk_mutable := True\<rparr> = w"
  by (cases w) simp

text \<open>
  The commit of a block reports an error but was applied: the data are already those after the
  block, and the unit is kept, so that the block is executed once more on top of itself.
\<close>

lemma undetermined_commit_applied_again:
  assumes laws: "client_laws E" "fair_order E" and tr: "tracks E w h"
    and ops: "block_storage_ops (we_ns E) outs = Some ops" "push_actions ops (sb_new 1 (2 ^ 64 - 1)) = Some merger"
    and txn: "block_txn E p (get_batch_actions (we_order E) merger) (rb_is_empty (wk_rollback_buffer w))
      (wk_last_processed w) (wk_store w) = Inr (txn, invs)"
    and commit: "we_commit E (wk_calls w) = CommitUndetermined"
  shows "\<exists>w'. execute E (RollForward p outs m mp) w = Some (Inl Restart, w') \<and>
    Some (wk_data E w') = block_data (we_ns E) outs (wk_data E w) \<and>
    schedule w' msg = Some (RollForward p outs m mp)"
proof -
  let ?u = "RollForward p outs m mp"
  let ?v = "w\<lparr>wk_work_unit_2pc := Some ?u, wk_calls := Suc (wk_calls w), wk_store := txn\<rparr>"
  have mt: "wk_mutable w" using tr by (simp add: tracks_def skeleton_def)
  have rw: "tikv_rw_laws (we_tikv E)" using laws(1) by (simp add: client_laws_def)
  note mb = merged_batch [OF laws(2) ops]
  have c: "commit_txn_or_rollback E txn (w\<lparr>wk_work_unit_2pc := Some ?u\<rparr>) = (Inl Restart, ?v)"
    using commit by (simp add: commit_txn_or_rollback_def Let_def)
  have "execute E ?u w = roll_forward_mutable E ?u p ops mp w"
    using ops(1) mt by (simp add: execute_def Let_def mutable_id [OF mt])
  also have "\<dots> = Some (Inl Restart, ?v)"
    using ops(2) txn c by (simp add: roll_forward_mutable_eq [OF tr] wbind_def wlift_def)
  finally show ?thesis
    using block_txn_view [OF rw mb(1,2) txn] mb(3) ops by (simp add: block_data_def schedule_def)
qed

text \<open>
  Bulk mode: the batch is committed and the unit released before the instance is announced to
  the registry. When the announcement fails, the stage restarts with the flushed batch still in
  place and the block in neither the batch nor the unit: its actions are lost, those of the batch
  will be executed again, and the point recorded as processed is that of the lost block.
\<close>

lemma bulk_advertise_failure_loses_block:
  assumes "should_flush (wk_sync_batcher w) ops"
    "length (get_batch_actions (we_order E) (wk_sync_batcher w)) \<le> 5000"
    "apply_actions (we_tikv E) (get_batch_actions (we_order E) (wk_sync_batcher w)) False (wk_store w) =
      Inr (txn, None)"
    "we_commit E (wk_calls w) = Committed ts" "\<not> we_call E (Suc (wk_calls w))"
    "wk_registered w \<or> we_advertise_immediately E = Some True" "we_instance_names E \<noteq> []"
  shows "\<exists>w'. roll_forward_bulk E u p ops w = (Inl Restart, w') \<and> wk_store w' = txn \<and>
    wk_sync_batcher w' = wk_sync_batcher w \<and> wk_last_processed w' = Some p \<and> schedule w' msg = msg"
proof -
  obtain nm names where names: "we_instance_names E = nm # names" using assms(7) by (cases "we_instance_names E") auto
  show ?thesis using assms(1-6)
    by (auto simp: roll_forward_bulk_def Let_def wbind_def wlift_def commit_txn_or_rollback_def schedule_def
        maybe_advertise_def update_registry_scores_def names redis_write_def external_call_def unwrap_or_def)
qed

text \<open>
  A block that only joins the batch does not become the last point processed: after a batch of several
  blocks the first mutable block finds an older point than its predecessor there.
\<close>

lemma bulk_push_keeps_last_processed:
  assumes "\<not> should_flush (wk_sync_batcher w) ops" "roll_forward_bulk E u p ops w = (r, w')"
  shows "wk_last_processed w' = wk_last_processed w"
  using assms by (auto simp: roll_forward_bulk_def Let_def split: option.splits)

section \<open>The stage as a step relation\<close>

text \<open>After a failure the stage is bootstrapped, as often as it takes.\<close>

inductive reboot :: "'t WorkerEnv \<Rightarrow> 't Worker \<Rightarrow> 't Worker \<Rightarrow> bool" for E where
  up: "bootstrap E w = (Inr (), w') \<Longrightarrow> reboot E w w'"
| again: "bootstrap E w = (Inl Restart, v) \<Longrightarrow> reboot E v w' \<Longrightarrow> reboot E w w'"

inductive attempt :: "'t WorkerEnv \<Rightarrow> StorageActionPayload \<Rightarrow> 't Worker \<Rightarrow> 't Worker \<Rightarrow> bool" for E u where
  executed: "execute E u w = Some (Inr (), w') \<Longrightarrow> attempt E u w w'"
| restarted: "execute E u w = Some (Inl Restart, v) \<Longrightarrow> reboot E v w' \<Longrightarrow> attempt E u w w'"

inductive stage_run ::
  "'t WorkerEnv \<Rightarrow> 't Worker \<Rightarrow> StorageActionPayload list \<Rightarrow> 't Worker \<Rightarrow> StorageActionPayload list \<Rightarrow> bool" for E where
  idle: "stage_run E w q w q"
| retry: "wk_work_unit_2pc w = Some _ \<Longrightarrow> schedule w None = Some u \<Longrightarrow> attempt E u w v \<Longrightarrow>
    stage_run E v q w' q' \<Longrightarrow> stage_run E w q w' q'"
| receive: "wk_work_unit_2pc w = None \<Longrightarrow> schedule w (Some m) = Some u \<Longrightarrow> attempt E u w v \<Longrightarrow>
    stage_run E v q w' q' \<Longrightarrow> stage_run E w (m # q) w' q'"

inductive_cases attemptE: "attempt E u w w'"

lemma reboot_core: "reboot E w w' \<Longrightarrow> same_core w w'"
proof (induction rule: reboot.induct)
  case (up w w')
  then show ?case using bootstrap_core [of w E] by simp
next
  case (again w v w')
  then show ?case using bootstrap_core [of w E] same_core_trans by fastforce
qed

text \<open>What holds of the worker while a unit waits to be tried again.\<close>

definition half_done :: "'t WorkerEnv \<Rightarrow> StorageActionPayload \<Rightarrow> 't Worker \<Rightarrow> chain_history \<Rightarrow> bool" where
  "half_done E u w h = (case u of RollForward _ _ _ _ \<Rightarrow> tracks E w h | RollBack p _ \<Rightarrow> rolling E p w h)"

lemma half_done_core: "same_core w w' \<Longrightarrow> half_done E u w' h \<longleftrightarrow> half_done E u w h"
  using same_core_buffers [of w w'] tracks_buffers [of w w' E h] skeleton_buffers [of w w' E h]
  by (auto simp: half_done_def rolling_def same_core_def split: StorageActionPayload.splits)

lemma policy_never_invents: "apply_policy (Inl e) policy \<noteq> Inr (Some x)"
  by (cases e)
    (auto simp: apply_policy_def handle_error_def split: option.splits ErrorAction.splits if_splits)

lemma roll_back_out_of_range:
  "rb_points_since (wk_rollback_buffer w) p = Inl q \<Longrightarrow> roll_back E u p w = Some (r, w') \<Longrightarrow>
   r = Inl WorkPanic \<or> r = Inl RustPanic"
  by (auto simp: roll_back_def Let_def with_policy_def policy_never_invents split: sum.splits option.splits)

definition settled :: "'t WorkerEnv \<Rightarrow> StorageActionPayload \<Rightarrow> chain_history \<Rightarrow> 't Worker \<Rightarrow> bool" where
  "settled E u h w \<longleftrightarrow> (wk_work_unit_2pc w = Some u \<and> half_done E u w h) \<or>
     (wk_work_unit_2pc w = None \<and> (\<exists>h'. chain_step (we_ns E) u h = Some h' \<and> tracks E w h'))"

lemma execute_settles:
  assumes laws: "client_laws E" "fair_order E" "definite_commits E"
    and pre: "tracks E w h \<or> half_done E u w h"
    and run: "execute E u w = Some (r, w')" and ok: "r = Inr () \<or> r = Inl Restart"
  shows "settled E u h w' \<and> (r = Inr () \<longrightarrow> wk_work_unit_2pc w' = None)"
proof (cases u)
  case (RollForward p outs m mp)
  then have tr: "tracks E w h" using pre by (simp add: half_done_def)
  then have mt: "wk_mutable w" by (simp add: tracks_def skeleton_def)
  obtain ops where ops: "block_storage_ops (we_ns E) outs = Some ops"
    using run ok RollForward by (auto simp: execute_def Let_def split: option.splits)
  have "roll_forward_mutable E u p ops mp w = Some (r, w')"
    using run ops mt mutable_id [OF mt] RollForward by (simp add: execute_def Let_def)
  from forward_step [OF laws tr ops this, of m] RollForward show ?thesis
    by (auto simp: settled_def half_done_def)
next
  case (RollBack p m)
  have mt: "wk_mutable w" using pre RollBack by (auto simp: half_done_def tracks_def rolling_def skeleton_def)
  have rb: "roll_back E u p w = Some (r, w')"
    using run mutable_id [OF mt] mt RollBack by (simp add: execute_def)
  obtain points where "rb_points_since (wk_rollback_buffer w) p = Inr points"
    using roll_back_out_of_range [OF _ rb] ok by (cases "rb_points_since (wk_rollback_buffer w) p") auto
  then have "rolling E p w h" using pre RollBack by (auto simp: half_done_def rolling_def tracks_def)
  from roll_back_step [OF laws(1) this rb, of m] RollBack show ?thesis
    by (auto simp: settled_def half_done_def split: sum.splits)
qed

lemma settled_core: "same_core w w' \<Longrightarrow> settled E u h w \<Longrightarrow> settled E u h w'"
  using same_core_buffers [of w w'] tracks_buffers [of w w'] half_done_core [of w w' E u h]
  by (auto simp: settled_def same_core_def)

lemma attempt_settles:
  assumes "client_laws E" "fair_order E" "definite_commits E" "tracks E w h \<or> half_done E u w h"
    "attempt E u w w'"
  shows "settled E u h w'"
  using assms(5)
proof (cases rule: attempt.cases)
  case executed
  then show ?thesis using execute_settles [OF assms(1-4)] by blast
next
  case (restarted v)
  then show ?thesis using execute_settles [OF assms(1-4)] settled_core [OF reboot_core] by blast
qed

text \<open>The units taken from the queue so far, and where the worker stands with the last of them.\<close>

definition progress :: "'t WorkerEnv \<Rightarrow> chain_history \<Rightarrow> StorageActionPayload list \<Rightarrow> 't Worker \<Rightarrow> bool" where
  "progress E h us w \<longleftrightarrow> (case wk_work_unit_2pc w of
       None \<Rightarrow> (\<exists>h'. chain_run (we_ns E) us h = Some h' \<and> tracks E w h')
     | Some u \<Rightarrow> (\<exists>vs h'. us = vs @ [u] \<and> chain_run (we_ns E) vs h = Some h' \<and> half_done E u w h'))"

lemma settled_progress:
  "settled E u h' w \<Longrightarrow> chain_run (we_ns E) vs h = Some h' \<Longrightarrow> progress E h (vs @ [u]) w"
  by (auto simp: settled_def progress_def chain_run_snoc)

lemma stage_run_progress:
  assumes laws: "client_laws E" "fair_order E" "definite_commits E" and run: "stage_run E w q w' q'"
  shows "progress E h us w \<Longrightarrow> \<exists>vs. q = vs @ q' \<and> progress E h (us @ vs) w'"
  using run
proof (induction arbitrary: us rule: stage_run.induct)
  case (retry w x u v q w' q')
  then have u: "wk_work_unit_2pc w = Some u" by (simp add: schedule_def)
  with retry.prems obtain vs h' where us: "us = vs @ [u]" and h': "chain_run (we_ns E) vs h = Some h'"
    and hd: "half_done E u w h'" by (auto simp: progress_def)
  have "progress E h us v"
    using attempt_settles [OF laws disjI2 [OF hd] retry.hyps(3)] settled_progress [OF _ h'] us by simp
  then show ?case by (rule retry.IH)
next
  case (receive w m u v q w' q')
  then have u: "u = m" by (simp add: schedule_def)
  from receive obtain h' where h': "chain_run (we_ns E) us h = Some h'" and tr: "tracks E w h'"
    by (auto simp: progress_def)
  have "progress E h (us @ [u]) v"
    using attempt_settles [OF laws disjI1 [OF tr] receive.hyps(3)] settled_progress [OF _ h'] by simp
  from receive.IH [OF this] u show ?case by auto
qed auto

section \<open>Properties\<close>

text \<open>
  C1. In the mutable window the storage stage follows the chain across failures. Start from a
  worker in mutable mode whose batch of the bulk phase has been flushed and which holds the data
  of the newest block of a history (\<open>tracks\<close>), and let it process a queue of blocks and
  rollbacks, with any pattern of failed commits, Redis calls, lock cleanups and restarts, until
  no unit is pending. If every commit that reported an error has written nothing, its data are
  those of the history after applying every block of the queue exactly once and undoing exactly
  the blocks above each rollback point. Bulk mode, and commits that are applied although they
  report an error, are outside the statement: there a block can be lost or applied twice, which
  \<open>bulk_advertise_failure_loses_block\<close> and \<open>undetermined_commit_applied_again\<close> show.
\<close>

theorem stage_follows_chain:
  assumes "client_laws E" "fair_order E" "definite_commits E" "tracks E w h" "wk_work_unit_2pc w = None"
    "stage_run E w (q @ rest) w' rest" "wk_work_unit_2pc w' = None"
  shows "\<exists>h'. chain_run (we_ns E) q h = Some h' \<and> wk_data E w' = snd (hd h') \<and> tracks E w' h'"
proof -
  have "progress E h [] w" using assms(4,5) by (auto simp: progress_def)
  from stage_run_progress [OF assms(1-3,6) this] assms(7) show ?thesis
    by (auto simp: progress_def tracks_def)
qed

definition wit_env :: "(bytes \<times> bytes) list WorkerEnv" where
  "wit_env = \<lparr>we_tikv = ref_store, we_commit = (\<lambda>n. if n = 0 then CommitFailed else Committed None), we_call = (\<lambda>_. True),
     we_now = (\<lambda>_. Some \<lparr>ts_physical = 5, ts_logical = 0, ts_suffix_bits = 0\<rparr>), we_order = id,
     we_ns = sample_ns, we_network = ''mainnet'', we_buffer_size = 16, we_instance_names = [],
     we_advertise_immediately = None, we_cleanup_locks = None,
     we_policy = \<lparr>missing_data = None, ledger_errors = None, rollback_errors = None, any_error = None\<rparr>\<rparr>"

definition wit_worker :: "(bytes \<times> bytes) list Worker" where
  "wit_worker = (spawn_worker [] None None (Some (sample_point 6)) None 16)\<lparr>wk_mutable := True\<rparr>"

definition wit_unit :: StorageActionPayload where
  "wit_unit = RollForward (sample_point 7) [Out_Cursor (sample_point 7) False 9] True False"

lemma wit_env_fields [simp]:
  "we_tikv wit_env = ref_store" "we_commit wit_env n = (if n = 0 then CommitFailed else Committed None)"
  "we_call wit_env n" "we_now wit_env n = Some \<lparr>ts_physical = 5, ts_logical = 0, ts_suffix_bits = 0\<rparr>"
  "we_order wit_env = id" "we_ns wit_env = sample_ns" "we_buffer_size wit_env = 16"
  "we_cleanup_locks wit_env = None"
  by (simp_all add: wit_env_def)

lemma wit_laws: "client_laws wit_env" "fair_order wit_env" "definite_commits wit_env"
  by (simp_all add: client_laws_def fair_order_def definite_commits_def ref_store_rw ref_store_scan)

lemma wit_tracks: "tracks wit_env wit_worker [(sample_point 6, Map.empty)]"
  by (simp add: tracks_def skeleton_def wit_worker_def spawn_worker_def seeded_buffer_def rb_is_empty_def
      rb_new_def rb_add_block_def unwrap_or_def undoable_def sb_is_empty_def sb_new_def ref_store_def
      data_view_def fun_eq_iff)

lemma wit_block_ops: "\<exists>v. block_storage_ops sample_ns [Out_Cursor (sample_point 7) False 9] =
    Some [Set (prefix_cursor sample_ns) v, Set (prefix_info sample_ns) v]"
  by (auto simp: ops_cursor_def Let_def)

lemma wit_merger:
  "case push_actions [Set (prefix_cursor sample_ns) v, Set (prefix_info sample_ns) v] (sb_new 1 m) of
     None \<Rightarrow> False
   | Some b \<Rightarrow> map snd (batch_actions b) = [Set (prefix_cursor sample_ns) v, Set (prefix_info sample_ns) v]"
  by (simp add: push_actions_def sb_push_action_def sb_new_def Let_def PREFIX_CURSOR_def PREFIX_INFO_def sample_ns_def)

lemma wit_block_txn: "\<exists>t. block_txn wit_env p [Set (prefix_cursor sample_ns) v, Set (prefix_info sample_ns) v] True lp [] = 
   Inr (t, [Delete (prefix_cursor sample_ns), Delete (prefix_info sample_ns)])"
  by (simp add: block_txn_def apply_actions_def batch_get_required_kvs_for_batch_def required_keys_def Let_def
    unwrap_or_def apply_storage_rb_actions_def ref_store_def del: key_layout split: option.splits)

definition wit_state :: "StorageActionPayload option \<Rightarrow> nat \<Rightarrow> (bytes \<times> bytes) list Worker" where
  "wit_state x c = wit_worker\<lparr>wk_work_unit_2pc := x, wk_calls := c\<rparr>"

lemma wit_state_fields [simp]:
  "wk_mutable (wit_state x c)" "wk_store (wit_state x c) = []" "wk_calls (wit_state x c) = c"
  "wk_work_unit_2pc (wit_state x c) = x" "sb_is_empty (wk_sync_batcher (wit_state x c))"
  "rb_is_empty (wk_rollback_buffer (wit_state x c))"
  "(wit_state x c)\<lparr>wk_work_unit_2pc := y\<rparr> = wit_state y c" "(wit_state x c)\<lparr>wk_calls := d\<rparr> = wit_state x d"
  "(wit_state x c)\<lparr>wk_mutable := True\<rparr> = wit_state x c"
  by (simp_all add: wit_state_def wit_worker_def spawn_worker_def sb_new_def sb_is_empty_def rb_is_empty_def
      rb_new_def unwrap_or_def)

lemma wit_execute:
  "(c = 0 \<longrightarrow> execute wit_env wit_unit (wit_state x c) = Some (Inl Restart, wit_state (Some wit_unit) 1)) \<and>
   (c \<noteq> 0 \<longrightarrow> (\<exists>w'. execute wit_env wit_unit (wit_state x c) = Some (Inr (), w') \<and> wk_work_unit_2pc w' = None))"
proof -
  obtain v where ops: "block_storage_ops sample_ns [Out_Cursor (sample_point 7) False 9] =
    Some [Set (prefix_cursor sample_ns) v, Set (prefix_info sample_ns) v]" using wit_block_ops by blast
  obtain b where b: "push_actions [Set (prefix_cursor sample_ns) v, Set (prefix_info sample_ns) v] (sb_new 1 (2 ^ 64 - 1)) = Some b"
    using wit_merger [of v "2 ^ 64 - 1"]
    by (cases "push_actions [Set (prefix_cursor sample_ns) v, Set (prefix_info sample_ns) v] (sb_new 1 (2 ^ 64 - 1))")
      (simp_all only: option.case)
  then have bs: "map snd (batch_actions b) = [Set (prefix_cursor sample_ns) v, Set (prefix_info sample_ns) v]"
    using wit_merger [of v "2 ^ 64 - 1"] by (simp only: option.case)
  obtain t where t: "block_txn wit_env (sample_point 7) (get_batch_actions id b) True (wk_last_processed (wit_state (Some wit_unit) c)) [] =
     Inr (t, [Delete (prefix_cursor sample_ns), Delete (prefix_info sample_ns)])"
    using wit_block_txn by (fastforce simp: get_batch_actions_def bs)
  have "execute wit_env wit_unit (wit_state x c) =
    roll_forward_mutable wit_env wit_unit (sample_point 7)
      [Set (prefix_cursor sample_ns) v, Set (prefix_info sample_ns) v] False (wit_state x c)"
    using ops by (simp add: execute_def wit_unit_def Let_def del: key_layout block_storage_ops.simps)
  then show ?thesis using b t
    by (cases "c = 0") (simp_all add: roll_forward_mutable_def Let_def wbind_def wlift_def commit_txn_or_rollback_def
      record_commit_def garbage_collect_rollback_metadata_def sample_point_def del: key_layout)
qed

lemma wit_reboot: "reboot wit_env (wit_state (Some wit_unit) 1) (wit_state (Some wit_unit) 3)"
  by (rule reboot.up)
    (simp add: bootstrap_def current_timestamp_def wbind_def Let_def external_call_def unwrap_or_def ref_store_def
      numeral_3_eq_3 del: key_layout)

theorem stage_follows_chain_witness:
  "\<exists>w' h'. stage_run wit_env wit_worker [wit_unit] w' [] \<and>
     chain_run sample_ns [wit_unit] [(sample_point 6, Map.empty)] = Some h' \<and> wk_data wit_env w' = snd (hd h')"
proof -
  obtain w' where w': "execute wit_env wit_unit (wit_state (Some wit_unit) 3) = Some (Inr (), w')"
    "wk_work_unit_2pc w' = None" using wit_execute [of 3 "Some wit_unit"] by auto
  have eq: "wit_worker = wit_state None 0" by (simp add: wit_state_def wit_worker_def spawn_worker_def)
  have first: "attempt wit_env wit_unit (wit_state None 0) (wit_state (Some wit_unit) 3)"
    using wit_execute [of 0 None] wit_reboot by (auto intro: attempt.restarted)
  have second: "stage_run wit_env (wit_state (Some wit_unit) 3) [] w' []"
    by (rule stage_run.retry [OF _ _ attempt.executed [OF w'(1)] stage_run.idle]) (simp_all add: schedule_def)
  have run: "stage_run wit_env wit_worker [wit_unit] w' []"
    unfolding eq by (rule stage_run.receive [OF _ _ first second]) (simp_all add: schedule_def)
  have "wk_work_unit_2pc wit_worker = None" by (simp add: wit_worker_def spawn_worker_def)
  from stage_follows_chain [OF wit_laws wit_tracks this, of "[wit_unit]" "[]" w'] run w'(2)
  have "\<exists>h'. chain_run sample_ns [wit_unit] [(sample_point 6, Map.empty)] = Some h' \<and> wk_data wit_env w' = snd (hd h')"
    by (auto simp del: chain_run.simps)
  with run show ?thesis by blast
qed

end
