(* ===== verification/Batch_Order.thy ===== *)
theory Batch_Order
  imports Tikv_Worker
begin

text \<open>
  The storage stage executes the merged actions of a batch in the order in which a Rust
  \<open>HashMap\<close> lists them, which is unspecified. This theory shows for all three ways of executing
  a batch (\<open>storage/tikv.rs\<close>: \<open>apply_actions\<close> without and with inverses,
  \<open>apply_staggered_actions\<close>) that the order does not matter.
\<close>

section \<open>The order in which a batch is executed\<close>

text \<open>A transaction that carries out a list of actions, seen through the contents of the store.\<close>

definition carries_out :: "'t Tikv \<Rightarrow> ('t \<Rightarrow> GasketError + 't) \<Rightarrow> StorageActions \<Rightarrow> bool" where
  "carries_out T f as \<longleftrightarrow> (\<forall>t. map_sum id (tk_get T) (f t) = run_vals op_value as (tk_get T t))"

lemma exec_batch_carries_out:
  assumes "tikv_rw_laws T" "stable_batch as"
  shows "carries_out T (exec_batch T as) as"
proof -
  have eq: "map_sum id fst (apply_actions T as False t) = exec_batch T as t" for t
    by (cases "exec_all T as (t, batch_get_required_kvs_for_batch T t as False)")
      (auto simp: apply_actions_def exec_batch_def Let_def)
  have "map_sum id (tk_get T) (exec_batch T as t) = run_vals op_value as (tk_get T t)" for t
    using apply_actions_plain [OF assms, of t] by (auto simp flip: eq split: sum.splits)
  then show ?thesis by (simp add: carries_out_def)
qed

lemma blind_carries_out:
  assumes "tikv_rw_laws T" "\<forall>a\<in>set as. \<not> requires_previous_value a"
  shows "carries_out T (\<lambda>t. and_then (exec_all T as (t, Map.empty)) (\<lambda>(t, _). Inr t)) as"
proof -
  have "map_sum id (tk_get T) (and_then (exec_all T as (t, Map.empty)) (\<lambda>(t, _). Inr t)) =
      run_vals op_value as (tk_get T t)" for t
    using exec_all_refines [OF assms(1), of as t Map.empty] assms(2)
    by (auto simp: stable_batch_def fresh_map_def split: sum.splits)
  then show ?thesis by (simp add: carries_out_def)
qed

lemma commit_applies: "commit_txn_or_rollback E txn w = (Inr ts, w') \<Longrightarrow> wk_store w' = txn"
  by (auto simp: commit_txn_or_rollback_def Let_def split: CommitOutcome.splits)

lemma run_txns_append:
  "run_txns E (fs @ gs) w = wbind (run_txns E fs w) (\<lambda>_. run_txns E gs)"
proof (induction fs arbitrary: w)
  case (Cons f fs)
  then show ?case by (cases "f (wk_store w)") (simp_all add: wbind_def wlift_def split: prod.splits sum.splits)
qed (simp add: wbind_def)

lemma run_txns_contents:
  assumes "list_all2 (carries_out (we_tikv E)) fs ass" "run_txns E fs w = (Inr (), w')"
  shows "run_vals op_value (concat ass) (tk_get (we_tikv E) (wk_store w)) = Inr (tk_get (we_tikv E) (wk_store w'))"
  using assms
proof (induction fs ass arbitrary: w rule: list_all2_induct)
  case (Cons f fs as ass)
  then obtain t v where f: "f (wk_store w) = Inr t" and v: "wk_store v = t" "run_txns E fs v = (Inr (), w')"
    by (auto simp: wbind_Inr wlift_def dest: commit_applies)
  have "run_vals op_value as (tk_get (we_tikv E) (wk_store w)) = Inr (tk_get (we_tikv E) (wk_store v))"
    using Cons.hyps(1) f v(1) unfolding carries_out_def by (metis map_sum.simps(2))
  then show ?case using Cons.IH [OF v(2)] by (simp add: plain_sem.run_append)
qed simp

text \<open>Transactions that cannot fail by themselves: only the commits decide how far they come.\<close>

definition same_course :: "('t, 'a) outcome \<Rightarrow> ('t, 'a) outcome \<Rightarrow> bool" where
  "same_course x y \<longleftrightarrow> fst x = fst y \<and> (snd x)\<lparr>wk_store := wk_store (snd y)\<rparr> = snd y"

lemma commit_same_course:
  "w\<lparr>wk_store := wk_store v\<rparr> = v \<Longrightarrow> same_course (commit_txn_or_rollback E s w) (commit_txn_or_rollback E t v)"
  by (cases w; cases v)
    (auto simp: same_course_def commit_txn_or_rollback_def Let_def split: CommitOutcome.splits)

lemma run_txns_same_course:
  assumes "length fs = length gs" "\<forall>f\<in>set fs \<union> set gs. \<forall>t. \<exists>t'. f t = Inr t'" "w\<lparr>wk_store := wk_store v\<rparr> = v"
  shows "same_course (run_txns E fs w) (run_txns E gs v)"
  using assms
proof (induction fs gs arbitrary: w v rule: list_induct2)
  case Nil
  then show ?case by (simp add: same_course_def)
next
  case (Cons f fs g gs)
  obtain s t where st: "f (wk_store w) = Inr s" "g (wk_store v) = Inr t" using Cons.prems(1) by force
  obtain r w1 r' v1 where c: "commit_txn_or_rollback E s w = (r, w1)" "commit_txn_or_rollback E t v = (r', v1)"
    by fastforce
  then have same: "r' = r" "w1\<lparr>wk_store := wk_store v1\<rparr> = v1"
    using commit_same_course [OF Cons.prems(2), of E s t] by (simp_all add: same_course_def)
  show ?case
  proof (cases r)
    case (Inl e)
    then show ?thesis using st c same by (simp add: wbind_def wlift_def same_course_def)
  next
    case (Inr x)
    then show ?thesis using st c same Cons.IH [OF _ same(2)] Cons.prems(1) by (simp add: wbind_def wlift_def)
  qed
qed

lemma length_chunks_eq: "length xs = length ys \<Longrightarrow> length (chunks n xs) = length (chunks n ys)"
proof (induction n xs arbitrary: ys rule: chunks.induct)
  case (2 n x xs)
  then obtain y ys' where "ys = y # ys'" by (cases ys) auto
  then show ?case using 2 by simp
qed simp

lemma chunk_elems: "c \<in> set (chunks n xs) \<Longrightarrow> set c \<subseteq> set xs"
  by (induction n xs rule: chunks.induct) (auto dest!: in_set_takeD in_set_dropD)

lemma blind_total:
  assumes "carries_out T f as" "\<forall>a\<in>set as. \<not> requires_previous_value a"
  shows "\<exists>t'. f t = Inr t'"
proof -
  have "\<exists>g. run_vals op_value as h = Inr g" for h
    using assms(2)
  proof (induction as arbitrary: h)
    case (Cons a as)
    then show ?case by (cases a) (simp_all add: op_value_def)
  qed simp
  then show ?thesis using assms(1) unfolding carries_out_def by (metis map_sum.simps(1) old.sum.exhaust sum.distinct(1))
qed

text \<open>The transactions of a staggered batch before the last one, and the actions of the last one.\<close>

definition staggered_writes :: "Namespace \<Rightarrow> StorageActions \<Rightarrow> StorageActions list" where
  "staggered_writes n as =
     filter is_delete as # chunks 5000 (filter (\<lambda>a. is_set a \<and> \<not> is_cursor_set n a) as)"

definition staggered_first :: "'t Tikv \<Rightarrow> Namespace \<Rightarrow> StorageActions \<Rightarrow> ('t \<Rightarrow> GasketError + 't) list" where
  "staggered_first T n as =
     (\<lambda>t. and_then (exec_all T (filter is_delete as) (t, Map.empty)) (\<lambda>(t, _). Inr t)) #
     map (exec_batch T) (chunks 5000 (filter (\<lambda>a. is_set a \<and> \<not> is_cursor_set n a) as))"

lemma is_write_kinds: "is_delete a \<Longrightarrow> \<not> requires_previous_value a" "is_set a \<Longrightarrow> \<not> requires_previous_value a"
  by (cases a; simp)+

lemma staggered_first_carries_out:
  assumes "tikv_rw_laws T"
  shows "list_all2 (carries_out T) (staggered_first T n as) (staggered_writes n as)"
    "\<forall>f\<in>set (staggered_first T n as). \<forall>t. \<exists>t'. f t = Inr t'"
proof -
  let ?sets = "filter (\<lambda>a. is_set a \<and> \<not> is_cursor_set n a) as"
  have b: "\<forall>a\<in>set (filter is_delete as). \<not> requires_previous_value a" by (simp add: is_write_kinds)
  have c: "\<forall>a\<in>set c. \<not> requires_previous_value a" if "c \<in> set (chunks 5000 ?sets)" for c
    using chunk_elems [OF that] is_write_kinds(2) by auto
  then have c': "carries_out T (exec_batch T c) c" if "c \<in> set (chunks 5000 ?sets)" for c
    using that by (intro exec_batch_carries_out [OF assms]) (simp add: stable_batch_def)
  show "list_all2 (carries_out T) (staggered_first T n as) (staggered_writes n as)"
    using c' blind_carries_out [OF assms b]
    by (auto simp: staggered_first_def staggered_writes_def list.rel_map intro: list.rel_refl_strong)
  show "\<forall>f\<in>set (staggered_first T n as). \<forall>t. \<exists>t'. f t = Inr t'"
    using blind_total [OF blind_carries_out [OF assms b] b] blind_total [OF c' c]
    by (auto simp: staggered_first_def)
qed

lemma staggered_txns_eq:
  "staggered_txns T n as = staggered_first T n as @
     [if filter (is_cursor_set n) as = [] then (\<lambda>_. Inl RustPanic)
      else exec_batch T (filter (\<lambda>a. \<not> is_delete a \<and> \<not> is_set a) as @ [last (filter (is_cursor_set n) as)])]"
  by (simp add: staggered_txns_def staggered_first_def Let_def)

lemma cursor_set_is_set: "is_cursor_set n a \<Longrightarrow> is_set a \<and> action_key a = prefix_cursor n"
  by (cases a) auto

lemma one_cursor:
  assumes "distinct (map action_key as)"
  shows "filter (is_cursor_set n) as = [] \<or> (\<exists>c. filter (is_cursor_set n) as = [c])"
proof -
  have "distinct (map action_key (filter (is_cursor_set n) as))" using assms by (rule distinct_map_filter)
  moreover have "\<forall>c\<in>set (filter (is_cursor_set n) as). action_key c = prefix_cursor n"
    using cursor_set_is_set by auto
  ultimately show ?thesis
    by (cases "filter (is_cursor_set n) as" rule: remdups_adj.cases) auto
qed

lemma filter_perm: "mset as = mset bs \<Longrightarrow> mset (filter P as) = mset (filter P bs)"
  by (simp add: mset_filter)

lemma staggered_parts_mset:
  "mset (concat (staggered_writes n as)) = filter_mset (\<lambda>a. is_delete a \<or> (is_set a \<and> \<not> is_cursor_set n a)) (mset as)"
  by (induction as)
    (auto simp: staggered_writes_def concat_chunks is_delete.simps elim!: is_delete.elims is_set.elims)

text \<open>Two transactions with the same effect on the contents, committed from the same contents.\<close>

lemma run_txn_same_effect:
  assumes "map_sum id (tk_get (we_tikv E)) (f (wk_store w)) = map_sum id (tk_get (we_tikv E)) (g (wk_store v))"
    "w\<lparr>wk_store := wk_store v\<rparr> = v"
  shows "same_course (run_txns E [f] w) (run_txns E [g] v) \<and>
    (fst (run_txns E [f] w) = Inr () \<longrightarrow>
       tk_get (we_tikv E) (wk_store (snd (run_txns E [f] w))) = tk_get (we_tikv E) (wk_store (snd (run_txns E [g] v))))"
proof (cases "f (wk_store w)")
  case (Inl e)
  then have "g (wk_store v) = Inl e" using assms(1) by (cases "g (wk_store v)") auto
  then show ?thesis using Inl assms(2) by (simp add: wbind_def wlift_def same_course_def)
next
  case (Inr s)
  then obtain t where t: "g (wk_store v) = Inr t" "tk_get (we_tikv E) s = tk_get (we_tikv E) t"
    using assms(1) by (cases "g (wk_store v)") auto
  obtain r w1 r' v1 where c: "commit_txn_or_rollback E s w = (r, w1)" "commit_txn_or_rollback E t v = (r', v1)"
    by fastforce
  then have same: "r' = r" "same_course (map_sum id (\<lambda>_. ()) r, w1) (map_sum id (\<lambda>_. ()) r, v1)"
    using commit_same_course [OF assms(2), of E s t] by (simp_all add: same_course_def)
  have run: "run_txns E [f] w = (map_sum id (\<lambda>_. ()) r, w1)" "run_txns E [g] v = (map_sum id (\<lambda>_. ()) r, v1)"
    using Inr t(1) c same(1) by (cases r; simp add: wbind_def wlift_def)+
  have "tk_get (we_tikv E) (wk_store w1) = tk_get (we_tikv E) (wk_store v1)" if "r = Inr ts" for ts
    using commit_applies [of E s w ts w1] commit_applies [of E t v ts v1] c same(1) that t(2) by simp
  then show ?thesis unfolding run using same(2) by (cases r) simp_all
qed

lemma staggered_last_perm:
  assumes "tikv_rw_laws T" "mset as = mset bs" "distinct (map action_key as)" "tk_get T s = tk_get T t"
  shows "map_sum id (tk_get T) (last (staggered_txns T n as) s) = map_sum id (tk_get T) (last (staggered_txns T n bs) t)"
proof -
  let ?others = "\<lambda>as. filter (\<lambda>a. \<not> is_delete a \<and> \<not> is_set a) as"
  have d: "distinct (map action_key bs)" by (rule distinct_perm [OF assms(2,3)])
  have cur: "mset (filter (is_cursor_set n) as) = mset (filter (is_cursor_set n) bs)" by (rule filter_perm [OF assms(2)])
  show ?thesis
  proof (cases "filter (is_cursor_set n) as = []")
    case True
    then have "filter (is_cursor_set n) bs = []" using cur by (metis mset_zero_iff)
    with True show ?thesis by (simp add: staggered_txns_eq)
  next
    case False
    then obtain c where c: "filter (is_cursor_set n) as = [c]" using one_cursor [OF assms(3), of n] by blast
    then have c': "filter (is_cursor_set n) bs = [c]" using cur by (metis mset_single_iff_right)
    have dist: "distinct (map action_key (?others cs @ [c]))"
      if "distinct (map action_key cs)" and f: "filter (is_cursor_set n) cs = [c]" for cs
    proof -
      have "c \<in> set (filter (is_cursor_set n) cs)" unfolding f by simp
      then have "c \<in> set cs" "is_set c" using cursor_set_is_set [of n c] by auto
      then show ?thesis using that(1) by (auto simp: distinct_map inj_on_def)
    qed
    have perm: "mset (?others as @ [c]) = mset (?others bs @ [c])" using filter_perm [OF assms(2)] by simp
    have "stable_batch (?others as @ [c])" "stable_batch (?others bs @ [c])"
      using dist [OF assms(3) c] dist [OF d c'] by (simp_all add: stable_batch_def)
    from this [THEN exec_batch_carries_out [OF assms(1)]]
    have "map_sum id (tk_get T) (exec_batch T (?others as @ [c]) s) = run_vals op_value (?others as @ [c]) (tk_get T s)"
      "map_sum id (tk_get T) (exec_batch T (?others bs @ [c]) t) = run_vals op_value (?others bs @ [c]) (tk_get T t)"
      by (simp_all only: carries_out_def)
    then show ?thesis using c c' plain_sem.run_perm [OF perm dist [OF assms(3) c]] assms(4)
      by (simp add: staggered_txns_eq)
  qed
qed

lemma staggered_writes_perm:
  assumes "mset as = mset bs" "distinct (map action_key as)"
  shows "run_vals op_value (concat (staggered_writes n as)) f = run_vals op_value (concat (staggered_writes n bs)) f"
proof (rule plain_sem.run_perm)
  show m: "mset (concat (staggered_writes n as)) = mset (concat (staggered_writes n bs))"
    using assms(1) by (simp add: staggered_parts_mset)
  have "mset (concat (staggered_writes n as)) = mset (filter (\<lambda>a. is_delete a \<or> (is_set a \<and> \<not> is_cursor_set n a)) as)"
    by (simp add: staggered_parts_mset mset_filter)
  then show "distinct (map action_key (concat (staggered_writes n as)))"
    using distinct_perm distinct_map_filter [OF assms(2)] by (metis (no_types, lifting))
qed

lemma staggered_perm:
  assumes rw: "tikv_rw_laws (we_tikv E)" and perm: "mset as = mset bs" "distinct (map action_key as)"
  shows "same_course (apply_staggered_actions E as w) (apply_staggered_actions E bs w) \<and>
    (fst (apply_staggered_actions E as w) = Inr () \<longrightarrow>
       tk_get (we_tikv E) (wk_store (snd (apply_staggered_actions E as w))) =
       tk_get (we_tikv E) (wk_store (snd (apply_staggered_actions E bs w))))"
proof -
  let ?F = "staggered_first (we_tikv E) (we_ns E)"
  let ?l = "\<lambda>as. last (staggered_txns (we_tikv E) (we_ns E) as)"
  note first = staggered_first_carries_out [OF rw, of "we_ns E"]
  have "length (?F as) = length (?F bs)"
    using mset_eq_length [OF filter_perm [OF perm(1)]] length_chunks_eq by (simp add: staggered_first_def) blast
  from run_txns_same_course [OF this, of w w E] first(2)
  have course: "same_course (run_txns E (?F as) w) (run_txns E (?F bs) w)" by auto
  have split: "apply_staggered_actions E cs w = wbind (run_txns E (?F cs) w) (\<lambda>_. run_txns E [?l cs])" for cs
    by (simp add: apply_staggered_actions_def staggered_txns_eq flip: run_txns_append)
  obtain r w1 r' v1 where c: "run_txns E (?F as) w = (r, w1)" "run_txns E (?F bs) w = (r', v1)" by fastforce
  then have same: "r' = r" "w1\<lparr>wk_store := wk_store v1\<rparr> = v1" using course by (simp_all add: same_course_def)
  show ?thesis
  proof (cases r)
    case (Inl e)
    then show ?thesis using c same split by (simp add: wbind_def same_course_def)
  next
    case (Inr x)
    have "tk_get (we_tikv E) (wk_store w1) = tk_get (we_tikv E) (wk_store v1)"
      using run_txns_contents [OF first(1), of as w w1] run_txns_contents [OF first(1), of bs w v1]
        staggered_writes_perm [OF perm] c Inr same(1) by simp
    from run_txn_same_effect [where f = "?l as" and g = "?l bs", OF staggered_last_perm [OF rw perm this] same(2)]
    show ?thesis using c Inr same split by (simp add: wbind_def del: run_txns.simps)
  qed
qed

section \<open>Properties\<close>

text \<open>
  C28. The order in which the hash map of a batch lists its actions does not matter. For every
  order of the same actions on distinct keys: executed in one transaction without inverses, or
  with inverses, they leave the same contents and answer with the same inverses up to their
  order, or panic in every order; executed in staggered transactions (deletes, chunks of sets,
  the rest with the cursor), with the same outcomes of the commits, they give the same answer,
  leave the same worker but for the store, and when they succeed the same contents. (When a
  commit fails between two chunks, the chunks already written depend on the order.)
\<close>

theorem batch_order_irrelevant:
  assumes "tikv_rw_laws (we_tikv E)" "mset as = mset bs" "distinct (map action_key as)"
  shows "map_sum id (\<lambda>(t, r). (tk_get (we_tikv E) t, r)) (apply_actions (we_tikv E) as False t) =
      map_sum id (\<lambda>(t, r). (tk_get (we_tikv E) t, r)) (apply_actions (we_tikv E) bs False t) \<and>
    map_sum id (\<lambda>(t, r). (tk_get (we_tikv E) t, map_option mset r)) (apply_actions (we_tikv E) as True t) =
      map_sum id (\<lambda>(t, r). (tk_get (we_tikv E) t, map_option mset r)) (apply_actions (we_tikv E) bs True t) \<and>
    (case (apply_staggered_actions E as w, apply_staggered_actions E bs w) of ((r, v), (r', v')) \<Rightarrow>
      r' = r \<and> v\<lparr>wk_store := wk_store v'\<rparr> = v' \<and>
      (r = Inr () \<longrightarrow> tk_get (we_tikv E) (wk_store v) = tk_get (we_tikv E) (wk_store v')))"
  using apply_plain_perm [OF assms, of t] apply_inverse_perm [OF assms, of t] staggered_perm [OF assms, of w]
  by (auto simp: same_course_def split: prod.splits)

definition steady_env :: "(bytes \<times> bytes) list WorkerEnv" where
  "steady_env = \<lparr>we_tikv = ref_store, we_commit = (\<lambda>_. Committed None), we_call = (\<lambda>_. True),
     we_now = (\<lambda>_. None), we_order = rev, we_ns = sample_ns, we_network = ''mainnet'', we_buffer_size = 16,
     we_instance_names = [], we_advertise_immediately = None, we_cleanup_locks = None,
     we_policy = \<lparr>missing_data = None, ledger_errors = None, rollback_errors = None, any_error = None\<rparr>\<rparr>"

definition sample_batch :: StorageActions where
  "sample_batch = [Set [9] [8], IncrementU64 [3] 1, Delete [2], Set (prefix_cursor sample_ns) [7]]"

lemma sample_batch_distinct: "distinct (map action_key sample_batch)"
  by (simp add: sample_batch_def sample_ns_def PREFIX_CURSOR_def)

lemma sample_batch_runs:
  "fst (apply_staggered_actions steady_env sample_batch (spawn_worker [([2], [5])] None None None None 16)) = Inr ()"
  by (simp add: sample_batch_def steady_env_def apply_staggered_actions_def staggered_txns_def Let_def exec_batch_def
      batch_get_required_kvs_for_batch_def required_keys_def ref_store_def wbind_def wlift_def
      commit_txn_or_rollback_def spawn_worker_def del: key_layout)

theorem batch_order_irrelevant_witness:
  "\<exists>v v'. apply_staggered_actions steady_env sample_batch (spawn_worker [([2], [5])] None None None None 16) = (Inr (), v) \<and>
     apply_staggered_actions steady_env (rev sample_batch) (spawn_worker [([2], [5])] None None None None 16) = (Inr (), v') \<and>
     map_of (wk_store v) = map_of (wk_store v') \<and>
     map_sum id (\<lambda>(t, r). (map_of t, map_option mset r)) (apply_actions ref_store sample_batch True [([2], [5])]) =
     map_sum id (\<lambda>(t, r). (map_of t, map_option mset r)) (apply_actions ref_store (rev sample_batch) True [([2], [5])])"
proof -
  let ?w = "spawn_worker [([2], [5])] None None None None 16"
  have E: "we_tikv steady_env = ref_store" "tk_get ref_store = map_of" by (simp_all add: steady_env_def ref_store_def)
  have "tikv_rw_laws (we_tikv steady_env)" by (simp add: E ref_store_rw)
  from batch_order_irrelevant [OF this, of sample_batch "rev sample_batch" "[([2], [5])]" ?w]
    sample_batch_distinct sample_batch_runs
  show ?thesis unfolding E
    by (cases "apply_staggered_actions steady_env sample_batch ?w";
        cases "apply_staggered_actions steady_env (rev sample_batch) ?w") auto
qed

end
