(* ===== verification/Tikv_Gc.thy ===== *)
theory Tikv_Gc
  imports Redis_Entry Timbre_Codec
begin

text \<open>
  The garbage-collection safepoint manager (\<open>services/tikv-gc\<close>): it reads the cursor entries of
  every instance from Redis, chooses the earliest of the instances' chain tips and the safe zone
  as the new safepoint, and prunes older entries. A panic (\<open>expect\<close>, \<open>unwrap\<close>,
  \<open>panic!\<close>) is \<open>None\<close>. Redis is a parameter: what \<open>ZRANGEBYSCORE\<close> returns for a key; the
  writes are returned as commands. A \<open>HashMap\<close> is an association list with distinct keys, in
  the arbitrary order in which it is traversed.
\<close>

section \<open>Entries per instance\<close>

record RedisKey =
  rk_dataplane :: u8
  rk_instance :: u16

definition timestamp_key :: "u8 \<Rightarrow> u16 \<Rightarrow> string" where
  "timestamp_key dataplane inst =
     ''tikv-timestamps:'' @ dec_string (unat dataplane) @ '':'' @ dec_string (unat inst)"

type_synonym entry_map = "(RedisKey \<times> RedisEntry list) list"

fun parse_entries :: "EntryCodec \<Rightarrow> string list \<Rightarrow> RedisEntry list option" where
  "parse_entries X [] = Some []"
| "parse_entries X (s # ss) =
     (case gc_entry_parse X s of Inl _ \<Rightarrow> None | Inr e \<Rightarrow> map_option (Cons e) (parse_entries X ss))"

definition parse_redis_key :: "string \<Rightarrow> RedisKey option" where
  "parse_redis_key key =
     (let (label, parts) = iter_next (split_on (CHR '':'') key);
          (dp, parts) = iter_next parts; (inst, parts) = iter_next parts
      in Option.bind dp (\<lambda>d. Option.bind (parse_uint d) (\<lambda>dataplane.
         Option.bind inst (\<lambda>i. Option.bind (parse_uint i) (\<lambda>ins.
           Some \<lparr>rk_dataplane = dataplane, rk_instance = ins\<rparr>)))))"

fun fetch_entries :: "EntryCodec \<Rightarrow> (string \<Rightarrow> string list) \<Rightarrow> string list \<Rightarrow> entry_map \<Rightarrow> entry_map option" where
  "fetch_entries X zrange [] m = Some m"
| "fetch_entries X zrange (key # keys) m =
     (case parse_redis_key key of None \<Rightarrow> None | Some k \<Rightarrow>
      (case parse_entries X (zrange key) of None \<Rightarrow> None | Some block_options \<Rightarrow>
        if block_options = [] then fetch_entries X zrange keys m
        else fetch_entries X zrange keys (index_map_insert k block_options m)))"

definition fetch_entry_map :: "EntryCodec \<Rightarrow> (string \<Rightarrow> string list) \<Rightarrow> entry_map option" where
  "fetch_entry_map X zrange = fetch_entries X zrange (zrange ''tikv-timestamps-keys'') []"

section \<open>The earliest chain tip\<close>

definition entry_order :: "RedisEntry \<Rightarrow> u64 \<times> Timestamp" where
  "entry_order b = (re_height b, timestamp_from (re_commit_ts b))"

definition instance_chaintip :: "RedisEntry list \<Rightarrow> RedisEntry option" where
  "instance_chaintip block_options =
     (let blocks = sort_key entry_order (filter (\<lambda>b. \<not> re_was_mempool b) block_options)
      in if blocks = [] then None else Some (last blocks))"

fun get_instance_chaintips :: "entry_map \<Rightarrow> (RedisKey \<times> RedisEntry) list option" where
  "get_instance_chaintips [] = Some []"
| "get_instance_chaintips ((key, block_options) # m) =
     (case instance_chaintip block_options of None \<Rightarrow> None
      | Some tip \<Rightarrow> map_option (Cons (key, tip)) (get_instance_chaintips m))"

definition get_earliest_chaintip_ts :: "entry_map \<Rightarrow> TiKVTimestamp option" where
  "get_earliest_chaintip_ts m =
     (case get_instance_chaintips m of None \<Rightarrow> None
      | Some tips \<Rightarrow>
        (case sort_key (\<lambda>(_, b). timestamp_from (re_commit_ts b)) tips of [] \<Rightarrow> None
         | (key, earliest) # _ \<Rightarrow> Some (re_commit_ts earliest)))"

section \<open>The safepoint\<close>

datatype Invariant = EarliestChaintip | SafeZone

datatype RedisCmd = SetSafepoint string | ZRemByScore string int

definition i64_saturating_sub :: "int \<Rightarrow> int \<Rightarrow> int" where
  "i64_saturating_sub a b = max (- (2 ^ 63)) (min (2 ^ 63 - 1) (a - b))"

definition i64_wrapping_pred :: "int \<Rightarrow> int" where
  "i64_wrapping_pred a = (a - 1 + 2 ^ 63) mod 2 ^ 64 - 2 ^ 63"

definition get_new_safepoint ::
  "EntryCodec \<Rightarrow> (string \<Rightarrow> string list) \<Rightarrow> int \<Rightarrow> int \<Rightarrow> (TiKVTimestamp \<times> RedisCmd list) option" where
  "get_new_safepoint X zrange current_ts safe_zone_millis =
     (case fetch_entry_map X zrange of None \<Rightarrow> None
      | Some entry_map \<Rightarrow>
        (case get_earliest_chaintip_ts entry_map of None \<Rightarrow> None
         | Some earliest \<Rightarrow>
           let safe_zone_ts = \<lparr>ts_physical = i64_saturating_sub current_ts safe_zone_millis,
                 ts_logical = 0, ts_suffix_bits = 0\<rparr>;
               candidates = [(EarliestChaintip, earliest), (SafeZone, safe_zone_ts)]
           in (case sort_key (\<lambda>c. timestamp_from (snd c)) candidates of [] \<Rightarrow> None
               | (_, sp) # _ \<Rightarrow>
                 Some (sp, SetSafepoint (dec_string (unat (ts_version X sp))) #
                   map (\<lambda>(k, _). ZRemByScore (timestamp_key (rk_dataplane k) (rk_instance k))
                     (i64_wrapping_pred (ts_physical sp))) entry_map))))"

section \<open>Facts\<close>

lemma no_colon_dec: "CHR '':'' \<notin> set (dec_string n)"
proof -
  have "\<not> is_digit (CHR '':'')" by (simp add: is_digit_def)
  then show ?thesis using dec_string_digits [of n] by (auto simp: list_all_iff)
qed

lemma parse_timestamp_key:
  "parse_redis_key (timestamp_key d i) = Some \<lparr>rk_dataplane = d, rk_instance = i\<rparr>"
proof -
  have "timestamp_key d i = join_with (CHR '':'')
      [''tikv-timestamps'', dec_string (unat d), dec_string (unat i)]"
    by (simp add: timestamp_key_def)
  then have "split_on (CHR '':'') (timestamp_key d i) =
      [''tikv-timestamps'', dec_string (unat d), dec_string (unat i)]"
    using split_join [of "[''tikv-timestamps'', dec_string (unat d), dec_string (unat i)]" "CHR '':''"]
    by (simp add: no_colon_dec)
  then show ?thesis by (simp add: parse_redis_key_def iter_next_def)
qed

lemma last_sort_key_max: "xs \<noteq> [] \<Longrightarrow> x \<in> set xs \<Longrightarrow> f x \<le> f (last (sort_key f xs))"
proof -
  assume "xs \<noteq> []" "x \<in> set xs"
  then have x: "x \<in> set (sort_key f xs)" "sort_key f xs \<noteq> []" by (simp_all, metis set_sort set_empty)
  have "sorted (map f (sort_key f xs))" by simp
  moreover obtain i where "i < length (sort_key f xs)" "sort_key f xs ! i = x"
    using x(1) unfolding in_set_conv_nth by blast
  ultimately show ?thesis using x(2)
    by (auto simp: last_conv_nth sorted_iff_nth_mono)
qed

lemma hd_sort_key_min: "sort_key f xs = y # ys \<Longrightarrow> x \<in> set xs \<Longrightarrow> f y \<le> f x"
proof -
  assume s: "sort_key f xs = y # ys" and "x \<in> set xs"
  then have "x \<in> set (y # ys)" by (metis set_sort)
  moreover have "sorted (map f (y # ys))" using sorted_sort_key [of f xs] by (simp only: s)
  ultimately show ?thesis by auto
qed

definition is_chaintip :: "RedisEntry list \<Rightarrow> RedisEntry \<Rightarrow> bool" where
  "is_chaintip es tip \<longleftrightarrow> tip \<in> set es \<and> \<not> re_was_mempool tip \<and>
     (\<forall>e\<in>set es. \<not> re_was_mempool e \<longrightarrow> entry_order e \<le> entry_order tip)"

lemma instance_chaintip_Some: "instance_chaintip es = Some tip \<Longrightarrow> is_chaintip es tip"
proof -
  assume a: "instance_chaintip es = Some tip"
  let ?bs = "filter (\<lambda>b. \<not> re_was_mempool b) es"
  have ne: "?bs \<noteq> []" and tip: "tip = last (sort_key entry_order ?bs)"
    using a by (auto simp: instance_chaintip_def Let_def split: if_splits)
  have "sort_key entry_order ?bs \<noteq> []" using ne by (metis set_sort set_empty)
  then have "tip \<in> set ?bs" using tip by (metis last_in_set set_sort)
  then show ?thesis using last_sort_key_max [OF ne, of _ entry_order] tip by (auto simp: is_chaintip_def)
qed

lemma instance_chaintips_all:
  "get_instance_chaintips m = Some tips \<Longrightarrow> (k, es) \<in> set m \<Longrightarrow>
   \<exists>tip. (k, tip) \<in> set tips \<and> is_chaintip es tip"
proof (induction m arbitrary: tips)
  case (Cons x m)
  obtain key bs where x: "x = (key, bs)" by (cases x)
  with Cons.prems obtain tip ts where "instance_chaintip bs = Some tip"
    "get_instance_chaintips m = Some ts" "tips = (key, tip) # ts" by (auto split: option.splits)
  with Cons x instance_chaintip_Some show ?case by fastforce
qed simp

lemma earliest_le_chaintips:
  assumes "get_earliest_chaintip_ts m = Some ts" "(k, es) \<in> set m"
  shows "\<exists>tip. is_chaintip es tip \<and> timestamp_from ts \<le> timestamp_from (re_commit_ts tip)"
proof -
  obtain tips where tips: "get_instance_chaintips m = Some tips"
    using assms(1) by (auto simp: get_earliest_chaintip_ts_def split: option.splits)
  obtain key e rest where s: "sort_key (\<lambda>(_, b). timestamp_from (re_commit_ts b)) tips = (key, e) # rest"
    and ts: "ts = re_commit_ts e"
    using assms(1) tips by (auto simp: get_earliest_chaintip_ts_def split: list.splits)
  obtain tip where "(k, tip) \<in> set tips" "is_chaintip es tip"
    using instance_chaintips_all [OF tips assms(2)] by blast
  then show ?thesis using hd_sort_key_min [OF s, of "(k, tip)"] ts by auto
qed

lemma safepoint_parts:
  assumes "get_new_safepoint X zrange now zone = Some (sp, cmds)"
  obtains m earliest where "fetch_entry_map X zrange = Some m"
    "get_earliest_chaintip_ts m = Some earliest"
    "timestamp_from sp \<le> timestamp_from earliest"
    "timestamp_from sp \<le> (i64_saturating_sub now zone, 0)"
    "cmds = SetSafepoint (dec_string (unat (ts_version X sp))) #
       map (\<lambda>(k, _). ZRemByScore (timestamp_key (rk_dataplane k) (rk_instance k))
         (i64_wrapping_pred (ts_physical sp))) m"
  using assms
  by (auto simp: get_new_safepoint_def timestamp_from_def Let_def
      split: option.splits list.splits if_splits)

section \<open>Properties\<close>

text \<open>
  C33. The new safepoint satisfies both invariants: it is not later than the newest non-mempool
  entry of any instance (so data at every instance's chain tip stays readable), nor later than
  the current time less the safe zone.
\<close>

theorem safepoint_respects_invariants:
  assumes "get_new_safepoint X zrange now zone = Some (sp, cmds)" "fetch_entry_map X zrange = Some m"
    "(k, es) \<in> set m"
  shows "(\<exists>tip. is_chaintip es tip \<and> timestamp_from sp \<le> timestamp_from (re_commit_ts tip)) \<and>
    timestamp_from sp \<le> (i64_saturating_sub now zone, 0)"
proof -
  obtain m' earliest where "fetch_entry_map X zrange = Some m'" and e: "get_earliest_chaintip_ts m' = Some earliest"
    and le: "timestamp_from sp \<le> timestamp_from earliest"
      "timestamp_from sp \<le> (i64_saturating_sub now zone, 0)"
    by (rule safepoint_parts [OF assms(1)])
  then have "m' = m" using assms(2) by simp
  with earliest_le_chaintips [OF e, of k es] assms(3) le show ?thesis by (meson order.trans)
qed

definition sample_entry_at :: "u64 \<Rightarrow> int \<Rightarrow> PolyRedisEntry" where
  "sample_entry_at h ts = \<lparr>pe_height = h, pe_block_hash = replicate 32 1, pe_was_mempool = False,
     pe_commit_ts = \<lparr>ts_physical = ts, ts_logical = 0, ts_suffix_bits = 0\<rparr>, pe_network = ''main''\<rparr>"

definition sample_zrange :: "string \<Rightarrow> string list" where
  "sample_zrange k = (if k = ''tikv-timestamps-keys'' then [timestamp_key 0 1]
     else map (poly_entry_to_string sample_entry_codec) [sample_entry_at 5 100, sample_entry_at 6 200])"

definition sample_gc_entry :: "u64 \<Rightarrow> int \<Rightarrow> RedisEntry" where
  "sample_gc_entry h ts = \<lparr>re_height = h, re_block_hash = replicate 32 1, re_was_mempool = False,
     re_commit_ts = \<lparr>ts_physical = ts, ts_logical = 0, ts_suffix_bits = 0\<rparr>, re_network = ''main'',
     re_chain_tip_height = h, re_chain_tip_hash = replicate 32 1, re_mempool_view_ts = 0\<rparr>"

definition sample_entry_map :: entry_map where
  "sample_entry_map = [(\<lparr>rk_dataplane = 0, rk_instance = 1\<rparr>, [sample_gc_entry 5 100, sample_gc_entry 6 200])]"

lemma sample_parse:
  "0 \<le> ts \<Longrightarrow> ts < 2 ^ 64 \<Longrightarrow>
   gc_entry_parse sample_entry_codec (poly_entry_to_string sample_entry_codec (sample_entry_at h ts)) =
     Inr (sample_gc_entry h ts)"
proof -
  assume ts: "0 \<le> ts" "ts < 2 ^ 64"
  have low: "to_lowercase ''main'' = ''main''" by code_simp
  show ?thesis
    using gc_entry_parse_poly [OF sample_hex_laws, of "sample_entry_at h ts"] ts low
    by (simp add: sample_entry_at_def sample_gc_entry_def sample_entry_codec_def uint_word_of_int)
qed

lemma sample_fetch: "fetch_entry_map sample_entry_codec sample_zrange = Some sample_entry_map"
proof -
  have "timestamp_key 0 1 \<noteq> ''tikv-timestamps-keys''" by (simp add: timestamp_key_def)
  then show ?thesis
    by (simp add: fetch_entry_map_def sample_zrange_def sample_parse sample_entry_map_def parse_timestamp_key)
qed

lemma sample_safepoint:
  "get_new_safepoint sample_entry_codec sample_zrange 1000 10 =
     Some (\<lparr>ts_physical = 200, ts_logical = 0, ts_suffix_bits = 0\<rparr>,
       [SetSafepoint (dec_string 200), ZRemByScore (timestamp_key 0 1) 199])"
proof -
  have "get_earliest_chaintip_ts sample_entry_map =
      Some \<lparr>ts_physical = 200, ts_logical = 0, ts_suffix_bits = 0\<rparr>"
    by (simp add: get_earliest_chaintip_ts_def sample_entry_map_def instance_chaintip_def sample_gc_entry_def
        entry_order_def timestamp_from_def)
  moreover have "ts_version sample_entry_codec t = word_of_int (ts_physical t)" for t
    by (simp add: sample_entry_codec_def)
  ultimately show ?thesis
    by (simp add: get_new_safepoint_def sample_fetch i64_saturating_sub_def i64_wrapping_pred_def
        timestamp_from_def)
      (simp add: sample_entry_map_def)
qed

theorem safepoint_respects_invariants_witness:
  "\<exists>tip. is_chaintip [sample_gc_entry 5 100, sample_gc_entry 6 200] tip \<and>
     (200, 0) \<le> timestamp_from (re_commit_ts tip)"
  using safepoint_respects_invariants [OF sample_safepoint sample_fetch,
      of "\<lparr>rk_dataplane = 0, rk_instance = 1\<rparr>" "[sample_gc_entry 5 100, sample_gc_entry 6 200]"]
  by (simp add: sample_entry_map_def timestamp_from_def)

text \<open>
  Pruning never removes a chain tip: every removal is below the physical time of the
  safepoint, and so below the score (the physical time of its commit) of each chain-tip entry.
\<close>

theorem pruning_keeps_chaintips:
  assumes "get_new_safepoint X zrange now zone = Some (sp, cmds)" "fetch_entry_map X zrange = Some m"
    "(k, es) \<in> set m" "- (2 ^ 63) < ts_physical sp" "ts_physical sp < 2 ^ 63"
    "ZRemByScore key bound \<in> set cmds"
  shows "\<exists>tip. is_chaintip es tip \<and> bound < ts_physical (re_commit_ts tip)"
proof -
  obtain m' earliest where m': "fetch_entry_map X zrange = Some m'"
    and e: "get_earliest_chaintip_ts m' = Some earliest"
    and le: "timestamp_from sp \<le> timestamp_from earliest"
    and cmds: "cmds = SetSafepoint (dec_string (unat (ts_version X sp))) #
       map (\<lambda>(k, _). ZRemByScore (timestamp_key (rk_dataplane k) (rk_instance k))
         (i64_wrapping_pred (ts_physical sp))) m'"
    by (rule safepoint_parts [OF assms(1)])
  obtain tip where tip: "is_chaintip es tip" "timestamp_from earliest \<le> timestamp_from (re_commit_ts tip)"
    using earliest_le_chaintips [OF e] m' assms(2,3) by (metis option.inject)
  have "bound = i64_wrapping_pred (ts_physical sp)" using assms(6) by (auto simp: cmds)
  also have "\<dots> = ts_physical sp - 1" using assms(4,5) by (simp add: i64_wrapping_pred_def)
  also have "\<dots> < ts_physical (re_commit_ts tip)"
    using order.trans [OF le tip(2)] by (auto simp: timestamp_from_def)
  finally show ?thesis using tip(1) by blast
qed

theorem pruning_keeps_chaintips_witness:
  "\<exists>tip. is_chaintip [sample_gc_entry 5 100, sample_gc_entry 6 200] tip \<and>
     199 < ts_physical (re_commit_ts tip)"
  by (rule pruning_keeps_chaintips [OF sample_safepoint sample_fetch,
        of "\<lparr>rk_dataplane = 0, rk_instance = 1\<rparr>" _ "timestamp_key 0 1"])
    (simp_all add: sample_entry_map_def)

end
