(* ===== verification/Kv_Table.thy ===== *)
theory Kv_Table
  imports Rust_Prelude
begin

text \<open>
  Tables of the chain database (\<open>storage/kvtable.rs\<close>): a column family is a sequence of entries in
  ascending order of the encoded keys. The trait \<open>KVTable\<close> gives typed access through encodings of
  keys and values; iteration over a table with integer keys follows the integers because the
  encoding is big-endian. RocksDB itself is taken as the ordered sequence; a failure of RocksDB is
  not modelled.
\<close>

section \<open>Encodings\<close>

text \<open>A decoder panics (None) when the value is too short and ignores what follows.\<close>

definition dbint_encode :: "u64 \<Rightarrow> bytes" where
  "dbint_encode n = to_be_bytes n"

definition dbint_decode :: "bytes \<Rightarrow> u64 option" where
  "dbint_decode bs = (if length bs < 8 then None else Some (from_be_bytes (take 8 bs)))"

definition dbuint128_encode :: "u128 \<Rightarrow> bytes" where
  "dbuint128_encode n = to_be_bytes n"

definition dbuint128_decode :: "bytes \<Rightarrow> u128 option" where
  "dbuint128_decode bs = (if length bs < 16 then None else Some (from_be_bytes (take 16 bs)))"

definition dbhash32_decode :: "bytes \<Rightarrow> bytes option" where
  "dbhash32_decode bs = (if length bs < 32 then None else Some (take 32 bs))"

definition with_dbint_prefix :: "u64 \<Rightarrow> bytes \<Rightarrow> bytes" where
  "with_dbint_prefix n rest = dbint_encode n @ rest"

lemma dbint_roundtrip: "dbint_decode (dbint_encode n @ rest) = Some n"
  by (simp add: dbint_decode_def dbint_encode_def)

lemma dbuint128_roundtrip: "dbuint128_decode (dbuint128_encode n @ rest) = Some n"
  by (simp add: dbuint128_decode_def dbuint128_encode_def)

lemma dbint_order: "dbint_encode m < dbint_encode n \<longleftrightarrow> m < n"
  unfolding dbint_encode_def by (rule to_be_bytes_less_iff) simp

section \<open>Ordered entries\<close>

type_synonym ('k, 'v) table = "('k \<times> 'v) list"

fun tbl_put :: "'k::linorder \<Rightarrow> 'v \<Rightarrow> ('k, 'v) table \<Rightarrow> ('k, 'v) table" where
  "tbl_put k v [] = [(k, v)]"
| "tbl_put k v ((j, w) # t) =
     (if k < j then (k, v) # (j, w) # t else if k = j then (k, v) # t else (j, w) # tbl_put k v t)"

definition tbl_del :: "'k \<Rightarrow> ('k, 'v) table \<Rightarrow> ('k, 'v) table" where
  "tbl_del k t = filter (\<lambda>(j, _). j \<noteq> k) t"

definition tbl_get :: "('k, 'v) table \<Rightarrow> 'k \<Rightarrow> 'v option" where
  "tbl_get t k = map_of t k"

text \<open>Iteration from a key on, and the last entry.\<close>

definition tbl_from :: "'k::linorder \<Rightarrow> ('k, 'v) table \<Rightarrow> ('k, 'v) table" where
  "tbl_from k t = dropWhile (\<lambda>(j, _). j < k) t"

definition tbl_last :: "('k, 'v) table \<Rightarrow> ('k \<times> 'v) option" where
  "tbl_last t = (if t = [] then None else Some (last t))"

fun scan_until_or :: "('v \<Rightarrow> bool) \<Rightarrow> ('v \<Rightarrow> bool) \<Rightarrow> ('k, 'v) table \<Rightarrow> 'k option" where
  "scan_until_or p bail [] = None"
| "scan_until_or p bail ((k, v) # t) =
     (if p v then Some k else if bail v then None else scan_until_or p bail t)"

definition scan_until :: "('v \<Rightarrow> bool) \<Rightarrow> ('k, 'v) table \<Rightarrow> 'k option" where
  "scan_until p t = map_option fst (find (\<lambda>(_, v). p v) t)"

definition tbl_ok :: "('k::linorder, 'v) table \<Rightarrow> bool" where
  "tbl_ok t \<longleftrightarrow> sorted_wrt (<) (map fst t)"

section \<open>Contract\<close>

text \<open>What the chain database relies on: lookups after writes, and ascending iteration.\<close>

locale ordered_store =
  fixes put :: "'k::linorder \<Rightarrow> 'v \<Rightarrow> 's \<Rightarrow> 's" and del :: "'k \<Rightarrow> 's \<Rightarrow> 's"
    and lookup :: "'s \<Rightarrow> 'k \<Rightarrow> 'v option" and above :: "'k \<Rightarrow> 's \<Rightarrow> ('k \<times> 'v) list" and ok :: "'s \<Rightarrow> bool"
  assumes put_ok: "ok s \<Longrightarrow> ok (put k v s)" and del_ok: "ok s \<Longrightarrow> ok (del k s)"
    and lookup_put: "ok s \<Longrightarrow> lookup (put k v s) j = (if j = k then Some v else lookup s j)"
    and lookup_del: "ok s \<Longrightarrow> lookup (del k s) j = (if j = k then None else lookup s j)"
    and above_lookup: "ok s \<Longrightarrow> (j, v) \<in> set (above k s) \<longleftrightarrow> k \<le> j \<and> lookup s j = Some v"
    and above_sorted: "ok s \<Longrightarrow> sorted_wrt (<) (map fst (above k s))"
    and ext: "ok s \<Longrightarrow> ok s' \<Longrightarrow> (\<And>j. lookup s j = lookup s' j) \<Longrightarrow> s = s'"
begin

lemma del_put_fresh: "ok s \<Longrightarrow> lookup s k = None \<Longrightarrow> del k (put k v s) = s"
  by (rule ext) (auto simp: put_ok del_ok lookup_put lookup_del)

lemma put_put: "ok s \<Longrightarrow> put k v (put k w s) = put k v s"
  by (rule ext) (auto simp: put_ok lookup_put)

text \<open>Iteration from a key that is present starts with it.\<close>

lemma above_head:
  assumes "ok s" "lookup s k = Some v"
  shows "\<exists>t. above k s = (k, v) # t"
proof -
  have mem: "(k, v) \<in> set (above k s)" using assms by (simp add: above_lookup)
  then obtain j w t where t: "above k s = (j, w) # t" by (cases "above k s") auto
  have "j = k"
  proof (rule ccontr)
    assume "j \<noteq> k"
    then have "j < k" using mem t above_sorted [OF assms(1), of k] by auto
    moreover have "k \<le> j" using above_lookup [OF assms(1), of j w k] t by simp
    ultimately show False by simp
  qed
  moreover have "w = v" using above_lookup [OF assms(1), of j w k] t calculation assms(2) by simp
  ultimately show ?thesis using t by simp
qed

text \<open>When the keys above k are gone, iteration from k gives k alone.\<close>

lemma above_single:
  assumes "ok s" "lookup s k = Some v" "\<And>j. k < j \<Longrightarrow> lookup s j = None"
  shows "above k s = [(k, v)]"
proof -
  obtain t where t: "above k s = (k, v) # t" using above_head [OF assms(1,2)] by blast
  have "t = []"
  proof (cases t)
    case (Cons x xs)
    then have "k < fst x" using above_sorted [OF assms(1), of k] t by simp
    then have "lookup s (fst x) = None" by (rule assms(3))
    moreover have "x \<in> set (above k s)" using t Cons by simp
    then have "lookup s (fst x) = Some (snd x)" using above_lookup [OF assms(1), of "fst x" "snd x" k] by simp
    ultimately show ?thesis by simp
  qed
  then show ?thesis using t by simp
qed

text \<open>With one key put above the greatest, k, iteration from k gives the two.\<close>

lemma above_put_last:
  assumes "ok s" "lookup s k = Some v" "\<And>i. k < i \<Longrightarrow> lookup s i = None" "k < j"
  shows "above k (put j w s) = [(k, v), (j, w)]"
proof -
  let ?xs = "above k (put j w s)"
  have ok': "ok (put j w s)" using assms(1) by (rule put_ok)
  have "(i, u) \<in> set ?xs \<longleftrightarrow> (i, u) = (k, v) \<or> (i, u) = (j, w)" for i u
    using assms by (cases "k < i") (auto simp: above_lookup [OF ok'] lookup_put)
  then have xs: "set ?xs = {(k, v), (j, w)}" by auto
  then have "set (map fst ?xs) = set [k, j]" by simp
  then have "map fst ?xs = [k, j]"
    using above_sorted [OF ok', of k] assms(4) by (intro strict_sorted_equal) auto
  then obtain a b where ab: "?xs = [(k, a), (j, b)]" by (auto simp: map_eq_Cons_conv)
  then show ?thesis using xs assms(4) by (auto simp: doubleton_eq_iff)
qed

end

lemma put_keys: "fst ` set (tbl_put k v t) = insert k (fst ` set t)"
  by (induction k v t rule: tbl_put.induct) auto

lemma tbl_put_ok: "tbl_ok t \<Longrightarrow> tbl_ok (tbl_put k v t)"
proof (induction k v t rule: tbl_put.induct)
  case (2 k v j w t)
  have "\<forall>x\<in>fst ` set (tbl_put k v t). j < x" if "\<not> k < j" "k \<noteq> j"
    using 2(2) that unfolding put_keys by (auto simp: tbl_ok_def)
  then show ?case using 2 by (auto simp: tbl_ok_def)
qed (simp add: tbl_ok_def)

lemma tbl_get_put: "tbl_ok t \<Longrightarrow> tbl_get (tbl_put k v t) j = (if j = k then Some v else tbl_get t j)"
proof (induction k v t rule: tbl_put.induct)
  case (2 k v i w t)
  then show ?case by (auto simp: tbl_get_def tbl_ok_def)
qed (simp add: tbl_get_def)

lemma tbl_del_ok: "tbl_ok t \<Longrightarrow> tbl_ok (tbl_del k t)"
  by (induction t) (auto simp: tbl_ok_def tbl_del_def)

lemma tbl_get_del: "tbl_get (tbl_del k t) j = (if j = k then None else tbl_get t j)"
  by (induction t) (auto simp: tbl_get_def tbl_del_def)

lemma tbl_distinct: "tbl_ok t \<Longrightarrow> distinct (map fst t)"
  unfolding tbl_ok_def by (simp add: strict_sorted_iff)

lemma tbl_by_keys: "tbl_ok t \<Longrightarrow> t = map (\<lambda>k. (k, the (tbl_get t k))) (map fst t)"
proof -
  assume "tbl_ok t"
  then have "(fst x, the (tbl_get t (fst x))) = x" if "x \<in> set t" for x
    using that map_of_eq_Some_iff [OF tbl_distinct, of t "fst x" "snd x"] by (simp add: tbl_get_def)
  then show ?thesis by (simp add: map_idI comp_def)
qed

lemma tbl_from_filter: "tbl_ok t \<Longrightarrow> tbl_from k t = filter (\<lambda>(j, _). k \<le> j) t"
proof (induction t)
  case (Cons x t)
  show ?case
  proof (cases "fst x < k")
    case False
    then have "\<forall>y\<in>set t. k \<le> fst y" using Cons.prems by (force simp: tbl_ok_def)
    then have "filter (\<lambda>(j, _). k \<le> j) t = t" by (auto simp: filter_id_conv)
    then show ?thesis using False by (auto simp: tbl_from_def)
  qed (use Cons in \<open>auto simp: tbl_ok_def tbl_from_def\<close>)
qed (simp add: tbl_from_def)

interpretation kv: ordered_store tbl_put tbl_del tbl_get tbl_from "tbl_ok :: ('k::linorder, 'v) table \<Rightarrow> bool"
proof
  show "(j, v) \<in> set (tbl_from k s) \<longleftrightarrow> k \<le> j \<and> tbl_get s j = Some v" if "tbl_ok s" for s :: "('k, 'v) table" and j v k
    using that tbl_distinct [OF that] by (auto simp: tbl_from_filter tbl_get_def map_of_eq_Some_iff)
  show "sorted_wrt (<) (map fst (tbl_from k s))" if "tbl_ok s" for s :: "('k, 'v) table" and k
    using that by (induction s) (auto simp: tbl_ok_def tbl_from_def)
  show "s = s'" if "tbl_ok s" "tbl_ok s'" "\<And>j. tbl_get s j = tbl_get s' j" for s s' :: "('k, 'v) table"
  proof -
    have "x \<in> set s \<longleftrightarrow> x \<in> set s'" for x
      using that(3) [of "fst x"] map_of_eq_Some_iff [OF tbl_distinct [OF that(1)], of "fst x" "snd x"]
        map_of_eq_Some_iff [OF tbl_distinct [OF that(2)], of "fst x" "snd x"] by (simp add: tbl_get_def)
    then have "set s = set s'" by blast
    then have "set (map fst s) = set (map fst s')" by simp
    then have keys: "map fst s = map fst s'"
      using that(1,2) by (intro strict_sorted_equal) (simp_all add: tbl_ok_def)
    have "s = map (\<lambda>k. (k, the (tbl_get s k))) (map fst s)" using that(1) by (rule tbl_by_keys)
    also have "\<dots> = map (\<lambda>k. (k, the (tbl_get s' k))) (map fst s')" unfolding keys that(3) ..
    also have "\<dots> = s'" using tbl_by_keys [OF that(2)] ..
    finally show ?thesis .
  qed
qed (auto simp: tbl_put_ok tbl_del_ok tbl_get_put tbl_get_del)

section \<open>Typed access\<close>

text \<open>
  A typed table and the column family below it: with an encoding of keys that preserves the order,
  every operation on the raw entries is the typed operation.
\<close>

definition raw_table :: "('k \<Rightarrow> bytes) \<Rightarrow> ('k, 'v) table \<Rightarrow> (bytes, 'v) table" where
  "raw_table enc t = map (\<lambda>(k, v). (enc k, v)) t"

lemma raw_put:
  assumes "\<And>j k. enc j < enc k \<longleftrightarrow> j < (k :: 'k::linorder)"
  shows "raw_table enc (tbl_put k v t) = tbl_put (enc k) v (raw_table enc t)"
proof -
  have inj: "enc j = enc k \<longleftrightarrow> j = k" for j k using assms by (metis less_irrefl neqE)
  show ?thesis by (induction k v t rule: tbl_put.induct) (auto simp: raw_table_def assms inj)
qed

lemma raw_from:
  assumes "\<And>j k. enc j < enc k \<longleftrightarrow> j < (k :: 'k::linorder)"
  shows "raw_table enc (tbl_from k t) = tbl_from (enc k) (raw_table enc t)"
  by (induction t) (auto simp: raw_table_def tbl_from_def assms)

lemma raw_del:
  assumes "\<And>j k. enc j < enc k \<longleftrightarrow> j < (k :: 'k::linorder)"
  shows "raw_table enc (tbl_del k t) = tbl_del (enc k) (raw_table enc t)"
proof -
  have inj: "enc j = enc k \<longleftrightarrow> j = k" for j k using assms by (metis less_irrefl neqE)
  show ?thesis by (induction t) (auto simp: raw_table_def tbl_del_def inj)
qed

text \<open>
  Access by height is faithful to the stored bytes: for a table keyed by 64-bit integers,
  inserting, deleting and iterating from a key on the encoded entries, which are ordered as byte
  strings, is inserting, deleting and iterating in the order of the integers.
\<close>

theorem integer_keys_refine:
  "raw_table dbint_encode (tbl_put k v t) = tbl_put (dbint_encode k) v (raw_table dbint_encode t) \<and>
   raw_table dbint_encode (tbl_del k t) = tbl_del (dbint_encode k) (raw_table dbint_encode t) \<and>
   raw_table dbint_encode (tbl_from k t) = tbl_from (dbint_encode k) (raw_table dbint_encode t)"
  by (intro conjI raw_put raw_del raw_from dbint_order)

end
