(* ===== verification/Dune_Varint.thy ===== *)
theory Dune_Varint
  imports Rust_Prelude
begin

text \<open>
  The variable-length integers of a dunestone (\<open>storage/runes/dunes/varint.rs\<close>): groups of
  seven bits, most significant first, every byte but the last with its high bit set, and one
  added for each continuation, so that every number has one encoding. Encoding fills an array of
  19 bytes from the end; decoding saturates at the largest 128-bit number.
\<close>

section \<open>Encoding and decoding\<close>

text \<open>\<open>None\<close> is the panic of an index below the array.\<close>

fun varint_encode_loop :: "nat \<Rightarrow> u128 \<Rightarrow> bytes \<Rightarrow> bytes option" where
  "varint_encode_loop i n out =
     (let byte = ucast n AND 0x7F;
          byte = (if i < 18 then byte OR 0x80 else byte);
          out = out[i := byte]
      in if n < 0x80 then Some (drop i out)
         else case i of 0 \<Rightarrow> None | Suc j \<Rightarrow> varint_encode_loop j (n div 128 - 1) out)"

declare varint_encode_loop.simps [simp del]

definition varint_encode_to_vec :: "u128 \<Rightarrow> bytes \<Rightarrow> bytes option" where
  "varint_encode_to_vec n v = map_option (\<lambda>out. v @ out) (varint_encode_loop 18 n (replicate 19 0))"

definition varint_encode :: "u128 \<Rightarrow> bytes option" where
  "varint_encode n = varint_encode_to_vec n []"

fun varint_decode_loop :: "bytes \<Rightarrow> u128 \<Rightarrow> nat \<Rightarrow> u128 \<times> nat" where
  "varint_decode_loop [] n i = (n, i)"
| "varint_decode_loop (b # bs) n i =
     (let n = saturating_mul n 128 in
      if b < 128 then (saturating_add n (ucast b), i + 1)
      else varint_decode_loop bs (saturating_add n (ucast b - 127)) (i + 1))"

definition varint_decode :: "bytes \<Rightarrow> u128 \<times> nat" where
  "varint_decode buffer = varint_decode_loop buffer 0 0"

section \<open>The encoding as digits\<close>

text \<open>The bytes of a number that continue, and those of a whole encoding.\<close>

fun flagged :: "nat \<Rightarrow> nat list" where
  "flagged m = (if m < 128 then [] else flagged (m div 128 - 1)) @ [128 + m mod 128]"

declare flagged.simps [simp del]

definition digits :: "nat \<Rightarrow> nat list" where
  "digits n = (if n < 128 then [] else flagged (n div 128 - 1)) @ [n mod 128]"

lemma flagged_nonempty [simp]: "flagged m \<noteq> []"
  by (simp add: flagged.simps [of m])

lemma length_flagged: "m < 128 ^ Suc k \<Longrightarrow> length (flagged m) \<le> Suc k"
proof (induction k arbitrary: m)
  case 0
  then show ?case by (simp add: flagged.simps [of m])
next
  case (Suc k)
  then have "m div 128 - 1 < 128 ^ Suc k" if "128 \<le> m" using that by (simp add: less_mult_imp_div_less)
  then show ?case using Suc.IH [of "m div 128 - 1"] by (simp add: flagged.simps [of m])
qed

lemma low_bits: "ucast n AND (0x7F :: u8) = word_of_nat (unat (n :: u128) mod 128)"
proof -
  have "ucast n AND (0x7F :: u8) = take_bit 7 (ucast n)" by (simp add: take_bit_eq_mask mask_eq_exp_minus_1)
  then have "unat (ucast n AND (0x7F :: u8)) = unat n mod 128"
    by (simp add: unat_mod unsigned_ucast_eq take_bit_eq_mod mod_mod_cancel)
  moreover have "unat n mod 128 < 256" by (rule less_trans [of _ 128]) simp_all
  ultimately show ?thesis by (intro unsigned_word_eqI [where ?'a = nat]) (simp add: unat_of_nat)
qed

lemma high_bit: "(word_of_nat (m mod 128) :: u8) OR 0x80 = word_of_nat (128 + m mod 128)"
proof -
  have "\<forall>k\<in>set [0..<128]. (word_of_nat k :: u8) OR 0x80 = word_of_nat (128 + k)" by code_simp
  then show ?thesis by simp
qed

lemma digit_byte:
  "(if i < 18 then (ucast n AND 0x7F) OR 0x80 else ucast n AND (0x7F :: u8)) =
   word_of_nat ((if i < 18 then 128 else 0) + unat (n :: u128) mod 128)"
  by (simp add: low_bits high_bit del: of_nat_add)

lemma encode_loop_unfold:
  "varint_encode_loop i n out =
     (let out = out[i := word_of_nat ((if i < 18 then 128 else 0) + unat n mod 128)]
      in if n < 0x80 then Some (drop i out)
         else case i of 0 \<Rightarrow> None | Suc j \<Rightarrow> varint_encode_loop j (n div 128 - 1) out)"
  by (subst varint_encode_loop.simps) (simp only: Let_def digit_byte)

lemma unat_next:
  assumes "\<not> n < (0x80 :: u128)"
  shows "unat (n div 128 - 1) = unat n div 128 - 1"
proof -
  have "1 \<le> n div 128" using assms by (simp add: word_le_nat_alt word_less_nat_alt unat_div div_greater_zero_iff Suc_le_eq)
  then show ?thesis by (simp add: unat_sub unat_div)
qed

text \<open>The loop, started at any index of the array that leaves room for the digits.\<close>

definition loop_digits :: "nat \<Rightarrow> u128 \<Rightarrow> nat list" where
  "loop_digits i n = (if i < 18 then flagged (unat n) else digits (unat n))"

lemma encode_loop_digits:
  assumes "length out = 19" "i \<le> 18" "length (loop_digits i n) \<le> Suc i"
  shows "varint_encode_loop i n out = Some (map word_of_nat (loop_digits i n) @ drop (Suc i) out)"
  using assms
proof (induction i n out rule: varint_encode_loop.induct)
  case (1 i n out)
  let ?b = "word_of_nat ((if i < 18 then 128 else 0) + unat n mod 128) :: u8"
  have out: "drop i (out[i := ?b]) = ?b # drop (Suc i) out"
    using "1.prems" by (simp add: Cons_nth_drop_Suc [symmetric])
  show ?case
  proof (cases "n < 0x80")
    case True
    then have "unat n < 128" by (simp add: word_less_nat_alt)
    then have "loop_digits i n = [(if i < 18 then 128 else 0) + unat n mod 128]"
      by (simp add: loop_digits_def digits_def flagged.simps [of "unat n"])
    then show ?thesis using True out
      by (subst encode_loop_unfold) (simp add: Let_def del: of_nat_add)
  next
    case False
    then have ge: "128 \<le> unat n" by (simp add: word_less_nat_alt)
    have split: "loop_digits i n = flagged (unat n div 128 - 1) @ [(if i < 18 then 128 else 0) + unat n mod 128]"
      using ge by (simp add: loop_digits_def digits_def flagged.simps [of "unat n"])
    obtain j where j: "i = Suc j" using "1.prems"(3) split by (cases i) simp_all
    have ld: "loop_digits j (n div 128 - 1) = flagged (unat n div 128 - 1)"
      using "1.prems"(2) j unat_next [OF False] by (simp add: loop_digits_def)
    have "varint_encode_loop j (n div 128 - 1) (out[i := ?b]) =
        Some (map word_of_nat (loop_digits j (n div 128 - 1)) @ drop (Suc j) (out[i := ?b]))"
      by (rule "1.IH" [OF refl refl refl False j, unfolded digit_byte])
        (use "1.prems" j ld split in simp_all)
    then show ?thesis using False j out ld split
      by (subst encode_loop_unfold) (simp add: Let_def del: of_nat_add)
  qed
qed

lemma varint_encode_digits: "varint_encode_to_vec n v = Some (v @ map word_of_nat (digits (unat n)))"
proof -
  have "unat n < 2 ^ LENGTH(128)" by (rule unsigned_less)
  then have "unat n < 128 ^ 19" by simp
  then have "unat n div 128 - 1 < 128 ^ Suc 17" if "128 \<le> unat n" using that by simp
  then have "length (digits (unat n)) \<le> 19"
    using length_flagged [of "unat n div 128 - 1" 17] by (simp add: digits_def)
  then show ?thesis
    using encode_loop_digits [of "replicate 19 0" 18 n] by (simp add: varint_encode_to_vec_def loop_digits_def)
qed

text \<open>Reading the continuing bytes of a number leaves the number plus one.\<close>

lemma sat_step:
  assumes "uint a * 128 + uint b < 2 ^ 128"
  shows "uint (saturating_add (saturating_mul (a :: u128) 128) b) = uint a * 128 + uint b"
proof -
  have "uint a * 128 < 2 ^ 128" using assms uint_nonnegative [of b] by linarith
  then have "uint (saturating_mul a 128) = uint a * 128" by (simp add: uint_saturating_mul)
  then show ?thesis using assms by (simp add: uint_saturating_add)
qed

lemma uint_small_byte: "k < 256 \<Longrightarrow> uint (ucast (word_of_nat k :: u8) :: u128) = int k"
  by (simp add: unsigned_ucast_eq unsigned_of_nat take_bit_nat_eq_self take_bit_int_eq_self flip: of_nat_take_bit)

lemma decode_flagged:
  assumes "int m < 2 ^ 128 - 1"
  shows "varint_decode_loop (map word_of_nat (flagged m) @ bs) 0 i =
    varint_decode_loop bs (word_of_nat (Suc m)) (i + length (flagged m))"
  using assms
proof (induction m arbitrary: bs rule: flagged.induct)
  case (1 m)
  let ?b = "word_of_nat (128 + m mod 128) :: u8"
  let ?acc = "if m < 128 then 0 else word_of_nat (m div 128) :: u128"
  have b: "uint (ucast ?b :: u128) = 128 + int (m mod 128)"
    using uint_small_byte [of "128 + m mod 128"] by (simp del: of_nat_add)
  then have b127: "uint (ucast ?b - 127 :: u128) = int (m mod 128) + 1"
    by (simp add: uint_sub_if_size word_size del: of_nat_add)
  have acc: "uint ?acc = int (m div 128)"
    using "1.prems" uint_of_nat_small [of "m div 128", where ?'a = 128] by auto
  have "uint ?b = 128 + int (m mod 128)"
    using uint_of_nat_small [of "128 + m mod 128", where ?'a = 8] by (simp del: of_nat_add)
  then have nb: "\<not> ?b < 128" by (simp add: word_less_def del: of_nat_add)
  have "varint_decode_loop (map word_of_nat (flagged m) @ bs) 0 i =
      varint_decode_loop (?b # bs) ?acc (i + (length (flagged m) - 1))"
  proof (cases "m < 128")
    case True
    then show ?thesis by (simp add: flagged.simps [of m])
  next
    case False
    then have "int (m div 128 - 1) < 2 ^ 128 - 1" "Suc (m div 128 - 1) = m div 128"
      using "1.prems" by linarith+
    then show ?thesis using False "1.IH" [OF False, of "?b # bs"] by (simp add: flagged.simps [of m] del: of_nat_add)
  qed
  moreover have "saturating_add (saturating_mul ?acc 128) (ucast ?b - 127) = word_of_nat (Suc m)"
  proof -
    let ?x = "saturating_add (saturating_mul ?acc 128) (ucast ?b - 127)"
    have sum: "uint ?acc * 128 + uint (ucast ?b - 127 :: u128) = int (Suc m)"
      unfolding acc b127 by (simp add: zdiv_int zmod_int)
    have "uint ?x = int (Suc m)"
      using sat_step [of ?acc "ucast ?b - 127"] "1.prems" unfolding sum by simp
    then have "?x = word_of_int (int (Suc m))" by (metis word_of_int_uint)
    then show ?thesis by (simp only: of_int_of_nat_eq)
  qed
  ultimately show ?case using nb by (simp add: Let_def flagged.simps [of m])
qed

lemma decode_digits:
  "varint_decode (map word_of_nat (digits (unat n)) @ bs) = (n, length (digits (unat n)))"
proof -
  let ?m = "unat n"
  let ?b = "word_of_nat (?m mod 128) :: u8"
  let ?acc = "if ?m < 128 then 0 else word_of_nat (?m div 128) :: u128"
  have lt': "int ?m < 2 ^ LENGTH(128)" using uint_lt2p [of n] by simp
  then have lt: "int ?m < 2 ^ 128" by simp
  have b: "uint (ucast ?b :: u128) = int (?m mod 128)" by (rule uint_small_byte) (rule less_trans [of _ 128], simp_all)
  have "int (?m div 128) \<le> int ?m" by (simp only: of_nat_le_iff div_le_dividend)
  then have "uint (word_of_nat (?m div 128) :: u128) = int (?m div 128)"
    using le_less_trans [OF _ lt'] by (intro uint_of_nat_small)
  then have acc: "uint ?acc = int (?m div 128)" by auto
  have "uint ?b = int (?m mod 128)"
    by (rule uint_of_nat_small) (rule le_less_trans [of _ 127], simp_all)
  then have nb: "?b < 128" by (simp add: word_less_def)
  have "varint_decode (map word_of_nat (digits ?m) @ bs) =
      varint_decode_loop (?b # bs) ?acc (length (digits ?m) - 1)"
  proof (cases "?m < 128")
    case True
    then show ?thesis by (simp add: varint_decode_def digits_def)
  next
    case False
    then have "int (?m div 128 - 1) < 2 ^ 128 - 1" "Suc (?m div 128 - 1) = ?m div 128"
      using lt by linarith+
    then show ?thesis using False decode_flagged [of "?m div 128 - 1" "?b # bs" 0]
      by (simp add: varint_decode_def digits_def)
  qed
  moreover have "saturating_add (saturating_mul ?acc 128) (ucast ?b) = n"
  proof -
    have sum: "uint ?acc * 128 + uint (ucast ?b :: u128) = int ?m"
      unfolding acc b by (simp add: zdiv_int zmod_int del: uint_nat)
    have "uint (saturating_add (saturating_mul ?acc 128) (ucast ?b)) = uint n"
      using sat_step [of ?acc "ucast ?b"] lt unfolding sum by simp
    then show ?thesis by (rule unsigned_word_eqI)
  qed
  ultimately show ?thesis using nb by (simp add: Let_def digits_def)
qed

lemma varint_decode_loop_length:
  "snd (varint_decode_loop bs n i) \<le> i + length bs \<and> (bs \<noteq> [] \<longrightarrow> i < snd (varint_decode_loop bs n i))"
proof (induction bs arbitrary: n i)
  case (Cons b bs)
  show ?case using Cons.IH [of "saturating_add (saturating_mul n 128) (ucast b - 127)" "i + 1"]
    by (cases "bs = []") (auto simp: Let_def)
qed simp

lemma varint_decode_length:
  "snd (varint_decode bs) \<le> length bs" "bs \<noteq> [] \<Longrightarrow> 0 < snd (varint_decode bs)"
  using varint_decode_loop_length [of bs 0 0] by (auto simp: varint_decode_def)

section \<open>Sequences of integers\<close>

text \<open>\<open>Dunestone::integers\<close>: every step reads at least one byte, so the loop ends.\<close>

function integers :: "bytes \<Rightarrow> u128 list" where
  "integers payload =
     (if payload = [] then []
      else let (integer, len) = varint_decode payload in integer # integers (drop len payload))"
  by pat_completeness auto

termination
proof (relation "measure length")
  show "(drop y payload, payload) \<in> measure length"
    if "payload \<noteq> []" "x = varint_decode payload" "(z, y) = x" for payload x y z
    using that varint_decode_length(2) [of payload] by (cases "varint_decode payload") auto
qed simp

declare integers.simps [simp del]

fun varint_encode_all :: "u128 list \<Rightarrow> bytes \<Rightarrow> bytes option" where
  "varint_encode_all [] v = Some v"
| "varint_encode_all (n # ns) v = Option.bind (varint_encode_to_vec n v) (varint_encode_all ns)"

lemma encode_all_digits:
  "varint_encode_all ns v = Some (v @ concat (map (\<lambda>n. map word_of_nat (digits (unat n))) ns))"
  by (induction ns arbitrary: v) (simp_all add: varint_encode_digits)

lemma integers_digits: "integers (concat (map (\<lambda>n. map word_of_nat (digits (unat n))) ns)) = ns"
proof (induction ns)
  case (Cons n ns)
  then show ?case by (subst integers.simps) (simp add: decode_digits, simp add: digits_def)
qed (simp add: integers.simps)

section \<open>Properties\<close>

text \<open>
  Every list of 128-bit integers can be encoded (the 19 bytes always suffice) and the reader
  of a dunestone's payload gives back exactly that list; in particular no value saturates.
\<close>

theorem varint_roundtrip: "map_option integers (varint_encode_all ns []) = Some ns"
  by (simp add: encode_all_digits integers_digits)

end
