(* ===== verification/Dune_Names.thy ===== *)
theory Dune_Names
  imports Dune_Varint
begin

text \<open>
  Names and identifiers of dunes (\<open>storage/runes/dunes/\<close>: \<open>dune.rs\<close>, \<open>spaced_dune.rs\<close>,
  \<open>dune_id.rs\<close>, \<open>chain.rs\<close>). A name is a number written in bijective base 26; spacers are
  bullets between its letters, one bit each; an identifier is the height and the index of the
  etching transaction. Text is a list of Unicode code points. The constant
  \<open>SUBSIDY_HALVING_INTERVAL\<close> of the \<open>bitcoin\<close> crate is 210000.
\<close>

section \<open>Names\<close>

type_synonym code_points = "nat list"

function dune_symbol :: "u128 \<Rightarrow> code_points" where
  "dune_symbol n = (if n = 0 then [] else (65 + unat ((n - 1) mod 26)) # dune_symbol ((n - 1) div 26))"
  by pat_completeness auto

termination
proof (relation "measure unat")
  fix n :: u128
  assume "n \<noteq> 0"
  then have "0 < unat n" by (simp add: unat_gt_0)
  then have "(unat n - 1) div 26 < unat n" using div_le_dividend [of "unat n - 1" 26] by linarith
  then show "((n - 1) div 26, n) \<in> measure unat" using \<open>n \<noteq> 0\<close> by (simp add: unat_div unat_minus_one)
qed simp

declare dune_symbol.simps [simp del]

definition dune_to_string :: "u128 \<Rightarrow> code_points" where
  "dune_to_string n =
     (if n = - 1 then map of_char ''BCGDENLQRQWDSLRUGSNLBTMFIJAV'' else rev (dune_symbol (n + 1)))"

datatype NameError = OutOfRange | InvalidCharacter nat

fun dune_parse_loop :: "code_points \<Rightarrow> nat \<Rightarrow> u128 \<Rightarrow> NameError + u128" where
  "dune_parse_loop [] i x = Inr x"
| "dune_parse_loop (c # cs) i x =
     (case checked_mul (if i > 0 then x + 1 else x) 26 of
        None \<Rightarrow> Inl OutOfRange
      | Some x \<Rightarrow>
        if 65 \<le> c \<and> c \<le> 90 then
          (case checked_add x (word_of_nat (c - 65)) of
             None \<Rightarrow> Inl OutOfRange
           | Some x \<Rightarrow> dune_parse_loop cs (Suc i) x)
        else Inl (InvalidCharacter c))"

definition dune_from_str :: "code_points \<Rightarrow> NameError + u128" where
  "dune_from_str s = dune_parse_loop s 0 0"

definition RESERVED :: u128 where
  "RESERVED = 6402364363415443603228541259936211926"

definition is_reserved :: "u128 \<Rightarrow> bool" where
  "is_reserved dune \<longleftrightarrow> dune \<ge> RESERVED"

definition reserved :: "u128 \<Rightarrow> u128 option" where
  "reserved n = checked_add RESERVED n"

section \<open>The shortest name that can be etched\<close>

datatype Chain = Mainnet | Testnet | Signet | Regtest

fun first_dune_height :: "Chain \<Rightarrow> u32" where
  "first_dune_height Mainnet = 5084000"
| "first_dune_height Regtest = 0"
| "first_dune_height Signet = 0"
| "first_dune_height Testnet = 4250000"

definition SUBSIDY_HALVING_INTERVAL_10X :: u32 where
  "SUBSIDY_HALVING_INTERVAL_10X = 210000 * 10"

definition INTERVAL :: u32 where
  "INTERVAL = SUBSIDY_HALVING_INTERVAL_10X div 12"

definition STEPS :: "u128 list" where
  "STEPS = [0, 26, 702, 18278, 475254, 12356630, 321272406, 8353082582, 217180147158,
     5646683826134, 146813779479510, 3817158266467286, 99246114928149462, 2580398988131886038,
     67090373691429037014, 1744349715977154962390, 45353092615406029022166,
     1179180408000556754576342, 30658690608014475618984918, 797125955808376366093607894,
     20725274851017785518433805270, 538857146126462423479278937046,
     14010285799288023010461252363222, 364267430781488598271992561443798,
     9470953200318703555071806597538774, 246244783208286292431866971536008150,
     6402364363415443603228541259936211926, 166461473448801533683942072758341510102]"

definition minimum_at_height :: "Chain \<Rightarrow> u32 \<Rightarrow> u128" where
  "minimum_at_height chain height =
     (let offset = saturating_add height 1;
          start = first_dune_height chain;
          end_height = start + SUBSIDY_HALVING_INTERVAL_10X
      in if offset < start then STEPS ! 12
         else if offset \<ge> end_height then 0
         else
           let progress = saturating_sub offset start;
               len = saturating_sub 12 (progress div INTERVAL);
               upper = STEPS ! unat len;
               lower = STEPS ! unat (len - 1);
               remainder = ucast (progress mod INTERVAL)
           in upper - (upper - lower) * remainder div ucast INTERVAL)"

section \<open>Spaced names\<close>

record SpacedDune =
  sd_dune :: u128
  sd_spacers :: u32

datatype SpacedError = LeadingSpacer | DoubleSpacer | TrailingSpacer | BadCharacter | BadName NameError

fun spaced_parse_loop :: "code_points \<Rightarrow> code_points \<Rightarrow> u32 \<Rightarrow> SpacedError + code_points \<times> u32" where
  "spaced_parse_loop [] dune spacers = Inr (dune, spacers)"
| "spaced_parse_loop (c # cs) dune spacers =
     (if 65 \<le> c \<and> c \<le> 90 then spaced_parse_loop cs (dune @ [c]) spacers
      else if c = 0x2E \<or> c = 0x2022 then
        (case length dune of 0 \<Rightarrow> Inl LeadingSpacer
         | Suc k \<Rightarrow>
           let flag = push_bit (k mod 32) 1 in
           if spacers AND flag \<noteq> 0 then Inl DoubleSpacer
           else spaced_parse_loop cs dune (spacers OR flag))
      else Inl BadCharacter)"

definition leading_zeros :: "u32 \<Rightarrow> nat" where
  "leading_zeros w = length (takeWhile Not (map (bit w) (rev [0..<32])))"

definition spaced_from_str :: "code_points \<Rightarrow> SpacedError + SpacedDune" where
  "spaced_from_str s =
     and_then (spaced_parse_loop s [] 0) (\<lambda>(dune, spacers).
       if 32 - leading_zeros spacers \<ge> length dune then Inl TrailingSpacer
       else case dune_from_str dune of
           Inl e \<Rightarrow> Inl (BadName e)
         | Inr d \<Rightarrow> Inr \<lparr>sd_dune = d, sd_spacers = spacers\<rparr>)"

fun spaced_display_loop :: "nat \<Rightarrow> u32 \<Rightarrow> nat \<Rightarrow> code_points \<Rightarrow> code_points" where
  "spaced_display_loop len spacers i [] = []"
| "spaced_display_loop len spacers i (c # cs) =
     c # (if i < len - 1 \<and> spacers AND push_bit i 1 \<noteq> 0 then [0x2022] else []) @
     spaced_display_loop len spacers (Suc i) cs"

definition spaced_to_string :: "SpacedDune \<Rightarrow> code_points" where
  "spaced_to_string d =
     (let dune = dune_to_string (sd_dune d)
      in spaced_display_loop (length dune) (sd_spacers d) 0 dune)"

section \<open>Identifiers\<close>

record DuneId =
  di_height :: u64
  di_index :: u32

definition dune_id_try_from :: "u128 \<Rightarrow> DuneId option" where
  "dune_id_try_from n =
     (case try_from (drop_bit 16 n) of None \<Rightarrow> None
      | Some height \<Rightarrow> Some \<lparr>di_height = height, di_index = ucast (n AND 0xFFFF)\<rparr>)"

definition dune_id_into :: "DuneId \<Rightarrow> u128" where
  "dune_id_into d = push_bit 16 (ucast (di_height d)) OR ucast (di_index d)"

definition dune_id_to_string :: "DuneId \<Rightarrow> string" where
  "dune_id_to_string d = dec_string (unat (di_height d)) @ '':'' @ dec_string (unat (di_index d))"

fun split_once :: "char \<Rightarrow> string \<Rightarrow> (string \<times> string) option" where
  "split_once c [] = None"
| "split_once c (x # xs) =
     (if x = c then Some ([], xs) else map_option (\<lambda>(a, b). (x # a, b)) (split_once c xs))"

definition dune_id_from_str :: "string \<Rightarrow> DuneId option" where
  "dune_id_from_str s =
     Option.bind (split_once (CHR '':'') s) (\<lambda>(height, index).
     Option.bind (parse_uint height) (\<lambda>h.
     Option.bind (parse_uint index) (\<lambda>i. Some \<lparr>di_height = h, di_index = i\<rparr>)))"

definition CLAIM_BIT :: u128 where
  "CLAIM_BIT = push_bit 48 1"

definition claim :: "u128 \<Rightarrow> u128 option" where
  "claim i = (if i AND CLAIM_BIT \<noteq> 0 then Some (i XOR CLAIM_BIT) else None)"

section \<open>Names round-trip\<close>

fun name_nat :: "nat \<Rightarrow> code_points" where
  "name_nat m = (if m = 0 then [] else name_nat ((m - 1) div 26) @ [65 + (m - 1) mod 26])"

declare name_nat.simps [simp del]

lemma dune_symbol_name: "rev (dune_symbol n) = name_nat (unat n)"
proof (induction n rule: dune_symbol.induct)
  case (1 n)
  have "unat ((n - 1) mod 26) = (unat n - 1) mod 26" "unat ((n - 1) div 26) = (unat n - 1) div 26" if "n \<noteq> 0"
    using that by (simp_all add: unat_mod unat_div unat_minus_one)
  with 1 show ?case by (simp add: dune_symbol.simps [of n] name_nat.simps [of "unat n"] unat_eq_zero)
qed

lemma letter_bound: "65 + k mod 26 \<le> (90 :: nat)"
proof -
  have "k mod 26 < 26" by simp
  then show ?thesis by linarith
qed

lemma name_nat_letters: "\<forall>c\<in>set (name_nat m). 65 \<le> c \<and> c \<le> 90"
proof (induction m rule: name_nat.induct)
  case (1 m)
  then show ?case using letter_bound [of "m - 1"] by (subst name_nat.simps) auto
qed

lemma name_nat_nonempty: "0 < m \<Longrightarrow> name_nat m \<noteq> []"
  by (subst name_nat.simps) simp

lemma parse_name_nat:
  assumes "0 < m" "int m - 1 < 2 ^ 128"
  shows "dune_parse_loop (name_nat m @ cs) 0 0 = dune_parse_loop cs (length (name_nat m)) (word_of_nat (m - 1))"
  using assms
proof (induction m arbitrary: cs rule: name_nat.induct)
  case (1 m)
  let ?q = "(m - 1) div 26" and ?r = "(m - 1) mod 26"
  let ?c = "65 + ?r"
  let ?x = "word_of_nat ?q :: u128"
  have q: "int ?q * 26 + int ?r = int (m - 1)"
    by (metis div_mult_mod_eq of_nat_add of_nat_mult of_nat_numeral)
  have lt: "int (m - 1) < 2 ^ 128" using "1.prems" by linarith
  have qlt: "int ?q < 2 ^ LENGTH(128)" and rlt: "int ?r < 2 ^ LENGTH(128)"
    using q lt by simp_all
  have ux: "uint ?x = int ?q" and ur: "uint (word_of_nat ?r :: u128) = int ?r"
    using uint_of_nat_small [OF qlt] uint_of_nat_small [OF rlt] by simp_all
  have mul: "checked_mul ?x 26 = Some (?x * 26)" and um: "uint (?x * 26) = int ?q * 26"
    using q lt ux by (simp_all add: checked_mul_def uint_times_small)
  have add: "checked_add (?x * 26) (word_of_nat ?r) = Some (word_of_nat (m - 1))"
  proof -
    have "uint (?x * 26 + word_of_nat ?r) = int (m - 1)"
      using um ur q lt by (subst uint_plus_small) simp_all
    then have "?x * 26 + word_of_nat ?r = word_of_nat (m - 1)"
      by (metis of_int_of_nat_eq word_of_int_uint)
    then show ?thesis using um ur q lt by (simp add: checked_add_def)
  qed
  have step: "dune_parse_loop (?c # cs) i y = dune_parse_loop cs (Suc i) (word_of_nat (m - 1))"
    if "(if i > 0 then y + 1 else y) = ?x" for i y
    using that mul add letter_bound [of "m - 1"] by simp
  show ?case
  proof (cases "?q = 0")
    case True
    then show ?thesis using "1.prems" step [of 0 0] by (subst name_nat.simps) (simp add: name_nat.simps [of m] name_nat.simps [of 0])
  next
    case False
    have "int ?q - 1 < 2 ^ 128" using qlt by simp
    then have ih: "dune_parse_loop (name_nat ?q @ ?c # cs) 0 0 =
        dune_parse_loop (?c # cs) (length (name_nat ?q)) (word_of_nat (?q - 1))"
      using "1.IH" [of "?c # cs"] "1.prems" False by blast
    have "0 < length (name_nat ?q)" using False name_nat_nonempty [of ?q] by simp
    moreover have "word_of_nat (?q - 1) + 1 = ?x" using False by (metis Suc_pred' add.commute neq0_conv of_nat_Suc)
    ultimately show ?thesis using step ih "1.prems" by (simp add: name_nat.simps [of m])
  qed
qed

lemma dune_roundtrip: "dune_from_str (dune_to_string n) = Inr n"
proof (cases "n = - 1")
  case True
  have "dune_from_str (map of_char ''BCGDENLQRQWDSLRUGSNLBTMFIJAV'') = Inr (- 1)"
    unfolding dune_from_str_def by code_simp
  then show ?thesis using True by (simp add: dune_to_string_def)
next
  case False
  then have "uint n \<noteq> uint (- 1 :: u128)" by (metis word_of_int_uint)
  then have "uint n + uint (1 :: u128) < 2 ^ LENGTH(128)"
    using uint_lt2p [of n] by (simp add: uint_max del: unsigned_minus_1_eq_mask)
  then have "uint (n + 1) = uint n + 1" by (simp add: uint_plus_small)
  then have "int (unat (n + 1)) = int (Suc (unat n))" by simp
  then have "unat (n + 1) = Suc (unat n)" by (simp only: of_nat_eq_iff)
  then have "dune_to_string n = name_nat (Suc (unat n))" using False by (simp add: dune_to_string_def dune_symbol_name)
  moreover have "int (Suc (unat n)) - 1 < 2 ^ 128" using uint_lt2p [of n] by simp
  ultimately show ?thesis using parse_name_nat [of "Suc (unat n)" "[]"] by (simp add: dune_from_str_def)
qed

section \<open>Spacers round-trip\<close>

lemma length_name_nat: "m < 26 ^ k \<Longrightarrow> length (name_nat m) \<le> k"
proof (induction k arbitrary: m)
  case (Suc k)
  have "(m - 1) div 26 < 26 ^ k" using Suc.prems by (simp add: less_mult_imp_div_less)
  from Suc.IH [OF this] show ?case by (simp add: name_nat.simps [of m])
qed (simp add: name_nat.simps [of 0])

lemma dune_to_string_shape:
  "(\<forall>c\<in>set (dune_to_string n). 65 \<le> c \<and> c \<le> 90) \<and> dune_to_string n \<noteq> [] \<and> length (dune_to_string n) \<le> 28"
proof (cases "n = - 1")
  case True
  have "list_all (\<lambda>c. 65 \<le> c \<and> c \<le> 90) (dune_to_string (- 1))" "length (dune_to_string (- 1)) = 28"
    by (simp_all add: dune_to_string_def)
  then show ?thesis using True by (auto simp: list_all_iff)
next
  case False
  have "unat (n + 1) < 2 ^ LENGTH(128)" by (rule unsigned_less)
  then have "unat (n + 1) < 26 ^ 28" by simp
  moreover have "n + 1 \<noteq> 0" using False by (metis add.commute add_eq_0_iff)
  then have "0 < unat (n + 1)" by (simp add: unat_gt_0)
  ultimately show ?thesis using False length_name_nat [of "unat (n + 1)" 28] name_nat_nonempty [of "unat (n + 1)"]
    by (simp add: dune_to_string_def dune_symbol_name name_nat_letters)
qed

lemma take_bit_Suc_or:
  "take_bit (Suc i) w = (if bit w i then take_bit i w OR 2 ^ i else take_bit i w)" for w :: "'a::len word"
  by (rule bit_eqI) (auto simp: bit_simps less_Suc_eq)

lemma take_bit_and_flag: "take_bit i w AND 2 ^ i = 0" for w :: "'a::len word"
  by (rule bit_eqI) (auto simp: bit_simps)

lemma flag_iff: "w AND 2 ^ i = 0 \<longleftrightarrow> \<not> bit w i" for w :: "'a::len word"
  using bit_iff_and_push_bit_not_eq_0 [of w i] by simp

lemma bits_above:
  assumes "unat w < 2 ^ k" "k \<le> j"
  shows "\<not> bit w j"
proof -
  have "take_bit k w = w"
    by (rule unsigned_word_eqI [where ?'a = nat]) (simp add: assms(1) unsigned_take_bit_eq take_bit_nat_eq_self)
  then show ?thesis using assms(2) by (metis bit_take_bit_iff not_le)
qed

lemma spaced_loop_inv:
  assumes "n \<le> 32" "\<forall>c\<in>set cs. 65 \<le> c \<and> c \<le> 90" "length dn = i" "i + length cs = n" "\<forall>j \<ge> n - 1. \<not> bit S j"
  shows "spaced_parse_loop (spaced_display_loop n S i cs) dn (take_bit i S) = Inr (dn @ cs, take_bit n S)"
  using assms
proof (induction cs arbitrary: i dn)
  case (Cons c cs)
  have ih: "spaced_parse_loop (spaced_display_loop n S (Suc i) cs) (dn @ [c]) (take_bit (Suc i) S) =
      Inr ((dn @ [c]) @ cs, take_bit n S)"
    by (rule Cons.IH) (use Cons.prems in auto)
  have im: "i mod 32 = i" using Cons.prems by simp
  show ?case
  proof (cases "bit S i")
    case True
    then have "i < n - 1" using Cons.prems(5) not_less by blast
    then show ?thesis using True ih Cons.prems im
      by (simp add: flag_iff take_bit_and_flag take_bit_Suc_or [of i S] Let_def)
  next
    case False
    then show ?thesis using ih Cons.prems by (simp add: flag_iff take_bit_Suc_or [of i S])
  qed
qed simp

lemma leading_zeros_small:
  assumes "\<forall>j \<ge> k. \<not> bit w j" "k \<le> 32"
  shows "32 - leading_zeros w \<le> k"
proof -
  have "rev [0..<32] = rev [k..<32] @ rev [0..<k]"
    using assms(2) upt_add_eq_append [of 0 k "32 - k"] by simp
  then have "map (bit w) (rev [0..<32]) = map (bit w) (rev [k..<32]) @ map (bit w) (rev [0..<k])" by simp
  moreover have "takeWhile Not (map (bit w) (rev [k..<32]) @ ys) = map (bit w) (rev [k..<32]) @ takeWhile Not ys" for ys
    using assms(1) by (intro takeWhile_append2) auto
  ultimately show ?thesis by (simp add: leading_zeros_def)
qed

lemma spaced_roundtrip:
  assumes "unat (sd_spacers d) < 2 ^ (length (dune_to_string (sd_dune d)) - 1)"
  shows "spaced_from_str (spaced_to_string d) = Inr d"
proof -
  let ?s = "dune_to_string (sd_dune d)" and ?S = "sd_spacers d"
  note shape = dune_to_string_shape [of "sd_dune d"]
  have bits: "\<forall>j \<ge> length ?s - 1. \<not> bit ?S j" using bits_above [OF assms] by blast
  then have "\<forall>j \<ge> length ?s. \<not> bit ?S j" by (meson diff_le_self le_trans)
  then have "take_bit (length ?s) ?S = ?S" by (intro bit_eqI) (auto simp: bit_simps not_le [symmetric])
  then have loop: "spaced_parse_loop (spaced_to_string d) [] 0 = Inr (?s, ?S)"
    using spaced_loop_inv [of "length ?s" ?s "[]" 0 ?S] shape bits by (simp add: spaced_to_string_def Let_def)
  have "length ?s - 1 \<le> 32" using shape by linarith
  then have "32 - leading_zeros ?S \<le> length ?s - 1" by (rule leading_zeros_small [OF bits])
  moreover have "0 < length ?s" using shape by simp
  ultimately have "\<not> 32 - leading_zeros ?S \<ge> length ?s" by linarith
  then show ?thesis using loop dune_roundtrip [of "sd_dune d"] by (simp add: spaced_from_str_def)
qed

section \<open>Identifiers round-trip\<close>

lemma dune_id_number_roundtrip:
  assumes "di_index d < 2 ^ 16"
  shows "dune_id_try_from (dune_id_into d) = Some d"
proof -
  have "unat (di_index d) < 2 ^ 16" using assms by (simp add: word_less_nat_alt)
  note idx = bits_above [OF this]
  have hi: "drop_bit 16 (dune_id_into d) = ucast (di_height d)"
    using idx by (intro bit_eqI) (auto simp: dune_id_into_def bit_simps dest: bit_imp_le_length)
  have lo: "ucast (dune_id_into d AND 0xFFFF) = di_index d"
  proof -
    have "dune_id_into d AND 0xFFFF = take_bit 16 (dune_id_into d)" by (simp add: take_bit_eq_mask mask_eq_exp_minus_1)
    then show ?thesis
      using idx by (intro bit_eqI) (auto simp: dune_id_into_def bit_simps dest: bit_imp_le_length)
  qed
  show ?thesis using hi lo by (simp add: dune_id_try_from_def try_from_ucast)
qed

lemma dune_id_of_number:
  assumes "dune_id_try_from n = Some d"
  shows "dune_id_into d = n \<and> di_index d < 2 ^ 16"
proof -
  have h: "try_from (drop_bit 16 n) = Some (di_height d)" and i: "di_index d = ucast (n AND 0xFFFF)"
    using assms by (auto simp: dune_id_try_from_def split: option.splits)
  have lo: "n AND 0xFFFF = take_bit 16 n" by (simp add: take_bit_eq_mask mask_eq_exp_minus_1)
  have "uint (ucast (di_height d) :: u128) = uint (drop_bit 16 n)"
    using try_from_Some [OF h] by (simp add: unsigned_ucast_eq bintr_uint)
  then have hi: "ucast (di_height d) = drop_bit 16 n" by (rule unsigned_word_eqI)
  have "bit n m \<longleftrightarrow> bit (dune_id_into d) m" if "m < 128" for m
    using that by (cases "m < 16") (auto simp: dune_id_into_def hi i lo bit_simps dest: bit_imp_le_length)
  then have "dune_id_into d = n" by (intro bit_eqI) (auto dest: bit_imp_le_length)
  moreover have "di_index d < 2 ^ 16"
  proof -
    have "di_index d = take_bit 16 (ucast n)" unfolding i lo by (intro bit_eqI) (auto simp: bit_simps)
    then have "unat (di_index d) = take_bit 16 (unat (ucast n :: u32))" by (simp add: unsigned_take_bit_eq)
    then have "unat (di_index d) < 2 ^ 16" using take_bit_nat_less_exp [of 16 "unat (ucast n :: u32)"] by simp
    then show ?thesis by (simp add: word_less_nat_alt)
  qed
  ultimately show ?thesis ..
qed

lemma split_once_append: "c \<notin> set xs \<Longrightarrow> split_once c (xs @ c # ys) = Some (xs, ys)"
  by (induction xs) auto

lemma dune_id_string_roundtrip: "dune_id_from_str (dune_id_to_string d) = Some d"
proof -
  have "\<not> is_digit (CHR '':'')" by (simp add: is_digit_def)
  then have "CHR '':'' \<notin> set (dec_string (unat (di_height d)))"
    using dec_string_digits [of "unat (di_height d)"] by (auto simp: list_all_iff)
  then show ?thesis by (simp add: dune_id_from_str_def dune_id_to_string_def split_once_append)
qed

section \<open>The minimum falls with the height\<close>

definition step_floor :: "nat \<Rightarrow> nat \<Rightarrow> int" where
  "step_floor l r = uint (STEPS ! l) - (uint (STEPS ! l) - uint (STEPS ! (l - 1))) * int r div 175000"

lemma steps_bounds:
  assumes "1 \<le> l" "l \<le> 12"
  shows "uint (STEPS ! (l - 1)) \<le> uint (STEPS ! l) \<and> uint (STEPS ! l) < 2 ^ 64"
proof -
  have "list_all (\<lambda>l. uint (STEPS ! (l - 1)) \<le> uint (STEPS ! l) \<and> uint (STEPS ! l) < 2 ^ 64) [1..<13]"
    by code_simp
  then show ?thesis using assms by (auto simp: list_all_iff)
qed

lemma steps_mono: "l \<le> m \<Longrightarrow> m \<le> 12 \<Longrightarrow> uint (STEPS ! l) \<le> uint (STEPS ! m)"
proof (induction m)
  case (Suc m)
  then show ?case using steps_bounds [of "Suc m"] by (cases "l = Suc m") auto
qed simp

lemma step_floor_range:
  assumes "1 \<le> l" "l \<le> 12" "r < 175000"
  shows "uint (STEPS ! (l - 1)) \<le> step_floor l r \<and> step_floor l r \<le> uint (STEPS ! l)"
proof -
  let ?d = "uint (STEPS ! l) - uint (STEPS ! (l - 1))"
  have d: "0 \<le> ?d" using steps_bounds [OF assms(1,2)] by simp
  then have "?d * int r \<le> ?d * 175000" using assms(3) by (intro mult_left_mono) auto
  then have "?d * int r div 175000 \<le> ?d * 175000 div 175000" by (rule zdiv_mono1) simp
  then have "?d * int r div 175000 \<le> ?d" by simp
  moreover have "0 \<le> ?d * int r div 175000" using d by (simp add: pos_imp_zdiv_nonneg_iff)
  ultimately show ?thesis unfolding step_floor_def by linarith
qed

lemma step_floor_mono:
  assumes "1 \<le> l" "l \<le> 12" "r \<le> s"
  shows "step_floor l s \<le> step_floor l r"
proof -
  let ?d = "uint (STEPS ! l) - uint (STEPS ! (l - 1))"
  have "?d * int r \<le> ?d * int s" using steps_bounds [OF assms(1,2)] assms(3) by (intro mult_left_mono) auto
  then have "?d * int r div 175000 \<le> ?d * int s div 175000" by (rule zdiv_mono1) simp
  then show ?thesis by (simp add: step_floor_def)
qed

definition height_offset :: "u32 \<Rightarrow> nat" where
  "height_offset h = unat (saturating_add h 1)"

lemma height_offset_mono: "h \<le> k \<Longrightarrow> height_offset h \<le> height_offset k"
  by (simp add: height_offset_def unat_eq_nat_uint uint_saturating_add word_le_def nat_le_iff)

text \<open>The minimum as a function of the blocks since the first height, on unbounded integers.\<close>

definition minimum_spec :: "nat \<Rightarrow> nat \<Rightarrow> int" where
  "minimum_spec start offset =
     (if offset < start then uint (STEPS ! 12)
      else if start + 2100000 \<le> offset then 0
      else step_floor (12 - (offset - start) div 175000) ((offset - start) mod 175000))"

lemma interpolate_word:
  assumes "1 \<le> l" "l \<le> 12" "unat r < 175000"
  shows "uint (STEPS ! l - (STEPS ! l - STEPS ! (l - 1)) * ucast (r :: u32) div ucast (175000 :: u32)) =
    step_floor l (unat r)"
proof -
  let ?u = "STEPS ! l" and ?v = "STEPS ! (l - 1)"
  note b = steps_bounds [OF assms(1,2)]
  have r: "uint (ucast r :: u128) = int (unat r)" by (simp add: unsigned_ucast_eq bintr_uint)
  have d: "uint (?u - ?v) = uint ?u - uint ?v" using b by (simp add: uint_sub_if')
  have dd: "uint ?u - uint ?v \<le> 2 ^ 64" using b uint_nonnegative [of ?v] by linarith
  have rr: "int (unat r) \<le> 175000" using assms(3) by linarith
  have "(uint ?u - uint ?v) * int (unat r) \<le> 2 ^ 64 * 175000" by (rule mult_mono [OF dd rr]) simp_all
  then have m: "uint ((?u - ?v) * ucast r) = (uint ?u - uint ?v) * int (unat r)"
    using d r by (subst uint_times_small) simp_all
  then have q: "uint ((?u - ?v) * ucast r div ucast (175000 :: u32)) = (uint ?u - uint ?v) * int (unat r) div 175000"
    by (simp add: uint_div unsigned_ucast_eq)
  have "(uint ?u - uint ?v) * int (unat r) div 175000 \<le> uint ?u"
    using step_floor_range [OF assms] uint_nonnegative [of ?v] unfolding step_floor_def by linarith
  then show ?thesis using q by (simp add: uint_sub_if' step_floor_def)
qed

lemma minimum_at_height_spec:
  "uint (minimum_at_height c h) = minimum_spec (unat (first_dune_height c)) (height_offset h)"
proof -
  let ?o = "saturating_add h 1" and ?s = "first_dune_height c"
  have s: "unat ?s \<le> 5084000" by (cases c) simp_all
  have e: "unat (?s + SUBSIDY_HALVING_INTERVAL_10X) = unat ?s + 2100000"
    by (cases c) (simp_all add: SUBSIDY_HALVING_INTERVAL_10X_def)
  have i: "INTERVAL = 175000" by (simp add: INTERVAL_def SUBSIDY_HALVING_INTERVAL_10X_def)
  have ui: "unat INTERVAL = 175000" by (simp add: i)
  show ?thesis
  proof (cases "?o < ?s \<or> ?o \<ge> ?s + SUBSIDY_HALVING_INTERVAL_10X")
    case True
    then show ?thesis using e
      by (auto simp: minimum_at_height_def minimum_spec_def height_offset_def Let_def word_less_nat_alt word_le_nat_alt)
  next
    case False
    let ?p = "unat ?o - unat ?s"
    have p: "unat (saturating_sub ?o ?s) = ?p" "?p < 2100000" "unat ?s \<le> unat ?o"
      using False e by (auto simp: saturating_sub_def word_less_nat_alt word_le_nat_alt unat_sub)
    have q: "unat (saturating_sub ?o ?s div INTERVAL) = ?p div 175000" using p(1) ui by (simp add: unat_div)
    have q12: "?p div 175000 \<le> 11" using p(2) by (simp add: less_mult_imp_div_less less_Suc_eq_le [symmetric])
    have l: "unat (saturating_sub 12 (saturating_sub ?o ?s div INTERVAL)) = 12 - ?p div 175000"
      using q q12 by (simp add: saturating_sub_def word_le_nat_alt unat_sub)
    then have l1: "unat (saturating_sub 12 (saturating_sub ?o ?s div INTERVAL) - 1) = 12 - ?p div 175000 - 1"
      using q12 by (subst unat_sub) (simp_all add: word_le_nat_alt)
    have r: "unat (saturating_sub ?o ?s mod INTERVAL) = ?p mod 175000" using p(1) ui by (simp add: unat_mod)
    have rl: "unat (saturating_sub ?o ?s mod INTERVAL) < 175000" unfolding r by simp
    have l12: "1 \<le> 12 - ?p div 175000" "12 - ?p div 175000 \<le> 12" using q12 by simp_all
    let ?L = "saturating_sub 12 (saturating_sub ?o ?s div INTERVAL)"
    have "minimum_at_height c h = STEPS ! unat ?L - (STEPS ! unat ?L - STEPS ! unat (?L - 1)) *
        ucast (saturating_sub ?o ?s mod INTERVAL) div ucast INTERVAL"
      using False by (simp only: minimum_at_height_def Let_def if_False de_Morgan_disj)
    then have "uint (minimum_at_height c h) = step_floor (12 - ?p div 175000) (?p mod 175000)"
      using interpolate_word [OF l12 rl, folded i] by (simp only: l l1 r)
    then show ?thesis using False p e
      by (simp add: minimum_spec_def height_offset_def word_less_nat_alt word_le_nat_alt)
  qed
qed

lemma minimum_spec_range: "0 \<le> minimum_spec s b \<and> minimum_spec s b \<le> uint (STEPS ! 12)"
proof (cases "s \<le> b \<and> b < s + 2100000")
  case True
  let ?q = "b - s"
  have "?q < 2100000" using True by auto
  then have "?q div 175000 \<le> 11" by (simp add: less_mult_imp_div_less less_Suc_eq_le [symmetric])
  then have l: "1 \<le> 12 - ?q div 175000" "12 - ?q div 175000 \<le> 12" by simp_all
  have "minimum_spec s b = step_floor (12 - ?q div 175000) (?q mod 175000)"
    using True by (simp add: minimum_spec_def)
  moreover have "?q mod 175000 < 175000" by simp
  ultimately show ?thesis
    using step_floor_range [OF l, of "?q mod 175000"] steps_mono [OF l(2) order_refl]
      uint_nonnegative [of "STEPS ! (12 - ?q div 175000 - 1)"] by linarith
next
  case False
  then show ?thesis by (auto simp: minimum_spec_def)
qed

lemma minimum_spec_mono:
  assumes "a \<le> b"
  shows "minimum_spec s b \<le> minimum_spec s a"
proof (cases "s \<le> a \<and> b < s + 2100000")
  case True
  let ?p = "a - s" and ?q = "b - s"
  have pq: "?p \<le> ?q" "?q < 2100000" using assms True by auto
  have d: "?p div 175000 \<le> ?q div 175000" "?q div 175000 \<le> 11" "?p div 175000 \<le> 11"
    using pq by (simp_all add: div_le_mono less_mult_imp_div_less less_Suc_eq_le [symmetric])
  let ?l = "12 - ?p div 175000" and ?m = "12 - ?q div 175000"
  have "step_floor ?m (?q mod 175000) \<le> step_floor ?l (?p mod 175000)"
  proof (cases "?l = ?m")
    case True
    then have "?p div 175000 = ?q div 175000" using d by linarith
    then have "?p mod 175000 \<le> ?q mod 175000"
      using pq(1) div_mult_mod_eq [of ?p 175000] div_mult_mod_eq [of ?q 175000] by linarith
    moreover have "1 \<le> ?l" "?l \<le> 12" using d by linarith+
    ultimately show ?thesis using step_floor_mono [of ?l] True by metis
  next
    case False
    have "step_floor ?m (?q mod 175000) \<le> uint (STEPS ! ?m)" using step_floor_range [of ?m] d by simp
    also have "uint (STEPS ! ?m) \<le> uint (STEPS ! (?l - 1))"
    proof (rule steps_mono)
      show "?m \<le> ?l - 1" using False d by linarith
    qed simp
    also have "uint (STEPS ! (?l - 1)) \<le> step_floor ?l (?p mod 175000)" using step_floor_range [of ?l] d by simp
    finally show ?thesis .
  qed
  then show ?thesis using True assms by (simp add: minimum_spec_def)
next
  case False
  then consider "a < s" | "s + 2100000 \<le> b" by linarith
  then show ?thesis
  proof cases
    case 1
    then show ?thesis using minimum_spec_range [of s b] by (simp add: minimum_spec_def [of s a])
  next
    case 2
    then show ?thesis using minimum_spec_range [of s a] by (simp add: minimum_spec_def [of s b])
  qed
qed

section \<open>Properties\<close>

text \<open>
  C38. Every number is the value of its name: printing a dune in letters and parsing the letters
  gives back the number, for all 128-bit values including the largest one, which is printed from a
  constant.
\<close>

theorem dune_name_roundtrip: "dune_from_str (dune_to_string n) = Inr n"
  by (rule dune_roundtrip)

text \<open>
  A spaced name parses back to the same dune and spacers, provided no spacer lies at or after
  the last letter (the printer drops such spacers).
\<close>

theorem spaced_dune_roundtrip:
  assumes "unat (sd_spacers d) < 2 ^ (length (dune_to_string (sd_dune d)) - 1)"
  shows "spaced_from_str (spaced_to_string d) = Inr d"
  using assms by (rule spaced_roundtrip)

theorem spaced_dune_roundtrip_witness:
  "spaced_from_str (spaced_to_string \<lparr>sd_dune = 702, sd_spacers = 3\<rparr>) = Inr \<lparr>sd_dune = 702, sd_spacers = 3\<rparr>"
proof -
  have "dune_to_string 702 = [65, 65, 65]"
    by (simp add: dune_to_string_def dune_symbol.simps)
  then show ?thesis using spaced_dune_roundtrip [of "\<lparr>sd_dune = 702, sd_spacers = 3\<rparr>"] by simp
qed

text \<open>
  Identifiers round-trip: through text always, and through the 128-bit number used in edicts
  exactly when the transaction index fits the sixteen bits that number has for it.
\<close>

theorem dune_id_roundtrips:
  "dune_id_from_str (dune_id_to_string d) = Some d \<and>
   (dune_id_try_from (dune_id_into d) = Some d \<longleftrightarrow> di_index d < 2 ^ 16)"
  using dune_id_string_roundtrip dune_id_number_roundtrip dune_id_of_number by blast

text \<open>
  The shortest name that may be etched never grows with the height of the block.
\<close>

theorem minimum_falls_with_height:
  assumes "h \<le> k"
  shows "minimum_at_height c k \<le> minimum_at_height c h"
  unfolding word_le_def minimum_at_height_spec
  by (rule minimum_spec_mono) (rule height_offset_mono [OF assms])

theorem minimum_falls_with_height_witness:
  "minimum_at_height Mainnet 6000000 \<le> minimum_at_height Mainnet 5084000"
  by (rule minimum_falls_with_height) simp

text \<open>
  The parser of names wraps around where it adds one per letter: a letter appended to the name
  of the largest value is accepted, and the result is the name of a single letter.
\<close>

theorem dune_parse_wraps:
  "dune_from_str (map of_char ''BCGDENLQRQWDSLRUGSNLBTMFIJAVA'') = Inr 0 \<and>
   dune_to_string 0 = map of_char ''A''"
proof
  show "dune_from_str (map of_char ''BCGDENLQRQWDSLRUGSNLBTMFIJAVA'') = Inr 0"
    unfolding dune_from_str_def by code_simp
  show "dune_to_string 0 = map of_char ''A''" by (simp add: dune_to_string_def dune_symbol.simps)
qed

end
