(* ===== verification/Bitcoin_Types.thy ===== *)
theory Bitcoin_Types
  imports Rust_Prelude
begin

text \<open>
  Transactions as the indexer reads them. The parts of the \<open>bitcoin\<close> crate that the code calls
  on scripts and out-points are parameters, collected in a record; what the code relies on is
  stated where it is used.
\<close>

datatype Instruction = Op u8 | PushBytes bytes

record OutPoint =
  op_txid :: bytes
  op_vout :: u32

record TxIn =
  ti_previous_output :: OutPoint
  ti_script_sig :: bytes

record TxOut =
  to_value :: u64
  to_script_pubkey :: bytes

record Transaction =
  tx_input :: "TxIn list"
  tx_output :: "TxOut list"

text \<open>
  \<open>bc_instructions\<close> iterates over a script: instructions, with an error where parsing fails.
  \<open>bc_txid\<close> is the hash of a transaction, \<open>bc_script_hash\<close> that of a script. The consensus encodings
  of transactions and outputs come with decoders that may fail; \<open>bc_subsidy\<close> is the subsidy schedule
  of the crate \<open>ordinals\<close>.
\<close>

record BitcoinCrate =
  bc_instructions :: "bytes \<Rightarrow> (unit + Instruction) list"
  bc_is_op_return :: "bytes \<Rightarrow> bool"
  bc_is_null :: "OutPoint \<Rightarrow> bool"
  bc_null :: OutPoint
  bc_txid :: "Transaction \<Rightarrow> bytes"
  bc_encode_tx :: "Transaction \<Rightarrow> bytes"
  bc_decode_tx :: "bytes \<Rightarrow> Transaction option"
  bc_encode_txout :: "TxOut \<Rightarrow> bytes"
  bc_decode_txout :: "bytes \<Rightarrow> TxOut option"
  bc_script_hash :: "bytes \<Rightarrow> bytes"
  bc_subsidy :: "u32 \<Rightarrow> u64"

definition OP_RETURN :: u8 where
  "OP_RETURN = 0x6A"

section \<open>Stored outputs\<close>

type_synonym TxoRef = "bytes \<times> u32"

record InscriptionId =
  ii_txid :: bytes
  ii_index :: u32

text \<open>\<open>storage::DuneId\<close>, the form of an identifier in the tables.\<close>

record StorageDuneId =
  sdi_block :: u64
  sdi_tx :: u64

record OrdinalRange =
  or_lower :: u64
  or_upper :: u64

record TxoBody =
  tb_height :: u64
  tb_raw :: bytes
  tb_ord_ranges :: "OrdinalRange list"
  tb_dunes :: "(StorageDuneId \<times> u128) list"
  tb_inscriptions :: "(u64 \<times> InscriptionId) list"
  tb_unused_brc20_transfers :: "(InscriptionId \<times> bytes \<times> u128) list"

definition txo_ref :: "OutPoint \<Rightarrow> TxoRef" where
  "txo_ref o1 = (op_txid o1, op_vout o1)"

text \<open>
  A concrete crate for examples: a script that starts with \<open>OP_RETURN\<close> pushes the mark of a
  dunestone and the rest of its bytes; the null outpoint has an empty hash.
\<close>

definition demo_crate :: BitcoinCrate where
  "demo_crate = \<lparr>bc_instructions = (\<lambda>s. if take 1 s = [0x6A] then [Inr (Op OP_RETURN), Inr (PushBytes [0x44]), Inr (PushBytes (drop 1 s))] else []),
     bc_is_op_return = (\<lambda>s. take 1 s = [0x6A]), bc_is_null = (\<lambda>o1. op_txid o1 = []),
     bc_null = \<lparr>op_txid = [], op_vout = - 1\<rparr>, bc_txid = (\<lambda>tx. []),
     bc_encode_tx = (\<lambda>tx. []), bc_decode_tx = (\<lambda>b. None),
     bc_encode_txout = (\<lambda>out. rev (to_be_bytes (to_value out)) @ to_script_pubkey out),
     bc_decode_txout = (\<lambda>b. Some \<lparr>to_value = from_be_bytes (rev (take 8 b)), to_script_pubkey = drop 8 b\<rparr>),
     bc_script_hash = (\<lambda>s. s), bc_subsidy = (\<lambda>h. 0)\<rparr>"

end
