(* ===== verification/Dunestone_Parser.thy ===== *)
theory Dunestone_Parser
  imports Dune_Names Bitcoin_Types
begin

text \<open>
  The message of a transaction (\<open>storage/runes/dunes/\<close>: \<open>dunestone.rs\<close>, \<open>edict.rs\<close>,
  \<open>etching.rs\<close>, \<open>flag.rs\<close>, \<open>tag.rs\<close>, \<open>terms.rs\<close>): the payload of the first OP_RETURN output
  marked with the letter D is read as integers, these as tagged fields followed by edicts, and
  the fields as an etching. A message that cannot be understood is a cenotaph.
\<close>

section \<open>Data\<close>

record Edict =
  ed_id :: u128
  ed_amount :: u128
  ed_output :: u128

record Terms =
  tm_limit :: "u128 option"
  tm_cap :: "u128 option"
  tm_height :: "u64 option \<times> u64 option"
  tm_offset :: "u64 option \<times> u64 option"

record Etching =
  et_divisibility :: "u8 option"
  et_terms :: "Terms option"
  et_premine :: "u128 option"
  et_dune :: "u128 option"
  et_spacers :: "u32 option"
  et_symbol :: "u32 option"
  et_turbo :: bool

record Dunestone =
  ds_edicts :: "Edict list"
  ds_etching :: "Etching option"
  ds_pointer :: "u32 option"
  ds_cenotaph :: bool

definition MAX_DIVISIBILITY :: u8 where "MAX_DIVISIBILITY = 38"
definition MAX_LIMIT :: u128 where "MAX_LIMIT = ucast (- 1 :: u64)"
definition MAX_SPACERS :: u32 where "MAX_SPACERS = 0x7FFFFFF"

section \<open>Tags and flags\<close>

datatype Tag = TBody | TFlags | TDune | TLimit | TOffsetEnd | TDeadline | TPointer | THeightStart
  | TOffsetStart | THeightEnd | TCap | TPremine | TCenotaph | TDivisibility | TSpacers | TSymbol | TNop

fun tag_u128 :: "Tag \<Rightarrow> u128" where
  "tag_u128 TBody = 0" | "tag_u128 TFlags = 2" | "tag_u128 TDune = 4" | "tag_u128 TLimit = 6"
| "tag_u128 TOffsetEnd = 8" | "tag_u128 TDeadline = 10" | "tag_u128 TPointer = 12"
| "tag_u128 THeightStart = 14" | "tag_u128 TOffsetStart = 16" | "tag_u128 THeightEnd = 18"
| "tag_u128 TCap = 20" | "tag_u128 TPremine = 22" | "tag_u128 TCenotaph = 254"
| "tag_u128 TDivisibility = 1" | "tag_u128 TSpacers = 3" | "tag_u128 TSymbol = 5" | "tag_u128 TNop = 255"

text \<open>The fields of a message: a map from tags to values, as a list with distinct tags.\<close>

type_synonym fields = "(u128 \<times> u128) list"

definition tag_take :: "Tag \<Rightarrow> fields \<Rightarrow> u128 option \<times> fields" where
  "tag_take t fs = (map_of fs (tag_u128 t), filter (\<lambda>(k, _). k \<noteq> tag_u128 t) fs)"

definition tag_encode :: "Tag \<Rightarrow> u128 \<Rightarrow> bytes \<Rightarrow> bytes option" where
  "tag_encode t v payload = Option.bind (varint_encode_to_vec (tag_u128 t) payload) (varint_encode_to_vec v)"

datatype Flag = FEtching | FTerms | FTurbo | FCenotaph

fun flag_mask :: "Flag \<Rightarrow> u128" where
  "flag_mask FEtching = push_bit 0 1" | "flag_mask FTerms = push_bit 1 1"
| "flag_mask FTurbo = push_bit 2 1" | "flag_mask FCenotaph = push_bit 127 1"

definition flag_take :: "Flag \<Rightarrow> u128 \<Rightarrow> bool \<times> u128" where
  "flag_take f flags = (flags AND flag_mask f \<noteq> 0, flags AND NOT (flag_mask f))"

definition flag_set :: "Flag \<Rightarrow> u128 \<Rightarrow> u128" where
  "flag_set f flags = flags OR flag_mask f"

section \<open>From integers to a message\<close>

definition edict_from_integers :: "nat \<Rightarrow> u128 \<Rightarrow> u128 \<Rightarrow> u128 \<Rightarrow> Edict option" where
  "edict_from_integers n_outputs i amount output =
     (case dune_id_try_from i of None \<Rightarrow> None
      | Some dune_id \<Rightarrow>
        if di_height dune_id = 0 \<and> di_index dune_id > 0 then None
        else if uint output > int n_outputs then None
        else Some \<lparr>ed_id = i, ed_amount = amount, ed_output = output\<rparr>)"

fun body_edicts :: "nat \<Rightarrow> u128 \<Rightarrow> u128 list \<Rightarrow> Edict list \<times> bool" where
  "body_edicts n i (a # b # c # rest) =
     (let i = saturating_add i a; (edicts, cenotaph) = body_edicts n i rest
      in case edict_from_integers n i b c of
           Some e \<Rightarrow> (e # edicts, cenotaph)
         | None \<Rightarrow> (edicts, True))"
| "body_edicts n i _ = ([], False)"

record Message =
  ms_cenotaph :: bool
  ms_fields :: fields
  ms_edicts :: "Edict list"

definition or_insert :: "u128 \<Rightarrow> u128 \<Rightarrow> fields \<Rightarrow> fields" where
  "or_insert k v fs = (if map_of fs k = None then (k, v) # fs else fs)"

fun message_from_integers :: "nat \<Rightarrow> u128 list \<Rightarrow> fields \<Rightarrow> Message" where
  "message_from_integers n [] fs = \<lparr>ms_cenotaph = False, ms_fields = fs, ms_edicts = []\<rparr>"
| "message_from_integers n (tag # rest) fs =
     (if tag = tag_u128 TBody then
        let (edicts, cenotaph) = body_edicts n 0 rest
        in \<lparr>ms_cenotaph = cenotaph, ms_fields = fs, ms_edicts = edicts\<rparr>
      else case rest of
          [] \<Rightarrow> \<lparr>ms_cenotaph = False, ms_fields = fs, ms_edicts = []\<rparr>
        | v # rest \<Rightarrow> message_from_integers n rest (or_insert tag v fs))"

section \<open>The payload\<close>

fun payload_pushes :: "(unit + Instruction) list \<Rightarrow> unit + bytes" where
  "payload_pushes [] = Inr []"
| "payload_pushes (Inl e # rs) = Inl e"
| "payload_pushes (Inr (PushBytes push) # rs) = and_then (payload_pushes rs) (\<lambda>p. Inr (push @ p))"
| "payload_pushes (Inr (Op _) # rs) = payload_pushes rs"

fun dunestone_payload :: "BitcoinCrate \<Rightarrow> TxOut list \<Rightarrow> unit + bytes option" where
  "dunestone_payload B [] = Inr None"
| "dunestone_payload B (out # outs) =
     (case bc_instructions B (to_script_pubkey out) of
        [] \<Rightarrow> dunestone_payload B outs
      | Inl e # _ \<Rightarrow> Inl e
      | Inr i # rest \<Rightarrow>
        if i \<noteq> Op OP_RETURN then dunestone_payload B outs
        else (case rest of
            [] \<Rightarrow> dunestone_payload B outs
          | Inl e # _ \<Rightarrow> Inl e
          | Inr j # rest \<Rightarrow>
            if j \<noteq> PushBytes [0x44] then dunestone_payload B outs
            else and_then (payload_pushes rest) (\<lambda>p. Inr (Some p))))"

section \<open>From a message to a dunestone\<close>

text \<open>\<open>char::from_u32\<close>: code points that are not surrogates.\<close>

definition char_from_u32 :: "u32 \<Rightarrow> u32 option" where
  "char_from_u32 c = (if c > 0x10FFFF \<or> (0xD800 \<le> c \<and> c \<le> 0xDFFF) then None else Some c)"

definition or_default :: "'a::zero option \<Rightarrow> 'a" where
  "or_default x = (case x of None \<Rightarrow> 0 | Some v \<Rightarrow> v)"

definition then_some :: "('a \<Rightarrow> bool) \<Rightarrow> 'a \<Rightarrow> 'a option" where
  "then_some p x = (if p x then Some x else None)"

definition supply_overflows :: "u128 option \<Rightarrow> u128 option \<Rightarrow> u128 option \<Rightarrow> bool" where
  "supply_overflows premine cap limit \<longleftrightarrow>
     Option.bind (checked_mul (or_default cap) (or_default limit)) (checked_add (or_default premine)) = None"

definition decipher_message :: "Message \<Rightarrow> Dunestone" where
  "decipher_message m =
     (let fs = ms_fields m;
          (pointer, fs) = tag_take TPointer fs;
          pointer = Option.bind pointer try_from;
          (divisibility, fs) = tag_take TDivisibility fs;
          divisibility = Option.bind (Option.bind divisibility try_from) (then_some (\<lambda>d. d \<le> MAX_DIVISIBILITY));
          (limit, fs) = tag_take TLimit fs;
          limit = map_option (\<lambda>l. min l MAX_LIMIT) limit;
          (dune, fs) = tag_take TDune fs;
          (cap, fs) = tag_take TCap fs;
          (premine, fs) = tag_take TPremine fs;
          edicts = ms_edicts m @
            (if or_default premine > 0
             then [\<lparr>ed_id = 0, ed_amount = or_default premine, ed_output = 1\<rparr>] else []);
          (spacers, fs) = tag_take TSpacers fs;
          spacers = Option.bind (Option.bind spacers try_from) (then_some (\<lambda>s. s \<le> MAX_SPACERS));
          (symbol, fs) = tag_take TSymbol fs;
          symbol = Option.bind (Option.bind symbol try_from) char_from_u32;
          (h0, fs) = tag_take THeightStart fs;
          (h1, fs) = tag_take THeightEnd fs;
          height = (Option.bind h0 try_from, Option.bind h1 try_from);
          (o0, fs) = tag_take TOffsetStart fs;
          (o1, fs) = tag_take TOffsetEnd fs;
          offset = (Option.bind o0 try_from, Option.bind o1 try_from);
          (flags, fs) = tag_take TFlags fs;
          (etch, flags) = flag_take FEtching (or_default flags);
          (terms, flags) = flag_take FTerms flags;
          (turbo, flags) = flag_take FTurbo flags;
          overflow = supply_overflows premine cap limit;
          etching = (if etch then Some
            \<lparr>et_divisibility = divisibility,
             et_terms = (if terms then Some \<lparr>tm_limit = limit, tm_cap = cap, tm_height = height, tm_offset = offset\<rparr>
                         else None),
             et_premine = premine, et_dune = dune, et_spacers = spacers, et_symbol = symbol, et_turbo = turbo\<rparr>
            else None)
      in \<lparr>ds_edicts = edicts, ds_etching = etching, ds_pointer = pointer,
          ds_cenotaph = (ms_cenotaph m \<or> overflow \<or> flags \<noteq> 0 \<or> list_ex (\<lambda>(k, _). k mod 2 = 0) fs)\<rparr>)"

definition decipher :: "BitcoinCrate \<Rightarrow> Transaction \<Rightarrow> unit + Dunestone option" where
  "decipher B tx =
     and_then (dunestone_payload B (tx_output tx)) (\<lambda>payload.
       Inr (map_option (\<lambda>p. decipher_message
         (message_from_integers (length (tx_output tx)) (integers p) [])) payload))"

definition dunestone_from_transaction :: "BitcoinCrate \<Rightarrow> Transaction \<Rightarrow> Dunestone option" where
  "dunestone_from_transaction B tx = (case decipher B tx of Inl _ \<Rightarrow> None | Inr d \<Rightarrow> d)"

section \<open>Which messages are cenotaphs\<close>

lemma map_of_other:
  "map_of (filter (\<lambda>(k, _). k \<noteq> t) fs) k = (if k = t then None else map_of fs k)"
  by (induction fs) auto

lemma list_ex_keys:
  "list_ex (\<lambda>(k, _). Q k) (filter (\<lambda>(k, _). P k) fs) \<longleftrightarrow> (\<exists>(k, v) \<in> set fs. P k \<and> Q k)"
  by (induction fs) auto

text \<open>The even tags that the deciphering takes out of the fields.\<close>

definition known_even :: "u128 set" where
  "known_even = {2, 4, 6, 8, 12, 14, 16, 18, 20, 22}"

lemma flag_mask_bits:
  "bit (flag_mask FEtching) n \<longleftrightarrow> n = 0" "bit (flag_mask FTerms) n \<longleftrightarrow> n = 1" "bit (flag_mask FTurbo) n \<longleftrightarrow> n = 2"
  by (auto simp: bit_simps simp del: push_bit_of_1)

lemma unknown_flags:
  "(((f AND NOT (flag_mask FEtching)) AND NOT (flag_mask FTerms)) AND NOT (flag_mask FTurbo)) = 0 \<longleftrightarrow>
   (\<forall>n \<ge> 3. \<not> bit f n)"
proof -
  let ?x = "((f AND NOT (flag_mask FEtching)) AND NOT (flag_mask FTerms)) AND NOT (flag_mask FTurbo)"
  have b: "bit ?x n \<longleftrightarrow> bit f n \<and> 3 \<le> n" for n
    by (auto simp: bit_and_iff bit_not_iff flag_mask_bits simp del: flag_mask.simps dest: bit_imp_le_length)
  have "?x = 0 \<longleftrightarrow> (\<forall>n. \<not> bit ?x n)" by (metis bit_0_eq bot_apply bot_bool_def bit_eqI)
  then show ?thesis unfolding b by blast
qed

definition taken_tags :: "Tag list" where
  "taken_tags = [TPointer, TDivisibility, TLimit, TDune, TCap, TPremine, TSpacers, TSymbol, THeightStart,
     THeightEnd, TOffsetStart, TOffsetEnd, TFlags]"

lemma take_all:
  "fold (\<lambda>t fs. snd (tag_take t fs)) ts fs = filter (\<lambda>(k, _). k \<notin> tag_u128 ` set ts) fs"
proof (induction ts arbitrary: fs)
  case (Cons t ts)
  then show ?case by (auto simp: tag_take_def intro!: filter_cong)
qed simp

lemma decipher_cenotaph:
  "ds_cenotaph (decipher_message m) \<longleftrightarrow>
   ms_cenotaph m \<or>
   supply_overflows (map_of (ms_fields m) 22) (map_of (ms_fields m) 20)
     (map_option (\<lambda>l. min l MAX_LIMIT) (map_of (ms_fields m) 6)) \<or>
   (\<exists>n \<ge> 3. bit (or_default (map_of (ms_fields m) 2)) n) \<or>
   (\<exists>(k, v) \<in> set (ms_fields m). even k \<and> k \<notin> known_even)"
proof -
  have "ds_cenotaph (decipher_message m) \<longleftrightarrow>
   ms_cenotaph m \<or>
   supply_overflows (map_of (ms_fields m) 22) (map_of (ms_fields m) 20)
     (map_option (\<lambda>l. min l MAX_LIMIT) (map_of (ms_fields m) 6)) \<or>
   (((or_default (map_of (ms_fields m) 2) AND NOT (flag_mask FEtching)) AND NOT (flag_mask FTerms)) AND
     NOT (flag_mask FTurbo)) \<noteq> 0 \<or>
   list_ex (\<lambda>(k, _). k mod 2 = 0) (fold (\<lambda>t fs. snd (tag_take t fs)) taken_tags (ms_fields m))"
    by (simp add: decipher_message_def tag_take_def flag_take_def Let_def map_of_other taken_tags_def
        del: flag_mask.simps)
  also have "list_ex (\<lambda>(k, _). k mod 2 = 0) (fold (\<lambda>t fs. snd (tag_take t fs)) taken_tags (ms_fields m)) \<longleftrightarrow>
      (\<exists>(k, v) \<in> set (ms_fields m). even k \<and> k \<notin> known_even)"
  proof -
    have key: "k \<notin> tag_u128 ` set taken_tags \<and> k mod 2 = 0 \<longleftrightarrow> even k \<and> k \<notin> known_even" for k :: u128
      by (auto simp: taken_tags_def known_even_def even_iff_mod_2_eq_zero [symmetric])
    show ?thesis unfolding take_all list_ex_keys key ..
  qed
  finally show ?thesis unfolding unknown_flags by blast
qed

section \<open>The integers of a message\<close>

text \<open>
  What the integers of a message mean, without the accumulators of the reader: pairs of a tag and
  a value up to the first tag 0 (a last tag without a value is not a field), then the body.
\<close>

fun fields_of :: "u128 list \<Rightarrow> (u128 \<times> u128) list" where
  "fields_of (tag # v # rest) = (if tag = 0 then [] else (tag, v) # fields_of rest)"
| "fields_of _ = []"

fun body_of :: "u128 list \<Rightarrow> u128 list" where
  "body_of [] = []"
| "body_of (tag # rest) = (if tag = 0 then rest else body_of (tl rest))"

text \<open>The value of a field: the first one given for its tag, zero without a field.\<close>

definition field_value :: "u128 \<Rightarrow> u128 list \<Rightarrow> int" where
  "field_value tag xs = (case map_of (fields_of xs) tag of None \<Rightarrow> 0 | Some v \<Rightarrow> uint v)"

text \<open>
  The body is read in groups of three: the increment of the identifier, the amount, the output.
  An identifier is a block height of 64 bits followed by an index of 16 bits; a height of zero is
  allowed only with the index zero, and the output may exceed the last one by one.
\<close>

definition bad_edict :: "nat \<Rightarrow> int \<Rightarrow> int \<Rightarrow> bool" where
  "bad_edict n_outputs i output \<longleftrightarrow>
     2 ^ 64 \<le> i div 2 ^ 16 \<or> i div 2 ^ 16 = 0 \<and> 0 < i mod 2 ^ 16 \<or> int n_outputs < output"

definition malformed_edict :: "nat \<Rightarrow> u128 list \<Rightarrow> bool" where
  "malformed_edict n_outputs xs \<longleftrightarrow>
     (\<exists>j. 3 * j + 2 < length (body_of xs) \<and>
       bad_edict n_outputs (\<Sum>k\<le>j. uint (body_of xs ! (3 * k))) (uint (body_of xs ! (3 * j + 2))))"

lemma index_bits: "uint (n AND 0xFFFF :: u128) = uint n mod 2 ^ 16"
proof -
  have "n AND 0xFFFF = take_bit 16 n" by (simp add: take_bit_eq_mask mask_eq_exp_minus_1)
  then show ?thesis by (simp add: take_bit_eq_mod uint_mod)
qed

lemma edict_None: "edict_from_integers n i amount output = None \<longleftrightarrow> bad_edict n (uint i) (uint output)"
proof -
  have hi: "uint (drop_bit 16 i) = uint i div 2 ^ 16"
    by (simp add: drop_bit_eq_div uint_div)
  have lo: "uint (ucast (i AND 0xFFFF) :: u32) = uint i mod 2 ^ 16"
  proof -
    have "uint i mod 2 ^ 16 < 2 ^ 32" by (rule less_trans [OF pos_mod_bound]) simp_all
    then have "take_bit 32 (uint i mod 2 ^ 16) = uint i mod 2 ^ 16" by (simp add: take_bit_int_eq_self)
    then show ?thesis by (simp add: unsigned_ucast_eq index_bits)
  qed
  have h0: "(ucast (drop_bit 16 i) :: u64) = 0 \<longleftrightarrow> uint i div 2 ^ 16 = 0" if "uint i div 2 ^ 16 < 2 ^ 64"
  proof -
    have "uint (ucast (drop_bit 16 i) :: u64) = uint i div 2 ^ 16"
      using that by (simp add: unsigned_ucast_eq hi take_bit_int_eq_self pos_imp_zdiv_nonneg_iff)
    then show ?thesis by (metis uint_0_iff)
  qed
  have l0: "(ucast (i AND 0xFFFF) :: u32) > 0 \<longleftrightarrow> 0 < uint i mod 2 ^ 16"
    using lo by (simp add: word_less_def)
  show ?thesis
    using h0 l0 by (auto simp: edict_from_integers_def dune_id_try_from_def try_from_def hi bad_edict_def)
qed

lemma snd_body_edicts:
  "snd (body_edicts n i (a # b # c # rest)) \<longleftrightarrow>
   edict_from_integers n (saturating_add i a) b c = None \<or> snd (body_edicts n (saturating_add i a) rest)"
  by (auto simp: Let_def split: option.splits prod.splits)

lemma triples_shift:
  "(\<exists>j. 3 * j + 2 < length (a # b # c # rest) \<and>
      bad_edict n (s + (\<Sum>k\<le>j. uint ((a # b # c # rest) ! (3 * k)))) (uint ((a # b # c # rest) ! (3 * j + 2)))) \<longleftrightarrow>
   bad_edict n (s + uint a) (uint c) \<or>
   (\<exists>j. 3 * j + 2 < length rest \<and>
      bad_edict n (s + uint a + (\<Sum>k\<le>j. uint (rest ! (3 * k)))) (uint (rest ! (3 * j + 2))))"
  (is "(\<exists>j. ?P j) \<longleftrightarrow> ?now \<or> (\<exists>j. ?Q j)")
proof -
  have "?P 0 \<longleftrightarrow> ?now" by simp
  moreover have "?P (Suc j) \<longleftrightarrow> ?Q j" for j
  proof -
    have "(\<Sum>k\<le>Suc j. uint ((a # b # c # rest) ! (3 * k))) = uint a + (\<Sum>k\<le>j. uint (rest ! (3 * k)))"
      by (simp only: sum.atMost_Suc_shift) simp
    moreover have "(a # b # c # rest) ! (3 * Suc j + 2) = rest ! (3 * j + 2)" by simp
    ultimately show ?thesis by (simp only: add.assoc) simp
  qed
  ultimately show ?thesis by (metis not0_implies_Suc)
qed

lemma bad_edict_huge: "2 ^ 80 \<le> i \<Longrightarrow> bad_edict n i output"
  using zdiv_mono1 [of "2 ^ 80" i "2 ^ 16"] by (simp add: bad_edict_def)

lemma body_edicts_malformed:
  "snd (body_edicts n i b) \<longleftrightarrow>
   (\<exists>j. 3 * j + 2 < length b \<and> bad_edict n (uint i + (\<Sum>k\<le>j. uint (b ! (3 * k)))) (uint (b ! (3 * j + 2))))"
proof (induction n i b rule: body_edicts.induct)
  case (1 n i a b c rest)
  show ?case
  proof (cases "uint i + uint a < 2 ^ 128")
    case True
    then have "uint (saturating_add i a) = uint i + uint a" by (simp add: saturating_add_def uint_plus_if')
    then show ?thesis unfolding snd_body_edicts triples_shift edict_None by (simp add: 1 [OF refl])
  next
    case False
    then have "uint (saturating_add i a) = 2 ^ 128 - 1" by (simp add: saturating_add_def unsigned_minus_1_eq_mask mask_eq_exp_minus_1)
    then have "bad_edict n (uint (saturating_add i a)) (uint c)" by (simp add: bad_edict_huge)
    moreover have "bad_edict n (uint i + uint a) (uint c)" using False by (simp add: bad_edict_huge)
    ultimately show ?thesis unfolding snd_body_edicts triples_shift edict_None by simp
  qed
qed auto

lemma message_cenotaph: "ms_cenotaph (message_from_integers n xs fs) \<longleftrightarrow> malformed_edict n xs"
proof -
  have "ms_cenotaph (message_from_integers n xs fs) = snd (body_edicts n 0 (body_of xs))"
    by (induction n xs fs rule: message_from_integers.induct)
      (auto simp: Let_def split: list.splits prod.splits)
  then show ?thesis by (simp add: body_edicts_malformed malformed_edict_def)
qed

lemma message_fields:
  "map_of (ms_fields (message_from_integers n xs fs)) k =
     (case map_of fs k of Some v \<Rightarrow> Some v | None \<Rightarrow> map_of (fields_of xs) k)"
  "fst ` set (ms_fields (message_from_integers n xs fs)) = fst ` set fs \<union> fst ` set (fields_of xs)"
proof -
  show "map_of (ms_fields (message_from_integers n xs fs)) k =
     (case map_of fs k of Some v \<Rightarrow> Some v | None \<Rightarrow> map_of (fields_of xs) k)"
    by (induction n xs fs rule: message_from_integers.induct)
      (auto simp: Let_def or_insert_def split: list.splits prod.splits option.splits)
  have keys: "fst ` set (or_insert t v fs) = insert t (fst ` set fs)" for t v and fs :: fields
    by (auto simp: or_insert_def map_of_eq_None_iff)
  show "fst ` set (ms_fields (message_from_integers n xs fs)) = fst ` set fs \<union> fst ` set (fields_of xs)"
    by (induction n xs fs rule: message_from_integers.induct)
      (auto simp: Let_def keys split: list.splits prod.splits)
qed

lemma supply_overflow_value:
  "supply_overflows (map_of fs 22) (map_of fs 20) (map_option (\<lambda>l. min l MAX_LIMIT) (map_of fs 6)) \<longleftrightarrow>
   2 ^ 128 \<le> (case map_of fs 22 of None \<Rightarrow> 0 | Some v \<Rightarrow> uint v) +
     (case map_of fs 20 of None \<Rightarrow> 0 | Some v \<Rightarrow> uint v) *
     min (case map_of fs 6 of None \<Rightarrow> 0 | Some v \<Rightarrow> uint v) (2 ^ 64 - 1)"
proof -
  let ?u = "\<lambda>x. case x of None \<Rightarrow> 0 | Some v \<Rightarrow> uint (v :: u128)"
  have u: "uint (or_default x) = ?u x" for x by (simp add: or_default_def split: option.splits)
  have max: "uint MAX_LIMIT = 2 ^ 64 - 1" by (simp add: MAX_LIMIT_def unsigned_ucast_eq unsigned_minus_1_eq_mask mask_eq_exp_minus_1)
  have lim: "?u (map_option (\<lambda>l. min l MAX_LIMIT) x) = min (?u x) (2 ^ 64 - 1)" for x
    by (cases x) (simp_all add: min_def word_le_def max)
  have over: "supply_overflows p c l \<longleftrightarrow> 2 ^ 128 \<le> ?u p + ?u c * ?u l" for p c l
  proof (cases "?u c * ?u l < 2 ^ 128")
    case True
    have "0 \<le> ?u c * ?u l" by (simp split: option.splits)
    then have "uint (or_default c * or_default l) = ?u c * ?u l"
      using True by (simp add: uint_word_ariths u)
    then show ?thesis using True by (auto simp: supply_overflows_def checked_mul_def checked_add_def u)
  next
    case False
    moreover have "0 \<le> ?u p" by (simp split: option.splits)
    ultimately show ?thesis by (auto simp: supply_overflows_def checked_mul_def u)
  qed
  show ?thesis unfolding over lim ..
qed

lemma high_flags: "(\<exists>n \<ge> 3. bit f n) \<longleftrightarrow> 8 \<le> uint (f :: u128)"
proof -
  have "drop_bit 3 f = 0 \<longleftrightarrow> (\<forall>n. \<not> bit (drop_bit 3 f) n)"
    by (metis bit_0_eq bot_apply bot_bool_def bit_eqI)
  then have "(\<exists>n \<ge> 3. bit f n) \<longleftrightarrow> drop_bit 3 f \<noteq> 0"
    by (auto simp: bit_drop_bit_eq le_iff_add)
  also have "\<dots> \<longleftrightarrow> uint (drop_bit 3 f) \<noteq> 0" by (simp add: uint_0_iff)
  also have "uint (drop_bit 3 f) = uint f div 8" by (simp add: drop_bit_eq_div uint_div)
  finally show ?thesis using uint_ge_0 [of f] by presburger
qed

section \<open>Properties\<close>

text \<open>
  C36. When the reader of dunestones rejects a message as a cenotaph, from the integers of its
  payload. It does exactly when the body holds an edict whose identifier (the sum of the
  increments so far) has a block height of more than 64 bits or a block height of zero with an
  index, or whose output number exceeds the number of outputs; when the premine plus the cap times
  the limit, cut to 64 bits, needs more than 128 bits; when a flag other than the first three is
  set; or when a field has an even tag outside the list of known tags. The tag of the deadline is
  not on that list, although comments say it is ignored. Integers at the end that make no whole
  edict or field are dropped without consequence.
\<close>

theorem cenotaph_iff:
  "ds_cenotaph (decipher_message (message_from_integers n_outputs xs [])) \<longleftrightarrow>
     malformed_edict n_outputs xs \<or>
     2 ^ 128 \<le> field_value 22 xs + field_value 20 xs * min (field_value 6 xs) (2 ^ 64 - 1) \<or>
     8 \<le> field_value 2 xs \<or>
     (\<exists>tag \<in> fst ` set (fields_of xs). even (uint tag) \<and> uint tag \<notin> {2, 4, 6, 8, 12, 14, 16, 18, 20, 22})"
proof -
  let ?m = "message_from_integers n_outputs xs []"
  have fs: "map_of (ms_fields ?m) k = map_of (fields_of xs) k" for k by (simp add: message_fields(1))
  have val: "uint (or_default (map_of (fields_of xs) 2)) = (case map_of (fields_of xs) 2 of None \<Rightarrow> 0 | Some v \<Rightarrow> uint v)"
    by (simp add: or_default_def split: option.splits)
  have tag: "even k \<and> k \<notin> known_even \<longleftrightarrow> even (uint k) \<and> uint k \<notin> {2, 4, 6, 8, 12, 14, 16, 18, 20, 22}" for k :: u128
    using bit_uint_iff [of k 0] by (simp add: known_even_def word_uint_eq_iff bit_0)
  have "(\<exists>(k, v) \<in> set (ms_fields ?m). even k \<and> k \<notin> known_even) \<longleftrightarrow>
      (\<exists>k \<in> fst ` set (ms_fields ?m). even k \<and> k \<notin> known_even)" by force
  also have "\<dots> \<longleftrightarrow> (\<exists>k \<in> fst ` set (fields_of xs). even k \<and> k \<notin> known_even)"
    by (simp only: message_fields(2)) simp
  finally have keys: "(\<exists>(k, v) \<in> set (ms_fields ?m). even k \<and> k \<notin> known_even) \<longleftrightarrow>
      (\<exists>tag \<in> fst ` set (fields_of xs). even (uint tag) \<and> uint tag \<notin> {2, 4, 6, 8, 12, 14, 16, 18, 20, 22})"
    unfolding tag .
  show ?thesis
    unfolding decipher_cenotaph fs message_cenotaph supply_overflow_value high_flags val keys field_value_def ..
qed

end
