(* ===== verification/Dune_Updater.thy ===== *)
theory Dune_Updater
  imports Dunestone_Parser
begin

text \<open>
  How a transaction moves dunes (\<open>storage/runes/updater.rs\<close>): the dunes of its inputs, the mints
  it claims and the supply it etches are allocated to its outputs by the edicts, the rest goes to
  the default output or is burned. The tables are finite maps; failures of RocksDB itself are not
  modelled. Balances are association lists with distinct keys.
\<close>

section \<open>State\<close>

record DuneTerms =
  dt_name :: u128
  dt_amount :: "u128 option"
  dt_cap :: "u128 option"
  dt_start_height :: "u64 option"
  dt_end_height :: "u64 option"

record DuneDb =
  dd_id_by_name :: "u128 \<rightharpoonup> StorageDuneId"
  dd_terms :: "StorageDuneId \<rightharpoonup> DuneTerms"
  dd_mints :: "StorageDuneId \<rightharpoonup> u128"
  dd_reserved :: "u64 option"

type_synonym balances = "(u128 \<times> u128) list"

datatype IndexError = MissingTxo TxoRef | DivisionByZero

definition sdi_of :: "DuneId \<Rightarrow> StorageDuneId" where
  "sdi_of d = \<lparr>sdi_block = di_height d, sdi_tx = ucast (di_index d)\<rparr>"

definition of_sdi :: "StorageDuneId \<Rightarrow> DuneId" where
  "of_sdi d = \<lparr>di_height = sdi_block d, di_index = ucast (sdi_tx d)\<rparr>"

section \<open>Balances\<close>

definition bal :: "balances \<Rightarrow> u128 \<Rightarrow> u128" where
  "bal bs k = (case map_of bs k of None \<Rightarrow> 0 | Some v \<Rightarrow> v)"

text \<open>\<open>*entry(k).or_default() += v\<close> and the update of a balance that is present.\<close>

fun add_balance :: "u128 \<Rightarrow> u128 \<Rightarrow> balances \<Rightarrow> balances" where
  "add_balance k v [] = [(k, v)]"
| "add_balance k v ((j, w) # bs) = (if j = k then (j, w + v) # bs else (j, w) # add_balance k v bs)"

fun set_balance :: "u128 \<Rightarrow> u128 \<Rightarrow> balances \<Rightarrow> balances" where
  "set_balance k v [] = []"
| "set_balance k v ((j, w) # bs) = (if j = k then (j, v) # bs else (j, w) # set_balance k v bs)"

fun unallocated_inputs :: "BitcoinCrate \<Rightarrow> (TxoRef \<rightharpoonup> TxoBody) \<Rightarrow> TxIn list \<Rightarrow> balances \<Rightarrow> IndexError + balances" where
  "unallocated_inputs B resolver [] bs = Inr bs"
| "unallocated_inputs B resolver (i # is) bs =
     (if bc_is_null B (ti_previous_output i) then unallocated_inputs B resolver is bs
      else case resolver (txo_ref (ti_previous_output i)) of
          None \<Rightarrow> Inl (MissingTxo (txo_ref (ti_previous_output i)))
        | Some body \<Rightarrow> unallocated_inputs B resolver is
            (fold (\<lambda>(d, v). add_balance (dune_id_into (of_sdi d)) v) (tb_dunes body) bs))"

section \<open>Etching and minting\<close>

datatype Network = Bitcoin | BitcoinTestnet | Dogecoin | DogecoinTestnet

definition etched ::
  "Network \<Rightarrow> u64 \<Rightarrow> u32 \<Rightarrow> Dunestone \<Rightarrow> DuneDb \<Rightarrow> ((DuneId \<times> u128) option \<times> DuneDb) option" where
  "etched network height tx_index d db =
     (case ds_etching d of None \<Rightarrow> Some (None, db)
      | Some e \<Rightarrow>
        let chain = (if network \<in> {DogecoinTestnet, BitcoinTestnet} then Testnet else Mainnet);
            minimum = minimum_at_height chain (ucast height);
            new_id = \<lparr>di_height = height, di_index = tx_index\<rparr>
        in case et_dune e of
             Some dune \<Rightarrow>
               if dune < minimum \<or> is_reserved dune \<or> dd_id_by_name db dune \<noteq> None then Some (None, db)
               else Some (Some (new_id, dune), db)
           | None \<Rightarrow>
               let counter = (case dd_reserved db of None \<Rightarrow> 0 | Some c \<Rightarrow> c) in
               map_option (\<lambda>dune. (Some (new_id, dune), db\<lparr>dd_reserved := Some (counter + 1)\<rparr>))
                 (reserved (ucast counter)))"

definition mint :: "DuneDb \<Rightarrow> DuneId \<Rightarrow> u64 \<Rightarrow> u128 option" where
  "mint db i height =
     (case dd_terms db (sdi_of i) of None \<Rightarrow> None
      | Some terms \<Rightarrow>
        if (case dt_start_height terms of None \<Rightarrow> False | Some s \<Rightarrow> height < s) then None
        else if (case dt_end_height terms of None \<Rightarrow> False | Some e \<Rightarrow> height \<ge> e) then None
        else
          let cap = (case dt_cap terms of None \<Rightarrow> - 1 | Some c \<Rightarrow> c);
              current_mints = or_default (dd_mints db (sdi_of i))
          in if current_mints \<ge> cap then None else Some (or_default (dt_amount terms)))"

definition dune_claims :: "Dunestone \<Rightarrow> u128 list" where
  "dune_claims d = remdups_adj (sort (List.map_filter (\<lambda>e. claim (ed_id e)) (ds_edicts d)))"

fun mint_claims :: "DuneDb \<Rightarrow> u64 \<Rightarrow> nat \<Rightarrow> u128 list \<Rightarrow> balances \<times> u16 list" where
  "mint_claims db height idx [] = ([], [])"
| "mint_claims db height idx (i # is) =
     (let (mintable, ok) = mint_claims db height (Suc idx) is in
      case Option.bind (dune_id_try_from i) (\<lambda>key. mint db key height) of
        Some x \<Rightarrow> ((i, x) # mintable, word_of_nat idx # ok)
      | None \<Rightarrow> (mintable, ok))"

definition create_rune_entry :: "Dunestone \<Rightarrow> DuneId \<Rightarrow> u128 \<Rightarrow> u64 \<Rightarrow> DuneDb \<Rightarrow> DuneDb" where
  "create_rune_entry d i dune height db =
     (let none = \<lparr>dt_name = dune, dt_amount = None, dt_cap = None, dt_start_height = None, dt_end_height = None\<rparr>;
          both = (\<lambda>f a b. case a of None \<Rightarrow> b | Some x \<Rightarrow> (case b of None \<Rightarrow> Some x | Some y \<Rightarrow> Some (f x y)));
          terms = (if ds_cenotaph d then none
            else case Option.bind (ds_etching d) et_terms of
                None \<Rightarrow> none
              | Some t \<Rightarrow>
                \<lparr>dt_name = dune, dt_amount = tm_limit t, dt_cap = tm_cap t,
                 dt_start_height = both max (map_option (saturating_add height) (fst (tm_offset t))) (fst (tm_height t)),
                 dt_end_height = both min (map_option (saturating_add height) (snd (tm_offset t))) (snd (tm_height t))\<rparr>)
      in db\<lparr>dd_id_by_name := (dd_id_by_name db)(dune \<mapsto> sdi_of i),
            dd_terms := (dd_terms db)(sdi_of i \<mapsto> terms)\<rparr>)"

section \<open>Edicts\<close>

text \<open>What is left to allocate: the etched supply with its identifier, the mints, the inputs.\<close>

record Pools =
  pl_issuance :: "(u128 \<times> u128) option"
  pl_mintable :: balances
  pl_unallocated :: balances
  pl_allocated :: "balances list"

definition allocate :: "u128 \<Rightarrow> u128 \<Rightarrow> nat \<Rightarrow> u128 \<times> balances list \<Rightarrow> u128 \<times> balances list" where
  "allocate i amount output s =
     (let (balance, allocated) = s in
      if amount > 0 then (balance - amount, allocated[output := add_balance i amount (allocated ! output)])
      else s)"

fun distribute :: "u128 \<Rightarrow> u128 \<Rightarrow> nat \<Rightarrow> nat \<Rightarrow> nat list \<Rightarrow> u128 \<times> balances list \<Rightarrow> u128 \<times> balances list" where
  "distribute i amount remainder j [] s = s"
| "distribute i amount remainder j (out # outs) s =
     distribute i amount remainder (Suc j) outs (allocate i (if j < remainder then amount + 1 else amount) out s)"

definition edict_allocate ::
  "BitcoinCrate \<Rightarrow> TxOut list \<Rightarrow> u128 \<Rightarrow> u128 \<Rightarrow> nat \<Rightarrow> u128 \<times> balances list \<Rightarrow> IndexError + u128 \<times> balances list" where
  "edict_allocate B outs i amount output s =
     (if output = length outs then
        let destinations = filter (\<lambda>j. \<not> bc_is_op_return B (to_script_pubkey (outs ! j))) [0..<length outs] in
        if amount = 0 then
          if destinations = [] then Inl DivisionByZero
          else Inr (distribute i (fst s div word_of_nat (length destinations))
            (unat (fst s mod word_of_nat (length destinations))) 0 destinations s)
        else Inr (fold (\<lambda>out s. allocate i (min amount (fst s)) out s) destinations s)
      else Inr (allocate i (if amount = 0 then fst s else min amount (fst s)) output s))"

definition apply_edict :: "BitcoinCrate \<Rightarrow> TxOut list \<Rightarrow> Edict \<Rightarrow> Pools \<Rightarrow> IndexError + Pools" where
  "apply_edict B outs e p =
     (if uint (ed_output e) \<ge> 2 ^ 64 then Inr p
      else
        let output = unat (ed_output e);
            run = (\<lambda>i balance. edict_allocate B outs i (ed_amount e) output (balance, pl_allocated p))
        in if output \<ge> length outs then Inr p
           else if ed_id e = 0 then
             (case pl_issuance p of None \<Rightarrow> Inr p
              | Some (balance, i) \<Rightarrow> and_then (run i balance) (\<lambda>(b, a).
                  Inr (p\<lparr>pl_issuance := Some (b, i), pl_allocated := a\<rparr>)))
           else case claim (ed_id e) of
               Some c \<Rightarrow>
                 (case map_of (pl_mintable p) c of None \<Rightarrow> Inr p
                  | Some balance \<Rightarrow> and_then (run c balance) (\<lambda>(b, a).
                      Inr (p\<lparr>pl_mintable := set_balance c b (pl_mintable p), pl_allocated := a\<rparr>)))
             | None \<Rightarrow>
                 (case map_of (pl_unallocated p) (ed_id e) of None \<Rightarrow> Inr p
                  | Some balance \<Rightarrow> and_then (run (ed_id e) balance) (\<lambda>(b, a).
                      Inr (p\<lparr>pl_unallocated := set_balance (ed_id e) b (pl_unallocated p), pl_allocated := a\<rparr>))))"

fun apply_edicts :: "BitcoinCrate \<Rightarrow> TxOut list \<Rightarrow> Edict list \<Rightarrow> Pools \<Rightarrow> IndexError + Pools" where
  "apply_edicts B outs [] p = Inr p"
| "apply_edicts B outs (e # es) p = and_then (apply_edict B outs e p) (apply_edicts B outs es)"

text \<open>A mint counts when an edict took something of it.\<close>

fun count_mints :: "balances \<Rightarrow> balances \<Rightarrow> DuneDb \<Rightarrow> DuneDb" where
  "count_mints limits [] db = db"
| "count_mints limits ((i, amount) # ms) db =
     count_mints limits ms
       (if bal limits i - amount > 0 then
          (case dune_id_try_from i of None \<Rightarrow> db
           | Some key \<Rightarrow> db\<lparr>dd_mints := (dd_mints db)(sdi_of key \<mapsto> or_default (dd_mints db (sdi_of key)) + 1)\<rparr>)
        else db)"

section \<open>A transaction\<close>

record IndexRunesResult =
  ir_output_dunes :: "balances list"
  ir_successful_etch :: "u128 option"
  ir_successful_mints :: "u16 list"
  ir_burned :: balances

definition default_vout :: "BitcoinCrate \<Rightarrow> TxOut list \<Rightarrow> u32 option \<Rightarrow> nat option" where
  "default_vout B outs pointer =
     (case pointer of
        Some p \<Rightarrow> if unat p < length outs then Some (unat p)
          else find (\<lambda>j. \<not> bc_is_op_return B (to_script_pubkey (outs ! j))) [0..<length outs]
      | None \<Rightarrow> find (\<lambda>j. \<not> bc_is_op_return B (to_script_pubkey (outs ! j))) [0..<length outs])"

definition leftover :: "BitcoinCrate \<Rightarrow> TxOut list \<Rightarrow> bool \<Rightarrow> u32 option \<Rightarrow> balances \<Rightarrow> balances list \<Rightarrow> balances list \<times> balances" where
  "leftover B outs cenotaph pointer unallocated allocated =
     (if cenotaph then (allocated, fold (\<lambda>(i, b). add_balance i b) unallocated [])
      else case default_vout B outs pointer of
          Some vout \<Rightarrow> (fold (\<lambda>(i, b) a. if b > 0 then a[vout := add_balance i b (a ! vout)] else a) unallocated allocated, [])
        | None \<Rightarrow> (allocated, fold (\<lambda>(i, b) m. if b > 0 then add_balance i b m else m) unallocated []))"

definition issuance_id :: "u64 \<Rightarrow> u32 \<Rightarrow> u128" where
  "issuance_id height tx_index = push_bit 16 (ucast height) OR ucast tx_index"

definition new_issuance :: "u64 \<Rightarrow> u32 \<Rightarrow> (DuneId \<times> u128) option \<Rightarrow> (u128 \<times> u128) option" where
  "new_issuance height tx_index etch =
     (case etch of None \<Rightarrow> None
      | Some _ \<Rightarrow> if tx_index < 2 ^ 16 then Some (- 1, issuance_id height tx_index) else None)"

definition dunestone_mints :: "u64 \<Rightarrow> Dunestone \<Rightarrow> DuneDb \<Rightarrow> balances \<times> u16 list" where
  "dunestone_mints height d db =
     (if ds_cenotaph d then ([], []) else mint_claims db height 0 (dune_claims d))"

definition run_edicts :: "BitcoinCrate \<Rightarrow> TxOut list \<Rightarrow> Dunestone \<Rightarrow> Pools \<Rightarrow> IndexError + Pools" where
  "run_edicts B outs d p = (if ds_cenotaph d then Inr p else apply_edicts B outs (ds_edicts d) p)"

text \<open>The tables after the edicts: counted mints, and the entry of an etching.\<close>

definition dunestone_db ::
  "u64 \<Rightarrow> Dunestone \<Rightarrow> (DuneId \<times> u128) option \<Rightarrow> (u128 \<times> u128) option \<Rightarrow> balances \<Rightarrow> balances \<Rightarrow> DuneDb \<Rightarrow> DuneDb" where
  "dunestone_db height d etch issuance limits mintable db =
     (let db = (if ds_cenotaph d then db else count_mints limits mintable db) in
      case (issuance, etch) of
        (Some (_, i), Some (_, dune)) \<Rightarrow>
          (case dune_id_try_from i of None \<Rightarrow> db | Some key \<Rightarrow> create_rune_entry d key dune height db)
      | _ \<Rightarrow> db)"

definition run_dunestone ::
  "BitcoinCrate \<Rightarrow> TxOut list \<Rightarrow> u64 \<Rightarrow> u32 \<Rightarrow> Dunestone \<Rightarrow> (DuneId \<times> u128) option \<Rightarrow> balances \<Rightarrow> DuneDb \<Rightarrow>
   IndexError + IndexRunesResult \<times> DuneDb" where
  "run_dunestone B outs height tx_index d etch unallocated db =
     (let issuance = new_issuance height tx_index etch;
          mints = dunestone_mints height d db
      in and_then (run_edicts B outs d \<lparr>pl_issuance = issuance, pl_mintable = fst mints,
             pl_unallocated = unallocated, pl_allocated = replicate (length outs) []\<rparr>) (\<lambda>p.
         let out = leftover B outs (ds_cenotaph d) (ds_pointer d) (pl_unallocated p) (pl_allocated p)
         in Inr (\<lparr>ir_output_dunes = fst out, ir_successful_etch = map_option snd etch,
                 ir_successful_mints = snd mints, ir_burned = snd out\<rparr>,
               dunestone_db height d etch issuance (fst mints) (pl_mintable p) db)))"

definition index_runes ::
  "BitcoinCrate \<Rightarrow> (TxoRef \<rightharpoonup> TxoBody) \<Rightarrow> Network \<Rightarrow> u64 \<Rightarrow> u32 \<Rightarrow> Transaction \<Rightarrow> DuneDb \<Rightarrow>
   IndexError + (IndexRunesResult \<times> DuneDb) option" where
  "index_runes B resolver network height tx_index tx db =
     and_then (unallocated_inputs B resolver (tx_input tx) []) (\<lambda>unallocated.
       case dunestone_from_transaction B tx of
         None \<Rightarrow>
           let out = leftover B (tx_output tx) False None unallocated (replicate (length (tx_output tx)) [])
           in Inr (Some (\<lparr>ir_output_dunes = fst out, ir_successful_etch = None, ir_successful_mints = [],
                         ir_burned = snd out\<rparr>, db))
       | Some d \<Rightarrow>
         (case etched network height tx_index d db of None \<Rightarrow> Inr None
          | Some (etch, db) \<Rightarrow>
            and_then (run_dunestone B (tx_output tx) height tx_index d etch unallocated db) (\<lambda>r. Inr (Some r))))"

section \<open>Balances as numbers\<close>

definition total_of :: "balances list \<Rightarrow> u128 \<Rightarrow> nat" where
  "total_of a k = sum_list (map (\<lambda>bs. unat (bal bs k)) a)"

lemma bal_simps [simp]:
  "bal [] k = 0" "bal ((j, v) # bs) k = (if j = k then v else bal bs k)"
  by (simp_all add: bal_def)

lemma bal_Some: "map_of bs k = Some v \<Longrightarrow> bal bs k = v"
  by (simp add: bal_def)

lemma bal_add [simp]: "bal (add_balance k v bs) j = (if j = k then bal bs k + v else bal bs j)"
  by (induction k v bs rule: add_balance.induct) auto

lemma bal_set [simp]:
  "map_of bs k \<noteq> None \<Longrightarrow> bal (set_balance k v bs) j = (if j = k then v else bal bs j)"
  by (induction k v bs rule: set_balance.induct) (auto split: if_splits)

lemma keys_add: "fst ` set (add_balance k v bs) = insert k (fst ` set bs)"
  by (induction k v bs rule: add_balance.induct) auto

lemma keys_set [simp]: "map fst (set_balance k v bs) = map fst bs"
  by (induction k v bs rule: set_balance.induct) auto

lemma distinct_add [simp]: "distinct (map fst bs) \<Longrightarrow> distinct (map fst (add_balance k v bs))"
  by (induction k v bs rule: add_balance.induct) (auto simp: keys_add)

lemma total_nil [simp]: "total_of [] k = 0"
  by (simp add: total_of_def)

lemma total_empty [simp]: "total_of (replicate n []) k = 0"
  by (simp add: total_of_def sum_list_replicate)

lemma entry_le_total: "out < length a \<Longrightarrow> unat (bal (a ! out) k) \<le> total_of a k"
  unfolding total_of_def by (rule member_le_sum_list) auto

lemma total_update:
  "out < length a \<Longrightarrow> total_of (a[out := bs]) k + unat (bal (a ! out) k) = total_of a k + unat (bal bs k)"
proof (induction a arbitrary: out)
  case (Cons b a)
  then show ?case by (cases out) (auto simp: total_of_def)
qed simp

lemma unat_add_small: "unat x + unat y < 2 ^ 128 \<Longrightarrow> unat (x + y) = unat x + unat (y :: u128)"
  by (subst unat_add_lem [THEN iffD1]) simp_all

lemma total_add:
  assumes "out < length a" "total_of a i + unat v < 2 ^ 128"
  shows "total_of (a[out := add_balance i v (a ! out)]) k = total_of a k + (if k = i then unat v else 0)"
proof -
  have "unat (bal (a ! out) i) + unat v < 2 ^ 128"
    using entry_le_total [OF assms(1), of i] assms(2) by linarith
  then have "unat (bal (a ! out) i + v) = unat (bal (a ! out) i) + unat v" by (rule unat_add_small)
  then show ?thesis using total_update [OF assms(1), of "add_balance i v (a ! out)" k] by (auto split: if_splits)
qed

section \<open>Edicts move balances\<close>

lemma allocate_moves:
  assumes "amount \<le> b" "out < length a" "total_of a i + unat b < 2 ^ 128" "allocate i amount out (b, a) = (b', a')"
  shows "length a' = length a \<and> b' \<le> b \<and> total_of a' k + (if k = i then unat b' else 0) =
    total_of a k + (if k = i then unat b else 0)"
proof (cases "amount > 0")
  case True
  then have r: "b' = b - amount" "a' = a[out := add_balance i amount (a ! out)]"
    using assms(4) by (auto simp: allocate_def)
  have le: "unat amount \<le> unat b" using assms(1) by (simp add: word_le_nat_alt)
  then have "total_of a i + unat amount < 2 ^ 128" using assms(3) by linarith
  note t = total_add [OF assms(2) this]
  have u: "unat (b - amount) = unat b - unat amount" using assms(1) by (rule unat_sub)
  then have "b - amount \<le> b" by (simp add: word_le_nat_alt)
  then show ?thesis using r t [of k] u le by simp
next
  case False
  then show ?thesis using assms(4) by (auto simp: allocate_def)
qed

definition issued :: "(u128 \<times> u128) option \<Rightarrow> u128 \<Rightarrow> nat" where
  "issued iss k = (case iss of None \<Rightarrow> 0 | Some (b, i) \<Rightarrow> if i = k then unat b else 0)"

definition held :: "Pools \<Rightarrow> u128 \<Rightarrow> nat" where
  "held p k = total_of (pl_allocated p) k + unat (bal (pl_mintable p) k) + unat (bal (pl_unallocated p) k) +
     issued (pl_issuance p) k"

definition pools_moved :: "Pools \<Rightarrow> Pools \<Rightarrow> bool" where
  "pools_moved p p' \<longleftrightarrow> length (pl_allocated p') = length (pl_allocated p) \<and>
     map fst (pl_unallocated p') = map fst (pl_unallocated p) \<and>
     (\<forall>k. held p' k = held p k \<and> bal (pl_mintable p') k \<le> bal (pl_mintable p) k \<and>
       issued (pl_issuance p') k \<le> issued (pl_issuance p) k)"

lemma pools_moved_refl: "pools_moved p p"
  by (simp add: pools_moved_def)

lemma pools_moved_trans: "pools_moved p q \<Longrightarrow> pools_moved q r \<Longrightarrow> pools_moved p r"
  unfolding pools_moved_def by (metis order_trans)

lemma edict_allocate_moves:
  assumes "output < length outs" "length a = length outs" "total_of a i + unat b < 2 ^ 128"
    "edict_allocate B outs i amount output (b, a) = Inr (b', a')"
  shows "length a' = length a \<and> b' \<le> b \<and> total_of a' i + unat b' = total_of a i + unat b \<and>
    (\<forall>k. k \<noteq> i \<longrightarrow> total_of a' k = total_of a k)"
proof -
  let ?m = "if amount = 0 then b else min amount b"
  have le: "?m \<le> b" by simp
  have "allocate i ?m output (b, a) = (b', a')" using assms(1,4)
    by (cases "amount = 0") (simp_all add: edict_allocate_def)
  note mv = allocate_moves [OF le _ assms(3) this]
  have "total_of a' k = total_of a k" if "k \<noteq> i" for k using mv [of k] that assms(1,2) by simp
  then show ?thesis using mv [of i] assms(1,2) by simp
qed

text \<open>The cases of an edict: it is skipped, or it takes from one of the pools.\<close>

lemma apply_edict_cases:
  assumes "apply_edict B outs e p = Inr p'"
  obtains "p' = p"
    | (iss) b i b' a' where "unat (ed_output e) < length outs" "pl_issuance p = Some (b, i)"
        "edict_allocate B outs i (ed_amount e) (unat (ed_output e)) (b, pl_allocated p) = Inr (b', a')"
        "p' = p\<lparr>pl_issuance := Some (b', i), pl_allocated := a'\<rparr>"
    | (mint) b c b' a' where "unat (ed_output e) < length outs" "map_of (pl_mintable p) c = Some b"
        "edict_allocate B outs c (ed_amount e) (unat (ed_output e)) (b, pl_allocated p) = Inr (b', a')"
        "p' = p\<lparr>pl_mintable := set_balance c b' (pl_mintable p), pl_allocated := a'\<rparr>"
    | (inp) b c b' a' where "unat (ed_output e) < length outs" "map_of (pl_unallocated p) c = Some b"
        "edict_allocate B outs c (ed_amount e) (unat (ed_output e)) (b, pl_allocated p) = Inr (b', a')"
        "p' = p\<lparr>pl_unallocated := set_balance c b' (pl_unallocated p), pl_allocated := a'\<rparr>"
proof (cases "2 ^ 64 \<le> uint (ed_output e) \<or> length outs \<le> unat (ed_output e)")
  case True
  then have "apply_edict B outs e p = Inr p"
    by (cases "2 ^ 64 \<le> uint (ed_output e)") (simp_all only: apply_edict_def Let_def if_True if_False simp_thms)
  then show thesis using assms that(1) by simp
next
  case False
  let ?run = "\<lambda>i balance. edict_allocate B outs i (ed_amount e) (unat (ed_output e)) (balance, pl_allocated p)"
  have out: "unat (ed_output e) < length outs" and g: "\<not> 2 ^ 64 \<le> uint (ed_output e)"
    "\<not> length outs \<le> unat (ed_output e)" using False by auto
  show thesis
  proof (cases "ed_id e = 0")
    case True
    then have "(case pl_issuance p of None \<Rightarrow> Inr p
        | Some (balance, i) \<Rightarrow> and_then (?run i balance) (\<lambda>(b, a).
            Inr (p\<lparr>pl_issuance := Some (b, i), pl_allocated := a\<rparr>))) = Inr p'"
      using assms g by (simp only: apply_edict_def Let_def if_False if_True refl)
    then show thesis using that(1,2) out
      by (auto simp: and_then_Inr_iff split: option.splits)
  next
    case nz: False
    show thesis
    proof (cases "claim (ed_id e)")
      case (Some c)
      then have eq: "(case map_of (pl_mintable p) c of None \<Rightarrow> Inr p
          | Some balance \<Rightarrow> and_then (?run c balance) (\<lambda>(b, a).
              Inr (p\<lparr>pl_mintable := set_balance c b (pl_mintable p), pl_allocated := a\<rparr>))) = Inr p'"
        using assms g nz by (simp only: apply_edict_def Let_def if_False option.case)
      show thesis
      proof (cases "map_of (pl_mintable p) c")
        case None
        then show thesis using eq that(1) by simp
      next
        case (Some b)
        obtain b' a' where "?run c b = Inr (b', a')" "p' = p\<lparr>pl_mintable := set_balance c b' (pl_mintable p), pl_allocated := a'\<rparr>"
          using eq Some by (auto simp: and_then_Inr_iff)
        then show thesis by (rule that(3) [OF out Some])
      qed
    next
      case None
      then have eq: "(case map_of (pl_unallocated p) (ed_id e) of None \<Rightarrow> Inr p
          | Some balance \<Rightarrow> and_then (?run (ed_id e) balance) (\<lambda>(b, a).
              Inr (p\<lparr>pl_unallocated := set_balance (ed_id e) b (pl_unallocated p), pl_allocated := a\<rparr>))) = Inr p'"
        using assms g nz by (simp only: apply_edict_def Let_def if_False option.case)
      show thesis
      proof (cases "map_of (pl_unallocated p) (ed_id e)")
        case None
        then show thesis using eq that(1) by simp
      next
        case (Some b)
        obtain b' a' where "?run (ed_id e) b = Inr (b', a')" "p' = p\<lparr>pl_unallocated := set_balance (ed_id e) b' (pl_unallocated p), pl_allocated := a'\<rparr>"
          using eq Some by (auto simp: and_then_Inr_iff)
        then show thesis by (rule that(4) [OF out Some])
      qed
    qed
  qed
qed

lemma apply_edict_moves:
  assumes len: "length (pl_allocated p) = length outs" and fits: "\<forall>k. held p k < 2 ^ 128"
    and run: "apply_edict B outs e p = Inr p'"
  shows "pools_moved p p'"
  using run
proof (cases rule: apply_edict_cases)
    case 1
    then show ?thesis by (simp add: pools_moved_refl)
  next
    case (iss b i b' a')
    have "total_of (pl_allocated p) i + unat b < 2 ^ 128" using fits [rule_format, of i] iss(2) by (simp add: held_def issued_def)
    note mv = edict_allocate_moves [OF iss(1) len this iss(3)]
    show ?thesis using mv iss by (auto simp: pools_moved_def held_def issued_def word_le_nat_alt)
  next
    case (mint b c b' a')
    have "total_of (pl_allocated p) c + unat b < 2 ^ 128"
      using fits [rule_format, of c] bal_Some [OF mint(2)] by (simp add: held_def)
    note mv = edict_allocate_moves [OF mint(1) len this mint(3)]
    show ?thesis using mv mint bal_Some [OF mint(2)] by (auto simp: pools_moved_def held_def)
  next
    case (inp b c b' a')
    have "total_of (pl_allocated p) c + unat b < 2 ^ 128"
      using fits [rule_format, of c] bal_Some [OF inp(2)] by (simp add: held_def)
    note mv = edict_allocate_moves [OF inp(1) len this inp(3)]
    show ?thesis using mv inp bal_Some [OF inp(2)] by (auto simp: pools_moved_def held_def)
qed

lemma apply_edicts_moves:
  "length (pl_allocated p) = length outs \<Longrightarrow> \<forall>k. held p k < 2 ^ 128 \<Longrightarrow>
   apply_edicts B outs es p = Inr p' \<Longrightarrow> pools_moved p p'"
proof (induction es arbitrary: p)
  case (Cons e es)
  then obtain q where q: "apply_edict B outs e p = Inr q" "apply_edicts B outs es q = Inr p'"
    by (auto simp: and_then_Inr_iff)
  have m: "pools_moved p q" using apply_edict_moves [OF Cons.prems(1,2) q(1)] .
  have "pools_moved q p'" using Cons.IH [OF _ _ q(2)] m Cons.prems(1,2) by (simp add: pools_moved_def)
  with m show ?case by (rule pools_moved_trans)
qed (simp add: pools_moved_refl)

section \<open>What is left over\<close>

lemma bal_absent: "k \<notin> fst ` set bs \<Longrightarrow> bal bs k = 0"
  by (induction bs) auto

lemma fold_burn:
  "distinct (map fst u) \<Longrightarrow> bal (fold (\<lambda>(i, b). add_balance i b) u m) k = bal m k + bal u k"
proof (induction u arbitrary: m)
  case (Cons x u)
  then show ?case by (cases x) (auto simp: bal_absent)
qed simp

lemma fold_burn_positive:
  "distinct (map fst u) \<Longrightarrow>
   bal (fold (\<lambda>(i, b) m. if b > 0 then add_balance i b m else m) u m) k = bal m k + bal u k"
proof (induction u arbitrary: m)
  case (Cons x u)
  then show ?case by (cases x; cases "snd x = 0") (auto simp: bal_absent word_gt_0)
qed simp

lemma fold_default:
  assumes "distinct (map fst u)" "vout < length a" "\<And>k. total_of a k + unat (bal u k) < 2 ^ 128"
  shows "total_of (fold (\<lambda>(i, b) a. if b > 0 then a[vout := add_balance i b (a ! vout)] else a) u a) k =
    total_of a k + unat (bal u k)"
  using assms
proof (induction u arbitrary: a)
  case (Cons x u)
  obtain i b where x: "x = (i, b)" by (cases x)
  let ?a = "if b > 0 then a[vout := add_balance i b (a ! vout)] else a"
  have fresh: "bal u i = 0" using Cons.prems(1) x by (auto intro: bal_absent)
  have fits: "total_of a i + unat b < 2 ^ 128" using Cons.prems(3) [of i] x by simp
  have ta: "total_of ?a j = total_of a j + (if j = i then unat b else 0)" for j
    using total_add [OF Cons.prems(2) fits, of j] by (cases "b = 0") (auto simp: word_gt_0)
  have "total_of ?a j + unat (bal u j) < 2 ^ 128" for j
    using Cons.prems(3) [of j] fits fresh by (simp add: ta x split: if_splits)
  from Cons.IH [OF _ _ this] Cons.prems(1,2) x
  have "total_of (fold (\<lambda>(i, b) a. if b > 0 then a[vout := add_balance i b (a ! vout)] else a) u ?a) k =
      total_of ?a k + unat (bal u k)" by simp
  then show ?case using ta [of k] fresh by (cases "k = i") (simp_all add: x)
qed simp

lemma find_less: "find P [0..<n] = Some j \<Longrightarrow> j < n"
  by (auto simp: find_Some_iff)

lemma leftover_total:
  assumes "distinct (map fst u)" "length a = length outs" "\<And>k. total_of a k + unat (bal u k) < 2 ^ 128"
    "leftover B outs cenotaph pointer u a = (a', burned)"
  shows "total_of a' k + unat (bal burned k) = total_of a k + unat (bal u k)"
proof (cases "cenotaph \<or> default_vout B outs pointer = None")
  case True
  then have "a' = a \<and> bal burned k = bal u k"
    using assms(4) fold_burn [OF assms(1), of "[]" k] fold_burn_positive [OF assms(1), of "[]" k]
    by (cases cenotaph) (auto simp: leftover_def split: if_splits)
  then show ?thesis by simp
next
  case False
  then obtain vout where v: "default_vout B outs pointer = Some vout" by blast
  then have "vout < length a" using assms(2) by (auto simp: default_vout_def find_less split: option.splits if_splits)
  then show ?thesis using fold_default [OF assms(1) _ assms(3), of vout k] assms(4) False v by (auto simp: leftover_def)
qed

section \<open>Conservation\<close>

lemma unallocated_distinct:
  "distinct (map fst bs) \<Longrightarrow> unallocated_inputs B resolver is bs = Inr u \<Longrightarrow> distinct (map fst u)"
proof (induction "is" arbitrary: bs)
  case (Cons i "is")
  have "distinct (map fst (fold (\<lambda>(d, v). add_balance (dune_id_into (of_sdi d)) v) ds cs))"
    if "distinct (map fst cs)" for ds :: "(StorageDuneId \<times> u128) list" and cs
    using that by (induction ds arbitrary: cs) auto
  with Cons show ?case by (auto split: if_splits option.splits)
qed simp

text \<open>What a transaction may add to the dunes of its inputs: mints it claims, supply it etches.\<close>

definition tx_mintable :: "BitcoinCrate \<Rightarrow> u64 \<Rightarrow> Transaction \<Rightarrow> DuneDb \<Rightarrow> u128 \<Rightarrow> nat" where
  "tx_mintable B height tx db k =
     (case dunestone_from_transaction B tx of None \<Rightarrow> 0
      | Some d \<Rightarrow> if ds_cenotaph d then 0 else unat (bal (fst (mint_claims db height 0 (dune_claims d))) k))"

definition tx_issuable :: "BitcoinCrate \<Rightarrow> u64 \<Rightarrow> u32 \<Rightarrow> Transaction \<Rightarrow> u128 \<Rightarrow> nat" where
  "tx_issuable B height tx_index tx k =
     (case dunestone_from_transaction B tx of None \<Rightarrow> 0
      | Some d \<Rightarrow> if ds_etching d \<noteq> None \<and> tx_index < 2 ^ 16 \<and> k = issuance_id height tx_index then 2 ^ 128 - 1 else 0)"

lemma mint_reserved [simp]: "mint (db\<lparr>dd_reserved := x\<rparr>) = mint db"
  by (rule ext)+ (simp add: mint_def Let_def split: option.split)

lemma mint_claims_reserved: "mint_claims (db\<lparr>dd_reserved := x\<rparr>) height j is = mint_claims db height j is"
  by (induction "is" arbitrary: j) simp_all

lemma etched_keeps:
  assumes "etched network height tx_index d db = Some (etch, db')"
  shows "mint_claims db' height j is = mint_claims db height j is" "etch \<noteq> None \<Longrightarrow> ds_etching d \<noteq> None"
proof -
  have "(\<exists>x. db' = db\<lparr>dd_reserved := x\<rparr>) \<or> db' = db"
    using assms by (auto simp: etched_def Let_def split: option.splits if_splits)
  then show "mint_claims db' height j is = mint_claims db height j is" by (auto simp: mint_claims_reserved)
  show "etch \<noteq> None \<Longrightarrow> ds_etching d \<noteq> None" using assms by (auto simp: etched_def split: option.splits)
qed

text \<open>The accounting of a transaction, with the bounds of what it may add.\<close>

lemma unat_max_u128: "unat (- 1 :: u128) = 2 ^ 128 - 1"
proof -
  have "unat (- 1 :: u128) = mask LENGTH(128)" by (rule unsigned_minus_1_eq_mask)
  then show ?thesis by (simp only: mask_eq_exp_minus_1 len_bit0 len_num1 mult_1_right) simp
qed

lemma index_runes_accounts:
  assumes run: "index_runes B resolver network height tx_index tx db = Inr (Some (r, db'))"
    and inputs: "unallocated_inputs B resolver (tx_input tx) [] = Inr u"
    and fits: "\<And>k. unat (bal u k) + tx_mintable B height tx db k + tx_issuable B height tx_index tx k < 2 ^ 128"
  shows "\<exists>m i. m \<le> tx_mintable B height tx db k \<and> i \<le> tx_issuable B height tx_index tx k \<and>
    total_of (ir_output_dunes r) k + unat (bal (ir_burned r) k) = unat (bal u k) + m + i"
proof (cases "dunestone_from_transaction B tx")
  case None
  let ?l = "leftover B (tx_output tx) False None u (replicate (length (tx_output tx)) [])"
  have "r = \<lparr>ir_output_dunes = fst ?l, ir_successful_etch = None, ir_successful_mints = [], ir_burned = snd ?l\<rparr>"
    using run inputs None by (simp add: index_runes_def Let_def)
  moreover have "unat (bal u j) < 2 ^ 128" for j using fits [of j] by linarith
  ultimately show ?thesis
    using leftover_total [OF unallocated_distinct [OF _ inputs] _ _ surjective_pairing [of ?l], of k]
    by (auto intro!: exI [of _ 0])
next
  case (Some d)
  let ?outs = "tx_output tx"
  obtain etch db1 where et: "etched network height tx_index d db = Some (etch, db1)"
    and rd: "run_dunestone B ?outs height tx_index d etch u db1 = Inr (r, db')"
    using run inputs Some by (auto simp: index_runes_def and_then_Inr_iff split: option.splits)
  let ?iss = "new_issuance height tx_index etch" and ?mc = "dunestone_mints height d db1"
  let ?p0 = "\<lparr>pl_issuance = ?iss, pl_mintable = fst ?mc, pl_unallocated = u, pl_allocated = replicate (length ?outs) []\<rparr>"
  obtain p where p: "run_edicts B ?outs d ?p0 = Inr p"
    and r: "leftover B ?outs (ds_cenotaph d) (ds_pointer d) (pl_unallocated p) (pl_allocated p) =
      (ir_output_dunes r, ir_burned r)"
    using rd by (auto simp: run_dunestone_def Let_def and_then_Inr_iff)
  have mint: "unat (bal (fst ?mc) k) = tx_mintable B height tx db k" for k
    using Some etched_keeps(1) [OF et] by (simp add: dunestone_mints_def tx_mintable_def)
  have issue: "issued ?iss k \<le> tx_issuable B height tx_index tx k" for k
    using Some etched_keeps(2) [OF et]
    by (auto simp: new_issuance_def issued_def tx_issuable_def unat_max_u128 split: option.splits)
  have h0: "held ?p0 k = unat (bal u k) + tx_mintable B height tx db k + issued ?iss k" for k
    by (simp add: held_def mint)
  then have lt: "\<forall>k. held ?p0 k < 2 ^ 128" using fits issue by (metis add_left_mono le_less_trans)
  have mv: "pools_moved ?p0 p"
    using p apply_edicts_moves [OF _ lt, of ?outs B "ds_edicts d" p]
    by (auto simp: pools_moved_refl run_edicts_def split: if_splits)
  then have h: "held p k = held ?p0 k" for k by (simp add: pools_moved_def)
  have le: "total_of (pl_allocated p) k + unat (bal (pl_unallocated p) k) < 2 ^ 128" for k
    using lt [rule_format, of k] h [of k] unfolding held_def [of p] by linarith
  have tot: "total_of (ir_output_dunes r) k + unat (bal (ir_burned r) k) =
      total_of (pl_allocated p) k + unat (bal (pl_unallocated p) k)"
    using leftover_total [OF _ _ le r, of k] mv unallocated_distinct [OF _ inputs] by (simp add: pools_moved_def)
  let ?m = "tx_mintable B height tx db k - unat (bal (pl_mintable p) k)" and ?i = "issued ?iss k - issued (pl_issuance p) k"
  have "unat (bal (pl_mintable p) k) \<le> tx_mintable B height tx db k" "issued (pl_issuance p) k \<le> issued ?iss k"
    using mv unfolding mint [symmetric] by (simp_all add: pools_moved_def word_le_nat_alt)
  then have "total_of (pl_allocated p) k + unat (bal (pl_unallocated p) k) = unat (bal u k) + ?m + ?i"
    using h [of k] h0 [of k] unfolding held_def [of p] by linarith
  then show ?thesis using tot issue [of k] by (intro exI [of _ ?m] exI [of _ ?i]) auto
qed

section \<open>The dunes of the inputs\<close>

fun input_total :: "BitcoinCrate \<Rightarrow> (TxoRef \<rightharpoonup> TxoBody) \<Rightarrow> TxIn list \<Rightarrow> u128 \<Rightarrow> nat" where
  "input_total B resolver [] k = 0"
| "input_total B resolver (i # is) k =
     (if bc_is_null B (ti_previous_output i) then 0
      else case resolver (txo_ref (ti_previous_output i)) of None \<Rightarrow> 0
        | Some body \<Rightarrow> sum_list (map (\<lambda>(d, v). if dune_id_into (of_sdi d) = k then unat v else 0) (tb_dunes body)))
     + input_total B resolver is k"

lemma fold_add_total:
  "unat (bal bs k) + sum_list (map (\<lambda>(d, v). if f d = k then unat v else 0) ds) < 2 ^ 128 \<Longrightarrow>
   unat (bal (fold (\<lambda>(d, v). add_balance (f d) v) ds bs) k) =
   unat (bal bs k) + sum_list (map (\<lambda>(d, v). if f d = k then unat v else 0) ds)"
proof (induction ds arbitrary: bs)
  case (Cons x ds)
  obtain d v where x: "x = (d, v)" by (cases x)
  have "unat (bal (add_balance (f d) v bs) k) = unat (bal bs k) + (if f d = k then unat v else 0)"
    using Cons.prems x by (auto intro!: unat_add_small)
  then show ?case using Cons.IH [of "add_balance (f d) v bs"] Cons.prems x by simp
qed simp

lemma unallocated_total:
  "unallocated_inputs B resolver is bs = Inr u \<Longrightarrow> unat (bal bs k) + input_total B resolver is k < 2 ^ 128 \<Longrightarrow>
   unat (bal u k) = unat (bal bs k) + input_total B resolver is k"
proof (induction "is" arbitrary: bs)
  case (Cons i "is")
  show ?case
  proof (cases "bc_is_null B (ti_previous_output i)")
    case False
    then obtain body where body: "resolver (txo_ref (ti_previous_output i)) = Some body"
      using Cons.prems(1) by (auto split: option.splits)
    let ?f = "\<lambda>d. dune_id_into (of_sdi d)"
    let ?bs = "fold (\<lambda>(d, v). add_balance (?f d) v) (tb_dunes body) bs"
    have "unat (bal ?bs k) = unat (bal bs k) +
        sum_list (map (\<lambda>(d, v). if ?f d = k then unat v else 0) (tb_dunes body))"
      using Cons.prems(2) False body by (intro fold_add_total) simp
    then show ?thesis using Cons.IH [of ?bs] Cons.prems False body by simp
  qed (use Cons in simp)
qed simp

text \<open>An example: a transfer of 30 out of 100 dunes, the rest going to the first plain output.\<close>

definition demo_tx :: Transaction where
  "demo_tx = \<lparr>tx_input = [\<lparr>ti_previous_output = \<lparr>op_txid = [7], op_vout = 0\<rparr>, ti_script_sig = []\<rparr>],
     tx_output = [\<lparr>to_value = 0, to_script_pubkey = [0x6A, 0, 130, 255, 0, 30, 2]\<rparr>,
                  \<lparr>to_value = 1, to_script_pubkey = [1]\<rparr>, \<lparr>to_value = 1, to_script_pubkey = [2]\<rparr>]\<rparr>"
definition demo_txo :: TxoBody where
  "demo_txo = \<lparr>tb_height = 1, tb_raw = [], tb_ord_ranges = [], tb_dunes = [(\<lparr>sdi_block = 1, sdi_tx = 0\<rparr>, 100)],
     tb_inscriptions = [], tb_unused_brc20_transfers = []\<rparr>"
definition empty_db :: DuneDb where
  "empty_db = \<lparr>dd_id_by_name = Map.empty, dd_terms = Map.empty, dd_mints = Map.empty, dd_reserved = None\<rparr>"

lemma demo_dunestone:
  "dunestone_from_transaction demo_crate demo_tx =
   Some \<lparr>ds_edicts = [\<lparr>ed_id = 65536, ed_amount = 30, ed_output = 2\<rparr>], ds_etching = None, ds_pointer = None, ds_cenotaph = False\<rparr>"
  by code_simp

lemma demo_claim: "claim 65536 = None"
  by code_simp

lemma demo_claims: "dune_claims \<lparr>ds_edicts = [\<lparr>ed_id = 65536, ed_amount = 30, ed_output = 2\<rparr>], ds_etching = None, ds_pointer = None, ds_cenotaph = False\<rparr> = []"
  by code_simp

lemma demo_unallocated: "unallocated_inputs demo_crate [([7], 0) \<mapsto> demo_txo] (tx_input demo_tx) [] = Inr [(65536, 100)]"
  by code_simp

lemma demo_edicts: "run_edicts demo_crate (tx_output demo_tx)
   \<lparr>ds_edicts = [\<lparr>ed_id = 65536, ed_amount = 30, ed_output = 2\<rparr>], ds_etching = None, ds_pointer = None, ds_cenotaph = False\<rparr>
   \<lparr>pl_issuance = None, pl_mintable = [], pl_unallocated = [(65536, 100)], pl_allocated = replicate (length (tx_output demo_tx)) []\<rparr>
  = Inr \<lparr>pl_issuance = None, pl_mintable = [], pl_unallocated = [(65536, 70)], pl_allocated = [[], [], [(65536, 30)]]\<rparr>"
  by code_simp

lemma demo_leftover: "leftover demo_crate (tx_output demo_tx) False None [(65536, 70)] [[], [], [(65536, 30)]] =
  ([[], [(65536, 70)], [(65536, 30)]], [])"
  by code_simp

lemma demo_run:
  "index_runes demo_crate [([7], 0) \<mapsto> demo_txo] Dogecoin 5000000 1 demo_tx empty_db =
   Inr (Some (\<lparr>ir_output_dunes = [[], [(65536, 70)], [(65536, 30)]], ir_successful_etch = None,
     ir_successful_mints = [], ir_burned = []\<rparr>, empty_db))"
  by (simp add: index_runes_def demo_unallocated demo_dunestone etched_def run_dunestone_def new_issuance_def
    dunestone_mints_def demo_claims demo_edicts demo_leftover dunestone_db_def Let_def)

lemma demo_inputs: "input_total demo_crate [([7], 0) \<mapsto> demo_txo] (tx_input demo_tx) k = (if k = 65536 then 100 else 0)"
proof -
  have "dune_id_into (of_sdi \<lparr>sdi_block = 1, sdi_tx = 0\<rparr>) = 65536" by code_simp
  then show ?thesis by (simp add: demo_tx_def demo_crate_def demo_txo_def txo_ref_def)
qed

lemma demo_adds: "tx_mintable demo_crate 5000000 demo_tx empty_db k = 0" "tx_issuable demo_crate 5000000 1 demo_tx k = 0"
  by (simp_all add: tx_mintable_def tx_issuable_def demo_dunestone demo_claims)

text \<open>
  C8. No dune is created or lost: when a transaction is indexed, what its outputs receive of a dune
  and what it burns is what its inputs held, plus at most the mint it claimed of that dune, plus at
  most the supply it etched; and only claims and etchings add anything. The hypothesis is that these
  amounts fit the 128 bits of a balance (in a release build the additions would wrap).
\<close>

theorem dunes_conserved:
  assumes "index_runes B resolver network height tx_index tx db = Inr (Some (r, db'))"
    and fits: "\<And>k. input_total B resolver (tx_input tx) k + tx_mintable B height tx db k +
      tx_issuable B height tx_index tx k < 2 ^ 128"
  shows "\<exists>m i. m \<le> tx_mintable B height tx db k \<and> i \<le> tx_issuable B height tx_index tx k \<and>
    total_of (ir_output_dunes r) k + unat (bal (ir_burned r) k) = input_total B resolver (tx_input tx) k + m + i"
proof -
  obtain u where u: "unallocated_inputs B resolver (tx_input tx) [] = Inr u"
    using assms(1) by (auto simp: index_runes_def and_then_Inr_iff)
  have in_total: "unat (bal u k) = input_total B resolver (tx_input tx) k" for k
    using unallocated_total [OF u, of k] fits [of k] by simp
  have "unat (bal u k) + tx_mintable B height tx db k + tx_issuable B height tx_index tx k < 2 ^ 128" for k
    using fits [of k] in_total [of k] by simp
  from index_runes_accounts [OF assms(1) u this, of k] show ?thesis by (simp add: in_total)
qed

theorem dunes_conserved_witness:
  "total_of [[], [(65536, 70)], [(65536, 30)]] 65536 + unat (bal [] 65536) =
   input_total demo_crate [([7], 0) \<mapsto> demo_txo] (tx_input demo_tx) 65536"
  using dunes_conserved [OF demo_run, of 65536] by (simp add: demo_inputs demo_adds)

end
