(* ===== verification/Dune_Mints.thy ===== *)
theory Dune_Mints
  imports Dune_Updater
begin

text \<open>
  The mints a dune allows (\<open>mint\<close>, \<open>create_rune_entry\<close> and the counting of mints in
  \<open>storage/runes/updater.rs\<close>): the number of mints stays within the cap of the terms.
\<close>

section \<open>Mint caps\<close>

definition cap_of :: "DuneDb \<Rightarrow> StorageDuneId \<Rightarrow> u128" where
  "cap_of db i = (case dd_terms db i of None \<Rightarrow> 0 | Some t \<Rightarrow> (case dt_cap t of None \<Rightarrow> - 1 | Some c \<Rightarrow> c))"

definition within_caps :: "DuneDb \<Rightarrow> bool" where
  "within_caps db \<longleftrightarrow> (\<forall>i. or_default (dd_mints db i) \<le> cap_of db i)"

definition terms_before :: "nat \<Rightarrow> nat \<Rightarrow> DuneDb \<Rightarrow> bool" where
  "terms_before h n db \<longleftrightarrow> (\<forall>i. dd_terms db i \<noteq> None \<longrightarrow>
     unat (sdi_block i) < h \<or> unat (sdi_block i) = h \<and> unat (sdi_tx i) < n)"

lemma unat_index_u64: "unat (ucast (x :: u32) :: u64) = unat x"
proof -
  have "unat x < 2 ^ 32" using unsigned_less [of x] by simp
  then have "unat x < 2 ^ 64" by simp
  then show ?thesis by (simp add: unsigned_ucast_eq take_bit_nat_eq_self)
qed

lemma sdi_of_eq_iff: "sdi_of a = sdi_of b \<longleftrightarrow> a = b"
proof
  assume "sdi_of a = sdi_of b"
  then have "di_height a = di_height b" "(ucast (di_index a) :: u64) = ucast (di_index b)"
    by (simp_all add: sdi_of_def)
  moreover have "di_index a = di_index b" if "(ucast (di_index a) :: u64) = ucast (di_index b)"
    using arg_cong [OF that, of unat] by (simp only: unat_index_u64 unsigned_word_eqI)
  ultimately show "a = b" by (intro DuneId.equality) simp_all
qed simp

lemma dune_key_inject: "dune_id_try_from a = Some k \<Longrightarrow> dune_id_try_from b = Some k \<Longrightarrow> a = b"
  using dune_id_of_number by blast

lemma claims_distinct: "distinct (dune_claims d)"
proof -
  have "sorted xs \<Longrightarrow> distinct (remdups_adj xs)" for xs :: "u128 list"
    by (induction xs rule: remdups_adj.induct) (auto simp: order.order_iff_strict)
  then show ?thesis by (simp add: dune_claims_def)
qed

lemma mint_claims_keys:
  "distinct is \<Longrightarrow> mint_claims db height j is = (ms, ok) \<Longrightarrow>
   distinct (map fst ms) \<and> fst ` set ms \<subseteq> set is \<and>
   (\<forall>i\<in>fst ` set ms. \<exists>k. dune_id_try_from i = Some k \<and> mint db k height \<noteq> None)"
proof (induction "is" arbitrary: j ms ok)
  case (Cons i "is")
  obtain ms' ok' where r: "mint_claims db height (Suc j) is = (ms', ok')" by (cases "mint_claims db height (Suc j) is")
  with Cons.IH [OF _ r] Cons.prems show ?case
    by (fastforce split: option.splits bind_splits)
qed simp

lemma mint_below_cap: "mint db k height \<noteq> None \<Longrightarrow> or_default (dd_mints db (sdi_of k)) < cap_of db (sdi_of k)"
  by (auto simp: mint_def cap_of_def Let_def not_le split: option.splits if_splits)

lemma count_mints_terms [simp]: "dd_terms (count_mints limits ms db) = dd_terms db"
  by (induction limits ms db rule: count_mints.induct) (auto split: option.splits)

lemma count_mints_once:
  "distinct (map fst ms) \<Longrightarrow>
   or_default (dd_mints (count_mints limits ms db) j) = or_default (dd_mints db j) \<or>
   (\<exists>i k. i \<in> fst ` set ms \<and> dune_id_try_from i = Some k \<and> sdi_of k = j \<and>
     or_default (dd_mints (count_mints limits ms db) j) = or_default (dd_mints db j) + 1)"
proof (induction limits ms db rule: count_mints.induct)
  case (2 limits i amount ms db)
  let ?db = "if bal limits i - amount > 0 then
      (case dune_id_try_from i of None \<Rightarrow> db
       | Some key \<Rightarrow> db\<lparr>dd_mints := (dd_mints db)(sdi_of key \<mapsto> or_default (dd_mints db (sdi_of key)) + 1)\<rparr>)
    else db"
  have IH: "or_default (dd_mints (count_mints limits ms ?db) j) = or_default (dd_mints ?db j) \<or>
   (\<exists>i k. i \<in> fst ` set ms \<and> dune_id_try_from i = Some k \<and> sdi_of k = j \<and>
     or_default (dd_mints (count_mints limits ms ?db) j) = or_default (dd_mints ?db j) + 1)"
    using 2 by simp
  show ?case
  proof (cases "\<exists>k. dune_id_try_from i = Some k \<and> sdi_of k = j")
    case True
    then obtain k where k: "dune_id_try_from i = Some k" "sdi_of k = j" by blast
    have "False" if "x \<in> set ms" "dune_id_try_from (fst x) = Some k'" "sdi_of k' = j" for x k'
    proof -
      have "fst x = i" using that k dune_key_inject by (auto simp: sdi_of_eq_iff)
      then show False using 2(2) that(1) by auto
    qed
    then have "\<not> (\<exists>i' k'. i' \<in> fst ` set ms \<and> dune_id_try_from i' = Some k' \<and> sdi_of k' = j)" by blast
    then have eq: "or_default (dd_mints (count_mints limits ms ?db) j) = or_default (dd_mints ?db j)" using IH by blast
    have "or_default (dd_mints ?db j) = or_default (dd_mints db j) \<or> or_default (dd_mints ?db j) = or_default (dd_mints db j) + 1"
      using k by (simp add: or_default_def)
    with eq k show ?thesis by auto
  next
    case False
    then have "dd_mints ?db j = dd_mints db j" by (auto split: option.splits)
    with IH show ?thesis by auto
  qed
qed simp

lemma count_mints_within:
  assumes "within_caps db" "mint_claims db height 0 (dune_claims d) = (limits, ok)" "map fst ms = map fst limits"
  shows "within_caps (count_mints limits ms db)"
  unfolding within_caps_def
proof
  fix j
  note keys = mint_claims_keys [OF claims_distinct assms(2)]
  have dis: "distinct (map fst ms)" and sub: "fst ` set ms = fst ` set limits" 
    using keys assms(3) by (auto simp flip: set_map)
  have cap: "cap_of (count_mints limits ms db) j = cap_of db j" by (simp add: cap_of_def)
  have le: "or_default (dd_mints db j) \<le> cap_of db j" using assms(1) by (simp add: within_caps_def)
  from count_mints_once [OF dis, of limits db j]
  show "or_default (dd_mints (count_mints limits ms db) j) \<le> cap_of (count_mints limits ms db) j"
  proof (elim disjE exE conjE)
    fix i k assume k: "i \<in> fst ` set ms" "dune_id_try_from i = Some k" "sdi_of k = j"
      "or_default (dd_mints (count_mints limits ms db) j) = or_default (dd_mints db j) + 1"
    have "mint db k height \<noteq> None" using keys k(1,2) sub by force
    then have "or_default (dd_mints db j) < cap_of db j" using mint_below_cap k(3) by blast
    then show ?thesis using k(4) cap inc_le by metis
  qed (use le cap in simp)
qed

lemma run_edicts_keys:
  assumes "run_edicts B outs d p = Inr p'"
  shows "map fst (pl_mintable p') = map fst (pl_mintable p)"
proof -
  have one: "map fst (pl_mintable q') = map fst (pl_mintable q)" if "apply_edict B outs e q = Inr q'" for e q q'
    using that by (cases rule: apply_edict_cases) simp_all
  have "apply_edicts B outs es q = Inr p' \<Longrightarrow> map fst (pl_mintable p') = map fst (pl_mintable q)" for es q
    by (induction es arbitrary: q) (auto simp: and_then_Inr_iff dest: one)
  then show ?thesis using assms by (auto simp: run_edicts_def split: if_splits)
qed

lemma etched_db:
  assumes "etched network height tx_index d db = Some (etch, db')"
  shows "dd_terms db' = dd_terms db" "dd_mints db' = dd_mints db" "dd_id_by_name db' = dd_id_by_name db"
  using assms by (auto simp: etched_def Let_def split: option.splits if_splits)

lemma within_caps_cong: "dd_terms db' = dd_terms db \<Longrightarrow> dd_mints db' = dd_mints db \<Longrightarrow> within_caps db' = within_caps db"
  by (simp add: within_caps_def cap_of_def)

text \<open>The entry of an etching is written under a fresh identifier.\<close>

lemma issuance_key:
  assumes "tx_index < 2 ^ 16"
  shows "dune_id_try_from (issuance_id height tx_index) = Some \<lparr>di_height = height, di_index = tx_index\<rparr>"
  using dune_id_number_roundtrip [of "\<lparr>di_height = height, di_index = tx_index\<rparr>"] assms
  by (simp add: issuance_id_def dune_id_into_def)

lemma create_rune_entry_terms:
  "dd_mints (create_rune_entry d i dune height db) = dd_mints db \<and>
   (\<forall>j. j \<noteq> sdi_of i \<longrightarrow> dd_terms (create_rune_entry d i dune height db) j = dd_terms db j)"
  by (simp add: create_rune_entry_def Let_def)

lemma create_within:
  assumes "within_caps db" "dd_terms db (sdi_of i) = None"
  shows "within_caps (create_rune_entry d i dune height db)"
  unfolding within_caps_def
proof
  fix j
  note entry = create_rune_entry_terms [of d i dune height db]
  have old: "or_default (dd_mints db j) \<le> cap_of db j" using assms(1) by (simp add: within_caps_def)
  show "or_default (dd_mints (create_rune_entry d i dune height db) j) \<le> cap_of (create_rune_entry d i dune height db) j"
  proof (cases "j = sdi_of i")
    case True
    then have "or_default (dd_mints db j) = 0" using old assms(2) by (simp add: cap_of_def)
    then show ?thesis using entry by simp
  next
    case False
    then have "cap_of (create_rune_entry d i dune height db) j = cap_of db j" using entry by (simp add: cap_of_def)
    then show ?thesis using entry old by simp
  qed
qed

lemma dunestone_db_keeps:
  assumes "within_caps db" "dd_terms db (sdi_of \<lparr>di_height = height, di_index = tx_index\<rparr>) = None"
    "run_edicts B outs d \<lparr>pl_issuance = iss, pl_mintable = fst (dunestone_mints height d db), pl_unallocated = u, pl_allocated = a\<rparr> = Inr p"
    "iss = new_issuance height tx_index etch"
  shows "within_caps (dunestone_db height d etch iss (fst (dunestone_mints height d db)) (pl_mintable p) db) \<and>
    (\<forall>j. j \<noteq> sdi_of \<lparr>di_height = height, di_index = tx_index\<rparr> \<longrightarrow>
      dd_terms (dunestone_db height d etch iss (fst (dunestone_mints height d db)) (pl_mintable p) db) j = dd_terms db j)"
proof -
  let ?lim = "fst (dunestone_mints height d db)" and ?key = "\<lparr>di_height = height, di_index = tx_index\<rparr>"
  let ?db = "if ds_cenotaph d then db else count_mints ?lim (pl_mintable p) db"
  have keys: "map fst (pl_mintable p) = map fst ?lim" using run_edicts_keys [OF assms(3)] by simp
  have w: "within_caps ?db"
  proof (cases "ds_cenotaph d")
    case False
    then have "mint_claims db height 0 (dune_claims d) = (?lim, snd (dunestone_mints height d db))"
      by (simp add: dunestone_mints_def)
    from count_mints_within [OF assms(1) this keys] False show ?thesis by simp
  qed (simp add: assms(1))
  have t: "dd_terms ?db = dd_terms db" by simp
  consider "dunestone_db height d etch iss ?lim (pl_mintable p) db = ?db"
    | dune where "dunestone_db height d etch iss ?lim (pl_mintable p) db = create_rune_entry d ?key dune height ?db"
  proof (cases "etch \<noteq> None \<and> tx_index < 2 ^ 16")
    case True
    then obtain i dune where "etch = Some (i, dune)" by auto
    then have "dunestone_db height d etch iss ?lim (pl_mintable p) db = create_rune_entry d ?key dune height ?db"
      using issuance_key [of tx_index height] assms(4) True by (simp add: dunestone_db_def new_issuance_def Let_def)
    then show thesis by (rule that(2))
  next
    case False
    then have "dunestone_db height d etch iss ?lim (pl_mintable p) db = ?db"
      using assms(4) by (auto simp: dunestone_db_def new_issuance_def Let_def split: option.split)
    then show thesis by (rule that(1))
  qed
  then show ?thesis
  proof cases
    case 1
    then show ?thesis using w t by simp
  next
    case (2 dune)
    then show ?thesis using create_within [OF w, of ?key d dune height] create_rune_entry_terms [of d ?key dune height ?db]
      assms(2) by (metis t)
  qed
qed

lemma index_runes_caps:
  assumes "within_caps db" "terms_before (unat height) (unat tx_index) db"
    "index_runes B resolver network height tx_index tx db = Inr (Some (r, db'))"
  shows "within_caps db' \<and> terms_before (unat height) (Suc (unat tx_index)) db'"
proof (cases "dunestone_from_transaction B tx")
  case None
  then have "db' = db" using assms(3) by (auto simp: index_runes_def and_then_Inr_iff Let_def)
  then show ?thesis using assms(1,2) by (auto simp: terms_before_def less_Suc_eq)
next
  case (Some d)
  let ?key = "sdi_of \<lparr>di_height = height, di_index = tx_index\<rparr>"
  obtain u etch db1 where et: "etched network height tx_index d db = Some (etch, db1)"
    and rd: "run_dunestone B (tx_output tx) height tx_index d etch u db1 = Inr (r, db')"
    using assms(3) Some by (auto simp: index_runes_def and_then_Inr_iff split: option.splits)
  note keep = etched_db [OF et]
  have w: "within_caps db1" using assms(1) within_caps_cong [OF keep(1,2)] by simp
  have key: "sdi_block ?key = height" "unat (sdi_tx ?key) = unat tx_index"
    by (simp_all add: sdi_of_def unat_index_u64)
  then have fresh: "dd_terms db1 ?key = None" using assms(2) keep(1) by (auto simp: terms_before_def)
  obtain p where p: "run_edicts B (tx_output tx) d \<lparr>pl_issuance = new_issuance height tx_index etch,
      pl_mintable = fst (dunestone_mints height d db1), pl_unallocated = u,
      pl_allocated = replicate (length (tx_output tx)) []\<rparr> = Inr p"
    and db': "db' = dunestone_db height d etch (new_issuance height tx_index etch)
      (fst (dunestone_mints height d db1)) (pl_mintable p) db1"
    using rd by (auto simp: run_dunestone_def Let_def and_then_Inr_iff)
  note dk = dunestone_db_keeps [OF w fresh p refl]
  have "terms_before (unat height) (Suc (unat tx_index)) db'"
    unfolding terms_before_def
  proof (intro allI impI)
    fix i assume "dd_terms db' i \<noteq> None"
    then show "unat (sdi_block i) < unat height \<or> unat (sdi_block i) = unat height \<and> unat (sdi_tx i) < Suc (unat tx_index)"
      using dk db' assms(2) keep(1) key by (cases "i = ?key") (auto simp: terms_before_def less_Suc_eq)
  qed
  then show ?thesis using dk db' by simp
qed

text \<open>An example: a claim of a dune that allows one mint, allocated to output 1 (or to no output).\<close>

definition claim_tx :: "u8 \<Rightarrow> Transaction" where
  "claim_tx out = \<lparr>tx_input = [],
     tx_output = [\<lparr>to_value = 0, to_script_pubkey = [0x6A, 0, 190, 254, 254, 255, 130, 255, 0, 0, out]\<rparr>,
       \<lparr>to_value = 1, to_script_pubkey = [1]\<rparr>]\<rparr>"

definition claim_stone :: "u128 \<Rightarrow> Dunestone" where
  "claim_stone out = \<lparr>ds_edicts = [\<lparr>ed_id = 281474976776192, ed_amount = 0, ed_output = out\<rparr>],
      ds_etching = None, ds_pointer = None, ds_cenotaph = False\<rparr>"

definition claim_db :: DuneDb where
  "claim_db = empty_db\<lparr>dd_terms := [\<lparr>sdi_block = 1, sdi_tx = 0\<rparr> \<mapsto>
     \<lparr>dt_name = 9, dt_amount = Some 50, dt_cap = Some 1, dt_start_height = None, dt_end_height = None\<rparr>]\<rparr>"

lemma claim_dunestone:
  "dunestone_from_transaction demo_crate (claim_tx 1) = Some (claim_stone 1)"
  "dunestone_from_transaction demo_crate (claim_tx 2) = Some (claim_stone 2)"
  by code_simp+

lemma claim_claims: "dune_claims (claim_stone out) = [65536]"
proof -
  have "claim 281474976776192 = Some 65536" by code_simp
  then show ?thesis by (simp add: dune_claims_def claim_stone_def List.map_filter_simps)
qed

lemma claim_key: "dune_id_try_from 65536 = Some \<lparr>di_height = 1, di_index = 0\<rparr>"
  by code_simp

lemma claim_mint: "dunestone_mints height (claim_stone out) claim_db = ([(65536, 50)], [0])"
  unfolding dunestone_mints_def claim_claims
  by (simp add: claim_key claim_stone_def mint_def claim_db_def empty_db_def sdi_of_def or_default_def)

lemma claim_edicts:
  "run_edicts demo_crate (tx_output (claim_tx 1)) (claim_stone 1)
   \<lparr>pl_issuance = None, pl_mintable = [(65536, 50)], pl_unallocated = [], pl_allocated = replicate (length (tx_output (claim_tx 1))) []\<rparr>
   = Inr \<lparr>pl_issuance = None, pl_mintable = [(65536, 0)], pl_unallocated = [], pl_allocated = [[], [(65536, 50)]]\<rparr>"
  "run_edicts demo_crate (tx_output (claim_tx 2)) (claim_stone 2)
   \<lparr>pl_issuance = None, pl_mintable = [(65536, 50)], pl_unallocated = [], pl_allocated = replicate (length (tx_output (claim_tx 2))) []\<rparr>
   = Inr \<lparr>pl_issuance = None, pl_mintable = [(65536, 50)], pl_unallocated = [], pl_allocated = [[], []]\<rparr>"
  by code_simp+

lemma claim_run:
  "index_runes demo_crate Map.empty Dogecoin 5000000 1 (claim_tx 1) claim_db =
   Inr (Some (\<lparr>ir_output_dunes = [[], [(65536, 50)]], ir_successful_etch = None,
     ir_successful_mints = [0], ir_burned = []\<rparr>, claim_db\<lparr>dd_mints := [\<lparr>sdi_block = 1, sdi_tx = 0\<rparr> \<mapsto> 1]\<rparr>))"
proof -
  have "unallocated_inputs demo_crate Map.empty (tx_input (claim_tx 1)) [] = Inr []" by code_simp
  moreover have "leftover demo_crate (tx_output (claim_tx 1)) (ds_cenotaph (claim_stone 1)) (ds_pointer (claim_stone 1)) []
      [[], [(65536, 50)]] = ([[], [(65536, 50)]], [])" by code_simp
  moreover have "dunestone_db 5000000 (claim_stone 1) None None [(65536, 50)] [(65536, 0)] claim_db =
      claim_db\<lparr>dd_mints := [\<lparr>sdi_block = 1, sdi_tx = 0\<rparr> \<mapsto> 1]\<rparr>"
    by (simp add: dunestone_db_def claim_stone_def claim_key sdi_of_def or_default_def claim_db_def empty_db_def)
  moreover have "etched Dogecoin 5000000 1 (claim_stone 1) claim_db = Some (None, claim_db)"
    by (simp add: etched_def claim_stone_def)
  ultimately show ?thesis
    by (simp add: index_runes_def claim_dunestone run_dunestone_def new_issuance_def claim_mint claim_edicts Let_def)
qed

lemma claim_caps: "within_caps claim_db" "terms_before (unat (5000000 :: u64)) (unat (1 :: u32)) claim_db"
  by (auto simp: within_caps_def cap_of_def terms_before_def claim_db_def empty_db_def or_default_def)


end
