(* ===== verification/Inscription_Parser.thy ===== *)
theory Inscription_Parser
  imports Bitcoin_Types
begin

text \<open>
  Inscriptions on Dogecoin (\<open>storage/inscriptions/\<close>: \<open>inscription.rs\<close>, \<open>inscription_id.rs\<close>):
  the pushes of the signature scripts of a chain of transactions hold a header and numbered pieces
  of a body. A panic is the value None of an outer option.
\<close>

section \<open>Pushes of a script\<close>

definition slice :: "nat \<Rightarrow> nat \<Rightarrow> bytes \<Rightarrow> bytes" where
  "slice from len bs = take len (drop from bs)"

text \<open>One iteration of the loop: the pushed bytes and how many bytes of the script they take.\<close>

definition next_push :: "bytes \<Rightarrow> (bytes \<times> nat) option" where
  "next_push bytes =
     (let b = bytes ! 0;
          item = (\<lambda>header len.
            if length bytes < header + len then None else Some (slice header len bytes, header + len))
      in if b = 0 then Some ([], 1)
         else if b \<ge> 81 \<and> b \<le> 96 then Some ([b - 80], 1)
         else if b \<ge> 1 \<and> b \<le> 75 then item 1 (unat b)
         else if b = 76 then
           if length bytes < 2 then None else item 2 (unat (bytes ! 1))
         else if b = 77 then
           if length bytes < 3 then None else item 3 (unat (bytes ! 1) * 2 ^ 8 + unat (bytes ! 0))
         else if b = 78 then
           if length bytes < 5 then None
           else item 5 (unat (bytes ! 3) * 2 ^ 24 + unat (bytes ! 2) * 2 ^ 16 + unat (bytes ! 1) * 2 ^ 8 + unat (bytes ! 0))
         else None)"

lemma next_push_pos: "next_push bytes = Some (d, n) \<Longrightarrow> 0 < n"
  by (auto simp: next_push_def Let_def split: if_splits)

function decode_push_datas :: "bytes \<Rightarrow> bytes list option" where
  "decode_push_datas bytes =
     (if bytes = [] then Some []
      else case next_push bytes of
          None \<Rightarrow> None
        | Some (d, n) \<Rightarrow> map_option ((#) d) (decode_push_datas (drop n bytes)))"
  by pat_completeness auto

termination
  by (relation "measure length") (auto dest: next_push_pos)

declare decode_push_datas.simps [simp del]

fun push_number_loop :: "bytes \<Rightarrow> nat \<Rightarrow> u64 \<Rightarrow> u64" where
  "push_number_loop [] m n = n"
| "push_number_loop (b # bs) m n = push_number_loop bs (m + 8) (n + push_bit m (ucast b))"

definition push_data_to_number :: "bytes \<Rightarrow> u64 option" where
  "push_data_to_number data =
     (if length data = 0 then Some 0 else if length data > 8 then None
      else Some (push_number_loop data 0 0))"

section \<open>The parser\<close>

record Inscription =
  in_body :: "bytes option"
  in_content_type :: "bytes option"

datatype ParsedInscription = NoInscription | Partial | Complete Inscription

definition PROTOCOL_ID :: bytes where
  "PROTOCOL_ID = [111, 114, 100]"

text \<open>The loop over the pieces of one script: the pieces still missing and the body so far.\<close>

fun read_pieces :: "u64 \<Rightarrow> bytes list \<Rightarrow> bytes \<Rightarrow> u64 \<times> bytes" where
  "read_pieces npieces (a # b # rest) body =
     (if npieces = 0 then (npieces, body)
      else case push_data_to_number a of
          None \<Rightarrow> (npieces, body)
        | Some following \<Rightarrow>
          if following \<noteq> npieces - 1 then (npieces, body) else read_pieces (npieces - 1) rest (body @ b))"
| "read_pieces npieces _ body = (npieces, body)"

text \<open>The loop over the scripts.\<close>

fun read_scripts :: "bytes \<Rightarrow> u64 \<Rightarrow> bytes list \<Rightarrow> bytes list \<Rightarrow> bytes \<Rightarrow> ParsedInscription" where
  "read_scripts content_type npieces push_datas sig_scripts body =
     (let (npieces, body) = read_pieces npieces push_datas body in
      if npieces = 0 then Complete \<lparr>in_body = Some body, in_content_type = Some content_type\<rparr>
      else case sig_scripts of
          [] \<Rightarrow> Partial
        | script # sig_scripts \<Rightarrow>
          (case decode_push_datas script of
             None \<Rightarrow> NoInscription
           | Some push_datas \<Rightarrow>
             if length push_datas < 2 then NoInscription
             else (case push_data_to_number (push_datas ! 0) of
                 None \<Rightarrow> NoInscription
               | Some following \<Rightarrow>
                 if following \<noteq> npieces - 1 then NoInscription
                 else read_scripts content_type npieces push_datas sig_scripts body)))"

declare read_scripts.simps [simp del]

fun inscription_parse :: "bytes list \<Rightarrow> ParsedInscription option" where
  "inscription_parse [] = None"
| "inscription_parse (script # sig_scripts) = Some
     (case decode_push_datas script of
        None \<Rightarrow> NoInscription
      | Some push_datas \<Rightarrow>
        if length push_datas < 3 then NoInscription
        else if push_datas ! 0 \<noteq> PROTOCOL_ID then NoInscription
        else (case push_data_to_number (push_datas ! 1) of
            None \<Rightarrow> NoInscription
          | Some npieces \<Rightarrow>
            if npieces = 0 then NoInscription
            else read_scripts (push_datas ! 2) npieces (drop 3 push_datas) sig_scripts []))"

definition from_transactions :: "Transaction list \<Rightarrow> ParsedInscription option" where
  "from_transactions txs =
     (if list_ex (\<lambda>tx. tx_input tx = []) txs then Some NoInscription
      else inscription_parse (map (\<lambda>tx. ti_script_sig (hd (tx_input tx))) txs))"

definition content_type :: "Inscription \<Rightarrow> bytes option" where
  "content_type i = Option.bind (in_content_type i) (\<lambda>c. if is_utf8 c then Some c else None)"

section \<open>Identifiers\<close>

text \<open>The hexadecimal form of a hash is a parameter: printing, and a parser that may fail.\<close>

record TxidText =
  tt_print :: "bytes \<Rightarrow> string"
  tt_parse :: "string \<Rightarrow> bytes option"

datatype IdError = IdCharacter char | IdLength nat | IdSeparator char | IdTxid | IdIndex

definition inscription_id_to_string :: "TxidText \<Rightarrow> InscriptionId \<Rightarrow> string" where
  "inscription_id_to_string T i = tt_print T (ii_txid i) @ ''i'' @ dec_string (unat (ii_index i))"

definition inscription_id_from_str :: "TxidText \<Rightarrow> string \<Rightarrow> IdError + InscriptionId" where
  "inscription_id_from_str T s =
     (case find (\<lambda>c. (of_char c :: nat) \<ge> 128) s of
        Some c \<Rightarrow> Inl (IdCharacter c)
      | None \<Rightarrow>
        if length s < 66 then Inl (IdLength (length s))
        else if s ! 64 \<noteq> CHR ''i'' then Inl (IdSeparator (s ! 64))
        else (case tt_parse T (take 64 s) of
            None \<Rightarrow> Inl IdTxid
          | Some txid \<Rightarrow>
            (case parse_uint (drop 65 s) of
               None \<Rightarrow> Inl IdIndex
             | Some index \<Rightarrow> Inr \<lparr>ii_txid = txid, ii_index = index\<rparr>)))"

section \<open>What a script writer does\<close>

text \<open>The push of up to 255 bytes, a number in little-endian bytes, the pieces in descending order.\<close>

definition push_data :: "bytes \<Rightarrow> bytes" where
  "push_data d = (if length d \<le> 75 then word_of_nat (length d) # d else 76 # word_of_nat (length d) # d)"

fun number_bytes :: "nat \<Rightarrow> bytes" where
  "number_bytes n = (if n = 0 then [] else word_of_nat n # number_bytes (n div 256))"

declare number_bytes.simps [simp del]

fun pieces_script :: "nat \<Rightarrow> bytes list \<Rightarrow> bytes" where
  "pieces_script n [] = []"
| "pieces_script n (c # cs) = push_data (number_bytes (n - 1)) @ push_data c @ pieces_script (n - 1) cs"

fun later_scripts :: "nat \<Rightarrow> bytes list list \<Rightarrow> bytes list" where
  "later_scripts n [] = []"
| "later_scripts n (cs # css) = pieces_script n cs # later_scripts (n - length cs) css"

definition inscription_scripts :: "bytes \<Rightarrow> bytes list list \<Rightarrow> bytes list" where
  "inscription_scripts ct css =
     (let n = length (concat css) in
      case css of [] \<Rightarrow> []
      | cs # css \<Rightarrow> (push_data PROTOCOL_ID @ push_data (number_bytes n) @ push_data ct @ pieces_script n cs)
          # later_scripts (n - length cs) css)"

section \<open>Reading what was written\<close>

lemma decode_nil [simp]: "decode_push_datas [] = Some []"
  by (simp add: decode_push_datas.simps)

lemma unat_u8_small: "n < 256 \<Longrightarrow> unat (word_of_nat n :: u8) = n"
  by (simp add: unsigned_of_nat take_bit_eq_mod)

lemma decode_push_data:
  assumes "length d \<le> 255"
  shows "decode_push_datas (push_data d @ rest) = map_option ((#) d) (decode_push_datas rest)"
proof -
  let ?n = "length d" and ?b = "word_of_nat (length d) :: u8"
  have u: "unat ?b = ?n" using assms by (intro unat_u8_small) simp
  have "next_push (push_data d @ rest) = Some (d, length (push_data d))"
  proof (cases "?n \<le> 75")
    case True
    consider "?n = 0" | "1 \<le> ?n" by linarith
    then show ?thesis
    proof cases
      case 1
      then show ?thesis by (simp add: next_push_def push_data_def)
    next
      case 2
      have "?b \<noteq> 0" "\<not> 81 \<le> ?b" "1 \<le> ?b" "?b \<le> 75" using u 2 True by (auto simp: word_le_nat_alt unat_eq_0)
      then show ?thesis using True u by (simp add: next_push_def push_data_def slice_def Let_def)
    qed
  next
    case False
    then show ?thesis using u by (simp add: next_push_def push_data_def slice_def Let_def)
  qed
  then show ?thesis by (subst decode_push_datas.simps) (simp add: push_data_def)
qed

lemma push_number_loop_bytes:
  "push_number_loop (number_bytes n) m acc = acc + word_of_nat (n * 2 ^ m)"
proof (induction n arbitrary: m acc rule: number_bytes.induct)
  case (1 n)
  show ?case
  proof (cases "n = 0")
    case False
    have "ucast (word_of_nat n :: u8) = (word_of_nat (n mod 256) :: u64)"
      by (simp add: unsigned_of_nat take_bit_eq_mod)
    then have "push_bit m (ucast (word_of_nat n :: u8)) = (word_of_nat (n mod 256 * 2 ^ m) :: u64)"
      by (simp add: push_bit_eq_mult)
    moreover have "(word_of_nat (n mod 256 * 2 ^ m) + word_of_nat (n div 256 * 2 ^ (m + 8)) :: u64) = word_of_nat (n * 2 ^ m)"
    proof -
      have "n mod 256 * 2 ^ m + n div 256 * 2 ^ (m + 8) = (n mod 256 + n div 256 * 256) * 2 ^ m"
        unfolding power_add distrib_right by (simp only: mult.assoc mult.commute [of 256] power_numeral) simp
      then have "n mod 256 * 2 ^ m + n div 256 * 2 ^ (m + 8) = n * 2 ^ m" by (simp only: mod_div_mult_eq)
      then show ?thesis by (simp only: flip: of_nat_add)
    qed
    ultimately show ?thesis
      using 1 [OF False, of "m + 8" "acc + word_of_nat (n mod 256 * 2 ^ m)"] False
      by (subst number_bytes.simps) (simp add: add.assoc)
  qed (simp add: number_bytes.simps)
qed

lemma length_number_bytes: "n < 256 ^ k \<Longrightarrow> length (number_bytes n) \<le> k"
proof (induction k arbitrary: n)
  case (Suc k)
  have "n div 256 < 256 ^ k" using Suc.prems by (simp add: less_mult_imp_div_less mult.commute)
  then show ?case using Suc.IH [of "n div 256"] by (subst number_bytes.simps) simp
qed (simp add: number_bytes.simps)

lemma number_bytes_short: "n < 2 ^ 64 \<Longrightarrow> length (number_bytes n) \<le> 8"
  using length_number_bytes [of n 8] by simp

lemma push_number [simp]: "n < 2 ^ 64 \<Longrightarrow> push_data_to_number (number_bytes n) = Some (word_of_nat n)"
  using number_bytes_short [of n] push_number_loop_bytes [of n 0 0]
  by (auto simp: push_data_to_number_def number_bytes.simps [of 0] split: if_splits)

fun pieces_pushes :: "nat \<Rightarrow> bytes list \<Rightarrow> bytes list" where
  "pieces_pushes n [] = []"
| "pieces_pushes n (c # cs) = number_bytes (n - 1) # c # pieces_pushes (n - 1) cs"

lemma decode_pieces:
  "n < 2 ^ 64 \<Longrightarrow> list_all (\<lambda>c. length c \<le> 255) cs \<Longrightarrow> decode_push_datas (pieces_script n cs) = Some (pieces_pushes n cs)"
proof (induction n cs rule: pieces_script.induct)
  case (2 n c cs)
  have "n - 1 < 2 ^ 64" using 2(2) by linarith
  then have "length (number_bytes (n - 1)) \<le> 8" by (rule number_bytes_short)
  then show ?case using 2 by (simp add: decode_push_data)
qed simp

lemma word_nat_pred: "0 < n \<Longrightarrow> word_of_nat (n - 1) = (word_of_nat n :: u64) - 1"
  by (simp add: of_nat_diff)

lemma word_nat_eq_0: "n < 2 ^ 64 \<Longrightarrow> (word_of_nat n :: u64) = 0 \<longleftrightarrow> n = 0"
  using dvd_imp_le [of "2 ^ 64" n] by (auto simp: word_of_nat_eq_0_iff)

lemma read_pieces_pushes:
  "length cs \<le> n \<Longrightarrow> n < 2 ^ 64 \<Longrightarrow>
   read_pieces (word_of_nat n) (pieces_pushes n cs) body = (word_of_nat (n - length cs), body @ concat cs)"
proof (induction n cs arbitrary: body rule: pieces_pushes.induct)
  case (2 n c cs)
  then have "0 < n" by simp
  then show ?case using 2 by (simp add: word_nat_eq_0 word_nat_pred del: One_nat_def)
qed simp

lemma pieces_pushes_shape:
  "cs \<noteq> [] \<Longrightarrow> pieces_pushes n cs ! 0 = number_bytes (n - 1) \<and> 2 \<le> length (pieces_pushes n cs)"
  by (cases cs) simp_all

text \<open>Reading the scripts after the header: complete when no piece is missing, partial before.\<close>

lemma read_scripts_pieces:
  "\<lbrakk>n < 2 ^ 64; length (concat (cs # css)) \<le> n; list_all (list_all (\<lambda>c. length c \<le> 255)) (cs # css); [] \<notin> set css\<rbrakk> \<Longrightarrow>
   read_scripts ct (word_of_nat n) (pieces_pushes n cs) (later_scripts (n - length cs) css) body =
   (if length (concat (cs # css)) = n
    then Complete \<lparr>in_body = Some (body @ concat (concat (cs # css))), in_content_type = Some ct\<rparr> else Partial)"
proof (induction css arbitrary: n cs body)
  case Nil
  then have "(word_of_nat (n - length cs) :: u64) = 0 \<longleftrightarrow> n = length cs"
    using word_nat_eq_0 [of "n - length cs"] by auto
  then show ?case using Nil read_pieces_pushes [of cs n body]
    by (subst read_scripts.simps) simp
next
  case (Cons ds css)
  let ?n = "n - length cs"
  have ne: "ds \<noteq> []" using Cons.prems(4) by auto
  have lt: "?n < 2 ^ 64" using Cons.prems(1) by linarith
  have le: "length (concat (ds # css)) \<le> ?n" using Cons.prems(2) by simp
  then have pos: "0 < ?n" using ne by (cases ds) auto
  then have nz: "(word_of_nat ?n :: u64) \<noteq> 0" using word_nat_eq_0 [OF lt] by simp
  have dec: "decode_push_datas (pieces_script ?n ds) = Some (pieces_pushes ?n ds)"
    using Cons.prems(3) by (intro decode_pieces [OF lt]) simp
  have lt1: "?n - 1 < 2 ^ 64" using lt by linarith
  have num: "push_data_to_number (pieces_pushes ?n ds ! 0) = Some (word_of_nat ?n - 1)"
    using pieces_pushes_shape [OF ne, of ?n] push_number [OF lt1] word_nat_pred [OF pos] by simp
  have "read_scripts ct (word_of_nat n) (pieces_pushes n cs) (later_scripts ?n (ds # css)) body =
      read_scripts ct (word_of_nat ?n) (pieces_pushes ?n ds) (later_scripts (?n - length ds) css) (body @ concat cs)"
    using read_pieces_pushes [of cs n body] Cons.prems(1,2) nz dec num pieces_pushes_shape [OF ne, of ?n]
    by (subst read_scripts.simps) simp
  also have "\<dots> = (if length (concat (ds # css)) = ?n
    then Complete \<lparr>in_body = Some ((body @ concat cs) @ concat (concat (ds # css))), in_content_type = Some ct\<rparr> else Partial)"
    using Cons.prems(3,4) by (intro Cons.IH [OF lt le]) auto
  finally show ?case using Cons.prems(2) by (simp only: concat.simps length_append concat_append append_assoc) auto
qed

lemma take_later: "take k (later_scripts n css) = later_scripts n (take k css)"
  by (induction n css arbitrary: k rule: later_scripts.induct) (simp, case_tac k, simp_all)

lemma concat_shorter: "[] \<notin> set css \<Longrightarrow> k < length css \<Longrightarrow> length (concat (take k css)) < length (concat css)"
proof (induction css arbitrary: k)
  case (Cons cs css)
  then show ?case by (cases k) auto
qed simp

text \<open>
  C34. An inscription written as numbered pieces over the first inputs of several transactions is
  read back: the scripts of the first transactions are recognised as a partial inscription, and
  once the last transaction is there the inscription is complete, with the content type and the
  concatenation of all pieces as its body. Pieces have up to 255 bytes; every transaction after the
  first holds at least one.
\<close>

theorem inscription_read_back:
  assumes "length (concat (cs # css)) < 2 ^ 64" "0 < length (concat (cs # css))" "[] \<notin> set css" "length ct \<le> 255"
    "list_all (list_all (\<lambda>c. length c \<le> 255)) (cs # css)" "k \<le> length css"
  shows "inscription_parse (take (Suc k) (inscription_scripts ct (cs # css))) = Some
    (if k = length css
     then Complete \<lparr>in_body = Some (concat (concat (cs # css))), in_content_type = Some ct\<rparr> else Partial)"
proof -
  let ?n = "length (concat (cs # css))" and ?css = "take k css"
  let ?ps = "PROTOCOL_ID # number_bytes ?n # ct # pieces_pushes ?n cs"
  have head: "decode_push_datas (push_data PROTOCOL_ID @ push_data (number_bytes ?n) @ push_data ct @ pieces_script ?n cs) = Some ?ps"
    using decode_pieces [OF assms(1)] number_bytes_short [OF assms(1)] assms(4,5)
    by (simp add: decode_push_data PROTOCOL_ID_def)
  have nz: "(word_of_nat ?n :: u64) \<noteq> 0" using word_nat_eq_0 [OF assms(1)] assms(2) by simp
  have le: "length (concat (cs # ?css)) \<le> ?n"
    using concat_shorter [OF assms(3), of k] assms(6) by (cases "k = length css") auto
  have eq: "length (concat (cs # ?css)) = ?n \<longleftrightarrow> k = length css"
    using concat_shorter [OF assms(3), of k] assms(6) by (cases "k = length css") auto
  have "[] \<notin> set ?css" using assms(3) in_set_takeD by fast
  moreover have "list_all (list_all (\<lambda>c. length c \<le> 255)) (cs # ?css)"
    using assms(5) in_set_takeD [of _ k css] by (auto simp: list_all_iff)
  ultimately have "read_scripts ct (word_of_nat ?n) (pieces_pushes ?n cs) (later_scripts (?n - length cs) ?css) [] =
    (if k = length css then Complete \<lparr>in_body = Some (concat (concat (cs # ?css))), in_content_type = Some ct\<rparr> else Partial)"
    using read_scripts_pieces [OF assms(1) le, of ct "[]"] unfolding eq by simp
  then show ?thesis using head nz push_number [OF assms(1)]
    by (simp add: inscription_scripts_def Let_def take_later del: concat.simps)
qed

theorem inscription_read_back_witness:
  "inscription_parse (inscription_scripts [116] [[[104], [101]], [[108, 108, 111]]]) =
     Some (Complete \<lparr>in_body = Some [104, 101, 108, 108, 111], in_content_type = Some [116]\<rparr>) \<and>
   inscription_parse (take 1 (inscription_scripts [116] [[[104], [101]], [[108, 108, 111]]])) = Some Partial"
  using inscription_read_back [of "[[104], [101]]" "[[[108, 108, 111]]]" "[116]" 1]
    inscription_read_back [of "[[104], [101]]" "[[[108, 108, 111]]]" "[116]" 0]
  by (simp add: inscription_scripts_def)

end
