(* ===== verification/Brc20_Messages.thy ===== *)
theory Brc20_Messages
  imports Inscription_Parser
begin

text \<open>
  Messages of the drc-20 protocol (\<open>storage/inscriptions/brc20.rs\<close>): the text of an inscription
  is read as JSON and its fields as a deploy, mint or transfer. A string is the list of its UTF-8
  bytes as characters. The JSON decoder is a parameter, and so is \<open>str::to_lowercase\<close> with its
  Unicode tables. The outer option of a result is None where the code panics.
\<close>

section \<open>Data\<close>

record RawProtocolMessage =
  rp_p :: string
  rp_op :: string
  rp_tick :: string
  rp_max :: "string option"
  rp_lim :: "string option"
  rp_dec :: "string option"
  rp_self_mint :: "string option"
  rp_amt :: "string option"

record TextCrate =
  tc_json :: "bytes \<Rightarrow> RawProtocolMessage option"
  tc_to_lowercase :: "string \<Rightarrow> string"

record BRC20Terms =
  bt_max :: u128
  bt_mint_amt_limit :: u128
  bt_dec :: u8
  bt_self_mint :: bool
  bt_deploy_id :: InscriptionId

record DeployAction =
  dp_ticker :: bytes
  dp_max :: u128
  dp_limit :: u128
  dp_dec :: u8
  dp_self_mint :: bool

record MintAction =
  mi_ticker :: bytes
  mi_amt :: u128

record TransferAction =
  tr_ticker :: bytes
  tr_amt :: u128

definition into_bytes :: "string \<Rightarrow> bytes" where
  "into_bytes s = map (\<lambda>c. word_of_nat (of_char c)) s"

definition of_bytes :: "bytes \<Rightarrow> string" where
  "of_bytes bs = map (\<lambda>b. char_of (unat b)) bs"

section \<open>Parsing\<close>

definition unparsed_message :: "TextCrate \<Rightarrow> Inscription \<Rightarrow> RawProtocolMessage option" where
  "unparsed_message T inscription =
     (case content_type inscription of None \<Rightarrow> None
      | Some ct \<Rightarrow>
        if hd (split_on (CHR '';'') (of_bytes ct)) \<notin> {''text/plain'', ''application/json''} then None
        else
          let body = (case in_body inscription of None \<Rightarrow> [] | Some b \<Rightarrow> b) in
          if \<not> is_utf8 body then None
          else (case tc_json T body of None \<Rightarrow> None
            | Some raw \<Rightarrow> if rp_p raw \<noteq> ''drc-20'' then None else Some raw))"

definition parse_decimal :: "string \<Rightarrow> u8 \<Rightarrow> u128 option option" where
  "parse_decimal m dec =
     (if \<not> list_all (\<lambda>c. is_digit c \<or> c = CHR ''.'') m then Some None
      else if m \<noteq> [] \<and> (hd m = CHR ''.'' \<or> last m = CHR ''.'') then Some None
      else
        let parts = split_on (CHR ''.'') m in
        if length parts > 2 then Some None
        else (case parse_uint (parts ! 0) :: u64 option of None \<Rightarrow> Some None
          | Some integer \<Rightarrow>
            if length parts = 2 then
              if length (parts ! 1) > unat dec then Some None
              else map_option Some (parse_uint (dec_string (unat integer) @ parts ! 1
                @ replicate (unat dec - length (parts ! 1)) (CHR ''0'')))
            else map_option Some (checked_mul (ucast integer) (10 ^ unat dec))))"

definition deploy_dec :: "RawProtocolMessage \<Rightarrow> u8 option" where
  "deploy_dec raw =
     (let dec_str = (case rp_dec raw of None \<Rightarrow> ''18'' | Some x \<Rightarrow> x) in
      if \<not> list_all is_digit dec_str then None
      else case parse_uint dec_str of None \<Rightarrow> None | Some d \<Rightarrow> if d > 18 then None else Some d)"

text \<open>The continuation of a fallible step that may panic.\<close>

definition bind_panic :: "'a option option \<Rightarrow> ('a \<Rightarrow> 'b option option) \<Rightarrow> 'b option option" where
  "bind_panic r f = (case r of None \<Rightarrow> None | Some None \<Rightarrow> Some None | Some (Some x) \<Rightarrow> f x)"

text \<open>\<open>self_mint\<close> is fixed to false, which leaves four-byte tickers and a positive maximum.\<close>

definition deploy_parse :: "TextCrate \<Rightarrow> RawProtocolMessage \<Rightarrow> DeployAction option option" where
  "deploy_parse T raw =
     (if rp_op raw \<noteq> ''deploy'' then Some None
      else if length (rp_tick raw) \<noteq> 4 then Some None
      else case deploy_dec raw of None \<Rightarrow> Some None
        | Some dec \<Rightarrow>
          (case rp_max raw of None \<Rightarrow> Some None
           | Some m \<Rightarrow> bind_panic (parse_decimal m dec) (\<lambda>max.
               if max = 0 then Some None
               else bind_panic (case rp_lim raw of None \<Rightarrow> Some (Some max)
                   | Some l \<Rightarrow> bind_panic (parse_decimal l dec) (\<lambda>x. if x = 0 then Some None else Some (Some x)))
                 (\<lambda>limit. Some (Some \<lparr>dp_ticker = into_bytes (tc_to_lowercase T (rp_tick raw)), dp_max = max,
                    dp_limit = limit, dp_dec = dec, dp_self_mint = False\<rparr>)))))"

definition mint_parse :: "TextCrate \<Rightarrow> RawProtocolMessage \<Rightarrow> BRC20Terms \<Rightarrow> MintAction option option" where
  "mint_parse T raw terms =
     (if rp_op raw \<noteq> ''mint'' then Some None
      else case rp_amt raw of None \<Rightarrow> Some None
        | Some x \<Rightarrow> bind_panic (parse_decimal x (bt_dec terms)) (\<lambda>amt.
            if amt > bt_mint_amt_limit terms then Some None
            else if amt = 0 then Some None
            else Some (Some \<lparr>mi_ticker = into_bytes (tc_to_lowercase T (rp_tick raw)), mi_amt = amt\<rparr>)))"

definition transfer_parse :: "TextCrate \<Rightarrow> RawProtocolMessage \<Rightarrow> BRC20Terms \<Rightarrow> TransferAction option option" where
  "transfer_parse T raw terms =
     (if rp_op raw \<noteq> ''transfer'' then Some None
      else case rp_amt raw of None \<Rightarrow> Some None
        | Some x \<Rightarrow> bind_panic (parse_decimal x (bt_dec terms)) (\<lambda>amt.
            if amt = 0 then Some None
            else Some (Some \<lparr>tr_ticker = into_bytes (tc_to_lowercase T (rp_tick raw)), tr_amt = amt\<rparr>)))"

section \<open>Decimal numbers\<close>

definition numeral_ok :: "string \<Rightarrow> bool" where
  "numeral_ok s \<longleftrightarrow> s \<noteq> [] \<and> list_all is_digit s"

text \<open>The meaning of a decimal number with at most \<open>d\<close> decimals, in units of the last.\<close>

definition decimal_spec :: "string \<Rightarrow> nat \<Rightarrow> nat option" where
  "decimal_spec m d =
     (case split_on (CHR ''.'') m of
        [i] \<Rightarrow> if numeral_ok i \<and> int (dec_value i) < 2 ^ 64 then Some (dec_value i * 10 ^ d) else None
      | [i, f] \<Rightarrow>
          if numeral_ok i \<and> numeral_ok f \<and> int (dec_value i) < 2 ^ 64 \<and> length f \<le> d
          then Some (dec_value i * 10 ^ d + dec_value f * 10 ^ (d - length f)) else None
      | _ \<Rightarrow> None)"

lemma dec_value_append: "dec_value (s @ t) = dec_value s * 10 ^ length t + dec_value t"
  by (induction t rule: rev_induct) (simp_all add: dec_value_def algebra_simps)

lemma dec_value_less: "list_all is_digit s \<Longrightarrow> dec_value s < 10 ^ length s"
proof (induction s rule: rev_induct)
  case (snoc c s)
  then have "digit_val c < 10" by (auto simp: is_digit_def digit_val_def)
  then show ?case using snoc by (simp add: dec_value_snoc)
qed (simp add: dec_value_def)

lemma dec_value_zeros: "dec_value (s @ replicate k (CHR ''0'')) = dec_value s * 10 ^ k"
proof -
  have "dec_value (replicate k (CHR ''0'')) = 0"
    by (induction k) (simp_all add: dec_value_def digit_val_def)
  then show ?thesis by (simp add: dec_value_append)
qed

lemma parse_uint_digits:
  assumes "list_all is_digit s"
  shows "parse_uint s = (if s \<noteq> [] \<and> int (dec_value s) < 2 ^ LENGTH('a)
    then Some (word_of_nat (dec_value s) :: 'a::len word) else None)"
  using assms by (cases s) (auto simp: parse_uint_def Let_def)

lemma join_split: "join_with c (split_on c s) = s"
proof (induction s)
  case (Cons x s)
  then show ?case using split_on_nonempty [of c s] by (cases "split_on c s"; cases "tl (split_on c s)") auto
qed simp

lemma split_parts: "w \<in> set (split_on c s) \<Longrightarrow> c \<notin> set w \<and> set w \<subseteq> set s"
  by (induction s arbitrary: w) (fastforce split: list.splits if_splits)+

lemma digits_no_dot: "CHR ''.'' \<notin> set s \<Longrightarrow> list_all (\<lambda>c. is_digit c \<or> c = CHR ''.'') s = list_all is_digit s"
  by (induction s) auto

text \<open>The number before the point fits 64 bits and there are at most 18 decimals: all fits 128 bits.\<close>

lemma decimal_fits:
  assumes "int i < 2 ^ 64" "r < 10 ^ d" "d \<le> 18"
  shows "int (i * 10 ^ d + r) < 2 ^ 128"
proof -
  have "int r < 10 ^ d" using assms(2) by (metis of_nat_less_iff of_nat_numeral of_nat_power)
  then have "int (i * 10 ^ d + r) < (int i + 1) * 10 ^ d" by (simp add: distrib_right)
  also have "\<dots> \<le> 2 ^ 64 * 10 ^ 18"
    using assms(1,3) by (intro mult_mono power_increasing) simp_all
  also have "\<dots> < (2 :: int) ^ 128" by simp
  finally show ?thesis .
qed

lemma word_ten_power: "d \<le> 18 \<Longrightarrow> uint (10 ^ d :: u128) = 10 ^ d"
proof -
  assume "d \<le> 18"
  then have "int (10 ^ d) < 2 ^ LENGTH(128)" using decimal_fits [of 1 0 d] by simp
  from uint_of_nat_small [OF this] show ?thesis by simp
qed

lemma decimal_whole:
  assumes "dec \<le> 18" "list_all is_digit i"
  shows "\<exists>r. (case parse_uint i :: u64 option of None \<Rightarrow> Some None
      | Some integer \<Rightarrow> map_option Some (checked_mul (ucast integer) (10 ^ unat dec))) = Some r \<and>
    map_option (unat :: u128 \<Rightarrow> nat) r = (if numeral_ok i \<and> int (dec_value i) < 2 ^ 64 then Some (dec_value i * 10 ^ unat (dec :: u8)) else None)"
proof (cases "i \<noteq> [] \<and> int (dec_value i) < 2 ^ 64")
  case True
  let ?n = "dec_value i" and ?d = "unat dec"
  have d: "?d \<le> 18" using assms(1) by (simp add: word_le_nat_alt)
  have p: "parse_uint i = Some (word_of_nat ?n :: u64)" using True assms(2) by (simp add: parse_uint_digits)
  have fits: "int (?n * 10 ^ ?d) < 2 ^ 128" using decimal_fits [of ?n 0 ?d] True d by simp
  have small: "int ?n < 2 ^ LENGTH(64)" "int ?n < 2 ^ LENGTH(128)" using True by simp_all
  have u: "uint (ucast (word_of_nat ?n :: u64) :: u128) = int ?n"
    using uint_of_nat_small [OF small(1)] small(2) by (simp add: unsigned_ucast_eq take_bit_int_eq_self)
  then have eq: "(ucast (word_of_nat ?n :: u64) :: u128) = word_of_nat ?n"
    using uint_of_nat_small [OF small(2)] by (intro word_uint_eqI) simp
  have "uint (word_of_nat ?n :: u128) * uint (10 ^ ?d :: u128) < 2 ^ LENGTH(128)"
    using fits uint_of_nat_small [OF small(2)] word_ten_power [OF d] by simp
  then have cm: "checked_mul (ucast (word_of_nat ?n :: u64) :: u128) (10 ^ ?d) = Some (word_of_nat (?n * 10 ^ ?d))"
    unfolding eq checked_mul_def by (simp only: if_True of_nat_mult of_nat_power of_nat_numeral)
  have "unat (word_of_nat (?n * 10 ^ ?d) :: u128) = ?n * 10 ^ ?d" using fits by (intro unat_of_nat_small) simp
  then show ?thesis using True assms(2) unfolding p option.case cm option.map
    by (simp add: numeral_ok_def)
next
  case False
  then show ?thesis using assms(2) by (auto simp: parse_uint_digits numeral_ok_def)
qed

lemma decimal_fraction:
  assumes "dec \<le> 18" "list_all is_digit i" "numeral_ok f"
  shows "\<exists>r. (case parse_uint i :: u64 option of None \<Rightarrow> Some None
      | Some integer \<Rightarrow> if length f > unat dec then Some None
          else map_option Some (parse_uint (dec_string (unat integer) @ f @ replicate (unat dec - length f) (CHR ''0'')))) = Some r \<and>
    map_option (unat :: u128 \<Rightarrow> nat) r = (if numeral_ok i \<and> int (dec_value i) < 2 ^ 64 \<and> length f \<le> unat (dec :: u8)
      then Some (dec_value i * 10 ^ unat dec + dec_value f * 10 ^ (unat dec - length f)) else None)"
proof (cases "i \<noteq> [] \<and> int (dec_value i) < 2 ^ 64 \<and> length f \<le> unat dec")
  case True
  let ?n = "dec_value i" and ?d = "unat dec"
  let ?f = "f @ replicate (?d - length f) (CHR ''0'')"
  have d: "?d \<le> 18" using assms(1) by (simp add: word_le_nat_alt)
  have p: "parse_uint i = Some (word_of_nat ?n :: u64)" using True assms(2) by (simp add: parse_uint_digits)
  have small: "int ?n < 2 ^ LENGTH(64)" using True by simp
  have n: "unat (word_of_nat ?n :: u64) = ?n" by (rule unat_of_nat_small [OF small])
  have fd: "list_all is_digit ?f" using assms(3) by (auto simp: numeral_ok_def list_all_iff is_digit_def)
  have len: "length ?f = ?d" using True by simp
  have val: "dec_value (dec_string ?n @ ?f) = ?n * 10 ^ ?d + dec_value f * 10 ^ (?d - length f)"
    unfolding dec_value_append [of "dec_string ?n"] len dec_value_string dec_value_zeros ..
  have "dec_value f * 10 ^ (?d - length f) < 10 ^ ?d"
    using dec_value_less [OF fd] unfolding len dec_value_zeros .
  then have fits: "int (dec_value (dec_string ?n @ ?f)) < 2 ^ 128"
    unfolding val using True d by (intro decimal_fits) simp_all
  have "parse_uint (dec_string ?n @ ?f) = Some (word_of_nat (dec_value (dec_string ?n @ ?f)) :: u128)"
    using fits fd dec_string_digits [of ?n] by (subst parse_uint_digits) simp_all
  moreover have "unat (word_of_nat (dec_value (dec_string ?n @ ?f)) :: u128) = ?n * 10 ^ ?d + dec_value f * 10 ^ (?d - length f)"
    unfolding val [symmetric] using fits by (intro unat_of_nat_small) simp
  ultimately show ?thesis using True assms(2) unfolding p option.case n
    by (simp add: numeral_ok_def)
next
  case False
  then show ?thesis using assms(2) by (auto simp: parse_uint_digits numeral_ok_def)
qed

lemma parse_decimal_spec:
  assumes "dec \<le> 18"
  shows "\<exists>r. parse_decimal m dec = Some r \<and> map_option unat r = decimal_spec m (unat dec)"
proof -
  let ?c = "CHR ''.''"
  note parts = split_parts [of _ ?c m] and join = join_split [of ?c m]
  consider (one) i where "split_on ?c m = [i]" | (two) i f where "split_on ?c m = [i, f]"
    | (more) i f g ws where "split_on ?c m = i # f # g # ws"
    using split_on_nonempty [of ?c m] by (cases "split_on ?c m" rule: remdups_adj.cases; cases "tl (tl (split_on ?c m))") auto
  then show ?thesis
  proof cases
    case one
    then have m: "m = i" and dot: "?c \<notin> set i" using join parts [of i] by auto
    show ?thesis
    proof (cases "list_all is_digit i")
      case True
      have "hd m \<noteq> ?c \<and> last m \<noteq> ?c" if "m \<noteq> []" using that dot m by (metis hd_in_set last_in_set)
      then have "parse_decimal m dec = (case parse_uint i :: u64 option of None \<Rightarrow> Some None
          | Some integer \<Rightarrow> map_option Some (checked_mul (ucast integer) (10 ^ unat dec)))"
        using one True digits_no_dot [OF dot] m by (auto simp: parse_decimal_def Let_def split: option.split)
      then show ?thesis using decimal_whole [OF assms True] one by (simp add: decimal_spec_def)
    next
      case False
      then show ?thesis using one digits_no_dot [OF dot] m by (simp add: parse_decimal_def decimal_spec_def numeral_ok_def)
    qed
  next
    case two
    then have m: "m = i @ ?c # f" and dot: "?c \<notin> set i" "?c \<notin> set f" using join parts [of i] parts [of f] by auto
    show ?thesis
    proof (cases "list_all is_digit i \<and> numeral_ok f")
      case True
      show ?thesis
      proof (cases "i = []")
        case True
        then show ?thesis using two m by (auto simp: parse_decimal_def decimal_spec_def numeral_ok_def)
      next
        case False
        then have "hd m \<noteq> ?c" "last m \<noteq> ?c"
          using m dot True by (metis hd_append2 hd_in_set, metis last_ConsR last_appendR last_in_set list.distinct(1) numeral_ok_def)
        then have "parse_decimal m dec = (case parse_uint i :: u64 option of None \<Rightarrow> Some None
            | Some integer \<Rightarrow> if length f > unat dec then Some None
              else map_option Some (parse_uint (dec_string (unat integer) @ f @ replicate (unat dec - length f) (CHR ''0''))))"
          using two True digits_no_dot [OF dot(1)] digits_no_dot [OF dot(2)] m
          by (auto simp: parse_decimal_def Let_def numeral_ok_def split: option.split)
        then show ?thesis using decimal_fraction [OF assms, of i f] True two by (simp add: decimal_spec_def)
      qed
    next
      case False
      then have "decimal_spec m (unat dec) = None" using two by (auto simp: decimal_spec_def numeral_ok_def)
      moreover have "parse_decimal m dec = Some None"
        using False m digits_no_dot [OF dot(1)] digits_no_dot [OF dot(2)]
        by (auto simp: parse_decimal_def numeral_ok_def)
      ultimately show ?thesis by simp
    qed
  next
    case more
    then show ?thesis by (simp add: parse_decimal_def decimal_spec_def Let_def)
  qed
qed

text \<open>The parsers of messages never panic on the decimals a deploy allows.\<close>

lemma deploy_dec_bound: "deploy_dec raw = Some d \<Longrightarrow> d \<le> 18"
  by (auto simp: deploy_dec_def Let_def split: option.splits if_splits)

lemma deploy_parse_total:
  "\<exists>r. deploy_parse T raw = Some r \<and> (\<forall>d. r = Some d \<longrightarrow> dp_dec d \<le> 18 \<and> 0 < dp_max d \<and> 0 < dp_limit d)"
proof (cases "deploy_dec raw")
  case (Some dec)
  note le = deploy_dec_bound [OF Some]
  have total: "\<exists>r. parse_decimal m dec = Some r" for m using parse_decimal_spec [OF le] by blast
  then obtain f where f: "\<And>m. parse_decimal m dec = Some (f m)" by metis
  show ?thesis using le
    by (auto simp: deploy_parse_def Some f bind_panic_def word_gt_0 split: option.splits)
qed (simp add: deploy_parse_def)

lemma amount_parse_total:
  assumes "bt_dec terms \<le> 18"
  shows "\<exists>r. mint_parse T raw terms = Some r \<and> (\<forall>m. r = Some m \<longrightarrow> 0 < mi_amt m \<and> mi_amt m \<le> bt_mint_amt_limit terms)"
    "\<exists>r. transfer_parse T raw terms = Some r \<and> (\<forall>t. r = Some t \<longrightarrow> 0 < tr_amt t)"
proof -
  obtain f where f: "\<And>m. parse_decimal m (bt_dec terms) = Some (f m)" using parse_decimal_spec [OF assms] by metis
  show "\<exists>r. mint_parse T raw terms = Some r \<and> (\<forall>m. r = Some m \<longrightarrow> 0 < mi_amt m \<and> mi_amt m \<le> bt_mint_amt_limit terms)"
    "\<exists>r. transfer_parse T raw terms = Some r \<and> (\<forall>t. r = Some t \<longrightarrow> 0 < tr_amt t)"
    by (auto simp: mint_parse_def transfer_parse_def f bind_panic_def word_gt_0 not_less split: option.splits)
qed

text \<open>
  C35. Amounts are read exactly: for every string and up to 18 decimals the parser returns without
  panicking, and its result is the mathematical value of the decimal number in the smallest unit
  (no rounding and no wrap-around in 128 bits), or nothing when the string is not a decimal number,
  has too many decimals or an integer part beyond 64 bits.
\<close>

theorem decimal_exact:
  assumes "dec \<le> 18"
  shows "\<exists>r. parse_decimal m dec = Some r \<and> map_option unat r = decimal_spec m (unat dec)"
  using assms by (rule parse_decimal_spec)

theorem decimal_exact_witness:
  "parse_decimal ''12.5'' 2 = Some (Some 1250) \<and> decimal_spec ''12.5'' 2 = Some 1250"
proof -
  have "parse_decimal ''12.5'' 2 = Some (Some 1250)" by code_simp
  then show ?thesis using decimal_exact [of 2 "''12.5''"] by simp
qed

end
