(* ===== verification/Inscription_Updater.thy ===== *)
theory Inscription_Updater
  imports Brc20_Messages
begin

text \<open>
  How a transaction moves inscriptions and drc-20 balances (\<open>storage/inscriptions/updater.rs\<close>).
  Inscriptions of the inputs and a newly completed one float in the order of the satoshis, sink
  into the outputs that hold their satoshi, or go to the miner with the fee. A transfer inscription
  that moves pays its amount to the receiver. The tables are maps; failures of RocksDB itself are
  not modelled. Sums of values wrap as in a release build.
\<close>

section \<open>State\<close>

record SatPoint =
  sp_outpoint :: OutPoint
  sp_offset :: u64

datatype Origin = New u64 | Old SatPoint

record Flotsam =
  fl_id :: InscriptionId
  fl_offset :: u64
  fl_origin :: Origin

datatype BRC20Message =
    Deploy bytes
  | Mint bytes u128 bytes
  | Transfer bytes u128 OutPoint bytes
  | TransferInit bytes u128 bytes

record Counters =
  ct_cursed :: u64
  ct_blessed :: u64
  ct_next_sequence :: u64
  ct_lost_sats :: u64
  ct_unbound :: u64

record InscriptionDb =
  id_partial_txids :: "bytes \<rightharpoonup> bytes"
  id_partial_txs :: "bytes \<rightharpoonup> bytes"
  id_terms :: "bytes \<rightharpoonup> BRC20Terms"
  id_supply :: "bytes \<rightharpoonup> u128"
  id_balances :: "bytes \<times> bytes \<rightharpoonup> u128"

record NewInscriptionInfo =
  ni_tx_hash :: bytes
  ni_id :: InscriptionId
  ni_number :: u64
  ni_body :: bytes
  ni_body_type :: bytes

datatype InscriptionError = TxoNotFound TxoRef | TxDecode | Panicked

text \<open>A transfer inscription in an input: ticker, amount, sender and where it was.\<close>

record PendingTransfer =
  pt_tick :: bytes
  pt_amt :: u128
  pt_sender :: bytes
  pt_point :: SatPoint

definition or_zero :: "u128 option \<Rightarrow> u128" where
  "or_zero x = (case x of None \<Rightarrow> 0 | Some v \<Rightarrow> v)"

section \<open>What floats in\<close>

fun float_output :: "OutPoint \<Rightarrow> bytes \<Rightarrow> u64 \<Rightarrow> TxoBody \<Rightarrow> (u64 \<times> InscriptionId) list \<Rightarrow>
    Flotsam list \<times> (InscriptionId \<rightharpoonup> PendingTransfer) \<Rightarrow> Flotsam list \<times> (InscriptionId \<rightharpoonup> PendingTransfer)" where
  "float_output point script value_in body [] s = s"
| "float_output point script value_in body ((offset, i) # is) s =
     (let old = \<lparr>sp_outpoint = point, sp_offset = offset\<rparr>;
          floating = fst s @ [\<lparr>fl_id = i, fl_offset = value_in + offset, fl_origin = Old old\<rparr>];
          unused = (case map_of (tb_unused_brc20_transfers body) i of
              None \<Rightarrow> snd s
            | Some (tick, amt) \<Rightarrow> (snd s)(i \<mapsto> \<lparr>pt_tick = tick, pt_amt = amt, pt_sender = script, pt_point = old\<rparr>))
      in float_output point script value_in body is (floating, unused))"

fun float_inputs :: "BitcoinCrate \<Rightarrow> (TxoRef \<rightharpoonup> TxoBody) \<Rightarrow> u64 \<Rightarrow> TxIn list \<Rightarrow> u64 \<Rightarrow>
    Flotsam list \<times> (InscriptionId \<rightharpoonup> PendingTransfer) \<Rightarrow>
    InscriptionError + (Flotsam list \<times> (InscriptionId \<rightharpoonup> PendingTransfer)) \<times> u64" where
  "float_inputs B resolver height [] value_in s = Inr (s, value_in)"
| "float_inputs B resolver height (i # is) value_in s =
     (if bc_is_null B (ti_previous_output i)
      then float_inputs B resolver height is (value_in + bc_subsidy B (ucast height)) s
      else case resolver (txo_ref (ti_previous_output i)) of
          None \<Rightarrow> Inl (TxoNotFound (txo_ref (ti_previous_output i)))
        | Some body \<Rightarrow>
          (case bc_decode_txout B (tb_raw body) of
             None \<Rightarrow> Inl Panicked
           | Some txout \<Rightarrow> float_inputs B resolver height is (value_in + to_value txout)
               (float_output (ti_previous_output i) (bc_script_hash B (to_script_pubkey txout)) value_in body
                 (tb_inscriptions body) s)))"

section \<open>New inscriptions\<close>

fun partial_transactions :: "BitcoinCrate \<Rightarrow> InscriptionDb \<Rightarrow> nat \<Rightarrow> bytes \<Rightarrow> InscriptionError + Transaction list" where
  "partial_transactions B db 0 txids = Inr []"
| "partial_transactions B db (Suc n) txids =
     (case id_partial_txs db (take 32 txids) of
        None \<Rightarrow> Inl Panicked
      | Some buf \<Rightarrow>
        (case bc_decode_tx B buf of
           None \<Rightarrow> Inl TxDecode
         | Some tx \<Rightarrow> and_then (partial_transactions B db n (drop 32 txids)) (\<lambda>txs. Inr (tx # txs))))"

record Found =
  fo_db :: InscriptionDb
  fo_flotsam :: "Flotsam list"
  fo_messages :: "(InscriptionId \<times> RawProtocolMessage) list"
  fo_new :: "NewInscriptionInfo list"

definition found_nothing :: "InscriptionDb \<Rightarrow> Found" where
  "found_nothing db = \<lparr>fo_db = db, fo_flotsam = [], fo_messages = [], fo_new = []\<rparr>"

definition found_complete :: "TextCrate \<Rightarrow> InscriptionDb \<Rightarrow> bytes \<Rightarrow> bytes \<Rightarrow> u64 \<Rightarrow> Counters \<Rightarrow> Inscription \<Rightarrow> Found" where
  "found_complete T db txids txid fee counters inscription =
     (let og = \<lparr>ii_txid = take 32 (txids @ txid), ii_index = 0\<rparr> in
      \<lparr>fo_db = db,
       fo_flotsam = [\<lparr>fl_id = og, fl_offset = 0, fl_origin = New fee\<rparr>],
       fo_messages = (case unparsed_message T inscription of None \<Rightarrow> [] | Some m \<Rightarrow> [(og, m)]),
       fo_new = [\<lparr>ni_tx_hash = txid, ni_id = og, ni_number = ct_next_sequence counters,
         ni_body = (case in_body inscription of None \<Rightarrow> [] | Some b \<Rightarrow> b),
         ni_body_type = (case content_type inscription of None \<Rightarrow> [] | Some c \<Rightarrow> c)\<rparr>]\<rparr>)"

definition find_inscription :: "BitcoinCrate \<Rightarrow> TextCrate \<Rightarrow> InscriptionDb \<Rightarrow> Transaction \<Rightarrow> bytes \<Rightarrow> u64 \<Rightarrow> Counters \<Rightarrow>
    InscriptionError + Found" where
  "find_inscription B T db tx txid fee counters =
     (case tx_input tx of [] \<Rightarrow> Inl Panicked
      | first # _ \<Rightarrow>
        let previous = id_partial_txids db (op_txid (ti_previous_output first));
            txids = (case previous of None \<Rightarrow> [] | Some t \<Rightarrow> t)
        in and_then (case previous of None \<Rightarrow> Inr [] | Some t \<Rightarrow> partial_transactions B db (length t div 32) t) (\<lambda>txs.
           case from_transactions (txs @ [tx]) of
             None \<Rightarrow> Inl Panicked
           | Some NoInscription \<Rightarrow> Inr (found_nothing db)
           | Some Partial \<Rightarrow> Inr (found_nothing (db\<lparr>
               id_partial_txids := (id_partial_txids db)(txid \<mapsto> txids @ txid),
               id_partial_txs := (id_partial_txs db)(txid \<mapsto> bc_encode_tx B tx)\<rparr>))
           | Some (Complete inscription) \<Rightarrow> Inr (found_complete T db txids txid fee counters inscription)))"

section \<open>Where the inscriptions go\<close>

text \<open>The loop over the outputs: locations, what is left, and the value of the outputs.\<close>

fun sink :: "bytes \<Rightarrow> nat \<Rightarrow> u64 \<Rightarrow> TxOut list \<Rightarrow> Flotsam list \<Rightarrow> (SatPoint \<times> Flotsam) list \<times> Flotsam list \<times> u64" where
  "sink txid vout output_value [] fs = ([], fs, output_value)"
| "sink txid vout output_value (out # outs) fs =
     (let stop = output_value + to_value out;
          here = takeWhile (\<lambda>f. fl_offset f < stop) fs;
          located = map (\<lambda>f. (\<lparr>sp_outpoint = \<lparr>op_txid = txid, op_vout = word_of_nat vout\<rparr>,
            sp_offset = fl_offset f - output_value\<rparr>, f)) here;
          (more, left, value) = sink txid (Suc vout) stop outs (dropWhile (\<lambda>f. fl_offset f < stop) fs)
      in (located @ more, left, value))"

definition update_inscription_location :: "Counters \<Rightarrow> SatPoint \<times> Flotsam \<Rightarrow> Counters" where
  "update_inscription_location counters l =
     (case fl_origin (snd l) of
        Old _ \<Rightarrow> counters
      | New _ \<Rightarrow> counters\<lparr>ct_blessed := ct_blessed counters + 1, ct_next_sequence := ct_next_sequence counters + 1\<rparr>)"

definition lost_location :: "BitcoinCrate \<Rightarrow> Counters \<Rightarrow> u64 \<Rightarrow> Flotsam \<Rightarrow> SatPoint \<times> Flotsam" where
  "lost_location B counters output_value f =
     (\<lparr>sp_outpoint = bc_null B, sp_offset = ct_lost_sats counters + fl_offset f - output_value\<rparr>, f)"

section \<open>Balances\<close>

definition credit :: "bytes \<Rightarrow> bytes \<Rightarrow> u128 \<Rightarrow> InscriptionDb \<Rightarrow> InscriptionDb" where
  "credit script tick amt db =
     db\<lparr>id_balances := (id_balances db)((script, tick) \<mapsto> or_zero (id_balances db (script, tick)) + amt)\<rparr>"

type_synonym brc20_log = "(InscriptionId \<times> BRC20Message) list"

text \<open>A transfer inscription that pays its receiver.\<close>

definition pay :: "InscriptionId \<Rightarrow> PendingTransfer \<Rightarrow> bytes \<Rightarrow> InscriptionDb \<times> brc20_log \<Rightarrow> InscriptionDb \<times> brc20_log" where
  "pay i p receiver s =
     (credit receiver (pt_tick p) (pt_amt p) (fst s),
      snd s @ [(i, Transfer (pt_tick p) (pt_amt p) (sp_outpoint (pt_point p)) receiver)])"

fun return_fees :: "(InscriptionId \<rightharpoonup> PendingTransfer) \<Rightarrow> Flotsam list \<Rightarrow> InscriptionDb \<times> brc20_log \<Rightarrow> InscriptionDb \<times> brc20_log" where
  "return_fees unused [] s = s"
| "return_fees unused (f # fs) s =
     return_fees unused fs (case unused (fl_id f) of None \<Rightarrow> s | Some p \<Rightarrow> pay (fl_id f) p (pt_sender p) s)"

definition script_of :: "BitcoinCrate \<Rightarrow> bytes \<Rightarrow> TxOut list \<Rightarrow> OutPoint \<Rightarrow> bytes option" where
  "script_of B txid outs o1 =
     (if op_txid o1 = txid \<and> unat (op_vout o1) < length outs
      then Some (bc_script_hash B (to_script_pubkey (outs ! unat (op_vout o1)))) else None)"

fun pay_receivers :: "BitcoinCrate \<Rightarrow> bytes \<Rightarrow> TxOut list \<Rightarrow> (InscriptionId \<rightharpoonup> PendingTransfer) \<Rightarrow>
    (SatPoint \<times> InscriptionId) list \<Rightarrow> (InscriptionId \<rightharpoonup> bytes) \<Rightarrow> InscriptionDb \<times> brc20_log \<Rightarrow>
    InscriptionError + (InscriptionId \<rightharpoonup> bytes) \<times> InscriptionDb \<times> brc20_log" where
  "pay_receivers B txid outs unused [] scripts s = Inr (scripts, s)"
| "pay_receivers B txid outs unused ((sp, i) # ls) scripts s =
     (let script = script_of B txid outs (sp_outpoint sp);
          scripts = (case script of None \<Rightarrow> scripts | Some x \<Rightarrow> scripts(i \<mapsto> x))
      in case unused i of
           None \<Rightarrow> pay_receivers B txid outs unused ls scripts s
         | Some p \<Rightarrow>
           if bc_is_null B (sp_outpoint sp) then pay_receivers B txid outs unused ls scripts (pay i p (pt_sender p) s)
           else (case script of
               None \<Rightarrow> Inl Panicked
             | Some receiver \<Rightarrow> pay_receivers B txid outs unused ls scripts (pay i p receiver s)))"

section \<open>drc-20 messages\<close>

record Ledger =
  lg_db :: InscriptionDb
  lg_log :: brc20_log
  lg_transfers :: "(InscriptionId \<times> bytes \<times> u128) list"

definition deploy_message :: "InscriptionId \<Rightarrow> BRC20Terms option \<Rightarrow> DeployAction \<Rightarrow> Ledger \<Rightarrow> Ledger" where
  "deploy_message i terms d l =
     (if terms \<noteq> None then l
      else l\<lparr>lg_db := (lg_db l)\<lparr>id_terms := (id_terms (lg_db l))(dp_ticker d \<mapsto>
               \<lparr>bt_max = dp_max d, bt_mint_amt_limit = dp_limit d, bt_dec = dp_dec d, bt_self_mint = dp_self_mint d,
                bt_deploy_id = i\<rparr>)\<rparr>,
             lg_log := lg_log l @ [(i, Deploy (dp_ticker d))]\<rparr>)"

definition mint_message :: "(InscriptionId \<rightharpoonup> bytes) \<Rightarrow> InscriptionId \<Rightarrow> BRC20Terms \<Rightarrow> MintAction \<Rightarrow> Ledger \<Rightarrow> Ledger" where
  "mint_message scripts i terms m l =
     (let db = lg_db l; supply = or_zero (id_supply db (mi_ticker m)) in
      case scripts i of None \<Rightarrow> l
      | Some receiver \<Rightarrow>
        if supply = bt_max terms then l
        else
          let amt = min (mi_amt m) (bt_max terms - supply) in
          l\<lparr>lg_db := credit receiver (mi_ticker m) amt (db\<lparr>id_supply := (id_supply db)(mi_ticker m \<mapsto> supply + amt)\<rparr>),
            lg_log := lg_log l @ [(i, Mint (mi_ticker m) amt receiver)]\<rparr>)"

definition transfer_message :: "(InscriptionId \<rightharpoonup> bytes) \<Rightarrow> InscriptionId \<Rightarrow> TransferAction \<Rightarrow> Ledger \<Rightarrow> Ledger" where
  "transfer_message scripts i t l =
     (let db = lg_db l in
      case scripts i of None \<Rightarrow> l
      | Some receiver \<Rightarrow>
        (case id_balances db (receiver, tr_ticker t) of None \<Rightarrow> l
         | Some old \<Rightarrow>
           if old < tr_amt t then l
           else l\<lparr>lg_db := db\<lparr>id_balances := (id_balances db)((receiver, tr_ticker t) \<mapsto> old - tr_amt t)\<rparr>,
                  lg_log := lg_log l @ [(i, TransferInit (tr_ticker t) (tr_amt t) receiver)],
                  lg_transfers := filter (\<lambda>(j, _). j \<noteq> i) (lg_transfers l) @ [(i, tr_ticker t, tr_amt t)]\<rparr>))"

fun process_messages :: "TextCrate \<Rightarrow> (InscriptionId \<rightharpoonup> bytes) \<Rightarrow> (InscriptionId \<times> RawProtocolMessage) list \<Rightarrow> Ledger \<Rightarrow>
    InscriptionError + Ledger" where
  "process_messages T scripts [] l = Inr l"
| "process_messages T scripts ((i, raw) # ms) l =
     (let terms = id_terms (lg_db l) (into_bytes (tc_to_lowercase T (rp_tick raw)));
          cont = process_messages T scripts ms
      in case deploy_parse T raw of
           None \<Rightarrow> Inl Panicked
         | Some (Some d) \<Rightarrow> cont (deploy_message i terms d l)
         | Some None \<Rightarrow>
           (case terms of
              None \<Rightarrow> cont l
            | Some terms \<Rightarrow>
              (case mint_parse T raw terms of
                 None \<Rightarrow> Inl Panicked
               | Some (Some m) \<Rightarrow> cont (mint_message scripts i terms m l)
               | Some None \<Rightarrow>
                 (case transfer_parse T raw terms of
                    None \<Rightarrow> Inl Panicked
                  | Some (Some t) \<Rightarrow> cont (transfer_message scripts i t l)
                  | Some None \<Rightarrow> cont l))))"

section \<open>A transaction\<close>

record InscriptionState =
  st_counters :: Counters
  st_reward :: u64
  st_cb :: "Flotsam list"
  st_new :: "NewInscriptionInfo list"

record IndexInscriptionsResult =
  ix_output_inscriptions :: "(u64 \<times> InscriptionId) list list"
  ix_lost_or_unbound :: "(SatPoint \<times> InscriptionId) list"
  ix_valid_reinscriptions :: "u32 list"
  ix_brc20_resolver :: brc20_log
  ix_new_unused :: "(InscriptionId \<times> bytes \<times> u128) list"

definition is_coinbase :: "BitcoinCrate \<Rightarrow> Transaction \<Rightarrow> bool" where
  "is_coinbase B tx = (case tx_input tx of [] \<Rightarrow> False | i # _ \<Rightarrow> bc_is_null B (ti_previous_output i))"

text \<open>All that floats, in the order of the satoshis, and the placement in the outputs.\<close>

definition floats :: "BitcoinCrate \<Rightarrow> Transaction \<Rightarrow> InscriptionState \<Rightarrow> Flotsam list \<Rightarrow> Flotsam list" where
  "floats B tx st fs = sort_key fl_offset (fs @ (if is_coinbase B tx then st_cb st else []))"

definition settle_miner :: "BitcoinCrate \<Rightarrow> Transaction \<Rightarrow> u64 \<Rightarrow> u64 \<Rightarrow> (SatPoint \<times> Flotsam) list \<Rightarrow> Flotsam list \<Rightarrow>
    InscriptionState \<Rightarrow> (SatPoint \<times> Flotsam) list \<times> InscriptionState" where
  "settle_miner B tx value_in output_value located left st =
     (let counters = fold (\<lambda>l c. update_inscription_location c l) located (st_counters st) in
      if is_coinbase B tx then
        let lost = map (lost_location B counters output_value) left;
            counters = fold (\<lambda>l c. update_inscription_location c l) lost counters
        in (located @ lost, st\<lparr>st_counters := counters\<lparr>ct_lost_sats := ct_lost_sats counters + (st_reward st - output_value)\<rparr>,
              st_cb := []\<rparr>)
      else (located, st\<lparr>st_counters := counters,
              st_cb := st_cb st @ map (\<lambda>f. f\<lparr>fl_offset := st_reward st + fl_offset f - output_value\<rparr>) left,
              st_reward := st_reward st + (value_in - output_value)\<rparr>))"

definition group_outputs :: "bytes \<Rightarrow> nat \<Rightarrow> (SatPoint \<times> InscriptionId) list \<Rightarrow> (u64 \<times> InscriptionId) list list" where
  "group_outputs txid n outgoing =
     map (\<lambda>j. map (\<lambda>(sp, i). (sp_offset sp, i))
       (filter (\<lambda>(sp, _). op_txid (sp_outpoint sp) = txid \<and> unat (op_vout (sp_outpoint sp)) = j) outgoing)) [0..<n]"

definition move_inscriptions :: "BitcoinCrate \<Rightarrow> TextCrate \<Rightarrow> Transaction \<Rightarrow> bytes \<Rightarrow> u64 \<Rightarrow>
    Flotsam list \<Rightarrow> (InscriptionId \<rightharpoonup> PendingTransfer) \<Rightarrow> Found \<Rightarrow> InscriptionState \<Rightarrow>
    InscriptionError + IndexInscriptionsResult \<times> InscriptionState \<times> InscriptionDb" where
  "move_inscriptions B T tx txid value_in old unused found st =
     (let (located, left, output_value) = sink txid 0 0 (tx_output tx) (floats B tx st (old @ fo_flotsam found));
          (moved, st') = settle_miner B tx value_in output_value located left st;
          outgoing = map (\<lambda>(sp, f). (sp, fl_id f)) moved;
          paid = (if is_coinbase B tx then (fo_db found, []) else return_fees unused left (fo_db found, []))
      in and_then (pay_receivers B txid (tx_output tx) unused outgoing Map.empty paid) (\<lambda>(scripts, db, log).
         and_then (process_messages T scripts (fo_messages found) \<lparr>lg_db = db, lg_log = log, lg_transfers = []\<rparr>) (\<lambda>l.
           Inr (\<lparr>ix_output_inscriptions = group_outputs txid (length (tx_output tx)) outgoing,
                 ix_lost_or_unbound = filter (\<lambda>(sp, _). op_txid (sp_outpoint sp) \<noteq> txid) outgoing,
                 ix_valid_reinscriptions = [], ix_brc20_resolver = lg_log l, ix_new_unused = lg_transfers l\<rparr>,
               st'\<lparr>st_new := st_new st' @ fo_new found\<rparr>, lg_db l))))"

definition index_inscriptions :: "BitcoinCrate \<Rightarrow> TextCrate \<Rightarrow> (TxoRef \<rightharpoonup> TxoBody) \<Rightarrow> u64 \<Rightarrow> Transaction \<Rightarrow> bytes \<Rightarrow>
    InscriptionState \<Rightarrow> InscriptionDb \<Rightarrow> InscriptionError + IndexInscriptionsResult \<times> InscriptionState \<times> InscriptionDb" where
  "index_inscriptions B T resolver height tx txid st db =
     and_then (float_inputs B resolver height (tx_input tx) 0 ([], Map.empty)) (\<lambda>((old, unused), value_in).
     and_then (if list_all (\<lambda>f. fl_offset f \<noteq> 0) old
               then find_inscription B T db tx txid (value_in - sum_list (map to_value (tx_output tx))) (st_counters st)
               else Inr (found_nothing db)) (\<lambda>found.
       move_inscriptions B T tx txid value_in old unused found st))"

end
