(* ===== verification/Brc20_Ledger.thy ===== *)
theory Brc20_Ledger
  imports Inscription_Updater "HOL-Library.Multiset"
begin

text \<open>
  The drc-20 ledger kept by \<open>index_inscriptions\<close>: what the addresses hold of a ticker, together
  with what is bound in transfer inscriptions, changes only by minting, and never exceeds the
  maximum of the terms.
\<close>

section \<open>Sums of balances\<close>

definition bal_sum :: "(bytes \<times> bytes \<rightharpoonup> u128) \<Rightarrow> bytes \<Rightarrow> nat" where
  "bal_sum m t = (\<Sum>k\<in>dom m. if snd k = t then unat (or_zero (m k)) else 0)"

lemma or_zero_simps [simp]: "or_zero None = 0" "or_zero (Some v) = v"
  by (simp_all add: or_zero_def)

lemma bal_sum_upd:
  assumes "finite (dom m)"
  shows "bal_sum (m(k \<mapsto> v)) t + (if snd k = t then unat (or_zero (m k)) else 0) =
    bal_sum m t + (if snd k = t then unat v else 0)"
proof -
  let ?f = "\<lambda>m k. if snd k = t then unat (or_zero (m k)) else 0"
  let ?D = "dom m - {k}"
  have eq: "(\<Sum>j\<in>?D. ?f (m(k \<mapsto> v)) j) = (\<Sum>j\<in>?D. ?f m j)" by (rule sum.cong) auto
  have 1: "bal_sum (m(k \<mapsto> v)) t = ?f (m(k \<mapsto> v)) k + (\<Sum>j\<in>?D. ?f (m(k \<mapsto> v)) j)"
  proof -
    have "dom (m(k \<mapsto> v)) = insert k ?D" by auto
    then show ?thesis unfolding bal_sum_def using assms by (simp only: sum.insert_if finite_Diff) simp
  qed
  have 2: "bal_sum m t = ?f m k + (\<Sum>j\<in>?D. ?f m j)"
  proof (cases "k \<in> dom m")
    case True
    then show ?thesis unfolding bal_sum_def by (rule sum.remove [OF assms])
  next
    case False
    then have "?D = dom m" "?f m k = 0" by (auto simp: dom_def)
    then show ?thesis by (simp only: bal_sum_def add_0)
  qed
  show ?thesis unfolding 1 2 eq by simp
qed

lemma entry_le_bal_sum:
  assumes "finite (dom m)" "snd k = t"
  shows "unat (or_zero (m k)) \<le> bal_sum m t"
  using bal_sum_upd [OF assms(1), of k 0 t] assms(2) by simp

lemma unat_plus_small: "unat x + unat y < 2 ^ 128 \<Longrightarrow> unat (x + y :: u128) = unat x + unat y"
  by (subst unat_add_lem [THEN iffD1]) simp_all

lemma credit_sum:
  assumes "finite (dom (id_balances db))" "bal_sum (id_balances db) tick + unat amt < 2 ^ 128"
  shows "bal_sum (id_balances (credit script tick amt db)) t =
    bal_sum (id_balances db) t + (if t = tick then unat amt else 0)"
proof -
  let ?m = "id_balances db" and ?k = "(script, tick)"
  have "unat (or_zero (?m ?k)) \<le> bal_sum ?m tick" using assms(1) by (rule entry_le_bal_sum) simp
  then have "unat (or_zero (?m ?k)) + unat amt < 2 ^ 128" using assms(2) by linarith
  then have "unat (or_zero (?m ?k) + amt) = unat (or_zero (?m ?k)) + unat amt" by (rule unat_plus_small)
  then show ?thesis using bal_sum_upd [OF assms(1), of ?k "or_zero (?m ?k) + amt" t] by (auto simp: credit_def)
qed

lemma credit_keeps [simp]:
  "id_supply (credit script tick amt db) = id_supply db" "id_terms (credit script tick amt db) = id_terms db"
  "finite (dom (id_balances db)) \<Longrightarrow> finite (dom (id_balances (credit script tick amt db)))"
  by (simp_all add: credit_def)

section \<open>Transfers that pay\<close>

definition pending :: "(InscriptionId \<rightharpoonup> PendingTransfer) \<Rightarrow> bytes \<Rightarrow> InscriptionId \<Rightarrow> nat" where
  "pending unused t i = (case unused i of None \<Rightarrow> 0 | Some p \<Rightarrow> if pt_tick p = t then unat (pt_amt p) else 0)"

text \<open>A database where only balances changed, by the given amounts.\<close>

definition paid_out :: "InscriptionDb \<Rightarrow> InscriptionDb \<Rightarrow> (bytes \<Rightarrow> nat) \<Rightarrow> bool" where
  "paid_out db db' w \<longleftrightarrow> id_supply db' = id_supply db \<and> id_terms db' = id_terms db \<and>
     finite (dom (id_balances db')) \<and> (\<forall>t. bal_sum (id_balances db') t = bal_sum (id_balances db) t + w t)"

lemma pay_out:
  assumes "finite (dom (id_balances (fst s)))" "unused i = Some p"
    "\<And>t. bal_sum (id_balances (fst s)) t + pending unused t i < 2 ^ 128"
  shows "paid_out (fst s) (fst (pay i p receiver s)) (\<lambda>t. pending unused t i)"
  using credit_sum [OF assms(1), of "pt_tick p" "pt_amt p" receiver] assms(1,2) assms(3) [of "pt_tick p"]
  by (auto simp: paid_out_def pay_def pending_def)

lemma paid_out_trans: "paid_out a b v \<Longrightarrow> paid_out b c w \<Longrightarrow> paid_out a c (\<lambda>t. v t + w t)"
  by (simp add: paid_out_def)

lemma paid_out_refl: "finite (dom (id_balances a)) \<Longrightarrow> paid_out a a (\<lambda>t. 0)"
  by (simp add: paid_out_def)

lemma return_fees_out:
  "finite (dom (id_balances (fst s))) \<Longrightarrow>
   (\<And>t. bal_sum (id_balances (fst s)) t + sum_list (map (\<lambda>f. pending unused t (fl_id f)) fs) < 2 ^ 128) \<Longrightarrow>
   paid_out (fst s) (fst (return_fees unused fs s)) (\<lambda>t. sum_list (map (\<lambda>f. pending unused t (fl_id f)) fs))"
proof (induction fs arbitrary: s)
  case (Cons f fs)
  let ?s = "case unused (fl_id f) of None \<Rightarrow> s | Some p \<Rightarrow> pay (fl_id f) p (pt_sender p) s"
  have one: "paid_out (fst s) (fst ?s) (\<lambda>t. pending unused t (fl_id f))"
  proof (cases "unused (fl_id f)")
    case None
    then show ?thesis using paid_out_refl [OF Cons.prems(1)] by (simp add: pending_def)
  next
    case (Some p)
    have "bal_sum (id_balances (fst s)) t + pending unused t (fl_id f) < 2 ^ 128" for t
      using Cons.prems(2) [of t] by simp
    from pay_out [OF Cons.prems(1) Some this] show ?thesis by (simp add: Some)
  qed
  have "paid_out (fst ?s) (fst (return_fees unused fs ?s)) (\<lambda>t. sum_list (map (\<lambda>f. pending unused t (fl_id f)) fs))"
    using one Cons.prems(2) by (intro Cons.IH) (simp_all add: paid_out_def add.assoc)
  from paid_out_trans [OF one this] show ?case by simp
qed (simp add: paid_out_refl)

lemma pay_receivers_next:
  assumes "pay_receivers B txid outs unused ((sp, i) # ls) scripts s = Inr res"
  obtains scr s2 where "pay_receivers B txid outs unused ls scr s2 = Inr res"
    "unused i = None \<and> s2 = s \<or> (\<exists>p receiver. unused i = Some p \<and> s2 = pay i p receiver s)"
proof (cases "unused i")
  case None
  then show thesis using that [of _ s] assms by (auto simp: Let_def)
next
  case (Some p)
  then obtain r scr where "pay_receivers B txid outs unused ls scr (pay i p r s) = Inr res"
    using assms by (auto simp: Let_def split: if_splits option.splits)
  then show thesis using that Some by blast
qed

lemma pay_receivers_out:
  "finite (dom (id_balances (fst s))) \<Longrightarrow>
   (\<And>t. bal_sum (id_balances (fst s)) t + sum_list (map (\<lambda>l. pending unused t (snd l)) ls) < 2 ^ 128) \<Longrightarrow>
   pay_receivers B txid outs unused ls scripts s = Inr (scripts', s') \<Longrightarrow>
   paid_out (fst s) (fst s') (\<lambda>t. sum_list (map (\<lambda>l. pending unused t (snd l)) ls))"
proof (induction ls arbitrary: scripts s)
  case (Cons l ls)
  obtain sp i where l: "l = (sp, i)" by (cases l)
  have fits: "bal_sum (id_balances (fst s)) t + pending unused t i < 2 ^ 128" for t
    using Cons.prems(2) [of t] by (simp add: l)
  from Cons.prems(3) [unfolded l] show ?case
  proof (cases rule: pay_receivers_next)
    case (1 scr s2)
    have one: "paid_out (fst s) (fst s2) (\<lambda>t. pending unused t i)"
      using 1(2) pay_out [OF Cons.prems(1) _ fits] paid_out_refl [OF Cons.prems(1)] by (auto simp: pending_def)
    have "paid_out (fst s2) (fst s') (\<lambda>t. sum_list (map (\<lambda>l. pending unused t (snd l)) ls))"
      using one Cons.prems(2) by (intro Cons.IH [OF _ _ 1(1)]) (simp_all add: paid_out_def add.assoc l)
    from paid_out_trans [OF one this] show ?thesis by (simp add: l)
  qed
qed (simp add: paid_out_refl)

section \<open>Messages\<close>

definition bound_in :: "(InscriptionId \<times> bytes \<times> u128) list \<Rightarrow> bytes \<Rightarrow> nat" where
  "bound_in ts t = sum_list (map (\<lambda>(_, tick, amt). if tick = t then unat amt else 0) ts)"

definition supply_of :: "InscriptionDb \<Rightarrow> bytes \<Rightarrow> nat" where
  "supply_of db t = unat (or_zero (id_supply db t))"

text \<open>The supply of a ticker stays within its maximum, and nothing is minted before the deploy.\<close>

definition supply_ok :: "InscriptionDb \<Rightarrow> bool" where
  "supply_ok db \<longleftrightarrow> (\<forall>t. supply_of db t \<le> (case id_terms db t of None \<Rightarrow> 0 | Some terms \<Rightarrow> unat (bt_max terms)))"

definition in_circulation :: "Ledger \<Rightarrow> bytes \<Rightarrow> nat" where
  "in_circulation l t = bal_sum (id_balances (lg_db l)) t + bound_in (lg_transfers l) t"

text \<open>A step of the ledger: circulation and supply grow together, and the invariants are kept.\<close>

definition ledger_step :: "Ledger \<Rightarrow> Ledger \<Rightarrow> bool" where
  "ledger_step l l' \<longleftrightarrow> finite (dom (id_balances (lg_db l'))) \<and> supply_ok (lg_db l') \<and>
     (\<forall>t. supply_of (lg_db l) t \<le> supply_of (lg_db l') t \<and>
       in_circulation l' t + supply_of (lg_db l) t = in_circulation l t + supply_of (lg_db l') t)"

lemma ledger_step_refl: "finite (dom (id_balances (lg_db l))) \<Longrightarrow> supply_ok (lg_db l) \<Longrightarrow> ledger_step l l"
  by (simp add: ledger_step_def)

lemma ledger_step_trans:
  assumes "ledger_step a b" "ledger_step b c"
  shows "ledger_step a c"
proof -
  have "supply_of (lg_db a) t \<le> supply_of (lg_db c) t \<and>
      in_circulation c t + supply_of (lg_db a) t = in_circulation a t + supply_of (lg_db c) t" for t
  proof -
    have "supply_of (lg_db a) t \<le> supply_of (lg_db b) t" "supply_of (lg_db b) t \<le> supply_of (lg_db c) t"
      "in_circulation b t + supply_of (lg_db a) t = in_circulation a t + supply_of (lg_db b) t"
      "in_circulation c t + supply_of (lg_db b) t = in_circulation b t + supply_of (lg_db c) t"
      using assms by (simp_all add: ledger_step_def)
    then show ?thesis by linarith
  qed
  then show ?thesis using assms(2) by (simp add: ledger_step_def)
qed

lemma deploy_step:
  assumes "finite (dom (id_balances (lg_db l)))" "supply_ok (lg_db l)" "terms = id_terms (lg_db l) (dp_ticker d)"
  shows "ledger_step l (deploy_message i terms d l)"
proof (cases terms)
  case None
  have "supply_of (lg_db l) (dp_ticker d) = 0"
    using assms(2,3) None by (simp add: supply_ok_def) (metis le_zero_eq option.case(1))
  then have "supply_ok (lg_db (deploy_message i terms d l))"
    using assms(2) None by (auto simp: supply_ok_def supply_of_def deploy_message_def)
  then show ?thesis using assms(1) None
    by (simp add: ledger_step_def in_circulation_def supply_of_def deploy_message_def)
qed (simp add: deploy_message_def ledger_step_refl assms)

lemma mint_step:
  assumes "finite (dom (id_balances (lg_db l)))" "supply_ok (lg_db l)" "id_terms (lg_db l) (mi_ticker m) = Some terms"
    "in_circulation l (mi_ticker m) \<le> supply_of (lg_db l) (mi_ticker m)"
  shows "ledger_step l (mint_message scripts i terms m l)"
proof (cases "scripts i = None \<or> or_zero (id_supply (lg_db l) (mi_ticker m)) = bt_max terms")
  case True
  then show ?thesis by (auto simp: mint_message_def Let_def ledger_step_refl assms split: option.split)
next
  case False
  let ?t = "mi_ticker m" and ?db = "lg_db l"
  let ?s = "or_zero (id_supply ?db ?t)"
  let ?amt = "min (mi_amt m) (bt_max terms - ?s)"
  obtain receiver where r: "scripts i = Some receiver" using False by auto
  let ?db1 = "?db\<lparr>id_supply := (id_supply ?db)(?t \<mapsto> ?s + ?amt)\<rparr>"
  have run: "mint_message scripts i terms m l = l\<lparr>lg_db := credit receiver ?t ?amt ?db1,
      lg_log := lg_log l @ [(i, Mint ?t ?amt receiver)]\<rparr>"
    using False r by (simp add: mint_message_def Let_def)
  have le: "unat ?s \<le> unat (bt_max terms)" using assms(2) [unfolded supply_ok_def, rule_format, of ?t] assms(3) by (simp add: supply_of_def)
  have "?amt \<le> bt_max terms - ?s" by simp
  then have amt: "unat ?amt \<le> unat (bt_max terms) - unat ?s"
    using le by (simp add: word_le_nat_alt unat_sub)
  have top: "unat (bt_max terms) < 2 ^ 128" using unsigned_less [of "bt_max terms", where ?'a = nat] by simp
  have new: "unat (?s + ?amt) = unat ?s + unat ?amt" using amt le top by (intro unat_plus_small) linarith
  have circ: "bal_sum (id_balances ?db1) ?t \<le> unat ?s"
    using assms(4) by (simp add: in_circulation_def supply_of_def)
  then have "bal_sum (id_balances ?db1) ?t + unat ?amt < 2 ^ 128" using amt le top by linarith
  note cs = credit_sum [OF _ this, of receiver]
  have "supply_ok (credit receiver ?t ?amt ?db1)"
    using assms(2,3) new amt le by (auto simp: supply_ok_def supply_of_def)
  moreover have "in_circulation (mint_message scripts i terms m l) t + supply_of ?db t =
      in_circulation l t + supply_of (credit receiver ?t ?amt ?db1) t \<and>
      supply_of ?db t \<le> supply_of (credit receiver ?t ?amt ?db1) t" for t
    using cs [of t] assms(1) new unfolding run by (simp add: in_circulation_def supply_of_def)
  ultimately show ?thesis using assms(1) unfolding ledger_step_def run by simp
qed

lemma transfer_step:
  assumes "finite (dom (id_balances (lg_db l)))" "supply_ok (lg_db l)" "i \<notin> fst ` set (lg_transfers l)"
  shows "ledger_step l (transfer_message scripts i t l)"
proof (cases "\<exists>receiver old. scripts i = Some receiver \<and> id_balances (lg_db l) (receiver, tr_ticker t) = Some old \<and> tr_amt t \<le> old")
  case False
  then have "transfer_message scripts i t l = l"
    by (auto simp: transfer_message_def Let_def not_less split: option.split)
  then show ?thesis by (simp add: ledger_step_refl assms)
next
  case True
  then obtain receiver old where r: "scripts i = Some receiver" "id_balances (lg_db l) (receiver, tr_ticker t) = Some old"
    "tr_amt t \<le> old" by blast
  let ?db = "lg_db l" and ?k = "(receiver, tr_ticker t)"
  have keep: "filter (\<lambda>(j, _). j \<noteq> i) (lg_transfers l) = lg_transfers l"
    using assms(3) by (force simp: filter_id_conv)
  have run: "transfer_message scripts i t l = l\<lparr>lg_db := ?db\<lparr>id_balances := (id_balances ?db)(?k \<mapsto> old - tr_amt t)\<rparr>,
      lg_log := lg_log l @ [(i, TransferInit (tr_ticker t) (tr_amt t) receiver)],
      lg_transfers := lg_transfers l @ [(i, tr_ticker t, tr_amt t)]\<rparr>"
    using r keep by (simp add: transfer_message_def Let_def not_less)
  have u: "unat (old - tr_amt t) + unat (tr_amt t) = unat old"
    using r(3) by (simp add: unat_sub word_le_nat_alt)
  have "in_circulation (transfer_message scripts i t l) x = in_circulation l x" for x
    using bal_sum_upd [OF assms(1), of ?k "old - tr_amt t" x] r(2) u unfolding run
    by (auto simp: in_circulation_def bound_in_def)
  moreover have "supply_of (lg_db (transfer_message scripts i t l)) x = supply_of ?db x" for x
    unfolding run by (simp add: supply_of_def)
  moreover have "supply_ok (lg_db (transfer_message scripts i t l))"
    using assms(2) unfolding run by (simp add: supply_ok_def supply_of_def)
  ultimately show ?thesis using assms(1) unfolding ledger_step_def by (simp add: run)
qed

lemma message_tickers:
  "deploy_parse T raw = Some (Some d) \<Longrightarrow> dp_ticker d = into_bytes (tc_to_lowercase T (rp_tick raw))"
  "mint_parse T raw terms = Some (Some m) \<Longrightarrow> mi_ticker m = into_bytes (tc_to_lowercase T (rp_tick raw))"
  by (auto simp: deploy_parse_def mint_parse_def bind_panic_def split: option.splits if_splits)

lemma message_transfers:
  "lg_transfers (deploy_message i terms d l) = lg_transfers l"
  "lg_transfers (mint_message scripts i terms' m l) = lg_transfers l"
  "fst ` set (lg_transfers (transfer_message scripts i t l)) \<subseteq> insert i (fst ` set (lg_transfers l))"
  by (auto simp: deploy_message_def mint_message_def transfer_message_def Let_def split: option.split)

text \<open>The cases of the message loop.\<close>

lemma process_message_step:
  assumes "process_messages T scripts ((i, raw) # ms) l = Inr l'" "finite (dom (id_balances (lg_db l)))" "supply_ok (lg_db l)"
    "\<And>t. in_circulation l t \<le> supply_of (lg_db l) t" "i \<notin> fst ` set (lg_transfers l)"
  obtains l1 where "process_messages T scripts ms l1 = Inr l'" "ledger_step l l1"
    "fst ` set (lg_transfers l1) \<subseteq> insert i (fst ` set (lg_transfers l))"
proof -
  let ?terms = "id_terms (lg_db l) (into_bytes (tc_to_lowercase T (rp_tick raw)))"
  consider (deploy) d where "deploy_parse T raw = Some (Some d)" "process_messages T scripts ms (deploy_message i ?terms d l) = Inr l'"
    | (skip) "process_messages T scripts ms l = Inr l'"
    | (mint) terms m where "?terms = Some terms" "mint_parse T raw terms = Some (Some m)"
        "process_messages T scripts ms (mint_message scripts i terms m l) = Inr l'"
    | (transfer) t where "process_messages T scripts ms (transfer_message scripts i t l) = Inr l'"
    using assms(1) by (auto simp: Let_def split: option.splits)
  then show thesis
  proof cases
    case deploy
    then show thesis using that deploy_step [OF assms(2,3), of ?terms d i] message_tickers(1) [OF deploy(1)]
      message_transfers(1) by (metis order_refl subset_insertI2)
  next
    case skip
    then show thesis using that ledger_step_refl [OF assms(2,3)] by blast
  next
    case mint
    then show thesis using that mint_step [OF assms(2,3), of m terms scripts i] message_tickers(2) [OF mint(2)]
      message_transfers(2) assms(4) by (metis order_refl subset_insertI2)
  next
    case transfer
    then show thesis using that transfer_step [OF assms(2,3,5)] message_transfers(3) by blast
  qed
qed

lemma process_messages_step:
  "process_messages T scripts ms l = Inr l' \<Longrightarrow> finite (dom (id_balances (lg_db l))) \<Longrightarrow> supply_ok (lg_db l) \<Longrightarrow>
   (\<And>t. in_circulation l t \<le> supply_of (lg_db l) t) \<Longrightarrow> distinct (map fst ms) \<Longrightarrow>
   fst ` set ms \<inter> fst ` set (lg_transfers l) = {} \<Longrightarrow> ledger_step l l'"
proof (induction ms arbitrary: l)
  case (Cons m ms)
  obtain i raw where m: "m = (i, raw)" by (cases m)
  have i: "i \<notin> fst ` set (lg_transfers l)" using Cons.prems(6) by (simp add: m)
  obtain l1 where l1: "process_messages T scripts ms l1 = Inr l'" "ledger_step l l1"
    "fst ` set (lg_transfers l1) \<subseteq> insert i (fst ` set (lg_transfers l))"
    using process_message_step [OF Cons.prems(1) [unfolded m] Cons.prems(2,3,4) i] by blast
  have circ: "in_circulation l1 t \<le> supply_of (lg_db l1) t" for t
  proof -
    have "in_circulation l1 t + supply_of (lg_db l) t = in_circulation l t + supply_of (lg_db l1) t"
      using l1(2) by (simp add: ledger_step_def)
    then show ?thesis using Cons.prems(4) [of t] by linarith
  qed
  have "i \<notin> fst ` set ms" "fst ` set ms \<inter> fst ` set (lg_transfers l) = {}" using Cons.prems(5,6) m by auto
  then have "fst ` set ms \<inter> fst ` set (lg_transfers l1) = {}" using l1(3) by blast
  then have "ledger_step l1 l'"
    using Cons.IH [OF l1(1)] l1(2) circ Cons.prems(5) by (simp add: ledger_step_def)
  with l1(2) show ?case by (rule ledger_step_trans)
qed (simp add: ledger_step_refl)

section \<open>What the inputs bind\<close>

definition body_bound :: "TxoBody \<Rightarrow> bytes \<Rightarrow> InscriptionId \<Rightarrow> nat" where
  "body_bound body t i = (case map_of (tb_unused_brc20_transfers body) i of None \<Rightarrow> 0
     | Some (tick, amt) \<Rightarrow> if tick = t then unat amt else 0)"

fun input_bodies :: "BitcoinCrate \<Rightarrow> (TxoRef \<rightharpoonup> TxoBody) \<Rightarrow> TxIn list \<Rightarrow> TxoBody list" where
  "input_bodies B resolver [] = []"
| "input_bodies B resolver (i # is) =
     (if bc_is_null B (ti_previous_output i) then input_bodies B resolver is
      else case resolver (txo_ref (ti_previous_output i)) of None \<Rightarrow> input_bodies B resolver is
        | Some body \<Rightarrow> body # input_bodies B resolver is)"

text \<open>The transfers bound in spent outputs, and the inscriptions these hold.\<close>

definition spent_bound :: "TxoBody list \<Rightarrow> bytes \<Rightarrow> nat" where
  "spent_bound bodies t = sum_list (map (\<lambda>b. sum_list (map (\<lambda>(_, i). body_bound b t i) (tb_inscriptions b))) bodies)"

definition spent_ids :: "TxoBody list \<Rightarrow> InscriptionId list" where
  "spent_ids bodies = concat (map (\<lambda>b. map snd (tb_inscriptions b)) bodies)"

definition floating_pending :: "Flotsam list \<times> (InscriptionId \<rightharpoonup> PendingTransfer) \<Rightarrow> bytes \<Rightarrow> nat" where
  "floating_pending s t = sum_list (map (\<lambda>f. pending (snd s) t (fl_id f)) (fst s))"

definition pending_known :: "Flotsam list \<times> (InscriptionId \<rightharpoonup> PendingTransfer) \<Rightarrow> bool" where
  "pending_known s \<longleftrightarrow> dom (snd s) \<subseteq> fl_id ` set (fst s)"

lemma pending_update: "i \<noteq> j \<Longrightarrow> pending (m(j := p)) t i = pending m t i"
  by (simp add: pending_def)

lemma float_output_pending:
  "pending_known s \<Longrightarrow> distinct (map fl_id (fst s) @ map snd is) \<Longrightarrow>
   pending_known (float_output point script v body is s) \<and>
   map fl_id (fst (float_output point script v body is s)) = map fl_id (fst s) @ map snd is \<and>
   floating_pending (float_output point script v body is s) t =
     floating_pending s t + sum_list (map (\<lambda>(_, i). body_bound body t i) is)"
proof (induction "is" arbitrary: s)
  case (Cons x "is")
  obtain off i where x: "x = (off, i)" by (cases x)
  let ?old = "\<lparr>sp_outpoint = point, sp_offset = off\<rparr>"
  let ?fs = "fst s @ [\<lparr>fl_id = i, fl_offset = v + off, fl_origin = Old ?old\<rparr>]"
  let ?un = "case map_of (tb_unused_brc20_transfers body) i of None \<Rightarrow> snd s
    | Some (tick, amt) \<Rightarrow> (snd s)(i \<mapsto> \<lparr>pt_tick = tick, pt_amt = amt, pt_sender = script, pt_point = ?old\<rparr>)"
  have new: "i \<notin> fl_id ` set (fst s)" using Cons.prems(2) x by auto
  then have none: "snd s i = None" using Cons.prems(1) by (auto simp: pending_known_def dom_def)
  have known: "pending_known (?fs, ?un)"
    using Cons.prems(1) by (auto simp: pending_known_def split: option.split)
  have same: "pending ?un t j = pending (snd s) t j" if "j \<noteq> i" for j
    using that by (auto simp: pending_def split: option.split)
  have "pending ?un t (fl_id f) = pending (snd s) t (fl_id f)" if "f \<in> set (fst s)" for f
    using that new by (intro same) auto
  then have "sum_list (map (\<lambda>f. pending ?un t (fl_id f)) (fst s)) = sum_list (map (\<lambda>f. pending (snd s) t (fl_id f)) (fst s))"
    by (intro arg_cong [where f = sum_list] map_cong) (rule refl)
  moreover have "pending ?un t i = body_bound body t i"
    using none by (auto simp: pending_def body_bound_def split: option.split)
  ultimately have val: "floating_pending (?fs, ?un) t = floating_pending s t + body_bound body t i"
    by (simp add: floating_pending_def)
  have "distinct (map fl_id (fst (?fs, ?un)) @ map snd is)" using Cons.prems(2) x by simp
  note IH = Cons.IH [OF known this]
  have run: "float_output point script v body (x # is) s = float_output point script v body is (?fs, ?un)"
    by (simp add: x Let_def)
  show ?case unfolding run using IH val x by simp
qed simp

lemma float_inputs_pending:
  "pending_known s \<Longrightarrow> distinct (map fl_id (fst s) @ spent_ids (input_bodies B resolver is)) \<Longrightarrow>
   float_inputs B resolver height is v s = Inr (s', v') \<Longrightarrow>
   pending_known s' \<and> map fl_id (fst s') = map fl_id (fst s) @ spent_ids (input_bodies B resolver is) \<and>
   floating_pending s' t = floating_pending s t + spent_bound (input_bodies B resolver is) t"
proof (induction "is" arbitrary: v s)
  case (Cons i "is")
  show ?case
  proof (cases "bc_is_null B (ti_previous_output i)")
    case True
    then show ?thesis using Cons by simp
  next
    case False
    obtain body txout where body: "resolver (txo_ref (ti_previous_output i)) = Some body"
        "bc_decode_txout B (tb_raw body) = Some txout"
      using Cons.prems(3) False by (auto split: option.splits)
    let ?s = "float_output (ti_previous_output i) (bc_script_hash B (to_script_pubkey txout)) v body (tb_inscriptions body) s"
    have dis: "distinct (map fl_id (fst s) @ map snd (tb_inscriptions body))"
      using Cons.prems(2) False body by (auto simp: spent_ids_def)
    note one = float_output_pending [OF Cons.prems(1) dis, of "ti_previous_output i" "bc_script_hash B (to_script_pubkey txout)" v body t]
    have run: "float_inputs B resolver height is (v + to_value txout) ?s = Inr (s', v')"
      using Cons.prems(3) False body by simp
    have "distinct (map fl_id (fst ?s) @ spent_ids (input_bodies B resolver is))"
      using Cons.prems(2) False body one by (simp add: spent_ids_def)
    from Cons.IH [OF _ this run] one show ?thesis using False body by (simp add: spent_ids_def spent_bound_def)
  qed
qed (auto simp: spent_ids_def spent_bound_def)

section \<open>Every float is placed once\<close>

lemma sum_takeWhile_dropWhile:
  "sum_list (map f (takeWhile P xs)) + sum_list (map f (dropWhile P xs)) = (sum_list (map f xs) :: nat)"
  by (induction xs) auto

lemma sink_sum:
  "sink txid vout v outs fs = (located, left, v') \<Longrightarrow>
   sum_list (map (\<lambda>l. w (snd l)) located) + sum_list (map w left) = (sum_list (map w fs) :: nat)"
proof (induction txid vout v outs fs arbitrary: located left v' rule: sink.induct)
  case (2 txid vout v out outs fs)
  let ?P = "\<lambda>f. fl_offset f < v + to_value out"
  obtain more v'' where r: "sink txid (Suc vout) (v + to_value out) outs (dropWhile ?P fs) = (more, left, v'')"
    and loc: "map snd located = takeWhile ?P fs @ map snd more"
    using 2(2) by (auto simp: Let_def comp_def split: prod.splits)
  have "sum_list (map (\<lambda>l. w (snd l)) located) = sum_list (map w (takeWhile ?P fs)) + sum_list (map (\<lambda>l. w (snd l)) more)"
    using arg_cong [OF loc, of "\<lambda>xs. sum_list (map w xs)"] by (simp add: comp_def)
  then show ?case using 2(1) [OF refl refl refl r] sum_takeWhile_dropWhile [of w ?P fs] by simp
qed simp

lemma sum_sort_key: "sum_list (map w (sort_key k xs)) = (sum_list (map w xs) :: nat)"
proof -
  have "sum_list (map w (sort_key k xs)) = sum_mset (mset (map w (sort_key k xs)))" by (rule sum_mset_sum_list [symmetric])
  also have "\<dots> = sum_mset (mset (map w xs))" by (simp only: mset_map mset_sort)
  finally show ?thesis by (simp only: sum_mset_sum_list)
qed

text \<open>What is paid to receivers, together with what returns from the fee, is all that is pending.\<close>

lemma placed_pending:
  assumes "sink txid 0 0 outs fs = (located, left, v)" "settle_miner B tx value_in v located left st = (moved, st')"
    "outgoing = map (\<lambda>(sp, f). (sp, fl_id f)) moved"
  shows "sum_list (map (\<lambda>l. pending unused t (snd l)) outgoing) +
      (if is_coinbase B tx then 0 else sum_list (map (\<lambda>f. pending unused t (fl_id f)) left)) =
    sum_list (map (\<lambda>f. pending unused t (fl_id f)) fs)"
proof -
  have "sum_list (map (\<lambda>l. pending unused t (snd l)) outgoing) = sum_list (map (\<lambda>l. pending unused t (fl_id (snd l))) moved)"
    by (simp add: assms(3) comp_def case_prod_beta)
  moreover have "sum_list (map (\<lambda>l. pending unused t (fl_id (snd l))) moved) =
      sum_list (map (\<lambda>l. pending unused t (fl_id (snd l))) located) +
      (if is_coinbase B tx then sum_list (map (\<lambda>f. pending unused t (fl_id f)) left) else 0)"
    using assms(2) by (auto simp: settle_miner_def Let_def lost_location_def comp_def split: if_splits)
  ultimately show ?thesis using sink_sum [OF assms(1), of "\<lambda>f. pending unused t (fl_id f)"] by simp
qed

section \<open>Conservation\<close>

text \<open>The identifier a newly completed inscription would get.\<close>

definition origin_id :: "InscriptionDb \<Rightarrow> Transaction \<Rightarrow> bytes \<Rightarrow> InscriptionId" where
  "origin_id db tx txid =
     \<lparr>ii_txid = take 32 ((case tx_input tx of [] \<Rightarrow> [] | i # _ \<Rightarrow>
        (case id_partial_txids db (op_txid (ti_previous_output i)) of None \<Rightarrow> [] | Some t \<Rightarrow> t)) @ txid), ii_index = 0\<rparr>"

definition ledger_same :: "InscriptionDb \<Rightarrow> InscriptionDb \<Rightarrow> bool" where
  "ledger_same db db' \<longleftrightarrow> id_terms db' = id_terms db \<and> id_supply db' = id_supply db \<and> id_balances db' = id_balances db"

lemma find_inscription_cases:
  assumes "find_inscription B T db tx txid fee counters = Inr found"
  shows "(\<exists>ts txs. found = found_nothing (db\<lparr>id_partial_txids := ts, id_partial_txs := txs\<rparr>)) \<or>
    (\<exists>txids inscription. found = found_complete T db txids txid fee counters inscription \<and>
      \<lparr>ii_txid = take 32 (txids @ txid), ii_index = 0\<rparr> = origin_id db tx txid)"
proof (cases "tx_input tx")
  case (Cons first rest)
  let ?previous = "id_partial_txids db (op_txid (ti_previous_output first))"
  let ?txids = "case ?previous of None \<Rightarrow> [] | Some t \<Rightarrow> t"
  let ?then = "\<lambda>p. case p of
      None \<Rightarrow> Inl Panicked
    | Some NoInscription \<Rightarrow> Inr (found_nothing db)
    | Some Partial \<Rightarrow> Inr (found_nothing (db\<lparr>
        id_partial_txids := (id_partial_txids db)(txid \<mapsto> ?txids @ txid),
        id_partial_txs := (id_partial_txs db)(txid \<mapsto> bc_encode_tx B tx)\<rparr>))
    | Some (Complete inscription) \<Rightarrow> Inr (found_complete T db ?txids txid fee counters inscription)"
  obtain txs where run: "?then (from_transactions (txs @ [tx])) = Inr found"
    using assms Cons by (auto simp: find_inscription_def and_then_Inr_iff Let_def)
  have id: "origin_id db tx txid = \<lparr>ii_txid = take 32 (?txids @ txid), ii_index = 0\<rparr>" by (simp add: origin_id_def Cons)
  obtain p where p: "from_transactions (txs @ [tx]) = Some p" using run by (cases "from_transactions (txs @ [tx])") auto
  show ?thesis
  proof (cases p)
    case (Complete inscription)
    then show ?thesis using run p id by auto
  next
    case NoInscription
    then have "found = found_nothing db" using run p by simp
    then have "\<exists>ts txs. found = found_nothing (db\<lparr>id_partial_txids := ts, id_partial_txs := txs\<rparr>)"
      by (intro exI [of _ "id_partial_txids db"] exI [of _ "id_partial_txs db"]) simp
    then show ?thesis ..
  next
    case Partial
    then show ?thesis using run p by auto
  qed
qed (use assms in \<open>simp add: find_inscription_def\<close>)

lemma found_nothing_shape [simp]:
  "fo_db (found_nothing db) = db" "fo_messages (found_nothing db) = []" "fo_flotsam (found_nothing db) = []"
  by (simp_all add: found_nothing_def)

lemma find_inscription_shape:
  assumes "find_inscription B T db tx txid fee counters = Inr found"
  shows "ledger_same db (fo_db found)" "distinct (map fst (fo_messages found))"
    "fl_id ` set (fo_flotsam found) \<subseteq> {origin_id db tx txid}"
  using find_inscription_cases [OF assms]
  by (auto simp: ledger_same_def found_complete_def Let_def split: option.splits)

text \<open>The inscriptions of a transaction are different ones: those it spends, those of the miner, the new one.\<close>

definition ids_distinct :: "BitcoinCrate \<Rightarrow> (TxoRef \<rightharpoonup> TxoBody) \<Rightarrow> Transaction \<Rightarrow> bytes \<Rightarrow> InscriptionState \<Rightarrow> InscriptionDb \<Rightarrow> bool" where
  "ids_distinct B resolver tx txid st db \<longleftrightarrow>
     (let ids = spent_ids (input_bodies B resolver (tx_input tx)) in
      distinct ids \<and> origin_id db tx txid \<notin> set ids \<and> fl_id ` set (st_cb st) \<inter> set ids = {})"

lemma pending_outside: "pending_known s \<Longrightarrow> i \<notin> fl_id ` set (fst s) \<Longrightarrow> pending (snd s) t i = 0"
  by (auto simp: pending_known_def pending_def dom_def subset_iff split: option.split)

lemma floats_pending:
  assumes "pending_known s" "map fl_id (fst s) = ids" "\<forall>f\<in>set (fo_flotsam found) \<union> set (st_cb st). fl_id f \<notin> set ids"
  shows "sum_list (map (\<lambda>f. pending (snd s) t (fl_id f)) (floats B tx st (fst s @ fo_flotsam found))) = floating_pending s t"
proof -
  have "pending (snd s) t (fl_id f) = 0" if "f \<in> set (fo_flotsam found) \<union> set (st_cb st)" for f
    using that assms by (intro pending_outside) (auto simp flip: set_map)
  then show ?thesis unfolding floats_def sum_sort_key by (simp add: floating_pending_def)
qed

text \<open>Paying and processing messages on a ledger that covers what is spent.\<close>

lemma move_inscriptions_ledger:
  assumes run: "move_inscriptions B T tx txid value_in old unused found st = Inr (r, st', db')"
    and fin: "finite (dom (id_balances (fo_db found)))" and ok: "supply_ok (fo_db found)"
    and cover: "\<And>t. bal_sum (id_balances (fo_db found)) t +
      sum_list (map (\<lambda>f. pending unused t (fl_id f)) (floats B tx st (old @ fo_flotsam found))) \<le> supply_of (fo_db found) t"
    and ids: "distinct (map fst (fo_messages found))"
  shows "finite (dom (id_balances db')) \<and> supply_ok db' \<and> (\<forall>t. supply_of (fo_db found) t \<le> supply_of db' t \<and>
    bal_sum (id_balances db') t + bound_in (ix_new_unused r) t + supply_of (fo_db found) t =
    bal_sum (id_balances (fo_db found)) t +
      sum_list (map (\<lambda>f. pending unused t (fl_id f)) (floats B tx st (old @ fo_flotsam found))) + supply_of db' t)"
proof -
  let ?db = "fo_db found" and ?fs = "floats B tx st (old @ fo_flotsam found)"
  obtain located left v where sk: "sink txid 0 0 (tx_output tx) ?fs = (located, left, v)" by (cases "sink txid 0 0 (tx_output tx) ?fs") auto
  obtain moved st2 where sm: "settle_miner B tx value_in v located left st = (moved, st2)" by (cases "settle_miner B tx value_in v located left st")
  let ?out = "map (\<lambda>(sp, f). (sp, fl_id f)) moved"
  let ?paid = "if is_coinbase B tx then (?db, []) else return_fees unused left (?db, [])"
  obtain scripts db1 log l where pr: "pay_receivers B txid (tx_output tx) unused ?out Map.empty ?paid = Inr (scripts, db1, log)"
    and pm: "process_messages T scripts (fo_messages found) \<lparr>lg_db = db1, lg_log = log, lg_transfers = []\<rparr> = Inr l"
    and db': "db' = lg_db l" "ix_new_unused r = lg_transfers l"
    using run sk sm by (auto simp: move_inscriptions_def Let_def and_then_Inr_iff)
  note parts = placed_pending [OF sk sm refl, of unused]
  let ?fee = "\<lambda>t. if is_coinbase B tx then 0 else sum_list (map (\<lambda>f. pending unused t (fl_id f)) left)"
  let ?rec = "\<lambda>t. sum_list (map (\<lambda>l. pending unused t (snd l)) ?out)"
  have top: "bal_sum (id_balances ?db) t + ?rec t + ?fee t < 2 ^ 128" for t
  proof -
    have "supply_of ?db t < 2 ^ 128" using unsigned_less [of "or_zero (id_supply ?db t)", where ?'a = nat] by (simp add: supply_of_def)
    then show ?thesis using cover [of t] parts [of t] by linarith
  qed
  have fees: "paid_out ?db (fst ?paid) ?fee"
  proof (cases "is_coinbase B tx")
    case False
    have "bal_sum (id_balances (fst (?db, []))) t + sum_list (map (\<lambda>f. pending unused t (fl_id f)) left) < 2 ^ 128" for t
      using top [of t] False by simp
    from return_fees_out [OF _ this] fin False show ?thesis by simp
  qed (simp add: paid_out_refl fin)
  have "bal_sum (id_balances (fst ?paid)) t + ?rec t < 2 ^ 128" for t using top [of t] fees by (simp add: paid_out_def)
  from pay_receivers_out [OF _ this pr] fees have "paid_out (fst ?paid) db1 ?rec" by (simp add: paid_out_def)
  from paid_out_trans [OF fees this] have out: "paid_out ?db db1 (\<lambda>t. ?fee t + ?rec t)" .
  then have bal: "bal_sum (id_balances db1) t = bal_sum (id_balances ?db) t + sum_list (map (\<lambda>f. pending unused t (fl_id f)) ?fs)" for t
    using parts [of t] by (simp add: paid_out_def)
  have same: "supply_of db1 t = supply_of ?db t" for t using out by (simp add: paid_out_def supply_of_def)
  let ?l = "\<lparr>lg_db = db1, lg_log = log, lg_transfers = []\<rparr>"
  have "ledger_step ?l l"
  proof (rule process_messages_step [OF pm])
    show "finite (dom (id_balances (lg_db ?l)))" using out by (simp add: paid_out_def)
    show "supply_ok (lg_db ?l)" using out ok same by (simp add: supply_ok_def paid_out_def)
    show "in_circulation ?l t \<le> supply_of (lg_db ?l) t" for t
      using bal [of t] cover [of t] same [of t] by (simp add: in_circulation_def bound_in_def)
  qed (use ids in simp_all)
  then show ?thesis using bal same db' by (simp add: ledger_step_def in_circulation_def bound_in_def)
qed

text \<open>The ledger before a transaction covers balances and the transfers it spends.\<close>

definition ledger_inv :: "InscriptionDb \<Rightarrow> (bytes \<Rightarrow> nat) \<Rightarrow> bool" where
  "ledger_inv db w \<longleftrightarrow> finite (dom (id_balances db)) \<and> supply_ok db \<and>
     (\<forall>t. bal_sum (id_balances db) t + w t \<le> supply_of db t)"

lemma index_inscriptions_ledger:
  assumes run: "index_inscriptions B T resolver height tx txid st db = Inr (r, st', db')"
    and inv: "ledger_inv db (spent_bound (input_bodies B resolver (tx_input tx)))"
    and ids: "ids_distinct B resolver tx txid st db"
  shows "finite (dom (id_balances db')) \<and> supply_ok db' \<and> (\<forall>t. supply_of db t \<le> supply_of db' t \<and>
    bal_sum (id_balances db') t + bound_in (ix_new_unused r) t + supply_of db t =
    bal_sum (id_balances db) t + spent_bound (input_bodies B resolver (tx_input tx)) t + supply_of db' t)"
proof -
  let ?bodies = "input_bodies B resolver (tx_input tx)"
  obtain old unused v where fl: "float_inputs B resolver height (tx_input tx) 0 ([], Map.empty) = Inr ((old, unused), v)"
    using run by (auto simp: index_inscriptions_def and_then_Inr_iff)
  let ?find = "if list_all (\<lambda>f. fl_offset f \<noteq> 0) old
    then find_inscription B T db tx txid (v - sum_list (map to_value (tx_output tx))) (st_counters st) else Inr (found_nothing db)"
  obtain found where found: "?find = Inr found" and mv: "move_inscriptions B T tx txid v old unused found st = Inr (r, st', db')"
    using run fl unfolding index_inscriptions_def by (auto simp only: and_then.simps and_then_Inr_iff case_prod_conv)
  have fo: "found = found_nothing db \<or> (\<exists>fee c. find_inscription B T db tx txid fee c = Inr found)"
    using found by (auto split: if_splits)
  have shapes: "ledger_same db (fo_db found) \<and> distinct (map fst (fo_messages found)) \<and>
      fl_id ` set (fo_flotsam found) \<subseteq> {origin_id db tx txid}"
    using fo
  proof (elim disjE exE)
    fix fee c assume "find_inscription B T db tx txid fee c = Inr found"
    from find_inscription_shape [OF this] show ?thesis by blast
  qed (simp add: ledger_same_def)
  then have shape: "ledger_same db (fo_db found)" "distinct (map fst (fo_messages found))"
    "fl_id ` set (fo_flotsam found) \<subseteq> {origin_id db tx txid}" by blast+
  have known: "pending_known (old, unused) \<and> map fl_id old = spent_ids ?bodies \<and>
      floating_pending (old, unused) t = spent_bound ?bodies t" for t
    using float_inputs_pending [OF _ _ fl, of t] ids
    by (simp add: pending_known_def ids_distinct_def Let_def floating_pending_def)
  have "\<forall>f\<in>set (fo_flotsam found) \<union> set (st_cb st). fl_id f \<notin> set (spent_ids ?bodies)"
    using shape(3) ids by (auto simp: ids_distinct_def Let_def)
  then have fp: "sum_list (map (\<lambda>f. pending unused t (fl_id f)) (floats B tx st (old @ fo_flotsam found))) = spent_bound ?bodies t" for t
    using floats_pending [of "(old, unused)" "spent_ids ?bodies" found st t] known by simp
  have eq: "id_balances (fo_db found) = id_balances db" "supply_of (fo_db found) = supply_of db" "supply_ok (fo_db found) = supply_ok db"
    using shape(1) by (simp_all add: ledger_same_def supply_of_def supply_ok_def fun_eq_iff)
  have "bal_sum (id_balances (fo_db found)) t +
      sum_list (map (\<lambda>f. pending unused t (fl_id f)) (floats B tx st (old @ fo_flotsam found))) \<le> supply_of (fo_db found) t" for t
    using inv by (simp add: fp eq ledger_inv_def)
  from move_inscriptions_ledger [OF mv _ _ this shape(2)] inv show ?thesis by (simp add: fp eq ledger_inv_def)
qed

text \<open>An example: a transfer inscription of 5 moves with its satoshi to the first output.\<close>

definition doge :: bytes where "doge = [100, 111, 103, 101]"

definition demo_id :: InscriptionId where "demo_id = \<lparr>ii_txid = [9], ii_index = 0\<rparr>"

definition demo_spent :: TxoBody where
  "demo_spent = \<lparr>tb_height = 1, tb_raw = [10, 0, 0, 0, 0, 0, 0, 0, 1], tb_ord_ranges = [], tb_dunes = [],
     tb_inscriptions = [(0, demo_id)], tb_unused_brc20_transfers = [(demo_id, doge, 5)]\<rparr>"

definition demo_move :: Transaction where
  "demo_move = \<lparr>tx_input = [\<lparr>ti_previous_output = \<lparr>op_txid = [7], op_vout = 0\<rparr>, ti_script_sig = []\<rparr>],
     tx_output = [\<lparr>to_value = 10, to_script_pubkey = [2]\<rparr>]\<rparr>"

definition demo_ledger :: InscriptionDb where
  "demo_ledger = \<lparr>id_partial_txids = Map.empty, id_partial_txs = Map.empty,
     id_terms = [doge \<mapsto> \<lparr>bt_max = 100, bt_mint_amt_limit = 10, bt_dec = 18, bt_self_mint = False, bt_deploy_id = demo_id\<rparr>],
     id_supply = [doge \<mapsto> 5], id_balances = Map.empty\<rparr>"

definition demo_state :: InscriptionState where
  "demo_state = \<lparr>st_counters = \<lparr>ct_cursed = 0, ct_blessed = 1, ct_next_sequence = 1, ct_lost_sats = 0, ct_unbound = 0\<rparr>,
     st_reward = 0, st_cb = [], st_new = []\<rparr>"

definition demo_text :: TextCrate where
  "demo_text = \<lparr>tc_json = (\<lambda>b. None), tc_to_lowercase = (\<lambda>s. s)\<rparr>"

lemma demo_txout: "bc_decode_txout demo_crate [10, 0, 0, 0, 0, 0, 0, 0, 1] = Some \<lparr>to_value = 10, to_script_pubkey = [1]\<rparr>"
  by code_simp

lemma demo_crate_simps:
  "bc_is_null demo_crate o1 = (op_txid o1 = [])" "bc_script_hash demo_crate s = s"
  by (simp_all add: demo_crate_def)

lemma demo_moves:
  "index_inscriptions demo_crate demo_text [([7], 0) \<mapsto> demo_spent] 9 demo_move [8] demo_state demo_ledger =
   Inr (\<lparr>ix_output_inscriptions = [[(0, demo_id)]], ix_lost_or_unbound = [], ix_valid_reinscriptions = [],
         ix_brc20_resolver = [(demo_id, Transfer doge 5 \<lparr>op_txid = [7], op_vout = 0\<rparr> [2])], ix_new_unused = []\<rparr>,
     demo_state, demo_ledger\<lparr>id_balances := [([2], doge) \<mapsto> 5]\<rparr>)"
  by (simp add: index_inscriptions_def move_inscriptions_def demo_move_def demo_spent_def demo_txout demo_crate_simps
      txo_ref_def found_nothing_def floats_def is_coinbase_def settle_miner_def update_inscription_location_def
      demo_state_def script_of_def pay_def credit_def demo_ledger_def group_outputs_def Let_def)

lemma demo_ledger_inv:
  "ledger_inv demo_ledger (spent_bound (input_bodies demo_crate [([7], 0) \<mapsto> demo_spent] (tx_input demo_move)))"
  "ids_distinct demo_crate [([7], 0) \<mapsto> demo_spent] demo_move [8] demo_state demo_ledger"
  by (simp_all add: ledger_inv_def supply_ok_def supply_of_def bal_sum_def spent_bound_def body_bound_def ids_distinct_def
      spent_ids_def origin_id_def demo_ledger_def demo_move_def demo_spent_def demo_crate_simps demo_state_def demo_id_def txo_ref_def doge_def)

text \<open>
  C3. The drc-20 ledger conserves every ticker: whatever a transaction does, the balances
  afterwards together with the transfers newly bound in its outputs are the balances before
  together with the transfers bound in the outputs it spends, plus exactly what the supply grew by
  minting; the supply never falls and stays within the maximum of the deployed terms. The
  hypotheses are that the ledger covers balances and spent transfers by the supply (which the
  equation re-establishes) and that the inscriptions involved have different identifiers.
\<close>

theorem brc20_conserved:
  assumes "index_inscriptions B T resolver height tx txid st db = Inr (r, st', db')"
    and "ledger_inv db (spent_bound (input_bodies B resolver (tx_input tx)))"
    and "ids_distinct B resolver tx txid st db"
  shows "supply_ok db' \<and> (\<forall>t. supply_of db t \<le> supply_of db' t \<and>
    bal_sum (id_balances db') t + bound_in (ix_new_unused r) t + supply_of db t =
    bal_sum (id_balances db) t + spent_bound (input_bodies B resolver (tx_input tx)) t + supply_of db' t)"
  using index_inscriptions_ledger [OF assms] by blast

theorem brc20_conserved_witness:
  "bal_sum [([2], doge) \<mapsto> 5] doge = 5"
  using brc20_conserved [OF demo_moves demo_ledger_inv, THEN conjunct2, rule_format, of doge]
  by (simp add: spent_bound_def body_bound_def bound_in_def supply_of_def bal_sum_def demo_ledger_def demo_move_def demo_spent_def
      demo_crate_simps txo_ref_def)

section \<open>Identifiers that coincide\<close>

text \<open>
  Every transaction whose first input spends an output of the same partial inscription would
  complete it under the same identifier; the identifier does not depend on the transaction.
\<close>

lemma completions_share_id:
  assumes "tx_input tx = i # is" "tx_input tx' = i' # is'" "op_txid (ti_previous_output i) = op_txid (ti_previous_output i')"
    "id_partial_txids db (op_txid (ti_previous_output i)) = Some txids" "32 \<le> length txids"
  shows "origin_id db tx txid = origin_id db tx' txid'"
  using assms by (simp add: origin_id_def)

definition demo_twice :: "u128 \<Rightarrow> TxoBody" where
  "demo_twice amt = demo_spent\<lparr>tb_inscriptions := [(0, demo_id)], tb_unused_brc20_transfers := [(demo_id, doge, amt)]\<rparr>"

definition demo_merge :: Transaction where
  "demo_merge = \<lparr>tx_input = [\<lparr>ti_previous_output = \<lparr>op_txid = [7], op_vout = 0\<rparr>, ti_script_sig = []\<rparr>,
      \<lparr>ti_previous_output = \<lparr>op_txid = [7], op_vout = 1\<rparr>, ti_script_sig = []\<rparr>],
     tx_output = [\<lparr>to_value = 20, to_script_pubkey = [2]\<rparr>]\<rparr>"

text \<open>
  Without the hypothesis on identifiers the ledger is not conserved: spending transfers of 1 and of
  4 under one identifier pays 4 twice.
\<close>

theorem shared_id_inflates:
  "spent_bound [demo_twice 1, demo_twice 4] doge = 5 \<and>
   (case index_inscriptions demo_crate demo_text [([7], 0) \<mapsto> demo_twice 1, ([7], 1) \<mapsto> demo_twice 4] 9 demo_merge [8]
      demo_state demo_ledger of
      Inl _ \<Rightarrow> False | Inr (_, _, db) \<Rightarrow> id_balances db = [([2], doge) \<mapsto> 8])"
  by (simp add: index_inscriptions_def move_inscriptions_def demo_merge_def demo_twice_def demo_spent_def demo_txout demo_crate_simps
      txo_ref_def found_nothing_def floats_def is_coinbase_def settle_miner_def update_inscription_location_def
      demo_state_def script_of_def pay_def credit_def demo_ledger_def group_outputs_def spent_bound_def body_bound_def Let_def)

end
