(* ===== verification/Brc20_Rollback.thy ===== *)
theory Brc20_Rollback
  imports Brc20_Ledger
begin

text \<open>
  The undo of drc-20 actions in \<open>ChainDB::rollback\<close> (\<open>storage/mod.rs\<close>): the actions recorded for
  a block are taken back in reverse order.
\<close>

section \<open>Undo\<close>

definition debit :: "bytes \<Rightarrow> bytes \<Rightarrow> u128 \<Rightarrow> InscriptionDb \<Rightarrow> InscriptionDb" where
  "debit script tick amt db =
     db\<lparr>id_balances := (id_balances db)((script, tick) \<mapsto> or_zero (id_balances db (script, tick)) - amt)\<rparr>"

fun undo_action :: "BRC20Message \<Rightarrow> InscriptionDb \<Rightarrow> InscriptionDb" where
  "undo_action (Deploy tick) db = db\<lparr>id_terms := (id_terms db)(tick := None)\<rparr>"
| "undo_action (Mint tick amt receiver) db =
     debit receiver tick amt (db\<lparr>id_supply := (id_supply db)(tick \<mapsto> or_zero (id_supply db tick) - amt)\<rparr>)"
| "undo_action (Transfer tick amt _ receiver) db = debit receiver tick amt db"
| "undo_action (TransferInit tick amt receiver) db = credit receiver tick amt db"

definition undo_brc20 :: "brc20_log \<Rightarrow> InscriptionDb \<Rightarrow> InscriptionDb" where
  "undo_brc20 log db = fold (\<lambda>(_, action). undo_action action) (rev log) db"

section \<open>The ledger as a function\<close>

text \<open>Two databases agree on terms, supplies and balances, where no entry counts as zero.\<close>

definition ledger_equiv :: "InscriptionDb \<Rightarrow> InscriptionDb \<Rightarrow> bool" where
  "ledger_equiv a b \<longleftrightarrow> id_terms a = id_terms b \<and> (\<forall>t. or_zero (id_supply a t) = or_zero (id_supply b t)) \<and>
     (\<forall>k. or_zero (id_balances a k) = or_zero (id_balances b k))"

lemma ledger_equiv_refl: "ledger_equiv a a"
  by (simp add: ledger_equiv_def)

lemma ledger_equiv_trans: "ledger_equiv a b \<Longrightarrow> ledger_equiv b c \<Longrightarrow> ledger_equiv a c"
  by (simp add: ledger_equiv_def)

lemma undo_action_cong: "ledger_equiv a b \<Longrightarrow> ledger_equiv (undo_action m a) (undo_action m b)"
  by (cases m) (auto simp: ledger_equiv_def debit_def credit_def)

lemma undo_brc20_cong: "ledger_equiv a b \<Longrightarrow> ledger_equiv (undo_brc20 log a) (undo_brc20 log b)"
proof (induction log arbitrary: a b rule: rev_induct)
  case (snoc m log)
  then show ?case using undo_action_cong [of a b "snd m"] by (simp add: undo_brc20_def case_prod_beta)
qed (simp add: undo_brc20_def)

lemma undo_brc20_append: "undo_brc20 (xs @ ys) db = undo_brc20 xs (undo_brc20 ys db)"
  by (simp add: undo_brc20_def)

text \<open>A log records the way from one database to another.\<close>

definition logged :: "InscriptionDb \<Rightarrow> InscriptionDb \<times> brc20_log \<Rightarrow> bool" where
  "logged db s \<longleftrightarrow> ledger_equiv (undo_brc20 (snd s) (fst s)) db"

lemma logged_step:
  assumes "logged db (db1, log)" "ledger_equiv (undo_action m db2) db1"
  shows "logged db (db2, log @ [(i, m)])"
proof -
  have "ledger_equiv (undo_brc20 log (undo_action m db2)) (undo_brc20 log db1)"
    using assms(2) by (rule undo_brc20_cong)
  then show ?thesis using assms(1) ledger_equiv_trans by (auto simp: logged_def undo_brc20_append [of log] undo_brc20_def)
qed

lemma pay_logged: "logged db s \<Longrightarrow> logged db (pay i p receiver s)"
proof -
  assume "logged db s"
  then have "logged db (fst s, snd s)" by simp
  from logged_step [OF this, of "Transfer (pt_tick p) (pt_amt p) (sp_outpoint (pt_point p)) receiver"
      "credit receiver (pt_tick p) (pt_amt p) (fst s)" i]
  show ?thesis by (auto simp: pay_def ledger_equiv_def debit_def credit_def)
qed

lemma return_fees_logged: "logged db s \<Longrightarrow> logged db (return_fees unused fs s)"
  by (induction unused fs s rule: return_fees.induct) (auto simp: pay_logged split: option.splits)

lemma pay_receivers_logged:
  "logged db s \<Longrightarrow> pay_receivers B txid outs unused ls scripts s = Inr (scripts', s') \<Longrightarrow> logged db s'"
proof (induction ls arbitrary: scripts s)
  case (Cons l ls)
  obtain sp i where l: "l = (sp, i)" by (cases l)
  from Cons.prems(2) [unfolded l] show ?case
  proof (cases rule: pay_receivers_next)
    case (1 scr s2)
    then have "logged db s2" using Cons.prems(1) pay_logged by blast
    then show ?thesis using Cons.IH 1(1) by blast
  qed
qed simp

section \<open>Messages\<close>

definition ledger_logged :: "InscriptionDb \<Rightarrow> Ledger \<Rightarrow> bool" where
  "ledger_logged db l \<longleftrightarrow> logged db (lg_db l, lg_log l)"

lemma deploy_logged:
  assumes "ledger_logged db l" "terms = id_terms (lg_db l) (dp_ticker d)"
  shows "ledger_logged db (deploy_message i terms d l)"
proof (cases terms)
  case None
  let ?db = "lg_db (deploy_message i terms d l)"
  have "ledger_equiv (undo_action (Deploy (dp_ticker d)) ?db) (lg_db l)"
    using assms(2) None by (auto simp: ledger_equiv_def deploy_message_def)
  from logged_step [OF assms(1) [unfolded ledger_logged_def] this, of i] show ?thesis
    using None by (simp add: ledger_logged_def deploy_message_def)
qed (simp add: deploy_message_def assms(1))

lemma mint_logged:
  assumes "ledger_logged db l"
  shows "ledger_logged db (mint_message scripts i terms m l)"
proof (cases "scripts i = None \<or> or_zero (id_supply (lg_db l) (mi_ticker m)) = bt_max terms")
  case True
  then show ?thesis using assms by (auto simp: mint_message_def Let_def split: option.split)
next
  case False
  then obtain receiver where r: "scripts i = Some receiver" by auto
  let ?amt = "min (mi_amt m) (bt_max terms - or_zero (id_supply (lg_db l) (mi_ticker m)))"
  let ?l = "mint_message scripts i terms m l"
  have "ledger_equiv (undo_action (Mint (mi_ticker m) ?amt receiver) (lg_db ?l)) (lg_db l)"
    using False r by (auto simp: ledger_equiv_def mint_message_def debit_def credit_def Let_def)
  from logged_step [OF assms [unfolded ledger_logged_def] this, of i] show ?thesis
    using False r by (simp add: ledger_logged_def mint_message_def Let_def)
qed

lemma transfer_logged:
  assumes "ledger_logged db l"
  shows "ledger_logged db (transfer_message scripts i t l)"
proof (cases "\<exists>receiver old. scripts i = Some receiver \<and> id_balances (lg_db l) (receiver, tr_ticker t) = Some old \<and> tr_amt t \<le> old")
  case False
  then have "transfer_message scripts i t l = l"
    by (auto simp: transfer_message_def Let_def not_less split: option.split)
  then show ?thesis using assms by simp
next
  case True
  then obtain receiver old where r: "scripts i = Some receiver" "id_balances (lg_db l) (receiver, tr_ticker t) = Some old"
    "\<not> old < tr_amt t" using leD by blast
  let ?l = "transfer_message scripts i t l"
  have "ledger_equiv (undo_action (TransferInit (tr_ticker t) (tr_amt t) receiver) (lg_db ?l)) (lg_db l)"
    using r by (auto simp: ledger_equiv_def transfer_message_def credit_def Let_def)
  from logged_step [OF assms [unfolded ledger_logged_def] this, of i] show ?thesis
    using r by (simp add: ledger_logged_def transfer_message_def Let_def)
qed

lemma process_messages_logged:
  "ledger_logged db l \<Longrightarrow> process_messages T scripts ms l = Inr l' \<Longrightarrow> ledger_logged db l'"
proof (induction ms arbitrary: l)
  case (Cons m ms)
  obtain i raw where m: "m = (i, raw)" by (cases m)
  have "\<exists>l1. process_messages T scripts ms l1 = Inr l' \<and> ledger_logged db l1"
    using Cons.prems deploy_logged [OF Cons.prems(1) arg_cong [OF message_tickers(1) [symmetric], of T raw _ "id_terms (lg_db l)"]]
      mint_logged [OF Cons.prems(1)] transfer_logged [OF Cons.prems(1)]
    by (auto simp: m Let_def split: option.splits)
  then show ?case using Cons.IH by blast
qed simp

lemma index_inscriptions_logged:
  assumes "index_inscriptions B T resolver height tx txid st db = Inr (r, st', db')"
  shows "ledger_equiv (undo_brc20 (ix_brc20_resolver r) db') db"
proof -
  obtain old unused v where fl: "float_inputs B resolver height (tx_input tx) 0 ([], Map.empty) = Inr ((old, unused), v)"
    using assms by (auto simp: index_inscriptions_def and_then_Inr_iff)
  let ?find = "if list_all (\<lambda>f. fl_offset f \<noteq> 0) old
    then find_inscription B T db tx txid (v - sum_list (map to_value (tx_output tx))) (st_counters st) else Inr (found_nothing db)"
  obtain found where found: "?find = Inr found" and mv: "move_inscriptions B T tx txid v old unused found st = Inr (r, st', db')"
    using assms fl unfolding index_inscriptions_def by (auto simp only: and_then.simps and_then_Inr_iff case_prod_conv)
  have "ledger_same db (fo_db found)"
    using found find_inscription_shape(1) by (auto simp: ledger_same_def split: if_splits)
  then have "logged db (fo_db found, [])" by (simp add: logged_def undo_brc20_def ledger_equiv_def ledger_same_def)
  then have paid: "logged db (if is_coinbase B tx then (fo_db found, []) else return_fees unused left (fo_db found, []))" for left
    using return_fees_logged by simp
  obtain located left w where sk: "sink txid 0 0 (tx_output tx) (floats B tx st (old @ fo_flotsam found)) = (located, left, w)"
    by (cases "sink txid 0 0 (tx_output tx) (floats B tx st (old @ fo_flotsam found))") auto
  obtain moved st2 where sm: "settle_miner B tx v w located left st = (moved, st2)" by (cases "settle_miner B tx v w located left st")
  obtain scripts db1 log l where pr: "pay_receivers B txid (tx_output tx) unused (map (\<lambda>(sp, f). (sp, fl_id f)) moved) Map.empty
      (if is_coinbase B tx then (fo_db found, []) else return_fees unused left (fo_db found, [])) = Inr (scripts, db1, log)"
    and pm: "process_messages T scripts (fo_messages found) \<lparr>lg_db = db1, lg_log = log, lg_transfers = []\<rparr> = Inr l"
    and r: "db' = lg_db l" "ix_brc20_resolver r = lg_log l"
    using mv sk sm by (auto simp: move_inscriptions_def Let_def and_then_Inr_iff)
  have "ledger_logged db \<lparr>lg_db = db1, lg_log = log, lg_transfers = []\<rparr>"
    using pay_receivers_logged [OF paid pr] by (simp add: ledger_logged_def)
  from process_messages_logged [OF this pm] show ?thesis by (simp add: ledger_logged_def logged_def r)
qed

text \<open>
  C23. Rolling back restores the drc-20 ledger: taking back, in reverse order, the actions that a
  transaction recorded gives the terms, the supplies and the balances from before it, whatever the
  transaction deployed, minted, bound or transferred.
\<close>

theorem brc20_rollback_restores:
  assumes "index_inscriptions B T resolver height tx txid st db = Inr (r, st', db')"
  shows "ledger_equiv (undo_brc20 (ix_brc20_resolver r) db') db"
  using assms by (rule index_inscriptions_logged)

theorem brc20_rollback_restores_witness:
  "ledger_equiv (undo_brc20 [(demo_id, Transfer doge 5 \<lparr>op_txid = [7], op_vout = 0\<rparr> [2])]
     (demo_ledger\<lparr>id_balances := [([2], doge) \<mapsto> 5]\<rparr>)) demo_ledger"
  using brc20_rollback_restores [OF demo_moves] by simp

end
