(* ===== verification/Ordinal_Ranges.thy ===== *)
theory Ordinal_Ranges
  imports Bitcoin_Types
begin

text \<open>
  Ranges of ordinals (\<open>ordinals.rs\<close>): inclusive ranges, their split, and the queue of ranges from
  which an output takes its satoshis. A range denotes the list of its ordinals; the laws of \<open>take\<close>
  are stated on these lists.
\<close>

section \<open>Ranges\<close>

datatype OrdError =
    InvalidRange u64 u64
  | InvalidSplit OrdinalRange u64
  | InvalidTake "OrdinalRange list" u64

definition range_new :: "u64 \<Rightarrow> u64 \<Rightarrow> OrdError + OrdinalRange" where
  "range_new lower upper =
     (if upper < lower then Inl (InvalidRange lower upper) else Inr \<lparr>or_lower = lower, or_upper = upper\<rparr>)"

definition range_size :: "OrdinalRange \<Rightarrow> u64" where
  "range_size r = or_upper r + 1 - or_lower r"

definition range_split :: "OrdinalRange \<Rightarrow> u64 \<Rightarrow> OrdError + OrdinalRange \<times> OrdinalRange" where
  "range_split r sz =
     (if sz = 0 \<or> sz \<ge> range_size r then Inl (InvalidSplit r sz)
      else and_then (range_new (or_lower r) (or_lower r + sz - 1)) (\<lambda>left.
           and_then (range_new (or_lower r + sz) (or_upper r)) (\<lambda>right.
             Inr (left, right))))"

text \<open>The amount of a shift counts modulo the width, as in a release build.\<close>

definition subsidy :: "u64 \<Rightarrow> u64" where
  "subsidy height = drop_bit (unat (height div 210000) mod 64) (50 * 100000000)"

fun first_ordinal :: "nat \<Rightarrow> u64" where
  "first_ordinal 0 = 0"
| "first_ordinal (Suc h) = first_ordinal h + subsidy (word_of_nat h)"

definition new_coinbase_ords :: "u64 \<Rightarrow> OrdError + OrdinalRange" where
  "new_coinbase_ords height =
     range_new (first_ordinal (unat height)) (first_ordinal (unat height) + subsidy height - 1)"

section \<open>The queue\<close>

text \<open>The loop of \<open>take\<close>: what is still required, the queue, and what was taken.\<close>

fun take_loop :: "u64 \<Rightarrow> u64 \<Rightarrow> OrdinalRange list \<Rightarrow> OrdinalRange list \<Rightarrow>
    (OrdError + OrdinalRange list) \<times> OrdinalRange list" where
  "take_loop sz require [] out =
     (if require > 0 then (Inl (InvalidTake [] sz), []) else (Inr out, []))"
| "take_loop sz require (front # rs) out =
     (if require > 0 then
        if range_size front > require then
          (case range_split front require of
             Inl e \<Rightarrow> (Inl e, rs)
           | Inr (left, right) \<Rightarrow> (Inr (out @ [left]), right # rs))
        else take_loop sz (require - range_size front) rs (out @ [front])
      else (Inr out, front # rs))"

definition ranges_take :: "OrdinalRange list \<Rightarrow> u64 \<Rightarrow> (OrdError + OrdinalRange list) \<times> OrdinalRange list" where
  "ranges_take rs sz = take_loop sz sz rs []"

section \<open>The ordinals of a range\<close>

definition sats :: "OrdinalRange \<Rightarrow> nat list" where
  "sats r = [unat (or_lower r)..<Suc (unat (or_upper r))]"

definition all_sats :: "OrdinalRange list \<Rightarrow> nat list" where
  "all_sats rs = concat (map sats rs)"

text \<open>A range has ordinals, and its size fits 64 bits.\<close>

definition valid_range :: "OrdinalRange \<Rightarrow> bool" where
  "valid_range r \<longleftrightarrow> or_lower r \<le> or_upper r \<and> \<not> (or_lower r = 0 \<and> or_upper r = - 1)"

lemma all_sats_simps [simp]:
  "all_sats [] = []" "all_sats (r # rs) = sats r @ all_sats rs" "all_sats (rs @ rs') = all_sats rs @ all_sats rs'"
  by (simp_all add: all_sats_def)

lemma length_sats: "length (sats r) = Suc (unat (or_upper r)) - unat (or_lower r)"
  by (simp add: sats_def del: upt_Suc)

lemma unat_range_size:
  assumes "valid_range r"
  shows "unat (range_size r) = length (sats r)" "0 < unat (range_size r)"
proof -
  have le: "unat (or_lower r) \<le> unat (or_upper r)" using assms by (simp add: valid_range_def word_le_nat_alt)
  have eq: "range_size r = (or_upper r - or_lower r) + 1" by (simp add: range_size_def)
  have d: "unat (or_upper r - or_lower r) = unat (or_upper r) - unat (or_lower r)"
    using assms by (intro unat_sub) (simp add: valid_range_def)
  have "or_upper r - or_lower r \<noteq> - 1"
  proof
    assume m: "or_upper r - or_lower r = - 1"
    have "unat (- 1 :: u64) = 2 ^ 64 - 1" by (simp add: unsigned_minus_1_eq_mask mask_eq_exp_minus_1)
    then have "2 ^ 64 - 1 = unat (or_upper r) - unat (or_lower r)" using d m by simp
    moreover have "unat (or_upper r) \<le> 2 ^ 64 - 1" using unsigned_less [of "or_upper r", where ?'a = nat] by simp
    ultimately have "unat (or_lower r) = 0" using le by linarith
    then have "or_lower r = 0" by (simp add: unsigned_eq_0_iff)
    then show False using m assms by (simp add: valid_range_def)
  qed
  then have "unat (range_size r) = Suc (unat (or_upper r - or_lower r))"
    unfolding eq by (simp add: unatSuc add.commute eq_neg_iff_add_eq_0)
  then show "unat (range_size r) = length (sats r)" "0 < unat (range_size r)"
    using d le length_sats [of r] by linarith+
qed

lemma range_split_ok:
  assumes "valid_range r" "0 < sz" "sz < range_size r"
  shows "\<exists>left right. range_split r sz = Inr (left, right) \<and> valid_range left \<and> valid_range right \<and>
    sats left @ sats right = sats r \<and> length (sats left) = unat sz"
proof -
  let ?l = "unat (or_lower r)" and ?u = "unat (or_upper r)" and ?n = "unat sz"
  have len: "length (sats r) = Suc ?u - ?l" by (rule length_sats)
  have n: "0 < ?n" "?n < Suc ?u - ?l"
    using assms unat_range_size(1) [OF assms(1)] len by (simp_all add: word_less_nat_alt unat_gt_0)
  have u: "?u < 2 ^ 64" using unsigned_less [of "or_upper r", where ?'a = nat] by simp
  have s: "unat (or_lower r + sz) = ?l + ?n" using n u by (subst unat_add_lem [THEN iffD1]) simp_all
  have s1: "unat (or_lower r + sz - 1) = ?l + ?n - 1"
    using s n by (subst unat_minus_one) (auto simp: unat_eq_0)
  let ?left = "\<lparr>or_lower = or_lower r, or_upper = or_lower r + sz - 1\<rparr>"
  let ?right = "\<lparr>or_lower = or_lower r + sz, or_upper = or_upper r\<rparr>"
  have "range_split r sz = Inr (?left, ?right)"
  proof -
    have "\<not> or_lower r + sz - 1 < or_lower r" "\<not> or_upper r < or_lower r + sz"
      unfolding word_less_nat_alt s s1 using n by linarith+
    moreover have "\<not> (sz = 0 \<or> range_size r \<le> sz)" using assms(2,3) by auto
    ultimately show ?thesis by (simp only: range_split_def range_new_def if_False and_then.simps)
  qed
  moreover have "valid_range ?left"
  proof -
    have "or_lower r + sz - 1 \<noteq> - 1"
    proof
      assume "or_lower r + sz - 1 = - 1"
      then have "or_lower r + sz = 0" by simp
      then show False using s n by simp
    qed
    then show ?thesis using n s1 by (simp add: valid_range_def word_le_nat_alt)
  qed
  moreover have "valid_range ?right"
    using n s by (auto simp: valid_range_def word_le_nat_alt unat_eq_0 dest: arg_cong [of _ _ unat])
  moreover have "sats ?left @ sats ?right = sats r"
  proof -
    have "Suc (?l + ?n - 1) = ?l + ?n" using n by simp
    moreover have "[?l..<?l + ?n] @ [?l + ?n..<Suc ?u] = [?l..<Suc ?u]"
      using n upt_add_eq_append [of ?l "?l + ?n" "Suc ?u - (?l + ?n)"] by simp
    ultimately show ?thesis by (simp add: sats_def s s1 del: upt_Suc)
  qed
  moreover have "length (sats ?left) = ?n" using n by (simp add: sats_def s1 del: upt_Suc)
  ultimately show ?thesis by blast
qed

section \<open>Taking ordinals\<close>

lemma take_loop_sats:
  "list_all valid_range rs \<Longrightarrow> list_all valid_range out \<Longrightarrow>
   (case take_loop n require rs out of
      (Inr got, rest) \<Rightarrow> unat require \<le> length (all_sats rs) \<and> list_all valid_range (got @ rest) \<and>
        all_sats got @ all_sats rest = all_sats out @ all_sats rs \<and>
        length (all_sats got) = length (all_sats out) + unat require
    | (Inl e, rest) \<Rightarrow> length (all_sats rs) < unat require \<and> e = InvalidTake [] n)"
proof (induction n require rs out rule: take_loop.induct)
  case (1 n require out)
  then show ?case by (cases "require = 0") (auto simp: word_gt_0 unat_gt_0)
next
  case (2 n require front rs out)
  note sz = unat_range_size [of front]
  show ?case
  proof (cases "require > 0")
    case False
    then have "require = 0" by (simp add: word_gt_0)
    then show ?thesis using 2 by simp
  next
    case req: True
    show ?thesis
    proof (cases "range_size front > require")
      case True
      then obtain left right where sp: "range_split front require = Inr (left, right)" "valid_range left" "valid_range right"
          "sats left @ sats right = sats front" "length (sats left) = unat require"
        using range_split_ok [of front require] req 2(2) by auto
      have "length (sats front) = length (sats left) + length (sats right)" using arg_cong [OF sp(4), of length] by simp
      moreover have "take_loop n require (front # rs) out = (Inr (out @ [left]), right # rs)"
        using req True sp(1) by simp
      ultimately show ?thesis using sp(2,3,5) sp(4) [symmetric] 2(2,3) by simp
    next
      case False
      then have le: "range_size front \<le> require" by simp
      have d: "unat (require - range_size front) = unat require - length (sats front)"
        using unat_sub [OF le] sz(1) 2(2) by simp
      have ge: "length (sats front) \<le> unat require" using le sz(1) 2(2) by (simp add: word_le_nat_alt)
      have eq: "take_loop n require (front # rs) out = take_loop n (require - range_size front) rs (out @ [front])"
        using req False by simp
      have "case take_loop n (require - range_size front) rs (out @ [front]) of
        (Inr got, rest) \<Rightarrow> unat (require - range_size front) \<le> length (all_sats rs) \<and> list_all valid_range (got @ rest) \<and>
          all_sats got @ all_sats rest = all_sats (out @ [front]) @ all_sats rs \<and>
          length (all_sats got) = length (all_sats (out @ [front])) + unat (require - range_size front)
        | (Inl e, rest) \<Rightarrow> length (all_sats rs) < unat (require - range_size front) \<and> e = InvalidTake [] n"
        using 2(1) [OF req False] 2(2,3) by simp
      then show ?thesis unfolding eq using d ge by (auto split: prod.splits sum.splits)
    qed
  qed
qed

text \<open>
  C37. A transaction output takes its ordinals from the front of the queue: taking n ordinals from
  valid ranges succeeds exactly if there are n, the ordinals taken followed by those left are the
  ordinals of the queue in order, exactly n are taken, and all resulting ranges are valid again;
  otherwise the result is the take error.
\<close>

theorem take_conserves_ordinals:
  assumes "list_all valid_range rs"
  shows "case ranges_take rs n of
      (Inr got, rest) \<Rightarrow> unat n \<le> length (all_sats rs) \<and> all_sats got @ all_sats rest = all_sats rs \<and>
        length (all_sats got) = unat n \<and> list_all valid_range (got @ rest)
    | (Inl e, _) \<Rightarrow> length (all_sats rs) < unat n \<and> e = InvalidTake [] n"
  using take_loop_sats [OF assms, of "[]" n n] by (auto simp: ranges_take_def split: prod.splits sum.splits)

theorem take_conserves_ordinals_witness:
  "ranges_take [\<lparr>or_lower = 12, or_upper = 15\<rparr>, \<lparr>or_lower = 3, or_upper = 7\<rparr>, \<lparr>or_lower = 1, or_upper = 1\<rparr>] 6 =
     (Inr [\<lparr>or_lower = 12, or_upper = 15\<rparr>, \<lparr>or_lower = 3, or_upper = 4\<rparr>],
      [\<lparr>or_lower = 5, or_upper = 7\<rparr>, \<lparr>or_lower = 1, or_upper = 1\<rparr>]) \<and>
   length (all_sats [\<lparr>or_lower = 12, or_upper = 15\<rparr>, \<lparr>or_lower = 3, or_upper = 4\<rparr>]) = unat (6 :: u64)"
proof -
  let ?rs = "[\<lparr>or_lower = 12, or_upper = 15\<rparr>, \<lparr>or_lower = 3, or_upper = 7\<rparr>, \<lparr>or_lower = 1, or_upper = 1\<rparr>] :: OrdinalRange list"
  have run: "ranges_take ?rs 6 = (Inr [\<lparr>or_lower = 12, or_upper = 15\<rparr>, \<lparr>or_lower = 3, or_upper = 4\<rparr>],
      [\<lparr>or_lower = 5, or_upper = 7\<rparr>, \<lparr>or_lower = 1, or_upper = 1\<rparr>])" by code_simp
  moreover have "list_all valid_range ?rs" by code_simp
  from take_conserves_ordinals [OF this, of 6]
  have "length (all_sats [\<lparr>or_lower = 12, or_upper = 15\<rparr>, \<lparr>or_lower = 3, or_upper = 4\<rparr>]) = unat (6 :: u64)"
    unfolding run by simp
  ultimately show ?thesis by simp
qed

end
