(* ===== verification/Chain_Db.thy ===== *)
theory Chain_Db
  imports Kv_Table Dune_Mints Brc20_Rollback Ordinal_Ranges
begin

text \<open>
  The chain database of the compressor (\<open>storage/mod.rs\<close>, \<open>txos/mod.rs\<close>, \<open>resolver/mod.rs\<close>,
  \<open>mutable/mod.rs\<close>, \<open>chain/mod.rs\<close> and the in-memory resolver of \<open>sync/roll.rs\<close>). Applying a block
  resolves its inputs, runs dunes and inscriptions over its transactions, updates the unspent
  outputs and keeps what is needed to take the block back. One optimistic transaction covers each
  operation, so the tables change only if it succeeds. A panic is the error \<open>CPanic\<close>. The resolver
  in memory is returned with a success; on an error the code keeps the entries it has dropped or
  added so far, which only makes it resolve more or fewer outputs from memory.
\<close>

section \<open>State\<close>

record Block =
  bl_prev :: bytes
  bl_txdata :: "Transaction list"

record Crates =
  cr_bitcoin :: BitcoinCrate
  cr_text :: TextCrate
  cr_block_hash :: "Block \<Rightarrow> bytes"
  cr_encode_block :: "Block \<Rightarrow> bytes"
  cr_decode_block :: "bytes \<Rightarrow> Block option"

datatype ChainError =
    PreviousHashMismatch bytes bytes bytes
  | CMissingTxo TxoRef
  | NoCoinbase
  | CDecode
  | CPanic
  | InvalidRollbackPoint "(u64 \<times> bytes) option"
  | MissingResolver bytes
  | ResolverHashMismatch u64 bytes bytes
  | UndoDecode
  | IntersectMissingBlock u64

record ResolverEntry =
  re_hash :: bytes
  re_resolver :: "(TxoRef \<times> TxoBody) list"
  re_dunes :: "(TxoRef \<times> (StorageDuneId \<times> u128) list) list"
  re_etches :: "(u32 \<times> u128) list"
  re_mints :: "(u32 \<times> u16) list"
  re_inscriptions :: "(TxoRef \<times> (u64 \<times> InscriptionId) list) list"
  re_reinscriptions :: "(u32 \<times> u32) list"
  re_counters :: Counters
  re_brc20 :: brc20_log
  re_new :: "NewInscriptionInfo list"

datatype Log = LApply u64 bytes bytes ResolverEntry | LUndo u64 bytes bytes | LMark u64 bytes bytes

fun log_height :: "Log \<Rightarrow> u64" where
  "log_height (LApply h _ _ _) = h" | "log_height (LUndo h _ _) = h" | "log_height (LMark h _ _) = h"

fun log_hash :: "Log \<Rightarrow> bytes" where
  "log_hash (LApply _ x _ _) = x" | "log_hash (LUndo _ x _) = x" | "log_hash (LMark _ x _) = x"

fun is_apply :: "Log \<Rightarrow> bool" where "is_apply (LApply _ _ _ _) = True" | "is_apply _ = False"
fun is_mark :: "Log \<Rightarrow> bool" where "is_mark (LMark _ _ _) = True" | "is_mark _ = False"

record ChainTables =
  cd_blocks :: "(u64, bytes \<times> bytes) table"
  cd_resolvers :: "(u64, ResolverEntry) table"
  cd_txos :: "TxoRef \<rightharpoonup> TxoBody"
  cd_dunes :: DuneDb
  cd_insc :: InscriptionDb
  cd_counters :: "Counters option"
  cd_mutable :: "(u64, Log) table"

record ChainDB =
  cs_tables :: ChainTables
  cs_next_wal_seq :: u64
  cs_last_block_hash :: "bytes option"
  cs_immutable_after_confs :: "u64 option"
  cs_network :: Network
  cs_first_rune_height :: u64
  cs_first_inscription_height :: u64

definition zero_counters :: Counters where
  "zero_counters = \<lparr>ct_cursed = 0, ct_blessed = 0, ct_next_sequence = 0, ct_lost_sats = 0, ct_unbound = 0\<rparr>"

section \<open>The resolver in memory\<close>

text \<open>Unspent outputs kept in memory, with the total size of their raw bytes.\<close>

type_synonym UtxoResolver = "(TxoRef \<rightharpoonup> TxoBody) \<times> u64"

definition ur_remove :: "TxoRef \<Rightarrow> UtxoResolver \<Rightarrow> TxoBody option \<times> UtxoResolver" where
  "ur_remove r u =
     (case fst u r of None \<Rightarrow> (None, u)
      | Some x \<Rightarrow> (Some x, ((fst u)(r := None), snd u - word_of_nat (length (tb_raw x)))))"

definition ur_insert :: "TxoRef \<Rightarrow> TxoBody \<Rightarrow> UtxoResolver \<Rightarrow> UtxoResolver" where
  "ur_insert r x u = ((fst u)(r \<mapsto> x), snd u + word_of_nat (length (tb_raw x)))"

definition forget :: "TxoRef \<Rightarrow> UtxoResolver option \<Rightarrow> UtxoResolver option" where
  "forget r mem = map_option (\<lambda>u. snd (ur_remove r u)) mem"

definition remember :: "TxoRef \<Rightarrow> TxoBody \<Rightarrow> UtxoResolver option \<Rightarrow> UtxoResolver option" where
  "remember r x mem = map_option (ur_insert r x) mem"

section \<open>Resolving inputs\<close>

definition tx_refs :: "Transaction \<Rightarrow> TxoRef list" where
  "tx_refs tx = map (\<lambda>i. txo_ref (ti_previous_output i)) (tx_input tx)"

text \<open>References spent by the transactions after the coinbase, each once.\<close>

definition block_input_refs :: "Transaction list \<Rightarrow> TxoRef list" where
  "block_input_refs txs = remdups (concat (map tx_refs (drop 1 txs)))"

fun fetch_inputs :: "(TxoRef \<rightharpoonup> TxoBody) \<Rightarrow> TxoRef list \<Rightarrow> (TxoRef \<rightharpoonup> TxoBody) \<times> UtxoResolver option \<Rightarrow>
    (TxoRef \<rightharpoonup> TxoBody) \<times> UtxoResolver option" where
  "fetch_inputs txos [] s = s"
| "fetch_inputs txos (r # rs) s =
     fetch_inputs txos rs
       (case Option.bind (snd s) (\<lambda>u. fst (ur_remove r u)) of
          Some body \<Rightarrow> ((fst s)(r \<mapsto> body), forget r (snd s))
        | None \<Rightarrow> (case txos r of None \<Rightarrow> s | Some body \<Rightarrow> ((fst s)(r \<mapsto> body), snd s)))"

section \<open>Processing transactions\<close>

record Processing =
  pr_resolver :: "TxoRef \<rightharpoonup> TxoBody"
  pr_mem :: "UtxoResolver option"
  pr_dunes :: DuneDb
  pr_insc :: InscriptionDb
  pr_state :: InscriptionState
  pr_etches :: "(u32 \<times> u128) list"
  pr_mints :: "(u32 \<times> u16) list"
  pr_brc20 :: brc20_log

definition run_dunes :: "Crates \<Rightarrow> ChainDB \<Rightarrow> u64 \<Rightarrow> u32 \<Rightarrow> Transaction \<Rightarrow> Processing \<Rightarrow> ChainError + balances list \<times> Processing" where
  "run_dunes C cs height idx tx p =
     (if height \<ge> cs_first_rune_height cs then
        (case index_runes (cr_bitcoin C) (pr_resolver p) (cs_network cs) height idx tx (pr_dunes p) of
           Inl (MissingTxo r) \<Rightarrow> Inl (CMissingTxo r)
         | Inl DivisionByZero \<Rightarrow> Inl CPanic
         | Inr None \<Rightarrow> Inl CPanic
         | Inr (Some (r, db)) \<Rightarrow> Inr (ir_output_dunes r, p\<lparr>pr_dunes := db,
             pr_etches := pr_etches p @ (case ir_successful_etch r of None \<Rightarrow> [] | Some name \<Rightarrow> [(idx, name)]),
             pr_mints := pr_mints p @ map (\<lambda>m. (idx, m)) (ir_successful_mints r)\<rparr>))
      else Inr (replicate (length (tx_output tx)) [], p))"

definition run_inscriptions :: "Crates \<Rightarrow> ChainDB \<Rightarrow> u64 \<Rightarrow> Transaction \<Rightarrow> bytes \<Rightarrow> Processing \<Rightarrow>
    ChainError + ((u64 \<times> InscriptionId) list list \<times> (InscriptionId \<times> bytes \<times> u128) list) \<times> Processing" where
  "run_inscriptions C cs height tx txid p =
     (if height \<ge> cs_first_inscription_height cs then
        (case index_inscriptions (cr_bitcoin C) (cr_text C) (pr_resolver p) height tx txid (pr_state p) (pr_insc p) of
           Inl (TxoNotFound r) \<Rightarrow> Inl (CMissingTxo r)
         | Inl TxDecode \<Rightarrow> Inl CDecode
         | Inl Panicked \<Rightarrow> Inl CPanic
         | Inr (r, st, db) \<Rightarrow> Inr ((ix_output_inscriptions r, ix_new_unused r),
             p\<lparr>pr_insc := db, pr_state := st, pr_brc20 := pr_brc20 p @ ix_brc20_resolver r\<rparr>))
      else Inr ((replicate (length (tx_output tx)) [], []), p))"

fun take_inputs :: "TxoRef list \<Rightarrow> Processing \<Rightarrow> ChainError + Processing" where
  "take_inputs [] p = Inr p"
| "take_inputs (r # rs) p =
     (case pr_resolver p r of None \<Rightarrow> Inl (CMissingTxo r)
      | Some _ \<Rightarrow> take_inputs rs (p\<lparr>pr_mem := forget r (pr_mem p)\<rparr>))"

definition storage_dunes :: "balances \<Rightarrow> (StorageDuneId \<times> u128) list option" where
  "storage_dunes bs =
     (if list_all (\<lambda>(x, _). dune_id_try_from x \<noteq> None) bs
      then Some (map (\<lambda>(x, y). (sdi_of (the (dune_id_try_from x)), y)) bs) else None)"

fun put_outputs :: "BitcoinCrate \<Rightarrow> u64 \<Rightarrow> bytes \<Rightarrow> (InscriptionId \<times> bytes \<times> u128) list \<Rightarrow> nat \<Rightarrow>
    (TxOut \<times> balances \<times> (u64 \<times> InscriptionId) list) list \<Rightarrow> Processing \<Rightarrow> ChainError + Processing" where
  "put_outputs B height txid transfers idx [] p = Inr p"
| "put_outputs B height txid transfers idx ((out, dunes, inscriptions) # outs) p =
     (case storage_dunes dunes of None \<Rightarrow> Inl CPanic
      | Some dunes \<Rightarrow>
        let r = (txid, word_of_nat idx);
            body = \<lparr>tb_height = height, tb_raw = bc_encode_txout B out, tb_ord_ranges = [], tb_dunes = dunes,
              tb_inscriptions = inscriptions,
              tb_unused_brc20_transfers = filter (\<lambda>(i, _). i \<in> set (map snd inscriptions)) transfers\<rparr>
        in put_outputs B height txid transfers (Suc idx) outs
             (p\<lparr>pr_resolver := (pr_resolver p)(r \<mapsto> body), pr_mem := remember r body (pr_mem p)\<rparr>))"

definition process_tx :: "Crates \<Rightarrow> ChainDB \<Rightarrow> u64 \<Rightarrow> u32 \<Rightarrow> Transaction \<Rightarrow> Processing \<Rightarrow> ChainError + Processing" where
  "process_tx C cs height idx tx p =
     (let txid = bc_txid (cr_bitcoin C) tx in
      and_then (run_dunes C cs height idx tx p) (\<lambda>(dunes, p).
      and_then (run_inscriptions C cs height tx txid p) (\<lambda>((inscriptions, transfers), p).
      and_then (take_inputs (tx_refs tx) p) (\<lambda>p.
        put_outputs (cr_bitcoin C) height txid transfers 0 (zip (tx_output tx) (zip dunes inscriptions)) p))))"

fun process_txs :: "Crates \<Rightarrow> ChainDB \<Rightarrow> u64 \<Rightarrow> u32 \<Rightarrow> Transaction list \<Rightarrow> Processing \<Rightarrow> ChainError + Processing" where
  "process_txs C cs height idx [] p = Inr p"
| "process_txs C cs height idx (tx # txs) p =
     and_then (process_tx C cs height idx tx p) (process_txs C cs height (idx + 1) txs)"

text \<open>The coinbase mints dunes first, and receives inscriptions after all other transactions.\<close>

definition resolve_and_process :: "Crates \<Rightarrow> ChainDB \<Rightarrow> UtxoResolver option \<Rightarrow> u64 \<Rightarrow> Block \<Rightarrow> Counters \<Rightarrow> ChainError + Processing" where
  "resolve_and_process C cs mem height block counters =
     (let B = cr_bitcoin C; t = cs_tables cs; txs = bl_txdata block;
          needed = filter (\<lambda>r. fst r \<notin> set (map (bc_txid B) txs)) (block_input_refs txs);
          (resolver, mem) = fetch_inputs (cd_txos t) needed (Map.empty, mem)
      in case txs of [] \<Rightarrow> Inl NoCoinbase
         | coinbase # rest \<Rightarrow>
           let p = \<lparr>pr_resolver = resolver, pr_mem = mem, pr_dunes = cd_dunes t, pr_insc = cd_insc t,
                 pr_state = \<lparr>st_counters = counters, st_reward = bc_subsidy B (ucast height), st_cb = [], st_new = []\<rparr>,
                 pr_etches = [], pr_mints = [], pr_brc20 = []\<rparr>
           in and_then (run_dunes C cs height 0 coinbase p) (\<lambda>(dunes, p).
              and_then (process_txs C cs height 1 rest p) (\<lambda>p.
              and_then (run_inscriptions C cs height coinbase (bc_txid B coinbase) p) (\<lambda>((inscriptions, transfers), p).
                put_outputs B height (bc_txid B coinbase) transfers 0
                  (zip (tx_output coinbase) (zip dunes inscriptions)) p))))"

section \<open>Applying a block\<close>

text \<open>The outputs of a transaction enter the table with what was resolved for them, its inputs leave.\<close>

fun store_outputs :: "BitcoinCrate \<Rightarrow> u64 \<Rightarrow> (TxoRef \<rightharpoonup> TxoBody) \<Rightarrow> bytes \<Rightarrow> nat \<Rightarrow> TxOut list \<Rightarrow>
    (TxoRef \<rightharpoonup> TxoBody) \<Rightarrow> ChainError + (TxoRef \<rightharpoonup> TxoBody)" where
  "store_outputs B height resolver txid idx [] txos = Inr txos"
| "store_outputs B height resolver txid idx (out # outs) txos =
     (case resolver (txid, word_of_nat idx) of
        None \<Rightarrow> Inl (CMissingTxo (txid, word_of_nat idx))
      | Some entry \<Rightarrow> store_outputs B height resolver txid (Suc idx) outs
          (txos((txid, word_of_nat idx) \<mapsto> entry\<lparr>tb_height := height, tb_raw := bc_encode_txout B out\<rparr>)))"

definition remove_refs :: "TxoRef list \<Rightarrow> (TxoRef \<rightharpoonup> TxoBody) \<Rightarrow> (TxoRef \<rightharpoonup> TxoBody)" where
  "remove_refs rs txos = fold (\<lambda>r t. t(r := None)) rs txos"

fun store_txs :: "BitcoinCrate \<Rightarrow> u64 \<Rightarrow> (TxoRef \<rightharpoonup> TxoBody) \<Rightarrow> Transaction list \<Rightarrow> (TxoRef \<rightharpoonup> TxoBody) \<Rightarrow>
    ChainError + (TxoRef \<rightharpoonup> TxoBody)" where
  "store_txs B height resolver [] txos = Inr txos"
| "store_txs B height resolver (tx # txs) txos =
     and_then (store_outputs B height resolver (bc_txid B tx) 0 (tx_output tx) txos) (\<lambda>txos.
       store_txs B height resolver txs (remove_refs (tx_refs tx) txos))"

definition output_refs :: "BitcoinCrate \<Rightarrow> Transaction list \<Rightarrow> TxoRef list" where
  "output_refs B txs = concat (map (\<lambda>tx. map (\<lambda>j. (bc_txid B tx, word_of_nat j)) [0..<length (tx_output tx)]) txs)"

definition resolved :: "(TxoRef \<rightharpoonup> TxoBody) \<Rightarrow> TxoRef list \<Rightarrow> (TxoRef \<times> TxoBody) list" where
  "resolved resolver rs = List.map_filter (\<lambda>r. map_option (Pair r) (resolver r)) rs"

fun prune_loop :: "u64 \<Rightarrow> (u64, Log) table \<Rightarrow> (u64, Log) table" where
  "prune_loop before [] = []"
| "prune_loop before ((k, v) # t) = (if log_height v \<ge> before then (k, v) # t else prune_loop before t)"

definition resolver_entry :: "Crates \<Rightarrow> Block \<Rightarrow> Counters \<Rightarrow> Processing \<Rightarrow> ResolverEntry" where
  "resolver_entry C block counters p =
     (let B = cr_bitcoin C; outs = resolved (pr_resolver p) (output_refs B (bl_txdata block)) in
      \<lparr>re_hash = cr_block_hash C block,
       re_resolver = resolved (pr_resolver p) (block_input_refs (bl_txdata block)),
       re_dunes = map (\<lambda>(r, b). (r, tb_dunes b)) (filter (\<lambda>(_, b). tb_dunes b \<noteq> []) outs),
       re_etches = pr_etches p, re_mints = pr_mints p,
       re_inscriptions = map (\<lambda>(r, b). (r, tb_inscriptions b)) (filter (\<lambda>(_, b). tb_inscriptions b \<noteq> []) outs),
       re_reinscriptions = [], re_counters = counters, re_brc20 = pr_brc20 p, re_new = st_new (pr_state p)\<rparr>)"

text \<open>A mutable database logs the block, then drops the entries that are final.\<close>

definition log_block :: "ChainDB \<Rightarrow> u64 \<Rightarrow> bool \<Rightarrow> Log \<Rightarrow> (u64, Log) table" where
  "log_block cs height mutable log =
     (let wal = cd_mutable (cs_tables cs) in
      if \<not> mutable then wal
      else
        let wal = tbl_put (cs_next_wal_seq cs) log wal in
        case cs_immutable_after_confs cs of None \<Rightarrow> wal
        | Some prune_after \<Rightarrow> if height \<ge> prune_after then prune_loop (height - prune_after) wal else wal)"

definition apply_block_with_context :: "Crates \<Rightarrow> u64 \<Rightarrow> Block \<Rightarrow> bool \<Rightarrow> UtxoResolver option \<Rightarrow> ChainDB \<Rightarrow>
    ChainError + UtxoResolver option \<times> ChainDB" where
  "apply_block_with_context C height block mutable mem cs =
     (let B = cr_bitcoin C; t = cs_tables cs; hash = cr_block_hash C block; body = cr_encode_block C block;
          mismatch = (case cs_last_block_hash cs of None \<Rightarrow> False | Some h \<Rightarrow> bl_prev block \<noteq> h)
      in if mismatch then Inl (PreviousHashMismatch hash (bl_prev block) (the (cs_last_block_hash cs)))
         else
           let counters = (case cd_counters t of None \<Rightarrow> zero_counters | Some c \<Rightarrow> c) in
           and_then (resolve_and_process C cs mem height block counters) (\<lambda>p.
           and_then (store_txs B height (pr_resolver p) (bl_txdata block) (cd_txos t)) (\<lambda>txos.
             let entry = resolver_entry C block counters p;
                 wal = log_block cs height mutable (LApply height hash body entry)
             in Inr (pr_mem p, cs\<lparr>
                  cs_tables := t\<lparr>cd_blocks := tbl_put height (hash, body) (cd_blocks t),
                    cd_resolvers := tbl_put height entry (cd_resolvers t), cd_txos := txos,
                    cd_dunes := pr_dunes p, cd_insc := pr_insc p, cd_counters := Some (st_counters (pr_state p)),
                    cd_mutable := wal\<rparr>,
                  cs_next_wal_seq := cs_next_wal_seq cs + 1, cs_last_block_hash := Some hash\<rparr>))))"

section \<open>Rolling back\<close>

definition undo_etch :: "u64 \<Rightarrow> nat \<Rightarrow> Dunestone \<Rightarrow> DuneDb \<Rightarrow> DuneDb option" where
  "undo_etch height idx d db =
     (let etch_id = \<lparr>sdi_block = height, sdi_tx = word_of_nat idx\<rparr> in
      case ds_etching d of None \<Rightarrow> Some db
      | Some etching \<Rightarrow>
        (case dd_terms db etch_id of None \<Rightarrow> Some db
         | Some terms \<Rightarrow>
           let db = db\<lparr>dd_id_by_name := (dd_id_by_name db)(dt_name terms := None),
                 dd_terms := (dd_terms db)(etch_id := None)\<rparr>
           in if et_dune etching = None then
                map_option (\<lambda>n. db\<lparr>dd_reserved := Some n\<rparr>)
                  (checked_sub (case dd_reserved db of None \<Rightarrow> 0 | Some n \<Rightarrow> n) 1)
              else Some db))"

fun undo_mints :: "(u32 \<times> u16) list \<Rightarrow> nat \<Rightarrow> nat \<Rightarrow> u128 list \<Rightarrow> DuneDb \<Rightarrow> DuneDb option" where
  "undo_mints mints idx claim_idx [] db = Some db"
| "undo_mints mints idx claim_idx (i # is) db =
     (case dune_id_try_from i of
        None \<Rightarrow> undo_mints mints idx (Suc claim_idx) is db
      | Some key \<Rightarrow>
        if (word_of_nat idx, word_of_nat claim_idx) \<in> set mints then
          Option.bind (checked_sub (or_default (dd_mints db (sdi_of key))) 1) (\<lambda>n.
            undo_mints mints idx (Suc claim_idx) is (db\<lparr>dd_mints := (dd_mints db)(sdi_of key \<mapsto> n)\<rparr>))
        else undo_mints mints idx (Suc claim_idx) is db)"

definition undo_dunes :: "BitcoinCrate \<Rightarrow> u64 \<Rightarrow> (u32 \<times> u16) list \<Rightarrow> nat \<Rightarrow> Transaction \<Rightarrow> DuneDb \<Rightarrow> DuneDb option" where
  "undo_dunes B height mints idx tx db =
     (case dunestone_from_transaction B tx of None \<Rightarrow> Some db
      | Some d \<Rightarrow> Option.bind (undo_etch height idx d db) (undo_mints mints idx 0 (dune_claims d)))"

fun restore_inputs :: "TxoRef list \<Rightarrow> (TxoRef \<rightharpoonup> TxoBody) \<times> (TxoRef \<rightharpoonup> TxoBody) \<Rightarrow>
    ChainError + (TxoRef \<rightharpoonup> TxoBody) \<times> (TxoRef \<rightharpoonup> TxoBody)" where
  "restore_inputs [] s = Inr s"
| "restore_inputs (r # rs) s =
     (case fst s r of None \<Rightarrow> Inl (CMissingTxo r)
      | Some body \<Rightarrow> restore_inputs rs ((fst s)(r := None), (snd s)(r \<mapsto> body)))"

text \<open>One transaction: what remains of the resolver, and the tables.\<close>

definition undo_tx :: "BitcoinCrate \<Rightarrow> u64 \<Rightarrow> (u32 \<times> u16) list \<Rightarrow> nat \<Rightarrow> Transaction \<Rightarrow>
    (TxoRef \<rightharpoonup> TxoBody) \<times> ChainTables \<Rightarrow> ChainError + (TxoRef \<rightharpoonup> TxoBody) \<times> ChainTables" where
  "undo_tx B height mints idx tx s =
     (let t = snd s; txid = bc_txid B tx;
          insc = (cd_insc t)\<lparr>id_partial_txids := (id_partial_txids (cd_insc t))(txid := None),
            id_partial_txs := (id_partial_txs (cd_insc t))(txid := None)\<rparr>
      in case undo_dunes B height mints idx tx (cd_dunes t) of None \<Rightarrow> Inl CPanic
         | Some dunes \<Rightarrow>
           and_then (if idx \<noteq> 0 then restore_inputs (tx_refs tx) (fst s, cd_txos t) else Inr (fst s, cd_txos t)) (\<lambda>(resolver, txos).
             Inr (resolver, t\<lparr>cd_insc := insc, cd_dunes := dunes, cd_txos := remove_refs (output_refs B [tx]) txos\<rparr>)))"

fun undo_txs :: "BitcoinCrate \<Rightarrow> u64 \<Rightarrow> (u32 \<times> u16) list \<Rightarrow> (nat \<times> Transaction) list \<Rightarrow>
    (TxoRef \<rightharpoonup> TxoBody) \<times> ChainTables \<Rightarrow> ChainError + (TxoRef \<rightharpoonup> TxoBody) \<times> ChainTables" where
  "undo_txs B height mints [] s = Inr s"
| "undo_txs B height mints ((idx, tx) # txs) s =
     and_then (undo_tx B height mints idx tx s) (undo_txs B height mints txs)"

text \<open>One block; a write-ahead log entry for it when mutable.\<close>

definition undo_block :: "Crates \<Rightarrow> bool \<Rightarrow> u64 \<times> bytes \<times> bytes \<Rightarrow> u64 \<times> ChainTables \<Rightarrow> ChainError + u64 \<times> ChainTables" where
  "undo_block C mutable entry s =
     (let (height, hash, body) = entry; (seq, t) = s;
          t = (if mutable then t\<lparr>cd_mutable := tbl_put seq (LUndo height hash body) (cd_mutable t)\<rparr> else t);
          seq = (if mutable then seq + 1 else seq);
          t = t\<lparr>cd_blocks := tbl_del height (cd_blocks t)\<rparr>
      in case cr_decode_block C body of None \<Rightarrow> Inl UndoDecode
         | Some block \<Rightarrow>
           (case tbl_get (cd_resolvers t) height of None \<Rightarrow> Inl (MissingResolver hash)
            | Some re \<Rightarrow>
              if re_hash re \<noteq> hash then Inl (ResolverHashMismatch height hash (re_hash re))
              else
                let t = t\<lparr>cd_counters := Some (re_counters re), cd_insc := undo_brc20 (re_brc20 re) (cd_insc t)\<rparr>
                in and_then (undo_txs (cr_bitcoin C) height (re_mints re) (rev (List.enumerate 0 (bl_txdata block)))
                     (map_of (re_resolver re), t)) (\<lambda>(_, t).
                   Inr (seq, t\<lparr>cd_resolvers := tbl_del height (cd_resolvers t)\<rparr>))))"

fun undo_chain :: "Crates \<Rightarrow> bool \<Rightarrow> (u64 \<times> bytes \<times> bytes) list \<Rightarrow> u64 \<times> ChainTables \<Rightarrow> ChainError + u64 \<times> ChainTables" where
  "undo_chain C mutable [] s = Inr s"
| "undo_chain C mutable (e # es) s = and_then (undo_block C mutable e s) (undo_chain C mutable es)"

definition rollback :: "Crates \<Rightarrow> u64 \<Rightarrow> bytes \<Rightarrow> bool \<Rightarrow> ChainDB \<Rightarrow> ChainError + ChainDB" where
  "rollback C rb_height rb_hash mutable cs =
     (case tbl_from rb_height (cd_blocks (cs_tables cs)) of
        [] \<Rightarrow> Inl (InvalidRollbackPoint None)
      | (found_height, found_hash, rb_bytes) # to_remove \<Rightarrow>
        if rb_height \<noteq> found_height \<or> rb_hash \<noteq> found_hash
        then Inl (InvalidRollbackPoint (Some (found_height, found_hash)))
        else and_then (undo_chain C mutable (rev to_remove) (cs_next_wal_seq cs, cs_tables cs)) (\<lambda>(seq, t).
          let t = (if mutable then t\<lparr>cd_mutable := tbl_put seq (LMark rb_height rb_hash rb_bytes) (cd_mutable t)\<rparr> else t);
              seq = (if mutable then seq + 1 else seq)
          in Inr (cs\<lparr>cs_tables := t, cs_next_wal_seq := seq, cs_last_block_hash := Some rb_hash\<rparr>)))"

end
