(* ===== verification/Chain_Rollback.thy ===== *)
theory Chain_Rollback
  imports Chain_Db
begin

text \<open>
  Rolling back a block restores the unspent outputs, the drc-20 ledger, the counters and the block
  tables; the dune tables only when every recorded mint was counted.
\<close>

section \<open>Outputs in and out\<close>

lemma remove_refs_apply: "remove_refs rs txos = (\<lambda>r. if r \<in> set rs then None else txos r)"
  unfolding remove_refs_def by (induction rs arbitrary: txos) auto

lemma store_outputs_apply:
  assumes "store_outputs B height R txid k outs txos = Inr txos'"
    "\<And>j e. j < length outs \<Longrightarrow> R (txid, word_of_nat (k + j)) = Some e \<Longrightarrow>
      tb_height e = height \<and> tb_raw e = bc_encode_txout B (outs ! j)"
  shows "txos' = (\<lambda>r. if r \<in> (\<lambda>j. (txid, word_of_nat j)) ` {k..<k + length outs} then R r else txos r)"
    "\<forall>j\<in>{k..<k + length outs}. R (txid, word_of_nat j) \<noteq> None"
proof -
  have "txos' = (\<lambda>r. if r \<in> (\<lambda>j. (txid, word_of_nat j)) ` {k..<k + length outs} then R r else txos r) \<and>
    (\<forall>j\<in>{k..<k + length outs}. R (txid, word_of_nat j) \<noteq> None)"
    using assms
  proof (induction outs arbitrary: k txos)
    case (Cons out outs)
    obtain e where e: "R (txid, word_of_nat k) = Some e" using Cons.prems(1) by (auto split: option.splits)
    have same: "e\<lparr>tb_height := height, tb_raw := bc_encode_txout B out\<rparr> = e"
      using Cons.prems(2) [of 0 e] e by simp
    have run: "store_outputs B height R txid (Suc k) outs (txos((txid, word_of_nat k) \<mapsto> e)) = Inr txos'"
      using Cons.prems(1) e same by simp
    have ivl: "{k..<k + length (out # outs)} = insert k {Suc k..<Suc k + length outs}" by auto
    have "tb_height e' = height \<and> tb_raw e' = bc_encode_txout B (outs ! j)"
      if "j < length outs" "R (txid, word_of_nat (Suc k + j)) = Some e'" for j e'
      using Cons.prems(2) [of "Suc j" e'] that by simp
    from Cons.IH [OF run this] show ?case unfolding ivl using e by auto
  qed simp
  then show "txos' = (\<lambda>r. if r \<in> (\<lambda>j. (txid, word_of_nat j)) ` {k..<k + length outs} then R r else txos r)"
    "\<forall>j\<in>{k..<k + length outs}. R (txid, word_of_nat j) \<noteq> None" by blast+
qed

lemma restore_inputs_apply:
  "distinct rs \<Longrightarrow> \<forall>r\<in>set rs. res r \<noteq> None \<Longrightarrow>
   restore_inputs rs (res, txos) =
     Inr (\<lambda>r. if r \<in> set rs then None else res r, \<lambda>r. if r \<in> set rs then res r else txos r)"
proof (induction rs arbitrary: res txos)
  case (Cons r rs)
  then obtain b where b: "res r = Some b" by auto
  have "restore_inputs (r # rs) (res, txos) = restore_inputs rs (res(r := None), txos(r \<mapsto> b))" using b by simp
  also have "\<dots> = Inr (\<lambda>x. if x \<in> set rs then None else (res(r := None)) x, \<lambda>x. if x \<in> set rs then (res(r := None)) x else (txos(r \<mapsto> b)) x)"
    using Cons.prems by (intro Cons.IH) auto
  also have "\<dots> = Inr (\<lambda>x. if x \<in> set (r # rs) then None else res x, \<lambda>x. if x \<in> set (r # rs) then res x else txos x)"
    using Cons.prems(1) b by (auto simp: fun_eq_iff)
  finally show ?case .
qed simp

section \<open>Blocks whose spending is sound\<close>

definition tx_outs :: "BitcoinCrate \<Rightarrow> Transaction \<Rightarrow> TxoRef set" where
  "tx_outs B tx = set (output_refs B [tx])"

lemma tx_outs_image: "tx_outs B tx = (\<lambda>j. (bc_txid B tx, word_of_nat j)) ` {0..<length (tx_output tx)}"
  by (auto simp: tx_outs_def output_refs_def)

text \<open>
  From the n-th transaction on: outputs are new, inputs (but the one of the coinbase) are spent once
  and are there, as the resolver has them.
\<close>

fun spends_ok :: "BitcoinCrate \<Rightarrow> (TxoRef \<rightharpoonup> TxoBody) \<Rightarrow> nat \<Rightarrow> Transaction list \<Rightarrow> (TxoRef \<rightharpoonup> TxoBody) \<Rightarrow> bool" where
  "spends_ok B R n [] txos \<longleftrightarrow> True"
| "spends_ok B R n (tx # txs) txos \<longleftrightarrow>
     (let stored = (\<lambda>r. if r \<in> tx_outs B tx then R r else txos r) in
      (\<forall>r\<in>tx_outs B tx. txos r = None) \<and>
      (if n = 0 then \<forall>r\<in>set (tx_refs tx). stored r = None
       else distinct (tx_refs tx) \<and> (\<forall>r\<in>set (tx_refs tx). r \<notin> tx_outs B tx \<and> txos r = R r \<and> R r \<noteq> None)) \<and>
      spends_ok B R (Suc n) txs (\<lambda>r. if r \<in> set (tx_refs tx) then None else stored r))"

definition raws_ok :: "BitcoinCrate \<Rightarrow> u64 \<Rightarrow> (TxoRef \<rightharpoonup> TxoBody) \<Rightarrow> Transaction list \<Rightarrow> bool" where
  "raws_ok B height R txs \<longleftrightarrow> (\<forall>tx\<in>set txs. \<forall>j<length (tx_output tx). \<forall>e. R (bc_txid B tx, word_of_nat j) = Some e \<longrightarrow>
     tb_height e = height \<and> tb_raw e = bc_encode_txout B (tx_output tx ! j))"

fun undo_all_dunes :: "BitcoinCrate \<Rightarrow> u64 \<Rightarrow> (u32 \<times> u16) list \<Rightarrow> (nat \<times> Transaction) list \<Rightarrow> DuneDb \<Rightarrow> DuneDb option" where
  "undo_all_dunes B height mints [] db = Some db"
| "undo_all_dunes B height mints ((idx, tx) # txs) db =
     Option.bind (undo_dunes B height mints idx tx db) (undo_all_dunes B height mints txs)"

lemma undo_all_dunes_append:
  "undo_all_dunes B height mints (xs @ ys) db = Option.bind (undo_all_dunes B height mints xs db) (undo_all_dunes B height mints ys)"
  by (induction B height mints xs db rule: undo_all_dunes.induct) (auto split: bind_splits)

lemma undo_txs_append:
  "undo_txs B height mints (xs @ ys) s = and_then (undo_txs B height mints xs s) (undo_txs B height mints ys)"
proof (induction xs arbitrary: s)
  case (Cons x xs)
  then show ?case by (cases x; cases "undo_tx B height mints (fst x) (snd x) s") auto
qed simp

text \<open>Tables that differ only in outputs, dunes and partial inscriptions.\<close>

definition same_rest :: "ChainTables \<Rightarrow> ChainTables \<Rightarrow> bool" where
  "same_rest t t' \<longleftrightarrow> cd_blocks t' = cd_blocks t \<and> cd_resolvers t' = cd_resolvers t \<and> cd_counters t' = cd_counters t \<and>
     cd_mutable t' = cd_mutable t \<and> ledger_same (cd_insc t) (cd_insc t')"

lemma same_rest_trans: "same_rest a b \<Longrightarrow> same_rest b c \<Longrightarrow> same_rest a c"
  by (simp add: same_rest_def ledger_same_def)

lemma undo_tx_ok:
  assumes "undo_dunes B height mints idx tx (cd_dunes t) = Some d"
    "idx \<noteq> 0 \<Longrightarrow> distinct (tx_refs tx) \<and> (\<forall>r\<in>set (tx_refs tx). res r \<noteq> None)"
  shows "\<exists>res' t'. undo_tx B height mints idx tx (res, t) = Inr (res', t') \<and> cd_dunes t' = d \<and> same_rest t t' \<and>
    (\<forall>r. r \<notin> set (tx_refs tx) \<longrightarrow> res' r = res r) \<and>
    cd_txos t' = (\<lambda>r. if r \<in> tx_outs B tx then None
      else if idx \<noteq> 0 \<and> r \<in> set (tx_refs tx) then res r else cd_txos t r)"
proof (cases "idx = 0")
  case True
  then show ?thesis using assms(1)
    by (simp add: undo_tx_def Let_def same_rest_def ledger_same_def remove_refs_apply tx_outs_def cong: if_cong)
next
  case False
  then have "restore_inputs (tx_refs tx) (res, cd_txos t) = Inr (\<lambda>r. if r \<in> set (tx_refs tx) then None else res r,
      \<lambda>r. if r \<in> set (tx_refs tx) then res r else cd_txos t r)"
    using assms(2) by (intro restore_inputs_apply) auto
  then show ?thesis using assms(1) False
    by (simp add: undo_tx_def Let_def same_rest_def ledger_same_def remove_refs_apply tx_outs_def cong: if_cong)
qed

text \<open>Taking back the transactions of a block in reverse order restores the outputs.\<close>

lemma undo_txs_restores:
  "\<lbrakk>store_txs B height R txs txos = Inr txos'; spends_ok B R n txs txos; raws_ok B height R txs;
    cd_txos t = txos'; undo_all_dunes B height mints (rev (List.enumerate n txs)) (cd_dunes t) = Some d;
    distinct (concat (map tx_refs (if n = 0 then drop 1 txs else txs)));
    \<forall>r\<in>set (concat (map tx_refs (if n = 0 then drop 1 txs else txs))). res r = R r\<rbrakk> \<Longrightarrow>
   \<exists>res' t'. undo_txs B height mints (rev (List.enumerate n txs)) (res, t) = Inr (res', t') \<and> cd_txos t' = txos \<and>
     cd_dunes t' = d \<and> same_rest t t' \<and> (\<forall>r. r \<notin> set (concat (map tx_refs txs)) \<longrightarrow> res' r = res r)"
proof (induction txs arbitrary: n txos d t)
  case Nil
  then show ?case by (auto simp: same_rest_def ledger_same_def)
next
  case (Cons tx txs)
  let ?stored = "\<lambda>r. if r \<in> tx_outs B tx then R r else txos r"
  let ?next = "\<lambda>r. if r \<in> set (tx_refs tx) then None else ?stored r"
  have raws: "raws_ok B height R txs" using Cons.prems(3) by (simp add: raws_ok_def)
  have so: "store_txs B height R txs ?next = Inr txos'"
  proof -
    obtain mid where mid: "store_outputs B height R (bc_txid B tx) 0 (tx_output tx) txos = Inr mid"
      "store_txs B height R txs (remove_refs (tx_refs tx) mid) = Inr txos'"
      using Cons.prems(1) by (auto simp: and_then_Inr_iff)
    have "mid = ?stored"
      using store_outputs_apply(1) [OF mid(1)] Cons.prems(3) unfolding tx_outs_image by (simp add: raws_ok_def)
    then show ?thesis using mid(2) by (simp add: remove_refs_apply)
  qed
  have ok: "spends_ok B R (Suc n) txs ?next" and fresh: "\<forall>r\<in>tx_outs B tx. txos r = None"
    using Cons.prems(2) by (auto simp: Let_def)
  obtain d1 where d1: "undo_all_dunes B height mints (rev (List.enumerate (Suc n) txs)) (cd_dunes t) = Some d1"
    "undo_dunes B height mints n tx d1 = Some d"
    using Cons.prems(5) by (auto simp: undo_all_dunes_append bind_eq_Some_conv)
  have dis: "distinct (concat (map tx_refs txs))" "\<forall>r\<in>set (concat (map tx_refs txs)). res r = R r"
    using Cons.prems(6,7) by (auto split: if_splits)
  obtain res1 t1 where u: "undo_txs B height mints (rev (List.enumerate (Suc n) txs)) (res, t) = Inr (res1, t1)"
    "cd_txos t1 = ?next" "cd_dunes t1 = d1" "same_rest t t1" "\<forall>r. r \<notin> set (concat (map tx_refs txs)) \<longrightarrow> res1 r = res r"
    using Cons.IH [OF so ok raws Cons.prems(4) d1(1)] dis by auto
  have here: "distinct (tx_refs tx) \<and> (\<forall>r\<in>set (tx_refs tx). res1 r = R r \<and> r \<notin> tx_outs B tx \<and> txos r = R r \<and> R r \<noteq> None)" if "n \<noteq> 0"
  proof -
    have "set (tx_refs tx) \<inter> set (concat (map tx_refs txs)) = {}" using Cons.prems(6) that by simp
    then have "res1 r = res r" if "r \<in> set (tx_refs tx)" for r using u(5) that by blast
    moreover have "\<forall>r\<in>set (tx_refs tx). res r = R r" using Cons.prems(7) that by simp
    ultimately have "\<forall>r\<in>set (tx_refs tx). res1 r = R r" by simp
    then show ?thesis using Cons.prems(2) that by (auto simp: Let_def)
  qed
  have d2: "undo_dunes B height mints n tx (cd_dunes t1) = Some d" using d1(2) u(3) by simp
  have some: "distinct (tx_refs tx) \<and> (\<forall>r\<in>set (tx_refs tx). res1 r \<noteq> None)" if "n \<noteq> 0" using here [OF that] by auto
  obtain res2 t2 where v: "undo_tx B height mints n tx (res1, t1) = Inr (res2, t2)" "cd_dunes t2 = d" "same_rest t1 t2"
    "\<forall>r. r \<notin> set (tx_refs tx) \<longrightarrow> res2 r = res1 r"
    "cd_txos t2 = (\<lambda>r. if r \<in> tx_outs B tx then None else if n \<noteq> 0 \<and> r \<in> set (tx_refs tx) then res1 r else cd_txos t1 r)"
    using undo_tx_ok [OF d2 some] by blast
  have "cd_txos t2 r = txos r" for r
  proof (cases "n = 0")
    case True
    then have "?stored r = None" if "r \<in> set (tx_refs tx)" using Cons.prems(2) that by (simp add: Let_def)
    then show ?thesis using v(5) u(2) fresh True by (auto split: if_splits)
  next
    case False
    then show ?thesis using v(5) u(2) fresh here [OF False] by auto
  qed
  then have "cd_txos t2 = txos" by blast
  moreover have "undo_txs B height mints (rev (List.enumerate n (tx # txs))) (res, t) = Inr (res2, t2)"
    using u(1) v(1) by (simp add: undo_txs_append)
  moreover have "\<forall>r. r \<notin> set (concat (map tx_refs (tx # txs))) \<longrightarrow> res2 r = res r" using u(5) v(4) by auto
  ultimately show ?case using v(2) same_rest_trans [OF u(4) v(3)] by blast
qed

section \<open>What was resolved\<close>

definition mem_agrees :: "UtxoResolver option \<Rightarrow> (TxoRef \<rightharpoonup> TxoBody) \<Rightarrow> bool" where
  "mem_agrees mem txos \<longleftrightarrow> (\<forall>u r b. mem = Some u \<longrightarrow> fst u r = Some b \<longrightarrow> txos r = Some b)"

lemma forget_agrees: "mem_agrees mem txos \<Longrightarrow> mem_agrees (forget r mem) txos"
  by (auto simp: mem_agrees_def forget_def ur_remove_def split: option.splits if_splits)

lemma fetch_inputs_apply:
  "mem_agrees mem txos \<Longrightarrow> fetch_inputs txos rs (res, mem) = (res', mem') \<Longrightarrow>
   res' r = (if r \<in> set rs \<and> txos r \<noteq> None then txos r else res r)"
proof (induction rs arbitrary: res mem)
  case (Cons x rs)
  let ?s = "case Option.bind mem (\<lambda>u. fst (ur_remove x u)) of
      Some body \<Rightarrow> (res(x \<mapsto> body), forget x mem)
    | None \<Rightarrow> (case txos x of None \<Rightarrow> (res, mem) | Some body \<Rightarrow> (res(x \<mapsto> body), mem))"
  have hit: "txos x = Some b" if "Option.bind mem (\<lambda>u. fst (ur_remove x u)) = Some b" for b
    using that Cons.prems(1) by (cases x) (auto simp: mem_agrees_def ur_remove_def bind_eq_Some_conv split: option.splits)
  have one: "fst ?s = (\<lambda>y. if y = x \<and> txos x \<noteq> None then txos x else res y)"
    using hit by (auto split: option.splits)
  have ag: "mem_agrees (snd ?s) txos" using Cons.prems(1) forget_agrees by (auto split: option.splits)
  have "fetch_inputs txos rs (fst ?s, snd ?s) = (res', mem')" using Cons.prems(2) by (simp only: fetch_inputs.simps fst_conv snd_conv prod.collapse)
  from Cons.IH [OF ag this] show ?case by (auto simp: one)
qed simp

lemma run_dunes_resolver: "run_dunes C cs height idx tx p = Inr (x, p') \<Longrightarrow> pr_resolver p' = pr_resolver p"
  by (auto simp: run_dunes_def split: if_splits sum.splits IndexError.splits option.splits)

lemma run_inscriptions_resolver: "run_inscriptions C cs height tx txid p = Inr (x, p') \<Longrightarrow> pr_resolver p' = pr_resolver p"
  by (auto simp: run_inscriptions_def split: if_splits sum.splits InscriptionError.splits prod.splits)

lemma take_inputs_resolver: "take_inputs rs p = Inr p' \<Longrightarrow> pr_resolver p' = pr_resolver p"
  by (induction rs arbitrary: p) (auto split: option.splits)

text \<open>Entries of the block's own outputs have the height and the bytes of the output; others stay.\<close>

definition own_entry :: "BitcoinCrate \<Rightarrow> u64 \<Rightarrow> Transaction list \<Rightarrow> TxoRef \<Rightarrow> TxoBody \<Rightarrow> bool" where
  "own_entry B height txs r e \<longleftrightarrow> (\<exists>tx\<in>set txs. \<exists>j<length (tx_output tx). r = (bc_txid B tx, word_of_nat j) \<and>
     tb_height e = height \<and> tb_raw e = bc_encode_txout B (tx_output tx ! j))"

definition resolver_inv :: "BitcoinCrate \<Rightarrow> u64 \<Rightarrow> Transaction list \<Rightarrow> (TxoRef \<rightharpoonup> TxoBody) \<Rightarrow> (TxoRef \<rightharpoonup> TxoBody) \<Rightarrow> bool" where
  "resolver_inv B height txs base R \<longleftrightarrow>
     (\<forall>r. fst r \<notin> bc_txid B ` set txs \<longrightarrow> R r = base r) \<and>
     (\<forall>r e. fst r \<in> bc_txid B ` set txs \<longrightarrow> R r = Some e \<longrightarrow> own_entry B height txs r e)"

lemma put_outputs_inv:
  "put_outputs B height (bc_txid B tx) transfers k outs p = Inr p' \<Longrightarrow> tx \<in> set txs \<Longrightarrow>
   k + length outs \<le> length (tx_output tx) \<Longrightarrow> (\<And>i. i < length outs \<Longrightarrow> fst (outs ! i) = tx_output tx ! (k + i)) \<Longrightarrow>
   resolver_inv B height txs base (pr_resolver p) \<Longrightarrow> resolver_inv B height txs base (pr_resolver p')"
proof (induction outs arbitrary: k p)
  case (Cons x outs)
  obtain out dunes inscs where x: "x = (out, dunes, inscs)" by (cases x)
  let ?r = "(bc_txid B tx, word_of_nat k)"
  obtain sd where sd: "storage_dunes dunes = Some sd" using Cons.prems(1) by (auto simp: x split: option.splits)
  let ?body = "\<lparr>tb_height = height, tb_raw = bc_encode_txout B out, tb_ord_ranges = [], tb_dunes = sd, tb_inscriptions = inscs,
    tb_unused_brc20_transfers = filter (\<lambda>(i, _). i \<in> set (map snd inscs)) transfers\<rparr>"
  let ?p = "p\<lparr>pr_resolver := (pr_resolver p)(?r \<mapsto> ?body), pr_mem := remember ?r ?body (pr_mem p)\<rparr>"
  have run: "put_outputs B height (bc_txid B tx) transfers (Suc k) outs ?p = Inr p'"
    using Cons.prems(1) sd by (simp add: x Let_def)
  have "out = tx_output tx ! k" "k < length (tx_output tx)" using Cons.prems(3) Cons.prems(4) [of 0] x by simp_all
  then have "own_entry B height txs ?r ?body" using Cons.prems(2) by (auto simp: own_entry_def)
  then have inv: "resolver_inv B height txs base (pr_resolver ?p)"
    using Cons.prems(2,5) by (auto simp: resolver_inv_def)
  have "fst (outs ! i) = tx_output tx ! (Suc k + i)" if "i < length outs" for i
    using Cons.prems(4) [of "Suc i"] that by simp
  from Cons.IH [OF run Cons.prems(2) _ this inv] show ?case using Cons.prems(3) by simp
qed simp

lemma put_zip_inv:
  assumes "put_outputs B height (bc_txid B tx) transfers 0 (zip (tx_output tx) xs) p = Inr p'" "tx \<in> set txs"
    "resolver_inv B height txs base (pr_resolver p)"
  shows "resolver_inv B height txs base (pr_resolver p')"
  using put_outputs_inv [OF assms(1,2) _ _ assms(3)] by simp

lemma process_txs_inv:
  "process_txs C cs height idx todo p = Inr p' \<Longrightarrow> set todo \<subseteq> set txs \<Longrightarrow>
   resolver_inv (cr_bitcoin C) height txs base (pr_resolver p) \<Longrightarrow> resolver_inv (cr_bitcoin C) height txs base (pr_resolver p')"
proof (induction todo arbitrary: idx p)
  case (Cons tx todo)
  obtain q where q: "process_tx C cs height idx tx p = Inr q" "process_txs C cs height (idx + 1) todo q = Inr p'"
    using Cons.prems(1) by (auto simp: and_then_Inr_iff)
  obtain dunes p1 inscs trs p2 p3 where steps: "run_dunes C cs height idx tx p = Inr (dunes, p1)"
    "run_inscriptions C cs height tx (bc_txid (cr_bitcoin C) tx) p1 = Inr ((inscs, trs), p2)" "take_inputs (tx_refs tx) p2 = Inr p3"
    "put_outputs (cr_bitcoin C) height (bc_txid (cr_bitcoin C) tx) trs 0 (zip (tx_output tx) (zip dunes inscs)) p3 = Inr q"
    using q(1) by (auto simp: process_tx_def Let_def and_then_Inr_iff)
  have "pr_resolver p3 = pr_resolver p"
    using run_dunes_resolver [OF steps(1)] run_inscriptions_resolver [OF steps(2)] take_inputs_resolver [OF steps(3)] by simp
  then have "resolver_inv (cr_bitcoin C) height txs base (pr_resolver q)"
    using put_zip_inv [OF steps(4)] Cons.prems(2,3) by simp
  then show ?case using Cons.IH [OF q(2)] Cons.prems(2) by simp
qed simp

text \<open>After processing: inputs from other blocks are as in the table, own outputs as written.\<close>

text \<open>A successful run, step by step: the coinbase's dunes, the transactions, the coinbase's inscriptions.\<close>

lemma resolve_and_process_steps:
  assumes run: "resolve_and_process C cs mem height block counters = Inr p"
  obtains coinbase rest p0 dunes p1 p2 inscs trs p3 where
    "bl_txdata block = coinbase # rest" "pr_insc p0 = cd_insc (cs_tables cs)" "pr_brc20 p0 = []"
    "pr_resolver p0 = fst (fetch_inputs (cd_txos (cs_tables cs))
       (filter (\<lambda>r. fst r \<notin> set (map (bc_txid (cr_bitcoin C)) (bl_txdata block))) (block_input_refs (bl_txdata block))) (Map.empty, mem))"
    "run_dunes C cs height 0 coinbase p0 = Inr (dunes, p1)" "process_txs C cs height 1 rest p1 = Inr p2"
    "run_inscriptions C cs height coinbase (bc_txid (cr_bitcoin C) coinbase) p2 = Inr ((inscs, trs), p3)"
    "put_outputs (cr_bitcoin C) height (bc_txid (cr_bitcoin C) coinbase) trs 0 (zip (tx_output coinbase) (zip dunes inscs)) p3 = Inr p"
proof -
  let ?B = "cr_bitcoin C" and ?txs = "bl_txdata block"
  let ?needed = "filter (\<lambda>r. fst r \<notin> set (map (bc_txid ?B) ?txs)) (block_input_refs ?txs)"
  obtain res mem' where f: "fetch_inputs (cd_txos (cs_tables cs)) ?needed (Map.empty, mem) = (res, mem')"
    by (cases "fetch_inputs (cd_txos (cs_tables cs)) ?needed (Map.empty, mem)")
  have "?txs \<noteq> []" using run by (auto simp: resolve_and_process_def Let_def split: prod.splits)
  then obtain coinbase rest where cb: "?txs = coinbase # rest" by (auto simp: neq_Nil_conv)
  define p0 where "p0 = \<lparr>pr_resolver = res, pr_mem = mem', pr_dunes = cd_dunes (cs_tables cs), pr_insc = cd_insc (cs_tables cs),
    pr_state = \<lparr>st_counters = counters, st_reward = bc_subsidy ?B (ucast height), st_cb = [], st_new = []\<rparr>,
    pr_etches = [], pr_mints = [], pr_brc20 = []\<rparr>"
  obtain dunes p1 p2 inscs trs p3 where steps: "run_dunes C cs height 0 coinbase p0 = Inr (dunes, p1)"
    "process_txs C cs height 1 rest p1 = Inr p2"
    "run_inscriptions C cs height coinbase (bc_txid ?B coinbase) p2 = Inr ((inscs, trs), p3)"
    "put_outputs ?B height (bc_txid ?B coinbase) trs 0 (zip (tx_output coinbase) (zip dunes inscs)) p3 = Inr p"
    using run f cb unfolding resolve_and_process_def p0_def by (auto simp: Let_def and_then_Inr_iff)
  have p0: "pr_insc p0 = cd_insc (cs_tables cs)" "pr_brc20 p0 = []"
    "pr_resolver p0 = fst (fetch_inputs (cd_txos (cs_tables cs)) ?needed (Map.empty, mem))"
    unfolding f by (simp_all add: p0_def)
  show thesis by (rule that [OF cb p0 steps])
qed

lemma processed_resolver:
  assumes run: "resolve_and_process C cs mem height block counters = Inr p" and mem: "mem_agrees mem (cd_txos (cs_tables cs))"
    and txs: "txs = bl_txdata block" and B: "B = cr_bitcoin C"
  shows "resolver_inv B height txs (\<lambda>r. if r \<in> set (block_input_refs txs) then cd_txos (cs_tables cs) r else None) (pr_resolver p)"
proof -
  let ?base = "\<lambda>r. if r \<in> set (block_input_refs txs) then cd_txos (cs_tables cs) r else None"
  let ?needed = "filter (\<lambda>r. fst r \<notin> set (map (bc_txid B) txs)) (block_input_refs txs)"
  obtain res mem' where f: "fetch_inputs (cd_txos (cs_tables cs)) ?needed (Map.empty, mem) = (res, mem')"
    by (cases "fetch_inputs (cd_txos (cs_tables cs)) ?needed (Map.empty, mem)")
  obtain coinbase rest p0 dunes p1 p2 inscs trs p3 where cb: "txs = coinbase # rest" and p0: "pr_resolver p0 = res" and
    steps: "run_dunes C cs height 0 coinbase p0 = Inr (dunes, p1)" "process_txs C cs height 1 rest p1 = Inr p2"
    "run_inscriptions C cs height coinbase (bc_txid B coinbase) p2 = Inr ((inscs, trs), p3)"
    "put_outputs B height (bc_txid B coinbase) trs 0 (zip (tx_output coinbase) (zip dunes inscs)) p3 = Inr p"
    by (rule resolve_and_process_steps [OF run]) (use f txs B in auto)
  have "res r = (if r \<in> set ?needed \<and> cd_txos (cs_tables cs) r \<noteq> None then cd_txos (cs_tables cs) r else None)" for r
    using fetch_inputs_apply [OF mem f, of r] by simp
  then have "resolver_inv B height txs ?base res" by (auto simp: resolver_inv_def)
  then have "resolver_inv B height txs ?base (pr_resolver p2)"
    using process_txs_inv [OF steps(2), of txs ?base] run_dunes_resolver [OF steps(1)] p0 cb B by auto
  then show ?thesis using put_zip_inv [OF steps(4), of txs] run_inscriptions_resolver [OF steps(3)] cb by simp
qed

section \<open>Well-formed blocks\<close>

text \<open>
  The rules of the chain the compressor relies on: transactions have different identifiers that are
  new, no output is spent twice, and what is spent was there or comes from an earlier transaction of
  the block; the coinbase spends nothing.
\<close>

definition block_ok :: "BitcoinCrate \<Rightarrow> Transaction list \<Rightarrow> (TxoRef \<rightharpoonup> TxoBody) \<Rightarrow> bool" where
  "block_ok B txs txos \<longleftrightarrow>
     distinct (map (bc_txid B) txs) \<and> (\<forall>tx\<in>set txs. length (tx_output tx) \<le> 2 ^ 32) \<and>
     (\<forall>r. fst r \<in> bc_txid B ` set txs \<longrightarrow> txos r = None) \<and>
     distinct (concat (map tx_refs (drop 1 txs))) \<and>
     (\<forall>tx\<in>set (take 1 txs). \<forall>r\<in>set (tx_refs tx). txos r = None \<and> fst r \<notin> bc_txid B ` set txs) \<and>
     (\<forall>n<length txs. n \<noteq> 0 \<longrightarrow> (\<forall>r\<in>set (tx_refs (txs ! n)). txos r \<noteq> None \<or> r \<in> set (output_refs B (take n txs))))"

lemma output_refs_iff: "r \<in> set (output_refs B txs) \<longleftrightarrow> (\<exists>tx\<in>set txs. r \<in> tx_outs B tx)"
  by (auto simp: output_refs_def tx_outs_def)

lemma tx_outs_fst: "r \<in> tx_outs B tx \<Longrightarrow> fst r = bc_txid B tx"
  by (auto simp: tx_outs_image)

lemma output_refs_fst: "r \<in> set (output_refs B txs) \<Longrightarrow> fst r \<in> bc_txid B ` set txs"
  by (auto simp: output_refs_def)

lemma raws_from_inv:
  assumes "resolver_inv B height txs base R" "distinct (map (bc_txid B) txs)" "\<forall>tx\<in>set txs. length (tx_output tx) \<le> 2 ^ 32"
  shows "raws_ok B height R txs"
  unfolding raws_ok_def
proof (intro ballI allI impI)
  fix tx j e
  assume tx: "tx \<in> set txs" and j: "j < length (tx_output tx)" and e: "R (bc_txid B tx, word_of_nat j) = Some e"
  then obtain tx' j' where o: "tx' \<in> set txs" "j' < length (tx_output tx')"
    "(bc_txid B tx, word_of_nat j :: u32) = (bc_txid B tx', word_of_nat j')"
    "tb_height e = height" "tb_raw e = bc_encode_txout B (tx_output tx' ! j')"
    using assms(1) unfolding resolver_inv_def own_entry_def by (metis fst_conv imageI)
  have "tx' = tx" using o(1,3) tx assms(2) by (auto simp: distinct_map inj_on_def)
  moreover have "j' = j"
  proof -
    have "j < 2 ^ 32" "j' < 2 ^ 32" using j o(1,2) tx assms(3) by (auto intro: less_le_trans)
    then have "unat (word_of_nat j :: u32) = j" "unat (word_of_nat j' :: u32) = j'" by (simp_all add: unat_of_nat_small)
    moreover have "(word_of_nat j :: u32) = word_of_nat j'" using o(3) by (simp only: prod.inject)
    ultimately show ?thesis by metis
  qed
  ultimately show "tb_height e = height \<and> tb_raw e = bc_encode_txout B (tx_output tx ! j)" using o by simp
qed

lemma store_outputs_resolved:
  "store_outputs B height R txid k outs txos = Inr txos' \<Longrightarrow> j \<in> {k..<k + length outs} \<Longrightarrow> R (txid, word_of_nat j) \<noteq> None"
proof (induction outs arbitrary: k txos)
  case (Cons out outs)
  then show ?case by (cases "j = k") (auto split: option.splits)
qed simp

lemma store_txs_resolved:
  "store_txs B height R txs txos = Inr txos' \<Longrightarrow> tx \<in> set txs \<Longrightarrow> r \<in> tx_outs B tx \<Longrightarrow> R r \<noteq> None"
proof (induction txs arbitrary: txos)
  case (Cons x txs)
  obtain mid where mid: "store_outputs B height R (bc_txid B x) 0 (tx_output x) txos = Inr mid"
    "store_txs B height R txs (remove_refs (tx_refs x) mid) = Inr txos'"
    using Cons.prems(1) by (auto simp: and_then_Inr_iff)
  show ?case
  proof (cases "tx = x")
    case True
    then show ?thesis using Cons.prems(3) store_outputs_resolved [OF mid(1)] by (auto simp: tx_outs_image)
  next
    case False
    then show ?thesis using Cons.IH [OF mid(2)] Cons.prems(2,3) by simp
  qed
qed simp

text \<open>The outputs in the table while the block is stored: spent, produced, or from before.\<close>

definition mid_txos :: "BitcoinCrate \<Rightarrow> (TxoRef \<rightharpoonup> TxoBody) \<Rightarrow> (TxoRef \<rightharpoonup> TxoBody) \<Rightarrow> Transaction list \<Rightarrow> (TxoRef \<rightharpoonup> TxoBody)" where
  "mid_txos B R txos past = (\<lambda>r. if r \<in> set (concat (map tx_refs past)) then None
     else if r \<in> set (output_refs B past) then R r else txos r)"

lemma spent_earlier:
  assumes ok: "block_ok B txs txos" and txs: "txs = past @ tx # rest"
    and r: "r \<in> set (concat (map tx_refs past))"
  shows "r \<notin> tx_outs B tx" "past \<noteq> [] \<Longrightarrow> r \<notin> set (tx_refs tx)"
proof -
  obtain x where "x \<in> set past" "r \<in> set (tx_refs x)" using r by auto
  then obtain m where m: "m < length past" "r \<in> set (tx_refs (past ! m))" by (metis in_set_conv_nth)
  have at: "txs ! m = past ! m" "m < length txs" "take m txs = take m past" using m txs by (simp_all add: nth_append)
  have new: "bc_txid B tx \<notin> bc_txid B ` set past" using ok txs by (auto simp: block_ok_def)
  have mem: "bc_txid B tx \<in> bc_txid B ` set txs" using txs by simp
  have cases_r: "(m = 0 \<and> txos r = None \<and> fst r \<notin> bc_txid B ` set txs) \<or>
      (m \<noteq> 0 \<and> (txos r \<noteq> None \<or> r \<in> set (output_refs B (take m past))))"
  proof (cases "m = 0")
    case True
    then have "past ! 0 \<in> set (take 1 txs)" using m txs by (cases past) auto
    then show ?thesis using ok True m(2) unfolding block_ok_def by blast
  next
    case False
    then show ?thesis using ok m(2) at unfolding block_ok_def by metis
  qed
  have early: "fst r \<in> bc_txid B ` set past" if "r \<in> set (output_refs B (take m past))"
    using output_refs_fst [OF that] by (auto dest: in_set_takeD)
  show "r \<notin> tx_outs B tx"
  proof
    assume o: "r \<in> tx_outs B tx"
    then have "fst r = bc_txid B tx" by (rule tx_outs_fst)
    then show False using cases_r early new mem ok unfolding block_ok_def by metis
  qed
  show "r \<notin> set (tx_refs tx)" if "past \<noteq> []"
  proof
    assume rt: "r \<in> set (tx_refs tx)"
    have n: "txs ! length past = tx" "length past < length txs" "take (length past) txs = past" using txs by simp_all
    then have "txos r \<noteq> None \<or> r \<in> set (output_refs B past)" using ok rt that unfolding block_ok_def by (metis length_0_conv)
    moreover have "fst r \<in> bc_txid B ` set past" if "r \<in> set (output_refs B past)" using that by (rule output_refs_fst)
    ultimately have "m \<noteq> 0" using cases_r txs by auto
    then have "past ! m \<in> set (drop 1 past)" using m(1) by (auto simp: in_set_conv_nth intro!: exI [of _ "m - 1"])
    then have "r \<in> set (concat (map tx_refs (drop 1 past)))" using m(2) by auto
    moreover have "drop 1 txs = drop 1 past @ tx # rest" using txs that by (cases past) simp_all
    ultimately show False using ok rt unfolding block_ok_def by auto
  qed
qed

lemma mid_txos_step:
  assumes ok: "block_ok B txs txos" and txs: "txs = past @ tx # rest"
  shows "mid_txos B R txos (past @ [tx]) =
    (\<lambda>r. if r \<in> set (tx_refs tx) then None else if r \<in> tx_outs B tx then R r else mid_txos B R txos past r)"
proof
  fix r
  have "r \<in> set (output_refs B (past @ [tx])) \<longleftrightarrow> r \<in> tx_outs B tx \<or> r \<in> set (output_refs B past)"
    by (auto simp: output_refs_iff)
  then show "mid_txos B R txos (past @ [tx]) r =
    (if r \<in> set (tx_refs tx) then None else if r \<in> tx_outs B tx then R r else mid_txos B R txos past r)"
    using spent_earlier(1) [OF assms] by (auto simp: mid_txos_def)
qed

lemma block_spends_ok:
  assumes ok: "block_ok B txs txos" and txs: "txs = past @ rest"
    and base: "\<And>r. fst r \<notin> bc_txid B ` set txs \<Longrightarrow> R r = (if r \<in> set (block_input_refs txs) then txos r else None)"
    and own: "\<And>tx r. tx \<in> set txs \<Longrightarrow> r \<in> tx_outs B tx \<Longrightarrow> R r \<noteq> None"
  shows "spends_ok B R (length past) rest (mid_txos B R txos past)"
  using txs
proof (induction rest arbitrary: past)
  case (Cons tx rest)
  let ?n = "length past" and ?T = "mid_txos B R txos past"
  have new: "bc_txid B tx \<notin> bc_txid B ` set past" using ok Cons.prems by (auto simp: block_ok_def)
  have ids: "bc_txid B tx \<in> bc_txid B ` set txs" using Cons.prems by simp
  have fresh: "?T r = None" if "r \<in> tx_outs B tx" for r
  proof -
    have f: "fst r = bc_txid B tx" using that by (rule tx_outs_fst)
    then have "r \<notin> set (output_refs B past)" using new output_refs_fst by metis
    moreover have "txos r = None" using ok f ids unfolding block_ok_def by metis
    ultimately show ?thesis by (simp add: mid_txos_def)
  qed
  have inputs: "distinct (tx_refs tx) \<and> (\<forall>r\<in>set (tx_refs tx). r \<notin> tx_outs B tx \<and> ?T r = R r \<and> R r \<noteq> None)" if n: "?n \<noteq> 0"
  proof -
    have d: "drop 1 txs = drop 1 past @ tx # rest" using Cons.prems n by (cases past) simp_all
    then have "distinct (tx_refs tx)" using ok by (simp add: block_ok_def)
    moreover have "r \<notin> tx_outs B tx \<and> ?T r = R r \<and> R r \<noteq> None" if r: "r \<in> set (tx_refs tx)" for r
    proof -
      have at: "txs ! ?n = tx" "?n < length txs" "take ?n txs = past" using Cons.prems by simp_all
      have src: "txos r \<noteq> None \<or> r \<in> set (output_refs B past)" using ok r n at unfolding block_ok_def by metis
      have notspent: "r \<notin> set (concat (map tx_refs past))" using spent_earlier(2) [OF ok Cons.prems, of r] n r by (metis length_0_conv)
      show ?thesis
      proof (cases "r \<in> set (output_refs B past)")
        case True
        have "fst r \<in> bc_txid B ` set past" using True by (rule output_refs_fst)
        then have "r \<notin> tx_outs B tx" using new tx_outs_fst by metis
        moreover have "R r \<noteq> None" using True own unfolding output_refs_iff Cons.prems by (metis UnI1 set_append)
        ultimately show ?thesis using True notspent by (simp add: mid_txos_def)
      next
        case False
        then have some: "txos r \<noteq> None" using src by blast
        then have out: "fst r \<notin> bc_txid B ` set txs" using ok unfolding block_ok_def by metis
        have "r \<in> set (block_input_refs txs)" using r d by (simp add: block_input_refs_def)
        then have "R r = txos r" using base [OF out] by simp
        moreover have "r \<notin> tx_outs B tx" using out ids tx_outs_fst by metis
        ultimately show ?thesis using some False notspent by (simp add: mid_txos_def)
      qed
    qed
    ultimately show ?thesis by blast
  qed
  have coinbase: "(if r \<in> tx_outs B tx then R r else ?T r) = None" if "?n = 0" "r \<in> set (tx_refs tx)" for r
  proof -
    have "tx \<in> set (take 1 txs)" using Cons.prems that(1) by simp
    then have "txos r = None \<and> fst r \<notin> bc_txid B ` set txs" using ok that(2) unfolding block_ok_def by blast
    moreover have "r \<notin> tx_outs B tx" using calculation ids tx_outs_fst by metis
    ultimately show ?thesis using that(1) by (simp add: mid_txos_def output_refs_def)
  qed
  have "spends_ok B R (Suc ?n) rest (\<lambda>r. if r \<in> set (tx_refs tx) then None else if r \<in> tx_outs B tx then R r else ?T r)"
    using Cons.IH [of "past @ [tx]"] Cons.prems mid_txos_step [OF ok Cons.prems, of R] by simp
  then show ?case using fresh inputs coinbase by (simp add: Let_def)
qed simp

section \<open>The ledger over a block\<close>

lemma run_inscriptions_logged:
  assumes "logged db (pr_insc p, pr_brc20 p)" "run_inscriptions C cs height tx txid p = Inr (x, p')"
  shows "logged db (pr_insc p', pr_brc20 p')"
proof (cases "height \<ge> cs_first_inscription_height cs")
  case True
  then obtain r st db' where r: "index_inscriptions (cr_bitcoin C) (cr_text C) (pr_resolver p) height tx txid (pr_state p) (pr_insc p) = Inr (r, st, db')"
    "pr_insc p' = db'" "pr_brc20 p' = pr_brc20 p @ ix_brc20_resolver r"
    using assms(2) by (auto simp: run_inscriptions_def split: sum.splits InscriptionError.splits prod.splits)
  have "ledger_equiv (undo_brc20 (pr_brc20 p) (undo_brc20 (ix_brc20_resolver r) db')) (undo_brc20 (pr_brc20 p) (pr_insc p))"
    using index_inscriptions_logged [OF r(1)] by (rule undo_brc20_cong)
  then show ?thesis using assms(1) ledger_equiv_trans by (auto simp: logged_def r undo_brc20_append)
qed (use assms in \<open>auto simp: run_inscriptions_def\<close>)

lemma keeps_ledger:
  "run_dunes C cs height idx tx p = Inr (x, p') \<Longrightarrow> pr_insc p' = pr_insc p \<and> pr_brc20 p' = pr_brc20 p"
  "take_inputs rs p = Inr p' \<Longrightarrow> pr_insc p' = pr_insc p \<and> pr_brc20 p' = pr_brc20 p"
  "put_outputs B height txid trs k outs p = Inr p' \<Longrightarrow> pr_insc p' = pr_insc p \<and> pr_brc20 p' = pr_brc20 p"
proof -
  show "run_dunes C cs height idx tx p = Inr (x, p') \<Longrightarrow> pr_insc p' = pr_insc p \<and> pr_brc20 p' = pr_brc20 p"
    by (auto simp: run_dunes_def split: if_splits sum.splits IndexError.splits option.splits)
  show "take_inputs rs p = Inr p' \<Longrightarrow> pr_insc p' = pr_insc p \<and> pr_brc20 p' = pr_brc20 p"
    by (induction rs arbitrary: p) (auto split: option.splits)
  show "put_outputs B height txid trs k outs p = Inr p' \<Longrightarrow> pr_insc p' = pr_insc p \<and> pr_brc20 p' = pr_brc20 p"
    by (induction B height txid trs k outs p rule: put_outputs.induct) (auto simp: Let_def split: option.splits)
qed

lemma process_txs_logged:
  "process_txs C cs height idx txs p = Inr p' \<Longrightarrow> logged db (pr_insc p, pr_brc20 p) \<Longrightarrow> logged db (pr_insc p', pr_brc20 p')"
proof (induction txs arbitrary: idx p)
  case (Cons tx txs)
  obtain q where q: "process_tx C cs height idx tx p = Inr q" "process_txs C cs height (idx + 1) txs q = Inr p'"
    using Cons.prems(1) by (auto simp: and_then_Inr_iff)
  obtain dunes p1 inscs trs p2 p3 where steps: "run_dunes C cs height idx tx p = Inr (dunes, p1)"
    "run_inscriptions C cs height tx (bc_txid (cr_bitcoin C) tx) p1 = Inr ((inscs, trs), p2)" "take_inputs (tx_refs tx) p2 = Inr p3"
    "put_outputs (cr_bitcoin C) height (bc_txid (cr_bitcoin C) tx) trs 0 (zip (tx_output tx) (zip dunes inscs)) p3 = Inr q"
    using q(1) by (auto simp: process_tx_def Let_def and_then_Inr_iff)
  have "logged db (pr_insc q, pr_brc20 q)"
    using run_inscriptions_logged [OF _ steps(2), of db] Cons.prems(2) keeps_ledger(1) [OF steps(1)] keeps_ledger(2) [OF steps(3)]
      keeps_ledger(3) [OF steps(4)] by simp
  with q(2) show ?case by (rule Cons.IH)
qed simp

lemma processed_logged:
  assumes run: "resolve_and_process C cs mem height block counters = Inr p"
  shows "logged (cd_insc (cs_tables cs)) (pr_insc p, pr_brc20 p)"
proof (rule resolve_and_process_steps [OF run])
  fix coinbase p0 dunes p1 rest p2 inscs trs p3
  assume p0: "pr_insc p0 = cd_insc (cs_tables cs)" "pr_brc20 p0 = []"
    and steps: "run_dunes C cs height 0 coinbase p0 = Inr (dunes, p1)" "process_txs C cs height 1 rest p1 = Inr p2"
    "run_inscriptions C cs height coinbase (bc_txid (cr_bitcoin C) coinbase) p2 = Inr ((inscs, trs), p3)"
    "put_outputs (cr_bitcoin C) height (bc_txid (cr_bitcoin C) coinbase) trs 0 (zip (tx_output coinbase) (zip dunes inscs)) p3 = Inr p"
  have "logged (cd_insc (cs_tables cs)) (pr_insc p1, pr_brc20 p1)"
    using keeps_ledger(1) [OF steps(1)] p0 by (simp add: logged_def undo_brc20_def ledger_equiv_refl)
  from run_inscriptions_logged [OF process_txs_logged [OF steps(2) this] steps(3)]
  show ?thesis using keeps_ledger(3) [OF steps(4)] by simp
qed

section \<open>The block as a whole\<close>

lemma map_of_resolved: "map_of (resolved R rs) r = (if r \<in> set rs then R r else None)"
  by (induction rs) (auto simp: resolved_def List.map_filter_def split: option.splits)

text \<open>What an applied block leaves behind.\<close>

lemma apply_block_parts:
  assumes "apply_block_with_context C height block mutable mem cs = Inr (mem', cs')"
  obtains counters p txos where
    "counters = (case cd_counters (cs_tables cs) of None \<Rightarrow> zero_counters | Some c \<Rightarrow> c)"
    "resolve_and_process C cs mem height block counters = Inr p"
    "store_txs (cr_bitcoin C) height (pr_resolver p) (bl_txdata block) (cd_txos (cs_tables cs)) = Inr txos"
    "cs' = cs\<lparr>cs_tables := (cs_tables cs)\<lparr>
       cd_blocks := tbl_put height (cr_block_hash C block, cr_encode_block C block) (cd_blocks (cs_tables cs)),
       cd_resolvers := tbl_put height (resolver_entry C block counters p) (cd_resolvers (cs_tables cs)), cd_txos := txos,
       cd_dunes := pr_dunes p, cd_insc := pr_insc p, cd_counters := Some (st_counters (pr_state p)),
       cd_mutable := log_block cs height mutable
         (LApply height (cr_block_hash C block) (cr_encode_block C block) (resolver_entry C block counters p))\<rparr>,
       cs_next_wal_seq := cs_next_wal_seq cs + 1, cs_last_block_hash := Some (cr_block_hash C block)\<rparr>"
    "\<And>h. cs_last_block_hash cs = Some h \<Longrightarrow> bl_prev block = h"
proof -
  let ?t = "cs_tables cs"
  let ?counters = "case cd_counters ?t of None \<Rightarrow> zero_counters | Some c \<Rightarrow> c"
  have nm: "\<not> (case cs_last_block_hash cs of None \<Rightarrow> False | Some h \<Rightarrow> bl_prev block \<noteq> h)"
    using assms unfolding apply_block_with_context_def Let_def by (metis Inl_Inr_False)
  then obtain p txos where p: "resolve_and_process C cs mem height block ?counters = Inr p"
    "store_txs (cr_bitcoin C) height (pr_resolver p) (bl_txdata block) (cd_txos ?t) = Inr txos"
    using assms unfolding apply_block_with_context_def Let_def by (simp only: if_False and_then_Inr_iff) blast
  have run: "cs' = cs\<lparr>cs_tables := ?t\<lparr>
       cd_blocks := tbl_put height (cr_block_hash C block, cr_encode_block C block) (cd_blocks ?t),
       cd_resolvers := tbl_put height (resolver_entry C block ?counters p) (cd_resolvers ?t), cd_txos := txos,
       cd_dunes := pr_dunes p, cd_insc := pr_insc p, cd_counters := Some (st_counters (pr_state p)),
       cd_mutable := log_block cs height mutable
         (LApply height (cr_block_hash C block) (cr_encode_block C block) (resolver_entry C block ?counters p))\<rparr>,
       cs_next_wal_seq := cs_next_wal_seq cs + 1, cs_last_block_hash := Some (cr_block_hash C block)\<rparr>"
    using assms nm p unfolding apply_block_with_context_def Let_def by (simp only: if_False and_then.simps) simp
  show thesis by (rule that [OF refl p run]) (use nm in \<open>simp split: option.splits\<close>)
qed

lemma applied_txs_undone:
  assumes p: "resolve_and_process C cs mem height block counters = Inr p"
    and st: "store_txs (cr_bitcoin C) height (pr_resolver p) (bl_txdata block) (cd_txos (cs_tables cs)) = Inr txos"
    and mem: "mem_agrees mem (cd_txos (cs_tables cs))"
    and ok: "block_ok (cr_bitcoin C) (bl_txdata block) (cd_txos (cs_tables cs))"
    and t: "cd_txos t = txos"
    and d: "undo_all_dunes (cr_bitcoin C) height mints (rev (List.enumerate 0 (bl_txdata block))) (cd_dunes t) = Some d"
  shows "\<exists>res' t'. undo_txs (cr_bitcoin C) height mints (rev (List.enumerate 0 (bl_txdata block)))
      (map_of (re_resolver (resolver_entry C block counters p)), t) = Inr (res', t') \<and>
    cd_txos t' = cd_txos (cs_tables cs) \<and> cd_dunes t' = d \<and> same_rest t t'"
proof -
  let ?B = "cr_bitcoin C" and ?txs = "bl_txdata block" and ?old = "cd_txos (cs_tables cs)" and ?R = "pr_resolver p"
  have inv: "resolver_inv ?B height ?txs (\<lambda>r. if r \<in> set (block_input_refs ?txs) then ?old r else None) ?R"
    by (rule processed_resolver [OF p mem refl refl])
  have raws: "raws_ok ?B height ?R ?txs" by (rule raws_from_inv [OF inv]) (use ok in \<open>auto simp: block_ok_def\<close>)
  have base: "?R r = (if r \<in> set (block_input_refs ?txs) then ?old r else None)" if "fst r \<notin> bc_txid ?B ` set ?txs" for r
    using inv that unfolding resolver_inv_def by blast
  have "spends_ok ?B ?R (length ([] :: Transaction list)) ?txs (mid_txos ?B ?R ?old [])"
    by (rule block_spends_ok [OF ok]) (use base store_txs_resolved [OF st] in \<open>simp_all\<close>)
  then have spends: "spends_ok ?B ?R 0 ?txs ?old" by (simp add: mid_txos_def output_refs_def)
  have dis: "distinct (concat (map tx_refs (drop 1 ?txs)))" using ok by (simp add: block_ok_def)
  have "\<forall>r\<in>set (concat (map tx_refs (drop 1 ?txs))). map_of (re_resolver (resolver_entry C block counters p)) r = ?R r"
    by (simp add: resolver_entry_def Let_def map_of_resolved block_input_refs_def)
  with dis show ?thesis
    using undo_txs_restores [OF st spends raws t d, of "map_of (re_resolver (resolver_entry C block counters p))"]
    unfolding if_True simp_thms by blast
qed

text \<open>The block at height h, with the given hash, is the last one.\<close>

definition chain_tip :: "u64 \<Rightarrow> bytes \<Rightarrow> ChainTables \<Rightarrow> bool" where
  "chain_tip h hash t \<longleftrightarrow> tbl_ok (cd_blocks t) \<and> tbl_ok (cd_resolvers t) \<and> map_option fst (tbl_get (cd_blocks t) h) = Some hash \<and>
     (\<forall>k. h < k \<longrightarrow> tbl_get (cd_blocks t) k = None \<and> tbl_get (cd_resolvers t) k = None)"

lemma rollback_undoes:
  assumes app: "apply_block_with_context C height block mutable mem cs = Inr (mem', cs')"
    and decode: "cr_decode_block C (cr_encode_block C block) = Some block"
    and mem: "mem_agrees mem (cd_txos (cs_tables cs))"
    and ok: "block_ok (cr_bitcoin C) (bl_txdata block) (cd_txos (cs_tables cs))"
    and tip: "chain_tip h hash (cs_tables cs)" and h: "h < height"
    and dunes: "undo_all_dunes (cr_bitcoin C) height (re_mints (the (tbl_get (cd_resolvers (cs_tables cs')) height)))
      (rev (List.enumerate 0 (bl_txdata block))) (cd_dunes (cs_tables cs')) = Some d"
  shows "\<exists>cs''. rollback C h hash m cs' = Inr cs'' \<and>
    cd_txos (cs_tables cs'') = cd_txos (cs_tables cs) \<and> cd_blocks (cs_tables cs'') = cd_blocks (cs_tables cs) \<and>
    cd_resolvers (cs_tables cs'') = cd_resolvers (cs_tables cs) \<and> ledger_equiv (cd_insc (cs_tables cs'')) (cd_insc (cs_tables cs)) \<and>
    cd_counters (cs_tables cs'') = Some (case cd_counters (cs_tables cs) of None \<Rightarrow> zero_counters | Some c \<Rightarrow> c) \<and>
    cd_dunes (cs_tables cs'') = d \<and> cs_last_block_hash cs'' = Some hash"
proof -
  let ?B = "cr_bitcoin C" and ?t = "cs_tables cs" and ?hash = "cr_block_hash C block" and ?body = "cr_encode_block C block"
  obtain counters p txos where counters: "counters = (case cd_counters ?t of None \<Rightarrow> zero_counters | Some c \<Rightarrow> c)"
    and p: "resolve_and_process C cs mem height block counters = Inr p"
    and st: "store_txs ?B height (pr_resolver p) (bl_txdata block) (cd_txos ?t) = Inr txos"
    and cs': "cs_tables cs' = ?t\<lparr>cd_blocks := tbl_put height (?hash, ?body) (cd_blocks ?t),
       cd_resolvers := tbl_put height (resolver_entry C block counters p) (cd_resolvers ?t), cd_txos := txos,
       cd_dunes := pr_dunes p, cd_insc := pr_insc p, cd_counters := Some (st_counters (pr_state p)),
       cd_mutable := log_block cs height mutable (LApply height ?hash ?body (resolver_entry C block counters p))\<rparr>"
    by (rule apply_block_parts [OF app]) simp
  let ?re = "resolver_entry C block counters p"
  obtain tipbytes where tips: "tbl_get (cd_blocks ?t) h = Some (hash, tipbytes)" using tip by (auto simp: chain_tip_def)
  have oks: "tbl_ok (cd_blocks ?t)" "tbl_ok (cd_resolvers ?t)" using tip by (auto simp: chain_tip_def)
  have none: "tbl_get (cd_blocks ?t) k = None" "tbl_get (cd_resolvers ?t) k = None" if "h < k" for k
    using tip that by (auto simp: chain_tip_def)
  have "tbl_from h (cd_blocks (cs_tables cs')) = [(h, hash, tipbytes), (height, ?hash, ?body)]"
    unfolding cs' using kv.above_put_last [OF oks(1) tips none(1) h] by simp
  moreover have re: "tbl_get (cd_resolvers (cs_tables cs')) height = Some ?re"
    unfolding cs' by (simp add: tbl_get_put oks)
  define seq t1 where "seq = (if m then cs_next_wal_seq cs' + 1 else cs_next_wal_seq cs')" and
    "t1 = (if m then (cs_tables cs')\<lparr>cd_mutable := tbl_put (cs_next_wal_seq cs') (LUndo height ?hash ?body) (cd_mutable (cs_tables cs'))\<rparr>
       else cs_tables cs')\<lparr>cd_blocks := tbl_del height (cd_blocks (cs_tables cs')), cd_counters := Some counters,
       cd_insc := undo_brc20 (pr_brc20 p) (pr_insc p)\<rparr>"
  have t1: "cd_txos t1 = txos" "cd_dunes t1 = cd_dunes (cs_tables cs')" "cd_counters t1 = Some counters"
    "cd_blocks t1 = cd_blocks ?t" "cd_resolvers t1 = tbl_put height ?re (cd_resolvers ?t)" "cd_insc t1 = undo_brc20 (pr_brc20 p) (pr_insc p)"
    by (simp_all add: t1_def cs' kv.del_put_fresh oks none h)
  obtain res' t' where u: "undo_txs ?B height (re_mints ?re) (rev (List.enumerate 0 (bl_txdata block))) (map_of (re_resolver ?re), t1) = Inr (res', t')"
    "cd_txos t' = cd_txos ?t" "cd_dunes t' = d" "same_rest t1 t'"
    using applied_txs_undone [OF p st mem ok t1(1)] dunes unfolding re t1(2) option.sel by blast
  have "undo_block C m (height, ?hash, ?body) (cs_next_wal_seq cs', cs_tables cs') =
      Inr (seq, t'\<lparr>cd_resolvers := tbl_del height (cd_resolvers t')\<rparr>)"
    using u(1) decode re unfolding undo_block_def t1_def seq_def
    by (cases m) (simp_all add: Let_def resolver_entry_def cs')
  moreover have "cd_resolvers t' = tbl_put height ?re (cd_resolvers ?t)" "cd_blocks t' = cd_blocks ?t" "cd_counters t' = Some counters"
    "ledger_same (cd_insc t1) (cd_insc t')" using u(4) t1 by (simp_all add: same_rest_def)
  moreover have "ledger_equiv (cd_insc t') (cd_insc ?t)"
    using processed_logged [OF p] calculation(6) t1(6) by (auto simp: logged_def ledger_equiv_def ledger_same_def)
  ultimately show ?thesis using u(2,3) counters none(2) [OF h] oks
    by (simp add: rollback_def Let_def kv.del_put_fresh)
qed
section \<open>Example\<close>

definition demo_crates :: Crates where
  "demo_crates = \<lparr>cr_bitcoin = demo_crate\<lparr>bc_txid := (\<lambda>tx. to_script_pubkey (hd (tx_output tx)))\<rparr>, cr_text = demo_text,
     cr_block_hash = (\<lambda>b. [4]), cr_encode_block = (\<lambda>b. [44]),
     cr_decode_block = (\<lambda>b. Some \<lparr>bl_prev = [3], bl_txdata =
       [\<lparr>tx_input = [], tx_output = [\<lparr>to_value = 10, to_script_pubkey = [1]\<rparr>]\<rparr>,
        \<lparr>tx_input = [\<lparr>ti_previous_output = \<lparr>op_txid = [7], op_vout = 0\<rparr>, ti_script_sig = []\<rparr>], tx_output = [\<lparr>to_value = 10, to_script_pubkey = [2]\<rparr>]\<rparr>]\<rparr>)\<rparr>"

definition demo_block :: Block where
  "demo_block = the (cr_decode_block demo_crates [44])"

definition demo_chain :: ChainDB where
  "demo_chain = \<lparr>cs_tables = \<lparr>cd_blocks = [(3, [3], [33])], cd_resolvers = [], cd_txos = [([7], 0) \<mapsto> demo_spent], cd_dunes = empty_db,
       cd_insc = demo_ledger, cd_counters = None, cd_mutable = []\<rparr>, cs_next_wal_seq = 0, cs_last_block_hash = Some [3],
     cs_immutable_after_confs = None, cs_network = Dogecoin, cs_first_rune_height = 100, cs_first_inscription_height = 100\<rparr>"

lemma demo_applied:
  "\<exists>mem' cs'. apply_block_with_context demo_crates 4 demo_block True None demo_chain = Inr (mem', cs') \<and>
     cd_dunes (cs_tables cs') = empty_db"
  by (simp add: apply_block_with_context_def demo_chain_def demo_crates_def demo_block_def resolve_and_process_def block_input_refs_def
      tx_refs_def txo_ref_def run_dunes_def run_inscriptions_def process_tx_def storage_dunes_def remove_refs_def Let_def)

lemma demo_no_dunes: "undo_all_dunes (cr_bitcoin demo_crates) 4 mints (rev (List.enumerate 0 (bl_txdata demo_block))) empty_db = Some empty_db"
proof -
  have "list_all (\<lambda>tx. dunestone_from_transaction (cr_bitcoin demo_crates) tx = None) (bl_txdata demo_block)" by code_simp
  then have "undo_dunes (cr_bitcoin demo_crates) 4 mints n tx db = Some db" if "tx \<in> set (bl_txdata demo_block)" for n tx db
    using that by (simp add: list_all_iff undo_dunes_def)
  then show ?thesis by (simp add: demo_block_def demo_crates_def)
qed

lemma demo_conditions:
  "cr_decode_block demo_crates (cr_encode_block demo_crates demo_block) = Some demo_block"
  "mem_agrees None (cd_txos (cs_tables demo_chain))"
  "block_ok (cr_bitcoin demo_crates) (bl_txdata demo_block) (cd_txos (cs_tables demo_chain))"
  "chain_tip 3 [3] (cs_tables demo_chain)"
  by (auto simp: demo_block_def demo_crates_def demo_chain_def mem_agrees_def block_ok_def chain_tip_def tx_refs_def txo_ref_def
      tbl_ok_def tbl_get_def less_Suc_eq)

text \<open>
  C2. A rollback takes the last block back. Apply a block that spends soundly on top of the tip of the
  chain; if the dunes of its transactions can be undone, then rolling back to the former tip succeeds
  and gives back the table of unspent outputs entry by entry, the blocks and the resolvers, the BRC-20
  ledger (where no entry counts as zero) and the inscription counters; the dune tables are those the undo
  of the dunes gives, and the former tip is again the last block.
\<close>

theorem rollback_restores:
  assumes app: "apply_block_with_context C height block mutable mem cs = Inr (mem', cs')"
    and decode: "cr_decode_block C (cr_encode_block C block) = Some block"
    and mem: "mem_agrees mem (cd_txos (cs_tables cs))"
    and ok: "block_ok (cr_bitcoin C) (bl_txdata block) (cd_txos (cs_tables cs))"
    and tip: "chain_tip h hash (cs_tables cs)" and h: "h < height"
    and dunes: "undo_all_dunes (cr_bitcoin C) height (re_mints (the (tbl_get (cd_resolvers (cs_tables cs')) height)))
      (rev (List.enumerate 0 (bl_txdata block))) (cd_dunes (cs_tables cs')) = Some d"
  shows "\<exists>cs''. rollback C h hash m cs' = Inr cs'' \<and>
    cd_txos (cs_tables cs'') = cd_txos (cs_tables cs) \<and> cd_blocks (cs_tables cs'') = cd_blocks (cs_tables cs) \<and>
    cd_resolvers (cs_tables cs'') = cd_resolvers (cs_tables cs) \<and> ledger_equiv (cd_insc (cs_tables cs'')) (cd_insc (cs_tables cs)) \<and>
    cd_counters (cs_tables cs'') = Some (case cd_counters (cs_tables cs) of None \<Rightarrow> zero_counters | Some c \<Rightarrow> c) \<and>
    cd_dunes (cs_tables cs'') = d \<and> cs_last_block_hash cs'' = Some hash"
  using assms by (rule rollback_undoes)

theorem rollback_restores_witness:
  "\<exists>mem' cs' cs''. apply_block_with_context demo_crates 4 demo_block True None demo_chain = Inr (mem', cs') \<and>
     rollback demo_crates 3 [3] True cs' = Inr cs'' \<and> cd_txos (cs_tables cs'') = [([7], 0) \<mapsto> demo_spent]"
proof -
  obtain mem' cs' where a: "apply_block_with_context demo_crates 4 demo_block True None demo_chain = Inr (mem', cs')"
    "cd_dunes (cs_tables cs') = empty_db" using demo_applied by blast
  have "\<exists>cs''. rollback demo_crates 3 [3] True cs' = Inr cs'' \<and> cd_txos (cs_tables cs'') = cd_txos (cs_tables demo_chain)"
    using rollback_restores [OF a(1) demo_conditions(1-4), of empty_db True] demo_no_dunes a(2) by auto
  then show ?thesis using a(1) by (auto simp: demo_chain_def)
qed

text \<open>A claim that no edict allocates is recorded as a mint but not counted, so that taking it back underflows.\<close>

lemma claim_unallocated:
  "index_runes demo_crate Map.empty Dogecoin 5000000 1 (claim_tx 2) claim_db =
   Inr (Some (\<lparr>ir_output_dunes = [[], []], ir_successful_etch = None, ir_successful_mints = [0], ir_burned = []\<rparr>, claim_db))"
proof -
  have "unallocated_inputs demo_crate Map.empty (tx_input (claim_tx 2)) [] = Inr []" by code_simp
  moreover have "leftover demo_crate (tx_output (claim_tx 2)) (ds_cenotaph (claim_stone 2)) (ds_pointer (claim_stone 2)) []
      [[], []] = ([[], []], [])" by code_simp
  moreover have "dunestone_db 5000000 (claim_stone 2) None None [(65536, 50)] [(65536, 50)] claim_db = claim_db"
    by (simp add: dunestone_db_def claim_stone_def claim_key sdi_of_def or_default_def claim_db_def empty_db_def)
  moreover have "etched Dogecoin 5000000 1 (claim_stone 2) claim_db = Some (None, claim_db)"
    by (simp add: etched_def claim_stone_def)
  ultimately show ?thesis
    by (simp add: index_runes_def claim_dunestone run_dunestone_def new_issuance_def claim_mint claim_edicts Let_def)
qed

theorem unallocated_claim_blocks_rollback:
  "\<exists>r db. index_runes demo_crate Map.empty Dogecoin 5000000 1 (claim_tx 2) claim_db = Inr (Some (r, db)) \<and>
     undo_dunes demo_crate 5000000 (map (Pair 1) (ir_successful_mints r)) 1 (claim_tx 2) db = None"
proof -
  let ?key = "\<lparr>sdi_block = 1, sdi_tx = 0\<rparr> :: StorageDuneId"
  have "undo_etch 5000000 1 (claim_stone 2) claim_db = Some claim_db" by (simp add: undo_etch_def claim_stone_def)
  moreover have "checked_sub (or_default (dd_mints claim_db ?key)) (1 :: u128) = None"
    by (simp add: claim_db_def empty_db_def or_default_def checked_sub_def)
  ultimately have "undo_dunes demo_crate 5000000 [(1, 0)] 1 (claim_tx 2) claim_db = None"
    by (simp add: undo_dunes_def claim_dunestone claim_claims claim_key sdi_of_def)
  then show ?thesis by (simp add: claim_unallocated)
qed
end
