(* ===== verification/Chain_Wal.thy ===== *)
theory Chain_Wal
  imports Chain_Rollback
begin

text \<open>
  The roll stage (\<open>sync/roll.rs\<close>) and the write-ahead log that the server streams
  (\<open>mutable/mod.rs\<close>). The stage executes one event at a time: a block to apply or a point to roll
  back to. Once it is mutable, every change of the chain is also an entry of the log. A client that
  is at a point of the log replays the entries after it. The theory relates the two: replaying the
  streamed entries brings a client to the tip of the chain. A failed execution leaves the tables
  alone, because they are written in one transaction; the stage then retries.
\<close>

section \<open>The roll stage\<close>

datatype PullEvent = RollForward u64 bytes Block "u64 \<times> bytes" | RollBack u64 bytes "u64 \<times> bytes"

datatype HealthEvent = HealthForward u64 bytes | HealthBack u64 bytes

record RollStage =
  rs_db :: ChainDB
  rs_mutable :: bool
  rs_memory :: "UtxoResolver option"

definition roll_new :: "ChainDB \<Rightarrow> bool option \<Rightarrow> RollStage" where
  "roll_new db utxos_in_memory =
     \<lparr>rs_db = db, rs_mutable = False,
      rs_memory = (if utxos_in_memory = Some True then Some (Map.empty, 0) else None)\<rparr>"

text \<open>\<open>ChainDB::open\<close>, on what the tables hold: the log is cleared, its numbering starts again.\<close>

definition db_open :: "ChainTables \<Rightarrow> u64 option \<Rightarrow> Network \<Rightarrow> u64 \<Rightarrow> u64 \<Rightarrow> ChainDB" where
  "db_open t immutable_after_confs network first_rune_height first_inscription_height =
     \<lparr>cs_tables = t\<lparr>cd_mutable := []\<rparr>, cs_next_wal_seq = 1,
      cs_last_block_hash = map_option (\<lambda>(_, h, _). h) (tbl_last (cd_blocks t)),
      cs_immutable_after_confs = immutable_after_confs, cs_network = network,
      cs_first_rune_height = first_rune_height, cs_first_inscription_height = first_inscription_height\<rparr>"

definition db_cursor :: "ChainDB \<Rightarrow> (u64 \<times> bytes) option" where
  "db_cursor cs = map_option (\<lambda>(h, x, _). (h, x)) (tbl_last (cd_blocks (cs_tables cs)))"

definition roll_bootstrap :: "RollStage \<Rightarrow> HealthEvent list" where
  "roll_bootstrap st = (case db_cursor (rs_db st) of None \<Rightarrow> [] | Some (h, x) \<Rightarrow> [HealthForward h x])"

text \<open>A forward event also makes the stage mutable when nothing says how many confirmations are final.\<close>

definition goes_mutable :: "ChainDB \<Rightarrow> u64 \<Rightarrow> u64 \<times> bytes \<Rightarrow> bool \<Rightarrow> bool" where
  "goes_mutable cs height tip otherwise =
     (case cs_immutable_after_confs cs of Some confirmations \<Rightarrow> height + confirmations > fst tip | None \<Rightarrow> otherwise)"

fun roll_execute :: "Crates \<Rightarrow> PullEvent \<Rightarrow> RollStage \<Rightarrow> ChainError + RollStage \<times> HealthEvent" where
  "roll_execute C (RollForward height hash block tip) st =
     (let m = (rs_mutable st \<or> goes_mutable (rs_db st) height tip True) in
      and_then (apply_block_with_context C height block m (rs_memory st) (rs_db st)) (\<lambda>(mem, db).
        Inr (\<lparr>rs_db = db, rs_mutable = m, rs_memory = mem\<rparr>, HealthForward height hash)))"
| "roll_execute C (RollBack height hash tip) st =
     (let m = (rs_mutable st \<or> goes_mutable (rs_db st) height tip False) in
      and_then (rollback C height hash m (rs_db st)) (\<lambda>db.
        Inr (\<lparr>rs_db = db, rs_mutable = m, rs_memory = rs_memory st\<rparr>, HealthBack height hash)))"

section \<open>The log\<close>

definition find_wal_seq :: "(u64, Log) table \<Rightarrow> u64 \<Rightarrow> bytes \<Rightarrow> u64 option" where
  "find_wal_seq t height hash =
     scan_until_or (\<lambda>v. (is_apply v \<or> is_mark v) \<and> log_height v = height \<and> log_hash v = hash)
       (\<lambda>v. log_height v \<ge> height) t"

text \<open>
  One pass of the stream: the entries after the first, as long as they are numbered one by one. The
  flag tells that the stream was closed with an error.
\<close>

fun stream_pass :: "u64 \<Rightarrow> (u64 \<times> Log) list \<Rightarrow> Log list \<times> u64 \<times> bool" where
  "stream_pass last_seq [] = ([], last_seq, False)"
| "stream_pass last_seq ((seq, log) # es) =
     (if seq \<noteq> last_seq + 1 then ([], last_seq, True)
      else let (out, l, err) = stream_pass seq es in (log # out, l, err))"

definition stream_mutable :: "(u64, Log) table \<Rightarrow> u64 \<Rightarrow> Log list \<times> u64 \<times> bool" where
  "stream_mutable t last_seq = stream_pass last_seq (drop 1 (tbl_from last_seq t))"

section \<open>A client of the log\<close>

text \<open>The chain as a client sees it: heights and hashes, the oldest first. Blocks are applied at growing heights.\<close>

type_synonym points = "(u64 \<times> bytes) list"

fun replay_step :: "Log \<Rightarrow> points \<Rightarrow> points option" where
  "replay_step (LApply h x _ _) c = (if \<forall>p\<in>set c. fst p < h then Some (c @ [(h, x)]) else None)"
| "replay_step (LUndo h x _) c = (if c \<noteq> [] \<and> last c = (h, x) then Some (butlast c) else None)"
| "replay_step (LMark h x _) c = (if c \<noteq> [] \<and> last c = (h, x) then Some c else None)"

fun replay :: "Log list \<Rightarrow> points \<Rightarrow> points option" where
  "replay [] c = Some c"
| "replay (l # ls) c = Option.bind (replay_step l c) (replay ls)"

lemma replay_append: "replay (xs @ ys) c = Option.bind (replay xs c) (replay ys)"
  by (induction xs arbitrary: c) (auto split: bind_splits)

definition rising :: "points \<Rightarrow> bool" where
  "rising c \<longleftrightarrow> sorted_wrt (<) (map fst c)"

lemma replay_step_rising: "replay_step l c = Some d \<Longrightarrow> rising c \<Longrightarrow> rising d"
  by (cases l) (auto simp: rising_def sorted_wrt_append split: if_splits, metis append_butlast_last_id map_append sorted_wrt_append)

lemma replay_rising: "replay ls c = Some d \<Longrightarrow> rising c \<Longrightarrow> rising d"
  by (induction ls arbitrary: c) (auto simp: bind_eq_Some_conv intro: replay_step_rising)

text \<open>Undone blocks are followed by the mark of the block before them.\<close>

fun is_undo :: "Log \<Rightarrow> bool" where
  "is_undo (LUndo _ _ _) = True"
| "is_undo _ = False"

fun nested :: "Log list \<Rightarrow> bool" where
  "nested [] = True"
| "nested [l] = True"
| "nested (l # k # ls) = ((is_undo l \<longrightarrow> \<not> is_apply k) \<and> nested (k # ls))"

definition settled :: "Log list \<Rightarrow> bool" where
  "settled ls \<longleftrightarrow> nested ls \<and> (ls \<noteq> [] \<longrightarrow> \<not> is_undo (last ls))"

lemma nested_snoc: "nested ls \<Longrightarrow> ls \<noteq> [] \<longrightarrow> is_undo (last ls) \<longrightarrow> \<not> is_apply l \<Longrightarrow> nested (ls @ [l])"
  by (induction ls rule: nested.induct) auto

lemma nested_suffix: "nested (xs @ ys) \<Longrightarrow> nested ys"
proof (induction xs)
  case (Cons x xs)
  then show ?case by (cases "xs @ ys") auto
qed simp

lemma settled_snoc: "settled ls \<Longrightarrow> \<not> is_undo l \<Longrightarrow> settled (ls @ [l])"
  by (auto simp: settled_def intro!: nested_snoc)

lemma settled_suffix: "settled (xs @ ys) \<Longrightarrow> settled ys"
  by (auto simp: settled_def dest: nested_suffix)

definition chain_points :: "ChainTables \<Rightarrow> points" where
  "chain_points t = map (\<lambda>(h, x, _). (h, x)) (cd_blocks t)"

section \<open>Exactly what is found\<close>

lemma scan_until_or_iff:
  "scan_until_or p bail t = Some n \<longleftrightarrow>
   (\<exists>pre v post. t = pre @ (n, v) # post \<and> p v \<and> (\<forall>(_, w)\<in>set pre. \<not> p w \<and> \<not> bail w))"
proof (induction t)
  case (Cons e t)
  obtain k w where e: "e = (k, w)" by (cases e)
  show ?case
  proof (cases "p w \<or> bail w")
    case True
    have "(\<exists>pre v post. e # t = pre @ (n, v) # post \<and> p v \<and> (\<forall>(_, w)\<in>set pre. \<not> p w \<and> \<not> bail w)) \<longleftrightarrow> p w \<and> k = n"
      (is "?l \<longleftrightarrow> ?r")
    proof
      assume ?l
      then obtain pre v post where l: "e # t = pre @ (n, v) # post" "p v" "\<forall>(_, w)\<in>set pre. \<not> p w \<and> \<not> bail w" by blast
      then have "pre = []" using True e by (cases pre) auto
      then show ?r using l e by simp
    next
      assume ?r
      then show ?l using e by (intro exI [of _ "[]"]) simp
    qed
    then show ?thesis using True e by auto
  next
    case False
    have "(\<exists>pre v post. e # t = pre @ (n, v) # post \<and> p v \<and> (\<forall>(_, w)\<in>set pre. \<not> p w \<and> \<not> bail w)) \<longleftrightarrow>
      (\<exists>pre v post. t = pre @ (n, v) # post \<and> p v \<and> (\<forall>(_, w)\<in>set pre. \<not> p w \<and> \<not> bail w))" (is "?l \<longleftrightarrow> ?r")
    proof
      assume ?l
      then obtain pre v post where l: "e # t = pre @ (n, v) # post" "p v" "\<forall>(_, w)\<in>set pre. \<not> p w \<and> \<not> bail w" by blast
      then obtain pre' where "pre = e # pre'" using False e by (cases pre) auto
      then show ?r using l by auto
    next
      assume ?r
      then obtain pre v post where "t = pre @ (n, v) # post" "p v" "\<forall>(_, w)\<in>set pre. \<not> p w \<and> \<not> bail w" by blast
      then show ?l using False e by (intro exI [of _ "e # pre"]) auto
    qed
    then show ?thesis using False e Cons.IH by simp
  qed
qed simp

text \<open>
  Which point of the log is found: the entry of the first height that is not below the height asked
  for, if it applies or marks that very point. Every entry before it lies below that height.
\<close>

theorem find_wal_seq_exact:
  "find_wal_seq t height hash = Some n \<longleftrightarrow>
   (\<exists>pre v post. t = pre @ (n, v) # post \<and> (is_apply v \<or> is_mark v) \<and> log_height v = height \<and> log_hash v = hash \<and>
     (\<forall>(_, w)\<in>set pre. log_height w < height))"
proof -
  have "\<not> ((is_apply w \<or> is_mark w) \<and> log_height w = height \<and> log_hash w = hash) \<and> \<not> height \<le> log_height w \<longleftrightarrow>
    log_height w < height" for w by auto
  then show ?thesis unfolding find_wal_seq_def scan_until_or_iff by simp
qed

section \<open>The log follows the chain\<close>

lemma tbl_put_last: "(\<And>j. j \<in> fst ` set t \<Longrightarrow> j < k) \<Longrightarrow> tbl_put k v t = t @ [(k, v)]"
  by (induction k v t rule: tbl_put.induct) (auto simp: not_less_iff_gr_or_eq)

text \<open>The entries are numbered one by one, up to the next number.\<close>

definition numbered :: "(u64, Log) table \<Rightarrow> u64 \<Rightarrow> bool" where
  "numbered wal seq \<longleftrightarrow> (\<exists>k. map (\<lambda>e. unat (fst e)) wal = [k..<unat seq])"

lemma numbered_less: "numbered wal seq \<Longrightarrow> j \<in> fst ` set wal \<Longrightarrow> j < seq"
proof -
  assume "numbered wal seq" "j \<in> fst ` set wal"
  then have "unat j \<in> set (map (\<lambda>e. unat (fst e)) wal)" by auto
  moreover obtain k where "map (\<lambda>e. unat (fst e)) wal = [k..<unat seq]" using \<open>numbered wal seq\<close> by (auto simp: numbered_def)
  ultimately have "unat j \<in> set [k..<unat seq]" by metis
  then show "j < seq" by (simp add: word_less_nat_alt)
qed

lemma seq_next: "unat (s :: u64) + 1 < 2 ^ 64 \<Longrightarrow> unat (s + 1) = unat s + 1"
  by (simp add: unat_word_ariths)

lemma numbered_put:
  assumes "numbered wal seq" "unat seq + 1 < 2 ^ 64"
  shows "tbl_put seq l wal = wal @ [(seq, l)]" "numbered (wal @ [(seq, l)]) (seq + 1)"
proof -
  show "tbl_put seq l wal = wal @ [(seq, l)]" using numbered_less [OF assms(1)] by (rule tbl_put_last)
  obtain k where k: "map (\<lambda>e. unat (fst e)) wal = [k..<unat seq]" using assms(1) by (auto simp: numbered_def)
  show "numbered (wal @ [(seq, l)]) (seq + 1)"
  proof (cases "k \<le> unat seq")
    case True
    then show ?thesis using k seq_next [OF assms(2)] by (auto simp: numbered_def intro!: exI [of _ k])
  next
    case False
    then have "wal = []" using k by simp
    then show ?thesis using seq_next [OF assms(2)] by (auto simp: numbered_def intro!: exI [of _ "unat seq"])
  qed
qed

lemma numbered_Nil: "numbered [] seq"
  unfolding numbered_def by (rule exI [of _ "unat seq"]) simp

lemma prune_suffix: "\<exists>pre. wal = pre @ prune_loop before wal"
proof (induction before wal rule: prune_loop.induct)
  case (2 before k v t)
  then obtain pre where "\<not> log_height v \<ge> before \<Longrightarrow> t = pre @ prune_loop before t" by blast
  then show ?case by (cases "log_height v \<ge> before") (auto intro: exI [of _ "(k, v) # pre"])
qed simp

lemma numbered_suffix: "numbered (xs @ ys) seq \<Longrightarrow> numbered ys seq"
proof -
  assume "numbered (xs @ ys) seq"
  then obtain k where "map (\<lambda>e. unat (fst e)) (xs @ ys) = [k..<unat seq]" by (auto simp: numbered_def)
  then have "map (\<lambda>e. unat (fst e)) ys = drop (length xs) [k..<unat seq]" by (metis append_eq_conv_conj length_map map_append)
  then show ?thesis by (auto simp: numbered_def)
qed

definition wal_inv :: "RollStage \<Rightarrow> bool" where
  "wal_inv st \<longleftrightarrow>
     (let cs = rs_db st; t = cs_tables cs; wal = cd_mutable t in
      tbl_ok (cd_blocks t) \<and> numbered wal (cs_next_wal_seq cs) \<and>
      (\<exists>c. rising c \<and> replay (map snd wal) c = Some (chain_points t)) \<and> settled (map snd wal) \<and> (rs_mutable st \<or> wal = []))"

lemma rising_chain: "rising (chain_points t) \<longleftrightarrow> tbl_ok (cd_blocks t)"
proof -
  have "map fst (chain_points t) = map fst (cd_blocks t)" by (auto simp: chain_points_def)
  then show ?thesis by (simp add: rising_def tbl_ok_def)
qed

lemma replay_suffix: "replay (map snd (xs @ ys)) c = Some d \<Longrightarrow> rising c \<Longrightarrow> \<exists>c. rising c \<and> replay (map snd ys) c = Some d"
  by (auto simp: replay_append bind_eq_Some_conv dest: replay_rising)

section \<open>Applying a block\<close>

text \<open>An event that continues the chain, with numbers left for what it logs.\<close>

fun event_ok :: "RollStage \<Rightarrow> PullEvent \<Rightarrow> bool" where
  "event_ok st (RollForward height _ _ _) \<longleftrightarrow> (\<forall>(k, _)\<in>set (cd_blocks (cs_tables (rs_db st))). k < height)"
| "event_ok st (RollBack _ _ _) \<longleftrightarrow> True"

definition room :: "RollStage \<Rightarrow> bool" where
  "room st \<longleftrightarrow> unat (cs_next_wal_seq (rs_db st)) + length (cd_blocks (cs_tables (rs_db st))) + 1 < 2 ^ 64"

lemma log_block_suffix:
  "m \<Longrightarrow> \<exists>pre. tbl_put (cs_next_wal_seq cs) log (cd_mutable (cs_tables cs)) = pre @ log_block cs height m log"
  by (auto simp: log_block_def Let_def prune_suffix split: option.splits)

lemma forward_chain:
  assumes run: "roll_execute C (RollForward height hash block tip) st = Inr (st', h)"
    and ok: "event_ok st (RollForward height hash block tip)"
  obtains entry where
    "cd_blocks (cs_tables (rs_db st')) = cd_blocks (cs_tables (rs_db st)) @ [(height, cr_block_hash C block, cr_encode_block C block)]"
    "cs_next_wal_seq (rs_db st') = cs_next_wal_seq (rs_db st) + 1"
    "cd_mutable (cs_tables (rs_db st')) =
       log_block (rs_db st) height (rs_mutable st') (LApply height (cr_block_hash C block) (cr_encode_block C block) entry)"
    "rs_mutable st \<longrightarrow> rs_mutable st'"
proof -
  let ?cs = "rs_db st" and ?m = "rs_mutable st \<or> goes_mutable (rs_db st) height tip True"
  obtain mem' cs' where app: "apply_block_with_context C height block ?m (rs_memory st) ?cs = Inr (mem', cs')"
    and st': "st' = \<lparr>rs_db = cs', rs_mutable = ?m, rs_memory = mem'\<rparr>" using run by (auto simp: Let_def and_then_Inr_iff)
  obtain entry where blocks: "cd_blocks (cs_tables cs') = tbl_put height (cr_block_hash C block, cr_encode_block C block) (cd_blocks (cs_tables ?cs))"
    and rest: "cs_next_wal_seq cs' = cs_next_wal_seq ?cs + 1"
      "cd_mutable (cs_tables cs') = log_block ?cs height ?m (LApply height (cr_block_hash C block) (cr_encode_block C block) entry)"
    by (rule apply_block_parts [OF app]) simp
  have "cd_blocks (cs_tables cs') = cd_blocks (cs_tables ?cs) @ [(height, cr_block_hash C block, cr_encode_block C block)]"
    unfolding blocks by (rule tbl_put_last) (use ok in auto)
  then show thesis using that rest by (simp add: st')
qed

lemma forward_points:
  "\<lbrakk>roll_execute C (RollForward height hash block tip) st = Inr (st', h); event_ok st (RollForward height hash block tip)\<rbrakk> \<Longrightarrow>
   chain_points (cs_tables (rs_db st')) = chain_points (cs_tables (rs_db st)) @ [(height, cr_block_hash C block)]"
  by (erule (1) forward_chain) (simp add: chain_points_def)

lemma apply_wal_inv:
  assumes inv: "wal_inv st" and room: "room st" and ok: "event_ok st (RollForward height hash block tip)"
    and run: "roll_execute C (RollForward height hash block tip) st = Inr (st', h)"
  shows "wal_inv st'"
proof -
  let ?cs = "rs_db st" and ?cs' = "rs_db st'"
  let ?t = "cs_tables ?cs" and ?t' = "cs_tables ?cs'"
  obtain entry where bs: "cd_blocks ?t' = cd_blocks ?t @ [(height, cr_block_hash C block, cr_encode_block C block)]"
    and seq: "cs_next_wal_seq ?cs' = cs_next_wal_seq ?cs + 1"
    and wal: "cd_mutable ?t' = log_block ?cs height (rs_mutable st') (LApply height (cr_block_hash C block) (cr_encode_block C block) entry)"
    and m: "rs_mutable st \<longrightarrow> rs_mutable st'"
    by (rule forward_chain [OF run ok])
  have bsok: "tbl_ok (cd_blocks ?t')" unfolding bs tbl_ok_def
    using inv ok by (auto simp: wal_inv_def Let_def tbl_ok_def sorted_wrt_append)
  obtain c where c: "rising c" "replay (map snd (cd_mutable ?t)) c = Some (chain_points ?t)" using inv by (auto simp: wal_inv_def Let_def)
  have num: "numbered (cd_mutable ?t) (cs_next_wal_seq ?cs)" "settled (map snd (cd_mutable ?t))" using inv by (simp_all add: wal_inv_def Let_def)
  have r: "unat (cs_next_wal_seq ?cs) + 1 < 2 ^ 64" using room by (simp add: room_def)
  have "numbered (cd_mutable ?t') (cs_next_wal_seq ?cs') \<and>
    (\<exists>c. rising c \<and> replay (map snd (cd_mutable ?t')) c = Some (chain_points ?t')) \<and> settled (map snd (cd_mutable ?t')) \<and>
    (rs_mutable st' \<or> cd_mutable ?t' = [])"
  proof (cases "rs_mutable st'")
    case True
    let ?l = "LApply height (cr_block_hash C block) (cr_encode_block C block) entry"
    obtain pre where pre: "cd_mutable ?t @ [(cs_next_wal_seq ?cs, ?l)] = pre @ cd_mutable ?t'"
      using log_block_suffix [OF True, of ?cs ?l height] numbered_put(1) [OF num(1) r, of ?l] wal True by auto
    have "\<forall>p\<in>set (chain_points ?t). fst p < height" using ok by (auto simp: chain_points_def)
    then have rep: "replay (map snd (cd_mutable ?t @ [(cs_next_wal_seq ?cs, ?l)])) c = Some (chain_points ?t')"
      using c forward_points [OF run ok] by (simp add: replay_append)
    have "settled (map snd (cd_mutable ?t @ [(cs_next_wal_seq ?cs, ?l)]))" using settled_snoc [OF num(2), of ?l] by simp
    then have "settled (map snd (cd_mutable ?t'))" unfolding pre map_append by (rule settled_suffix)
    moreover have "\<exists>c. rising c \<and> replay (map snd (cd_mutable ?t')) c = Some (chain_points ?t')"
      using rep c(1) unfolding pre by (rule replay_suffix)
    ultimately show ?thesis using numbered_put(2) [OF num(1) r, of ?l] True unfolding pre seq by (blast intro: numbered_suffix)
  next
    case False
    then have "cd_mutable ?t' = []" using inv wal m by (auto simp: wal_inv_def Let_def log_block_def)
    moreover have "rising (chain_points ?t')" using bsok by (simp add: rising_chain)
    ultimately show ?thesis by (auto simp: numbered_Nil settled_def)
  qed
  then show ?thesis using bsok by (simp add: wal_inv_def Let_def)
qed

section \<open>Rolling back\<close>

lemma undo_txs_frame:
  "undo_txs B height mints txs s = Inr (res', t') \<Longrightarrow> cd_blocks t' = cd_blocks (snd s) \<and> cd_mutable t' = cd_mutable (snd s)"
proof (induction txs arbitrary: s)
  case (Cons e txs)
  obtain idx tx where e: "e = (idx, tx)" by (cases e)
  then obtain res1 t1 where u: "undo_tx B height mints idx tx s = Inr (res1, t1)" "undo_txs B height mints txs (res1, t1) = Inr (res', t')"
    using Cons.prems by (auto simp: and_then_Inr_iff)
  have "cd_blocks t1 = cd_blocks (snd s) \<and> cd_mutable t1 = cd_mutable (snd s)"
    using u(1) by (auto simp: undo_tx_def Let_def and_then_Inr_iff split: option.splits if_splits)
  then show ?case using Cons.IH [OF u(2)] by simp
qed simp

lemma undo_block_frame:
  assumes "undo_block C m (height, hash, body) (seq, t) = Inr (seq', t')"
  shows "cd_blocks t' = tbl_del height (cd_blocks t)" "seq' = (if m then seq + 1 else seq)"
    "cd_mutable t' = (if m then tbl_put seq (LUndo height hash body) (cd_mutable t) else cd_mutable t)"
  using assms unfolding undo_block_def
  by (cases m; auto simp: Let_def and_then_Inr_iff dest!: undo_txs_frame split: option.splits if_splits)+

lemma tbl_del_last: "tbl_ok (t @ [(k, v)]) \<Longrightarrow> tbl_del k (t @ [(k, v)]) = t"
  by (induction t) (auto simp: tbl_ok_def tbl_del_def)

text \<open>Undoing the blocks after a prefix of the chain leaves the prefix and logs as much.\<close>

lemma undo_chain_log:
  "\<lbrakk>undo_chain C m (rev es) (seq, t) = Inr (seq', t'); cd_blocks t = bs @ es; tbl_ok (cd_blocks t);
    numbered (cd_mutable t) seq; unat seq + length es < 2 ^ 64;
    if m then nested (map snd (cd_mutable t)) \<and> replay (map snd (cd_mutable t)) c = Some (chain_points t) else cd_mutable t = []\<rbrakk> \<Longrightarrow>
   cd_blocks t' = bs \<and> numbered (cd_mutable t') seq' \<and> unat seq' \<le> unat seq + length es \<and>
   (if m then nested (map snd (cd_mutable t')) \<and> replay (map snd (cd_mutable t')) c = Some (chain_points t') else cd_mutable t' = [])"
proof (induction es arbitrary: seq t rule: rev_induct)
  case Nil
  then show ?case by auto
next
  case (snoc e es)
  obtain height hash body where e: "e = (height, hash, body)" by (cases e)
  obtain seq1 t1 where u: "undo_block C m e (seq, t) = Inr (seq1, t1)" "undo_chain C m (rev es) (seq1, t1) = Inr (seq', t')"
    using snoc.prems(1) by (auto simp: and_then_Inr_iff)
  note fr = undo_block_frame [OF u(1) [unfolded e]]
  have bl: "cd_blocks t1 = bs @ es" using fr(1) tbl_del_last [of "bs @ es"] snoc.prems(2,3) e by simp
  have ok: "tbl_ok (cd_blocks t1)" unfolding fr(1) by (rule tbl_del_ok [OF snoc.prems(3)])
  have pts: "chain_points t = chain_points t1 @ [(height, hash)]" using snoc.prems(2) bl e by (simp add: chain_points_def)
  have r: "unat seq + 1 < 2 ^ 64" using snoc.prems(5) by simp
  have step: "numbered (cd_mutable t1) seq1 \<and> unat seq1 \<le> unat seq + 1 \<and>
    (if m then nested (map snd (cd_mutable t1)) \<and> replay (map snd (cd_mutable t1)) c = Some (chain_points t1) else cd_mutable t1 = [])"
  proof (cases m)
    case True
    have w: "cd_mutable t1 = cd_mutable t @ [(seq, LUndo height hash body)]"
      using fr(3) numbered_put(1) [OF snoc.prems(4) r] True by simp
    then have "numbered (cd_mutable t1) seq1" "unat seq1 = unat seq + 1"
      using fr(2) numbered_put(2) [OF snoc.prems(4) r] seq_next [OF r] True by simp_all
    moreover have "replay (map snd (cd_mutable t1)) c = Some (chain_points t1)"
      using snoc.prems(6) True w pts by (simp add: replay_append)
    moreover have "nested (map snd (cd_mutable t1))" using snoc.prems(6) True w by (simp add: nested_snoc)
    ultimately show ?thesis using True by simp
  next
    case False
    then show ?thesis using fr(2,3) snoc.prems(4,6) by simp
  qed
  then have "unat seq1 + length es < 2 ^ 64" using snoc.prems(5) by simp
  note ih = snoc.IH [OF u(2) bl ok conjunct1 [OF step] this conjunct2 [OF conjunct2 [OF step]]]
  have "unat seq' \<le> unat seq + length (es @ [e])" using ih step by (simp split del: if_split)
  then show ?case using ih by blast
qed

lemma undo_chain_blocks:
  "\<lbrakk>undo_chain C m (rev es) (seq, t) = Inr (seq', t'); cd_blocks t = bs @ es; tbl_ok (cd_blocks t)\<rbrakk> \<Longrightarrow> cd_blocks t' = bs"
proof (induction es arbitrary: seq t rule: rev_induct)
  case (snoc e es)
  obtain height hash body where e: "e = (height, hash, body)" by (cases e)
  obtain seq1 t1 where u: "undo_block C m e (seq, t) = Inr (seq1, t1)" "undo_chain C m (rev es) (seq1, t1) = Inr (seq', t')"
    using snoc.prems(1) by (auto simp: and_then_Inr_iff)
  note fr = undo_block_frame(1) [OF u(1) [unfolded e]]
  have "cd_blocks t1 = bs @ es" using fr tbl_del_last [of "bs @ es"] snoc.prems(2,3) e by simp
  moreover have "tbl_ok (cd_blocks t1)" unfolding fr by (rule tbl_del_ok [OF snoc.prems(3)])
  ultimately show ?case by (rule snoc.IH [OF u(2)])
qed auto

lemma back_chain:
  assumes run: "roll_execute C (RollBack height hash tip) st = Inr (st', h)" and ok: "tbl_ok (cd_blocks (cs_tables (rs_db st)))"
  obtains body bs es seq t1 where
    "cd_blocks (cs_tables (rs_db st)) = bs @ (height, hash, body) # es"
    "undo_chain C (rs_mutable st') (rev es) (cs_next_wal_seq (rs_db st), cs_tables (rs_db st)) = Inr (seq, t1)"
    "cd_blocks (cs_tables (rs_db st')) = bs @ [(height, hash, body)]"
    "cs_tables (rs_db st') = (if rs_mutable st' then t1\<lparr>cd_mutable := tbl_put seq (LMark height hash body) (cd_mutable t1)\<rparr> else t1)"
    "cs_next_wal_seq (rs_db st') = (if rs_mutable st' then seq + 1 else seq)" "rs_mutable st \<longrightarrow> rs_mutable st'"
proof -
  let ?cs = "rs_db st" and ?m = "rs_mutable st \<or> goes_mutable (rs_db st) height tip False"
  let ?t = "cs_tables ?cs"
  obtain cs' where rb: "rollback C height hash ?m ?cs = Inr cs'" and st': "st' = \<lparr>rs_db = cs', rs_mutable = ?m, rs_memory = rs_memory st\<rparr>"
    using run by (auto simp: Let_def and_then_Inr_iff)
  obtain body es where from_rb: "tbl_from height (cd_blocks ?t) = (height, hash, body) # es"
    using rb by (auto simp: rollback_def split: list.splits if_splits)
  obtain seq t1 where u: "undo_chain C ?m (rev es) (cs_next_wal_seq ?cs, ?t) = Inr (seq, t1)"
    and cs': "cs_tables cs' = (if ?m then t1\<lparr>cd_mutable := tbl_put seq (LMark height hash body) (cd_mutable t1)\<rparr> else t1)"
      "cs_next_wal_seq cs' = (if ?m then seq + 1 else seq)"
    using rb from_rb by (auto simp: rollback_def and_then_Inr_iff Let_def)
  obtain bs where split: "cd_blocks ?t = bs @ (height, hash, body) # es"
    using from_rb takeWhile_dropWhile_id [of "\<lambda>(j, _). j < height" "cd_blocks ?t"] unfolding tbl_from_def by metis
  have "cd_blocks t1 = bs @ [(height, hash, body)]" by (rule undo_chain_blocks [OF u _ ok]) (simp add: split)
  then show thesis using that [of bs body es seq t1] split u cs' by (simp add: st')
qed

lemma back_points:
  assumes "roll_execute C (RollBack height hash tip) st = Inr (st', h)" "tbl_ok (cd_blocks (cs_tables (rs_db st)))"
  shows "\<exists>ps qs. chain_points (cs_tables (rs_db st)) = ps @ (height, hash) # qs \<and>
    chain_points (cs_tables (rs_db st')) = ps @ [(height, hash)] \<and> tbl_ok (cd_blocks (cs_tables (rs_db st')))"
  by (rule back_chain [OF assms]) (use assms(2) in \<open>auto simp: chain_points_def tbl_ok_def sorted_wrt_append\<close>)

lemma rollback_wal_inv:
  assumes inv: "wal_inv st" and room: "room st" and run: "roll_execute C (RollBack height hash tip) st = Inr (st', h)"
  shows "wal_inv st'"
proof -
  let ?cs = "rs_db st" and ?cs' = "rs_db st'" and ?m = "rs_mutable st'"
  let ?t = "cs_tables ?cs" and ?t' = "cs_tables ?cs'"
  have num: "numbered (cd_mutable ?t) (cs_next_wal_seq ?cs)" "tbl_ok (cd_blocks ?t)" using inv by (simp_all add: wal_inv_def Let_def)
  obtain body bs es seq t1 where split: "cd_blocks ?t = bs @ (height, hash, body) # es"
    and u: "undo_chain C ?m (rev es) (cs_next_wal_seq ?cs, ?t) = Inr (seq, t1)"
    and blocks: "cd_blocks ?t' = bs @ [(height, hash, body)]"
    and cs': "?t' = (if ?m then t1\<lparr>cd_mutable := tbl_put seq (LMark height hash body) (cd_mutable t1)\<rparr> else t1)"
      "cs_next_wal_seq ?cs' = (if ?m then seq + 1 else seq)" and m: "rs_mutable st \<longrightarrow> ?m"
    by (rule back_chain [OF run num(2)])
  have split2: "cd_blocks ?t = (bs @ [(height, hash, body)]) @ es" using split by simp
  have r: "unat (cs_next_wal_seq ?cs) + length es < 2 ^ 64" "unat (cs_next_wal_seq ?cs) + length es + 1 < 2 ^ 64"
    using room split by (simp_all add: room_def)
  obtain c where c: "rising c"
    "if ?m then nested (map snd (cd_mutable ?t)) \<and> replay (map snd (cd_mutable ?t)) c = Some (chain_points ?t) else cd_mutable ?t = []"
    using inv m unfolding wal_inv_def Let_def settled_def by (cases ?m) auto
  note un = undo_chain_log [OF u split2 num(2) num(1) r(1) c(2)]
  have bsok: "tbl_ok (cd_blocks ?t')" using num(2) split blocks by (auto simp: tbl_ok_def sorted_wrt_append)
  have "numbered (cd_mutable ?t') (cs_next_wal_seq ?cs') \<and>
    (\<exists>c. rising c \<and> replay (map snd (cd_mutable ?t')) c = Some (chain_points ?t')) \<and> settled (map snd (cd_mutable ?t')) \<and>
    (?m \<or> cd_mutable ?t' = [])"
  proof (cases ?m)
    case True
    have r2: "unat seq + 1 < 2 ^ 64" using un r(2) by simp
    have w: "cd_mutable ?t' = cd_mutable t1 @ [(seq, LMark height hash body)]"
      using cs'(1) numbered_put(1) [OF _ r2] un True by simp
    have "chain_points t1 = chain_points ?t'" "chain_points ?t' \<noteq> [] \<and> last (chain_points ?t') = (height, hash)"
      using un blocks by (simp_all add: chain_points_def)
    then have "replay (map snd (cd_mutable ?t')) c = Some (chain_points ?t')"
      using un True w by (simp add: replay_append)
    moreover have "settled (map snd (cd_mutable ?t'))" using un True w by (simp add: settled_def nested_snoc)
    ultimately show ?thesis using numbered_put(2) [OF _ r2] un True w cs'(2) c(1) by auto
  next
    case False
    have "rising (chain_points ?t')" using bsok by (simp add: rising_chain)
    then show ?thesis using un cs' False by (auto simp: settled_def)
  qed
  then show ?thesis using bsok by (simp add: wal_inv_def Let_def)
qed

section \<open>Clients that follow the log\<close>

text \<open>The states of a roll stage on a freshly opened database.\<close>

inductive rolled :: "Crates \<Rightarrow> RollStage \<Rightarrow> bool" for C where
  start: "tbl_ok (cd_blocks t) \<Longrightarrow> rolled C (roll_new (db_open t confs network dunes_from inscriptions_from) memory)"
| step: "\<lbrakk>rolled C st; room st; event_ok st ev; roll_execute C ev st = Inr (st', h)\<rbrakk> \<Longrightarrow> rolled C st'"

lemma rolled_wal_inv: "rolled C st \<Longrightarrow> wal_inv st"
proof (induction rule: rolled.induct)
  case (start t confs network dunes_from inscriptions_from memory)
  then have "rising (chain_points (t\<lparr>cd_mutable := []\<rparr>))" by (simp add: rising_chain)
  then show ?case using start by (auto simp: wal_inv_def roll_new_def db_open_def numbered_Nil settled_def)
next
  case (step st ev st' h)
  then show ?case by (cases ev) (auto intro: apply_wal_inv rollback_wal_inv)
qed

lemma upt_split: "xs @ a # ys = [k..<n] \<Longrightarrow> ys = [Suc a..<n] \<and> (\<forall>x\<in>set xs. x < a)"
proof -
  assume eq: "xs @ a # ys = [k..<n]"
  have i: "length xs < n - k" using arg_cong [OF eq, of length] by simp
  have a: "a = k + length xs" using arg_cong [OF eq, of "\<lambda>zs. zs ! length xs"] i by (simp add: nth_append)
  have "ys = drop (Suc (length xs)) [k..<n]" "xs = take (length xs) [k..<n]" unfolding eq [symmetric] by simp_all
  moreover have "drop (Suc (length xs)) [k..<n] = [Suc a..<n]" by (simp add: a)
  moreover have "take (length xs) [k..<n] = [k..<a]" using i by (simp add: a take_upt)
  ultimately show ?thesis by (metis atLeastLessThan_iff set_upt)
qed

lemma stream_pass_numbered:
  "map (\<lambda>e. unat (fst e)) es = [Suc (unat last_seq)..<n] \<Longrightarrow> n \<le> 2 ^ 64 \<Longrightarrow> \<exists>l. stream_pass last_seq es = (map snd es, l, False)"
proof (induction es arbitrary: last_seq)
  case (Cons e es)
  obtain seq log where e: "e = (seq, log)" by (cases e)
  have lt: "Suc (unat last_seq) < n" using Cons.prems(1) by (metis list.discI list.simps(9) upt_conv_Nil not_le)
  have "[Suc (unat last_seq)..<n] = Suc (unat last_seq) # [Suc (Suc (unat last_seq))..<n]" using lt by (rule upt_conv_Cons)
  then have s: "unat seq = Suc (unat last_seq)" and es: "map (\<lambda>e. unat (fst e)) es = [Suc (unat seq)..<n]"
    using Cons.prems(1) e by simp_all
  have "seq = last_seq + 1" using s lt Cons.prems(2) by (intro word_unat_eq_iff [THEN iffD2]) (simp add: seq_next)
  then show ?case using Cons.IH [OF es Cons.prems(2)] e by auto
qed simp

text \<open>What a client gets, and from which chains on it can use it.\<close>

lemma stream_from_found:
  assumes "rolled C st" "find_wal_seq (cd_mutable (cs_tables (rs_db st))) height hash = Some n"
  shows "\<exists>out l c. stream_mutable (cd_mutable (cs_tables (rs_db st))) n = (out, l, False) \<and> settled out \<and> rising c \<and>
    c \<noteq> [] \<and> last c = (height, hash) \<and> replay out c = Some (chain_points (cs_tables (rs_db st))) \<and>
    (\<exists>pre v. map snd (cd_mutable (cs_tables (rs_db st))) = pre @ v # out)"
proof -
  let ?wal = "cd_mutable (cs_tables (rs_db st))" and ?seq = "cs_next_wal_seq (rs_db st)"
  obtain pre v post where w: "?wal = pre @ (n, v) # post" "is_apply v \<or> is_mark v" "log_height v = height" "log_hash v = hash"
    using assms(2) by (auto simp: find_wal_seq_exact)
  have inv: "wal_inv st" using assms(1) by (rule rolled_wal_inv)
  obtain c0 where c0: "rising c0" "replay (map snd ?wal) c0 = Some (chain_points (cs_tables (rs_db st)))"
    using inv by (auto simp: wal_inv_def Let_def)
  then obtain c1 c where c: "replay_step v c1 = Some c" "replay (map snd post) c = Some (chain_points (cs_tables (rs_db st)))" "rising c"
    by (auto simp: w replay_append bind_eq_Some_conv dest: replay_rising replay_step_rising)
  have "settled (map snd (pre @ [(n, v)]) @ map snd post)" using inv w(1) by (simp add: wal_inv_def Let_def)
  then have settled: "settled (map snd post)" by (rule settled_suffix)
  have last: "c \<noteq> [] \<and> last c = (height, hash)" using c(1) w(2-4) by (cases v) (auto split: if_splits)
  obtain k where k: "map (\<lambda>e. unat (fst e)) ?wal = [k..<unat ?seq]" using inv by (auto simp: wal_inv_def Let_def numbered_def)
  have "map (\<lambda>e. unat (fst e)) post = [Suc (unat n)..<unat ?seq]" "\<forall>e\<in>set pre. fst e < n"
    using upt_split [OF k [unfolded w(1), simplified]] by (auto simp: word_less_nat_alt)
  moreover have "unat ?seq < 2 ^ LENGTH(64)" by (rule unsigned_less)
  then have "unat ?seq \<le> 2 ^ 64" by simp
  ultimately have "\<exists>l. stream_pass n post = (map snd post, l, False)" by (intro stream_pass_numbered)
  moreover have "tbl_from n ?wal = (n, v) # post"
    unfolding tbl_from_def w(1) by (subst dropWhile_append2) (use \<open>\<forall>e\<in>set pre. fst e < n\<close> in auto)
  ultimately show ?thesis using c(2,3) last settled w(1) by (auto simp: stream_mutable_def)
qed

text \<open>
  A client that follows the stream reaches the tip. In every state the roll stage can get to, if the
  server finds the point a client asks for in the log, then the stream from there is not closed with an
  error, and a chain that ends in that point, changed by the streamed entries one by one, becomes the
  chain of the database; every entry to undo is the last block the client has.
\<close>

theorem stream_reaches_tip:
  assumes "rolled C st" "find_wal_seq (cd_mutable (cs_tables (rs_db st))) height hash = Some n"
  shows "\<exists>out l c. stream_mutable (cd_mutable (cs_tables (rs_db st))) n = (out, l, False) \<and>
    c \<noteq> [] \<and> last c = (height, hash) \<and> replay out c = Some (chain_points (cs_tables (rs_db st)))"
  using stream_from_found [OF assms] by blast

definition demo_opened :: RollStage where
  "demo_opened = roll_new (db_open (cs_tables demo_chain) None Dogecoin 100 100) None"

lemma demo_rolled:
  "\<exists>st h e. roll_execute demo_crates (RollForward 4 [4] demo_block (4, [4])) demo_opened = Inr (st, h) \<and>
     cd_mutable (cs_tables (rs_db st)) = [(1, LApply 4 [4] [44] e)]"
  by (simp add: demo_opened_def roll_new_def db_open_def goes_mutable_def log_block_def tbl_last_def
      apply_block_with_context_def demo_chain_def demo_crates_def demo_block_def resolve_and_process_def block_input_refs_def
      tx_refs_def txo_ref_def run_dunes_def run_inscriptions_def process_tx_def storage_dunes_def remove_refs_def Let_def)

theorem stream_reaches_tip_witness:
  "\<exists>(st :: RollStage) out l c. stream_mutable (cd_mutable (cs_tables (rs_db st))) 1 = (out, l, False) \<and>
     c \<noteq> [] \<and> last c = (4, [4]) \<and> replay out c = Some (chain_points (cs_tables (rs_db st)))"
proof -
  obtain st h e where st: "roll_execute demo_crates (RollForward 4 [4] demo_block (4, [4])) demo_opened = Inr (st, h)"
    "cd_mutable (cs_tables (rs_db st)) = [(1, LApply 4 [4] [44] e)]" using demo_rolled by blast
  have "rolled demo_crates demo_opened" unfolding demo_opened_def
    by (rule rolled.start) (simp add: demo_chain_def tbl_ok_def)
  then have "rolled demo_crates st"
    by (rule rolled.step [OF _ _ _ st(1)])
      (simp_all add: room_def demo_opened_def roll_new_def db_open_def demo_chain_def)
  moreover have "find_wal_seq (cd_mutable (cs_tables (rs_db st))) 4 [4] = Some 1" by (simp add: st(2) find_wal_seq_def)
  ultimately show ?thesis using stream_reaches_tip [of demo_crates st 4 "[4]" 1] by blast
qed

text \<open>
  After a reorganisation the log may start with a block that was undone since: a client at the block
  that replaced it is told that its point is not in the log.
\<close>

theorem reorganised_tip_not_found:
  "find_wal_seq [(1, LApply 5 [1] [] e), (2, LUndo 5 [1] []), (3, LMark 4 [0] []), (4, LApply 5 [2] [] e)] 5 [2] = None"
  by (simp add: find_wal_seq_def)

end
