(* ===== verification/Chain_Sync.thy ===== *)
theory Chain_Sync
  imports Chain_Wal
begin

text \<open>
  The pull stage (\<open>sync/pull.rs\<close>) and the points it offers to the node
  (\<open>intersect_options\<close> of \<open>storage/mod.rs\<close>). The stage asks a node for the headers that follow the
  first point of its cursor the node knows, fetches the blocks, gives them heights and sends events to
  the roll stage. What the node answers is a parameter: a list of replies to the successive requests
  for headers, and the blocks.
\<close>

section \<open>Points to offer\<close>

text \<open>
  The loop over heights: the last ten one by one, then at distances that double. The step is a 64-bit
  integer that wraps, so that nothing but the theorem below says that the loop ends.
\<close>

partial_function (option) intersect_loop :: "nat \<Rightarrow> u64 \<Rightarrow> u64 \<Rightarrow> u64 list option" where
  "intersect_loop pushed step index =
     (let step' = (if Suc pushed \<ge> 10 then step * 2 else step);
          index' = saturating_sub index step'
      in if index' = 0 then Some [index]
         else Option.bind (intersect_loop (Suc pushed) step' index') (\<lambda>rest. Some (index # rest)))"

fun lookup_points :: "(u64, bytes \<times> bytes) table \<Rightarrow> u64 list \<Rightarrow> ChainError + points" where
  "lookup_points blocks [] = Inr []"
| "lookup_points blocks (x # xs) =
     (case tbl_get blocks x of None \<Rightarrow> Inl (IntersectMissingBlock x)
      | Some (hash, _) \<Rightarrow> and_then (lookup_points blocks xs) (\<lambda>ps. Inr ((x, hash) # ps)))"

definition intersect_options :: "bytes \<Rightarrow> (u64, bytes \<times> bytes) table \<Rightarrow> (ChainError + points) option" where
  "intersect_options genesis blocks =
     (case tbl_last blocks of None \<Rightarrow> Some (Inr [(0, genesis)])
      | Some (tip_height, _) \<Rightarrow>
        Option.bind (intersect_loop 0 1 tip_height) (\<lambda>indexes.
          Some (and_then (lookup_points blocks indexes) (\<lambda>out. Inr (out @ [(0, genesis)])))))"

section \<open>How far back they reach\<close>

definition gap :: "nat \<Rightarrow> nat" where
  "gap k = (if k \<le> 9 then k else 7 + 2 ^ (k - 8))"

lemma gap_Suc: "gap (Suc n) = gap n + (if n \<ge> 9 then 2 ^ (n - 8) else 1)"
proof (cases "n \<ge> 10")
  case True
  then have "n - 7 = Suc (n - 8)" by simp
  then show ?thesis using True by (simp add: gap_def)
next
  case False
  then consider "n = 9" | "n < 9" by linarith
  then show ?thesis by cases (simp_all add: gap_def)
qed

lemma gap_bound: "gap n < 2 ^ 64 \<Longrightarrow> n \<le> 71"
proof (rule ccontr)
  assume "gap n < 2 ^ 64" "\<not> n \<le> 71"
  moreover from this have "(2 :: nat) ^ 64 \<le> 2 ^ (n - 8)" by (intro power_increasing) simp_all
  ultimately show False by (simp add: gap_def)
qed

text \<open>The step before the n-th height is pushed.\<close>

definition step_at :: "nat \<Rightarrow> u64" where
  "step_at n = (if n < 10 then 1 else 2 ^ (n - 9))"

lemma step_next:
  assumes "n \<le> 71"
  shows "(if Suc n \<ge> 10 then step_at n * 2 else step_at n) = step_at (Suc n)" "unat (step_at (Suc n)) = gap (Suc n) - gap n"
proof -
  show "(if Suc n \<ge> 10 then step_at n * 2 else step_at n) = step_at (Suc n)"
  proof (cases "n < 10")
    case False
    then have "n - 8 = Suc (n - 9)" by simp
    then show ?thesis using False by (simp add: step_at_def)
  next
    case True
    then consider "n = 9" | "n < 9" by linarith
    then show ?thesis by cases (simp_all add: step_at_def)
  qed
  show "unat (step_at (Suc n)) = gap (Suc n) - gap n"
  proof (cases "n \<ge> 9")
    case True
    have "(2 :: int) ^ (n - 8) < 2 ^ 64" using assms by (intro power_strict_increasing) simp_all
    then have "unat (word_of_nat (2 ^ (n - 8)) :: u64) = 2 ^ (n - 8)" by (intro unat_of_nat_small) simp
    then have "unat ((2 :: u64) ^ (n - 8)) = 2 ^ (n - 8)" by simp
    moreover have "Suc n - 9 = n - 8" by simp
    ultimately show ?thesis using True by (simp add: step_at_def gap_Suc)
  qed (simp add: step_at_def gap_Suc)
qed

lemma intersect_loop_from:
  assumes "n = 0 \<or> gap n < T" "T < 2 ^ 64"
  shows "\<exists>N>n. N \<le> 72 \<and> T \<le> gap N \<and> (\<forall>k. n < k \<and> k < N \<longrightarrow> gap k < T) \<and>
    intersect_loop n (step_at n) (word_of_nat (T - gap n)) = Some (map (\<lambda>k. word_of_nat (T - gap k)) [n..<N])"
  using assms
proof (induction "T - gap n" arbitrary: n rule: less_induct)
  case less
  let ?i = "word_of_nat (T - gap n) :: u64" and ?j = "word_of_nat (T - gap (Suc n)) :: u64"
  have n: "n \<le> 71" using less.prems gap_bound [of n] by auto
  note step = step_next [OF n]
  have i: "unat ?i = T - gap n" using less.prems(2) by (simp add: unat_of_nat_small)
  have grow: "gap n < gap (Suc n)" by (simp add: gap_Suc)
  have sub: "saturating_sub ?i (step_at (Suc n)) = ?j"
  proof (rule word_unat_eq_iff [THEN iffD2])
    have "unat (saturating_sub ?i (step_at (Suc n))) = unat ?i - unat (step_at (Suc n))"
      by (simp add: saturating_sub_def word_le_nat_alt unat_sub)
    also have "\<dots> = T - gap (Suc n)" using step(2) i grow by simp
    finally show "unat (saturating_sub ?i (step_at (Suc n))) = unat ?j" using less.prems(2) by (simp add: unat_of_nat_small)
  qed
  have unfold: "intersect_loop n (step_at n) ?i = (if ?j = 0 then Some [?i]
      else Option.bind (intersect_loop (Suc n) (step_at (Suc n)) ?j) (\<lambda>rest. Some (?i # rest)))"
    by (subst intersect_loop.simps) (simp only: step(1) sub Let_def)
  have "unat ?j = T - gap (Suc n)" using less.prems(2) by (simp add: unat_of_nat_small)
  then have zero: "?j = 0 \<longleftrightarrow> T \<le> gap (Suc n)" by (simp add: unat_eq_zero [symmetric])
  show ?case
  proof (cases "T \<le> gap (Suc n)")
    case True
    then show ?thesis using unfold zero n by (intro exI [of _ "Suc n"]) simp
  next
    case False
    then have smaller: "T - gap (Suc n) < T - gap n" and "Suc n = 0 \<or> gap (Suc n) < T" using grow by simp_all
    then obtain N where N: "N > Suc n" "N \<le> 72" "T \<le> gap N" "\<forall>k. Suc n < k \<and> k < N \<longrightarrow> gap k < T"
      "intersect_loop (Suc n) (step_at (Suc n)) ?j = Some (map (\<lambda>k. word_of_nat (T - gap k)) [Suc n..<N])"
      using less.hyps [OF smaller _ less.prems(2)] by blast
    moreover have "[n..<N] = n # [Suc n..<N]" using N(1) by (simp add: upt_conv_Cons)
    moreover have "gap k < T" if "n < k" "k < N" for k using that N(4) False by (cases "k = Suc n") auto
    ultimately show ?thesis using unfold zero False by (intro exI [of _ N]) auto
  qed
qed

lemma lookup_points_all:
  "(\<And>x. x \<in> set xs \<Longrightarrow> tbl_get blocks x \<noteq> None) \<Longrightarrow>
   lookup_points blocks xs = Inr (map (\<lambda>x. (x, fst (the (tbl_get blocks x)))) xs)"
  by (induction xs) (auto split: option.splits prod.splits)

text \<open>
  C24. Collecting the points to offer a node ends. For a chain of blocks with a tip at height T whose blocks
  from height 1 on are all there, the points are those at distances 0 to 9 from the tip and then 7 + 4,
  7 + 8, 7 + 16 and so on, as far as they are above 0, at most 72 of them, with the hashes the table has, and
  the genesis block last.
\<close>

theorem intersect_options_end:
  assumes "tbl_last blocks = Some (tip, b)" "\<And>h. 0 < h \<Longrightarrow> h \<le> tip \<Longrightarrow> tbl_get blocks h \<noteq> None" "0 < tip"
  shows "\<exists>N. 0 < N \<and> N \<le> 72 \<and> unat tip \<le> gap N \<and>
    intersect_options genesis blocks = Some (Inr (map (\<lambda>k. (tip - word_of_nat (gap k),
      fst (the (tbl_get blocks (tip - word_of_nat (gap k)))))) [0..<N] @ [(0, genesis)]))"
proof -
  let ?T = "unat tip"
  have "?T < 2 ^ LENGTH(64)" by (rule unsigned_less)
  then obtain N where N: "0 < N" "N \<le> 72" "?T \<le> gap N" "\<forall>k. 0 < k \<and> k < N \<longrightarrow> gap k < ?T"
    "intersect_loop 0 (step_at 0) (word_of_nat (?T - gap 0)) = Some (map (\<lambda>k. word_of_nat (?T - gap k)) [0..<N])"
    using intersect_loop_from [of 0 ?T] by auto
  have pos: "0 < ?T" using assms(3) by (simp add: word_less_nat_alt)
  have lt: "gap k < ?T" if "k < N" for k using that N(4) pos by (cases "k = 0") (simp_all add: gap_def)
  have at: "word_of_nat (?T - gap k) = tip - word_of_nat (gap k)" if "k < N" for k
    using lt [OF that] by (simp add: of_nat_diff)
  have run: "intersect_loop 0 1 tip = Some (map (\<lambda>k. tip - word_of_nat (gap k)) [0..<N])"
    using N(5) at by (simp add: step_at_def gap_def [of 0])
  have "tbl_get blocks x \<noteq> None" if x: "x \<in> set (map (\<lambda>k. tip - word_of_nat (gap k)) [0..<N])" for x
  proof -
    obtain k where k: "k < N" "x = tip - word_of_nat (gap k)" using x by auto
    have "int (?T - gap k) < 2 ^ 64" using \<open>?T < 2 ^ LENGTH(64)\<close> by simp
    then have "unat x = ?T - gap k" unfolding k(2) at [OF k(1), symmetric] by (intro unat_of_nat_small) simp
    then have "0 < x" "x \<le> tip" using lt [OF k(1)] by (simp_all add: word_less_nat_alt word_le_nat_alt)
    then show ?thesis by (rule assms(2))
  qed
  then have "lookup_points blocks (map (\<lambda>k. tip - word_of_nat (gap k)) [0..<N]) =
      Inr (map (\<lambda>k. (tip - word_of_nat (gap k), fst (the (tbl_get blocks (tip - word_of_nat (gap k)))))) [0..<N])"
    by (subst lookup_points_all) (simp_all add: comp_def)
  then show ?thesis using N(1-3) assms(1) run by (intro exI [of _ N]) (simp add: intersect_options_def)
qed

definition demo_blocks :: "(u64, bytes \<times> bytes) table" where
  "demo_blocks = [(1, [1], [])]"

theorem intersect_options_end_witness:
  "\<exists>N. 0 < N \<and> N \<le> 72 \<and> unat (1 :: u64) \<le> gap N \<and>
    intersect_options [0] demo_blocks = Some (Inr (map (\<lambda>k. (1 - word_of_nat (gap k),
      fst (the (tbl_get demo_blocks (1 - word_of_nat (gap k)))))) [0..<N] @ [(0, [0])]))"
proof (rule intersect_options_end)
  show "tbl_last demo_blocks = Some (1, [1], [])" by (simp add: tbl_last_def demo_blocks_def)
  show "tbl_get demo_blocks h \<noteq> None" if "0 < h" "h \<le> 1" for h
  proof -
    have "h = 1" using that by (simp add: word_less_nat_alt word_le_nat_alt word_unat_eq_iff)
    then show ?thesis by (simp add: tbl_get_def demo_blocks_def)
  qed
qed simp

section \<open>The pull stage\<close>

record Header =
  hd_prev :: bytes
  hd_hash :: bytes

record PullWorker =
  pw_cursor :: points
  pw_tip :: "u64 \<times> bytes"
  pw_init :: bool

datatype PullError = PRestart | PRetry ChainError

text \<open>When the database has no block, the point of the configuration is offered too.\<close>

definition pull_bootstrap :: "(u64 \<times> bytes) option \<Rightarrow> points \<Rightarrow> u64 \<times> bytes \<Rightarrow> PullWorker" where
  "pull_bootstrap intersect intersects tip =
     \<lparr>pw_cursor = (if length intersects = 1 then (case intersect of None \<Rightarrow> intersects | Some p \<Rightarrow> intersects @ [p]) else intersects),
      pw_tip = tip, pw_init = False\<rparr>"

text \<open>
  The headers of a page: the first reply, cut to the size of a page, or the first of the later replies
  (each after the notification of a new block) that is not empty. With no such reply it still waits.
\<close>

fun await_headers :: "Header list list \<Rightarrow> Header list option" where
  "await_headers [] = None"
| "await_headers (r # rs) = (if r = [] then await_headers rs else Some r)"

fun fetch_headers :: "nat \<Rightarrow> Header list list \<Rightarrow> Header list option" where
  "fetch_headers page_size [] = None"
| "fetch_headers page_size (r # rs) =
     (let headers = take page_size r in if headers = [] then await_headers rs else Some headers)"

definition first_unit :: "PullWorker \<Rightarrow> PullEvent list" where
  "first_unit w =
     (if pw_init w then []
      else case pw_cursor w of [] \<Rightarrow> [] | (h, x) # _ \<Rightarrow> if h \<noteq> 0 then [RollBack h x (pw_tip w)] else [])"

text \<open>The height of a hash of the cursor; of several entries for a hash the last one counts.\<close>

definition cursor_height :: "points \<Rightarrow> bytes \<Rightarrow> u64 option" where
  "cursor_height cursor x = map_of (rev (map (\<lambda>(h, y). (y, h)) cursor)) x"

fun number_headers :: "u64 \<Rightarrow> (Header \<times> Block) list \<Rightarrow> ((Header \<times> Block) \<times> u64) list" where
  "number_headers h [] = []"
| "number_headers h (x # xs) = (x, h) # number_headers (h + 1) xs"

fun forward_units :: "Crates \<Rightarrow> u64 \<times> bytes \<Rightarrow> ((Header \<times> Block) \<times> u64) list \<Rightarrow> PullError + (u64 \<times> bytes) \<times> PullEvent list" where
  "forward_units C tip [] = Inr (tip, [])"
| "forward_units C tip (((header, block), height) # hs) =
     (if hd_hash header \<noteq> cr_block_hash C block then Inl PRestart
      else
        let tip = (if height > fst tip then (height, hd_hash header) else tip) in
        and_then (forward_units C tip hs) (\<lambda>(t, us). Inr (t, RollForward height (hd_hash header) block tip # us)))"

definition next_cursor :: "bytes \<Rightarrow> (ChainError + points) \<Rightarrow> ((Header \<times> Block) \<times> u64) list \<Rightarrow> PullError + points" where
  "next_cursor genesis options headers =
     (let cursor = map (\<lambda>((header, _), height). (height, hd_hash header)) (take 50 (rev headers)) in
      and_then
        (if length cursor < 50 then
           (case options of Inl e \<Rightarrow> Inl (PRetry e)
            | Inr ops \<Rightarrow> Inr (if cursor = [] then ops else cursor @ filter (\<lambda>(h, _). h < fst (last cursor)) ops))
         else Inr cursor)
        (\<lambda>cursor. Inr (cursor @ [(0, genesis)])))"

text \<open>A rollback to the point the headers follow, if that is not the tip of the cursor.\<close>

definition back_unit :: "PullWorker \<Rightarrow> u64 \<Rightarrow> bytes \<Rightarrow> PullEvent list" where
  "back_unit w intersect_height prev =
     (case pw_cursor w of [] \<Rightarrow> []
      | (tip_height, _) # _ \<Rightarrow> if intersect_height \<noteq> tip_height then [RollBack intersect_height prev (pw_tip w)] else [])"

definition pull_schedule :: "Crates \<Rightarrow> bytes \<Rightarrow> (ChainError + points) \<Rightarrow> Header list \<Rightarrow> Block list \<Rightarrow> PullWorker \<Rightarrow>
    PullError + PullEvent list \<times> PullWorker" where
  "pull_schedule C genesis options headers blocks w =
     (if length headers \<noteq> length blocks then Inl PRestart
      else case headers of [] \<Rightarrow> Inr ([], w\<lparr>pw_init := pw_init w \<or> pw_cursor w \<noteq> []\<rparr>)
      | first # _ \<Rightarrow>
        (case cursor_height (pw_cursor w) (hd_prev first) of None \<Rightarrow> Inl PRestart
         | Some intersect_height \<Rightarrow>
           let numbered = number_headers (intersect_height + 1) (zip headers blocks)
           in and_then (next_cursor genesis options numbered) (\<lambda>cursor.
              and_then (forward_units C (pw_tip w) numbered) (\<lambda>(tip, units).
                Inr (first_unit w @ back_unit w intersect_height (hd_prev first) @ units,
                  \<lparr>pw_cursor = cursor, pw_tip = tip, pw_init = pw_init w \<or> pw_cursor w \<noteq> []\<rparr>)))))"

text \<open>All units of a page, executed by the roll stage in order.\<close>

fun roll_all :: "Crates \<Rightarrow> PullEvent list \<Rightarrow> RollStage \<Rightarrow> ChainError + RollStage" where
  "roll_all C [] st = Inr st"
| "roll_all C (u # us) st = and_then (roll_execute C u st) (\<lambda>(st, _). roll_all C us st)"

section \<open>Heights are right\<close>

text \<open>Events and points whose heights are those of the chain the node follows, given by \<open>ht\<close>.\<close>

fun event_height_ok :: "(bytes \<Rightarrow> u64) \<Rightarrow> PullEvent \<Rightarrow> bool" where
  "event_height_ok ht (RollForward h x _ _) \<longleftrightarrow> ht x = h"
| "event_height_ok ht (RollBack h x _) \<longleftrightarrow> ht x = h"

definition heights_ok :: "(bytes \<Rightarrow> u64) \<Rightarrow> points \<Rightarrow> bool" where
  "heights_ok ht ps \<longleftrightarrow> (\<forall>(h, x)\<in>set ps. ht x = h)"

fun linked_headers :: "bytes \<Rightarrow> Header list \<Rightarrow> bool" where
  "linked_headers x [] \<longleftrightarrow> True"
| "linked_headers x (h # hs) \<longleftrightarrow> hd_prev h = x \<and> linked_headers (hd_hash h) hs"

lemma cursor_height_ok: "heights_ok ht cursor \<Longrightarrow> cursor_height cursor x = Some h \<Longrightarrow> ht x = h"
  unfolding cursor_height_def heights_ok_def by (auto dest!: map_of_SomeD)

lemma numbered_ok:
  "\<lbrakk>linked_headers x headers; ht x + 1 = n; \<And>h. h \<in> set headers \<Longrightarrow> ht (hd_hash h) = ht (hd_prev h) + 1;
    ((h, b), k) \<in> set (number_headers n (zip headers blocks))\<rbrakk> \<Longrightarrow> ht (hd_hash h) = k"
proof (induction headers arbitrary: x n blocks)
  case (Cons g gs)
  show ?case
  proof (cases blocks)
    case (Cons c cs)
    have g: "ht (hd_hash g) = n" using Cons.prems(1-3) by auto
    then show ?thesis using Cons.prems Cons.IH [of "hd_hash g" "n + 1" cs] Cons by auto
  qed (use Cons.prems in simp)
qed simp

lemma forward_units_Cons:
  assumes "forward_units C tip (((header, block), height) # hs) = Inr (tip', us)"
  obtains tip1 us1 where "hd_hash header = cr_block_hash C block" "forward_units C tip1 hs = Inr (tip', us1)"
    "us = RollForward height (hd_hash header) block tip1 # us1"
proof -
  let ?tip1 = "if height > fst tip then (height, hd_hash header) else tip"
  have "hd_hash header = cr_block_hash C block" using assms by (auto split: if_splits)
  moreover obtain us1 where "forward_units C ?tip1 hs = Inr (tip', us1)" "us = RollForward height (hd_hash header) block ?tip1 # us1"
    using assms calculation unfolding forward_units.simps Let_def by (auto simp: and_then_Inr_iff simp del: split_paired_Ex split del: if_split)
  ultimately show thesis by (rule that)
qed

lemma forward_units_mem:
  "forward_units C tip hs = Inr (tip', us) \<Longrightarrow> u \<in> set us \<Longrightarrow> \<exists>hd b h t. ((hd, b), h) \<in> set hs \<and> u = RollForward h (hd_hash hd) b t"
proof (induction hs arbitrary: tip us)
  case (Cons e hs)
  obtain hd b h where e: "e = ((hd, b), h)" by (metis prod.exhaust)
  show ?case
    by (rule forward_units_Cons [OF Cons.prems(1) [unfolded e]]) (use Cons.IH Cons.prems(2) e in force)
qed simp

lemma pull_schedule_parts:
  assumes "pull_schedule C genesis options headers blocks w = Inr (units, w')" "headers \<noteq> []"
  obtains ih cursor us where
    "cursor_height (pw_cursor w) (hd_prev (hd headers)) = Some ih" "length headers = length blocks"
    "next_cursor genesis options (number_headers (ih + 1) (zip headers blocks)) = Inr cursor"
    "forward_units C (pw_tip w) (number_headers (ih + 1) (zip headers blocks)) = Inr (pw_tip w', us)"
    "units = first_unit w @ back_unit w ih (hd_prev (hd headers)) @ us" "pw_cursor w' = cursor"
proof -
  obtain first rest where h: "headers = first # rest" using assms(2) by (auto simp: neq_Nil_conv)
  then obtain ih where ih: "cursor_height (pw_cursor w) (hd_prev first) = Some ih" "length headers = length blocks"
    using assms(1) by (auto simp: pull_schedule_def split: if_splits option.splits)
  obtain cursor tip us where "next_cursor genesis options (number_headers (ih + 1) (zip headers blocks)) = Inr cursor"
    "forward_units C (pw_tip w) (number_headers (ih + 1) (zip headers blocks)) = Inr (tip, us)"
    "units = first_unit w @ back_unit w ih (hd_prev first) @ us"
    "w' = \<lparr>pw_cursor = cursor, pw_tip = tip, pw_init = pw_init w \<or> pw_cursor w \<noteq> []\<rparr>"
    using assms(1) h ih by (auto simp: pull_schedule_def Let_def and_then_Inr_iff)
  then show thesis using ih h that by simp
qed

text \<open>
  C25. The pull stage numbers blocks correctly. Suppose that the heights of its cursor and of the points of the
  database are those of the node's chain, where the genesis block has height 0, that the headers the node
  sends are linked and that a header is one above its predecessor. Then every event it sends, back or
  forward, has the height of the hash it names, and so has every point of its next cursor.
\<close>

theorem pull_heights_right:
  assumes "pull_schedule C genesis (Inr ops) headers blocks w = Inr (units, w')"
    "heights_ok ht (pw_cursor w)" "heights_ok ht ops" "ht genesis = 0"
    "linked_headers (hd_prev (hd headers)) headers" "\<And>h. h \<in> set headers \<Longrightarrow> ht (hd_hash h) = ht (hd_prev h) + 1"
  shows "list_all (event_height_ok ht) units \<and> heights_ok ht (pw_cursor w')"
proof (cases "headers = []")
  case True
  then show ?thesis using assms(1,2) by (auto simp: pull_schedule_def split: if_splits)
next
  case False
  let ?x = "hd_prev (hd headers)"
  obtain ih cursor us where p: "cursor_height (pw_cursor w) ?x = Some ih"
    "next_cursor genesis (Inr ops) (number_headers (ih + 1) (zip headers blocks)) = Inr cursor"
    "forward_units C (pw_tip w) (number_headers (ih + 1) (zip headers blocks)) = Inr (pw_tip w', us)"
    "units = first_unit w @ back_unit w ih ?x @ us" "pw_cursor w' = cursor"
    by (rule pull_schedule_parts [OF assms(1) False]) blast
  have x: "ht ?x = ih" using assms(2) p(1) by (rule cursor_height_ok)
  have num: "ht (hd_hash h) = k" if "((h, b), k) \<in> set (number_headers (ih + 1) (zip headers blocks))" for h b k
    by (rule numbered_ok [OF assms(5) _ assms(6) that]) (simp add: x)
  have "list_all (event_height_ok ht) (first_unit w)"
    using assms(2) by (auto simp: first_unit_def heights_ok_def split: list.splits)
  moreover have "list_all (event_height_ok ht) (back_unit w ih ?x)" using x by (auto simp: back_unit_def split: list.splits)
  moreover have "list_all (event_height_ok ht) us" using forward_units_mem [OF p(3)] num by (fastforce simp: list_all_iff)
  moreover have "heights_ok ht cursor"
    using p(2) assms(3,4) num unfolding next_cursor_def
    by (fastforce simp: heights_ok_def Let_def and_then_Inr_iff dest: in_set_takeD split: if_splits)
  ultimately show ?thesis using p(4,5) by simp
qed

section \<open>A page of the node's chain\<close>

definition page_points :: "((Header \<times> Block) \<times> u64) list \<Rightarrow> points" where
  "page_points hs = map (\<lambda>((header, _), height). (height, hd_hash header)) hs"

lemma number_headers_Nil_iff: "number_headers n xs = [] \<longleftrightarrow> xs = []"
  by (cases xs) simp_all

lemma forward_all:
  "\<lbrakk>forward_units C tip (number_headers n xs) = Inr (tip', us); roll_all C us st = Inr st';
    \<forall>(k, _)\<in>set (cd_blocks (cs_tables (rs_db st))). k < n; unat n + length xs \<le> 2 ^ 64\<rbrakk> \<Longrightarrow>
   chain_points (cs_tables (rs_db st')) = chain_points (cs_tables (rs_db st)) @ page_points (number_headers n xs)"
proof (induction xs arbitrary: n tip us st)
  case Nil
  then show ?case by (simp add: page_points_def)
next
  case (Cons x xs)
  obtain hd b where x: "x = (hd, b)" by (cases x)
  obtain tip1 us1 where us: "hd_hash hd = cr_block_hash C b" "forward_units C tip1 (number_headers (n + 1) xs) = Inr (tip', us1)"
    "us = RollForward n (hd_hash hd) b tip1 # us1"
    by (rule forward_units_Cons [OF Cons.prems(1) [unfolded x number_headers.simps]])
  obtain st1 h where st1: "roll_execute C (RollForward n (hd_hash hd) b tip1) st = Inr (st1, h)" "roll_all C us1 st1 = Inr st'"
    using Cons.prems(2) us(3) by (auto simp: and_then_Inr_iff)
  have ev: "event_ok st (RollForward n (hd_hash hd) b tip1)" using Cons.prems(3) by simp
  have pts: "chain_points (cs_tables (rs_db st1)) = chain_points (cs_tables (rs_db st)) @ [(n, hd_hash hd)]"
    using forward_points [OF st1(1) ev] us(1) by simp
  show ?case
  proof (cases "xs = []")
    case True
    then show ?thesis using pts us(2) st1(2) x by (simp add: page_points_def)
  next
    case False
    then have lt: "unat n + 1 < 2 ^ 64" using Cons.prems(4) by (cases xs) auto
    have n1: "unat (n + 1) = unat n + 1" using lt by (rule seq_next)
    have bl: "cd_blocks (cs_tables (rs_db st1)) = cd_blocks (cs_tables (rs_db st)) @ [(n, cr_block_hash C b, cr_encode_block C b)]"
      by (rule forward_chain [OF st1(1) ev])
    have "k < n + 1" if "(k, v) \<in> set (cd_blocks (cs_tables (rs_db st1)))" for k v
      using that Cons.prems(3) n1 unfolding bl by (auto simp: word_less_nat_alt)
    then have "chain_points (cs_tables (rs_db st')) = chain_points (cs_tables (rs_db st1)) @ page_points (number_headers (n + 1) xs)"
      using Cons.prems(4) n1 by (intro Cons.IH [OF us(2) st1(2)]) auto
    then show ?thesis using pts x by (simp add: page_points_def)
  qed
qed

lemma next_cursor_head:
  "next_cursor genesis options hs = Inr cursor \<Longrightarrow> hs \<noteq> [] \<Longrightarrow> cursor \<noteq> [] \<and> hd cursor = last (page_points hs)"
proof -
  assume c: "next_cursor genesis options hs = Inr cursor" and ne: "hs \<noteq> []"
  obtain e es where es: "rev hs = e # es" using ne by (metis neq_Nil_conv rev_is_Nil_conv)
  then have "hs = rev es @ [e]" by (metis rev.simps(2) rev_swap)
  then show ?thesis using c es
    by (auto simp: next_cursor_def page_points_def Let_def and_then_Inr_iff split: if_splits sum.splits)
qed

lemma tip_bounds:
  assumes "tbl_ok (cd_blocks t)" "chain_points t = ps @ [(h, x)]" "(k, v) \<in> set (cd_blocks t)"
  shows "k \<le> h"
proof -
  obtain bs b where bs: "cd_blocks t = bs @ [(h, x, b)]"
    using assms(2) by (auto simp: chain_points_def map_eq_append_conv)
  then show ?thesis using assms(1,3) by (auto simp: tbl_ok_def sorted_wrt_append)
qed

text \<open>
  C10. A page of headers becomes the chain of the database. Let the database's chain end in the first point of
  the cursor, where no two points of the cursor have the same height. If the events of a page are all
  executed, then the chain is what it was up to the point the headers follow, a block that was there, and
  from there on the blocks of the page in their order; and it ends in the first point of the next cursor,
  so that the same holds of the next page.
\<close>

theorem page_applied:
  assumes "pull_schedule C genesis options headers blocks w = Inr (units, w')" "headers \<noteq> []" "pw_init w"
    "roll_all C units st = Inr st'" "tbl_ok (cd_blocks (cs_tables (rs_db st)))"
    "pw_cursor w \<noteq> []" "chain_points (cs_tables (rs_db st)) \<noteq> []" "last (chain_points (cs_tables (rs_db st))) = hd (pw_cursor w)"
    "inj_on fst (set (pw_cursor w))" "\<And>h x. (h, x) \<in> set (pw_cursor w) \<Longrightarrow> unat h + length headers < 2 ^ 64"
  shows "\<exists>ps qs ih. chain_points (cs_tables (rs_db st)) = ps @ qs \<and> ps \<noteq> [] \<and> last ps = (ih, hd_prev (hd headers)) \<and>
    chain_points (cs_tables (rs_db st')) = ps @ page_points (number_headers (ih + 1) (zip headers blocks)) \<and>
    pw_init w' \<and> pw_cursor w' \<noteq> [] \<and> hd (pw_cursor w') = last (chain_points (cs_tables (rs_db st')))"
proof -
  let ?x = "hd_prev (hd headers)" and ?pts = "\<lambda>st. chain_points (cs_tables (rs_db st))"
  obtain ih cursor us where p: "cursor_height (pw_cursor w) ?x = Some ih" "length headers = length blocks"
    "next_cursor genesis options (number_headers (ih + 1) (zip headers blocks)) = Inr cursor"
    "forward_units C (pw_tip w) (number_headers (ih + 1) (zip headers blocks)) = Inr (pw_tip w', us)"
    "units = first_unit w @ back_unit w ih ?x @ us" "pw_cursor w' = cursor"
    by (rule pull_schedule_parts [OF assms(1,2)]) blast
  let ?hs = "number_headers (ih + 1) (zip headers blocks)"
  obtain th tx rest where cur: "pw_cursor w = (th, tx) # rest" using assms(6) by (cases "pw_cursor w") auto
  have mem: "(ih, ?x) \<in> set (pw_cursor w)" using p(1) unfolding cursor_height_def by (auto dest!: map_of_SomeD)
  have units: "units = back_unit w ih ?x @ us" using p(5) assms(3) by (simp add: first_unit_def)
  have "\<exists>st1 ps qs. roll_all C us st1 = Inr st' \<and> tbl_ok (cd_blocks (cs_tables (rs_db st1))) \<and> ?pts st = (ps @ [(ih, ?x)]) @ qs \<and>
    ?pts st1 = ps @ [(ih, ?x)]"
  proof (cases "ih = th")
    case True
    have "?x = tx" using assms(9) mem cur True by (auto simp: inj_on_def)
    then have "last (?pts st) = (ih, ?x)" using assms(8) cur True by simp
    then have "?pts st = butlast (?pts st) @ [(ih, ?x)]" using assms(7) by (metis append_butlast_last_id)
    then show ?thesis using assms(4,5) units cur True by (intro exI [of _ st]) (auto simp: back_unit_def)
  next
    case False
    then obtain st1 h where "roll_execute C (RollBack ih ?x (pw_tip w)) st = Inr (st1, h)" "roll_all C us st1 = Inr st'"
      using assms(4) units cur by (auto simp: back_unit_def and_then_Inr_iff)
    then show ?thesis using back_points [OF _ assms(5)] by fastforce
  qed
  then obtain st1 ps qs where st1: "roll_all C us st1 = Inr st'" "tbl_ok (cd_blocks (cs_tables (rs_db st1)))"
    "?pts st = (ps @ [(ih, ?x)]) @ qs" "?pts st1 = ps @ [(ih, ?x)]" by blast
  have room: "unat ih + length headers < 2 ^ 64" using assms(10) mem by blast
  then have ih1: "unat (ih + 1) = unat ih + 1" using assms(2) by (intro seq_next) (cases headers, auto)
  have "k < ih + 1" if "(k, v) \<in> set (cd_blocks (cs_tables (rs_db st1)))" for k v
    using tip_bounds [OF st1(2,4) that] ih1 by (simp add: word_less_nat_alt word_le_nat_alt)
  then have all: "?pts st' = ?pts st1 @ page_points ?hs"
    using room ih1 p(2) by (intro forward_all [OF p(4) st1(1)]) auto
  have "?hs \<noteq> []" using assms(2) p(2) by (simp add: number_headers_Nil_iff) (metis length_0_conv)
  then have "cursor \<noteq> [] \<and> hd cursor = last (?pts st')"
    using next_cursor_head [OF p(3)] all by (simp add: page_points_def)
  moreover have "pw_init w'" using assms(1,2,3) by (auto simp: pull_schedule_def Let_def and_then_Inr_iff split: list.splits option.splits if_splits)
  ultimately show ?thesis using st1(3,4) all p(6) by (intro exI [of _ "ps @ [(ih, ?x)]"] exI [of _ qs] exI [of _ ih]) simp
qed

text \<open>An example: a header that follows the only block of a database.\<close>

definition demo_worker :: PullWorker where
  "demo_worker = \<lparr>pw_cursor = [(3, [3]), (0, [0])], pw_tip = (3, [3]), pw_init = True\<rparr>"

definition demo_header :: Header where
  "demo_header = \<lparr>hd_prev = [3], hd_hash = [4]\<rparr>"

lemma demo_page:
  "\<exists>w'. pull_schedule demo_crates [0] (Inr [(3, [3]), (0, [0])]) [demo_header] [demo_block] demo_worker =
     Inr ([RollForward 4 [4] demo_block (4, [4])], w') \<and> pw_cursor w' = [(4, [4]), (3, [3]), (0, [0]), (0, [0])]"
proof -
  have "cr_block_hash demo_crates demo_block = [4]" by (simp add: demo_crates_def)
  then show ?thesis
    by (simp add: pull_schedule_def demo_worker_def demo_header_def cursor_height_def back_unit_def first_unit_def next_cursor_def Let_def)
qed

theorem page_applied_witness:
  "\<exists>st' ps qs ih. chain_points (cs_tables (rs_db demo_opened)) = ps @ qs \<and> ps \<noteq> [] \<and> last ps = (ih, [3]) \<and>
     chain_points (cs_tables (rs_db (st' :: RollStage))) = ps @ page_points (number_headers (ih + 1) (zip [demo_header] [demo_block]))"
proof -
  obtain w' where w: "pull_schedule demo_crates [0] (Inr [(3, [3]), (0, [0])]) [demo_header] [demo_block] demo_worker =
     Inr ([RollForward 4 [4] demo_block (4, [4])], w')" using demo_page by blast
  obtain st h where st: "roll_execute demo_crates (RollForward 4 [4] demo_block (4, [4])) demo_opened = Inr (st, h)"
    using demo_rolled by blast
  have run: "roll_all demo_crates [RollForward 4 [4] demo_block (4, [4])] demo_opened = Inr st" using st by simp
  have opened: "cd_blocks (cs_tables (rs_db demo_opened)) = [(3, [3], [33])]"
    by (simp add: demo_opened_def roll_new_def db_open_def demo_chain_def)
  have "\<exists>ps qs ih. chain_points (cs_tables (rs_db demo_opened)) = ps @ qs \<and> ps \<noteq> [] \<and> last ps = (ih, hd_prev (hd [demo_header])) \<and>
    chain_points (cs_tables (rs_db st)) = ps @ page_points (number_headers (ih + 1) (zip [demo_header] [demo_block])) \<and>
    pw_init w' \<and> pw_cursor w' \<noteq> [] \<and> hd (pw_cursor w') = last (chain_points (cs_tables (rs_db st)))"
    by (rule page_applied [OF w _ _ run])
      (auto simp: opened chain_points_def tbl_ok_def demo_worker_def inj_on_def)
  then show ?thesis by (simp add: demo_header_def) blast
qed

theorem pull_heights_right_witness:
  "\<exists>w'. heights_ok (\<lambda>x. if x = [3] then 3 else if x = [4] then 4 else 0) (pw_cursor (w' :: PullWorker)) \<and> pw_cursor w' \<noteq> []"
proof -
  obtain w' where w: "pull_schedule demo_crates [0] (Inr [(3, [3]), (0, [0])]) [demo_header] [demo_block] demo_worker =
     Inr ([RollForward 4 [4] demo_block (4, [4])], w')" "pw_cursor w' \<noteq> []" using demo_page by force
  let ?ht = "\<lambda>x. if x = [3] then 3 else if x = [4] then 4 else (0 :: u64)"
  have "list_all (event_height_ok ?ht) [RollForward 4 [4] demo_block (4, [4])] \<and> heights_ok ?ht (pw_cursor w')"
    by (rule pull_heights_right [OF w(1)]) (auto simp: heights_ok_def demo_worker_def demo_header_def)
  then show ?thesis using w(2) by blast
qed

section \<open>A configured starting point\<close>

text \<open>
  C39. An empty database cannot start from a configured point. When the node answers with headers that follow
  the configured point, the pull stage, whose cursor starts with the genesis block, first sends a rollback
  to that point, which the database refuses because it has no block there.
\<close>

theorem configured_intersect_refused:
  assumes "cd_blocks (cs_tables (rs_db st)) = []" "h \<noteq> 0" "x \<noteq> genesis" "headers \<noteq> []" "hd_prev (hd headers) = x"
    "pull_schedule C genesis options headers blocks (pull_bootstrap (Some (h, x)) [(0, genesis)] tip) = Inr (units, w')"
  shows "\<exists>us. units = RollBack h x tip # us \<and> roll_execute C (RollBack h x tip) st = Inl (InvalidRollbackPoint None)"
proof -
  let ?w = "pull_bootstrap (Some (h, x)) [(0, genesis)] tip"
  obtain ih us where p: "cursor_height (pw_cursor ?w) x = Some ih" "units = first_unit ?w @ back_unit ?w ih x @ us"
    by (rule pull_schedule_parts [OF assms(6,4)]) (use assms(5) in simp)
  have "ih = h" using p(1) by (simp add: pull_bootstrap_def cursor_height_def)
  then have "units = RollBack h x tip # us" using p(2) assms(2) by (simp add: pull_bootstrap_def first_unit_def back_unit_def)
  moreover have "roll_execute C (RollBack h x tip) st = Inl (InvalidRollbackPoint None)"
    using assms(1) by (simp add: rollback_def tbl_from_def Let_def)
  ultimately show ?thesis by blast
qed

theorem configured_intersect_refused_witness:
  "\<exists>us. [RollBack 3 [3] (9, [9]), RollForward 4 [4] demo_block (9, [9])] = RollBack 3 [3] (9, [9]) # us \<and>
     roll_execute demo_crates (RollBack 3 [3] (9, [9])) (demo_opened\<lparr>rs_db := (rs_db demo_opened)\<lparr>cs_tables := (cs_tables demo_chain)\<lparr>cd_blocks := []\<rparr>\<rparr>\<rparr>) =
       Inl (InvalidRollbackPoint None)"
proof -
  have "cr_block_hash demo_crates demo_block = [4]" by (simp add: demo_crates_def)
  then have "\<exists>w'. pull_schedule demo_crates [0] (Inr [(0, [0])]) [demo_header] [demo_block] (pull_bootstrap (Some (3, [3])) [(0, [0])] (9, [9])) =
      Inr ([RollBack 3 [3] (9, [9]), RollForward 4 [4] demo_block (9, [9])], w')"
    by (simp add: pull_schedule_def pull_bootstrap_def demo_header_def cursor_height_def back_unit_def first_unit_def next_cursor_def Let_def)
  then obtain w' where "pull_schedule demo_crates [0] (Inr [(0, [0])]) [demo_header] [demo_block] (pull_bootstrap (Some (3, [3])) [(0, [0])] (9, [9])) =
      Inr ([RollBack 3 [3] (9, [9]), RollForward 4 [4] demo_block (9, [9])], w')" by blast
  then show ?thesis by (rule configured_intersect_refused [rotated 5]) (simp_all add: demo_header_def)
qed

end
