(* ===== verification/Chain_Serve.thy ===== *)
theory Chain_Serve
  imports Chain_Wal
begin

text \<open>
  The server of the compressor (\<open>serve/grpc.rs\<close>): pages of blocks with their context, and the stream
  of updates. The messages are those of \<open>sync.proto\<close>; a field that holds a message is optional, and
  integers that the protocol has at 32 bits are cast. Where the code collects into a hash map the
  model keeps the order of first insertion.
\<close>

section \<open>Messages\<close>

record BlockRef =
  br_height :: u64
  br_hash :: bytes

record ResolvedTxo =
  rt_ref :: "TxoRef option"
  rt_height :: u64
  rt_raw :: bytes
  rt_ord_ranges :: "OrdinalRange list"

record Rune =
  rn_id :: "(u64 \<times> u32) option"
  rn_amount :: bytes

record RunesResolvedTxo =
  rr_ref :: "TxoRef option"
  rr_runes :: "Rune list"

record RunesInfo =
  ri_txo_resolver :: "RunesResolvedTxo list"
  ri_etchs :: "(u32 \<times> bytes) list"
  ri_mints :: "(u32 \<times> u32) list"

record InscriptionAtOffset =
  ia_id :: "(bytes \<times> u32) option"
  ia_offset :: u32

record InscriptionResolvedTxo =
  ir_ref :: "TxoRef option"
  ir_inscriptions :: "InscriptionAtOffset list"

datatype Brc20Kind =
    KDeploy bytes
  | KMint bytes bytes bytes
  | KTransfer bytes bytes "TxoRef option" bytes
  | KTransferInit bytes bytes bytes

record Brc20Resolver =
  bz_id :: "(bytes \<times> u32) option"
  bz_action :: "Brc20Kind option option"

record InscriptionOrigin =
  io_tx_hash :: bytes
  io_id :: "(bytes \<times> u32) option"
  io_num :: u64
  io_content :: bytes
  io_type :: bytes

record InscriptionsInfo =
  in_txo_resolver :: "InscriptionResolvedTxo list"
  in_valid_reinscriptions :: "(u32 \<times> u32) list"
  in_brc20_resolver :: "Brc20Resolver list"
  in_new_inscriptions :: "InscriptionOrigin list"

record BlockWithContext =
  bw_ref :: "BlockRef option"
  bw_raw :: bytes
  bw_txo_resolver :: "ResolvedTxo list"
  bw_runes :: "RunesInfo option"
  bw_inscriptions :: "InscriptionsInfo option"

datatype Action = Apply BlockWithContext | Undo BlockRef | Reset BlockRef

record PageResponse =
  pg_blocks :: "BlockWithContext list"
  pg_next_cursor :: "BlockRef option"
  pg_chain_tip :: "BlockRef option"

datatype Status = InvalidArgument | NotFound | Internal

section \<open>From a resolver entry to the context of a block\<close>

definition rune_message :: "StorageDuneId \<times> u128 \<Rightarrow> Rune" where
  "rune_message r = \<lparr>rn_id = Some (sdi_block (fst r), ucast (sdi_tx (fst r))), rn_amount = to_be_bytes (snd r)\<rparr>"

definition runes_info :: "ResolverEntry \<Rightarrow> RunesInfo" where
  "runes_info re =
     \<lparr>ri_txo_resolver =
        map (\<lambda>(r, b). \<lparr>rr_ref = Some r, rr_runes = map rune_message (tb_dunes b)\<rparr>) (re_resolver re) @
        map (\<lambda>(r, ds). \<lparr>rr_ref = Some r, rr_runes = map rune_message ds\<rparr>) (re_dunes re),
      ri_etchs = map (\<lambda>(tx, name). (tx, to_be_bytes name)) (re_etches re),
      ri_mints = map (\<lambda>(tx, edict). (tx, ucast edict)) (re_mints re)\<rparr>"

definition id_message :: "InscriptionId \<Rightarrow> (bytes \<times> u32) option" where
  "id_message i = Some (ii_txid i, ii_index i)"

definition at_offset :: "u64 \<times> InscriptionId \<Rightarrow> InscriptionAtOffset" where
  "at_offset x = \<lparr>ia_id = id_message (snd x), ia_offset = ucast (fst x)\<rparr>"

text \<open>\<open>entry(key).or_default().push(x)\<close> for every element of every entry: keys without elements do not appear.\<close>

fun push_at :: "'k \<Rightarrow> 'v \<Rightarrow> ('k \<times> 'v list) list \<Rightarrow> ('k \<times> 'v list) list" where
  "push_at k v [] = [(k, [v])]"
| "push_at k v ((j, vs) # m) = (if j = k then (j, vs @ [v]) # m else (j, vs) # push_at k v m)"

definition collect :: "('k \<times> 'v list) list \<Rightarrow> ('k \<times> 'v list) list" where
  "collect es = fold (\<lambda>(k, vs). fold (push_at k) vs) es []"

definition inscribed :: "(TxoRef \<times> (u64 \<times> InscriptionId) list) list \<Rightarrow> InscriptionResolvedTxo list" where
  "inscribed es = map (\<lambda>(r, xs). \<lparr>ir_ref = Some r, ir_inscriptions = xs\<rparr>) (collect (map (\<lambda>(r, xs). (r, map at_offset xs)) es))"

fun brc20_kind :: "BRC20Message \<Rightarrow> Brc20Kind" where
  "brc20_kind (Deploy tick) = KDeploy tick"
| "brc20_kind (Mint tick amt sh) = KMint tick (to_be_bytes amt) sh"
| "brc20_kind (Transfer tick amt p sh) = KTransfer tick (to_be_bytes amt) (Some (txo_ref p)) sh"
| "brc20_kind (TransferInit tick amt sh) = KTransferInit tick (to_be_bytes amt) sh"

definition inscriptions_info :: "ResolverEntry \<Rightarrow> InscriptionsInfo" where
  "inscriptions_info re =
     \<lparr>in_txo_resolver = inscribed (map (\<lambda>(r, b). (r, tb_inscriptions b)) (re_resolver re)) @ inscribed (re_inscriptions re),
      in_valid_reinscriptions = re_reinscriptions re,
      in_brc20_resolver = map (\<lambda>(i, m). \<lparr>bz_id = id_message i, bz_action = Some (Some (brc20_kind m))\<rparr>) (re_brc20 re),
      in_new_inscriptions = map (\<lambda>n. \<lparr>io_tx_hash = ni_tx_hash n, io_id = id_message (ni_id n), io_num = ni_number n,
        io_content = ni_body n, io_type = ni_body_type n\<rparr>) (re_new re)\<rparr>"

definition block_message :: "u64 \<Rightarrow> bytes \<Rightarrow> bytes \<Rightarrow> ResolverEntry \<Rightarrow> BlockWithContext" where
  "block_message height hash raw re =
     \<lparr>bw_ref = Some \<lparr>br_height = height, br_hash = hash\<rparr>, bw_raw = raw,
      bw_txo_resolver = map (\<lambda>(r, b). \<lparr>rt_ref = Some r, rt_height = tb_height b, rt_raw = tb_raw b, rt_ord_ranges = tb_ord_ranges b\<rparr>) (re_resolver re),
      bw_runes = Some (runes_info re), bw_inscriptions = Some (inscriptions_info re)\<rparr>"

fun log_to_response_with_ctx :: "Log \<Rightarrow> Action" where
  "log_to_response_with_ctx (LApply height hash body re) = Apply (block_message height hash body re)"
| "log_to_response_with_ctx (LUndo height hash _) = Undo \<lparr>br_height = height, br_hash = hash\<rparr>"
| "log_to_response_with_ctx (LMark height hash _) = Reset \<lparr>br_height = height, br_hash = hash\<rparr>"

section \<open>Pages\<close>

text \<open>The block of the cursor must be there; it is not part of the page.\<close>

definition skip_intersect :: "BlockRef option \<Rightarrow> (u64 \<times> bytes \<times> bytes) list \<Rightarrow> Status + (u64 \<times> bytes \<times> bytes) list" where
  "skip_intersect cursor es =
     (case cursor of None \<Rightarrow> Inr es
      | Some c \<Rightarrow>
        (case es of [] \<Rightarrow> Inl NotFound
         | (height, hash, _) # rest \<Rightarrow>
           if height \<noteq> br_height c then Inl NotFound else if hash \<noteq> br_hash c then Inl NotFound else Inr rest))"

fun page_messages :: "((u64 \<times> bytes \<times> bytes) \<times> (u64 \<times> ResolverEntry)) list \<Rightarrow> Status + BlockWithContext list" where
  "page_messages [] = Inr []"
| "page_messages (((height, hash, raw), (_, re)) # xs) =
     (if hash \<noteq> re_hash re then Inl Internal
      else and_then (page_messages xs) (\<lambda>ms. Inr (block_message height hash raw re # ms)))"

definition ref_of :: "u64 \<times> bytes \<times> bytes \<Rightarrow> BlockRef" where
  "ref_of e = \<lparr>br_height = fst e, br_hash = fst (snd e)\<rparr>"

definition page_blocks_with_context :: "BlockRef option \<Rightarrow> u32 \<Rightarrow> ChainTables \<Rightarrow> Status + PageResponse" where
  "page_blocks_with_context cursor items t =
     (if items < 1 then Inl InvalidArgument
      else
        let max_items = unat items;
            intersect_height = (case cursor of None \<Rightarrow> 0 | Some c \<Rightarrow> br_height c)
        in and_then (skip_intersect cursor (tbl_from intersect_height (cd_blocks t))) (\<lambda>es.
          let page_blocks = take (max_items + 1) es;
              more = (length page_blocks = max_items + 1);
              page_blocks = (if more then take max_items page_blocks else page_blocks);
              next_cursor = (if more then map_option ref_of (tbl_last page_blocks) else None);
              rs = tbl_from intersect_height (cd_resolvers t);
              page_resolvers = take max_items (if cursor \<noteq> None then drop 1 rs else rs)
          in if length page_blocks \<noteq> length page_resolvers then Inl Internal
             else and_then (page_messages (zip page_blocks page_resolvers)) (\<lambda>page.
               Inr \<lparr>pg_blocks = page, pg_next_cursor = next_cursor, pg_chain_tip = map_option ref_of (tbl_last (cd_blocks t))\<rparr>)))"

section \<open>The stream\<close>

text \<open>The first point the log has decides where the stream starts; the result is a first pass over the log.\<close>

fun stream_updates_with_context :: "BlockRef list \<Rightarrow> ChainTables \<Rightarrow> Status + Action list \<times> u64 \<times> bool" where
  "stream_updates_with_context [] t = Inl NotFound"
| "stream_updates_with_context (p # ps) t =
     (if length (br_hash p) \<noteq> 32 then Inl InvalidArgument
      else case find_wal_seq (cd_mutable t) (br_height p) (br_hash p) of
        Some n \<Rightarrow> (let (logs, l, err) = stream_mutable (cd_mutable t) n in Inr (map log_to_response_with_ctx logs, l, err))
      | None \<Rightarrow> stream_updates_with_context ps t)"

end
