(* ===== verification/Source_Compressor.thy ===== *)
theory Source_Compressor
  imports Chain_Serve Rollback_Buffer
begin

text \<open>
  The source of the indexer (\<open>sources/compressor/compressor.rs\<close>, \<open>sources/utils.rs\<close> and \<open>BlockContext\<close> of
  \<open>model.rs\<close> of polyphony): on start it looks for a point it has in common with the compressor, it pages through the blocks of a compressor, switches to the stream near the tip, and
  turns every message into a payload for the reducers. A block comes with its context: the outputs its
  inputs spend, and the dunes and inscriptions of its inputs and outputs.
\<close>

section \<open>The context of a block\<close>

record ContextUtxo =
  cu_height :: u64
  cu_txo :: TxOut
  cu_ords :: "OrdinalRange list"

type_synonym RuneId = "u64 \<times> u32"

record BlockContext =
  bx_inputs :: "TxoRef \<rightharpoonup> ContextUtxo"
  bx_runes :: "TxoRef \<rightharpoonup> (RuneId \<times> u128) list"
  bx_mints :: "(u32 \<times> u32) list"
  bx_etches :: "(u32 \<times> u128) list"
  bx_inscriptions :: "TxoRef \<rightharpoonup> (u32 \<times> InscriptionId) list"
  bx_reinscriptions :: "(u32 \<times> u32) list"
  bx_brc20 :: "InscriptionId \<rightharpoonup> BRC20Message list"
  bx_new :: "bytes \<rightharpoonup> InscriptionId \<times> u64 \<times> bytes \<times> bytes"

definition context_new :: BlockContext where
  "context_new = \<lparr>bx_inputs = Map.empty, bx_runes = Map.empty, bx_mints = [], bx_etches = [], bx_inscriptions = Map.empty,
     bx_reinscriptions = [], bx_brc20 = Map.empty, bx_new = Map.empty\<rparr>"

datatype SourceError =
    MissingBlockRef | MissingTxoRef | MalformedTxHash | SourcePanic | SourceRestart
  | IntersectNotFound | NoIntersectInBuffer | SourceStatus Status

definition insert_txo :: "BitcoinCrate \<Rightarrow> TxoRef \<Rightarrow> u64 \<Rightarrow> bytes \<Rightarrow> OrdinalRange list \<Rightarrow> BlockContext \<Rightarrow> SourceError + BlockContext" where
  "insert_txo B key height raw ords ctx =
     (case bc_decode_txout B raw of None \<Rightarrow> Inl SourcePanic
      | Some txo \<Rightarrow> Inr (ctx\<lparr>bx_inputs := (bx_inputs ctx)(key \<mapsto> \<lparr>cu_height = height, cu_txo = txo, cu_ords = ords\<rparr>)\<rparr>))"

definition insert_runes :: "TxoRef \<Rightarrow> (RuneId \<times> u128) list \<Rightarrow> BlockContext \<Rightarrow> BlockContext" where
  "insert_runes key runes ctx = ctx\<lparr>bx_runes := (bx_runes ctx)(key \<mapsto> runes)\<rparr>"

definition insert_inscriptions :: "TxoRef \<Rightarrow> (u32 \<times> InscriptionId) list \<Rightarrow> BlockContext \<Rightarrow> BlockContext" where
  "insert_inscriptions key inscriptions ctx = ctx\<lparr>bx_inscriptions := (bx_inscriptions ctx)(key \<mapsto> inscriptions)\<rparr>"

definition insert_brc20 :: "InscriptionId \<Rightarrow> BRC20Message \<Rightarrow> BlockContext \<Rightarrow> BlockContext" where
  "insert_brc20 key action ctx =
     ctx\<lparr>bx_brc20 := (bx_brc20 ctx)(key \<mapsto> (case bx_brc20 ctx key of None \<Rightarrow> [] | Some ms \<Rightarrow> ms) @ [action])\<rparr>"

definition insert_new_inscription :: "bytes \<Rightarrow> InscriptionId \<times> u64 \<times> bytes \<times> bytes \<Rightarrow> BlockContext \<Rightarrow> BlockContext" where
  "insert_new_inscription key info ctx = ctx\<lparr>bx_new := (bx_new ctx)(key \<mapsto> info)\<rparr>"

section \<open>Reading messages\<close>

fun try_fold :: "('x \<Rightarrow> 's \<Rightarrow> 'e + 's) \<Rightarrow> 'x list \<Rightarrow> 's \<Rightarrow> 'e + 's" where
  "try_fold f [] s = Inr s"
| "try_fold f (x # xs) s = and_then (f x s) (try_fold f xs)"

text \<open>\<open>try_into\<close> an array of a fixed size fails on any other length.\<close>

definition read_ref :: "TxoRef option \<Rightarrow> SourceError + TxoRef" where
  "read_ref r = (case r of None \<Rightarrow> Inl MissingTxoRef | Some x \<Rightarrow> if length (fst x) = 32 then Inr x else Inl MalformedTxHash)"

definition read_u128 :: "bytes \<Rightarrow> SourceError + u128" where
  "read_u128 bs = (if length bs = 16 then Inr (from_be_bytes bs) else Inl SourcePanic)"

definition read_id :: "(bytes \<times> u32) option \<Rightarrow> SourceError + InscriptionId" where
  "read_id i = (case i of None \<Rightarrow> Inl SourcePanic
     | Some x \<Rightarrow> if length (fst x) = 32 then Inr \<lparr>ii_txid = fst x, ii_index = snd x\<rparr> else Inl SourcePanic)"

definition read_script_hash :: "bytes \<Rightarrow> SourceError + bytes" where
  "read_script_hash bs = (if length bs = 20 then Inr bs else Inl SourcePanic)"

fun try_map :: "('x \<Rightarrow> 'e + 'y) \<Rightarrow> 'x list \<Rightarrow> 'e + 'y list" where
  "try_map f [] = Inr []"
| "try_map f (x # xs) = and_then (f x) (\<lambda>y. and_then (try_map f xs) (\<lambda>ys. Inr (y # ys)))"

definition read_rune :: "Rune \<Rightarrow> SourceError + RuneId \<times> u128" where
  "read_rune r = (case rn_id r of None \<Rightarrow> Inl SourcePanic | Some i \<Rightarrow> and_then (read_u128 (rn_amount r)) (\<lambda>a. Inr (i, a)))"

definition read_txo :: "BitcoinCrate \<Rightarrow> ResolvedTxo \<Rightarrow> BlockContext \<Rightarrow> SourceError + BlockContext" where
  "read_txo B t ctx = and_then (read_ref (rt_ref t)) (\<lambda>r. insert_txo B r (rt_height t) (rt_raw t) (rt_ord_ranges t) ctx)"

definition read_runes :: "RunesResolvedTxo \<Rightarrow> BlockContext \<Rightarrow> SourceError + BlockContext" where
  "read_runes t ctx =
     and_then (read_ref (rr_ref t)) (\<lambda>r. and_then (try_map read_rune (rr_runes t)) (\<lambda>runes.
       Inr (if runes \<noteq> [] then insert_runes r runes ctx else ctx)))"

definition read_runes_info :: "RunesInfo \<Rightarrow> BlockContext \<Rightarrow> SourceError + BlockContext" where
  "read_runes_info i ctx =
     and_then (try_fold read_runes (ri_txo_resolver i) ctx) (\<lambda>ctx.
     and_then (try_map (\<lambda>(tx, name). and_then (read_u128 name) (\<lambda>n. Inr (tx, n))) (ri_etchs i)) (\<lambda>etches.
       Inr (ctx\<lparr>bx_etches := etches, bx_mints := ri_mints i\<rparr>)))"

definition read_inscribed :: "InscriptionResolvedTxo \<Rightarrow> BlockContext \<Rightarrow> SourceError + BlockContext" where
  "read_inscribed t ctx =
     and_then (read_ref (ir_ref t)) (\<lambda>r.
     and_then (try_map (\<lambda>x. and_then (read_id (ia_id x)) (\<lambda>i. Inr (ia_offset x, i))) (ir_inscriptions t)) (\<lambda>xs.
       Inr (if xs \<noteq> [] then insert_inscriptions r xs ctx else ctx)))"

fun read_kind :: "Brc20Kind \<Rightarrow> SourceError + BRC20Message" where
  "read_kind (KDeploy tick) = Inr (Deploy tick)"
| "read_kind (KMint tick amt sh) = and_then (read_u128 amt) (\<lambda>a. and_then (read_script_hash sh) (\<lambda>s. Inr (Mint tick a s)))"
| "read_kind (KTransferInit tick amt sh) = and_then (read_u128 amt) (\<lambda>a. and_then (read_script_hash sh) (\<lambda>s. Inr (TransferInit tick a s)))"
| "read_kind (KTransfer tick amt p sh) =
     (case p of None \<Rightarrow> Inl SourcePanic
      | Some r \<Rightarrow> if length (fst r) \<noteq> 32 then Inl SourcePanic
        else and_then (read_u128 amt) (\<lambda>a. and_then (read_script_hash sh) (\<lambda>s.
          Inr (Transfer tick a \<lparr>op_txid = fst r, op_vout = snd r\<rparr> s))))"

definition read_brc20 :: "Brc20Resolver \<Rightarrow> BlockContext \<Rightarrow> SourceError + BlockContext" where
  "read_brc20 b ctx =
     and_then (read_id (bz_id b)) (\<lambda>i.
       case bz_action b of Some (Some k) \<Rightarrow> and_then (read_kind k) (\<lambda>m. Inr (insert_brc20 i m ctx)) | _ \<Rightarrow> Inl SourcePanic)"

definition read_origin :: "InscriptionOrigin \<Rightarrow> BlockContext \<Rightarrow> SourceError + BlockContext" where
  "read_origin o1 ctx =
     (if length (io_tx_hash o1) \<noteq> 32 then Inl SourcePanic
      else and_then (read_id (io_id o1)) (\<lambda>i. Inr (insert_new_inscription (io_tx_hash o1) (i, io_num o1, io_type o1, io_content o1) ctx)))"

definition read_inscriptions_info :: "InscriptionsInfo \<Rightarrow> BlockContext \<Rightarrow> SourceError + BlockContext" where
  "read_inscriptions_info i ctx =
     and_then (try_fold read_inscribed (in_txo_resolver i) ctx) (\<lambda>ctx.
     and_then (try_fold read_brc20 (in_brc20_resolver i) (ctx\<lparr>bx_reinscriptions := in_valid_reinscriptions i\<rparr>)) (\<lambda>ctx.
       try_fold read_origin (in_new_inscriptions i) ctx))"

section \<open>Payloads\<close>

datatype EnrichedBlockPayload =
    EnrichedForward Point bytes BlockContext bool
  | EnrichedBack Point bool

definition read_block :: "BitcoinCrate \<Rightarrow> BlockWithContext \<Rightarrow> SourceError + BlockContext" where
  "read_block B block =
     and_then (try_fold (read_txo B) (bw_txo_resolver block) context_new) (\<lambda>ctx.
     and_then (case bw_runes block of None \<Rightarrow> Inr ctx | Some i \<Rightarrow> read_runes_info i ctx) (\<lambda>ctx.
       case bw_inscriptions block of None \<Rightarrow> Inr ctx | Some i \<Rightarrow> read_inscriptions_info i ctx))"

text \<open>The hash must have 32 bytes.\<close>

definition block_ref_to_point :: "BlockRef \<Rightarrow> SourceError + Point" where
  "block_ref_to_point r = (if length (br_hash r) = 32 then Inr \<lparr>pt_height = br_height r, pt_hash = br_hash r\<rparr> else Inl SourcePanic)"

definition point_to_block_ref :: "Point \<Rightarrow> BlockRef" where
  "point_to_block_ref p = \<lparr>br_height = pt_height p, br_hash = pt_hash p\<rparr>"

fun process_action :: "BitcoinCrate \<Rightarrow> bool \<Rightarrow> Action \<Rightarrow> SourceError + EnrichedBlockPayload list" where
  "process_action B mutable (Apply block) =
     (case bw_ref block of None \<Rightarrow> Inl MissingBlockRef
      | Some r \<Rightarrow> and_then (read_block B block) (\<lambda>ctx.
          and_then (block_ref_to_point r) (\<lambda>p. Inr [EnrichedForward p (bw_raw block) ctx mutable])))"
| "process_action B mutable (Reset r) = and_then (block_ref_to_point r) (\<lambda>p. Inr [EnrichedBack p False])"
| "process_action B mutable (Undo _) = Inr []"

section \<open>The worker\<close>

datatype Mode = Init | Dumping "BlockRef option" | Streaming

record SourceWorker =
  sw_mode :: Mode
  sw_upstream_height :: "u64 option"
  sw_stream :: "(Status + Action option) list"

definition source_new :: SourceWorker where
  "source_new = \<lparr>sw_mode = Init, sw_upstream_height = None, sw_stream = []\<rparr>"

definition IMMUTABLE_AFTER_BLOCKS :: u64 where
  "IMMUTABLE_AFTER_BLOCKS = 1000"

text \<open>What a server answers: pages, and streams. The end of a stream and an error in it are both an error.\<close>

type_synonym server =
  "(BlockRef option \<Rightarrow> u32 \<Rightarrow> Status + PageResponse) \<times> (BlockRef list \<Rightarrow> Status + (Status + Action option) list)"

text \<open>The compressor as a server, its chain being that of the tables.\<close>

definition compressor_server :: "ChainTables \<Rightarrow> server" where
  "compressor_server t =
     (\<lambda>cursor items. page_blocks_with_context cursor items t,
      \<lambda>ps. map_sum id (\<lambda>(as, _, err). map (Inr \<circ> Some) as @ (if err then [Inl Internal] else [])) (stream_updates_with_context ps t))"

section \<open>Finding a common point\<close>

datatype IntersectConfig = Tip | Origin | ConfigPoint u64 string

text \<open>A page is asked for to find out whether the server has a point.\<close>

definition has_point :: "server \<Rightarrow> Point \<Rightarrow> SourceError + bool" where
  "has_point S point =
     (case fst S (Some (point_to_block_ref point)) 1 of
        Inr _ \<Rightarrow> Inr True | Inl NotFound \<Rightarrow> Inr False | Inl e \<Rightarrow> Inl (SourceStatus e))"

fun first_known :: "server \<Rightarrow> Point list \<Rightarrow> SourceError + Point" where
  "first_known S [] = Inl NoIntersectInBuffer"
| "first_known S (point # points) = and_then (has_point S point) (\<lambda>found. if found then Inr point else first_known S points)"

definition try_intersect_with_rollback_buf :: "server \<Rightarrow> Point list option \<Rightarrow> SourceError + Point option" where
  "try_intersect_with_rollback_buf S buf =
     (case buf of None \<Rightarrow> Inr None | Some points \<Rightarrow> and_then (first_known S (rev points)) (\<lambda>point. Inr (Some point)))"

definition must_have :: "server \<Rightarrow> Point \<Rightarrow> SourceError + Point option" where
  "must_have S point = and_then (has_point S point) (\<lambda>found. if found then Inr (Some point) else Inl IntersectNotFound)"

text \<open>The hash of a configured point is text; reading it is a function of the Bitcoin library.\<close>

definition try_intersect_with_last_point_or_config ::
  "(string \<Rightarrow> bytes option) \<Rightarrow> server \<Rightarrow> IntersectConfig \<Rightarrow> Point option \<Rightarrow> SourceError + Point option" where
  "try_intersect_with_last_point_or_config block_hash_of S intersect last_point =
     (case last_point of Some point \<Rightarrow> must_have S point
      | None \<Rightarrow>
        (case intersect of
           Origin \<Rightarrow> Inr None
         | Tip \<Rightarrow>
           (case fst S None 1 of Inl e \<Rightarrow> Inl (SourceStatus e)
            | Inr res \<Rightarrow> (case pg_chain_tip res of None \<Rightarrow> Inr None | Some tip \<Rightarrow> and_then (block_ref_to_point tip) (\<lambda>p. Inr (Some p))))
         | ConfigPoint height hash \<Rightarrow>
           (case block_hash_of hash of None \<Rightarrow> Inl SourcePanic
            | Some h \<Rightarrow> must_have S \<lparr>pt_height = height, pt_hash = h\<rparr>)))"

text \<open>
  What is sent first, and the worker after it. A point of the rollback buffer is sent as a rollback, in
  case it is behind the tip of the indexer.
\<close>

definition source_bootstrap ::
  "(string \<Rightarrow> bytes option) \<Rightarrow> server \<Rightarrow> IntersectConfig \<Rightarrow> Point list option \<Rightarrow> Point option \<Rightarrow> SourceWorker \<Rightarrow>
   SourceError + EnrichedBlockPayload list \<times> SourceWorker" where
  "source_bootstrap block_hash_of S intersect buf last_point w =
     and_then (try_intersect_with_rollback_buf S buf) (\<lambda>common.
     and_then (case common of
        Some point \<Rightarrow> Inr ([EnrichedBack point True], Some point)
      | None \<Rightarrow> and_then (try_intersect_with_last_point_or_config block_hash_of S intersect last_point) (\<lambda>i. Inr ([], i)))
     (\<lambda>(sent, i).
        case fst S None 1 of Inl _ \<Rightarrow> Inl SourcePanic
        | Inr page \<Rightarrow>
          Inr (sent, w\<lparr>sw_mode := Dumping (map_option point_to_block_ref i),
            sw_upstream_height := map_option br_height (pg_chain_tip page)\<rparr>)))"

section \<open>Scheduling\<close>

text \<open>Within the mutable zone it asks for the stream; not finding the point there is no error.\<close>

definition try_stream :: "server \<Rightarrow> SourceWorker \<Rightarrow> SourceError + SourceWorker" where
  "try_stream S w =
     (case (sw_upstream_height w, sw_mode w) of
        (Some upstream, Dumping (Some cursor)) \<Rightarrow>
          if br_height cursor + IMMUTABLE_AFTER_BLOCKS \<ge> upstream then
            (case snd S [cursor] of
               Inr stream \<Rightarrow> Inr (w\<lparr>sw_mode := Streaming, sw_stream := stream\<rparr>)
             | Inl NotFound \<Rightarrow> Inr w
             | Inl _ \<Rightarrow> Inl SourceRestart)
          else Inr w
      | _ \<Rightarrow> Inr w)"

text \<open>
  The actions to process, and whether they are mutable. With an empty stream the code waits for the
  next entry; the model schedules nothing.
\<close>

definition source_schedule :: "server \<Rightarrow> u32 option \<Rightarrow> SourceWorker \<Rightarrow> SourceError + (Action list \<times> bool) \<times> SourceWorker" where
  "source_schedule S max_items_per_page w =
     and_then (try_stream S w) (\<lambda>w.
       case sw_mode w of
         Init \<Rightarrow> Inl SourcePanic
       | Streaming \<Rightarrow> 
         (case sw_stream w of
            [] \<Rightarrow> Inr (([], True), w)
          | Inl _ # as \<Rightarrow> Inl SourceRestart
          | Inr None # as \<Rightarrow> Inr (([], True), w\<lparr>sw_stream := as\<rparr>)
          | Inr (Some a) # as \<Rightarrow> Inr (([a], True), w\<lparr>sw_stream := as\<rparr>))
       | Dumping cursor \<Rightarrow>
         (case fst S cursor (case max_items_per_page of None \<Rightarrow> 20 | Some n \<Rightarrow> n) of
            Inl _ \<Rightarrow> Inl SourceRestart
          | Inr result \<Rightarrow>
            Inr ((map Apply (pg_blocks result), False),
              w\<lparr>sw_mode := (if pg_blocks result = [] then sw_mode w else Dumping (bw_ref (last (pg_blocks result)))),
                sw_upstream_height := map_option br_height (pg_chain_tip result)\<rparr>)))"

definition source_execute :: "BitcoinCrate \<Rightarrow> Action list \<times> bool \<Rightarrow> SourceError + EnrichedBlockPayload list" where
  "source_execute B u = and_then (try_map (process_action B (snd u)) (fst u)) (\<lambda>pss. Inr (concat pss))"

section \<open>Paging through a chain\<close>

text \<open>Tables of a chain that can be served: hashes of 32 bytes, and a resolver entry for every block, of the same hash.\<close>

definition served :: "ChainTables \<Rightarrow> bool" where
  "served t \<longleftrightarrow> tbl_ok (cd_blocks t) \<and> list_all (\<lambda>(_, x, _). length x = 32) (cd_blocks t) \<and>
     list_all2 (\<lambda>(h, x, _) (h', re). h' = h \<and> re_hash re = x) (cd_blocks t) (cd_resolvers t)"

definition chain_messages :: "ChainTables \<Rightarrow> BlockWithContext list" where
  "chain_messages t = map (\<lambda>((h, x, raw), (_, re)). block_message h x raw re) (zip (cd_blocks t) (cd_resolvers t))"

lemma try_map_Inr: "(\<And>x. x \<in> set xs \<Longrightarrow> f x = Inr (g x)) \<Longrightarrow> try_map f xs = Inr (map g xs)"
  by (induction xs) auto

lemma served_keys: "served t \<Longrightarrow> map fst (cd_resolvers t) = map fst (cd_blocks t)"
  unfolding served_def by (auto simp: list_all2_conv_all_nth intro!: nth_equalityI split: prod.splits) (metis fst_conv prod.collapse)+

lemma served_ok: "served t \<Longrightarrow> tbl_ok (cd_resolvers t)" "served t \<Longrightarrow> length (cd_resolvers t) = length (cd_blocks t)"
  using served_keys [of t] by (auto simp: tbl_ok_def served_def list_all2_lengthD)

lemma tbl_from_nth: "tbl_ok t \<Longrightarrow> i < length t \<Longrightarrow> tbl_from (fst (t ! i)) t = drop i t"
proof -
  assume ok: "tbl_ok t" and i: "i < length t"
  have "fst (t ! j) < fst (t ! i)" if "j < i" for j using ok i that unfolding tbl_ok_def sorted_wrt_iff_nth_less by auto
  then have "\<forall>e\<in>set (take i t). fst e < fst (t ! i)" using i by (auto simp: in_set_conv_nth) (metis fst_conv)
  then have "dropWhile (\<lambda>(j, _). j < fst (t ! i)) (take i t @ drop i t) = dropWhile (\<lambda>(j, _). j < fst (t ! i)) (drop i t)"
    by (intro dropWhile_append2) auto
  moreover have "drop i t = t ! i # drop (Suc i) t" using i by (simp add: Cons_nth_drop_Suc)
  then have "dropWhile (\<lambda>(j, _). j < fst (t ! i)) (drop i t) = drop i t" by (auto split: prod.splits)
  ultimately show ?thesis unfolding append_take_drop_id tbl_from_def by simp
qed

lemma tbl_from_0: "tbl_from (0 :: 'a::len word) t = t"
  by (cases t) (auto simp: tbl_from_def)

lemma page_messages_ok:
  "list_all2 (\<lambda>(h, x, _) (h', re). h' = h \<and> re_hash re = x) bs rs \<Longrightarrow>
   page_messages (zip bs rs) = Inr (map (\<lambda>((h, x, raw), (_, re)). block_message h x raw re) (zip bs rs))"
  by (induction rule: list_all2_induct) auto

text \<open>The cursor after the first k blocks, as the source keeps it.\<close>

definition cursor_at :: "ChainTables \<Rightarrow> nat \<Rightarrow> BlockRef option" where
  "cursor_at t k = (if k = 0 then None else Some (ref_of (cd_blocks t ! (k - 1))))"

lemma page_at:
  assumes "served t" "k \<le> length (cd_blocks t)" "items \<ge> 1"
  shows "\<exists>r. page_blocks_with_context (cursor_at t k) items t = Inr r \<and> pg_blocks r = take (unat items) (drop k (chain_messages t)) \<and>
    pg_chain_tip r = map_option ref_of (tbl_last (cd_blocks t))"
proof -
  let ?h = "case cursor_at t k of None \<Rightarrow> 0 | Some c \<Rightarrow> br_height c" and ?n = "unat items"
  let ?rs = "if cursor_at t k \<noteq> None then drop 1 (tbl_from ?h (cd_resolvers t)) else tbl_from ?h (cd_resolvers t)"
  note ok = served_ok [OF assms(1)]
  have bok: "tbl_ok (cd_blocks t)" using assms(1) by (simp add: served_def)
  have parts: "skip_intersect (cursor_at t k) (tbl_from ?h (cd_blocks t)) = Inr (drop k (cd_blocks t)) \<and> ?rs = drop k (cd_resolvers t)"
  proof (cases k)
    case 0
    then show ?thesis by (simp add: cursor_at_def skip_intersect_def tbl_from_0)
  next
    case (Suc j)
    then have j: "j < length (cd_blocks t)" "j < length (cd_resolvers t)" using assms(2) ok by auto
    have "fst (cd_resolvers t ! j) = fst (cd_blocks t ! j)" using arg_cong [OF served_keys [OF assms(1)], of "\<lambda>xs. xs ! j"] j by simp
    then have "tbl_from ?h (cd_blocks t) = drop j (cd_blocks t)" "tbl_from ?h (cd_resolvers t) = drop j (cd_resolvers t)"
      using Suc tbl_from_nth [OF bok j(1)] tbl_from_nth [OF ok(1) j(2)] by (simp_all add: cursor_at_def ref_of_def)
    moreover have "drop j (cd_blocks t) = cd_blocks t ! j # drop k (cd_blocks t)" using j Suc by (simp add: Cons_nth_drop_Suc)
    ultimately show ?thesis using Suc by (auto simp: cursor_at_def skip_intersect_def ref_of_def split: prod.splits)
  qed
  let ?bs = "take ?n (drop k (cd_blocks t))" and ?res = "take ?n (drop k (cd_resolvers t))"
  have all2: "list_all2 (\<lambda>(h, x, _) (h', re). h' = h \<and> re_hash re = x) ?bs ?res"
    using assms(1) by (simp add: served_def list_all2_takeI list_all2_dropI)
  have pb: "(if length (take (?n + 1) (drop k (cd_blocks t))) = ?n + 1 then take ?n (take (?n + 1) (drop k (cd_blocks t)))
      else take (?n + 1) (drop k (cd_blocks t))) = ?bs" by (auto simp: min_def)
  have "\<not> items < 1" using assms(3) by (simp only: not_less)
  then have "\<exists>c. page_blocks_with_context (cursor_at t k) items t =
      Inr \<lparr>pg_blocks = map (\<lambda>((h, x, raw), (_, re)). block_message h x raw re) (zip ?bs ?res), pg_next_cursor = c,
        pg_chain_tip = map_option ref_of (tbl_last (cd_blocks t))\<rparr>"
    using parts page_messages_ok [OF all2] list_all2_lengthD [OF all2]
    unfolding page_blocks_with_context_def Let_def by (simp only: if_False and_then.simps pb) simp
  then show ?thesis by (auto simp: chain_messages_def take_zip drop_zip take_map drop_map)
qed

text \<open>Some rounds of the source; the actions it schedules in all.\<close>

fun source_run :: "server \<Rightarrow> u32 option \<Rightarrow> nat \<Rightarrow> SourceWorker \<Rightarrow> SourceError + Action list \<times> SourceWorker" where
  "source_run S items 0 w = Inr ([], w)"
| "source_run S items (Suc n) w =
     and_then (source_schedule S items w) (\<lambda>((as, _), w).
     and_then (source_run S items n w) (\<lambda>(bs, w). Inr (as @ bs, w)))"

lemma last_message:
  assumes "served t" "k < m" "m \<le> length (cd_blocks t)"
  shows "bw_ref (last (take (m - k) (drop k (chain_messages t)))) = cursor_at t m"
proof -
  have len: "length (chain_messages t) = length (cd_blocks t)" using served_ok(2) [OF assms(1)] by (simp add: chain_messages_def)
  have "last (take (m - k) (drop k (chain_messages t))) = chain_messages t ! (m - 1)"
    using assms(2,3) len by (cases "m = length (cd_blocks t)") (simp_all add: last_conv_nth min_def)
  then show ?thesis using assms(2,3) len served_ok(2) [OF assms(1)]
    by (auto simp: chain_messages_def cursor_at_def block_message_def ref_of_def split: prod.splits)
qed

text \<open>The height of the tip, as the source learns it with every page.\<close>

definition tip_height :: "ChainTables \<Rightarrow> u64 option" where
  "tip_height t = map_option (br_height \<circ> ref_of) (tbl_last (cd_blocks t))"

text \<open>The worker between two pages, after the first k blocks.\<close>

definition dumping :: "ChainTables \<Rightarrow> nat \<Rightarrow> SourceWorker" where
  "dumping t k = \<lparr>sw_mode = Dumping (cursor_at t k), sw_upstream_height = tip_height t, sw_stream = []\<rparr>"

lemma cursor_hash:
  assumes "served t" "k \<le> length (cd_blocks t)" "cursor_at t k = Some c"
  shows "length (br_hash c) = 32"
proof -
  have "k - 1 < length (cd_blocks t)" "c = ref_of (cd_blocks t ! (k - 1))" using assms by (auto simp: cursor_at_def split: if_splits)
  then show ?thesis using assms(1) by (auto simp: served_def list_all_length ref_of_def split: prod.splits) (metis prod.collapse)
qed

text \<open>With the cursor in the log the source switches to the stream, otherwise it goes on with pages.\<close>

lemma try_stream_cases:
  assumes "served t" "k \<le> length (cd_blocks t)"
  obtains (stay) "try_stream (compressor_server t) (dumping t k) = Inr (dumping t k)"
  | (switch) c n as l err where "cursor_at t k = Some c" "find_wal_seq (cd_mutable t) (br_height c) (br_hash c) = Some n"
      "stream_mutable (cd_mutable t) n = (as, l, err)"
      "try_stream (compressor_server t) (dumping t k) = Inr \<lparr>sw_mode = Streaming, sw_upstream_height = tip_height t,
         sw_stream = map (Inr \<circ> Some \<circ> log_to_response_with_ctx) as @ (if err then [Inl Internal] else [])\<rparr>"
proof (cases "cursor_at t k")
  case None
  then show thesis using stay by (simp add: try_stream_def dumping_def split: option.splits)
next
  case (Some c)
  note len = cursor_hash [OF assms Some]
  show thesis
  proof (cases "find_wal_seq (cd_mutable t) (br_height c) (br_hash c)")
    case None
    then show thesis using stay Some len by (simp add: try_stream_def dumping_def compressor_server_def split: option.splits)
  next
    case n: (Some n)
    obtain as l err where out: "stream_mutable (cd_mutable t) n = (as, l, err)" by (metis prod_cases3)
    show thesis
    proof (cases "\<exists>u. tip_height t = Some u \<and> br_height c + IMMUTABLE_AFTER_BLOCKS \<ge> u")
      case True
      then show thesis using switch [OF Some n out] Some n len out
        by (auto simp: try_stream_def dumping_def compressor_server_def comp_assoc)
    next
      case False
      then show thesis using stay Some by (auto simp: try_stream_def dumping_def split: option.splits)
    qed
  qed
qed

lemma schedule_page:
  assumes "served t" "k \<le> length (cd_blocks t)" "items \<ge> 1"
    and stay: "try_stream (compressor_server t) (dumping t k) = Inr (dumping t k)"
  shows "source_schedule (compressor_server t) (Some items) (dumping t k) =
    Inr ((map Apply (take (unat items) (drop k (chain_messages t))), False),
      dumping t (min (length (cd_blocks t)) (k + unat items)))"
proof -
  let ?m = "min (length (cd_blocks t)) (k + unat items)" and ?ms = "take (unat items) (drop k (chain_messages t))"
  have len: "length (chain_messages t) = length (cd_blocks t)" using served_ok(2) [OF assms(1)] by (simp add: chain_messages_def)
  obtain r where r: "page_blocks_with_context (cursor_at t k) items t = Inr r" "pg_blocks r = ?ms"
    "pg_chain_tip r = map_option ref_of (tbl_last (cd_blocks t))"
    using page_at [OF assms(1-3)] by blast
  have pos: "unat items \<noteq> 0" using assms(3) by (simp add: word_le_nat_alt)
  have "(if ?ms = [] then Dumping (cursor_at t k) else Dumping (bw_ref (last ?ms))) = Dumping (cursor_at t ?m)"
  proof (cases "k < length (cd_blocks t)")
    case True
    then have ms: "?ms = take (?m - k) (drop k (chain_messages t))" by (simp add: min_def len)
    moreover have "?ms \<noteq> []" using True pos len by simp
    ultimately show ?thesis using last_message [OF assms(1), of k ?m] True pos by simp
  next
    case False
    then have "k = length (cd_blocks t)" using assms(2) by simp
    then show ?thesis using len by simp
  qed
  then have md: "(if pg_blocks r = [] then Dumping (cursor_at t k) else Dumping (bw_ref (last (pg_blocks r)))) = Dumping (cursor_at t ?m)"
    by (simp only: r(2))
  have tip: "map_option br_height (pg_chain_tip r) = tip_height t" by (simp add: r(3) tip_height_def option.map_comp)
  have "source_schedule (compressor_server t) (Some items) (dumping t k) = Inr ((map Apply (pg_blocks r), False), dumping t ?m)"
    unfolding source_schedule_def stay using r(1) md tip by (auto simp: compressor_server_def dumping_def split: if_splits)
  then show ?thesis unfolding r(2) .
qed

lemma no_log_stays: "cd_mutable t = [] \<Longrightarrow> served t \<Longrightarrow> k \<le> length (cd_blocks t) \<Longrightarrow>
  try_stream (compressor_server t) (dumping t k) = Inr (dumping t k)"
  by (rule try_stream_cases [of t k]) (auto simp: find_wal_seq_def)

text \<open>While the log is empty the source pages: n rounds schedule the next n pages, block after block.\<close>

lemma paging_from:
  assumes "served t" "items \<ge> 1" "cd_mutable t = []" "k \<le> length (cd_blocks t)"
  shows "\<exists>w'. source_run (compressor_server t) (Some items) n (dumping t k) =
    Inr (map Apply (take (n * unat items) (drop k (chain_messages t))), w')"
  using assms(4)
proof (induction n arbitrary: k)
  case (Suc n)
  let ?m = "min (length (cd_blocks t)) (k + unat items)"
  have len: "length (chain_messages t) = length (cd_blocks t)" using served_ok(2) [OF assms(1)] by (simp add: chain_messages_def)
  note page = schedule_page [OF assms(1) Suc.prems assms(2) no_log_stays [OF assms(3,1) Suc.prems]]
  obtain w' where w': "source_run (compressor_server t) (Some items) n (dumping t ?m) =
    Inr (map Apply (take (n * unat items) (drop ?m (chain_messages t))), w')" using Suc.IH [of ?m] by auto
  have "drop ?m (chain_messages t) = drop (unat items) (drop k (chain_messages t))"
    using len by (cases "k + unat items \<le> length (cd_blocks t)") (simp_all add: min_def add.commute)
  then have "take (unat items) (drop k (chain_messages t)) @ take (n * unat items) (drop ?m (chain_messages t)) =
      take (Suc n * unat items) (drop k (chain_messages t))" by (simp add: take_add)
  then show ?case using page w' by (auto simp flip: map_append)
qed simp

section \<open>Resuming\<close>

abbreviation point_pair :: "Point \<Rightarrow> u64 \<times> bytes" where
  "point_pair p \<equiv> (pt_height p, pt_hash p)"

lemma has_point_iff:
  assumes "served t"
  shows "has_point (compressor_server t) p = Inr (point_pair p \<in> set (chain_points t))"
proof (cases "point_pair p \<in> set (chain_points t)")
  case True
  then obtain i where i: "i < length (cd_blocks t)" "point_pair p = (case cd_blocks t ! i of (h, x, _) \<Rightarrow> (h, x))"
    by (auto simp: chain_points_def in_set_conv_nth)
  then have "cursor_at t (Suc i) = Some (point_to_block_ref p)"
    by (auto simp: cursor_at_def ref_of_def point_to_block_ref_def split: prod.splits)
  moreover obtain r where "page_blocks_with_context (cursor_at t (Suc i)) 1 t = Inr r"
    using page_at [OF assms, of "Suc i" 1] i(1) by auto
  ultimately show ?thesis using True by (simp add: has_point_def compressor_server_def)
next
  case False
  have "skip_intersect (Some (point_to_block_ref p)) (tbl_from (pt_height p) (cd_blocks t)) = Inl NotFound"
  proof (cases "tbl_from (pt_height p) (cd_blocks t)")
    case (Cons e es)
    obtain h x raw where e: "e = (h, x, raw)" by (cases e)
    have "e \<in> set (cd_blocks t)" using Cons unfolding tbl_from_def by (metis list.set_intros(1) set_dropWhileD)
    then have "(h, x) \<in> set (chain_points t)" unfolding e chain_points_def by force
    then have "(h, x) \<noteq> point_pair p" using False by metis
    then show ?thesis unfolding Cons e by (auto simp: skip_intersect_def point_to_block_ref_def)
  qed (simp add: skip_intersect_def)
  then show ?thesis using False by (simp add: has_point_def compressor_server_def page_blocks_with_context_def point_to_block_ref_def)
qed

lemma first_known_newest:
  assumes "served t" "point_pair p \<in> set (chain_points t)" "\<forall>q\<in>set newer. point_pair q \<notin> set (chain_points t)"
  shows "first_known (compressor_server t) (newer @ p # older) = Inr p"
  using assms(3) by (induction newer) (simp_all add: has_point_iff assms)

lemma cursor_at_point:
  "chain_points t = xs @ point_pair p # ys \<Longrightarrow> cursor_at t (Suc (length xs)) = Some (point_to_block_ref p)"
proof -
  assume c: "chain_points t = xs @ point_pair p # ys"
  then have "length xs < length (cd_blocks t)" by (metis (no_types, lifting) chain_points_def length_append length_Cons length_map less_add_Suc1 add_Suc_right)
  moreover have "chain_points t ! length xs = point_pair p" using c by simp
  ultimately show ?thesis by (auto simp: chain_points_def cursor_at_def ref_of_def point_to_block_ref_def split: prod.splits)
qed

text \<open>
  The start: the newest point of the persistent rollback buffer that the compressor has is sent as a
  rollback, and the pages begin after it.
\<close>

lemma bootstrap_resumes:
  assumes "served t" and chain: "chain_points t = xs @ point_pair p # ys"
    and newer: "\<forall>q\<in>set newer. point_pair q \<notin> set (chain_points t)"
  shows "source_bootstrap block_hash_of (compressor_server t) intersect (Some (older @ p # newer)) last_point source_new =
    Inr ([EnrichedBack p True], dumping t (Suc (length xs)))"
proof -
  let ?S = "compressor_server t"
  have known: "first_known ?S (rev (older @ p # newer)) = Inr p"
    using first_known_newest [OF assms(1), of p "rev newer" "rev older"] chain newer by simp
  obtain page where page: "fst ?S None 1 = Inr page" "pg_chain_tip page = map_option ref_of (tbl_last (cd_blocks t))"
    using page_at [OF assms(1), of 0 1] by (auto simp: compressor_server_def cursor_at_def)
  then have "map_option br_height (pg_chain_tip page) = tip_height t" by (simp add: tip_height_def option.map_comp)
  then show ?thesis using known page cursor_at_point [OF chain]
    by (simp add: source_bootstrap_def try_intersect_with_rollback_buf_def source_new_def dumping_def)
qed

end
