(* ===== verification/Source_Context.thy ===== *)
theory Source_Context
  imports Source_Compressor
begin

text \<open>
  From the compressor to the reducers: what the context of a block says at the end of the source is
  what the compressor resolved when it applied the block, the payloads of a stream lead an
  indexer to the tip of the compressor although it skips the entries that undo blocks, and a source
  that resumes from the rollback buffer catches up, over pages and over the switch to the stream.
\<close>

section \<open>Reading cannot fail on sound data\<close>

lemma try_fold_Inr: "(\<And>x s. x \<in> set xs \<Longrightarrow> f x s = Inr (g x s)) \<Longrightarrow> try_fold f xs s = Inr (fold g xs s)"
  by (induction xs arbitrary: s) auto

lemma try_fold_append: "try_fold f (xs @ ys) s = and_then (try_fold f xs s) (try_fold f ys)"
proof (induction xs arbitrary: s)
  case (Cons x xs)
  then show ?case by (cases "f x s") auto
qed simp

lemma read_u128_bytes [simp]: "read_u128 (to_be_bytes w) = Inr w"
  by (simp add: read_u128_def)

lemma read_id_message [simp]: "length (ii_txid i) = 32 \<Longrightarrow> read_id (id_message i) = Inr i"
  by (simp add: read_id_def id_message_def)

lemma read_ref_Some [simp]: "length (fst r) = 32 \<Longrightarrow> read_ref (Some r) = Inr r"
  by (simp add: read_ref_def)

text \<open>Sizes of what a Bitcoin library hands out: hashes of 32 bytes, script hashes of 20.\<close>

fun message_sized :: "BRC20Message \<Rightarrow> bool" where
  "message_sized (Deploy _) = True"
| "message_sized (Mint _ _ sh) = (length sh = 20)"
| "message_sized (Transfer _ _ p sh) = (length (op_txid p) = 32 \<and> length sh = 20)"
| "message_sized (TransferInit _ _ sh) = (length sh = 20)"

lemma read_kind_message [simp]: "message_sized m \<Longrightarrow> read_kind (brc20_kind m) = Inr m"
  by (cases m) (auto simp: read_script_hash_def txo_ref_def)

definition body_sized :: "BitcoinCrate \<Rightarrow> TxoRef \<times> TxoBody \<Rightarrow> bool" where
  "body_sized B e \<longleftrightarrow> length (fst (fst e)) = 32 \<and> bc_decode_txout B (tb_raw (snd e)) \<noteq> None \<and>
     list_all (\<lambda>(_, i). length (ii_txid i) = 32) (tb_inscriptions (snd e))"

definition log_sized :: "brc20_log \<Rightarrow> NewInscriptionInfo list \<Rightarrow> bool" where
  "log_sized ms ns \<longleftrightarrow> list_all (\<lambda>(i, m). length (ii_txid i) = 32 \<and> message_sized m) ms \<and>
     list_all (\<lambda>n. length (ni_tx_hash n) = 32 \<and> length (ii_txid (ni_id n)) = 32) ns"

section \<open>Collecting\<close>

lemma push_at_new: "k \<notin> fst ` set acc \<Longrightarrow> push_at k v acc = acc @ [(k, [v])]"
  by (induction acc) auto

lemma push_at_last: "k \<notin> fst ` set acc \<Longrightarrow> push_at k v (acc @ [(k, vs)]) = acc @ [(k, vs @ [v])]"
  by (induction acc) auto

lemma push_all_last: "k \<notin> fst ` set acc \<Longrightarrow> fold (push_at k) vs (acc @ [(k, us)]) = acc @ [(k, us @ vs)]"
  by (induction vs arbitrary: us) (auto simp: push_at_last)

lemma push_all_new: "k \<notin> fst ` set acc \<Longrightarrow> fold (push_at k) vs acc = acc @ (if vs = [] then [] else [(k, vs)])"
  by (cases vs) (auto simp: push_at_new push_all_last)

lemma collect_distinct:
  assumes "distinct (map fst es)"
  shows "collect es = filter (\<lambda>e. snd e \<noteq> []) es"
proof -
  have "fold (\<lambda>(k, vs). fold (push_at k) vs) es acc = acc @ filter (\<lambda>e. snd e \<noteq> []) es"
    if "distinct (map fst acc @ map fst es)" for acc
    using that assms
  proof (induction es arbitrary: acc)
    case (Cons e es)
    obtain k vs where e: "e = (k, vs)" by (cases e)
    have k: "k \<notin> fst ` set acc" using Cons.prems e by auto
    have "distinct (map fst (acc @ (if vs = [] then [] else [(k, vs)])) @ map fst es)" using Cons.prems(1) e by auto
    then show ?case using Cons.IH [of "acc @ (if vs = [] then [] else [(k, vs)])"] Cons.prems(2) e by (auto simp: push_all_new [OF k])
  qed simp
  from this [of "[]"] show ?thesis using assms by (simp add: collect_def)
qed

section \<open>Each part of the context\<close>

definition utxo_of :: "BitcoinCrate \<Rightarrow> TxoBody \<Rightarrow> ContextUtxo" where
  "utxo_of B b = \<lparr>cu_height = tb_height b, cu_txo = the (bc_decode_txout B (tb_raw b)), cu_ords = tb_ord_ranges b\<rparr>"

definition rune_of :: "StorageDuneId \<times> u128 \<Rightarrow> RuneId \<times> u128" where
  "rune_of d = ((sdi_block (fst d), ucast (sdi_tx (fst d))), snd d)"

definition placed :: "u64 \<times> InscriptionId \<Rightarrow> u32 \<times> InscriptionId" where
  "placed x = (ucast (fst x), snd x)"

definition origin_of :: "NewInscriptionInfo \<Rightarrow> bytes \<times> (InscriptionId \<times> u64 \<times> bytes \<times> bytes)" where
  "origin_of n = (ni_tx_hash n, (ni_id n, ni_number n, ni_body_type n, ni_body n))"

abbreviation non_empty :: "('k \<times> 'v list) list \<Rightarrow> ('k \<times> 'v list) list" where
  "non_empty es \<equiv> filter (\<lambda>e. snd e \<noteq> []) es"

lemma read_inputs:
  "list_all (body_sized B) es \<Longrightarrow>
   try_fold (read_txo B) (map (\<lambda>(r, b). \<lparr>rt_ref = Some r, rt_height = tb_height b, rt_raw = tb_raw b, rt_ord_ranges = tb_ord_ranges b\<rparr>) es) ctx =
   Inr (ctx\<lparr>bx_inputs := bx_inputs ctx ++ map_of (rev (map (\<lambda>(r, b). (r, utxo_of B b)) es))\<rparr>)"
  by (induction es arbitrary: ctx) (auto simp: read_txo_def insert_txo_def body_sized_def utxo_of_def)

lemma read_rune_message [simp]: "read_rune (rune_message d) = Inr (rune_of d)"
  by (simp add: read_rune_def rune_message_def rune_of_def)

lemma read_runes_all: "try_map read_rune (map rune_message ds) = Inr (map rune_of ds)"
  by (induction ds) auto

lemma read_rune_part:
  "list_all (\<lambda>(r, _). length (fst r) = 32) es \<Longrightarrow>
   try_fold read_runes (map (\<lambda>(r, ds). \<lparr>rr_ref = Some r, rr_runes = map rune_message ds\<rparr>) es) ctx =
   Inr (ctx\<lparr>bx_runes := bx_runes ctx ++ map_of (rev (map (\<lambda>(r, ds). (r, map rune_of ds)) (non_empty es)))\<rparr>)"
  by (induction es arbitrary: ctx) (auto simp: read_runes_def read_runes_all insert_runes_def)

lemma read_placed:
  "list_all (\<lambda>(_, i). length (ii_txid i) = 32) xs \<Longrightarrow>
   try_map (\<lambda>x. and_then (read_id (ia_id x)) (\<lambda>i. Inr (ia_offset x, i))) (map at_offset xs) = Inr (map placed xs)"
  by (induction xs) (auto simp: at_offset_def placed_def)

lemma inscribed_distinct:
  "distinct (map fst es) \<Longrightarrow> inscribed es = map (\<lambda>(r, xs). \<lparr>ir_ref = Some r, ir_inscriptions = map at_offset xs\<rparr>) (non_empty es)"
proof -
  assume "distinct (map fst es)"
  then have "distinct (map fst (map (\<lambda>(r, xs). (r, map at_offset xs)) es))" by (simp add: case_prod_unfold comp_def)
  then show ?thesis by (auto simp: inscribed_def collect_distinct filter_map comp_def case_prod_unfold)
qed

lemma read_inscribed_part:
  assumes "distinct (map fst es)" "list_all (\<lambda>(r, xs). length (fst r) = 32 \<and> list_all (\<lambda>(_, i). length (ii_txid i) = 32) xs) es"
  shows "try_fold read_inscribed (inscribed es) ctx =
    Inr (ctx\<lparr>bx_inscriptions := bx_inscriptions ctx ++ map_of (rev (map (\<lambda>(r, xs). (r, map placed xs)) (non_empty es)))\<rparr>)"
  unfolding inscribed_distinct [OF assms(1)] using assms(2)
  by (induction es arbitrary: ctx) (auto simp: read_inscribed_def read_placed insert_inscriptions_def)

definition messages_of :: "brc20_log \<Rightarrow> InscriptionId \<Rightarrow> BRC20Message list" where
  "messages_of ms i = map snd (filter (\<lambda>e. fst e = i) ms)"

lemma read_brc20_part:
  "list_all (\<lambda>(i, m). length (ii_txid i) = 32 \<and> message_sized m) ms \<Longrightarrow>
   try_fold read_brc20 (map (\<lambda>(i, m). \<lparr>bz_id = id_message i, bz_action = Some (Some (brc20_kind m))\<rparr>) ms) ctx =
   Inr (ctx\<lparr>bx_brc20 := (\<lambda>i. if messages_of ms i = [] then bx_brc20 ctx i
     else Some ((case bx_brc20 ctx i of None \<Rightarrow> [] | Some old \<Rightarrow> old) @ messages_of ms i))\<rparr>)"
proof (induction ms arbitrary: ctx)
  case (Cons e ms)
  then show ?case by (cases e) (auto simp: read_brc20_def insert_brc20_def messages_of_def fun_eq_iff split: option.splits)
qed (simp add: messages_of_def)

lemma read_brc20_fresh:
  "list_all (\<lambda>(i, m). length (ii_txid i) = 32 \<and> message_sized m) ms \<Longrightarrow> bx_brc20 ctx = Map.empty \<Longrightarrow>
   try_fold read_brc20 (map (\<lambda>(i, m). \<lparr>bz_id = id_message i, bz_action = Some (Some (brc20_kind m))\<rparr>) ms) ctx =
   Inr (ctx\<lparr>bx_brc20 := (\<lambda>i. if messages_of ms i = [] then None else Some (messages_of ms i))\<rparr>)"
  by (simp add: read_brc20_part cong: if_cong)

lemma read_etches: "try_map (\<lambda>(tx, name). and_then (read_u128 name) (\<lambda>n. Inr (tx, n))) (map (\<lambda>(tx, name). (tx, to_be_bytes name)) es) = Inr es"
  by (induction es) auto

lemma read_origin_part:
  "list_all (\<lambda>n. length (ni_tx_hash n) = 32 \<and> length (ii_txid (ni_id n)) = 32) ns \<Longrightarrow>
   try_fold read_origin (map (\<lambda>n. \<lparr>io_tx_hash = ni_tx_hash n, io_id = id_message (ni_id n), io_num = ni_number n,
        io_content = ni_body n, io_type = ni_body_type n\<rparr>) ns) ctx =
   Inr (ctx\<lparr>bx_new := bx_new ctx ++ map_of (rev (map origin_of ns))\<rparr>)"
  by (induction ns arbitrary: ctx) (auto simp: read_origin_def insert_new_inscription_def origin_of_def)

section \<open>Looking up what was resolved\<close>

abbreviation keyed :: "('k \<rightharpoonup> 'v) \<Rightarrow> 'k list \<Rightarrow> ('k \<times> 'v) list" where
  "keyed F rs \<equiv> List.map_filter (\<lambda>r. map_option (Pair r) (F r)) rs"

lemma map_of_keyed: "map_of (rev (keyed F rs)) r = (if r \<in> set rs then F r else None)"
proof (induction rs rule: rev_induct)
  case (snoc x rs)
  have "keyed F (rs @ [x]) = keyed F rs @ (case F x of None \<Rightarrow> [] | Some b \<Rightarrow> [(x, b)])"
    by (auto simp: List.map_filter_def split: option.splits)
  then show ?case using snoc by (auto split: option.splits)
qed (simp add: List.map_filter_def)

text \<open>The part of a resolved output that a list function reads, none if the list is empty.\<close>

definition listed :: "(TxoBody \<Rightarrow> 'x list) \<Rightarrow> ('x \<Rightarrow> 'y) \<Rightarrow> TxoBody \<Rightarrow> 'y list option" where
  "listed f g b = (if f b = [] then None else Some (map g (f b)))"

lemma non_empty_resolved:
  "map (\<lambda>(r, xs). (r, map g xs)) (non_empty (map (\<lambda>(r, b). (r, f b)) (resolved R rs))) = keyed (\<lambda>r. Option.bind (R r) (listed f g)) rs"
proof (induction rs)
  case (Cons r rs)
  then show ?case by (cases "R r") (auto simp: resolved_def List.map_filter_def listed_def)
qed (simp add: resolved_def List.map_filter_def)

lemma utxos_resolved: "map (\<lambda>(r, b). (r, h b)) (resolved R rs) = keyed (\<lambda>r. map_option h (R r)) rs"
proof (induction rs)
  case (Cons r rs)
  then show ?case by (cases "R r") (auto simp: resolved_def List.map_filter_def)
qed (simp add: resolved_def List.map_filter_def)

lemma resolved_keys: "distinct rs \<Longrightarrow> distinct (map fst (resolved R rs))"
proof (induction rs)
  case (Cons r rs)
  moreover have "fst ` set (resolved R rs) \<subseteq> set rs" by (auto simp: resolved_def List.map_filter_def)
  ultimately show ?case by (cases "R r") (auto simp: resolved_def List.map_filter_def)
qed (simp add: resolved_def List.map_filter_def)

lemma add_bind: "(\<lambda>r. if r \<in> A then F r else None) ++ (\<lambda>r. if r \<in> B then F r else None) = (\<lambda>r. if r \<in> A \<union> B then F r else None)"
  by (auto simp: map_add_def fun_eq_iff split: option.splits)

lemma sized_refs: "list_all (body_sized B) es \<Longrightarrow> list_all (\<lambda>(r, _). length (fst r) = 32) (map (\<lambda>(r, b). (r, f b)) es)"
  by (induction es) (auto simp: body_sized_def)

lemma sized_placed:
  "list_all (body_sized B) es \<Longrightarrow>
   list_all (\<lambda>(r, xs). length (fst r) = 32 \<and> list_all (\<lambda>(_, i). length (ii_txid i) = 32) xs) (map (\<lambda>(r, b). (r, tb_inscriptions b)) es)"
  by (induction es) (auto simp: body_sized_def)

lemma filter_listed: "map (\<lambda>(r, b). (r, f b)) (filter (\<lambda>(_, b). f b \<noteq> []) es) = non_empty (map (\<lambda>(r, b). (r, f b)) es)"
  by (induction es) auto

lemma non_empty_idem: "non_empty (non_empty es) = non_empty es"
  by simp

lemma non_empty_keys: "distinct (map fst es) \<Longrightarrow> distinct (map fst (non_empty es))"
  by (simp add: distinct_map_filter)

lemma list_all_filter: "list_all P es \<Longrightarrow> list_all P (filter Q es)"
  by (auto simp: list_all_iff)

text \<open>The runes and the inscriptions a block comes with, as the source reads them.\<close>

lemma runes_read:
  assumes "list_all (body_sized B) (resolved R ins)" "list_all (body_sized B) (resolved R outs)"
    and "re_resolver re = resolved R ins" "re_dunes re = non_empty (map (\<lambda>(r, b). (r, tb_dunes b)) (resolved R outs))"
    and "bx_runes ctx = Map.empty"
  shows "read_runes_info (runes_info re) ctx = Inr (ctx\<lparr>bx_runes := (\<lambda>r. if r \<in> set ins \<union> set outs then Option.bind (R r) (listed tb_dunes rune_of) else None),
    bx_etches := re_etches re, bx_mints := map (\<lambda>(tx, edict). (tx, ucast edict)) (re_mints re)\<rparr>)"
proof -
  let ?is = "map (\<lambda>(r, b). (r, tb_dunes b)) (resolved R ins)" and ?os = "map (\<lambda>(r, b). (r, tb_dunes b)) (resolved R outs)"
  have msgs: "ri_txo_resolver (runes_info re) = map (\<lambda>(r, ds). \<lparr>rr_ref = Some r, rr_runes = map rune_message ds\<rparr>) (?is @ non_empty ?os)"
    using assms(3,4) by (simp add: runes_info_def case_prod_unfold)
  have sized: "list_all (\<lambda>(r, _). length (fst r) = 32) (?is @ non_empty ?os)"
    unfolding list_all_append by (intro conjI list_all_filter sized_refs [OF assms(1)] sized_refs [OF assms(2)])
  have "map_of (rev (map (\<lambda>(r, ds). (r, map rune_of ds)) (non_empty (?is @ non_empty ?os)))) =
      (\<lambda>r. if r \<in> set ins then Option.bind (R r) (listed tb_dunes rune_of) else None) ++
      (\<lambda>r. if r \<in> set outs then Option.bind (R r) (listed tb_dunes rune_of) else None)"
    unfolding filter_append non_empty_idem map_append rev_append map_of_append non_empty_resolved map_of_keyed ..
  moreover have "try_map (\<lambda>(tx, name). and_then (read_u128 name) (\<lambda>n. Inr (tx, n))) (ri_etchs (runes_info re)) = Inr (re_etches re)"
    by (simp add: runes_info_def read_etches)
  ultimately show ?thesis using read_rune_part [OF sized, of ctx] assms(5)
    by (simp add: read_runes_info_def msgs add_bind) (simp add: runes_info_def)
qed

lemma inscriptions_read:
  assumes "list_all (body_sized B) (resolved R ins)" "list_all (body_sized B) (resolved R outs)" "distinct ins" "distinct outs"
    and re: "re_resolver re = resolved R ins" "re_inscriptions re = non_empty (map (\<lambda>(r, b). (r, tb_inscriptions b)) (resolved R outs))"
    and log: "log_sized (re_brc20 re) (re_new re)"
    and ctx: "bx_inscriptions ctx = Map.empty" "bx_brc20 ctx = Map.empty" "bx_new ctx = Map.empty"
  shows "read_inscriptions_info (inscriptions_info re) ctx = Inr (ctx\<lparr>
    bx_inscriptions := (\<lambda>r. if r \<in> set ins \<union> set outs then Option.bind (R r) (listed tb_inscriptions placed) else None),
    bx_reinscriptions := re_reinscriptions re,
    bx_brc20 := (\<lambda>i. if messages_of (re_brc20 re) i = [] then None else Some (messages_of (re_brc20 re) i)),
    bx_new := map_of (rev (map origin_of (re_new re)))\<rparr>)"
proof -
  let ?is = "map (\<lambda>(r, b). (r, tb_inscriptions b)) (resolved R ins)" and ?os = "map (\<lambda>(r, b). (r, tb_inscriptions b)) (resolved R outs)"
  have keys: "map fst (map (\<lambda>(r, b). (r, f b)) es) = map fst es" for f :: "TxoBody \<Rightarrow> 'x" and es :: "(TxoRef \<times> TxoBody) list" by auto
  have d: "distinct (map fst ?is)" "distinct (map fst (non_empty ?os))"
    using resolved_keys [OF assms(3), of R] non_empty_keys [of ?os] resolved_keys [OF assms(4), of R] unfolding keys by simp_all
  note part1 = read_inscribed_part [OF d(1) sized_placed [OF assms(1)], of ctx, unfolded ctx(1) map_add_empty empty_map_add]
  note part2 = read_inscribed_part [OF d(2) list_all_filter [OF sized_placed [OF assms(2)]], unfolded non_empty_idem]
  have "map_of (rev (map (\<lambda>(r, xs). (r, map placed xs)) (non_empty ?is))) ++ map_of (rev (map (\<lambda>(r, xs). (r, map placed xs)) (non_empty ?os))) =
      (\<lambda>r. if r \<in> set ins \<union> set outs then Option.bind (R r) (listed tb_inscriptions placed) else None)"
    unfolding non_empty_resolved map_of_keyed add_bind ..
  then have "try_fold read_inscribed (in_txo_resolver (inscriptions_info re)) ctx = Inr (ctx\<lparr>
      bx_inscriptions := (\<lambda>r. if r \<in> set ins \<union> set outs then Option.bind (R r) (listed tb_inscriptions placed) else None)\<rparr>)"
    unfolding inscriptions_info_def InscriptionsInfo.simps re try_fold_append part1 and_then.simps part2 by simp
  moreover have "list_all (\<lambda>(i, m). length (ii_txid i) = 32 \<and> message_sized m) (re_brc20 re)"
    "list_all (\<lambda>n. length (ni_tx_hash n) = 32 \<and> length (ii_txid (ni_id n)) = 32) (re_new re)"
    using log unfolding log_sized_def by blast+
  ultimately show ?thesis using ctx(2,3) read_brc20_fresh [of "re_brc20 re"] read_origin_part [of "re_new re"]
    by (simp add: read_inscriptions_info_def) (simp add: inscriptions_info_def)
qed

text \<open>
  C9. The context of a block survives the way to the reducers. For a block the compressor has applied, let R
  be the outputs it resolved (those of the inputs and those of the block). From the message the server
  makes of the stored resolver entry the source reads a context in which every input has exactly its
  output with height and ordinals, and every input and output has exactly its dunes and inscriptions
  (none if it has none), an inscription the BRC-20 messages logged for it in order, and mints, etches
  and new inscriptions are those of the block. Offsets of inscriptions and transaction indexes of dunes
  arrive modulo 2^32.
\<close>

theorem context_of_applied_block:
  assumes "list_all (body_sized (cr_bitcoin C)) (resolved R (block_input_refs (bl_txdata block)))"
    and "list_all (body_sized (cr_bitcoin C)) (resolved R (output_refs (cr_bitcoin C) (bl_txdata block)))"
    and "distinct (output_refs (cr_bitcoin C) (bl_txdata block))" "log_sized (pr_brc20 p) (st_new (pr_state p))" "R = pr_resolver p"
  shows "\<exists>ctx. read_block (cr_bitcoin C) (block_message height hash raw (resolver_entry C block counters p)) = Inr ctx \<and>
    bx_inputs ctx = (\<lambda>r. if r \<in> set (block_input_refs (bl_txdata block)) then map_option (utxo_of (cr_bitcoin C)) (R r) else None) \<and>
    bx_runes ctx = (\<lambda>r. if r \<in> set (block_input_refs (bl_txdata block)) \<union> set (output_refs (cr_bitcoin C) (bl_txdata block))
      then Option.bind (R r) (listed tb_dunes rune_of) else None) \<and>
    bx_inscriptions ctx = (\<lambda>r. if r \<in> set (block_input_refs (bl_txdata block)) \<union> set (output_refs (cr_bitcoin C) (bl_txdata block))
      then Option.bind (R r) (listed tb_inscriptions placed) else None) \<and>
    bx_brc20 ctx = (\<lambda>i. if messages_of (pr_brc20 p) i = [] then None else Some (messages_of (pr_brc20 p) i)) \<and>
    bx_new ctx = map_of (rev (map origin_of (st_new (pr_state p)))) \<and>
    bx_etches ctx = pr_etches p \<and> bx_mints ctx = map (\<lambda>(tx, edict). (tx, ucast edict)) (pr_mints p) \<and> bx_reinscriptions ctx = []"
proof -
  let ?B = "cr_bitcoin C" and ?re = "resolver_entry C block counters p"
  let ?ins = "block_input_refs (bl_txdata block)" and ?outs = "output_refs (cr_bitcoin C) (bl_txdata block)"
  have re: "re_resolver ?re = resolved R ?ins" "re_dunes ?re = non_empty (map (\<lambda>(r, b). (r, tb_dunes b)) (resolved R ?outs))"
    "re_inscriptions ?re = non_empty (map (\<lambda>(r, b). (r, tb_inscriptions b)) (resolved R ?outs))"
    "log_sized (re_brc20 ?re) (re_new ?re)"
    using assms(4,5) by (simp_all add: resolver_entry_def Let_def filter_listed)
  have parts: "re_brc20 ?re = pr_brc20 p" "re_new ?re = st_new (pr_state p)" "re_etches ?re = pr_etches p" "re_mints ?re = pr_mints p"
    "re_reinscriptions ?re = []" by (simp_all add: resolver_entry_def Let_def)
  have d: "distinct ?ins" by (simp add: block_input_refs_def)
  have "map_of (rev (map (\<lambda>(r, b). (r, utxo_of ?B b)) (resolved R ?ins))) = (\<lambda>r. if r \<in> set ?ins then map_option (utxo_of ?B) (R r) else None)"
    unfolding utxos_resolved map_of_keyed ..
  note i = read_inputs [OF assms(1), of context_new, unfolded this]
  show ?thesis
    using i runes_read [OF assms(1,2) re(1,2)] inscriptions_read [OF assms(1,2) d assms(3) re(1,3,4), unfolded parts]
    by (simp add: read_block_def block_message_def re(1) parts context_new_def)
qed

definition seen_id :: InscriptionId where
  "seen_id = \<lparr>ii_txid = replicate 32 9, ii_index = 0\<rparr>"

definition seen_crates :: Crates where
  "seen_crates = demo_crates\<lparr>cr_bitcoin := demo_crate\<lparr>bc_txid := (\<lambda>tx. replicate 32 (if tx_input tx = [] then 1 else 2))\<rparr>\<rparr>"

definition seen_block :: Block where
  "seen_block = \<lparr>bl_prev = [3], bl_txdata =
     [\<lparr>tx_input = [], tx_output = [\<lparr>to_value = 10, to_script_pubkey = [1]\<rparr>]\<rparr>,
      \<lparr>tx_input = [\<lparr>ti_previous_output = \<lparr>op_txid = replicate 32 7, op_vout = 0\<rparr>, ti_script_sig = []\<rparr>],
       tx_output = [\<lparr>to_value = 10, to_script_pubkey = [2]\<rparr>]\<rparr>]\<rparr>"

text \<open>An output of more than 2^32 koinu with an inscription at its end.\<close>

definition seen_body :: TxoBody where
  "seen_body = \<lparr>tb_height = 2, tb_raw = [], tb_ord_ranges = [], tb_dunes = [(\<lparr>sdi_block = 5, sdi_tx = 1\<rparr>, 9)],
     tb_inscriptions = [(2 ^ 32, seen_id)], tb_unused_brc20_transfers = []\<rparr>"

definition seen_processing :: Processing where
  "seen_processing = \<lparr>pr_resolver = [(replicate 32 7, 0) \<mapsto> seen_body], pr_mem = None, pr_dunes = empty_db, pr_insc = demo_ledger,
     pr_state = \<lparr>st_counters = zero_counters, st_reward = 0, st_cb = [], st_new = []\<rparr>, pr_etches = [], pr_mints = [(1, 0)],
     pr_brc20 = [(seen_id, Deploy [1])]\<rparr>"

theorem context_of_applied_block_witness:
  "\<exists>ctx. read_block (cr_bitcoin seen_crates) (block_message 4 [4] [44] (resolver_entry seen_crates seen_block zero_counters seen_processing)) = Inr ctx \<and>
     bx_runes ctx (replicate 32 7, 0) = Some [((5, 1), 9)] \<and> bx_inscriptions ctx (replicate 32 7, 0) = Some [(0, seen_id)] \<and>
     bx_brc20 ctx seen_id = Some [Deploy [1]] \<and> bx_mints ctx = [(1, 0)]"
proof -
  let ?R = "pr_resolver seen_processing"
  have ins: "block_input_refs (bl_txdata seen_block) = [(replicate 32 7, 0)]"
    by (simp add: block_input_refs_def seen_block_def tx_refs_def txo_ref_def)
  have outs: "output_refs (cr_bitcoin seen_crates) (bl_txdata seen_block) = [(replicate 32 1, 0), (replicate 32 2, 0)]"
    by (simp add: output_refs_def seen_block_def seen_crates_def)
  have "resolved ?R [(replicate 32 7, 0)] = [((replicate 32 7, 0), seen_body)]" "resolved ?R [(replicate 32 1, 0), (replicate 32 2, 0)] = []"
    by (simp_all add: resolved_def List.map_filter_def seen_processing_def)
  moreover have "body_sized (cr_bitcoin seen_crates) ((replicate 32 7, 0), seen_body)" "log_sized (pr_brc20 seen_processing) (st_new (pr_state seen_processing))"
    by (simp_all add: body_sized_def seen_body_def seen_id_def seen_crates_def demo_crate_def log_sized_def seen_processing_def)
  moreover have "?R (replicate 32 7, 0) = Some seen_body" "messages_of (pr_brc20 seen_processing) seen_id = [Deploy [1]]" "pr_mints seen_processing = [(1, 0)]"
    by (simp_all add: seen_processing_def messages_of_def)
  moreover have "listed tb_dunes rune_of seen_body = Some [((5, 1), 9)]" "listed tb_inscriptions placed seen_body = Some [(0, seen_id)]"
    by (simp_all add: listed_def seen_body_def rune_of_def placed_def unsigned_ucast_eq)
  ultimately show ?thesis
    using context_of_applied_block [of seen_crates ?R seen_block seen_processing 4 "[4]" "[44]" zero_counters] unfolding ins outs by auto
qed

section \<open>Following the stream\<close>

text \<open>What the payloads of the source make of the chain an indexer has: a rollback keeps it up to a point.\<close>

fun up_to :: "u64 \<times> bytes \<Rightarrow> points \<Rightarrow> points" where
  "up_to p [] = []"
| "up_to p (x # c) = (if x = p then [x] else x # up_to p c)"

fun indexer_step :: "EnrichedBlockPayload \<Rightarrow> points \<Rightarrow> points" where
  "indexer_step (EnrichedForward p _ _ _) c = c @ [point_pair p]"
| "indexer_step (EnrichedBack p _) c = up_to (point_pair p) c"

lemma up_to_prefix: "c \<noteq> [] \<Longrightarrow> last c = p \<Longrightarrow> p \<notin> set (butlast c) \<Longrightarrow> up_to p (c @ d) = c"
  by (induction c) (auto split: if_splits)

lemma rising_last: "rising c \<Longrightarrow> c \<noteq> [] \<Longrightarrow> last c \<notin> set (butlast c)"
proof -
  assume r: "rising c" "c \<noteq> []"
  then have "distinct (map fst c)" by (simp add: rising_def strict_sorted_iff)
  then have "distinct (butlast c @ [last c])" using r(2) by (simp add: distinct_map)
  then show ?thesis by simp
qed

lemma process_payload:
  assumes "process_action B True (log_to_response_with_ctx l) = Inr ps"
  shows "case l of
     LApply h x _ _ \<Rightarrow> \<exists>raw ctx m. ps = [EnrichedForward \<lparr>pt_height = h, pt_hash = x\<rparr> raw ctx m]
   | LUndo _ _ _ \<Rightarrow> ps = []
   | LMark h x _ \<Rightarrow> ps = [EnrichedBack \<lparr>pt_height = h, pt_hash = x\<rparr> False]"
  using assms by (cases l) (auto simp: and_then_Inr_iff block_ref_to_point_def block_message_def split: if_splits)

text \<open>
  The indexer's chain and the chain of the log: equal, but that blocks which are being undone are still
  there until the mark comes.
\<close>

lemma payloads_follow:
  "\<lbrakk>replay ls c = Some e; rising c; settled ls; try_map (process_action B True) (map log_to_response_with_ctx ls) = Inr pss;
    d = c @ x; x = [] \<or> ls \<noteq> [] \<and> \<not> is_apply (hd ls)\<rbrakk> \<Longrightarrow>
   fold indexer_step (concat pss) d = e"
proof (induction ls arbitrary: c d x pss)
  case (Cons l ls)
  obtain c' where c': "replay_step l c = Some c'" "replay ls c' = Some e" using Cons.prems(1) by (auto simp: bind_eq_Some_conv)
  obtain ps qss where ps: "process_action B True (log_to_response_with_ctx l) = Inr ps" "pss = ps # qss"
    "try_map (process_action B True) (map log_to_response_with_ctx ls) = Inr qss"
    using Cons.prems(4) by (auto simp: and_then_Inr_iff)
  have r: "rising c'" by (rule replay_step_rising [OF c'(1) Cons.prems(2)])
  have st: "settled ls" using settled_suffix [of "[l]" ls] Cons.prems(3) by simp
  note ih = Cons.IH [OF c'(2) r st ps(3)]
  show ?case
  proof (cases l)
    case (LApply h y body re)
    then have "x = []" using Cons.prems(6) by simp
    then show ?thesis using ih [of "c' @ []" "[]"] process_payload [OF ps(1)] LApply c'(1) ps(2) Cons.prems(5) by (auto split: if_splits)
  next
    case (LMark h y body)
    then have "c' = c" "c \<noteq> []" "last c = (h, y)" using c'(1) by (auto split: if_splits)
    then have "up_to (h, y) d = c'" using up_to_prefix rising_last [OF Cons.prems(2)] Cons.prems(5) by metis
    then show ?thesis using ih [of "c' @ []" "[]"] process_payload [OF ps(1)] LMark ps(2) by auto
  next
    case (LUndo h y body)
    then have c: "c' = butlast c" "c \<noteq> []" using c'(1) by (auto split: if_splits)
    have "ls \<noteq> [] \<and> \<not> is_apply (hd ls)" using Cons.prems(3) LUndo by (cases ls) (auto simp: settled_def)
    moreover have "d = c' @ (last c # x)" using c Cons.prems(5) by simp
    ultimately show ?thesis using ih process_payload [OF ps(1)] LUndo ps(2) by auto
  qed
qed simp

text \<open>
  C6. Skipping the entries that undo blocks is right. In every state the roll stage of the compressor can get
  to, if the stream the source asks for starts and its entries are turned into payloads, then the
  stream is not closed with an error, and the payloads, of which a rollback keeps the chain up to its
  point and an undone block gives none, change a chain that ends in the point asked for into the
  chain of the compressor.
\<close>

theorem payloads_reach_tip:
  assumes "rolled C st" "stream_updates_with_context [r] (cs_tables (rs_db st)) = Inr (as, l, err)"
    and "source_execute B (as, True) = Inr ps"
  shows "\<not> err \<and> (\<exists>c. c \<noteq> [] \<and> last c = (br_height r, br_hash r) \<and> fold indexer_step ps c = chain_points (cs_tables (rs_db st)))"
proof -
  let ?t = "cs_tables (rs_db st)"
  obtain n where n: "find_wal_seq (cd_mutable ?t) (br_height r) (br_hash r) = Some n"
    using assms(2) by (auto split: if_splits option.splits)
  obtain out l' c where o: "stream_mutable (cd_mutable ?t) n = (out, l', False)" "settled out" "rising c" "c \<noteq> []"
    "last c = (br_height r, br_hash r)" "replay out c = Some (chain_points ?t)"
    using stream_from_found [OF assms(1) n] by blast
  have as: "as = map log_to_response_with_ctx out" "\<not> err" using assms(2) n o(1) by (auto split: if_splits)
  then obtain pss where "try_map (process_action B True) (map log_to_response_with_ctx out) = Inr pss" "ps = concat pss"
    using assms(3) by (auto simp: source_execute_def and_then_Inr_iff)
  then show ?thesis using payloads_follow [OF o(6,3,2), of B pss c "[]"] o(4,5) as(2) by auto
qed

definition short_block :: Block where
  "short_block = \<lparr>bl_prev = replicate 32 3, bl_txdata = [\<lparr>tx_input = [], tx_output = []\<rparr>]\<rparr>"

definition short_crates :: Crates where
  "short_crates = demo_crates\<lparr>cr_block_hash := (\<lambda>b. replicate 32 4), cr_decode_block := (\<lambda>b. Some short_block), cr_bitcoin := demo_crate\<rparr>"

definition short_opened :: RollStage where
  "short_opened = roll_new (db_open ((cs_tables demo_chain)\<lparr>cd_blocks := [(3, replicate 32 3, [33])]\<rparr>) None Dogecoin 100 100) None"

lemma short_forward:
  "\<exists>st h e. roll_execute short_crates (RollForward 4 (replicate 32 4) short_block (4, replicate 32 4)) short_opened = Inr (st, h) \<and>
     cd_blocks (cs_tables (rs_db st)) = [(3, replicate 32 3, [33]), (4, replicate 32 4, [44])] \<and>
     cd_resolvers (cs_tables (rs_db st)) = [(4, e)] \<and> re_hash e = replicate 32 4 \<and> re_mints e = [] \<and> re_brc20 e = [] \<and>
     cd_mutable (cs_tables (rs_db st)) = [(1, LApply 4 (replicate 32 4) [44] e)] \<and> cs_next_wal_seq (rs_db st) = 2 \<and> rs_mutable st"
  by (simp add: short_opened_def roll_new_def db_open_def goes_mutable_def log_block_def tbl_last_def short_crates_def resolver_entry_def
      apply_block_with_context_def demo_chain_def demo_crates_def short_block_def resolve_and_process_def block_input_refs_def
      tx_refs_def run_dunes_def run_inscriptions_def process_tx_def storage_dunes_def remove_refs_def Let_def)

lemma short_back:
  assumes "cd_blocks (cs_tables (rs_db st)) = [(3, replicate 32 3, [33]), (4, replicate 32 4, [44])]"
    "cd_resolvers (cs_tables (rs_db st)) = [(4, e)]" "re_hash e = replicate 32 4" "re_mints e = []" "re_brc20 e = []"
    "cd_mutable (cs_tables (rs_db st)) = [(1, LApply 4 (replicate 32 4) [44] e)]" "cs_next_wal_seq (rs_db st) = 2" "rs_mutable st"
  shows "\<exists>st' h. roll_execute short_crates (RollBack 3 (replicate 32 3) (3, replicate 32 3)) st = Inr (st', h) \<and>
    cd_mutable (cs_tables (rs_db st')) =
      [(1, LApply 4 (replicate 32 4) [44] e), (2, LUndo 4 (replicate 32 4) [44]), (3, LMark 3 (replicate 32 3) [33])] \<and>
    chain_points (cs_tables (rs_db st')) = [(3, replicate 32 3)]"
proof -
  have "dunestone_from_transaction demo_crate \<lparr>tx_input = [], tx_output = []\<rparr> = None" by code_simp
  then show ?thesis using assms
    by (simp add: rollback_def tbl_from_def undo_block_def Let_def short_crates_def short_block_def tbl_get_def tbl_del_def
        undo_tx_def undo_dunes_def output_refs_def remove_refs_def chain_points_def tx_refs_def)
qed

theorem payloads_reach_tip_witness:
  "\<exists>st as l ps c. stream_updates_with_context [\<lparr>br_height = 4, br_hash = replicate 32 4\<rparr>] (cs_tables (rs_db (st :: RollStage))) = Inr (as, l, False) \<and>
     source_execute demo_crate (as, True) = Inr ps \<and> ps = [EnrichedBack \<lparr>pt_height = 3, pt_hash = replicate 32 3\<rparr> False] \<and>
     last c = (4, replicate 32 4) \<and> fold indexer_step ps c = [(3, replicate 32 3)]"
proof -
  let ?r = "\<lparr>br_height = 4, br_hash = replicate 32 4\<rparr> :: BlockRef"
  obtain st h e where st: "roll_execute short_crates (RollForward 4 (replicate 32 4) short_block (4, replicate 32 4)) short_opened = Inr (st, h)"
    "cd_blocks (cs_tables (rs_db st)) = [(3, replicate 32 3, [33]), (4, replicate 32 4, [44])]"
    "cd_resolvers (cs_tables (rs_db st)) = [(4, e)]" "re_hash e = replicate 32 4" "re_mints e = []" "re_brc20 e = []"
    "cd_mutable (cs_tables (rs_db st)) = [(1, LApply 4 (replicate 32 4) [44] e)]" "cs_next_wal_seq (rs_db st) = 2" "rs_mutable st"
    using short_forward by blast
  obtain st' h' where st': "roll_execute short_crates (RollBack 3 (replicate 32 3) (3, replicate 32 3)) st = Inr (st', h')"
    "cd_mutable (cs_tables (rs_db st')) =
      [(1, LApply 4 (replicate 32 4) [44] e), (2, LUndo 4 (replicate 32 4) [44]), (3, LMark 3 (replicate 32 3) [33])]"
    "chain_points (cs_tables (rs_db st')) = [(3, replicate 32 3)]"
    using short_back [OF st(2-9)] by blast
  have "rolled short_crates short_opened" unfolding short_opened_def by (rule rolled.start) (simp add: demo_chain_def tbl_ok_def)
  then have "rolled short_crates st"
    by (rule rolled.step [OF _ _ _ st(1)]) (simp_all add: room_def short_opened_def roll_new_def db_open_def demo_chain_def)
  then have rolled: "rolled short_crates st'" by (rule rolled.step [OF _ _ _ st'(1)]) (simp_all add: room_def st)
  obtain l where s: "stream_updates_with_context [?r] (cs_tables (rs_db st')) =
      Inr ([Undo ?r, Reset \<lparr>br_height = 3, br_hash = replicate 32 3\<rparr>], l, False)"
    by (simp add: st'(2) find_wal_seq_def stream_mutable_def tbl_from_def)
  have x: "source_execute demo_crate ([Undo ?r, Reset \<lparr>br_height = 3, br_hash = replicate 32 3\<rparr>], True) =
      Inr [EnrichedBack \<lparr>pt_height = 3, pt_hash = replicate 32 3\<rparr> False]"
    by (simp add: source_execute_def block_ref_to_point_def)
  show ?thesis using payloads_reach_tip [OF rolled s x] s x st'(3) by auto
qed

section \<open>Resuming\<close>

text \<open>Some rounds of the source: what it schedules is executed, and the payloads are sent.\<close>

fun source_rounds ::
  "BitcoinCrate \<Rightarrow> server \<Rightarrow> u32 option \<Rightarrow> nat \<Rightarrow> SourceWorker \<Rightarrow> SourceError + EnrichedBlockPayload list \<times> SourceWorker" where
  "source_rounds B S items 0 w = Inr ([], w)"
| "source_rounds B S items (Suc n) w =
     and_then (source_schedule S items w) (\<lambda>(u, w).
     and_then (source_execute B u) (\<lambda>ps.
     and_then (source_rounds B S items n w) (\<lambda>(qs, w). Inr (ps @ qs, w))))"

text \<open>The blocks and the log entries of the compressor can be turned into payloads.\<close>

definition readable :: "BitcoinCrate \<Rightarrow> ChainTables \<Rightarrow> bool" where
  "readable B t \<longleftrightarrow>
     (\<forall>m\<in>set (chain_messages t). \<exists>ps. process_action B False (Apply m) = Inr ps) \<and>
     (\<forall>l\<in>set (map snd (cd_mutable t)). \<exists>ps. process_action B True (log_to_response_with_ctx l) = Inr ps)"

text \<open>
  A block determines the blocks before it, since its hash covers the hash of its parent: a chain the
  log went through that ends in a block of the present chain is the present chain up to that block.
\<close>

definition hashes_fix_ancestors :: "ChainTables \<Rightarrow> bool" where
  "hashes_fix_ancestors t \<longleftrightarrow>
     (\<forall>pre post c i. map snd (cd_mutable t) = pre @ post \<longrightarrow> replay post c = Some (chain_points t) \<longrightarrow>
        c \<noteq> [] \<longrightarrow> i < length (chain_points t) \<longrightarrow> last c = chain_points t ! i \<longrightarrow> c = take (Suc i) (chain_points t))"

lemma stream_stays [simp]: "try_stream S \<lparr>sw_mode = Streaming, sw_upstream_height = u, sw_stream = s\<rparr> =
    Inr \<lparr>sw_mode = Streaming, sw_upstream_height = u, sw_stream = s\<rparr>"
  by (simp add: try_stream_def split: option.splits)

lemma stream_rounds:
  assumes "length as \<le> n" "try_map (process_action B True) as = Inr pss"
  shows "source_rounds B S items n \<lparr>sw_mode = Streaming, sw_upstream_height = u, sw_stream = map (Inr \<circ> Some) as\<rparr> =
    Inr (concat pss, \<lparr>sw_mode = Streaming, sw_upstream_height = u, sw_stream = []\<rparr>)"
  using assms
proof (induction n arbitrary: as pss)
  case (Suc n)
  show ?case
  proof (cases as)
    case Nil
    then show ?thesis using Suc.IH [of "[]" "[]"] Suc.prems(2) by (simp add: source_schedule_def source_execute_def)
  next
    case (Cons a as')
    then obtain ps qss where ps: "process_action B True a = Inr ps" "pss = ps # qss" "try_map (process_action B True) as' = Inr qss"
      using Suc.prems(2) by (auto simp: and_then_Inr_iff)
    then show ?thesis using Suc.IH [of as' qss] Suc.prems(1) Cons by (simp add: source_schedule_def source_execute_def)
  qed
qed simp

text \<open>A switch to the stream happens before anything is scheduled in the round.\<close>

lemma switch_rounds:
  assumes "try_stream S w = Inr w'" "sw_mode w' = Streaming" "0 < n"
  shows "source_rounds B S items n w = source_rounds B S items n w'"
proof -
  obtain m where n: "n = Suc m" using assms(3) by (cases n) auto
  have "try_stream S w' = Inr w'" using assms(2) by (cases w') simp
  then have "source_schedule S items w = source_schedule S items w'" by (simp add: source_schedule_def assms(1))
  then show ?thesis by (simp add: n)
qed

lemma idle_rounds:
  assumes "source_schedule S items w = Inr (([], False), w)"
  shows "source_rounds B S items n w = Inr ([], w)"
  by (induction n) (simp_all add: assms source_execute_def)

lemma try_map_some: "\<forall>x\<in>set xs. \<exists>y. f x = Inr y \<Longrightarrow> \<exists>ys. try_map f xs = Inr ys"
  by (induction xs) auto

text \<open>A page brings the indexer forward by its blocks.\<close>

lemma page_payloads:
  assumes "\<forall>m\<in>set ms. \<exists>ps. process_action B False (Apply m) = Inr ps"
    "map bw_ref ms = map (\<lambda>(h, x). Some \<lparr>br_height = h, br_hash = x\<rparr>) qs"
  shows "\<exists>ps. source_execute B (map Apply ms, False) = Inr ps \<and> fold indexer_step ps c = c @ qs"
  using assms
proof (induction ms arbitrary: qs c)
  case Nil
  then show ?case by (simp add: source_execute_def)
next
  case (Cons m ms)
  then obtain h x qs' where qs: "qs = (h, x) # qs'" "bw_ref m = Some \<lparr>br_height = h, br_hash = x\<rparr>"
    "map bw_ref ms = map (\<lambda>(h, x). Some \<lparr>br_height = h, br_hash = x\<rparr>) qs'" by (cases qs) auto
  obtain ps where ps: "process_action B False (Apply m) = Inr ps" using Cons.prems(1) by auto
  then have "fold indexer_step ps c = c @ [(h, x)]"
    using qs(2) by (auto simp: and_then_Inr_iff block_ref_to_point_def split: if_splits)
  moreover obtain rs where "source_execute B (map Apply ms, False) = Inr rs" "fold indexer_step rs (c @ [(h, x)]) = (c @ [(h, x)]) @ qs'"
    using Cons.IH [OF _ qs(3), of "c @ [(h, x)]"] Cons.prems(1) by auto
  ultimately show ?case using ps qs(1)
    by (intro exI [of _ "ps @ rs"]) (auto simp: source_execute_def and_then_Inr_iff)
qed

lemma chain_message_refs:
  assumes "served t"
  shows "map bw_ref (chain_messages t) = map (\<lambda>(h, x). Some \<lparr>br_height = h, br_hash = x\<rparr>) (chain_points t)"
proof -
  have "length (cd_resolvers t) = length (cd_blocks t)" by (rule served_ok(2) [OF assms])
  then show ?thesis
    by (auto simp: chain_messages_def chain_points_def block_message_def intro!: nth_equalityI split: prod.splits)
qed

lemma switch_reaches_tip:
  assumes "rolled C st" "readable B (cs_tables (rs_db st))" "hashes_fix_ancestors (cs_tables (rs_db st))"
    and cur: "cursor_at (cs_tables (rs_db st)) k = Some c" "k \<le> length (cd_blocks (cs_tables (rs_db st)))"
    and found: "find_wal_seq (cd_mutable (cs_tables (rs_db st))) (br_height c) (br_hash c) = Some n"
    and out: "stream_mutable (cd_mutable (cs_tables (rs_db st))) n = (as, l, err)"
  shows "\<not> err \<and> length as < length (cd_mutable (cs_tables (rs_db st))) \<and>
    (\<exists>pss. try_map (process_action B True) (map log_to_response_with_ctx as) = Inr pss \<and>
      fold indexer_step (concat pss) (take k (chain_points (cs_tables (rs_db st)))) = chain_points (cs_tables (rs_db st)))"
proof -
  let ?t = "cs_tables (rs_db st)"
  obtain out l' ch pre v where o: "stream_mutable (cd_mutable ?t) n = (out, l', False)" "settled out" "rising ch" "ch \<noteq> []"
    "last ch = (br_height c, br_hash c)" "replay out ch = Some (chain_points ?t)" "map snd (cd_mutable ?t) = pre @ v # out"
    using stream_from_found [OF assms(1) found] by blast
  then have as: "as = out" "\<not> err" using out by simp_all
  have k: "k - 1 < length (chain_points ?t)" "chain_points ?t ! (k - 1) = (br_height c, br_hash c)" "Suc (k - 1) = k"
    using cur by (auto simp: cursor_at_def chain_points_def ref_of_def split: if_splits prod.splits)
  have "map snd (cd_mutable ?t) = (pre @ [v]) @ out" using o(7) by simp
  then have ch: "ch = take k (chain_points ?t)" using assms(3) o(4-6) k unfolding hashes_fix_ancestors_def by metis
  have "set out \<subseteq> set (map snd (cd_mutable ?t))" unfolding o(7) by auto
  then have "\<forall>a\<in>set (map log_to_response_with_ctx out). \<exists>ps. process_action B True a = Inr ps"
    using assms(2) by (auto simp: readable_def)
  then obtain pss where pss: "try_map (process_action B True) (map log_to_response_with_ctx out) = Inr pss"
    using try_map_some by blast
  moreover have "fold indexer_step (concat pss) ch = chain_points ?t" using payloads_follow [OF o(6,3,2) pss, of ch "[]"] by simp
  moreover have "length out < length (cd_mutable ?t)" using arg_cong [OF o(7), of length] by simp
  ultimately show ?thesis using as ch by blast
qed

lemma dumping_reaches_tip:
  assumes roll: "rolled C st" and ok: "served (cs_tables (rs_db st))" "readable B (cs_tables (rs_db st))"
    "hashes_fix_ancestors (cs_tables (rs_db st))" and items: "items \<ge> 1"
    and k: "k \<le> length (cd_blocks (cs_tables (rs_db st)))"
    and n: "length (cd_blocks (cs_tables (rs_db st))) - k + length (cd_mutable (cs_tables (rs_db st))) \<le> n"
  shows "\<exists>ps w. source_rounds B (compressor_server (cs_tables (rs_db st))) (Some items) n (dumping (cs_tables (rs_db st)) k) = Inr (ps, w) \<and>
    fold indexer_step ps (take k (chain_points (cs_tables (rs_db st)))) = chain_points (cs_tables (rs_db st))"
  using k n
proof (induction n arbitrary: k)
  case 0
  then show ?case by (simp add: chain_points_def)
next
  case (Suc n)
  let ?t = "cs_tables (rs_db st)"
  let ?S = "compressor_server ?t" and ?m = "min (length (cd_blocks ?t)) (k + unat items)"
  have len: "length (chain_points ?t) = length (cd_blocks ?t)" by (simp add: chain_points_def)
  show ?case
  proof (rule try_stream_cases [OF ok(1) Suc.prems(1)])
    fix c q as l err
    assume cur: "cursor_at ?t k = Some c" and found: "find_wal_seq (cd_mutable ?t) (br_height c) (br_hash c) = Some q"
      and out: "stream_mutable (cd_mutable ?t) q = (as, l, err)"
      and sw: "try_stream ?S (dumping ?t k) = Inr \<lparr>sw_mode = Streaming, sw_upstream_height = tip_height ?t,
         sw_stream = map (Inr \<circ> Some \<circ> log_to_response_with_ctx) as @ (if err then [Inl Internal] else [])\<rparr>"
    obtain pss where r: "\<not> err" "length as < length (cd_mutable ?t)"
      "try_map (process_action B True) (map log_to_response_with_ctx as) = Inr pss"
      "fold indexer_step (concat pss) (take k (chain_points ?t)) = chain_points ?t"
      using switch_reaches_tip [OF roll ok(2,3) cur Suc.prems(1) found out] by blast
    have "length (map log_to_response_with_ctx as) \<le> Suc n" using r(2) Suc.prems(2) by simp
    from switch_rounds [OF sw, of "Suc n" B "Some items"] stream_rounds [OF this r(3), of ?S "Some items"] r(1,4)
    show ?thesis by (simp add: comp_assoc del: source_rounds.simps)
  next
    assume stay: "try_stream ?S (dumping ?t k) = Inr (dumping ?t k)"
    note page = schedule_page [OF ok(1) Suc.prems(1) items stay]
    show ?thesis
    proof (cases "k = length (cd_blocks ?t)")
      case True
      then have "length (chain_messages ?t) \<le> k" using served_ok(2) [OF ok(1)] by (simp add: chain_messages_def)
      then show ?thesis using idle_rounds [of ?S "Some items" "dumping ?t k" B "Suc n"] page True len
        by (simp del: source_rounds.simps)
    next
      case False
      let ?ms = "take (unat items) (drop k (chain_messages ?t))" and ?qs = "take (unat items) (drop k (chain_points ?t))"
      have "map bw_ref ?ms = map (\<lambda>(h, x). Some \<lparr>br_height = h, br_hash = x\<rparr>) ?qs"
        using chain_message_refs [OF ok(1)] by (simp flip: take_map drop_map)
      moreover have "\<forall>m\<in>set ?ms. \<exists>ps. process_action B False (Apply m) = Inr ps"
        using ok(2) unfolding readable_def by (blast dest: in_set_takeD in_set_dropD)
      ultimately obtain ps where ps: "source_execute B (map Apply ?ms, False) = Inr ps"
        "fold indexer_step ps (take k (chain_points ?t)) = take k (chain_points ?t) @ ?qs"
        using page_payloads [of ?ms B ?qs "take k (chain_points ?t)"] by blast
      have step: "take k (chain_points ?t) @ ?qs = take ?m (chain_points ?t)"
        by (simp add: len min_def flip: take_add)
      have "unat items \<noteq> 0" using items by (simp add: word_le_nat_alt)
      then have "length (cd_blocks ?t) - ?m + length (cd_mutable ?t) \<le> n" "?m \<le> length (cd_blocks ?t)"
        using Suc.prems False by (auto simp: min_def)
      then obtain rs w where "source_rounds B ?S (Some items) n (dumping ?t ?m) = Inr (rs, w)"
        "fold indexer_step rs (take ?m (chain_points ?t)) = chain_points ?t"
        using Suc.IH [of ?m] by blast
      then show ?thesis using page ps step by auto
    qed
  qed
qed

text \<open>
  C11. The source resumes where it has to, and catches up. Let the compressor be in any state its roll
  stage can get to, with whatever log, and let the persistent rollback buffer of the indexer have the
  point p in common with its chain, and no newer one. Then the source starts by rolling the indexer
  back to p. If the compressor then stays as it is, all rounds of the source succeed, and after as
  many rounds as the chain has blocks above p and the log has entries (or more), the payloads sent
  have turned the indexer's chain into the chain of the compressor: whether and when the source
  switches from pages to the stream, no block is left out and none comes twice. Provisos: every block
  of the tables has its resolver entry and a hash of 32 bytes, blocks and log entries can be read,
  and a block determines its ancestors.
\<close>

theorem source_resumes:
  assumes "rolled C st" "served (cs_tables (rs_db st))" "readable B (cs_tables (rs_db st))"
    "hashes_fix_ancestors (cs_tables (rs_db st))" "items \<ge> 1"
    and chain: "chain_points (cs_tables (rs_db st)) = xs @ point_pair p # ys"
    and newer: "\<forall>q\<in>set newer. point_pair q \<notin> set (chain_points (cs_tables (rs_db st)))"
    and rounds: "length ys + length (cd_mutable (cs_tables (rs_db st))) \<le> n"
  shows "\<exists>w ps w'. source_bootstrap block_hash_of (compressor_server (cs_tables (rs_db st))) intersect
        (Some (older @ p # newer)) last_point source_new = Inr ([EnrichedBack p True], w) \<and>
      source_rounds B (compressor_server (cs_tables (rs_db st))) (Some items) n w = Inr (ps, w') \<and>
      fold indexer_step (EnrichedBack p True # ps) (xs @ point_pair p # zs) = chain_points (cs_tables (rs_db st))"
proof -
  let ?t = "cs_tables (rs_db st)" and ?k = "Suc (length xs)"
  have len: "length (cd_blocks ?t) = ?k + length ys" using arg_cong [OF chain, of length] by (simp add: chain_points_def)
  then obtain ps w' where ps: "source_rounds B (compressor_server ?t) (Some items) n (dumping ?t ?k) = Inr (ps, w')"
    "fold indexer_step ps (take ?k (chain_points ?t)) = chain_points ?t"
    using dumping_reaches_tip [OF assms(1-5), of ?k n] rounds by auto
  have "rising (chain_points ?t)" using assms(2) by (simp add: served_def rising_chain)
  then have "distinct (chain_points ?t)" by (auto simp: rising_def strict_sorted_iff distinct_map)
  then have "point_pair p \<notin> set xs" using chain by auto
  then have "up_to (point_pair p) (xs @ point_pair p # zs) = take ?k (chain_points ?t)"
    using up_to_prefix [of "xs @ [point_pair p]" "point_pair p" zs] chain by simp
  then show ?thesis using bootstrap_resumes [OF assms(2) chain newer] ps by simp
qed

text \<open>A compressor at block 3 that was told to roll back to block 3, and then applied block 4.\<close>

definition plain_entry :: "bytes \<Rightarrow> ResolverEntry" where
  "plain_entry x = \<lparr>re_hash = x, re_resolver = [], re_dunes = [], re_etches = [], re_mints = [], re_inscriptions = [],
     re_reinscriptions = [], re_counters = zero_counters, re_brc20 = [], re_new = []\<rparr>"

definition marked_opened :: RollStage where
  "marked_opened = roll_new (db_open ((cs_tables demo_chain)\<lparr>cd_blocks := [(3, replicate 32 3, [33])],
     cd_resolvers := [(3, plain_entry (replicate 32 3))]\<rparr>) (Some 10) Dogecoin 100 100) None"

definition marked_log :: "ResolverEntry \<Rightarrow> (u64, Log) table" where
  "marked_log e = [(1, LMark 3 (replicate 32 3) [33]), (2, LApply 4 (replicate 32 4) [44] e)]"

lemma marked_back:
  "\<exists>st h. roll_execute short_crates (RollBack 3 (replicate 32 3) (3, replicate 32 3)) marked_opened = Inr (st, h) \<and>
     rs_db st = (rs_db marked_opened)\<lparr>cs_tables := (cs_tables (rs_db marked_opened))\<lparr>cd_mutable := [(1, LMark 3 (replicate 32 3) [33])]\<rparr>,
       cs_next_wal_seq := 2, cs_last_block_hash := Some (replicate 32 3)\<rparr> \<and> rs_mutable st \<and> rs_memory st = None"
  by (simp add: rollback_def marked_opened_def roll_new_def db_open_def goes_mutable_def demo_chain_def tbl_from_def Let_def)

lemma marked_forward:
  assumes "rs_db st = (rs_db marked_opened)\<lparr>cs_tables := (cs_tables (rs_db marked_opened))\<lparr>cd_mutable := [(1, LMark 3 (replicate 32 3) [33])]\<rparr>,
       cs_next_wal_seq := 2, cs_last_block_hash := Some (replicate 32 3)\<rparr>" "rs_mutable st" "rs_memory st = None"
  shows "\<exists>st' h e. roll_execute short_crates (RollForward 4 (replicate 32 4) short_block (4, replicate 32 4)) st = Inr (st', h) \<and>
     cd_blocks (cs_tables (rs_db st')) = [(3, replicate 32 3, [33]), (4, replicate 32 4, [44])] \<and>
     cd_resolvers (cs_tables (rs_db st')) = [(3, plain_entry (replicate 32 3)), (4, e)] \<and>
     (\<exists>c. e = (plain_entry (replicate 32 4))\<lparr>re_counters := c\<rparr>) \<and> cd_mutable (cs_tables (rs_db st')) = marked_log e"
  using assms
  by (simp add: marked_opened_def roll_new_def db_open_def goes_mutable_def log_block_def tbl_last_def short_crates_def resolver_entry_def
      apply_block_with_context_def demo_chain_def demo_crates_def short_block_def resolve_and_process_def block_input_refs_def
      tx_refs_def run_dunes_def run_inscriptions_def process_tx_def storage_dunes_def remove_refs_def Let_def plain_entry_def marked_log_def
      resolved_def List.map_filter_def output_refs_def)

lemma marked_ancestors:
  assumes "cd_mutable t = marked_log e" "chain_points t = [(3, replicate 32 3), (4, replicate 32 4)]"
  shows "hashes_fix_ancestors t"
  unfolding hashes_fix_ancestors_def
proof (intro allI impI)
  fix pre post c i
  assume split: "map snd (cd_mutable t) = pre @ post" and run: "replay post c = Some (chain_points t)"
    and c: "c \<noteq> []" "i < length (chain_points t)" "last c = chain_points t ! i"
  let ?m = "LMark 3 (replicate 32 3) [33]" and ?a = "LApply 4 (replicate 32 4) [44] e"
  have "post = [?m, ?a] \<or> post = [?a] \<or> post = []"
    using split assms(1) by (cases pre; cases "tl pre") (auto simp: marked_log_def Cons_eq_append_conv append_eq_Cons_conv)
  then have "c = [(3, replicate 32 3)] \<or> c = chain_points t"
    using run assms(2) by (auto split: if_splits)
  moreover have "i = 0 \<or> i = 1" using c(2) assms(2) by auto
  ultimately show "c = take (Suc i) (chain_points t)" using c(3) assms(2) by auto
qed

lemma marked_readable:
  assumes "cd_mutable t = marked_log e" "cd_blocks t = [(3, replicate 32 3, [33]), (4, replicate 32 4, [44])]"
    "cd_resolvers t = [(3, plain_entry (replicate 32 3)), (4, e)]" "e = (plain_entry (replicate 32 4))\<lparr>re_counters := c\<rparr>"
  shows "readable B t"
  using assms
  by (simp add: readable_def chain_messages_def marked_log_def plain_entry_def block_message_def read_block_def runes_info_def
      inscriptions_info_def read_runes_info_def read_inscriptions_info_def inscribed_def collect_def block_ref_to_point_def)

theorem source_resumes_witness:
  "\<exists>st w ps w'. find_wal_seq (cd_mutable (cs_tables (rs_db (st :: RollStage)))) 3 (replicate 32 3) = Some 1 \<and>
     source_bootstrap (\<lambda>_. None) (compressor_server (cs_tables (rs_db st))) Origin
       (Some [\<lparr>pt_height = 3, pt_hash = replicate 32 3\<rparr>, \<lparr>pt_height = 4, pt_hash = replicate 32 5\<rparr>]) None source_new =
       Inr ([EnrichedBack \<lparr>pt_height = 3, pt_hash = replicate 32 3\<rparr> True], w) \<and>
     source_rounds demo_crate (compressor_server (cs_tables (rs_db st))) (Some 1) 3 w = Inr (ps, w') \<and>
     fold indexer_step (EnrichedBack \<lparr>pt_height = 3, pt_hash = replicate 32 3\<rparr> True # ps)
       [(3, replicate 32 3), (4, replicate 32 5)] = [(3, replicate 32 3), (4, replicate 32 4)]"
proof -
  let ?p = "\<lparr>pt_height = 3, pt_hash = replicate 32 3\<rparr> :: Point" and ?q = "\<lparr>pt_height = 4, pt_hash = replicate 32 5\<rparr> :: Point"
  obtain st1 h1 where st1: "roll_execute short_crates (RollBack 3 (replicate 32 3) (3, replicate 32 3)) marked_opened = Inr (st1, h1)"
    "rs_db st1 = (rs_db marked_opened)\<lparr>cs_tables := (cs_tables (rs_db marked_opened))\<lparr>cd_mutable := [(1, LMark 3 (replicate 32 3) [33])]\<rparr>,
       cs_next_wal_seq := 2, cs_last_block_hash := Some (replicate 32 3)\<rparr>" "rs_mutable st1" "rs_memory st1 = None"
    using marked_back by blast
  obtain st h e c where st: "roll_execute short_crates (RollForward 4 (replicate 32 4) short_block (4, replicate 32 4)) st1 = Inr (st, h)"
    "cd_blocks (cs_tables (rs_db st)) = [(3, replicate 32 3, [33]), (4, replicate 32 4, [44])]"
    "cd_resolvers (cs_tables (rs_db st)) = [(3, plain_entry (replicate 32 3)), (4, e)]"
    "e = (plain_entry (replicate 32 4))\<lparr>re_counters := c\<rparr>" "cd_mutable (cs_tables (rs_db st)) = marked_log e"
    using marked_forward [OF st1(2-4)] by blast
  let ?t = "cs_tables (rs_db st)"
  have "rolled short_crates marked_opened" unfolding marked_opened_def by (rule rolled.start) (simp add: tbl_ok_def)
  then have "rolled short_crates st1"
    by (rule rolled.step [OF _ _ _ st1(1)]) (simp_all add: room_def marked_opened_def roll_new_def db_open_def demo_chain_def)
  then have roll: "rolled short_crates st"
    by (rule rolled.step [OF _ _ _ st(1)]) (simp_all add: room_def st1(2) marked_opened_def roll_new_def db_open_def demo_chain_def)
  have cp: "chain_points ?t = [(3, replicate 32 3), (4, replicate 32 4)]" by (simp add: chain_points_def st(2))
  have served: "served ?t" by (simp add: served_def st(2-4) tbl_ok_def plain_entry_def)
  have "chain_points ?t = [] @ point_pair ?p # [(4, replicate 32 4)]" "\<forall>q\<in>set [?q]. point_pair q \<notin> set (chain_points ?t)"
    "length [(4 :: u64, replicate 32 (4 :: u8))] + length (cd_mutable ?t) \<le> 3"
    by (simp_all add: cp st(5) marked_log_def)
  from source_resumes [OF roll served marked_readable [OF st(5,2-4)] marked_ancestors [OF st(5) cp] order_refl this,
      where block_hash_of = "\<lambda>_. None" and intersect = Origin and older = "[]" and last_point = None
        and zs = "[(4, replicate 32 5)]" and B = demo_crate]
  obtain w ps w' where "source_bootstrap (\<lambda>_. None) (compressor_server ?t) Origin (Some [?p, ?q]) None source_new =
      Inr ([EnrichedBack ?p True], w)" "source_rounds demo_crate (compressor_server ?t) (Some 1) 3 w = Inr (ps, w')"
    "fold indexer_step (EnrichedBack ?p True # ps) [(3, replicate 32 3), (4, replicate 32 5)] = chain_points ?t"
    by auto
  moreover have "find_wal_seq (cd_mutable ?t) 3 (replicate 32 3) = Some 1" by (simp add: st(5) marked_log_def find_wal_seq_def)
  ultimately show ?thesis unfolding cp by blast
qed

end
