(* ===== verification/Reducers.thy ===== *)
theory Reducers
  imports Tikv_Worker Source_Compressor
begin

text \<open>
  The reducers of polyphony (\<open>reducers/*.rs\<close>): from a block and its context to the outputs that the
  storage stage writes. Most of them walk the transactions of a block, first over the outputs a
  transaction spends and then over those it makes; that loop is \<open>reduce_txos\<close>, with what a reducer does
  for a spent and for a made output as its arguments. A missing output is an error that the policy of
  the indexer turns into a failure or into skipping. Dunestones, inscriptions and BRC-20 messages are
  read by copies of the modules of the compressor, so their model is shared.
\<close>

section \<open>What the context says\<close>

definition find_utxo :: "BlockContext \<Rightarrow> OutPoint \<Rightarrow> PolyError + ContextUtxo" where
  "find_utxo ctx key = (case bx_inputs ctx (txo_ref key) of None \<Rightarrow> Inl (MissingUtxo (op_txid key)) | Some u \<Rightarrow> Inr u)"

definition utxo_runes :: "BlockContext \<Rightarrow> OutPoint \<Rightarrow> (RuneId \<times> u128) list option" where
  "utxo_runes ctx key = bx_runes ctx (txo_ref key)"

definition utxo_inscriptions :: "BlockContext \<Rightarrow> OutPoint \<Rightarrow> (u32 \<times> InscriptionId) list option" where
  "utxo_inscriptions ctx key = bx_inscriptions ctx (txo_ref key)"

definition inscription_brc20s :: "BlockContext \<Rightarrow> InscriptionId \<Rightarrow> BRC20Message list option" where
  "inscription_brc20s ctx key = bx_brc20 ctx key"

definition new_inscriptions :: "BlockContext \<Rightarrow> bytes \<Rightarrow> (InscriptionId \<times> u64 \<times> bytes \<times> bytes) option" where
  "new_inscriptions ctx key = bx_new ctx key"

abbreviation or_empty :: "'a list option \<Rightarrow> 'a list" where
  "or_empty x \<equiv> (case x of None \<Rightarrow> [] | Some xs \<Rightarrow> xs)"

definition insc_ref :: "InscriptionId \<Rightarrow> inscription_ref" where
  "insc_ref i = (ii_txid i, ii_index i)"

text \<open>The outputs for a spent output that the policy lets pass; nothing for one that it skips.\<close>

definition with_utxo :: "RuntimePolicy \<Rightarrow> BlockContext \<Rightarrow> OutPoint \<Rightarrow> (ContextUtxo \<Rightarrow> ReducerOutput list) \<Rightarrow> PolyError + ReducerOutput list" where
  "with_utxo policy ctx input f =
     and_then (apply_policy (find_utxo ctx input) policy) (\<lambda>u. Inr (case u of None \<Rightarrow> [] | Some u \<Rightarrow> f u))"

section \<open>Walking the transactions\<close>

text \<open>\<open>is_coinbase\<close> of the Bitcoin library: a single input, with the null outpoint.\<close>

definition tx_is_coinbase :: "BitcoinCrate \<Rightarrow> Transaction \<Rightarrow> bool" where
  "tx_is_coinbase B tx = (case tx_input tx of [i] \<Rightarrow> bc_is_null B (ti_previous_output i) | _ \<Rightarrow> False)"

definition tx_spent :: "Transaction \<Rightarrow> OutPoint list" where
  "tx_spent tx = map ti_previous_output (tx_input tx)"

definition tx_made :: "BitcoinCrate \<Rightarrow> Transaction \<Rightarrow> (OutPoint \<times> TxOut) list" where
  "tx_made B tx = map (\<lambda>(i, out). (\<lparr>op_txid = bc_txid B tx, op_vout = word_of_nat i\<rparr>, out)) (List.enumerate 0 (tx_output tx))"

definition chained_txos :: "BitcoinCrate \<Rightarrow> Transaction list \<Rightarrow> bytes list \<times> OutPoint list" where
  "chained_txos B txs =
     (let consumed = concat (map tx_spent txs); produced = concat (map (\<lambda>tx. map fst (tx_made B tx)) txs)
      in (map (bc_txid B) txs, filter (\<lambda>x. x \<in> set consumed) produced))"

fun try_concat :: "('x \<Rightarrow> 'e + 'y list) \<Rightarrow> 'x list \<Rightarrow> 'e + 'y list" where
  "try_concat f [] = Inr []"
| "try_concat f (x # xs) = and_then (f x) (\<lambda>ys. and_then (try_concat f xs) (\<lambda>zs. Inr (ys @ zs)))"

definition reduce_tx ::
  "BitcoinCrate \<Rightarrow> (OutPoint \<Rightarrow> PolyError + 'o list) \<Rightarrow> (OutPoint \<Rightarrow> TxOut \<Rightarrow> 'o list) \<Rightarrow> OutPoint list \<Rightarrow> Transaction \<Rightarrow> PolyError + 'o list" where
  "reduce_tx B consumed produced skipped tx =
     and_then (if tx_is_coinbase B tx then Inr [] else try_concat consumed (filter (\<lambda>x. x \<notin> set skipped) (tx_spent tx))) (\<lambda>cs.
       Inr (cs @ concat (map (\<lambda>(op, out). if op \<in> set skipped then [] else produced op out) (tx_made B tx))))"

definition reduce_txos ::
  "BitcoinCrate \<Rightarrow> (OutPoint \<Rightarrow> PolyError + 'o list) \<Rightarrow> (OutPoint \<Rightarrow> TxOut \<Rightarrow> 'o list) \<Rightarrow> OutPoint list \<Rightarrow> Transaction list \<Rightarrow> PolyError + 'o list" where
  "reduce_txos B consumed produced skipped txs = try_concat (reduce_tx B consumed produced skipped) txs"

section \<open>Unspent outputs\<close>

definition utxos_by_script_hash_reduce :: "BitcoinCrate \<Rightarrow> RuntimePolicy \<Rightarrow> u64 \<Rightarrow> Block \<Rightarrow> BlockContext \<Rightarrow> PolyError + ReducerOutput list" where
  "utxos_by_script_hash_reduce B policy height block ctx =
     reduce_txos B
       (\<lambda>input. with_utxo policy ctx input (\<lambda>u.
          [Out_UtxosByScriptHash (bc_script_hash B (to_script_pubkey (cu_txo u))) (cu_height u) (op_txid input) (op_vout input) Consumed]))
       (\<lambda>op out. [Out_UtxosByScriptHash (bc_script_hash B (to_script_pubkey out)) height (op_txid op) (op_vout op) (Produced (to_value out))])
       (snd (chained_txos B (bl_txdata block))) (bl_txdata block)"

definition utxos_by_rune_id_reduce :: "BitcoinCrate \<Rightarrow> RuntimePolicy \<Rightarrow> u64 \<Rightarrow> Block \<Rightarrow> BlockContext \<Rightarrow> PolyError + ReducerOutput list" where
  "utxos_by_rune_id_reduce B policy height block ctx =
     reduce_txos B
       (\<lambda>input. case utxo_runes ctx input of None \<Rightarrow> Inr []
          | Some runes \<Rightarrow> with_utxo policy ctx input (\<lambda>u.
              map (\<lambda>(rune, _). Out_UtxosByRuneId rune (cu_height u) (op_txid input) (op_vout input) Consumed) runes))
       (\<lambda>op out. map (\<lambda>(rune, amount). Out_UtxosByRuneId rune height (op_txid op) (op_vout op)
          (Produced (bc_script_hash B (to_script_pubkey out), amount, to_value out))) (or_empty (utxo_runes ctx op)))
       (snd (chained_txos B (bl_txdata block))) (bl_txdata block)"

definition runes_by_utxo_reduce :: "BitcoinCrate \<Rightarrow> Block \<Rightarrow> BlockContext \<Rightarrow> PolyError + ReducerOutput list" where
  "runes_by_utxo_reduce B block ctx =
     reduce_txos B
       (\<lambda>input. Inr (if utxo_runes ctx input \<noteq> None then [Out_RunesByUtxo (op_txid input) (op_vout input) Consumed] else []))
       (\<lambda>op _. case utxo_runes ctx op of None \<Rightarrow> [] | Some runes \<Rightarrow> [Out_RunesByUtxo (op_txid op) (op_vout op) (Produced runes)])
       [] (bl_txdata block)"

text \<open>At most ten thousand inscriptions of an output are kept.\<close>

definition kept_inscriptions :: "(u32 \<times> InscriptionId) list \<Rightarrow> (u32 \<times> inscription_ref) list" where
  "kept_inscriptions xs = take 10000 (map (\<lambda>(offset, i). (offset, insc_ref i)) xs)"

definition inscriptions_by_utxo_reduce :: "BitcoinCrate \<Rightarrow> Block \<Rightarrow> BlockContext \<Rightarrow> PolyError + ReducerOutput list" where
  "inscriptions_by_utxo_reduce B block ctx =
     reduce_txos B
       (\<lambda>input. Inr (if utxo_inscriptions ctx input \<noteq> None then [Out_InscriptionsByUtxo (op_txid input) (op_vout input) Consumed] else []))
       (\<lambda>op _. case utxo_inscriptions ctx op of None \<Rightarrow> []
          | Some xs \<Rightarrow> [Out_InscriptionsByUtxo (op_txid op) (op_vout op) (Produced (kept_inscriptions xs))])
       [] (bl_txdata block)"

definition inscriptions_by_script_hash_reduce :: "BitcoinCrate \<Rightarrow> RuntimePolicy \<Rightarrow> u64 \<Rightarrow> Block \<Rightarrow> BlockContext \<Rightarrow> PolyError + ReducerOutput list" where
  "inscriptions_by_script_hash_reduce B policy height block ctx =
     reduce_txos B
       (\<lambda>input. with_utxo policy ctx input (\<lambda>u.
          map (\<lambda>(_, i). Out_InscriptionsByScriptHash (bc_script_hash B (to_script_pubkey (cu_txo u))) (insc_ref i) Consumed)
            (or_empty (utxo_inscriptions ctx input))))
       (\<lambda>op out. map (\<lambda>(offset, i). Out_InscriptionsByScriptHash (bc_script_hash B (to_script_pubkey out)) (insc_ref i)
          (Produced (height, txo_ref op, offset))) (or_empty (utxo_inscriptions ctx op)))
       [] (bl_txdata block)"

definition inscription_utxos_by_script_hash_reduce :: "BitcoinCrate \<Rightarrow> RuntimePolicy \<Rightarrow> u64 \<Rightarrow> Block \<Rightarrow> BlockContext \<Rightarrow> PolyError + ReducerOutput list" where
  "inscription_utxos_by_script_hash_reduce B policy height block ctx =
     reduce_txos B
       (\<lambda>input. with_utxo policy ctx input (\<lambda>u.
          if utxo_inscriptions ctx input \<noteq> None then
            [Out_InscriptionUtxosByScriptHash (bc_script_hash B (to_script_pubkey (cu_txo u))) (cu_height u) (op_txid input) (op_vout input) Consumed]
          else []))
       (\<lambda>op out. case utxo_inscriptions ctx op of None \<Rightarrow> []
          | Some xs \<Rightarrow> [Out_InscriptionUtxosByScriptHash (bc_script_hash B (to_script_pubkey out)) height (op_txid op) (op_vout op)
              (Produced (to_value out, kept_inscriptions xs))])
       [] (bl_txdata block)"

section \<open>Balances\<close>

definition sat_balance_by_script_hash_reduce :: "BitcoinCrate \<Rightarrow> RuntimePolicy \<Rightarrow> Block \<Rightarrow> BlockContext \<Rightarrow> PolyError + ReducerOutput list" where
  "sat_balance_by_script_hash_reduce B policy block ctx =
     reduce_txos B
       (\<lambda>input. with_utxo policy ctx input (\<lambda>u.
          [Out_SatBalanceByScriptHash (bc_script_hash B (to_script_pubkey (cu_txo u))) (Decrement (to_value (cu_txo u)))]))
       (\<lambda>_ out. [Out_SatBalanceByScriptHash (bc_script_hash B (to_script_pubkey out)) (Increment (to_value out))])
       [] (bl_txdata block)"

definition rune_balances_by_script_hash_reduce :: "BitcoinCrate \<Rightarrow> RuntimePolicy \<Rightarrow> Block \<Rightarrow> BlockContext \<Rightarrow> PolyError + ReducerOutput list" where
  "rune_balances_by_script_hash_reduce B policy block ctx =
     reduce_txos B
       (\<lambda>input. with_utxo policy ctx input (\<lambda>u.
          map (\<lambda>(rune, amount). Out_RuneBalancesByScriptHash (bc_script_hash B (to_script_pubkey (cu_txo u))) rune (Decrement amount))
            (or_empty (utxo_runes ctx input))))
       (\<lambda>op out. map (\<lambda>(rune, amount). Out_RuneBalancesByScriptHash (bc_script_hash B (to_script_pubkey out)) rune (Increment amount))
          (or_empty (utxo_runes ctx op)))
       [] (bl_txdata block)"

definition balances_by_rune_id_reduce :: "BitcoinCrate \<Rightarrow> RuntimePolicy \<Rightarrow> Block \<Rightarrow> BlockContext \<Rightarrow> PolyError + ReducerOutput list" where
  "balances_by_rune_id_reduce B policy block ctx =
     reduce_txos B
       (\<lambda>input. case utxo_runes ctx input of None \<Rightarrow> Inr []
          | Some runes \<Rightarrow> with_utxo policy ctx input (\<lambda>u.
              map (\<lambda>(rune, amount). Out_BalancesByRuneId rune (bc_script_hash B (to_script_pubkey (cu_txo u))) (Decrement amount)) runes))
       (\<lambda>op out. map (\<lambda>(rune, amount). Out_BalancesByRuneId rune (bc_script_hash B (to_script_pubkey out)) (Increment amount))
          (or_empty (utxo_runes ctx op)))
       [] (bl_txdata block)"

section \<open>Scripts and transactions\<close>

definition script_by_script_hash_reduce :: "BitcoinCrate \<Rightarrow> Block \<Rightarrow> PolyError + ReducerOutput list" where
  "script_by_script_hash_reduce B block =
     Inr (concat (map (\<lambda>tx. map (\<lambda>out. Out_ScriptByScriptHash (bc_script_hash B (to_script_pubkey out)) (to_script_pubkey out)) (tx_output tx))
       (bl_txdata block)))"

text \<open>The script of the address made from a script, if there is one: a function of the Bitcoin library.\<close>

definition script_hash_by_address_payload_hash_reduce ::
  "BitcoinCrate \<Rightarrow> (bytes \<Rightarrow> bytes option) \<Rightarrow> Block \<Rightarrow> PolyError + ReducerOutput list" where
  "script_hash_by_address_payload_hash_reduce B address_script block =
     Inr (concat (map (\<lambda>tx. concat (map (\<lambda>out. case address_script (to_script_pubkey out) of None \<Rightarrow> []
          | Some s \<Rightarrow> [Out_ScriptHashByAddressPayloadHash (bc_script_hash B s) (bc_script_hash B (to_script_pubkey out))]) (tx_output tx)))
       (bl_txdata block)))"

datatype TxInvolvement = TxInput | TxOutput

text \<open>The scripts of a transaction with their involvements; a missing input that the policy skips is left out.\<close>

definition tx_involvements :: "BitcoinCrate \<Rightarrow> RuntimePolicy \<Rightarrow> BlockContext \<Rightarrow> Transaction \<Rightarrow> PolyError + (bytes \<times> TxInvolvement list) list" where
  "tx_involvements B policy ctx tx =
     and_then (if tx_is_coinbase B tx then Inr [] else try_concat (\<lambda>input.
         and_then (apply_policy (find_utxo ctx input) policy) (\<lambda>u.
           Inr (case u of None \<Rightarrow> [] | Some u \<Rightarrow> [(bc_script_hash B (to_script_pubkey (cu_txo u)), TxInput)]))) (tx_spent tx)) (\<lambda>ins.
       Inr (fold (\<lambda>(h, v). push_at h v)
         (ins @ map (\<lambda>out. (bc_script_hash B (to_script_pubkey out), TxOutput)) (tx_output tx)) []))"

definition txs_by_script_hash_reduce :: "BitcoinCrate \<Rightarrow> RuntimePolicy \<Rightarrow> u64 \<Rightarrow> Block \<Rightarrow> BlockContext \<Rightarrow> PolyError + ReducerOutput list" where
  "txs_by_script_hash_reduce B policy height block ctx =
     try_concat (\<lambda>(tx_idx, tx).
       and_then (tx_involvements B policy ctx tx) (\<lambda>seen.
         Inr (map (\<lambda>(script_hash, acts). Out_TxsByScriptHash script_hash height (bc_txid B tx) (word_of_nat tx_idx)
           (TxInput \<in> set acts) (TxOutput \<in> set acts)) seen)))
       (List.enumerate 0 (bl_txdata block))"

section \<open>Dunes\<close>

definition etched_txs :: "BitcoinCrate \<Rightarrow> Block \<Rightarrow> BlockContext \<Rightarrow> (nat \<times> Transaction \<times> Dunestone \<times> Etching) list" where
  "etched_txs B block ctx =
     concat (map (\<lambda>(idx, tx).
       if word_of_nat idx \<notin> set (map fst (bx_etches ctx)) then []
       else (case dunestone_from_transaction B tx of None \<Rightarrow> []
         | Some d \<Rightarrow> (case ds_etching d of None \<Rightarrow> [] | Some e \<Rightarrow> [(idx, tx, d, e)])))
       (List.enumerate 0 (bl_txdata block)))"

text \<open>The names by transaction; of several for one transaction the last counts.\<close>

definition etch_names :: "BlockContext \<Rightarrow> u32 \<rightharpoonup> u128" where
  "etch_names ctx = map_of (rev (bx_etches ctx))"

definition etching_info :: "u128 option \<Rightarrow> bool \<Rightarrow> Etching \<Rightarrow> EtchingInfo" where
  "etching_info name cenotaph etch =
     (if cenotaph then
        \<lparr>ei_name = name, ei_spacers = Some 0, ei_symbol = None, ei_divisibility = Some 0, ei_max_mint_txs = None,
         ei_amount_per_mint = None, ei_start_height = None, ei_end_height = None, ei_start_offset = None,
         ei_end_offset = None, ei_turbo = False\<rparr>
      else
        let terms = (\<lambda>f. Option.bind (et_terms etch) f) in
        \<lparr>ei_name = name, ei_spacers = et_spacers etch, ei_symbol = et_symbol etch, ei_divisibility = et_divisibility etch,
         ei_max_mint_txs = Option.bind (et_terms etch) tm_cap, ei_amount_per_mint = Option.bind (et_terms etch) tm_limit,
         ei_start_height = terms (fst \<circ> tm_height), ei_end_height = terms (snd \<circ> tm_height),
         ei_start_offset = terms (fst \<circ> tm_offset), ei_end_offset = terms (snd \<circ> tm_offset), ei_turbo = et_turbo etch\<rparr>)"

definition etching_by_rune_id_reduce :: "BitcoinCrate \<Rightarrow> u64 \<Rightarrow> Block \<Rightarrow> BlockContext \<Rightarrow> PolyError + ReducerOutput list" where
  "etching_by_rune_id_reduce B height block ctx =
     Inr (map (\<lambda>(idx, tx, d, e). Out_EtchingByRuneId (height, word_of_nat idx) (bc_txid B tx)
       (etching_info (etch_names ctx (word_of_nat idx)) (ds_cenotaph d) e) (ds_cenotaph d)) (etched_txs B block ctx))"

definition rune_id_by_rune_name_reduce :: "BitcoinCrate \<Rightarrow> u64 \<Rightarrow> Block \<Rightarrow> BlockContext \<Rightarrow> PolyError + ReducerOutput list" where
  "rune_id_by_rune_name_reduce B height block ctx =
     Inr (concat (map (\<lambda>(idx, tx, d, e). case etch_names ctx (word_of_nat idx) of None \<Rightarrow> []
       | Some n \<Rightarrow> [Out_RuneIdByRuneName n (height, word_of_nat idx)]) (etched_txs B block ctx)))"

definition minted_ids :: "BitcoinCrate \<Rightarrow> BlockContext \<Rightarrow> nat \<times> Transaction \<Rightarrow> DuneId list" where
  "minted_ids B ctx x =
     (if word_of_nat (fst x) \<notin> set (map fst (bx_mints ctx)) then []
      else case dunestone_from_transaction B (snd x) of None \<Rightarrow> []
        | Some d \<Rightarrow>
          if ds_cenotaph d then []
          else concat (map (\<lambda>(edict_idx, i). case dune_id_try_from i of None \<Rightarrow> []
            | Some key \<Rightarrow> if (word_of_nat (fst x), word_of_nat edict_idx) \<in> set (bx_mints ctx) then [key] else [])
            (List.enumerate 0 (dune_claims d))))"

definition mints_by_rune_id_reduce :: "BitcoinCrate \<Rightarrow> Block \<Rightarrow> BlockContext \<Rightarrow> PolyError + ReducerOutput list" where
  "mints_by_rune_id_reduce B block ctx =
     Inr (concat (map (\<lambda>x. map (\<lambda>key. Out_MintsByRuneId (di_height key, di_index key)) (minted_ids B ctx x))
       (List.enumerate 0 (bl_txdata block))))"

section \<open>Inscriptions and BRC-20\<close>

definition content_by_inscription_id_reduce :: "BitcoinCrate \<Rightarrow> u64 \<Rightarrow> Block \<Rightarrow> BlockContext \<Rightarrow> PolyError + ReducerOutput list" where
  "content_by_inscription_id_reduce B height block ctx =
     Inr (concat (map (\<lambda>tx. case new_inscriptions ctx (bc_txid B tx) of None \<Rightarrow> []
       | Some (i, num, ctype, body) \<Rightarrow> [Out_ContentByInscriptionId (insc_ref i) height num ctype body]) (bl_txdata block)))"

text \<open>The messages of an inscription that a transaction holds completely; those of inscriptions spread over several are not looked up.\<close>

definition own_inscription :: "BitcoinCrate \<Rightarrow> Transaction \<Rightarrow> InscriptionId" where
  "own_inscription B tx = \<lparr>ii_txid = bc_txid B tx, ii_index = 0\<rparr>"

definition own_messages :: "BitcoinCrate \<Rightarrow> BlockContext \<Rightarrow> Transaction \<Rightarrow> (Inscription \<times> BRC20Message) list" where
  "own_messages B ctx tx =
     (case from_transactions [tx] of
        Some (Complete inscription) \<Rightarrow> map (Pair inscription) (or_empty (inscription_brc20s ctx (own_inscription B tx)))
      | _ \<Rightarrow> [])"

text \<open>The transfers an input uses: the first spend of the inscription.\<close>

definition used_transfers :: "BlockContext \<Rightarrow> OutPoint \<Rightarrow> (InscriptionId \<times> bytes \<times> u128 \<times> bytes) list" where
  "used_transfers ctx input =
     concat (map (\<lambda>(_, i). concat (map (\<lambda>m. case m of
         Transfer tick amt op receiver \<Rightarrow> if op = input then [(i, tick, amt, receiver)] else [] | _ \<Rightarrow> [])
       (or_empty (inscription_brc20s ctx i)))) (or_empty (utxo_inscriptions ctx input)))"

definition brc20_tx ::
  "BitcoinCrate \<Rightarrow> RuntimePolicy \<Rightarrow> BlockContext \<Rightarrow> (bytes \<Rightarrow> bytes \<times> u128 \<times> bytes \<Rightarrow> ReducerOutput list) \<Rightarrow>
   (BRC20Message \<Rightarrow> ReducerOutput list) \<Rightarrow> Transaction \<Rightarrow> PolyError + ReducerOutput list" where
  "brc20_tx B policy ctx transfer message tx =
     and_then (if tx_is_coinbase B tx then Inr []
       else try_concat (\<lambda>input. case utxo_inscriptions ctx input of None \<Rightarrow> Inr []
         | Some _ \<Rightarrow> with_utxo policy ctx input (\<lambda>u. concat (map (\<lambda>(_, t). transfer (bc_script_hash B (to_script_pubkey (cu_txo u))) t)
             (used_transfers ctx input)))) (tx_spent tx)) (\<lambda>outs.
       Inr (outs @ concat (map (\<lambda>(_, m). message m) (own_messages B ctx tx))))"

definition balances_by_brc20_reduce :: "BitcoinCrate \<Rightarrow> RuntimePolicy \<Rightarrow> Block \<Rightarrow> BlockContext \<Rightarrow> PolyError + ReducerOutput list" where
  "balances_by_brc20_reduce B policy block ctx =
     try_concat (brc20_tx B policy ctx
       (\<lambda>sender (tick, amt, receiver). [Out_BalancesByBrc20 tick sender (Decrement amt), Out_BalancesByBrc20 tick receiver (Increment amt)])
       (\<lambda>m. case m of Mint tick amt receiver \<Rightarrow> [Out_BalancesByBrc20 tick receiver (Increment amt)] | _ \<Rightarrow> []))
       (bl_txdata block)"

definition brc20_balances_by_script_hash_reduce :: "BitcoinCrate \<Rightarrow> RuntimePolicy \<Rightarrow> Block \<Rightarrow> BlockContext \<Rightarrow> PolyError + ReducerOutput list" where
  "brc20_balances_by_script_hash_reduce B policy block ctx =
     try_concat (brc20_tx B policy ctx
       (\<lambda>sender (tick, amt, receiver).
          [Out_Brc20BalancesByScriptHash sender tick (Decrement amt) (Increment 0),
           Out_Brc20BalancesByScriptHash receiver tick (Increment amt) (Increment amt)])
       (\<lambda>m. case m of
          Mint tick amt receiver \<Rightarrow> [Out_Brc20BalancesByScriptHash receiver tick (Increment amt) (Increment amt)]
        | TransferInit tick amt receiver \<Rightarrow> [Out_Brc20BalancesByScriptHash receiver tick (Increment 0) (Decrement amt)]
        | _ \<Rightarrow> []))
       (bl_txdata block)"

definition deploy_output :: "BitcoinCrate \<Rightarrow> TextCrate \<Rightarrow> Transaction \<Rightarrow> Inscription \<times> BRC20Message \<Rightarrow> PolyError + ReducerOutput list" where
  "deploy_output B T tx x =
     (case snd x of
        Deploy _ \<Rightarrow>
          (case unparsed_message T (fst x) of None \<Rightarrow> Inr []
           | Some raw \<Rightarrow>
             (case deploy_parse T raw of
                None \<Rightarrow> Inl (OtherError ''panic'')
              | Some None \<Rightarrow> Inr []
              | Some (Some d) \<Rightarrow> Inr [Out_Brc20TermsByTicker (dp_ticker d) (dp_max d) (dp_limit d) (dp_dec d) (dp_self_mint d) (bc_txid B tx, 0)]))
      | _ \<Rightarrow> Inr [])"

definition brc20_terms_by_ticker_reduce :: "BitcoinCrate \<Rightarrow> TextCrate \<Rightarrow> Block \<Rightarrow> BlockContext \<Rightarrow> PolyError + ReducerOutput list" where
  "brc20_terms_by_ticker_reduce B T block ctx =
     try_concat (\<lambda>tx. try_concat (deploy_output B T tx) (own_messages B ctx tx)) (bl_txdata block)"

text \<open>The output that has a new transfer inscription, with its offset: the first one.\<close>

definition find_output :: "BitcoinCrate \<Rightarrow> BlockContext \<Rightarrow> Transaction \<Rightarrow> (OutPoint \<times> TxOut \<times> u32) option" where
  "find_output B ctx tx =
     (case concat (map (\<lambda>(op, out). map (\<lambda>(offset, _). (op, out, offset))
         (filter (\<lambda>(_, i). i = own_inscription B tx) (or_empty (utxo_inscriptions ctx op)))) (tx_made B tx)) of
        [] \<Rightarrow> None | x # _ \<Rightarrow> Some x)"

definition transfer_inits :: "BitcoinCrate \<Rightarrow> u64 \<Rightarrow> BlockContext \<Rightarrow> Transaction \<Rightarrow> ReducerOutput list" where
  "transfer_inits B height ctx tx =
     concat (map (\<lambda>m. case m of
         TransferInit tick amt receiver \<Rightarrow>
           (case find_output B ctx tx of None \<Rightarrow> []
            | Some (op, out, offset) \<Rightarrow>
              [Out_TransferInscriptionsByScriptHash receiver tick (bc_txid B tx, 0) (Produced (amt, to_value out, txo_ref op, offset, height))])
       | _ \<Rightarrow> []) (or_empty (inscription_brc20s ctx (own_inscription B tx))))"

definition transfer_inscriptions_by_script_hash_reduce :: "BitcoinCrate \<Rightarrow> RuntimePolicy \<Rightarrow> u64 \<Rightarrow> Block \<Rightarrow> BlockContext \<Rightarrow> PolyError + ReducerOutput list" where
  "transfer_inscriptions_by_script_hash_reduce B policy height block ctx =
     try_concat (\<lambda>tx.
       and_then (if tx_is_coinbase B tx then Inr []
         else try_concat (\<lambda>input. if used_transfers ctx input = [] then Inr []
           else with_utxo policy ctx input (\<lambda>u. map (\<lambda>(i, tick, _, _).
             Out_TransferInscriptionsByScriptHash (bc_script_hash B (to_script_pubkey (cu_txo u))) tick (insc_ref i) Consumed)
             (used_transfers ctx input))) (tx_spent tx)) (\<lambda>outs.
         Inr (outs @ transfer_inits B height ctx tx))) (bl_txdata block)"

section \<open>The stage\<close>

datatype StageReducer =
    R_BalancesByBrc20 RuntimePolicy
  | R_BalancesByRuneId RuntimePolicy
  | R_Brc20BalancesByScriptHash RuntimePolicy
  | R_Brc20TermsByTicker
  | R_EtchingByRuneId
  | R_InscriptionUtxosByScriptHash RuntimePolicy
  | R_ContentByInscriptionId
  | R_InscriptionsByScriptHash RuntimePolicy
  | R_InscriptionsByUtxo
  | R_MintsByRuneId
  | R_RuneBalancesByScriptHash RuntimePolicy
  | R_RuneIdByRuneName
  | R_RunesByUtxo
  | R_SatBalanceByScriptHash RuntimePolicy
  | R_ScriptByScriptHash
  | R_ScriptHashByAddressPayloadHash
  | R_TransferInscriptionsByScriptHash RuntimePolicy
  | R_TxsByScriptHash RuntimePolicy
  | R_UtxosByRuneId RuntimePolicy
  | R_UtxosByScriptHash RuntimePolicy

fun reducer_reduce_block :: "Crates \<Rightarrow> (bytes \<Rightarrow> bytes option) \<Rightarrow> u64 \<Rightarrow> Block \<Rightarrow> BlockContext \<Rightarrow> StageReducer \<Rightarrow> PolyError + ReducerOutput list" where
  "reducer_reduce_block C A h b x (R_BalancesByBrc20 p) = balances_by_brc20_reduce (cr_bitcoin C) p b x"
| "reducer_reduce_block C A h b x (R_BalancesByRuneId p) = balances_by_rune_id_reduce (cr_bitcoin C) p b x"
| "reducer_reduce_block C A h b x (R_Brc20BalancesByScriptHash p) = brc20_balances_by_script_hash_reduce (cr_bitcoin C) p b x"
| "reducer_reduce_block C A h b x R_Brc20TermsByTicker = brc20_terms_by_ticker_reduce (cr_bitcoin C) (cr_text C) b x"
| "reducer_reduce_block C A h b x R_EtchingByRuneId = etching_by_rune_id_reduce (cr_bitcoin C) h b x"
| "reducer_reduce_block C A h b x (R_InscriptionUtxosByScriptHash p) = inscription_utxos_by_script_hash_reduce (cr_bitcoin C) p h b x"
| "reducer_reduce_block C A h b x R_ContentByInscriptionId = content_by_inscription_id_reduce (cr_bitcoin C) h b x"
| "reducer_reduce_block C A h b x (R_InscriptionsByScriptHash p) = inscriptions_by_script_hash_reduce (cr_bitcoin C) p h b x"
| "reducer_reduce_block C A h b x R_InscriptionsByUtxo = inscriptions_by_utxo_reduce (cr_bitcoin C) b x"
| "reducer_reduce_block C A h b x R_MintsByRuneId = mints_by_rune_id_reduce (cr_bitcoin C) b x"
| "reducer_reduce_block C A h b x (R_RuneBalancesByScriptHash p) = rune_balances_by_script_hash_reduce (cr_bitcoin C) p b x"
| "reducer_reduce_block C A h b x R_RuneIdByRuneName = rune_id_by_rune_name_reduce (cr_bitcoin C) h b x"
| "reducer_reduce_block C A h b x R_RunesByUtxo = runes_by_utxo_reduce (cr_bitcoin C) b x"
| "reducer_reduce_block C A h b x (R_SatBalanceByScriptHash p) = sat_balance_by_script_hash_reduce (cr_bitcoin C) p b x"
| "reducer_reduce_block C A h b x R_ScriptByScriptHash = script_by_script_hash_reduce (cr_bitcoin C) b"
| "reducer_reduce_block C A h b x R_ScriptHashByAddressPayloadHash = script_hash_by_address_payload_hash_reduce (cr_bitcoin C) A b"
| "reducer_reduce_block C A h b x (R_TransferInscriptionsByScriptHash p) = transfer_inscriptions_by_script_hash_reduce (cr_bitcoin C) p h b x"
| "reducer_reduce_block C A h b x (R_TxsByScriptHash p) = txs_by_script_hash_reduce (cr_bitcoin C) p h b x"
| "reducer_reduce_block C A h b x (R_UtxosByRuneId p) = utxos_by_rune_id_reduce (cr_bitcoin C) p h b x"
| "reducer_reduce_block C A h b x (R_UtxosByScriptHash p) = utxos_by_script_hash_reduce (cr_bitcoin C) p h b x"

record ReducerWorker =
  rw_reducers :: "StageReducer list"
  rw_last_processed :: "bytes option"

text \<open>A block whose predecessor is not the last block processed is only reported.\<close>

definition worker_reduce_block ::
  "Crates \<Rightarrow> (bytes \<Rightarrow> bytes option) \<Rightarrow> u64 \<Rightarrow> Point \<Rightarrow> bytes \<Rightarrow> BlockContext \<Rightarrow> bool \<Rightarrow> ReducerWorker \<Rightarrow>
   PolyError + StorageActionPayload \<times> ReducerWorker" where
  "worker_reduce_block C A now point raw ctx mutable w =
     (case cr_decode_block C raw of None \<Rightarrow> Inl (OtherError ''encoding'')
      | Some block \<Rightarrow>
        and_then (try_concat (reducer_reduce_block C A (pt_height point) block ctx) (rw_reducers w)) (\<lambda>outputs.
          Inr (Tikv_Worker.RollForward point (outputs @ [Out_Cursor point False now]) mutable False,
            w\<lparr>rw_last_processed := Some (pt_hash point)\<rparr>)))"

fun worker_execute ::
  "Crates \<Rightarrow> (bytes \<Rightarrow> bytes option) \<Rightarrow> u64 \<Rightarrow> EnrichedBlockPayload \<Rightarrow> ReducerWorker \<Rightarrow> PolyError + StorageActionPayload \<times> ReducerWorker" where
  "worker_execute C A now (EnrichedForward point raw ctx mutable) w = worker_reduce_block C A now point raw ctx mutable w"
| "worker_execute C A now (EnrichedBack point mutable) w =
     Inr (Tikv_Worker.RollBack point mutable, w\<lparr>rw_last_processed := Some (pt_hash point)\<rparr>)"

end
