(* ===== verification/Mapi_Scan.thy ===== *)
theory Mapi_Scan
  imports Timbre_Schema
begin

text \<open>
  Reading the tables (\<open>services/mapi-xdg/src/polyphony.rs\<close>, \<open>error.rs\<close>): a snapshot of the store,
  the value at a key of a reducer, and the scanner that fetches the entries of a key range batch by
  batch. The TiKV snapshot is a parameter: the functions it offers, with the law that it answers from a
  fixed finite map of (not empty) keys to values, a scan with the first entries of its range in the order asked
  for, unless the answer is larger than a message may be.

  The loops of the scanner may run forever (a single entry that is too large is asked for again and
  again): they are partial functions, and not returning is \<open>None\<close>. The lemmas show that they return
  when single entries fit in a message, and what they return. A panic while decoding is the error
  \<open>MalformedData\<close> with the cause \<open>Panicked\<close>.
\<close>

section \<open>Errors\<close>

text \<open>Errors of other crates are kept as text.\<close>

datatype MapiError =
    Io string | Bitcoin string | InvalidHex string | Hex string | Encode string | Json string
  | Internal string | NotFound | MalformedRequest string | TiKV string | MissingData bytes
  | MalformedData bytes "TimbreError option" | Http string | Rpc string
  | GenerateOpenApiIsUnexpected

fun response_status :: "MapiError \<Rightarrow> nat" where
  "response_status NotFound = 404"
| "response_status (InvalidHex e) = 400"
| "response_status (MalformedRequest e) = 400"
| "response_status (Rpc e) = 400"
| "response_status _ = 500"

type_synonym 'a mapi = "(MapiError + 'a) option"

fun mapi_bind :: "'a mapi \<Rightarrow> ('a \<Rightarrow> 'b mapi) \<Rightarrow> 'b mapi" where
  "mapi_bind None f = None"
| "mapi_bind (Some (Inl e)) f = Some (Inl e)"
| "mapi_bind (Some (Inr x)) f = f x"

definition mapi_ok :: "'a \<Rightarrow> 'a mapi" where
  "mapi_ok x = Some (Inr x)"

definition mapi_err :: "MapiError \<Rightarrow> 'a mapi" where
  "mapi_err e = Some (Inl e)"

fun mapi_map :: "('a \<Rightarrow> 'b mapi) \<Rightarrow> 'a list \<Rightarrow> 'b list mapi" where
  "mapi_map f [] = mapi_ok []"
| "mapi_map f (x # xs) = mapi_bind (f x) (\<lambda>y. mapi_bind (mapi_map f xs) (\<lambda>ys. mapi_ok (y # ys)))"

lemma mapi_simps [simp]:
  "mapi_bind (mapi_ok x) f = f x" "mapi_bind (mapi_err e) f = mapi_err e"
  "mapi_ok x = mapi_ok y \<longleftrightarrow> x = y" "mapi_err e = mapi_err e' \<longleftrightarrow> e = e'" "mapi_ok x \<noteq> mapi_err e" "mapi_err e \<noteq> mapi_ok x"
  by (auto simp: mapi_ok_def mapi_err_def)

lemma mapi_folds: "Some (Inr x) = mapi_ok x" "Some (Inl e) = mapi_err e"
  by (simp_all add: mapi_ok_def mapi_err_def)

lemma mapi_cases [case_names no_answer error ok]:
  obtains "r = None" | e where "r = mapi_err e" | x where "r = mapi_ok x"
  using that unfolding mapi_ok_def mapi_err_def by (metis not_Some_eq sumE)

lemma mapi_bind_ok_iff: "mapi_bind r f = mapi_ok y \<longleftrightarrow> (\<exists>x. r = mapi_ok x \<and> f x = mapi_ok y)"
  by (cases "(r, f)" rule: mapi_bind.cases) (auto simp: mapi_ok_def mapi_err_def)

lemma mapi_map_ok: "(\<And>x. x \<in> set xs \<Longrightarrow> f x = mapi_ok (g x)) \<Longrightarrow> mapi_map f xs = mapi_ok (map g xs)"
  by (induction xs) auto

section \<open>The snapshot\<close>

datatype ScanFault = MessageTooLarge | ScanFailed string

record Snapshot =
  sn_get :: "bytes \<Rightarrow> string + bytes option"
  sn_scan :: "key_range \<Rightarrow> u32 \<Rightarrow> ScanFault + (bytes \<times> bytes) list"
  sn_scan_reverse :: "key_range \<Rightarrow> u32 \<Rightarrow> ScanFault + (bytes \<times> bytes) list"
  sn_scan_keys :: "key_range \<Rightarrow> u32 \<Rightarrow> ScanFault + bytes list"
  sn_scan_keys_reverse :: "key_range \<Rightarrow> u32 \<Rightarrow> ScanFault + bytes list"

definition range_keys :: "(bytes \<rightharpoonup> bytes) \<Rightarrow> key_range \<Rightarrow> bytes list" where
  "range_keys db r = sorted_list_of_set {k \<in> dom db. in_range r k}"

definition with_values :: "(bytes \<rightharpoonup> bytes) \<Rightarrow> bytes list \<Rightarrow> (bytes \<times> bytes) list" where
  "with_values db ks = map (\<lambda>k. (k, the (db k))) ks"

definition answers :: "(key_range \<Rightarrow> u32 \<Rightarrow> ScanFault + 'p list) \<Rightarrow> (key_range \<Rightarrow> 'p list) \<Rightarrow> bool" where
  "answers f xs \<longleftrightarrow> (\<forall>r n. f r n = Inr (take (unat n) (xs r)) \<or> f r n = Inl MessageTooLarge \<and> 1 < n)"

definition snapshot_of :: "(bytes \<rightharpoonup> bytes) \<Rightarrow> Snapshot \<Rightarrow> bool" where
  "snapshot_of db S \<longleftrightarrow> finite (dom db) \<and> [] \<notin> dom db \<and> (\<forall>k. sn_get S k = Inr (db k)) \<and>
     answers (sn_scan S) (\<lambda>r. with_values db (range_keys db r)) \<and>
     answers (sn_scan_reverse S) (\<lambda>r. with_values db (rev (range_keys db r))) \<and>
     answers (sn_scan_keys S) (range_keys db) \<and>
     answers (sn_scan_keys_reverse S) (\<lambda>r. rev (range_keys db r))"

record LastUpdated =
  lu_block_hash :: bytes
  lu_block_height :: u64

definition decode_to :: "'a decoder \<Rightarrow> bytes \<Rightarrow> MapiError + 'a" where
  "decode_to d bs = (case d bs of Inl e \<Rightarrow> Inl (MalformedData bs (Some e)) | Inr (x, rest) \<Rightarrow> Inr x)"

definition get_last_updated :: "Snapshot \<Rightarrow> Namespace \<Rightarrow> MapiError + LastUpdated" where
  "get_last_updated S encoder =
     (case sn_get S (prefix_cursor encoder) of
        Inl e \<Rightarrow> Inl (TiKV e)
      | Inr None \<Rightarrow> Inl (MissingData (prefix_cursor encoder))
      | Inr (Some cursor_bytes) \<Rightarrow>
          and_then (decode_to (decode_pair decode_int (decode_array 32)) cursor_bytes) (\<lambda>(block_height, block_hash).
          Inr \<lparr>lu_block_hash = block_hash, lu_block_height = block_height\<rparr>))"

definition get_reducer_key_maybe ::
  "Snapshot \<Rightarrow> Namespace \<Rightarrow> Reducer \<Rightarrow> bytes \<Rightarrow> 'b decoder \<Rightarrow> MapiError + 'b option" where
  "get_reducer_key_maybe S encoder reducer key d =
     (case sn_get S (prefix_data encoder reducer key) of
        Inl e \<Rightarrow> Inl (TiKV e)
      | Inr None \<Rightarrow> Inr None
      | Inr (Some v) \<Rightarrow> and_then (decode_to d v) (\<lambda>x. Inr (Some x)))"

definition get_reducer_key ::
  "Snapshot \<Rightarrow> Namespace \<Rightarrow> Reducer \<Rightarrow> bytes \<Rightarrow> 'b decoder \<Rightarrow> MapiError + 'b" where
  "get_reducer_key S encoder reducer key d =
     and_then (get_reducer_key_maybe S encoder reducer key d) (\<lambda>v. case v of
       None \<Rightarrow> Inl (MissingData (prefix_data encoder reducer key)) | Some x \<Rightarrow> Inr x)"

section \<open>The scanner\<close>

datatype OrderParam = Asc | Desc

record Scanner =
  scn_range :: key_range
  scn_order :: OrderParam
  scn_count :: "nat option"

definition scanner_new :: "key_range \<Rightarrow> Scanner" where
  "scanner_new r = \<lparr>scn_range = r, scn_order = Asc, scn_count = None\<rparr>"

definition scanner_order :: "OrderParam \<Rightarrow> Scanner \<Rightarrow> Scanner" where
  "scanner_order order self = self\<lparr>scn_order := order\<rparr>"

definition scanner_count :: "nat \<Rightarrow> Scanner \<Rightarrow> Scanner" where
  "scanner_count count self = self\<lparr>scn_count := Some count\<rparr>"

definition KV_SCAN_BATCH_SIZE :: u32 where "KV_SCAN_BATCH_SIZE = 1000"

text \<open>The inner loop over a batch: it stops with \<open>True\<close> when enough entries are kept.\<close>

fun keep_entries ::
  "('p \<Rightarrow> MapiError + 'a option) \<Rightarrow> nat option \<Rightarrow> 'p list \<Rightarrow> 'a list \<Rightarrow> MapiError + bool \<times> 'a list" where
  "keep_entries f lim [] kvs = Inr (False, kvs)"
| "keep_entries f lim (p # ps) kvs =
     and_then (f p) (\<lambda>x. case x of
       None \<Rightarrow> keep_entries f lim ps kvs
     | Some y \<Rightarrow>
         if (case lim of None \<Rightarrow> False | Some m \<Rightarrow> m \<le> length (kvs @ [y])) then Inr (True, kvs @ [y])
         else keep_entries f lim ps (kvs @ [y]))"

definition remaining_range :: "OrderParam \<Rightarrow> key_range \<Rightarrow> bytes \<Rightarrow> key_range" where
  "remaining_range order r last_key =
     (case order of Asc \<Rightarrow> (last_key @ [0], snd r) | Desc \<Rightarrow> (fst r, last_key))"

partial_function (option) scan_loop ::
  "(key_range \<Rightarrow> u32 \<Rightarrow> ScanFault + 'p list) \<Rightarrow> ('p \<Rightarrow> bytes) \<Rightarrow> OrderParam \<Rightarrow>
   ('p list \<Rightarrow> 'a list \<Rightarrow> MapiError + bool \<times> 'a list) \<Rightarrow> key_range \<Rightarrow> u32 \<Rightarrow> 'a list \<Rightarrow> 'a list mapi" where
  "scan_loop fetch key order body range_remaining scan_size kvs =
     (case fetch range_remaining scan_size of
        Inl MessageTooLarge \<Rightarrow> scan_loop fetch key order body range_remaining (max (scan_size div 2) 1) kvs
      | Inl (ScanFailed e) \<Rightarrow> Some (Inl (TiKV e))
      | Inr kvs_vec \<Rightarrow>
          if kvs_vec = [] then Some (Inr kvs)
          else (case body kvs_vec kvs of
             Inl e \<Rightarrow> Some (Inl e)
           | Inr (stop, kvs) \<Rightarrow>
               if stop \<or> (of_nat (length kvs_vec) :: u32) < scan_size then Some (Inr kvs)
               else scan_loop fetch key order body (remaining_range order range_remaining (key (last kvs_vec)))
                      scan_size kvs))"

definition key_body :: "bytes \<Rightarrow> MapiError + bytes" where
  "key_body k = (if length k < 5 then Inl (MalformedData k None) else Inr (drop 5 k))"

definition read_key :: "'k decoder \<Rightarrow> bytes \<Rightarrow> MapiError + 'k" where
  "read_key dk k = and_then (key_body k) (decode_to dk)"

definition read_entry :: "'k decoder \<Rightarrow> 'v decoder \<Rightarrow> bytes \<times> bytes \<Rightarrow> MapiError + 'k \<times> 'v" where
  "read_entry dk dv kv =
     and_then (read_key dk (fst kv)) (\<lambda>key. and_then (decode_to dv (snd kv)) (\<lambda>v. Inr (key, v)))"

definition truncate_to :: "nat option \<Rightarrow> 'a list \<Rightarrow> 'a list" where
  "truncate_to lim xs = (case lim of None \<Rightarrow> xs | Some m \<Rightarrow> take m xs)"

definition execute_keys_only :: "'k decoder \<Rightarrow> Snapshot \<Rightarrow> Scanner \<Rightarrow> 'k list mapi" where
  "execute_keys_only dk S self =
     mapi_bind (scan_loop (case scn_order self of Asc \<Rightarrow> sn_scan_keys S | Desc \<Rightarrow> sn_scan_keys_reverse S) id (scn_order self)
        (keep_entries (\<lambda>k. and_then (read_key dk k) (\<lambda>x. Inr (Some x))) (scn_count self)) (scn_range self)
        (of_nat (case scn_count self of None \<Rightarrow> 1000 | Some c \<Rightarrow> c)) [])
      (\<lambda>ks. mapi_ok (truncate_to (scn_count self) ks))"

definition retain :: "('p \<Rightarrow> bool) option \<Rightarrow> 'p list \<Rightarrow> 'p list" where
  "retain filter_fn xs = (case filter_fn of None \<Rightarrow> xs | Some f \<Rightarrow> filter f xs)"

definition execute_with_filter ::
  "'k decoder \<Rightarrow> 'v decoder \<Rightarrow> Snapshot \<Rightarrow> (bytes \<times> bytes \<Rightarrow> bool) option \<Rightarrow> Scanner \<Rightarrow> ('k \<times> 'v) list mapi" where
  "execute_with_filter dk dv S filter_fn self =
     (let scan_size = (if filter_fn = None then (case scn_count self of None \<Rightarrow> KV_SCAN_BATCH_SIZE | Some c \<Rightarrow> of_nat c)
            else KV_SCAN_BATCH_SIZE)
      in mapi_bind (scan_loop (case scn_order self of Asc \<Rightarrow> sn_scan S | Desc \<Rightarrow> sn_scan_reverse S) fst (scn_order self)
        (\<lambda>kvs_vec. keep_entries (\<lambda>kv. and_then (read_entry dk dv kv) (\<lambda>x. Inr (Some x))) (scn_count self)
           (retain filter_fn kvs_vec)) (scn_range self) scan_size [])
      (\<lambda>kvs. mapi_ok (truncate_to (scn_count self) kvs)))"

definition scanner_execute :: "'k decoder \<Rightarrow> 'v decoder \<Rightarrow> Snapshot \<Rightarrow> Scanner \<Rightarrow> ('k \<times> 'v) list mapi" where
  "scanner_execute dk dv S self = execute_with_filter dk dv S None self"

text \<open>Keys of unspent outputs: script hash, height, transaction and index.\<close>

type_synonym utxo_entry = "(bytes \<times> u64 \<times> bytes \<times> u32) \<times> u64"

definition non_metaprotocol ::
  "Snapshot \<Rightarrow> Namespace \<Rightarrow> Namespace \<Rightarrow> bytes \<times> bytes \<Rightarrow> MapiError + utxo_entry option" where
  "non_metaprotocol S runes_by_utxo_encoder inscriptions_by_utxo_encoder kv =
     and_then (read_entry (sc_dec utxos_by_script_hash_Key) (sc_dec utxos_by_script_hash_Value) kv) (\<lambda>(key, v).
     case key of (_, _, utxo_hash, utxo_index) \<Rightarrow>
     and_then (get_reducer_key_maybe S runes_by_utxo_encoder RunesByUtxo
        (sc_enc runes_by_utxo_Key (utxo_hash, utxo_index)) (sc_dec runes_by_utxo_Value)) (\<lambda>dunes.
     and_then (get_reducer_key_maybe S inscriptions_by_utxo_encoder InscriptionsByUtxo
        (sc_enc inscriptions_by_utxo_Key (utxo_hash, utxo_index)) (sc_dec inscriptions_by_utxo_Value)) (\<lambda>inscriptions.
     Inr (if dunes = None \<and> inscriptions = None then Some (key, v) else None))))"

definition get_non_metaprotocol_utxos ::
  "Snapshot \<Rightarrow> (bytes \<times> bytes \<Rightarrow> bool) option \<Rightarrow> Namespace \<Rightarrow> Namespace \<Rightarrow> Scanner \<Rightarrow> utxo_entry list mapi" where
  "get_non_metaprotocol_utxos S filter_fn runes_by_utxo_encoder inscriptions_by_utxo_encoder self =
     mapi_bind (scan_loop (case scn_order self of Asc \<Rightarrow> sn_scan S | Desc \<Rightarrow> sn_scan_reverse S) fst (scn_order self)
        (\<lambda>kvs_vec. keep_entries (non_metaprotocol S runes_by_utxo_encoder inscriptions_by_utxo_encoder) (scn_count self)
           (retain filter_fn kvs_vec)) (scn_range self) KV_SCAN_BATCH_SIZE [])
      (\<lambda>kvs. mapi_ok (truncate_to (scn_count self) kvs))"

section \<open>What a scan returns\<close>

definition ordered_keys :: "OrderParam \<Rightarrow> (bytes \<rightharpoonup> bytes) \<Rightarrow> key_range \<Rightarrow> bytes list" where
  "ordered_keys order db r = (case order of Asc \<Rightarrow> range_keys db r | Desc \<Rightarrow> rev (range_keys db r))"

lemma snoc_zero_le: "xs @ [0] \<le> ys \<longleftrightarrow> xs < (ys :: bytes)"
proof (induction xs arbitrary: ys)
  case Nil
  have "\<not> y < (0 :: u8)" for y by (metis not_less word_coorder.extremum)
  then show ?case by (cases ys) (auto simp: word_gt_0)
next
  case (Cons x xs)
  then show ?case by (cases ys) auto
qed

lemma sorted_keys_filter:
  "finite A \<Longrightarrow> sorted_list_of_set {k \<in> A. P k} = filter P (sorted_list_of_set A)" for A :: "'a::linorder set"
  by (rule sorted_distinct_set_unique) (auto intro: sorted_filter [of "\<lambda>x. x", simplified])

lemma filter_above_nth:
  "sorted xs \<Longrightarrow> distinct xs \<Longrightarrow> i < length xs \<Longrightarrow> filter (\<lambda>k. xs ! i < k) xs = drop (Suc i) xs" for xs :: "'a::linorder list"
proof (induction xs arbitrary: i)
  case (Cons x xs)
  show ?case
  proof (cases i)
    case 0
    have "\<forall>k\<in>set xs. x < k" using Cons.prems by (auto simp: less_le)
    then show ?thesis using 0 by (simp add: filter_id_conv)
  next
    case (Suc j)
    then have "xs ! j \<in> set xs" using Cons.prems by simp
    then have "\<not> xs ! j < x" using Cons.prems by (auto simp: not_less)
    then show ?thesis using Cons Suc by simp
  qed
qed simp

lemma filter_below_nth:
  "sorted xs \<Longrightarrow> distinct xs \<Longrightarrow> i < length xs \<Longrightarrow> filter (\<lambda>k. k < xs ! i) xs = take i xs" for xs :: "'a::linorder list"
proof (induction xs arbitrary: i)
  case (Cons x xs)
  show ?case
  proof (cases i)
    case 0
    have "\<forall>k\<in>set xs. \<not> k < x" using Cons.prems by (auto simp: not_less)
    then show ?thesis using 0 by (simp add: filter_empty_conv)
  next
    case (Suc j)
    then have "xs ! j \<in> set xs" using Cons.prems by simp
    then have "x < xs ! j" using Cons.prems by (auto simp: less_le)
    then show ?thesis using Cons Suc by simp
  qed
qed simp

lemma range_keys_simps:
  assumes "finite (dom db)"
  shows "set (range_keys db r) = {k \<in> dom db. in_range r k}" "sorted (range_keys db r)" "distinct (range_keys db r)"
  using assms by (simp_all add: range_keys_def)

lemma set_ordered_keys: "finite (dom db) \<Longrightarrow> set (ordered_keys order db r) = {k \<in> dom db. in_range r k}"
  by (cases order) (simp_all add: ordered_keys_def range_keys_simps)

lemma in_remaining_Asc: "in_range r l \<Longrightarrow> in_range (remaining_range Asc r l) k \<longleftrightarrow> in_range r k \<and> l < k"
  by (auto simp: in_range_def remaining_range_def snoc_zero_le)

lemma in_remaining_Desc: "in_range r l \<Longrightarrow> l \<noteq> [] \<Longrightarrow> in_range (remaining_range Desc r l) k \<longleftrightarrow> in_range r k \<and> k < l"
  by (auto simp: in_range_def remaining_range_def)

lemma remaining_range_keys:
  assumes "finite (dom db)" "in_range r l"
  shows "range_keys db (remaining_range Asc r l) = filter (\<lambda>k. l < k) (range_keys db r)"
    "l \<noteq> [] \<Longrightarrow> range_keys db (remaining_range Desc r l) = filter (\<lambda>k. k < l) (range_keys db r)"
  using assms(1) in_remaining_Asc [OF assms(2)] in_remaining_Desc [OF assms(2)]
  by (simp_all add: range_keys_def conj_assoc flip: sorted_keys_filter)

text \<open>The range that remains after a batch holds the keys after the batch.\<close>

lemma ordered_keys_remaining:
  assumes fin: "finite (dom db)" and ne: "[] \<notin> dom db" and n: "take n (ordered_keys order db r) \<noteq> []"
  shows "ordered_keys order db (remaining_range order r (last (take n (ordered_keys order db r)))) = drop n (ordered_keys order db r)"
proof -
  let ?K = "range_keys db r" and ?l = "last (take n (ordered_keys order db r))"
  note K = range_keys_simps [OF fin, of r]
  have mem: "?l \<in> {k \<in> dom db. in_range r k}" using last_in_set [OF n] set_ordered_keys [OF fin] by (metis in_set_takeD)
  then have l: "in_range r ?l" "?l \<noteq> []" using ne by auto
  show ?thesis
  proof (cases "n \<le> length ?K")
    case True
    from n obtain i where i: "n = Suc i" by (cases n) auto
    with True have lt: "i < length ?K" by simp
    show ?thesis
    proof (cases order)
      case Asc
      have "?l = ?K ! i" using lt i Asc by (simp add: ordered_keys_def take_Suc_conv_app_nth)
      then show ?thesis using remaining_range_keys(1) [OF fin l(1)] filter_above_nth [OF K(2,3) lt] Asc i by (simp add: ordered_keys_def)
    next
      case Desc
      have nth: "rev ?K ! i = ?K ! (length ?K - Suc i)" using lt by (rule rev_nth)
      have "?l = ?K ! (length ?K - Suc i)" using lt i Desc nth by (simp add: ordered_keys_def take_Suc_conv_app_nth)
      moreover have "length ?K - Suc i < length ?K" using lt by simp
      ultimately show ?thesis
        using remaining_range_keys(2) [OF fin l] filter_below_nth [OF K(2,3), of "length ?K - Suc i"] Desc i lt
        by (simp add: ordered_keys_def drop_rev)
    qed
  next
    case False
    then have "take n (ordered_keys order db r) = ordered_keys order db r" by (cases order) (simp_all add: ordered_keys_def)
    then have last: "?l = last (ordered_keys order db r)" by simp
    have neK: "?K \<noteq> []" using n by (cases order) (auto simp: ordered_keys_def)
    have d: "drop n (ordered_keys order db r) = []" using False by (cases order) (simp_all add: ordered_keys_def)
    show ?thesis
    proof (cases order)
      case Asc
      then have "?l = ?K ! (length ?K - 1)" using last neK by (simp add: ordered_keys_def last_conv_nth)
      then show ?thesis using remaining_range_keys(1) [OF fin l(1)] filter_above_nth [OF K(2,3), of "length ?K - 1"] Asc neK d
        by (simp add: ordered_keys_def)
    next
      case Desc
      then have "?l = ?K ! 0" using last neK by (simp add: ordered_keys_def last_rev hd_conv_nth)
      then show ?thesis using remaining_range_keys(2) [OF fin l] filter_below_nth [OF K(2,3), of 0] Desc neK d
        by (simp add: ordered_keys_def)
    qed
  qed
qed

lemma keep_entries_append:
  "keep_entries f m (xs @ ys) kvs =
     (case keep_entries f m xs kvs of
        Inl e \<Rightarrow> Inl e | Inr (stop, kvs) \<Rightarrow> if stop then Inr (True, kvs) else keep_entries f m ys kvs)"
proof (induction xs arbitrary: kvs)
  case (Cons x xs)
  show ?case by (cases "f x") (auto simp: Cons.IH split: option.splits)
qed simp

definition kept :: "('p \<Rightarrow> MapiError + 'a option) \<Rightarrow> nat option \<Rightarrow> 'p list \<Rightarrow> 'a list \<Rightarrow> 'a list mapi" where
  "kept f m ps kvs = (case keep_entries f m ps kvs of Inl e \<Rightarrow> mapi_err e | Inr (stop, kvs) \<Rightarrow> mapi_ok kvs)"

lemma retain_append: "retain g (xs @ ys) = retain g xs @ retain g ys"
  by (cases g) (simp_all add: retain_def)

lemma scan_loop_exact:
  assumes fin: "finite (dom db)" and ne: "[] \<notin> dom db"
    and fetch: "answers fetch (\<lambda>r. map h (ordered_keys order db r))" and key: "\<And>k. key (h k) = k" and sz: "0 < sz"
  shows "scan_loop fetch key order (\<lambda>v. keep_entries f m (retain g v)) r sz kvs = kept f m (retain g (map h (ordered_keys order db r))) kvs"
  using sz
proof (induction "length (ordered_keys order db r) + unat sz" arbitrary: r sz kvs rule: less_induct)
  case less
  let ?K = "ordered_keys order db r" and ?n = "unat sz"
  have pos: "0 < ?n" using less.prems by (simp add: word_less_nat_alt)
  consider (large) "fetch r sz = Inl MessageTooLarge" "1 < sz" | (batch) "fetch r sz = Inr (map h (take ?n ?K))"
    using fetch unfolding answers_def take_map by blast
  then show ?case
  proof cases
    case large
    let ?s = "max (sz div 2) 1"
    have "unat ?s < ?n" using large(2) by (auto simp: max_def word_less_nat_alt unat_div)
    moreover have "0 < ?s" by (rule order_less_le_trans [of 0 1]) simp_all
    ultimately show ?thesis using less.hyps [of r ?s kvs] large by (subst scan_loop.simps) simp
  next
    case batch
    show ?thesis
    proof (cases "?K = []")
      case True
      then show ?thesis using batch by (subst scan_loop.simps) (cases g; simp add: kept_def retain_def mapi_folds)
    next
      case False
      let ?B = "take ?n ?K" and ?r = "remaining_range order r (last (take ?n ?K))"
      have B: "?B \<noteq> []" using False pos by simp
      have len: "length ?B \<le> ?n" by simp
      moreover have "?n < 2 ^ LENGTH(32)" by (rule unsigned_less)
      ultimately have "length ?B < 2 ^ LENGTH(32)" by (rule le_less_trans)
      then have "int (length ?B) < 2 ^ LENGTH(32)" by simp
      then have "unat (of_nat (length ?B) :: u32) = length ?B" by (rule unat_of_nat_small)
      then have short: "(of_nat (length ?B) :: u32) < sz \<longleftrightarrow> length ?B < ?n" by (simp only: word_less_nat_alt)
      have rest: "ordered_keys order db ?r = drop ?n ?K" by (rule ordered_keys_remaining [OF fin ne B])
      have split: "retain g (map h ?K) = retain g (map h ?B) @ retain g (map h (drop ?n ?K))"
        by (metis append_take_drop_id map_append retain_append)
      have last: "key (last (map h ?B)) = last ?B" using B by (simp add: last_map key)
      show ?thesis
      proof (cases "keep_entries f m (retain g (map h ?B)) kvs")
        case (Inl e)
        then show ?thesis using batch B by (subst scan_loop.simps) (simp add: kept_def split keep_entries_append mapi_folds)
      next
        case (Inr x)
        obtain stop kvs' where x: "x = (stop, kvs')" by (cases x)
        consider (stop) stop | (short) "\<not> stop" "length ?B < ?n" | (more) "\<not> stop" "\<not> length ?B < ?n" by blast
        then show ?thesis
        proof cases
          case stop
          then show ?thesis using batch B Inr x by (subst scan_loop.simps) (simp add: kept_def split keep_entries_append mapi_folds)
        next
          case short
          then have "drop ?n ?K = []" by simp
          then have "retain g (map h (drop ?n ?K)) = []" by (cases g) (simp_all add: retain_def)
          then have "kept f m (retain g (map h ?K)) kvs = mapi_ok kvs'"
            using Inr x short(1) by (simp add: kept_def split)
          moreover have enough: "((of_nat (length ?B) :: u32) < sz) = True"
            using short(2) \<open>of_nat (length ?B) < sz \<longleftrightarrow> length ?B < ?n\<close> by blast
          have "scan_loop fetch key order (\<lambda>v. keep_entries f m (retain g v)) r sz kvs = mapi_ok kvs'"
            unfolding scan_loop.simps [of fetch key order _ r sz kvs] batch mapi_ok_def
            by (simp only: sum.case Inr x prod.case map_is_Nil_conv B if_False if_True length_map enough simp_thms)
          ultimately show ?thesis by simp
        next
          case more
          have "length (ordered_keys order db ?r) + ?n < length ?K + ?n" using rest pos False by simp
          note IH = less.hyps [OF this less.prems, of kvs']
          have again: "((of_nat (length ?B) :: u32) < sz) = False" using more(2) \<open>of_nat (length ?B) < sz \<longleftrightarrow> length ?B < ?n\<close> by blast
          have "scan_loop fetch key order (\<lambda>v. keep_entries f m (retain g v)) r sz kvs =
              scan_loop fetch key order (\<lambda>v. keep_entries f m (retain g v)) ?r sz kvs'"
            unfolding scan_loop.simps [of fetch key order _ r sz kvs] batch
            by (simp only: sum.case Inr x prod.case map_is_Nil_conv B if_False length_map again last more(1) simp_thms)
          also have "\<dots> = kept f m (retain g (map h ?K)) kvs"
            using IH more Inr x by (simp add: rest kept_def split keep_entries_append)
          finally show ?thesis .
        qed
      qed
    qed
  qed
qed

lemma kept_truncated:
  assumes "\<And>p. p \<in> set ps \<Longrightarrow> f p = Inr (g p)"
  shows "mapi_bind (kept f lim ps []) (\<lambda>kvs. mapi_ok (truncate_to lim kvs)) = mapi_ok (truncate_to lim (List.map_filter g ps))"
proof -
  have "\<exists>stop kvs'. keep_entries f lim ps kvs = Inr (stop, kvs') \<and>
      truncate_to lim kvs' = truncate_to lim (kvs @ List.map_filter g ps)" for kvs
    using assms
  proof (induction ps arbitrary: kvs)
    case (Cons p ps)
    have p: "f p = Inr (g p)" using Cons.prems by simp
    show ?case
    proof (cases "g p")
      case None
      then show ?thesis using p Cons.IH [of kvs] Cons.prems by (simp add: map_filter_simps)
    next
      case (Some y)
      show ?thesis
      proof (cases "\<exists>m. lim = Some m \<and> m \<le> Suc (length kvs)")
        case True
        then show ?thesis using p Some by (auto simp: truncate_to_def map_filter_simps take_Cons split: nat.splits)
      next
        case False
        then show ?thesis using p Some Cons.IH [of "kvs @ [y]"] Cons.prems by (auto simp: map_filter_simps split: option.splits)
      qed
    qed
  qed (auto simp: map_filter_simps)
  from this [of "[]"] show ?thesis by (auto simp: kept_def)
qed

definition scan_entries :: "OrderParam \<Rightarrow> (bytes \<rightharpoonup> bytes) \<Rightarrow> key_range \<Rightarrow> (bytes \<times> bytes) list" where
  "scan_entries order db r = with_values db (ordered_keys order db r)"

lemma snapshot_ofD:
  assumes "snapshot_of db S"
  shows "finite (dom db)" "[] \<notin> dom db" "sn_get S k = Inr (db k)"
    "answers (case order of Asc \<Rightarrow> sn_scan S | Desc \<Rightarrow> sn_scan_reverse S) (\<lambda>r. map (\<lambda>k. (k, the (db k))) (ordered_keys order db r))"
    "answers (case order of Asc \<Rightarrow> sn_scan_keys S | Desc \<Rightarrow> sn_scan_keys_reverse S) (\<lambda>r. map id (ordered_keys order db r))"
  using assms by (cases order; simp add: snapshot_of_def with_values_def ordered_keys_def)+

lemma small_count: "0 < c \<Longrightarrow> c < 2 ^ 32 \<Longrightarrow> 0 < (of_nat c :: u32)"
proof -
  assume c: "0 < c" "c < 2 ^ 32"
  then have "int c < 2 ^ LENGTH(32)" by simp
  then have "unat (of_nat c :: u32) = c" by (rule unat_of_nat_small)
  then show ?thesis using c by (simp add: word_less_nat_alt)
qed

definition count_ok :: "Scanner \<Rightarrow> bool" where
  "count_ok s \<longleftrightarrow> pred_option (\<lambda>c. 0 < c \<and> c < 2 ^ 32) (scn_count s)"

text \<open>
  What the three forms of the scanner return, when single entries fit in a message and the entries
  of the range can be read: the first entries of the range that pass the filter.
\<close>

lemma execute_with_filter_exact:
  assumes S: "snapshot_of db S" and c: "count_ok self"
    and read: "\<And>kv. kv \<in> set (retain flt (scan_entries (scn_order self) db (scn_range self))) \<Longrightarrow> read_entry dk dv kv = Inr (g kv)"
  shows "execute_with_filter dk dv S flt self =
    mapi_ok (truncate_to (scn_count self) (map g (retain flt (scan_entries (scn_order self) db (scn_range self)))))"
proof -
  note loop = scan_loop_exact [OF snapshot_ofD(1,2) [OF S] snapshot_ofD(4) [OF S], of fst]
  have sz: "0 < (if flt = None then (case scn_count self of None \<Rightarrow> KV_SCAN_BATCH_SIZE | Some c \<Rightarrow> of_nat c) else KV_SCAN_BATCH_SIZE)"
    using c by (auto simp: count_ok_def KV_SCAN_BATCH_SIZE_def small_count split: option.splits)
  have "List.map_filter (\<lambda>kv. Some (g kv)) xs = map g xs" for xs by (simp add: map_filter_def comp_def)
  then show ?thesis
    using kept_truncated [of "retain flt (scan_entries (scn_order self) db (scn_range self))"
        "\<lambda>kv. and_then (read_entry dk dv kv) (\<lambda>x. Inr (Some x))" "\<lambda>kv. Some (g kv)" "scn_count self"] read
    unfolding execute_with_filter_def Let_def loop [OF _ sz, simplified] scan_entries_def with_values_def by simp
qed

lemma get_non_metaprotocol_utxos_exact:
  assumes S: "snapshot_of db S"
    and read: "\<And>kv. kv \<in> set (retain flt (scan_entries (scn_order self) db (scn_range self))) \<Longrightarrow> non_metaprotocol S re ie kv = Inr (g kv)"
  shows "get_non_metaprotocol_utxos S flt re ie self =
    mapi_ok (truncate_to (scn_count self) (List.map_filter g (retain flt (scan_entries (scn_order self) db (scn_range self)))))"
proof -
  note loop = scan_loop_exact [OF snapshot_ofD(1,2) [OF S] snapshot_ofD(4) [OF S], of fst]
  have sz: "0 < KV_SCAN_BATCH_SIZE" by (simp add: KV_SCAN_BATCH_SIZE_def)
  show ?thesis
    using kept_truncated [of "retain flt (scan_entries (scn_order self) db (scn_range self))" "non_metaprotocol S re ie" g "scn_count self"] read
    unfolding get_non_metaprotocol_utxos_def loop [OF _ sz, simplified] scan_entries_def with_values_def by simp
qed

lemma execute_keys_only_exact:
  assumes S: "snapshot_of db S" and c: "count_ok self"
    and read: "\<And>k. k \<in> set (ordered_keys (scn_order self) db (scn_range self)) \<Longrightarrow> read_key dk k = Inr (g k)"
  shows "execute_keys_only dk S self =
    mapi_ok (truncate_to (scn_count self) (map g (ordered_keys (scn_order self) db (scn_range self))))"
proof -
  let ?f = "\<lambda>k. and_then (read_key dk k) (\<lambda>x. Inr (Some x))"
  have sz: "0 < (of_nat (case scn_count self of None \<Rightarrow> 1000 | Some c \<Rightarrow> c) :: u32)"
    using c by (auto simp: count_ok_def small_count split: option.splits)
  note loop = scan_loop_exact [OF snapshot_ofD(1,2) [OF S] snapshot_ofD(5) [OF S, of "scn_order self"] id_apply sz,
      where f = ?f and g = None and m = "scn_count self" and r = "scn_range self" and kvs = "[]"]
  have "List.map_filter (\<lambda>k. Some (g k)) xs = map g xs" for xs by (simp add: map_filter_def comp_def)
  then show ?thesis
    using kept_truncated [of "ordered_keys (scn_order self) db (scn_range self)" ?f "\<lambda>k. Some (g k)" "scn_count self"] read loop
    by (simp add: execute_keys_only_def retain_def id_def)
qed

end
