(* ===== verification/Mapi_Resolver.thy ===== *)
theory Mapi_Resolver
  imports Reducers Worker_Recovery Mapi_Scan "HOL-Library.Char_ord"
begin

text \<open>
  Which instance serves a request (\<open>services/mapi-xdg/src/key_resolver.rs\<close> and the encoders of
  \<open>polyphony.rs\<close>), and the other side of the registry: the configured reducers of an indexer
  (\<open>polyphony-xdg/src/reducers/mod.rs\<close>) and the names under which it advertises itself
  (\<open>bin/polyphony-xdg/daemon.rs\<close>). Redis is a parameter: the first members of the sorted set at a
  key, or an error.
\<close>

section \<open>The configured reducers of an indexer\<close>

datatype ReducerConfig =
    C_BalancesByBrc20 | C_BalancesByRuneId | C_Brc20BalancesByScriptHash
    | C_Brc20TermsByTicker | C_EtchingByRuneId | C_InscriptionUtxosByScriptHash
    | C_ContentByInscriptionId | C_InscriptionsByScriptHash | C_InscriptionsByUtxo
    | C_MintsByRuneId | C_RuneBalancesByScriptHash | C_RuneIdByRuneName | C_RunesByUtxo
    | C_SatBalanceByScriptHash | C_ScriptByScriptHash | C_ScriptHashByAddressPayloadHash
    | C_TransferInscriptionsByScriptHash | C_TxsByScriptHash | C_UtxosByRuneId
    | C_UtxosByScriptHash

fun plugin :: "RuntimePolicy \<Rightarrow> ReducerConfig \<Rightarrow> StageReducer" where
  "plugin policy C_BalancesByBrc20 = R_BalancesByBrc20 policy"
| "plugin policy C_BalancesByRuneId = R_BalancesByRuneId policy"
| "plugin policy C_Brc20BalancesByScriptHash = R_Brc20BalancesByScriptHash policy"
| "plugin policy C_Brc20TermsByTicker = R_Brc20TermsByTicker"
| "plugin policy C_EtchingByRuneId = R_EtchingByRuneId"
| "plugin policy C_InscriptionUtxosByScriptHash = R_InscriptionUtxosByScriptHash policy"
| "plugin policy C_ContentByInscriptionId = R_ContentByInscriptionId"
| "plugin policy C_InscriptionsByScriptHash = R_InscriptionsByScriptHash policy"
| "plugin policy C_InscriptionsByUtxo = R_InscriptionsByUtxo"
| "plugin policy C_MintsByRuneId = R_MintsByRuneId"
| "plugin policy C_RuneBalancesByScriptHash = R_RuneBalancesByScriptHash policy"
| "plugin policy C_RuneIdByRuneName = R_RuneIdByRuneName"
| "plugin policy C_RunesByUtxo = R_RunesByUtxo"
| "plugin policy C_SatBalanceByScriptHash = R_SatBalanceByScriptHash policy"
| "plugin policy C_ScriptByScriptHash = R_ScriptByScriptHash"
| "plugin policy C_ScriptHashByAddressPayloadHash = R_ScriptHashByAddressPayloadHash"
| "plugin policy C_TransferInscriptionsByScriptHash = R_TransferInscriptionsByScriptHash policy"
| "plugin policy C_TxsByScriptHash = R_TxsByScriptHash policy"
| "plugin policy C_UtxosByRuneId = R_UtxosByRuneId policy"
| "plugin policy C_UtxosByScriptHash = R_UtxosByScriptHash policy"

fun instance_name :: "ReducerConfig \<Rightarrow> string" where
  "instance_name C_BalancesByBrc20 = ''inscriptions''"
| "instance_name C_BalancesByRuneId = ''balances-by-rune-id''"
| "instance_name C_Brc20BalancesByScriptHash = ''inscriptions''"
| "instance_name C_Brc20TermsByTicker = ''inscriptions''"
| "instance_name C_EtchingByRuneId = ''dunes''"
| "instance_name C_InscriptionUtxosByScriptHash = ''inscription-utxos-by-script-hash''"
| "instance_name C_ContentByInscriptionId = ''content-by-inscription-id''"
| "instance_name C_InscriptionsByScriptHash = ''inscriptions''"
| "instance_name C_InscriptionsByUtxo = ''inscriptions''"
| "instance_name C_MintsByRuneId = ''dunes''"
| "instance_name C_RuneBalancesByScriptHash = ''dunes''"
| "instance_name C_RuneIdByRuneName = ''dunes''"
| "instance_name C_RunesByUtxo = ''dunes''"
| "instance_name C_SatBalanceByScriptHash = ''sat-balance-by-script-hash''"
| "instance_name C_ScriptByScriptHash = ''scripts''"
| "instance_name C_ScriptHashByAddressPayloadHash = ''scripts''"
| "instance_name C_TransferInscriptionsByScriptHash = ''inscriptions''"
| "instance_name C_TxsByScriptHash = ''transactions''"
| "instance_name C_UtxosByRuneId = ''dunes''"
| "instance_name C_UtxosByScriptHash = ''utxos''"

definition instance_names :: "ReducerConfig list \<Rightarrow> string list" where
  "instance_names reducers = remdups_adj (sort (map instance_name reducers))"

definition bootstrap_reducers :: "RuntimePolicy \<Rightarrow> ReducerConfig list \<Rightarrow> ReducerWorker" where
  "bootstrap_reducers policy configs = \<lparr>rw_reducers = map (plugin policy) configs, rw_last_processed = None\<rparr>"

section \<open>Resolution\<close>

datatype ApiNetwork = Mainnet | Testnet

fun network_string :: "ApiNetwork \<Rightarrow> string" where
  "network_string Mainnet = ''mainnet''"
| "network_string Testnet = ''testnet''"

datatype InstanceType =
    I_Inscriptions | I_InscriptionUtxosByScriptHash | I_ContentByInscriptionId | I_Dunes
    | I_SatBalanceByScriptHash | I_Scripts | I_Transactions | I_Utxos | I_BalancesByRuneId

fun instance_string :: "InstanceType \<Rightarrow> string" where
  "instance_string I_Inscriptions = ''inscriptions''"
| "instance_string I_InscriptionUtxosByScriptHash = ''inscription-utxos-by-script-hash''"
| "instance_string I_ContentByInscriptionId = ''content-by-inscription-id''"
| "instance_string I_Dunes = ''dunes''"
| "instance_string I_SatBalanceByScriptHash = ''sat-balance-by-script-hash''"
| "instance_string I_Scripts = ''scripts''"
| "instance_string I_Transactions = ''transactions''"
| "instance_string I_Utxos = ''utxos''"
| "instance_string I_BalancesByRuneId = ''balances-by-rune-id''"

datatype ReducerType =
    T_BalancesByBrc20 | T_Brc20BalancesByScriptHash | T_Brc20BalancesByTicker
    | T_Brc20TermsByTicker | T_ContentByInscriptionId | T_InscriptionsByUtxo
    | T_InscriptionUtxosByScriptHash | T_EtchingByRuneId | T_MintsByRuneId | T_RunesByUtxo
    | T_RuneBalancesByScriptHash | T_RuneIdByRuneName | T_SatBalanceByScriptHash
    | T_ScriptByScriptHash | T_ScriptHashByAddressPayloadHash
    | T_TransferInscriptionsByAddress | T_TxsByScriptHash | T_UtxosByRuneId
    | T_UtxosByScriptHash | T_BalancesByRuneId

fun get_instance_for_reducer :: "ReducerType \<Rightarrow> InstanceType" where
  "get_instance_for_reducer T_BalancesByBrc20 = I_Inscriptions"
| "get_instance_for_reducer T_Brc20BalancesByScriptHash = I_Inscriptions"
| "get_instance_for_reducer T_Brc20BalancesByTicker = I_Inscriptions"
| "get_instance_for_reducer T_Brc20TermsByTicker = I_Inscriptions"
| "get_instance_for_reducer T_ContentByInscriptionId = I_ContentByInscriptionId"
| "get_instance_for_reducer T_InscriptionsByUtxo = I_Inscriptions"
| "get_instance_for_reducer T_InscriptionUtxosByScriptHash = I_InscriptionUtxosByScriptHash"
| "get_instance_for_reducer T_EtchingByRuneId = I_Dunes"
| "get_instance_for_reducer T_MintsByRuneId = I_Dunes"
| "get_instance_for_reducer T_RunesByUtxo = I_Dunes"
| "get_instance_for_reducer T_RuneBalancesByScriptHash = I_Dunes"
| "get_instance_for_reducer T_RuneIdByRuneName = I_Dunes"
| "get_instance_for_reducer T_SatBalanceByScriptHash = I_SatBalanceByScriptHash"
| "get_instance_for_reducer T_ScriptByScriptHash = I_Scripts"
| "get_instance_for_reducer T_ScriptHashByAddressPayloadHash = I_Scripts"
| "get_instance_for_reducer T_TransferInscriptionsByAddress = I_Inscriptions"
| "get_instance_for_reducer T_TxsByScriptHash = I_Transactions"
| "get_instance_for_reducer T_UtxosByRuneId = I_Dunes"
| "get_instance_for_reducer T_UtxosByScriptHash = I_Utxos"
| "get_instance_for_reducer T_BalancesByRuneId = I_BalancesByRuneId"

datatype ResolveKeyError = RedisConnectionError string | NoEntriesFound | EntryTooShort

record Registry =
  rg_network :: ApiNetwork
  rg_zrange :: "string \<Rightarrow> string + bytes list"

definition scores_key :: "ApiNetwork \<Rightarrow> InstanceType \<Rightarrow> string" where
  "scores_key network i = ''dogecoin:'' @ network_string network @ '':'' @ instance_string i @ '':scores''"

definition resolve_key :: "Registry \<Rightarrow> ReducerType \<Rightarrow> ResolveKeyError + u8 \<times> u8" where
  "resolve_key R reducer =
     (case rg_zrange R (scores_key (rg_network R) (get_instance_for_reducer reducer)) of
        Inl e \<Rightarrow> Inl (RedisConnectionError e)
      | Inr [] \<Rightarrow> Inl NoEntriesFound
      | Inr (entry # _) \<Rightarrow> if length entry \<ge> 2 then Inr (entry ! 0, entry ! 1) else Inl EntryTooShort)"

fun resolve_error_string :: "ResolveKeyError \<Rightarrow> string" where
  "resolve_error_string (RedisConnectionError e) = ''Redis connection error: '' @ e"
| "resolve_error_string NoEntriesFound = ''No entries found in the sorted set''"
| "resolve_error_string EntryTooShort = ''Entry is too short''"

definition encoder_for :: "Registry \<Rightarrow> ReducerType \<Rightarrow> MapiError + Namespace" where
  "encoder_for R t =
     (case resolve_key R t of
        Inl e \<Rightarrow> Inl (Internal (''instance resolution: '' @ resolve_error_string e))
      | Inr (dataplane, reducer) \<Rightarrow> Inr \<lparr>dataplane_id = dataplane, instance_id = reducer\<rparr>)"

definition utxos_by_rune_id_encoder :: "Registry \<Rightarrow> MapiError + Namespace" where
  "utxos_by_rune_id_encoder R = encoder_for R T_UtxosByRuneId"

definition etching_by_rune_id_encoder :: "Registry \<Rightarrow> MapiError + Namespace" where
  "etching_by_rune_id_encoder R = encoder_for R T_EtchingByRuneId"

definition balances_by_rune_id_encoder :: "Registry \<Rightarrow> MapiError + Namespace" where
  "balances_by_rune_id_encoder R = encoder_for R T_BalancesByRuneId"

definition mints_by_rune_id_encoder :: "Registry \<Rightarrow> MapiError + Namespace" where
  "mints_by_rune_id_encoder R = encoder_for R T_MintsByRuneId"

definition script_by_script_hash_encoder :: "Registry \<Rightarrow> MapiError + Namespace" where
  "script_by_script_hash_encoder R = encoder_for R T_ScriptByScriptHash"

definition runes_by_utxo_encoder :: "Registry \<Rightarrow> MapiError + Namespace" where
  "runes_by_utxo_encoder R = encoder_for R T_RunesByUtxo"

definition rune_id_by_name_encoder :: "Registry \<Rightarrow> MapiError + Namespace" where
  "rune_id_by_name_encoder R = encoder_for R T_RuneIdByRuneName"

definition utxos_by_script_hash_encoder :: "Registry \<Rightarrow> MapiError + Namespace" where
  "utxos_by_script_hash_encoder R = encoder_for R T_UtxosByScriptHash"

definition script_hash_by_address_payload_hash_encoder :: "Registry \<Rightarrow> MapiError + Namespace" where
  "script_hash_by_address_payload_hash_encoder R = encoder_for R T_ScriptHashByAddressPayloadHash"

definition inscription_utxos_by_script_hash_encoder :: "Registry \<Rightarrow> MapiError + Namespace" where
  "inscription_utxos_by_script_hash_encoder R = encoder_for R T_InscriptionUtxosByScriptHash"

definition inscriptions_by_utxo_encoder :: "Registry \<Rightarrow> MapiError + Namespace" where
  "inscriptions_by_utxo_encoder R = encoder_for R T_InscriptionsByUtxo"

definition content_by_inscription_id_encoder :: "Registry \<Rightarrow> MapiError + Namespace" where
  "content_by_inscription_id_encoder R = encoder_for R T_ContentByInscriptionId"

definition brc20_balances_by_script_hash_encoder :: "Registry \<Rightarrow> MapiError + Namespace" where
  "brc20_balances_by_script_hash_encoder R = encoder_for R T_Brc20BalancesByScriptHash"

definition brc20_terms_by_ticker_encoder :: "Registry \<Rightarrow> MapiError + Namespace" where
  "brc20_terms_by_ticker_encoder R = encoder_for R T_Brc20TermsByTicker"

definition txs_by_script_hash_encoder :: "Registry \<Rightarrow> MapiError + Namespace" where
  "txs_by_script_hash_encoder R = encoder_for R T_TxsByScriptHash"

definition brc20_balances_by_ticker_encoder :: "Registry \<Rightarrow> MapiError + Namespace" where
  "brc20_balances_by_ticker_encoder R = encoder_for R T_Brc20BalancesByTicker"

definition rune_balances_by_script_hash_encoder :: "Registry \<Rightarrow> MapiError + Namespace" where
  "rune_balances_by_script_hash_encoder R = encoder_for R T_RuneBalancesByScriptHash"

definition transfer_inscriptions_by_script_hash_encoder :: "Registry \<Rightarrow> MapiError + Namespace" where
  "transfer_inscriptions_by_script_hash_encoder R = encoder_for R T_TransferInscriptionsByAddress"

definition sat_balance_by_script_hash_encoder :: "Registry \<Rightarrow> MapiError + Namespace" where
  "sat_balance_by_script_hash_encoder R = encoder_for R T_SatBalanceByScriptHash"

section \<open>Reading follows writing\<close>

text \<open>
  The tables a request reads for a kind of data, and the configured reducer that writes them: the
  holders of a ticker are written with the balances of BRC-20 tickers, the transfer inscriptions of an
  address with those of a script hash, the others under the same name.
\<close>

fun writer_of :: "ReducerType \<Rightarrow> ReducerConfig" where
  "writer_of T_BalancesByBrc20 = C_BalancesByBrc20"
| "writer_of T_Brc20BalancesByScriptHash = C_Brc20BalancesByScriptHash"
| "writer_of T_Brc20BalancesByTicker = C_BalancesByBrc20"
| "writer_of T_Brc20TermsByTicker = C_Brc20TermsByTicker"
| "writer_of T_ContentByInscriptionId = C_ContentByInscriptionId"
| "writer_of T_InscriptionsByUtxo = C_InscriptionsByUtxo"
| "writer_of T_InscriptionUtxosByScriptHash = C_InscriptionUtxosByScriptHash"
| "writer_of T_EtchingByRuneId = C_EtchingByRuneId"
| "writer_of T_MintsByRuneId = C_MintsByRuneId"
| "writer_of T_RunesByUtxo = C_RunesByUtxo"
| "writer_of T_RuneBalancesByScriptHash = C_RuneBalancesByScriptHash"
| "writer_of T_RuneIdByRuneName = C_RuneIdByRuneName"
| "writer_of T_SatBalanceByScriptHash = C_SatBalanceByScriptHash"
| "writer_of T_ScriptByScriptHash = C_ScriptByScriptHash"
| "writer_of T_ScriptHashByAddressPayloadHash = C_ScriptHashByAddressPayloadHash"
| "writer_of T_TransferInscriptionsByAddress = C_TransferInscriptionsByScriptHash"
| "writer_of T_TxsByScriptHash = C_TxsByScriptHash"
| "writer_of T_UtxosByRuneId = C_UtxosByRuneId"
| "writer_of T_UtxosByScriptHash = C_UtxosByScriptHash"
| "writer_of T_BalancesByRuneId = C_BalancesByRuneId"

text \<open>The sorted set that commands leave at a key: the last score of each member.\<close>

fun zset_of :: "RedisWrite list \<Rightarrow> string \<Rightarrow> bytes \<rightharpoonup> u64" where
  "zset_of [] key = Map.empty"
| "zset_of (ZaddScore k member score # ws) key = (if k = key then [member \<mapsto> score] ++ zset_of ws key else zset_of ws key)"
| "zset_of (_ # ws) key = zset_of ws key"

text \<open>The registry answers with a member of least score, if the set has members.\<close>

definition registry_of :: "RedisWrite list \<Rightarrow> Registry \<Rightarrow> bool" where
  "registry_of ws R \<longleftrightarrow> (\<forall>key. \<exists>ms. rg_zrange R key = Inr ms \<and>
     (if dom (zset_of ws key) = {} then ms = []
      else \<exists>m s. ms = [m] \<and> zset_of ws key m = Some s \<and> (\<forall>m' s'. zset_of ws key m' = Some s' \<longrightarrow> s \<le> s')))"

lemma instance_names_agree: "instance_string (get_instance_for_reducer t) = instance_name (writer_of t)"
  by (cases t) simp_all

lemma zset_of_append: "zset_of (ws @ vs) key = zset_of ws key ++ zset_of vs key"
  by (induction ws key rule: zset_of.induct) auto

lemma write_scores_set:
  "write_scores E height names w = (Inr (), w') \<Longrightarrow>
   \<exists>ws. wk_redis w' = wk_redis w @ ws \<and>
     (\<forall>key. zset_of ws key = (if key \<in> (\<lambda>name. ''dogecoin:'' @ to_lowercase (we_network E) @ '':'' @ name @ '':scores'') ` set names
        then [[dataplane_id (we_ns E), instance_id (we_ns E)] \<mapsto> height] else Map.empty))"
proof (induction names arbitrary: w)
  case Nil
  then show ?case by (intro exI [of _ "[]"]) simp
next
  case (Cons name names)
  let ?k = "\<lambda>name. ''dogecoin:'' @ to_lowercase (we_network E) @ '':'' @ name @ '':scores''"
  let ?c = "ZaddScore (?k name) [dataplane_id (we_ns E), instance_id (we_ns E)] height"
  from Cons.prems obtain v where v: "redis_write E ?c w = (Inr (), v)" "write_scores E height names v = (Inr (), w')"
    by (auto simp: wbind_def split: prod.splits sum.splits)
  have "wk_redis v = wk_redis w @ [?c]" using v(1)
    by (auto simp: redis_write_def external_call_def wbind_def Let_def split: if_splits)
  moreover from Cons.IH [OF v(2)] obtain ws where "wk_redis w' = wk_redis v @ ws"
    "\<forall>key. zset_of ws key = (if key \<in> ?k ` set names then [[dataplane_id (we_ns E), instance_id (we_ns E)] \<mapsto> height] else Map.empty)"
    by blast
  ultimately show ?case by (intro exI [of _ "?c # ws"]) auto
qed

section \<open>Properties\<close>

text \<open>
  C20. A reader finds the writer. When an indexer that runs the reducer behind a kind of data has
  advertised itself in an empty registry, the API resolves that kind of data to the namespace of the
  indexer: the names of the groups agree on both sides, also where the API uses another name for the
  data; the indexer is configured for the network of the API.
\<close>

theorem reader_finds_writer:
  assumes "update_registry_scores E height w = (Inr (), w')" "wk_redis w = []"
    and "we_instance_names E = instance_names configs" "writer_of t \<in> set configs"
    and "to_lowercase (we_network E) = network_string (rg_network R)" "registry_of (wk_redis w') R"
  shows "encoder_for R t = Inr (we_ns E)"
proof -
  let ?key = "scores_key (rg_network R) (get_instance_for_reducer t)" and ?m = "[dataplane_id (we_ns E), instance_id (we_ns E)]"
  have "instance_name (writer_of t) \<in> set (instance_names configs)" using assms(4) by (auto simp: instance_names_def)
  then have name: "instance_string (get_instance_for_reducer t) \<in> set (we_instance_names E)"
    using assms(3) by (simp add: instance_names_agree)
  from write_scores_set [OF assms(1) [unfolded update_registry_scores_def]] obtain ws where ws: "wk_redis w' = ws"
    "\<And>key. zset_of ws key = (if key \<in> (\<lambda>name. ''dogecoin:'' @ to_lowercase (we_network E) @ '':'' @ name @ '':scores'') ` set (we_instance_names E)
        then [?m \<mapsto> height] else Map.empty)" using assms(2) by auto
  have "?key \<in> (\<lambda>name. ''dogecoin:'' @ to_lowercase (we_network E) @ '':'' @ name @ '':scores'') ` set (we_instance_names E)"
    using name assms(5) by (auto simp: scores_key_def)
  then have "zset_of (wk_redis w') ?key = [?m \<mapsto> height]" using ws by simp
  moreover obtain ms where ms: "rg_zrange R ?key = Inr ms" "if dom (zset_of (wk_redis w') ?key) = {} then ms = []
      else \<exists>m s. ms = [m] \<and> zset_of (wk_redis w') ?key m = Some s \<and> (\<forall>m' s'. zset_of (wk_redis w') ?key m' = Some s' \<longrightarrow> s \<le> s')"
    using assms(6) unfolding registry_of_def by blast
  ultimately have "rg_zrange R ?key = Inr [?m]" by (auto split: if_splits)
  then show ?thesis by (simp add: encoder_for_def resolve_key_def)
qed

definition wit_registry :: Registry where
  "wit_registry = \<lparr>rg_network = Mainnet, rg_zrange = (\<lambda>key. Inr (if key = ''dogecoin:mainnet:utxos:scores''
     then [[dataplane_id sample_ns, instance_id sample_ns]] else []))\<rparr>"

theorem reader_finds_writer_witness: "encoder_for wit_registry T_UtxosByScriptHash = Inr sample_ns"
proof -
  let ?E = "wit_env\<lparr>we_instance_names := instance_names [C_UtxosByScriptHash]\<rparr>"
  let ?w = "spawn_worker [] None None None None 16"
  obtain w' where w': "update_registry_scores ?E 7 ?w = (Inr (), w')"
    "wk_redis w' = [ZaddScore ''dogecoin:mainnet:utxos:scores'' [dataplane_id sample_ns, instance_id sample_ns] 7]"
    by (simp add: update_registry_scores_def instance_names_def wbind_def redis_write_def external_call_def spawn_worker_def
        wit_env_def to_lowercase_def lower_char_def)
  have reg: "registry_of (wk_redis w') wit_registry" unfolding registry_of_def w'(2) by (simp add: wit_registry_def)
  have net: "to_lowercase (we_network ?E) = network_string (rg_network wit_registry)"
    by (simp add: wit_env_def wit_registry_def to_lowercase_def lower_char_def)
  from reader_finds_writer [OF w'(1) _ _ _ net reg, of "[C_UtxosByScriptHash]" T_UtxosByScriptHash] show ?thesis
    by (simp add: spawn_worker_def)
qed

end
