(* ===== verification/Mapi_Params.thy ===== *)
theory Mapi_Params
  imports Mapi_Resolver Brc20_Messages
begin

text \<open>
  Parameters of requests and common parts of answers (\<open>services/mapi-xdg/src/util.rs\<close>,
  \<open>types/mod.rs\<close> and the helpers of \<open>polyphony.rs\<close>): page sizes, orders, height bounds and
  cursors become key ranges; identifiers of dunes and inscriptions and addresses are parsed; amounts are
  printed with their decimals. The crates for base64, hexadecimal, addresses and dune names are
  parameters. Strings are lists of their UTF-8 bytes. A panic is no answer, \<open>None\<close>.
\<close>

section \<open>Crates and state\<close>

record 'a MapiCrates =
  mc_b64_encode :: "bytes \<Rightarrow> string"
  mc_b64_decode :: "string \<Rightarrow> bytes option"
  mc_std_b64_encode :: "bytes \<Rightarrow> string"
  mc_hex_encode :: "bytes \<Rightarrow> string"
  mc_hex_decode :: "string \<Rightarrow> bytes option"
  mc_txid_string :: "bytes \<Rightarrow> string"
  mc_rune_from_str :: "string \<Rightarrow> u128 option"
  mc_rune_string :: "u128 \<Rightarrow> string"
  mc_spaced_rune_string :: "u128 \<Rightarrow> u32 \<Rightarrow> string"
  mc_address_from_str :: "string \<Rightarrow> 'a option"
  mc_address_script_hash :: "'a \<Rightarrow> bytes"
  mc_address_string :: "'a \<Rightarrow> string"
  mc_address_from_script :: "ApiNetwork \<Rightarrow> bytes \<Rightarrow> 'a option"
  mc_script_hash :: "bytes \<Rightarrow> bytes"
  mc_to_lowercase :: "string \<Rightarrow> string"

datatype ApiMode = GenerateOpenApi | ModeDogecoin | ModeDogecoinTestnet

record 'a Mapi =
  mp_crates :: "'a MapiCrates"
  mp_registry :: Registry
  mp_snapshot :: "MapiError + Snapshot"
  mp_mode :: ApiMode

definition mapi_lift :: "MapiError + 'b \<Rightarrow> 'b mapi" where
  "mapi_lift r = Some r"

lemma mapi_lift_simps [simp]: "mapi_lift (Inr x) = mapi_ok x" "mapi_lift (Inl e) = mapi_err e"
  by (simp_all add: mapi_lift_def mapi_folds)

section \<open>Strings of the standard library\<close>

definition string_from_utf8 :: "bytes \<Rightarrow> string option" where
  "string_from_utf8 bs = (if is_utf8 bs then Some (map (\<lambda>b. char_of (unat b)) bs) else None)"

text \<open>
  \<open>String::from_utf8_lossy\<close>: a maximal prefix of a well-formed sequence that does not go on as one is
  replaced by the bytes of U+FFFD.
\<close>

definition utf8_width :: "u8 \<Rightarrow> nat" where
  "utf8_width a = (if a \<le> 0x7F then 1 else if 0xC2 \<le> a \<and> a \<le> 0xDF then 2
     else if 0xE0 \<le> a \<and> a \<le> 0xEF then 3 else if 0xF0 \<le> a \<and> a \<le> 0xF4 then 4 else 0)"

definition utf8_second :: "u8 \<Rightarrow> u8 \<Rightarrow> bool" where
  "utf8_second a b \<longleftrightarrow> (if a = 0xE0 then 0xA0 \<le> b \<and> b \<le> 0xBF else if a = 0xED then 0x80 \<le> b \<and> b \<le> 0x9F
     else if a = 0xF0 then 0x90 \<le> b \<and> b \<le> 0xBF else if a = 0xF4 then 0x80 \<le> b \<and> b \<le> 0x8F else utf8_cont b)"

definition utf8_prefix :: "u8 \<Rightarrow> bytes \<Rightarrow> nat" where
  "utf8_prefix a bs =
     (if utf8_width a \<le> 1 then 0
      else case bs of [] \<Rightarrow> 0 | b # bs \<Rightarrow>
        if utf8_second a b then Suc (length (takeWhile utf8_cont (take (utf8_width a - 2) bs))) else 0)"

function from_utf8_lossy :: "bytes \<Rightarrow> string" where
  "from_utf8_lossy [] = []"
| "from_utf8_lossy (a # bs) =
     (let n = utf8_prefix a bs in
      (if Suc n = utf8_width a then map (\<lambda>b. char_of (unat b)) (a # take n bs)
       else map char_of [0xEF, 0xBF, 0xBD :: nat]) @ from_utf8_lossy (drop n bs))"
  by pat_completeness auto
termination by (relation "measure length") auto

section \<open>Pages\<close>

definition MAX_PAGE_COUNT :: nat where "MAX_PAGE_COUNT = 100"
definition DEFAULT_CONTENT_BODY_SIZE :: u64 where "DEFAULT_CONTENT_BODY_SIZE = 100"
definition MAX_CONTENT_BODY_SIZE :: u64 where "MAX_CONTENT_BODY_SIZE = 4096"
definition MAX_CONTENT_PREVIEW :: nat where "MAX_CONTENT_PREVIEW = 100"

record CursorPaginationParams =
  cp_count :: "nat option"
  cp_order :: "OrderParam option"
  cp_cursor :: "string option"

record HeightPaginationParams = CursorPaginationParams +
  hp_from :: "u64 option"
  hp_to :: "u64 option"

record ParsedPaginationParams =
  pp_count :: nat
  pp_order :: OrderParam
  pp_range :: key_range

definition page_count :: "nat option \<Rightarrow> MapiError + nat" where
  "page_count params_count =
     (let count = unwrap_or params_count MAX_PAGE_COUNT in
      if count > MAX_PAGE_COUNT \<or> count = 0 then Inl (MalformedRequest ''Invalid page size'') else Inr count)"

definition cursor_key :: "('p \<Rightarrow> bytes) \<Rightarrow> ('c \<Rightarrow> bytes) \<Rightarrow> Namespace \<Rightarrow> Reducer \<Rightarrow> 'p option \<Rightarrow> 'c \<Rightarrow> bytes" where
  "cursor_key ep ec encoder reducer key_params cursor =
     prefix_data encoder reducer
       (case key_params of Some p \<Rightarrow> encode_triple ep encode_int ec (p, BREAK, cursor) | None \<Rightarrow> ec cursor)"

definition apply_cursor ::
  "'a MapiCrates \<Rightarrow> ('p \<Rightarrow> bytes) \<Rightarrow> 'c schema \<Rightarrow> Namespace \<Rightarrow> Reducer \<Rightarrow> 'p option \<Rightarrow> OrderParam \<Rightarrow> string option \<Rightarrow>
   key_range \<Rightarrow> MapiError + key_range" where
  "apply_cursor C ep c encoder reducer key_params order params_cursor r =
     (case params_cursor of None \<Rightarrow> Inr r
      | Some s \<Rightarrow>
          (case decode_base64 (mc_b64_decode C) (sc_dec c) s of
             Inl _ \<Rightarrow> Inl (MalformedRequest ''Malformed cursor: unable to decode'')
           | Inr (cursor, _) \<Rightarrow>
               let k = cursor_key ep (sc_enc c) encoder reducer key_params cursor in
               if \<not> (fst r \<le> k \<and> k \<le> snd r) then Inl (MalformedRequest ''Malformed cursor: invalid for height range'')
               else Inr (if order = Asc then (k @ [0], snd r) else (fst r, k))))"

definition height_parse ::
  "'a MapiCrates \<Rightarrow> ('p \<Rightarrow> bytes) \<Rightarrow> 'c schema \<Rightarrow> HeightPaginationParams \<Rightarrow> Namespace \<Rightarrow> Reducer \<Rightarrow> 'p option \<Rightarrow>
   MapiError + ParsedPaginationParams" where
  "height_parse C ep c params encoder reducer key_params =
     and_then (page_count (cp_count params)) (\<lambda>count.
     let order = unwrap_or (cp_order params) Asc;
         r = reducer_key_range ep encode_int encode_int encoder reducer key_params (hp_from params)
           (map_option (\<lambda>x. saturating_add x 1) (hp_to params))
     in and_then (apply_cursor C ep c encoder reducer key_params order (cp_cursor params) r) (\<lambda>r.
     Inr \<lparr>pp_count = count, pp_order = order, pp_range = r\<rparr>))"

text \<open>\<open>ParsedPaginationParams::parse\<close> has the same text for the same parameters.\<close>

definition pagination_parse ::
  "'a MapiCrates \<Rightarrow> ('p \<Rightarrow> bytes) \<Rightarrow> 'c schema \<Rightarrow> HeightPaginationParams \<Rightarrow> Namespace \<Rightarrow> Reducer \<Rightarrow> 'p option \<Rightarrow>
   MapiError + ParsedPaginationParams" where
  "pagination_parse C ep c params encoder reducer key_params =
     and_then (page_count (cp_count params)) (\<lambda>count.
     let order = unwrap_or (cp_order params) Asc;
         r = reducer_key_range ep encode_int encode_int encoder reducer key_params (hp_from params)
           (map_option (\<lambda>x. saturating_add x 1) (hp_to params))
     in and_then (apply_cursor C ep c encoder reducer key_params order (cp_cursor params) r) (\<lambda>r.
     Inr \<lparr>pp_count = count, pp_order = order, pp_range = r\<rparr>))"

definition parse_no_height ::
  "'a MapiCrates \<Rightarrow> ('p \<Rightarrow> bytes) \<Rightarrow> 'c schema \<Rightarrow> CursorPaginationParams \<Rightarrow> Namespace \<Rightarrow> Reducer \<Rightarrow> 'p option \<Rightarrow>
   MapiError + ParsedPaginationParams" where
  "parse_no_height C ep c params encoder reducer key_params =
     and_then (page_count (cp_count params)) (\<lambda>count.
     let order = unwrap_or (cp_order params) Asc;
         r = reducer_key_range ep encode_int encode_int encoder reducer key_params (None :: u64 option) (None :: u64 option)
     in and_then (apply_cursor C ep c encoder reducer key_params order (cp_cursor params) r) (\<lambda>r.
     Inr \<lparr>pp_count = count, pp_order = order, pp_range = r\<rparr>))"

section \<open>Identifiers\<close>

datatype RuneIdentifier = RuneId "u64 \<times> u32" | RuneName u128

definition SPACER :: string where
  "SPACER = map char_of [0xE2, 0x80, 0xA2 :: nat]"

fun remove_spacers :: "string \<Rightarrow> string" where
  "remove_spacers (a # b # c # s) = (if [a, b, c] = SPACER then remove_spacers s else a # remove_spacers (b # c # s))"
| "remove_spacers s = s"

definition RUNE_ID_FORM :: string where
  "RUNE_ID_FORM = ''Rune ID must be etching block and transaction index in form '' @ CHR 0x27 # ''2519999:31'' @ [CHR 0x27]"

definition rune_identifier_parse :: "'a MapiCrates \<Rightarrow> string \<Rightarrow> MapiError + RuneIdentifier" where
  "rune_identifier_parse C s =
     (if CHR '':'' \<in> set s then
        let parts = split_on (CHR '':'') s in
        if length parts \<noteq> 2 then Inl (MalformedRequest RUNE_ID_FORM)
        else and_then (ok_or (parse_uint (parts ! 0)) (MalformedRequest RUNE_ID_FORM)) (\<lambda>block.
             and_then (ok_or (parse_uint (parts ! 1)) (MalformedRequest RUNE_ID_FORM)) (\<lambda>tx.
             Inr (RuneId (block, tx))))
      else and_then (ok_or (mc_rune_from_str C (remove_spacers s)) (MalformedRequest ''Unable to decode rune name'')) (\<lambda>n.
        Inr (RuneName n)))"

definition parse_inscription_id :: "'a MapiCrates \<Rightarrow> string \<Rightarrow> MapiError + bytes \<times> u32" where
  "parse_inscription_id C input =
     (let (hex_part, parts) = iter_next (split_on (CHR ''i'') input) in
      and_then (ok_or hex_part (MalformedRequest ''Empty inscription ID'')) (\<lambda>hex_part.
      let (int_part, parts) = iter_next parts in
      and_then (ok_or int_part (MalformedRequest ''Missing inscription index'')) (\<lambda>int_part.
      if fst (iter_next parts) \<noteq> None then Inl (MalformedRequest ''Wrong inscription ID'')
      else and_then (ok_or (mc_hex_decode C hex_part) (InvalidHex hex_part)) (\<lambda>b.
        if length b \<noteq> 32 then Inl (MalformedRequest ''Wrong tx hash in inscription ID'')
        else and_then (ok_or (parse_uint int_part) (MalformedRequest ''Wrong index in inscription ID'')) (\<lambda>number.
          Inr (rev b, number))))))"

definition parse_varuint :: "VarUInt \<Rightarrow> string \<Rightarrow> MapiError + 'b::len word" where
  "parse_varuint v error_msg =
     (case try_from_varuint v of Inl e \<Rightarrow> Inl (MalformedData (into_bytes error_msg) (Some e)) | Inr x \<Rightarrow> Inr x)"

section \<open>Addresses and names\<close>

definition address_of_script :: "'a Mapi \<Rightarrow> bytes \<Rightarrow> ('a option \<times> bytes) mapi" where
  "address_of_script M script =
     (case mp_mode M of
        ModeDogecoin \<Rightarrow> mapi_ok (mc_address_from_script (mp_crates M) Mainnet script, script)
      | ModeDogecoinTestnet \<Rightarrow> mapi_ok (mc_address_from_script (mp_crates M) Testnet script, script)
      | GenerateOpenApi \<Rightarrow> None)"

definition parse_address_or_script_bytes :: "'a Mapi \<Rightarrow> Snapshot \<Rightarrow> string \<Rightarrow> ('a option \<times> bytes) mapi" where
  "parse_address_or_script_bytes M S input =
     (case mc_address_from_str (mp_crates M) input of
        Some addr \<Rightarrow>
          mapi_bind (mapi_lift (script_hash_by_address_payload_hash_encoder (mp_registry M))) (\<lambda>encoder.
          mapi_bind (mapi_lift (get_reducer_key_maybe S encoder ScriptHashByAddressPayloadHash
            (sc_enc script_hash_by_address_payload_hash_Key (mc_address_script_hash (mp_crates M) addr))
            (sc_dec script_hash_by_address_payload_hash_Value))) (\<lambda>x.
          case x of None \<Rightarrow> mapi_err NotFound | Some script_hash \<Rightarrow>
          mapi_bind (mapi_lift (script_by_script_hash_encoder (mp_registry M))) (\<lambda>encoder.
          mapi_bind (mapi_lift (get_reducer_key_maybe S encoder ScriptByScriptHash
            (sc_enc script_by_script_hash_Key script_hash) (sc_dec script_by_script_hash_Value))) (\<lambda>y.
          case y of None \<Rightarrow> mapi_err (Internal ''missing script by sh'') | Some script \<Rightarrow>
          mapi_ok (Some addr, script)))))
      | None \<Rightarrow>
          (case mc_hex_decode (mp_crates M) input of
             None \<Rightarrow> mapi_err (MalformedRequest ''Could not decode as address or hex-encoded script pubkey'')
           | Some script_bytes \<Rightarrow> address_of_script M script_bytes))"

definition resolve_script_hash :: "'a Mapi \<Rightarrow> Snapshot \<Rightarrow> bytes \<Rightarrow> Namespace \<Rightarrow> ('a option \<times> bytes) mapi" where
  "resolve_script_hash M S script_hash encoder =
     mapi_bind (mapi_lift (get_reducer_key S encoder ScriptByScriptHash (sc_enc script_by_script_hash_Key script_hash)
       (decode_vec decode_int))) (address_of_script M)"

definition resolve_rune_name :: "'a Mapi \<Rightarrow> Snapshot \<Rightarrow> u128 \<Rightarrow> (u64 \<times> u32) option mapi" where
  "resolve_rune_name M S rune_name =
     mapi_bind (mapi_lift (rune_id_by_name_encoder (mp_registry M))) (\<lambda>encoder.
     mapi_lift (get_reducer_key_maybe S encoder RuneIdByRuneName (sc_enc rune_id_by_rune_name_Key rune_name)
       (sc_dec rune_id_by_rune_name_Value)))"

section \<open>Amounts\<close>

definition decimal :: "u128 \<Rightarrow> nat \<Rightarrow> string" where
  "decimal num dec =
     (let bal_string = dec_string (unat num); bal_string_len = length bal_string in
      if dec > 0 then
        if bal_string_len = dec then ''0.'' @ bal_string
        else if bal_string_len < dec then ''0.'' @ replicate (dec - bal_string_len) (CHR ''0'') @ bal_string
        else take (bal_string_len - dec) bal_string @ CHR ''.'' # drop (bal_string_len - dec) bal_string
      else bal_string)"

lemma decimal_parts:
  assumes "0 < dec"
  shows "\<exists>i f. decimal num dec = i @ CHR ''.'' # f \<and> numeral_ok i \<and> numeral_ok f \<and> length f = dec \<and>
    dec_value i * 10 ^ dec + dec_value f = unat num"
proof -
  let ?s = "dec_string (unat num)"
  have s: "list_all is_digit ?s" "?s \<noteq> []" "dec_value ?s = unat num" using dec_string_digits by auto
  show ?thesis
  proof (cases "length ?s > dec")
    case True
    let ?i = "take (length ?s - dec) ?s" and ?f = "drop (length ?s - dec) ?s"
    have "dec_value ?s = dec_value ?i * 10 ^ length ?f + dec_value ?f" using dec_value_append [of ?i ?f] by simp
    moreover have "length ?f = dec" using True by simp
    moreover have "list_all is_digit (?i @ ?f)" using s(1) by simp
    then have "list_all is_digit ?i \<and> list_all is_digit ?f" by (simp only: list_all_append)
    then have "numeral_ok ?i" "numeral_ok ?f" using True assms by (auto simp: numeral_ok_def)
    moreover have "decimal num dec = ?i @ CHR ''.'' # ?f" using True assms by (simp add: decimal_def Let_def)
    ultimately show ?thesis using s(3) by (intro exI [of _ ?i] exI [of _ ?f]) simp
  next
    case False
    let ?f = "replicate (dec - length ?s) (CHR ''0'') @ ?s"
    have "dec_value (replicate k (CHR ''0'')) = 0" for k using dec_value_zeros [of "[]" k] by (simp add: dec_value_def)
    then have "dec_value ?f = unat num" using s(3) by (simp add: dec_value_append)
    moreover have "numeral_ok ?f" using s by (auto simp: numeral_ok_def list_all_iff is_digit_def)
    moreover have "dec_value ''0'' = 0" "numeral_ok ''0''" by (simp_all add: dec_value_def digit_val_def numeral_ok_def is_digit_def)
    moreover have "decimal num dec = ''0'' @ CHR ''.'' # ?f" using False assms by (auto simp: decimal_def Let_def)
    ultimately show ?thesis using False by (intro exI [of _ "''0''"] exI [of _ ?f]) simp
  qed
qed

lemma numeral_no_dot: "numeral_ok i \<Longrightarrow> CHR ''.'' \<notin> set i"
  by (auto simp: numeral_ok_def list_all_iff is_digit_def)

text \<open>
  C40. Amounts are printed so that they read back. An amount with up to 18 decimals whose whole part
  fits 64 bits is printed as a decimal number that the parser of drc-20 messages reads as the same
  amount: padding zeros, the point and the number of decimals are right in all cases.
\<close>

theorem decimal_reads_back:
  assumes "dec \<le> 18" "unat num div 10 ^ unat dec < 2 ^ 64"
  shows "parse_decimal (decimal num (unat dec)) dec = Some (Some num)"
proof -
  let ?d = "unat dec"
  have "decimal_spec (decimal num ?d) ?d = Some (unat num)"
  proof (cases "?d = 0")
    case True
    have s: "numeral_ok (dec_string (unat num))" using dec_string_digits by (simp add: numeral_ok_def)
    moreover have "unat num < 2 ^ 64" using assms(2) True by simp
    then have "int (unat num) < int (2 ^ 64)" by (simp only: of_nat_less_iff)
    then have "uint num < 2 ^ 64" by simp
    ultimately show ?thesis using True by (simp add: decimal_spec_def decimal_def split_on_single numeral_no_dot)
  next
    case False
    obtain i f where if': "decimal num ?d = i @ CHR ''.'' # f" "numeral_ok i" "numeral_ok f" "length f = ?d"
      "dec_value i * 10 ^ ?d + dec_value f = unat num" using decimal_parts [of ?d num] False by auto
    have "dec_value f < 10 ^ ?d" using dec_value_less [of f] if'(3,4) by (simp add: numeral_ok_def)
    then have "dec_value i = unat num div 10 ^ ?d" using if'(5) by (metis add.commute div_mult_self3 div_less add_0 power_not_zero zero_neq_numeral)
    then have "int (dec_value i) < int (2 ^ 64)" using assms(2) by (simp only: of_nat_less_iff)
    then have "int (dec_value i) < 2 ^ 64" by simp
    then show ?thesis using if' by (simp add: decimal_spec_def split_on_append split_on_single numeral_no_dot)
  qed
  then show ?thesis using parse_decimal_spec [OF assms(1), of "decimal num ?d"] by (auto simp: word_unat_eq_iff)
qed

theorem decimal_reads_back_witness:
  "decimal 5 2 = ''0.05'' \<and> parse_decimal ''0.05'' 2 = Some (Some 5)"
proof -
  have d: "decimal 5 2 = ''0.05''" by code_simp
  then show ?thesis using decimal_reads_back [of 2 5] by simp
qed

end
