(* ===== verification/Mapi_Paging.thy ===== *)
theory Mapi_Paging
  imports Mapi_Params
begin

text \<open>
  Paged answers: the loop that turns the fetched entries into the rows of a page with the cursor of the
  next one (it is repeated in the handlers under \<open>services/mapi-xdg/src/api/\<close>), and the contract of a
  paged listing. A client that follows the cursors gets every row once: the locale \<open>cursor_listing\<close>
  states what a handler promises for one request, and proves it for the sequence of requests.
\<close>

section \<open>The rows of a page\<close>

record 'r PaginatedResponse =
  pr_data :: "'r list"
  pr_last_updated :: LastUpdated
  pr_next_cursor :: "string option"

record 'r TimestampedResponse =
  tr_data :: 'r
  tr_last_updated :: LastUpdated

text \<open>
  At the last entry of a page the entry after it is taken from the iterator to see whether there is
  another page.
\<close>

fun page_rows ::
  "nat \<Rightarrow> ('kv \<Rightarrow> 'c) \<Rightarrow> ('kv \<Rightarrow> 'r mapi) \<Rightarrow> nat \<Rightarrow> 'kv list \<Rightarrow> 'r list \<Rightarrow> 'c option \<Rightarrow> ('r list \<times> 'c option) mapi" where
  "page_rows cnt cursor row i [] rows next_cursor = mapi_ok (rows, next_cursor)"
| "page_rows cnt cursor row i [kv] rows next_cursor =
     mapi_bind (row kv) (\<lambda>r. mapi_ok (rows @ [r], next_cursor))"
| "page_rows cnt cursor row i (kv # kv' # kvs) rows next_cursor =
     (if i = cnt - 1
      then mapi_bind (row kv) (\<lambda>r. page_rows cnt cursor row (Suc (Suc i)) kvs (rows @ [r]) (Some (cursor kv)))
      else mapi_bind (row kv) (\<lambda>r. page_rows cnt cursor row (Suc i) (kv' # kvs) (rows @ [r]) next_cursor))"

definition respond :: "LastUpdated \<Rightarrow> ('r list \<times> string option) mapi \<Rightarrow> 'r PaginatedResponse mapi" where
  "respond last_updated page =
     mapi_bind page (\<lambda>(rows, next_cursor).
       mapi_ok \<lparr>pr_data = rows, pr_last_updated = last_updated, pr_next_cursor = next_cursor\<rparr>)"

definition page_of :: "'r PaginatedResponse mapi \<Rightarrow> ('r list \<times> string option) mapi" where
  "page_of answer = mapi_bind answer (\<lambda>r. mapi_ok (pr_data r, pr_next_cursor r))"

lemma page_of_respond [simp]: "page_of (respond lu page) = page"
  by (cases page rule: mapi_cases) (auto simp: page_of_def respond_def split: prod.splits)

lemma page_of_err [simp]: "page_of (mapi_err e) = mapi_err e"
  by (simp add: page_of_def)

lemma mapi_bind_assoc: "mapi_bind (mapi_bind r f) g = mapi_bind r (\<lambda>x. mapi_bind (f x) g)"
  by (cases r rule: mapi_cases) auto

lemma mapi_bind_ok_right [simp]: "mapi_bind r mapi_ok = r"
  by (cases r rule: mapi_cases) auto

lemma page_of_bind: "page_of (mapi_bind r f) = mapi_bind r (\<lambda>x. page_of (f x))"
  by (simp add: page_of_def mapi_bind_assoc)

lemma page_rows_exact:
  assumes "i < cnt" "length kvs \<le> Suc (cnt - i)" "\<And>kv. kv \<in> set kvs \<Longrightarrow> row kv = mapi_ok (R kv)"
  shows "page_rows cnt cursor row i kvs rows nxt =
    mapi_ok (rows @ map R (take (cnt - i) kvs), if cnt - i < length kvs then Some (cursor (kvs ! (cnt - Suc i))) else nxt)"
  using assms
proof (induction kvs arbitrary: i rows rule: induct_list012)
  case 1
  then show ?case by simp
next
  case (2 kv)
  then have "take (cnt - i) [kv] = [kv]" by (cases "cnt - i") auto
  then show ?case using 2 by simp
next
  case (3 kv kv' kvs)
  show ?case
  proof (cases "i = cnt - 1")
    case True
    then have "kvs = []" "cnt - i = 1" using 3 by auto
    then show ?thesis using 3 True by simp
  next
    case False
    then obtain m where m: "cnt - i = Suc (Suc m)" "cnt - Suc i = Suc m" "Suc i < cnt" "cnt - Suc (Suc i) = m" 
      using "3.prems"(1) by (metis Suc_diff_Suc Suc_lessI diff_Suc_1)
    have "page_rows cnt cursor row (Suc i) (kv' # kvs) (rows @ [R kv]) nxt = mapi_ok ((rows @ [R kv]) @ map R (take (cnt - Suc i) (kv' # kvs)),
        if cnt - Suc i < length (kv' # kvs) then Some (cursor ((kv' # kvs) ! (cnt - Suc (Suc i)))) else nxt)"
      using "3.prems" m by (intro "3.IH"(2)) auto
    then show ?thesis using "3.prems"(3) m False by simp
  qed
qed

lemma page_count_bounds: "page_count c = Inr n \<Longrightarrow> 0 < n \<and> n \<le> 100"
  by (auto simp: page_count_def MAX_PAGE_COUNT_def Let_def split: if_splits)

section \<open>Following the cursors\<close>

inductive follow :: "('c option \<Rightarrow> ('r list \<times> 'c option) mapi) \<Rightarrow> 'c option \<Rightarrow> 'r list list \<Rightarrow> bool"
  for ask where
  last_page: "ask c = mapi_ok (rows, None) \<Longrightarrow> follow ask c [rows]"
| next_page: "ask c = mapi_ok (rows, Some c') \<Longrightarrow> follow ask (Some c') pages \<Longrightarrow> follow ask c (rows # pages)"

inductive_cases followE: "follow ask c pages"

lemma follow_unique: "follow ask c ps \<Longrightarrow> follow ask c qs \<Longrightarrow> ps = qs"
proof (induction arbitrary: qs rule: follow.induct)
  case (last_page c rows)
  from last_page.prems show ?case by (rule followE) (use last_page.hyps in auto)
next
  case (next_page c rows c' pages)
  from next_page.prems show ?case
  proof (rule followE)
    fix rs assume "qs = [rs]" "ask c = mapi_ok (rs, None)"
    then show ?thesis using next_page.hyps by simp
  next
    fix rs d ps assume "qs = rs # ps" "ask c = mapi_ok (rs, Some d)" "follow ask (Some d) ps"
    then show ?thesis using next_page.hyps next_page.IH by simp
  qed
qed

definition page_from :: "nat \<Rightarrow> (nat \<Rightarrow> 'c) \<Rightarrow> 'r list \<Rightarrow> nat \<Rightarrow> 'r list \<times> 'c option" where
  "page_from n mark rows i = (take n (drop i rows), if i + n < length rows then Some (mark (i + n - 1)) else None)"

text \<open>What a client sees: pages that are full but for the last, and together the listing.\<close>

definition lists_all :: "('c option \<Rightarrow> ('r list \<times> 'c option) mapi) \<Rightarrow> nat \<Rightarrow> 'r list \<Rightarrow> bool" where
  "lists_all ask n rows \<longleftrightarrow> (\<exists>pages. follow ask None pages \<and> concat pages = rows \<and>
     (\<forall>p\<in>set (butlast pages). length p = n) \<and> length (last pages) \<le> n)"

locale cursor_listing =
  fixes ok :: "'q \<Rightarrow> bool" and ask :: "'q \<Rightarrow> 'c option \<Rightarrow> ('r list \<times> 'c option) mapi"
    and rows :: "'q \<Rightarrow> 'r list" and mark :: "'q \<Rightarrow> nat \<Rightarrow> 'c" and per_page :: "'q \<Rightarrow> nat"
  assumes per_page: "ok q \<Longrightarrow> 0 < per_page q"
    and first: "ok q \<Longrightarrow> ask q None = mapi_ok (page_from (per_page q) (mark q) (rows q) 0)"
    and after: "ok q \<Longrightarrow> i < length (rows q) \<Longrightarrow>
      ask q (Some (mark q i)) = mapi_ok (page_from (per_page q) (mark q) (rows q) (Suc i))"
begin

lemma pages_from:
  assumes "ok q" "ask q c = mapi_ok (page_from (per_page q) (mark q) (rows q) i)"
  shows "\<exists>pages. follow (ask q) c pages \<and> concat pages = drop i (rows q) \<and>
    (\<forall>p\<in>set (butlast pages). length p = per_page q) \<and> length (last pages) \<le> per_page q"
  using assms(2)
proof (induction "length (rows q) - i" arbitrary: i c rule: less_induct)
  case less
  let ?n = "per_page q" and ?p = "take (per_page q) (drop i (rows q))"
  have n: "0 < ?n" using per_page [OF assms(1)] .
  show ?case
  proof (cases "i + ?n < length (rows q)")
    case False
    then have "follow (ask q) c [?p]" using less.prems by (intro last_page) (simp add: page_from_def)
    then show ?thesis using False by (intro exI [of _ "[?p]"]) simp
  next
    case True
    let ?j = "i + ?n - 1"
    have j: "?j < length (rows q)" "Suc ?j = i + ?n" using True n by auto
    have "length (rows q) - (i + ?n) < length (rows q) - i" using True n by auto
    moreover have "ask q (Some (mark q ?j)) = mapi_ok (page_from ?n (mark q) (rows q) (i + ?n))"
      using after [OF assms(1) j(1)] j(2) by simp
    ultimately obtain pages where pages: "follow (ask q) (Some (mark q ?j)) pages" "concat pages = drop (i + ?n) (rows q)"
      "\<forall>p\<in>set (butlast pages). length p = ?n" "length (last pages) \<le> ?n" using less.hyps by blast
    have "follow (ask q) c (?p # pages)"
      using less.prems True pages(1) by (intro follow.next_page) (simp_all add: page_from_def)
    moreover have "concat (?p # pages) = drop i (rows q)"
      using pages(2) append_take_drop_id [of ?n "drop i (rows q)"] by (simp add: add.commute)
    moreover have "length ?p = ?n" using True by simp
    moreover have "pages \<noteq> []" using pages(1) by (auto elim: followE)
    ultimately show ?thesis using pages(3,4) by (intro exI [of _ "?p # pages"]) auto
  qed
qed

lemma listing: "ok q \<Longrightarrow> lists_all (ask q) (per_page q) (rows q)"
  using pages_from [OF _ first, of q] unfolding lists_all_def by simp

end

section \<open>Pages of a scan\<close>

text \<open>The entries that a scan after a cursor reads are those after the entry the cursor was made for.\<close>

lemma filter_drop:
  "j < length (filter P xs) \<Longrightarrow> \<exists>i<length xs. xs ! i = filter P xs ! j \<and> filter P (drop (Suc i) xs) = drop (Suc j) (filter P xs)"
proof (induction xs arbitrary: j)
  case (Cons x xs)
  show ?case
  proof (cases "P x \<and> j = 0")
    case True
    then show ?thesis by (intro exI [of _ 0]) simp
  next
    case False
    then obtain k where k: "k < length (filter P xs)" "filter P (x # xs) ! j = filter P xs ! k"
      "drop (Suc j) (filter P (x # xs)) = drop (Suc k) (filter P xs)" using Cons.prems by (cases "P x"; cases j) auto
    from Cons.IH [OF k(1)] obtain i where "i < length xs" "xs ! i = filter P xs ! k" "filter P (drop (Suc i) xs) = drop (Suc k) (filter P xs)"
      by blast
    then show ?thesis using k(2,3) by (intro exI [of _ "Suc i"]) simp
  qed
qed simp

lemma scan_entries_after:
  assumes fin: "finite (dom db)" and ne: "[] \<notin> dom db" and i: "i < length (scan_entries order db r)"
  shows "scan_entries order db (remaining_range order r (fst (scan_entries order db r ! i))) = drop (Suc i) (scan_entries order db r)"
proof -
  let ?K = "ordered_keys order db r"
  have len: "i < length ?K" using i by (simp add: scan_entries_def with_values_def)
  then have "take (Suc i) ?K \<noteq> []" "last (take (Suc i) ?K) = ?K ! i" by (auto simp: take_Suc_conv_app_nth)
  moreover have "fst (scan_entries order db r ! i) = ?K ! i" using len by (simp add: scan_entries_def with_values_def)
  ultimately show ?thesis using ordered_keys_remaining [OF fin ne, of "Suc i" order r]
    by (simp add: scan_entries_def with_values_def drop_map)
qed

lemma scan_entries_in_range: "finite (dom db) \<Longrightarrow> kv \<in> set (scan_entries order db r) \<Longrightarrow> in_range r (fst kv) \<and> db (fst kv) = Some (snd kv)"
  by (auto simp: scan_entries_def with_values_def set_ordered_keys)

text \<open>A cursor that was made for an entry of the range gives the range after the entry.\<close>

lemma apply_cursor_made:
  assumes "mc_b64_decode C (mc_b64_encode C (sc_enc c cv)) = Some (sc_enc c cv)" "lawful c" "sc_wf c cv"
    and "k = cursor_key ep (sc_enc c) encoder reducer key_params cv" "in_range r k" "snd r \<noteq> []"
  shows "apply_cursor C ep c encoder reducer key_params order (Some (encode_base64 (mc_b64_encode C) (sc_enc c) cv)) r =
    Inr (remaining_range order r k)"
proof -
  have "sc_dec c (sc_enc c cv) = Inr (cv, [])" using lawful_dec_enc [OF assms(2,3), of "[]"] by simp
  then have "decode_base64 (mc_b64_decode C) (sc_dec c) (encode_base64 (mc_b64_encode C) (sc_enc c) cv) = Inr (cv, [])"
    using assms(1) by (simp add: decode_base64_def encode_base64_def)
  moreover have "fst r \<le> k \<and> k \<le> snd r" using assms(5,6) by (auto simp: in_range_def)
  ultimately show ?thesis using assms(4) by (cases order) (auto simp: apply_cursor_def remaining_range_def Let_def)
qed

text \<open>The page of a listing from the entries that a scan fetched, one more than a page has.\<close>

lemma page_of_scan:
  assumes "0 < cnt" "\<And>kv. kv \<in> set items \<Longrightarrow> row kv = mapi_ok (R kv)"
  shows "page_rows cnt cursor row 0 (truncate_to (Some (Suc cnt)) (drop i items)) [] None =
    mapi_ok (page_from cnt (\<lambda>j. cursor (items ! j)) (map R items) i)"
proof -
  let ?kvs = "take (Suc cnt) (drop i items)"
  have "row kv = mapi_ok (R kv)" if "kv \<in> set ?kvs" for kv using that assms(2) by (meson in_set_dropD in_set_takeD)
  then have "page_rows cnt cursor row 0 ?kvs [] None =
      mapi_ok (map R (take cnt ?kvs), if cnt < length ?kvs then Some (cursor (?kvs ! (cnt - 1))) else None)"
    using page_rows_exact [of 0 cnt ?kvs row R cursor "[]" None] assms(1) by simp
  moreover have "take cnt ?kvs = take cnt (drop i items)" by (simp add: min_def)
  moreover have "cnt < length ?kvs \<longleftrightarrow> i + cnt < length items" by auto
  moreover have "?kvs ! (cnt - 1) = items ! (i + cnt - 1)" if "i + cnt < length items"
    using that assms(1) by simp
  ultimately show ?thesis by (simp add: truncate_to_def page_from_def take_map drop_map)
qed

section \<open>A page stays in its table\<close>

definition param_prefix :: "('p \<Rightarrow> bytes) \<Rightarrow> Namespace \<Rightarrow> Reducer \<Rightarrow> 'p option \<Rightarrow> bytes" where
  "param_prefix ep n r kp = [dataplane_id n, instance_id n, PREFIX_DATA, reducer_u8 r, BREAK] @
     (case kp of None \<Rightarrow> [] | Some p \<Rightarrow> ep p @ [BREAK])"

definition page_within :: "bytes \<Rightarrow> ParsedPaginationParams \<Rightarrow> bool" where
  "page_within x pp \<longleftrightarrow> 0 < pp_count pp \<and> pp_count pp \<le> 100 \<and> (\<forall>k. in_range (pp_range pp) k \<longrightarrow> has_prefix x k)"

lemma range_prefix: "in_range (reducer_key_range ep eb ec n r kp lo up) k \<Longrightarrow> has_prefix (param_prefix ep n r kp) k"
proof (cases kp)
  case (Some p)
  assume "in_range (reducer_key_range ep eb ec n r kp lo up) k"
  then show ?thesis
    using in_break_range_prefix [of "[dataplane_id n, instance_id n, PREFIX_DATA, reducer_u8 r] @ BREAK # ep p"]
    by (simp add: Some reducer_key_range_break param_prefix_def)
next
  case None
  assume "in_range (reducer_key_range ep eb ec n r kp lo up) k"
  then show ?thesis
    using in_break_range_prefix [of "[dataplane_id n, instance_id n, PREFIX_DATA, reducer_u8 r]"]
    by (simp add: None reducer_key_range_break param_prefix_def)
qed

lemma apply_cursor_within:
  assumes "apply_cursor C ep c encoder reducer key_params order params_cursor r = Inr r'" "in_range r' k"
  shows "in_range r k"
proof (cases params_cursor)
  case None
  then show ?thesis using assms by (simp add: apply_cursor_def)
next
  case (Some s)
  from assms(1) Some obtain cursor rest where d: "decode_base64 (mc_b64_decode C) (sc_dec c) s = Inr (cursor, rest)"
    by (auto simp: apply_cursor_def split: sum.splits)
  define x where "x = cursor_key ep (sc_enc c) encoder reducer key_params cursor"
  have b: "fst r \<le> x" "x \<le> snd r" "r' = (if order = Asc then (x @ [0], snd r) else (fst r, x))"
    using assms(1) Some d by (auto simp: apply_cursor_def x_def Let_def split: if_splits)
  have "x \<noteq> []" by (simp add: x_def cursor_key_def)
  then show ?thesis using assms(2) b by (auto simp: in_range_def snoc_zero_le split: if_splits)
qed

text \<open>
  C19. Parsed page parameters are well formed. Whatever a client sends, parameters that are accepted ask
  for 1 to 100 rows, and every key of their range lies in the table of the reducer, under the parameter of
  the request: a cursor cannot lead out of the table, or to the entries of another script, dune or ticker.
\<close>

theorem parsed_pages_within:
  "(height_parse C ep c params n r kp = Inr pp \<longrightarrow> page_within (param_prefix ep n r kp) pp) \<and>
   (pagination_parse C ep c params n r kp = Inr pp \<longrightarrow> page_within (param_prefix ep n r kp) pp) \<and>
   (parse_no_height C ep c params' n r kp = Inr pp \<longrightarrow> page_within (param_prefix ep n r kp) pp)"
proof -
  have "page_within (param_prefix ep n r kp) \<lparr>pp_count = cnt, pp_order = order, pp_range = rng\<rparr>"
    if "page_count x = Inr cnt" "apply_cursor C ep c n r kp order cur (reducer_key_range ep encode_int encode_int n r kp lo up) = Inr rng"
    for x cnt order cur rng and lo up :: "u64 option"
    using page_count_bounds [OF that(1)] range_prefix [OF apply_cursor_within [OF that(2)]] by (simp add: page_within_def)
  then show ?thesis
    by (auto simp: height_parse_def pagination_parse_def parse_no_height_def Let_def and_then_Inr_iff)
qed

theorem parsed_pages_within_witness:
  "page_within [1, 2, PREFIX_DATA, reducer_u8 UtxosByScriptHash, BREAK, 7, BREAK]
     \<lparr>pp_count = 5, pp_order = Asc, pp_range = reducer_key_range id encode_int encode_int \<lparr>dataplane_id = 1, instance_id = 2\<rparr>
       UtxosByScriptHash (Some [7]) (Some (4 :: u64)) (None :: u64 option)\<rparr> \<and>
   page_within [1, 2, PREFIX_DATA, reducer_u8 UtxosByScriptHash, BREAK, 7, BREAK]
     \<lparr>pp_count = 5, pp_order = Asc, pp_range = reducer_key_range id encode_int encode_int \<lparr>dataplane_id = 1, instance_id = 2\<rparr>
       UtxosByScriptHash (Some [7]) (None :: u64 option) (None :: u64 option)\<rparr>"
proof -
  let ?n = "\<lparr>dataplane_id = 1, instance_id = 2\<rparr>"
  let ?h = "\<lparr>cp_count = Some 5, cp_order = None, cp_cursor = None, hp_from = Some 4, hp_to = None\<rparr>"
  let ?p = "\<lparr>cp_count = Some 5, cp_order = None, cp_cursor = None\<rparr>"
  have x: "param_prefix id ?n UtxosByScriptHash (Some [7]) = [1, 2, PREFIX_DATA, reducer_u8 UtxosByScriptHash, BREAK, 7, BREAK]"
    by (simp add: param_prefix_def)
  have "height_parse C id sc_u8 ?h ?n UtxosByScriptHash (Some [7]) = Inr \<lparr>pp_count = 5, pp_order = Asc,
      pp_range = reducer_key_range id encode_int encode_int ?n UtxosByScriptHash (Some [7]) (Some (4 :: u64)) (None :: u64 option)\<rparr>"
    "parse_no_height C id sc_u8 ?p ?n UtxosByScriptHash (Some [7]) = Inr \<lparr>pp_count = 5, pp_order = Asc,
      pp_range = reducer_key_range id encode_int encode_int ?n UtxosByScriptHash (Some [7]) (None :: u64 option) (None :: u64 option)\<rparr>" for C :: "unit MapiCrates"
    by (simp_all add: height_parse_def parse_no_height_def page_count_def MAX_PAGE_COUNT_def unwrap_or_def apply_cursor_def)
  then show ?thesis using parsed_pages_within [of _ id sc_u8 _ ?n UtxosByScriptHash "Some [7]"] unfolding x by blast
qed

section \<open>A snapshot\<close>

text \<open>A snapshot of a store that has every answer in one message.\<close>

definition snapshot_at :: "kv_map \<Rightarrow> Snapshot" where
  "snapshot_at db = \<lparr>sn_get = (\<lambda>k. Inr (db k)),
     sn_scan = (\<lambda>r n. Inr (take (unat n) (with_values db (range_keys db r)))),
     sn_scan_reverse = (\<lambda>r n. Inr (take (unat n) (with_values db (rev (range_keys db r))))),
     sn_scan_keys = (\<lambda>r n. Inr (take (unat n) (range_keys db r))),
     sn_scan_keys_reverse = (\<lambda>r n. Inr (take (unat n) (rev (range_keys db r))))\<rparr>"

lemma snapshot_of_at: "finite (dom db) \<Longrightarrow> [] \<notin> dom db \<Longrightarrow> snapshot_of db (snapshot_at db)"
  by (simp add: snapshot_of_def snapshot_at_def answers_def)

end
