(* ===== verification/Mapi_Tables.thy ===== *)
theory Mapi_Tables
  imports Mapi_Paging
begin

text \<open>
  Listings of a table: most paged requests scan a range of a reducer's keys with \<open>Scanner::execute\<close> and
  turn the entries into rows. A request for a page is determined by its cursor, the rest is the record
  \<open>ScanListing\<close>. Such a listing satisfies the contract \<open>cursor_listing\<close>, when the snapshot shows a store
  whose entries in the range can be read.
\<close>

section \<open>Tables in the store\<close>

definition table_key :: "Namespace \<Rightarrow> Reducer \<Rightarrow> 'k schema \<Rightarrow> 'k \<Rightarrow> bytes" where
  "table_key n r K k = prefix_data n r (sc_enc K k)"

text \<open>The store holds exactly the entries of a table under the prefix of its reducer.\<close>

definition holds_table :: "Namespace \<Rightarrow> Reducer \<Rightarrow> 'k schema \<Rightarrow> 'v schema \<Rightarrow> kv_map \<Rightarrow> ('k \<rightharpoonup> 'v) \<Rightarrow> bool" where
  "holds_table n r K V db T \<longleftrightarrow>
     (\<forall>k\<in>dom db. has_prefix [dataplane_id n, instance_id n, PREFIX_DATA, reducer_u8 r, BREAK] k \<longrightarrow> k \<in> table_key n r K ` dom T) \<and>
     (\<forall>k v. T k = Some v \<longrightarrow> sc_wf K k \<and> sc_wf V v \<and> db (table_key n r K k) = Some (sc_enc V v))"

lemma table_key_simp: "table_key n r K k = [dataplane_id n, instance_id n, PREFIX_DATA, reducer_u8 r, BREAK] @ sc_enc K k"
  by (simp add: table_key_def)

lemma table_key_inject: "lawful K \<Longrightarrow> sc_wf K k \<Longrightarrow> sc_wf K k' \<Longrightarrow> table_key n r K k = table_key n r K k' \<longleftrightarrow> k = k'"
  by (simp add: table_key_simp lawful_inject)

lemma read_table_entry:
  assumes "holds_table n r K V db T" "T k = Some v" "lawful K" "lawful V"
  shows "read_entry (sc_dec K) (sc_dec V) (table_key n r K k, sc_enc V v) = Inr (k, v)"
proof -
  have "sc_wf K k" "sc_wf V v" using assms(1,2) by (auto simp: holds_table_def)
  then have "sc_dec K (sc_enc K k) = Inr (k, [])" "sc_dec V (sc_enc V v) = Inr (v, [])"
    using lawful_dec_enc [OF assms(3), of k "[]"] lawful_dec_enc [OF assms(4), of v "[]"] by simp_all
  then show ?thesis by (simp add: read_entry_def read_key_def key_body_def decode_to_def table_key_simp)
qed

lemma sorted_list_of_image:
  fixes f :: "'a::linorder \<Rightarrow> 'b::linorder"
  assumes "finite A" "\<And>x y. x \<in> A \<Longrightarrow> y \<in> A \<Longrightarrow> x < y \<Longrightarrow> f x < f y"
  shows "sorted_list_of_set (f ` A) = map f (sorted_list_of_set A)"
proof (rule sorted_distinct_set_unique)
  have "f x \<le> f y" if "x \<in> A" "y \<in> A" "x \<le> y" for x y using that assms(2) [of x y] by (cases "x = y") (auto simp: order.strict_iff_order)
  then show "sorted (map f (sorted_list_of_set A))"
    using assms(1) sorted_sorted_list_of_set [of A] by (auto simp: sorted_map intro: sorted_wrt_mono_rel [of _ "(\<le>)"])
  have "inj_on f A" by (rule linorder_inj_onI) (use assms(2) in fastforce)+
  then show "distinct (map f (sorted_list_of_set A))" using assms(1) by (simp add: distinct_map)
qed (use assms(1) in auto)

text \<open>Scanning a range of a table whose encoded keys have the order of the keys.\<close>

definition in_order :: "OrderParam \<Rightarrow> 'k list \<Rightarrow> 'k list" where
  "in_order order ks = (case order of Asc \<Rightarrow> ks | Desc \<Rightarrow> rev ks)"

lemma set_in_order [simp]: "set (in_order order ks) = set ks"
  by (cases order) (simp_all add: in_order_def)

lemma map_in_order: "in_order order (map f ks) = map f (in_order order ks)"
  by (cases order) (simp_all add: in_order_def rev_map)

lemma table_range:
  assumes T: "holds_table n r K V db T"
    and pre: "\<And>k. in_range rng k \<Longrightarrow> has_prefix [dataplane_id n, instance_id n, PREFIX_DATA, reducer_u8 r, BREAK] k"
    and P: "\<And>k. k \<in> dom T \<Longrightarrow> in_range rng (table_key n r K k) \<longleftrightarrow> P k"
  shows "{k \<in> dom db. in_range rng k} = table_key n r K ` {k \<in> dom T. P k}"
proof -
  have "k \<in> table_key n r K ` dom T" if "k \<in> dom db" "in_range rng k" for k
    using T pre [OF that(2)] that(1) unfolding holds_table_def by blast
  moreover have "table_key n r K k \<in> dom db" if "k \<in> dom T" for k using T that unfolding holds_table_def by blast
  ultimately show ?thesis using P by blast
qed

lemma scanned_table:
  fixes T :: "'k::linorder \<rightharpoonup> 'v"
  assumes T: "holds_table n r K V db T" and fin: "finite (dom db)" and K: "lawful K"
    and pre: "\<And>k. in_range rng k \<Longrightarrow> has_prefix [dataplane_id n, instance_id n, PREFIX_DATA, reducer_u8 r, BREAK] k"
    and P: "\<And>k. k \<in> dom T \<Longrightarrow> in_range rng (table_key n r K k) \<longleftrightarrow> P k"
    and mono: "\<And>k k'. k \<in> dom T \<Longrightarrow> k' \<in> dom T \<Longrightarrow> P k \<Longrightarrow> P k' \<Longrightarrow> k < k' \<Longrightarrow> sc_enc K k < sc_enc K k'"
  shows "finite {k \<in> dom T. P k}" (is "finite ?A")
    and "scan_entries order db rng =
      map (\<lambda>k. (table_key n r K k, sc_enc V (the (T k)))) (in_order order (sorted_list_of_set {k \<in> dom T. P k}))"
proof -
  have keys: "{k \<in> dom db. in_range rng k} = table_key n r K ` ?A" by (rule table_range [OF T pre P])
  have wf: "sc_wf K k" if "k \<in> ?A" for k using that T by (auto simp: holds_table_def)
  have "inj_on (table_key n r K) ?A" by (rule inj_onI) (use table_key_inject [OF K wf wf] in blast)
  moreover have "finite (table_key n r K ` ?A)" using fin unfolding keys [symmetric] by simp
  ultimately show finA: "finite ?A" by (rule finite_imageD [rotated])
  have "range_keys db rng = map (table_key n r K) (sorted_list_of_set ?A)"
    unfolding range_keys_def keys by (rule sorted_list_of_image [OF finA]) (use mono in \<open>auto simp: table_key_simp\<close>)
  then have "ordered_keys order db rng = map (table_key n r K) (in_order order (sorted_list_of_set ?A))"
    by (cases order) (simp_all add: ordered_keys_def in_order_def rev_map)
  moreover have "db (table_key n r K k) = Some (sc_enc V (the (T k)))" if "k \<in> ?A" for k
    using that T by (auto simp: holds_table_def)
  ultimately show "scan_entries order db rng =
      map (\<lambda>k. (table_key n r K k, sc_enc V (the (T k)))) (in_order order (sorted_list_of_set ?A))"
    using finA by (simp add: scan_entries_def with_values_def comp_def)
qed

lemma whole_table:
  "in_range (reducer_key_range ep eb ec n r None None None) k \<longleftrightarrow> has_prefix [dataplane_id n, instance_id n, PREFIX_DATA, reducer_u8 r, BREAK] k"
  by (auto simp: reducer_key_range_break in_break_range has_prefix_append [of "[_, _, _, _, _]"])

section \<open>Listings by scanning\<close>

record ('a, 'p, 'c, 'k, 'v, 'r) ScanListing =
  sl_crates :: "'a MapiCrates"
  sl_snapshot :: Snapshot
  sl_db :: kv_map
  sl_ns :: Namespace
  sl_reducer :: Reducer
  sl_params :: "('p \<Rightarrow> bytes) \<times> 'p option"
  sl_cursor :: "'c schema"
  sl_order :: OrderParam
  sl_count :: nat
  sl_range :: key_range
  sl_key :: "'k decoder"
  sl_value :: "'v decoder"
  sl_filter :: "(bytes \<times> bytes \<Rightarrow> bool) option"
  sl_at :: "'k \<times> 'v \<Rightarrow> 'c"
  sl_row :: "'k \<times> 'v \<Rightarrow> 'r mapi"

definition sl_mark_of :: "('a, 'p, 'c, 'k, 'v, 'r) ScanListing \<Rightarrow> 'k \<times> 'v \<Rightarrow> string" where
  "sl_mark_of q kv = encode_base64 (mc_b64_encode (sl_crates q)) (sc_enc (sl_cursor q)) (sl_at q kv)"

definition sl_fetch :: "('a, 'p, 'c, 'k, 'v, 'r) ScanListing \<Rightarrow> key_range \<Rightarrow> ('r list \<times> string option) mapi" where
  "sl_fetch q r =
     mapi_bind (execute_with_filter (sl_key q) (sl_value q) (sl_snapshot q) (sl_filter q)
         (scanner_order (sl_order q) (scanner_count (sl_count q + 1) (scanner_new r)))) (\<lambda>kvs.
       page_rows (sl_count q) (sl_mark_of q) (sl_row q) 0 kvs [] None)"

definition sl_ask :: "('a, 'p, 'c, 'k, 'v, 'r) ScanListing \<Rightarrow> string option \<Rightarrow> ('r list \<times> string option) mapi" where
  "sl_ask q c =
     mapi_bind (mapi_lift (apply_cursor (sl_crates q) (fst (sl_params q)) (sl_cursor q) (sl_ns q) (sl_reducer q) (snd (sl_params q))
       (sl_order q) c (sl_range q))) (sl_fetch q)"

definition sl_entries :: "('a, 'p, 'c, 'k, 'v, 'r) ScanListing \<Rightarrow> (bytes \<times> bytes) list" where
  "sl_entries q = retain (sl_filter q) (scan_entries (sl_order q) (sl_db q) (sl_range q))"

definition sl_read :: "('a, 'p, 'c, 'k, 'v, 'r) ScanListing \<Rightarrow> bytes \<times> bytes \<Rightarrow> 'k \<times> 'v" where
  "sl_read q kv = projr (read_entry (sl_key q) (sl_value q) kv)"

definition mapi_value :: "'r mapi \<Rightarrow> 'r" where
  "mapi_value r = projr (the r)"

lemma mapi_value_ok [simp]: "mapi_value (mapi_ok x) = x"
  by (simp add: mapi_value_def mapi_ok_def)

definition sl_rows :: "('a, 'p, 'c, 'k, 'v, 'r) ScanListing \<Rightarrow> 'r list" where
  "sl_rows q = map (\<lambda>kv. mapi_value (sl_row q (sl_read q kv))) (sl_entries q)"

definition sl_mark :: "('a, 'p, 'c, 'k, 'v, 'r) ScanListing \<Rightarrow> nat \<Rightarrow> string" where
  "sl_mark q j = sl_mark_of q (sl_read q (sl_entries q ! j))"

definition sl_readable :: "('a, 'p, 'c, 'k, 'v, 'r) ScanListing \<Rightarrow> bytes \<times> bytes \<Rightarrow> bool" where
  "sl_readable q kv \<longleftrightarrow> (\<exists>e r. read_entry (sl_key q) (sl_value q) kv = Inr e \<and> sl_row q e = mapi_ok r \<and>
     fst kv = cursor_key (fst (sl_params q)) (sc_enc (sl_cursor q)) (sl_ns q) (sl_reducer q) (snd (sl_params q)) (sl_at q e) \<and>
     sc_wf (sl_cursor q) (sl_at q e))"

definition sl_ok :: "('a, 'p, 'c, 'k, 'v, 'r) ScanListing \<Rightarrow> bool" where
  "sl_ok q \<longleftrightarrow> snapshot_of (sl_db q) (sl_snapshot q) \<and> lawful (sl_cursor q) \<and> 0 < sl_count q \<and> sl_count q \<le> 100 \<and>
     snd (sl_range q) \<noteq> [] \<and> (\<forall>b. mc_b64_decode (sl_crates q) (mc_b64_encode (sl_crates q) b) = Some b) \<and>
     (\<forall>kv\<in>set (sl_entries q). sl_readable q kv)"

lemma sl_fetch_from:
  assumes ok: "sl_ok q" and r: "retain (sl_filter q) (scan_entries (sl_order q) (sl_db q) r) = drop i (sl_entries q)"
  shows "sl_fetch q r = mapi_ok (page_from (sl_count q) (sl_mark q) (sl_rows q) i)"
proof -
  let ?scanner = "scanner_order (sl_order q) (scanner_count (Suc (sl_count q)) (scanner_new r))"
  have scn: "scn_order ?scanner = sl_order q" "scn_range ?scanner = r" "scn_count ?scanner = Some (Suc (sl_count q))"
    by (simp_all add: scanner_order_def scanner_count_def scanner_new_def)
  have readable: "sl_readable q kv" if "kv \<in> set (sl_entries q)" for kv using that ok by (simp add: sl_ok_def)
  have row: "sl_row q (sl_read q kv) = mapi_ok (mapi_value (sl_row q (sl_read q kv)))" if "kv \<in> set (sl_entries q)" for kv
    using readable [OF that] by (auto simp: sl_readable_def sl_read_def)
  have "execute_with_filter (sl_key q) (sl_value q) (sl_snapshot q) (sl_filter q) ?scanner =
    mapi_ok (truncate_to (scn_count ?scanner)
      (map (sl_read q) (retain (sl_filter q) (scan_entries (scn_order ?scanner) (sl_db q) (scn_range ?scanner)))))"
  proof (rule execute_with_filter_exact)
    show "snapshot_of (sl_db q) (sl_snapshot q)" "count_ok ?scanner" using ok by (simp_all add: sl_ok_def count_ok_def scn)
    fix kv assume "kv \<in> set (retain (sl_filter q) (scan_entries (scn_order ?scanner) (sl_db q) (scn_range ?scanner)))"
    then have "kv \<in> set (sl_entries q)" unfolding scn r by (meson in_set_dropD)
    from readable [OF this] show "read_entry (sl_key q) (sl_value q) kv = Inr (sl_read q kv)"
      by (auto simp: sl_readable_def sl_read_def)
  qed
  then have fetched: "execute_with_filter (sl_key q) (sl_value q) (sl_snapshot q) (sl_filter q) ?scanner =
      mapi_ok (truncate_to (Some (Suc (sl_count q))) (drop i (map (sl_read q) (sl_entries q))))" unfolding scn r by (simp add: drop_map)
  have "page_rows (sl_count q) (sl_mark_of q) (sl_row q) 0
      (truncate_to (Some (Suc (sl_count q))) (drop i (map (sl_read q) (sl_entries q)))) [] None =
    mapi_ok (page_from (sl_count q) (\<lambda>j. sl_mark_of q (map (sl_read q) (sl_entries q) ! j))
      (map (\<lambda>e. mapi_value (sl_row q e)) (map (sl_read q) (sl_entries q))) i)"
    by (rule page_of_scan) (use ok row in \<open>auto simp: sl_ok_def\<close>)
  moreover have "page_from (sl_count q) (\<lambda>j. sl_mark_of q (map (sl_read q) (sl_entries q) ! j)) (sl_rows q) i =
      page_from (sl_count q) (sl_mark q) (sl_rows q) i"
    by (auto simp: page_from_def sl_mark_def sl_rows_def)
  ultimately show ?thesis by (simp add: sl_fetch_def fetched sl_rows_def comp_def)
qed

interpretation sl: cursor_listing sl_ok sl_ask sl_rows sl_mark sl_count
proof
  fix q :: "('a, 'p, 'c, 'k, 'v, 'r) ScanListing"
  assume ok: "sl_ok q"
  then show "0 < sl_count q" by (simp add: sl_ok_def)
  have "sl_fetch q (sl_range q) = mapi_ok (page_from (sl_count q) (sl_mark q) (sl_rows q) 0)"
    by (rule sl_fetch_from [OF ok]) (simp add: sl_entries_def)
  then show "sl_ask q None = mapi_ok (page_from (sl_count q) (sl_mark q) (sl_rows q) 0)"
    by (simp add: sl_ask_def apply_cursor_def)
  let ?E = "scan_entries (sl_order q) (sl_db q) (sl_range q)" and ?P = "case sl_filter q of None \<Rightarrow> \<lambda>_. True | Some f \<Rightarrow> f"
  have retain: "retain (sl_filter q) xs = filter ?P xs" for xs by (simp add: retain_def split: option.splits)
  have S: "finite (dom (sl_db q))" "[] \<notin> dom (sl_db q)" using ok snapshot_ofD(1,2) unfolding sl_ok_def by blast+
  fix j assume "j < length (sl_rows q)"
  then have j: "j < length (filter ?P ?E)" by (simp add: sl_rows_def sl_entries_def retain)
  from filter_drop [OF this] obtain i where i: "i < length ?E" "?E ! i = sl_entries q ! j"
    "filter ?P (drop (Suc i) ?E) = drop (Suc j) (sl_entries q)" unfolding sl_entries_def retain by blast
  let ?kv = "?E ! i"
  have "?kv \<in> set (sl_entries q)" using nth_mem [OF j] unfolding i(2) sl_entries_def retain .
  then obtain e where e: "read_entry (sl_key q) (sl_value q) ?kv = Inr e"
    "fst ?kv = cursor_key (fst (sl_params q)) (sc_enc (sl_cursor q)) (sl_ns q) (sl_reducer q) (snd (sl_params q)) (sl_at q e)"
    "sc_wf (sl_cursor q) (sl_at q e)" using ok unfolding sl_ok_def sl_readable_def by blast
  have mark: "sl_mark q j = encode_base64 (mc_b64_encode (sl_crates q)) (sc_enc (sl_cursor q)) (sl_at q e)"
    using e(1) unfolding sl_mark_def sl_mark_of_def i(2) [symmetric] by (simp add: sl_read_def)
  have "in_range (sl_range q) (fst ?kv)" using scan_entries_in_range [OF S(1) nth_mem [OF i(1)]] by blast
  then have "apply_cursor (sl_crates q) (fst (sl_params q)) (sl_cursor q) (sl_ns q) (sl_reducer q) (snd (sl_params q)) (sl_order q)
      (Some (sl_mark q j)) (sl_range q) = Inr (remaining_range (sl_order q) (sl_range q) (fst ?kv))"
    unfolding mark by (intro apply_cursor_made [OF _ _ e(3,2)]) (use ok in \<open>auto simp: sl_ok_def\<close>)
  moreover have "sl_fetch q (remaining_range (sl_order q) (sl_range q) (fst ?kv)) =
      mapi_ok (page_from (sl_count q) (sl_mark q) (sl_rows q) (Suc j))"
    by (rule sl_fetch_from [OF ok]) (simp add: scan_entries_after [OF S i(1)] retain i(3))
  ultimately show "sl_ask q (Some (sl_mark q j)) = mapi_ok (page_from (sl_count q) (sl_mark q) (sl_rows q) (Suc j))"
    by (simp add: sl_ask_def)
qed

text \<open>
  A scan upwards of the range that a cursor leaves for the way down: the entries before the one the
  cursor was made for.
\<close>

lemma scan_up_below:
  assumes fin: "finite (dom db)" and ne: "[] \<notin> dom db" and i: "i < length (scan_entries Asc db r)"
  shows "scan_entries Asc db (remaining_range Desc r (fst (scan_entries Asc db r ! i))) = take i (scan_entries Asc db r)"
proof -
  have down: "scan_entries Desc db r' = rev (scan_entries Asc db r')" for r'
    by (simp add: scan_entries_def with_values_def ordered_keys_def rev_map)
  let ?E = "scan_entries Asc db r" and ?j = "length (scan_entries Asc db r) - Suc i"
  have j: "?j < length (scan_entries Desc db r)" "scan_entries Desc db r ! ?j = ?E ! i" "length ?E - Suc ?j = i"
    using i by (simp_all add: down rev_nth)
  have "rev (scan_entries Asc db (remaining_range Desc r (fst (?E ! i)))) = drop (Suc ?j) (rev ?E)"
    using scan_entries_after [OF fin ne j(1)] j(2) by (simp add: down)
  then have "scan_entries Asc db (remaining_range Desc r (fst (?E ! i))) = rev (drop (Suc ?j) (rev ?E))" by (metis rev_rev_ident)
  also have "\<dots> = take i ?E" using j(3) by (simp add: rev_drop)
  finally show ?thesis .
qed

lemma sl_fetch_range:
  assumes ok: "sl_ok q" and sub: "set (retain (sl_filter q) (scan_entries (sl_order q) (sl_db q) r)) \<subseteq> set (sl_entries q)"
    and r: "snd r \<noteq> []" "length (retain (sl_filter q) (scan_entries (sl_order q) (sl_db q) r)) \<le> sl_count q"
  shows "sl_fetch q r = mapi_ok (map (\<lambda>kv. mapi_value (sl_row q (sl_read q kv))) (retain (sl_filter q) (scan_entries (sl_order q) (sl_db q) r)), None)"
proof -
  let ?q = "q\<lparr>sl_range := r\<rparr>"
  have E: "sl_entries ?q = retain (sl_filter q) (scan_entries (sl_order q) (sl_db q) r)" by (simp add: sl_entries_def)
  have "sl_readable ?q kv = sl_readable q kv" for kv by (simp add: sl_readable_def)
  then have "sl_ok ?q" using ok sub r(1) by (auto simp: sl_ok_def E)
  from sl_fetch_from [OF this, of r 0] have "sl_fetch ?q r = mapi_ok (page_from (sl_count q) (sl_mark ?q) (sl_rows ?q) 0)"
    by (simp add: E)
  moreover have "sl_fetch ?q r = sl_fetch q r" "sl_read ?q = sl_read q" by (auto simp: sl_fetch_def sl_mark_of_def [abs_def] sl_read_def)
  ultimately show ?thesis using r(2) by (simp add: page_from_def sl_rows_def E)
qed

section \<open>A small store\<close>

text \<open>A store with one table and the cursor of the indexer, and crates to read it with.\<close>

definition small_cursor :: bytes where
  "small_cursor = encode_pair encode_int encode_array (6 :: u64, replicate 32 3)"

definition table_store :: "Namespace \<Rightarrow> Reducer \<Rightarrow> 'k schema \<Rightarrow> 'v schema \<Rightarrow> ('k \<times> 'v) list \<Rightarrow> kv_map" where
  "table_store n r K V kvs = (map_of (map (\<lambda>(k, v). (table_key n r K k, sc_enc V v)) kvs))(prefix_cursor n \<mapsto> small_cursor)"

definition paged_crates :: "unit MapiCrates" where
  "paged_crates = \<lparr>mc_b64_encode = map (\<lambda>b. char_of (unat b)), mc_b64_decode = (\<lambda>s. Some (map (\<lambda>c. of_nat (of_char c)) s)),
     mc_std_b64_encode = map (\<lambda>b. char_of (unat b)), mc_hex_encode = map (\<lambda>b. char_of (unat b)),
     mc_hex_decode = (\<lambda>s. Some (map (\<lambda>c. of_nat (of_char c)) s)), mc_txid_string = map (\<lambda>b. char_of (unat b)),
     mc_rune_from_str = (\<lambda>_. None), mc_rune_string = (\<lambda>_. []), mc_spaced_rune_string = (\<lambda>r s. dec_string (unat r)),
     mc_address_from_str = (\<lambda>_. None), mc_address_script_hash = (\<lambda>_. replicate 20 7), mc_address_string = (\<lambda>_. []),
     mc_address_from_script = (\<lambda>_ _. None), mc_script_hash = (\<lambda>_. replicate 20 7), mc_to_lowercase = id\<rparr>"

lemma paged_crates_b64: "mc_b64_decode paged_crates (mc_b64_encode paged_crates b) = Some b"
proof -
  have "word_of_nat (unat x mod 256) = x" for x :: u8
  proof -
    have "unat x < 256" using unsigned_less [of x] by simp
    then show ?thesis by simp
  qed
  then show ?thesis by (simp add: paged_crates_def comp_def)
qed

lemma last_updated_at:
  "get_last_updated (snapshot_at (m(prefix_cursor n \<mapsto> small_cursor))) n = Inr \<lparr>lu_block_hash = replicate 32 3, lu_block_height = 6\<rparr>"
proof -
  have "decode_to (decode_pair decode_int (decode_array 32)) small_cursor = Inr (6 :: u64, replicate 32 3)"
    using codec.dec_enc [OF codec_pair [OF int_codec hash_codec.codec_axioms], of "(6 :: u64, replicate 32 3)" "[]"]
    by (simp add: decode_to_def small_cursor_def)
  then show ?thesis by (simp add: get_last_updated_def snapshot_at_def)
qed

lemma table_store_holds:
  assumes K: "lawful K" and wf: "\<And>k v. (k, v) \<in> set kvs \<Longrightarrow> sc_wf K k \<and> sc_wf V v"
  shows "holds_table n r K V (table_store n r K V kvs) (map_of kvs)"
proof -
  have other: "table_key n r K k \<noteq> prefix_cursor n" for k by (simp add: table_key_simp prefix_cursor_def)
  have "map_of (map (\<lambda>(k, v). (table_key n r K k, sc_enc V v)) kvs) (table_key n r K k) = map_option (sc_enc V) (map_of kvs k)"
    if "sc_wf K k" for k
    using wf
  proof (induction kvs)
    case (Cons kv kvs)
    have "sc_wf K (fst kv)" "\<And>k v. (k, v) \<in> set kvs \<Longrightarrow> sc_wf K k \<and> sc_wf V v"
      using Cons.prems [of "fst kv" "snd kv"] Cons.prems by (simp, meson list.set_intros(2))
    then show ?case using Cons.IH table_key_inject [OF K that, of "fst kv"] by (auto simp: split_def)
  qed simp
  then have "table_store n r K V kvs (table_key n r K k) = Some (sc_enc V v) \<and> sc_wf K k \<and> sc_wf V v" if "map_of kvs k = Some v" for k v
    using that wf map_of_SomeD [OF that] other by (simp add: table_store_def)
  moreover have "k \<in> table_key n r K ` dom (map_of kvs)"
    if "k \<in> dom (table_store n r K V kvs)" "has_prefix [dataplane_id n, instance_id n, PREFIX_DATA, reducer_u8 r, BREAK] k" for k
  proof -
    have "k \<noteq> prefix_cursor n" using that(2) by (auto simp: prefix_cursor_def has_prefix_def)
    then have "k \<in> fst ` set (map (\<lambda>(k, v). (table_key n r K k, sc_enc V v)) kvs)"
      using that(1) by (simp add: table_store_def dom_map_of_conv_image_fst)
    then show ?thesis by (force simp: dom_map_of_conv_image_fst)
  qed
  ultimately show ?thesis unfolding holds_table_def by blast
qed

lemma table_store_snapshot: "snapshot_of (table_store n r K V kvs) (snapshot_at (table_store n r K V kvs))"
proof (rule snapshot_of_at)
  show "finite (dom (table_store n r K V kvs))" by (simp add: table_store_def finite_dom_map_of)
  show "[] \<notin> dom (table_store n r K V kvs)"
    by (auto simp: table_store_def prefix_cursor_def table_key_simp dest!: map_of_SomeD split: if_splits)
qed

end
