(* ===== verification/Utxo_Index.thy ===== *)
theory Utxo_Index
  imports Reducers
begin

text \<open>
  What the reducers' outputs mean. The unspent outputs of the chain are the specification: a map from
  outpoints to heights and outputs, which a block changes transaction by transaction. The outputs
  of the reducers for unspent outputs and balances, applied to an index of that map, give the index of
  the map after the block, although outputs that are made and spent in the same block are left out.
\<close>

section \<open>The unspent outputs of the chain\<close>

type_synonym utxos = "OutPoint \<rightharpoonup> u64 \<times> TxOut"

definition made_by :: "BitcoinCrate \<Rightarrow> u64 \<Rightarrow> Transaction \<Rightarrow> utxos" where
  "made_by B height tx = map_of (map (\<lambda>(op, out). (op, (height, out))) (tx_made B tx))"

definition spent_by :: "BitcoinCrate \<Rightarrow> Transaction \<Rightarrow> OutPoint list" where
  "spent_by B tx = (if tx_is_coinbase B tx then [] else tx_spent tx)"

definition apply_tx :: "BitcoinCrate \<Rightarrow> u64 \<Rightarrow> Transaction \<Rightarrow> utxos \<Rightarrow> utxos" where
  "apply_tx B height tx U = (U |` (- set (spent_by B tx))) ++ made_by B height tx"

text \<open>
  A block that spends soundly: no outpoint is made twice or was there before, the null outpoint of the
  coinbase is not made, none is spent twice, and what is spent is there or made by an earlier transaction.
\<close>

fun spends_known :: "BitcoinCrate \<Rightarrow> OutPoint set \<Rightarrow> Transaction list \<Rightarrow> bool" where
  "spends_known B known [] \<longleftrightarrow> True"
| "spends_known B known (tx # txs) \<longleftrightarrow>
     set (spent_by B tx) \<subseteq> known \<and> spends_known B (known \<union> fst ` set (tx_made B tx)) txs"

definition all_made :: "BitcoinCrate \<Rightarrow> Transaction list \<Rightarrow> (OutPoint \<times> TxOut) list" where
  "all_made B txs = concat (map (tx_made B) txs)"

definition all_spent :: "BitcoinCrate \<Rightarrow> Transaction list \<Rightarrow> OutPoint list" where
  "all_spent B txs = concat (map (spent_by B) txs)"

definition spends_soundly :: "BitcoinCrate \<Rightarrow> Transaction list \<Rightarrow> utxos \<Rightarrow> bool" where
  "spends_soundly B txs U \<longleftrightarrow>
     distinct (map fst (all_made B txs)) \<and> fst ` set (all_made B txs) \<inter> dom U = {} \<and> distinct (all_spent B txs) \<and>
     (\<forall>tx\<in>set txs. tx_is_coinbase B tx \<longrightarrow> set (tx_spent tx) \<inter> fst ` set (all_made B txs) = {}) \<and>
     spends_known B (dom U) txs"

definition made_in :: "BitcoinCrate \<Rightarrow> u64 \<Rightarrow> Transaction list \<Rightarrow> utxos" where
  "made_in B height txs = map_of (map (\<lambda>(op, out). (op, (height, out))) (all_made B txs))"

lemma made_in_Some:
  "distinct (map fst (all_made B txs)) \<Longrightarrow> made_in B height txs op = Some x \<longleftrightarrow> fst x = height \<and> (op, snd x) \<in> set (all_made B txs)"
proof -
  assume "distinct (map fst (all_made B txs))"
  moreover have "map fst (map (\<lambda>(op, out). (op, (height, out))) (all_made B txs)) = map fst (all_made B txs)" by auto
  ultimately have "made_in B height txs op = Some x \<longleftrightarrow> (op, x) \<in> set (map (\<lambda>(op, out). (op, (height, out))) (all_made B txs))"
    unfolding made_in_def by (intro map_of_eq_Some_iff) (simp only:)
  then show ?thesis by (cases x) auto
qed

lemma made_in_None: "made_in B height txs op = None \<longleftrightarrow> op \<notin> fst ` set (all_made B txs)"
  by (force simp: made_in_def map_of_eq_None_iff)

lemma spends_known_spent: "spends_known B known txs \<Longrightarrow> set (all_spent B txs) \<subseteq> known \<union> fst ` set (all_made B txs)"
  by (induction txs arbitrary: known) (auto simp: all_spent_def all_made_def)

text \<open>The unspent outputs after a block, all at once.\<close>

lemma apply_block_utxos:
  "\<lbrakk>distinct (map fst (all_made B txs)); fst ` set (all_made B txs) \<inter> K = {}; dom U \<subseteq> K; spends_known B K txs; distinct (all_spent B txs)\<rbrakk> \<Longrightarrow>
   fold (apply_tx B height) txs U = (U ++ made_in B height txs) |` (- set (all_spent B txs))"
proof (induction txs arbitrary: U K)
  case Nil
  then show ?case by (simp add: made_in_def all_made_def all_spent_def)
next
  case (Cons tx txs)
  let ?U = "apply_tx B height tx U" and ?K = "K \<union> fst ` set (tx_made B tx)"
  have split: "all_made B (tx # txs) = tx_made B tx @ all_made B txs" "all_spent B (tx # txs) = spent_by B tx @ all_spent B txs"
    by (simp_all add: all_made_def all_spent_def)
  have dis: "fst ` set (tx_made B tx) \<inter> fst ` set (all_made B txs) = {}" using Cons.prems(1) split by auto
  have mb: "made_by B height tx op = None \<longleftrightarrow> op \<notin> fst ` set (tx_made B tx)" for op
    by (force simp: made_by_def map_of_eq_None_iff)
  have dom: "dom ?U \<subseteq> ?K" using Cons.prems(3) mb by (auto simp: apply_tx_def restrict_map_def split: if_splits) (metis domI option.distinct(1) subsetD)+
  have ih: "fold (apply_tx B height) txs ?U = (?U ++ made_in B height txs) |` (- set (all_spent B txs))"
    by (rule Cons.IH [OF _ _ dom]) (use Cons.prems split dis in auto)
  have late: "set (spent_by B tx) \<inter> fst ` set (tx_made B tx) = {}" "set (spent_by B tx) \<inter> fst ` set (all_made B txs) = {}"
    using Cons.prems(2,4) split by auto
  have made: "made_in B height (tx # txs) = made_in B height txs ++ made_by B height tx"
    by (simp add: made_in_def made_by_def split)
  show ?case
  proof
    fix op
    have n: "made_in B height txs op = None \<or> made_by B height tx op = None" using dis by (auto simp: mb made_in_None)
    have "fold (apply_tx B height) (tx # txs) U op = ((?U ++ made_in B height txs) |` (- set (all_spent B txs))) op" by (simp add: ih)
    then show "fold (apply_tx B height) (tx # txs) U op = ((U ++ made_in B height (tx # txs)) |` (- set (all_spent B (tx # txs)))) op"
      using n late mb [of op] made_in_None [of B height txs op]
      by (auto simp: made split apply_tx_def restrict_map_def map_add_def split: option.splits)
  qed
qed

section \<open>What a walk over the transactions emits\<close>

lemma try_concat_Inr: "(\<And>x. x \<in> set xs \<Longrightarrow> f x = Inr (g x)) \<Longrightarrow> try_concat f xs = Inr (concat (map g xs))"
  by (induction xs) auto

lemma reduce_tx_Inr:
  assumes "\<And>op. op \<in> set (spent_by B tx) \<Longrightarrow> op \<notin> set skipped \<Longrightarrow> consumed op = Inr (g op)"
  shows "reduce_tx B consumed produced skipped tx = Inr (concat (map g (filter (\<lambda>x. x \<notin> set skipped) (spent_by B tx))) @
    concat (map (\<lambda>(op, out). if op \<in> set skipped then [] else produced op out) (tx_made B tx)))"
proof (cases "tx_is_coinbase B tx")
  case False
  then have "try_concat consumed (filter (\<lambda>x. x \<notin> set skipped) (tx_spent tx)) = Inr (concat (map g (filter (\<lambda>x. x \<notin> set skipped) (tx_spent tx))))"
    using assms by (intro try_concat_Inr) (auto simp: spent_by_def)
  then show ?thesis using False by (simp add: reduce_tx_def spent_by_def)
qed (simp add: reduce_tx_def spent_by_def)

lemma reduce_txos_Inr:
  assumes "\<And>op. op \<in> set (all_spent B txs) \<Longrightarrow> op \<notin> set skipped \<Longrightarrow> consumed op = Inr (g op)"
  shows "\<exists>outs. reduce_txos B consumed produced skipped txs = Inr outs \<and>
    (\<forall>x. x \<in> set outs \<longleftrightarrow> (\<exists>op. op \<in> set (all_spent B txs) \<and> op \<notin> set skipped \<and> x \<in> set (g op)) \<or>
      (\<exists>op out. (op, out) \<in> set (all_made B txs) \<and> op \<notin> set skipped \<and> x \<in> set (produced op out))) \<and>
    (\<forall>f :: _ \<Rightarrow> int. skipped = [] \<longrightarrow> sum_list (map f outs) = sum_list (map (\<lambda>op. sum_list (map f (g op))) (all_spent B txs)) +
      sum_list (map (\<lambda>(op, out). sum_list (map f (produced op out))) (all_made B txs)))"
proof -
  let ?tx = "\<lambda>tx. concat (map g (filter (\<lambda>x. x \<notin> set skipped) (spent_by B tx))) @
    concat (map (\<lambda>(op, out). if op \<in> set skipped then [] else produced op out) (tx_made B tx))"
  have "reduce_txos B consumed produced skipped txs = Inr (concat (map ?tx txs))"
    unfolding reduce_txos_def using assms by (intro try_concat_Inr reduce_tx_Inr) (auto simp: all_spent_def)
  moreover have "x \<in> set (concat (map ?tx txs)) \<longleftrightarrow> (\<exists>op. op \<in> set (all_spent B txs) \<and> op \<notin> set skipped \<and> x \<in> set (g op)) \<or>
      (\<exists>op out. (op, out) \<in> set (all_made B txs) \<and> op \<notin> set skipped \<and> x \<in> set (produced op out))" for x
  proof -
    have "x \<in> set (?tx tx) \<longleftrightarrow> (\<exists>op. op \<in> set (spent_by B tx) \<and> op \<notin> set skipped \<and> x \<in> set (g op)) \<or>
      (\<exists>op out. (op, out) \<in> set (tx_made B tx) \<and> op \<notin> set skipped \<and> x \<in> set (produced op out))" for tx
      by (auto simp: Bex_def split: if_splits)
    then have "x \<in> set (concat (map ?tx txs)) \<longleftrightarrow> (\<exists>tx\<in>set txs. (\<exists>op. op \<in> set (spent_by B tx) \<and> op \<notin> set skipped \<and> x \<in> set (g op)) \<or>
      (\<exists>op out. (op, out) \<in> set (tx_made B tx) \<and> op \<notin> set skipped \<and> x \<in> set (produced op out)))" by simp
    then show ?thesis unfolding all_spent_def all_made_def by (simp only: set_concat set_map UN_iff image_image) blast
  qed
  moreover have "sum_list (map f (concat (map ?tx txs))) = sum_list (map (\<lambda>op. sum_list (map f (g op))) (all_spent B txs)) +
      sum_list (map (\<lambda>(op, out). sum_list (map f (produced op out))) (all_made B txs))" if "skipped = []" for f :: "_ \<Rightarrow> int"
  proof -
    have c: "sum_list (map f (concat (map h xs))) = sum_list (map (\<lambda>x. sum_list (map f (h x))) xs)" for h :: "'z \<Rightarrow> _" and xs
      by (induction xs) auto
    show ?thesis using that by (induction txs) (simp_all add: all_spent_def all_made_def c case_prod_unfold)
  qed
  ultimately show ?thesis by blast
qed

section \<open>The index of unspent outputs\<close>

text \<open>Keyed by script hash, height and outpoint, as the storage keys are.\<close>

type_synonym utxo_key = "bytes \<times> u64 \<times> bytes \<times> u32"

definition utxo_index :: "BitcoinCrate \<Rightarrow> utxos \<Rightarrow> utxo_key \<rightharpoonup> u64" where
  "utxo_index B U k =
     (case k of (sh, h, txid, vout) \<Rightarrow>
        (case U \<lparr>op_txid = txid, op_vout = vout\<rparr> of None \<Rightarrow> None
         | Some (h', out) \<Rightarrow> if h' = h \<and> bc_script_hash B (to_script_pubkey out) = sh then Some (to_value out) else None))"

lemma op_surj [simp]: "\<lparr>op_txid = op_txid op, op_vout = op_vout op\<rparr> = op"
  by (cases op) simp

lemma utxo_index_at:
  "utxo_index B U (sh, h, op_txid op, op_vout op) =
   (case U op of None \<Rightarrow> None | Some (h', out) \<Rightarrow> if h' = h \<and> bc_script_hash B (to_script_pubkey out) = sh then Some (to_value out) else None)"
  by (simp add: utxo_index_def)

fun utxo_change :: "ReducerOutput \<Rightarrow> (utxo_key \<times> u64 option) option" where
  "utxo_change (Out_UtxosByScriptHash sh h txid vout a) =
     Some ((sh, h, txid, vout), case a of Consumed \<Rightarrow> None | Produced v \<Rightarrow> Some v)"
| "utxo_change _ = None"

definition index_step :: "('o \<Rightarrow> ('k \<times> 'v option) option) \<Rightarrow> 'o \<Rightarrow> ('k \<rightharpoonup> 'v) \<Rightarrow> ('k \<rightharpoonup> 'v)" where
  "index_step f x m = (case f x of None \<Rightarrow> m | Some (k, v) \<Rightarrow> m(k := v))"

lemma index_fold_absent:
  "(\<And>x v. x \<in> set xs \<Longrightarrow> f x \<noteq> Some (k, v)) \<Longrightarrow> fold (index_step f) xs m k = m k"
proof (induction xs arbitrary: m)
  case (Cons x xs)
  have "index_step f x m k = m k" using Cons.prems [of x] by (auto simp: index_step_def split: option.splits)
  then show ?case using Cons by simp
qed simp

lemma index_fold_present:
  "x \<in> set xs \<Longrightarrow> f x = Some (k, v) \<Longrightarrow> (\<And>y w. y \<in> set xs \<Longrightarrow> f y = Some (k, w) \<Longrightarrow> w = v) \<Longrightarrow> fold (index_step f) xs m k = v"
proof (induction xs arbitrary: x m)
  case (Cons y ys)
  show ?case
  proof (cases "\<exists>x\<in>set ys. \<exists>w. f x = Some (k, w)")
    case True
    then obtain z w where z: "z \<in> set ys" "f z = Some (k, w)" by blast
    then have "w = v" using Cons.prems(3) by auto
    have "fold (index_step f) ys (index_step f y m) k = v"
      by (rule Cons.IH [OF z(1)]) (use z(2) \<open>w = v\<close> Cons.prems(3) in auto)
    then show ?thesis by simp
  next
    case False
    then have "x = y" using Cons.prems(1,2) by auto
    then have "index_step f y m k = v" using Cons.prems(2) by (simp add: index_step_def)
    then show ?thesis using index_fold_absent [of ys f k "index_step f y m"] False by auto
  qed
qed simp

text \<open>The context has what is spent.\<close>

definition ctx_knows :: "BlockContext \<Rightarrow> OutPoint list \<Rightarrow> utxos \<Rightarrow> bool" where
  "ctx_knows ctx ops V \<longleftrightarrow> (\<forall>op\<in>set ops. map_option (\<lambda>u. (cu_height u, cu_txo u)) (bx_inputs ctx (txo_ref op)) = V op)"

lemma with_utxo_known:
  assumes "ctx_knows ctx ops V" "op \<in> set ops" "V op = Some (h, out)"
  shows "\<exists>u. cu_height u = h \<and> cu_txo u = out \<and> (\<forall>f. with_utxo policy ctx op f = Inr (f u))"
proof -
  obtain u where "bx_inputs ctx (txo_ref op) = Some u" "cu_height u = h" "cu_txo u = out"
    using assms(1) bspec [OF assms(1) [unfolded ctx_knows_def] assms(2)] assms(3) by (auto simp: map_option_case split: option.splits)
  then show ?thesis by (intro exI [of _ u]) (simp add: with_utxo_def find_utxo_def apply_policy_def)
qed

lemma chained_iff:
  assumes "spends_soundly B txs U"
  shows "op \<in> set (snd (chained_txos B txs)) \<longleftrightarrow> op \<in> fst ` set (all_made B txs) \<and> op \<in> set (all_spent B txs)"
proof -
  have "op \<in> set (snd (chained_txos B txs)) \<longleftrightarrow> op \<in> fst ` set (all_made B txs) \<and> (\<exists>tx\<in>set txs. op \<in> set (tx_spent tx))"
    by (force simp: chained_txos_def all_made_def Let_def)
  also have "\<dots> \<longleftrightarrow> op \<in> fst ` set (all_made B txs) \<and> op \<in> set (all_spent B txs)"
  proof -
    have "\<not> tx_is_coinbase B tx" if "tx \<in> set txs" "op \<in> set (tx_spent tx)" "op \<in> fst ` set (all_made B txs)" for tx
      using assms that unfolding spends_soundly_def by blast
    then show ?thesis unfolding all_spent_def spent_by_def by (auto split: if_splits)
  qed
  finally show ?thesis .
qed

lemma spent_known:
  assumes "spends_soundly B txs U" "op \<in> set (all_spent B txs)"
  obtains h out where "(U ++ made_in B height txs) op = Some (h, out)"
proof -
  have "op \<in> dom U \<union> fst ` set (all_made B txs)"
    using subsetD [OF spends_known_spent assms(2), of "dom U"] assms(1) by (simp add: spends_soundly_def)
  then have "(U ++ made_in B height txs) op \<noteq> None" using made_in_None [of B height txs op] by auto
  then obtain y where "(U ++ made_in B height txs) op = Some y" by (metis not_None_eq)
  then show thesis using that [of "fst y" "snd y"] by simp
qed

text \<open>What a reducer does for a spent output that is known.\<close>

lemma with_utxo_spent:
  assumes "spends_soundly B txs U" "ctx_knows ctx (all_spent B txs) (U ++ made_in B height txs)" "op \<in> set (all_spent B txs)"
  shows "with_utxo policy ctx op (\<lambda>u. f (cu_height u) (cu_txo u)) =
    Inr (case (U ++ made_in B height txs) op of None \<Rightarrow> [] | Some (h, out) \<Rightarrow> f h out)"
proof -
  obtain h out where v: "(U ++ made_in B height txs) op = Some (h, out)" using spent_known [OF assms(1,3)] .
  then obtain u where "cu_height u = h" "cu_txo u = out" "\<And>f. with_utxo policy ctx op f = Inr (f u)"
    using with_utxo_known [OF assms(2,3) v, of policy] by blast
  then show ?thesis using v by simp
qed

text \<open>The changes of the index: keys of what is spent but not made in the block go, keys of what stays made come.\<close>

definition utxo_changes :: "BitcoinCrate \<Rightarrow> u64 \<Rightarrow> Transaction list \<Rightarrow> utxos \<Rightarrow> utxo_key \<Rightarrow> u64 option \<Rightarrow> bool" where
  "utxo_changes B height txs U k v \<longleftrightarrow>
     (\<exists>op h out. k = (bc_script_hash B (to_script_pubkey out), h, op_txid op, op_vout op) \<and>
       (op \<in> set (all_spent B txs) \<and> op \<notin> fst ` set (all_made B txs) \<and> U op = Some (h, out) \<and> v = None \<or>
        (op, out) \<in> set (all_made B txs) \<and> op \<notin> set (all_spent B txs) \<and> h = height \<and> v = Some (to_value out)))"

lemma utxo_reduce_changes:
  assumes sound: "spends_soundly B (bl_txdata block) U"
    and ctx: "ctx_knows ctx (all_spent B (bl_txdata block)) (U ++ made_in B height (bl_txdata block))"
  obtains outs where "utxos_by_script_hash_reduce B policy height block ctx = Inr outs"
    "\<And>k v. (\<exists>x\<in>set outs. utxo_change x = Some (k, v)) \<longleftrightarrow> utxo_changes B height (bl_txdata block) U k v"
    "\<And>x. x \<in> set outs \<Longrightarrow> \<exists>k v. utxo_change x = Some (k, v)"
proof -
  let ?txs = "bl_txdata block" and ?V = "U ++ made_in B height (bl_txdata block)" and ?skip = "snd (chained_txos B (bl_txdata block))"
  let ?c = "\<lambda>op h out. [Out_UtxosByScriptHash (bc_script_hash B (to_script_pubkey out)) h (op_txid op) (op_vout op) Consumed]"
  let ?p = "\<lambda>op out. [Out_UtxosByScriptHash (bc_script_hash B (to_script_pubkey out)) height (op_txid op) (op_vout op) (Produced (to_value out))]"
  have V: "?V op = U op" if "op \<notin> fst ` set (all_made B ?txs)" for op using that made_in_None [of B height ?txs op] by (simp add: map_add_def)
  obtain outs where run: "utxos_by_script_hash_reduce B policy height block ctx = Inr outs"
    and outs: "\<forall>x. x \<in> set outs \<longleftrightarrow> (\<exists>op. op \<in> set (all_spent B ?txs) \<and> op \<notin> set ?skip \<and> x \<in> set (case ?V op of None \<Rightarrow> [] | Some (h, out) \<Rightarrow> ?c op h out)) \<or>
      (\<exists>op out. (op, out) \<in> set (all_made B ?txs) \<and> op \<notin> set ?skip \<and> x \<in> set (?p op out))"
    unfolding utxos_by_script_hash_reduce_def
    using reduce_txos_Inr [of B ?txs ?skip "\<lambda>op. with_utxo policy ctx op (\<lambda>u. ?c op (cu_height u) (cu_txo u))"
      "\<lambda>op. case ?V op of None \<Rightarrow> [] | Some (h, out) \<Rightarrow> ?c op h out" ?p, OF with_utxo_spent [OF sound ctx]] that by blast
  have "(\<exists>x\<in>set outs. utxo_change x = Some (k, v)) \<longleftrightarrow> utxo_changes B height ?txs U k v" for k v
  proof
    assume "\<exists>x\<in>set outs. utxo_change x = Some (k, v)"
    then obtain x where x: "x \<in> set outs" "utxo_change x = Some (k, v)" by blast
    from x(1) [unfolded outs [rule_format] chained_iff [OF sound]] show "utxo_changes B height ?txs U k v"
    proof (elim disjE exE conjE)
      fix op assume "op \<in> set (all_spent B ?txs)" "\<not> (op \<in> fst ` set (all_made B ?txs) \<and> op \<in> set (all_spent B ?txs))"
        "x \<in> set (case ?V op of None \<Rightarrow> [] | Some (h, out) \<Rightarrow> ?c op h out)"
      then obtain h out where "op \<in> set (all_spent B ?txs)" "op \<notin> fst ` set (all_made B ?txs)" "U op = Some (h, out)" "x = hd (?c op h out)"
        using V [of op] by (cases "U op") auto
      then show ?thesis using x(2) unfolding utxo_changes_def by (intro exI [of _ op] exI [of _ h] exI [of _ out]) simp
    next
      fix op out assume "(op, out) \<in> set (all_made B ?txs)" "\<not> (op \<in> fst ` set (all_made B ?txs) \<and> op \<in> set (all_spent B ?txs))" "x \<in> set (?p op out)"
      then show ?thesis using x(2) unfolding utxo_changes_def by force
    qed
  next
    assume "utxo_changes B height ?txs U k v"
    then obtain op h out where k: "k = (bc_script_hash B (to_script_pubkey out), h, op_txid op, op_vout op)"
      and c: "op \<in> set (all_spent B ?txs) \<and> op \<notin> fst ` set (all_made B ?txs) \<and> U op = Some (h, out) \<and> v = None \<or>
        (op, out) \<in> set (all_made B ?txs) \<and> op \<notin> set (all_spent B ?txs) \<and> h = height \<and> v = Some (to_value out)"
      unfolding utxo_changes_def by blast
    let ?x = "Out_UtxosByScriptHash (bc_script_hash B (to_script_pubkey out)) h (op_txid op) (op_vout op) (case v of None \<Rightarrow> Consumed | Some y \<Rightarrow> Produced y)"
    from c have "?x \<in> set outs"
    proof (elim disjE conjE)
      assume "op \<in> set (all_spent B ?txs)" "op \<notin> fst ` set (all_made B ?txs)" "U op = Some (h, out)" "v = None"
      then show ?thesis unfolding outs [rule_format] chained_iff [OF sound] using V [of op] by (intro disjI1 exI [of _ op]) simp
    next
      assume "(op, out) \<in> set (all_made B ?txs)" "op \<notin> set (all_spent B ?txs)" "h = height" "v = Some (to_value out)"
      then show ?thesis unfolding outs [rule_format] chained_iff [OF sound] by (intro disjI2 exI [of _ op] exI [of _ out]) simp
    qed
    then show "\<exists>x\<in>set outs. utxo_change x = Some (k, v)" using c k by (intro bexI [of _ ?x]) auto
  qed
  moreover have "\<exists>k v. utxo_change x = Some (k, v)" if "x \<in> set outs" for x
    using that unfolding outs [rule_format] by (auto split: option.splits)
  ultimately show thesis using that run by blast
qed

lemma op_eq: "op_txid p = op_txid q \<Longrightarrow> op_vout p = op_vout q \<Longrightarrow> p = (q :: OutPoint)"
  by (cases p; cases q) auto

lemma changed_value:
  assumes sound: "spends_soundly B txs U" and v: "utxo_changes B height txs U k v"
  shows "utxo_index B ((U ++ made_in B height txs) |` (- set (all_spent B txs))) k = v"
proof -
  have d: "distinct (map fst (all_made B txs))" using sound by (simp add: spends_soundly_def)
  obtain op h out where k: "k = (bc_script_hash B (to_script_pubkey out), h, op_txid op, op_vout op)"
    and c: "op \<in> set (all_spent B txs) \<and> v = None \<or>
      (op, out) \<in> set (all_made B txs) \<and> op \<notin> set (all_spent B txs) \<and> h = height \<and> v = Some (to_value out)"
    using v unfolding utxo_changes_def by blast
  from c show ?thesis
  proof
    assume "op \<in> set (all_spent B txs) \<and> v = None"
    then show ?thesis by (simp add: k utxo_index_at)
  next
    assume new: "(op, out) \<in> set (all_made B txs) \<and> op \<notin> set (all_spent B txs) \<and> h = height \<and> v = Some (to_value out)"
    then have "made_in B height txs op = Some (height, out)" by (simp add: made_in_Some [OF d])
    then show ?thesis using new by (simp add: k utxo_index_at)
  qed
qed

lemma unchanged_value:
  assumes sound: "spends_soundly B txs U" and no: "\<nexists>v. utxo_changes B height txs U k v"
  shows "utxo_index B ((U ++ made_in B height txs) |` (- set (all_spent B txs))) k = utxo_index B U k"
proof -
  obtain sh h txid vout where k0: "k = (sh, h, txid, vout)" by (cases k)
  define op where "op = \<lparr>op_txid = txid, op_vout = vout\<rparr>"
  have k: "k = (sh, h, op_txid op, op_vout op)" by (simp add: k0 op_def)
  have d: "distinct (map fst (all_made B txs))" "fst ` set (all_made B txs) \<inter> dom U = {}" using sound by (auto simp: spends_soundly_def)
  consider (made) out where "(op, out) \<in> set (all_made B txs)" | (not) "op \<notin> fst ` set (all_made B txs)" by force
  then show ?thesis
  proof cases
    case made
    then have "U op = None" "made_in B height txs op = Some (height, out)" using d(2) by (force, simp add: made_in_Some [OF d(1)])
    moreover have "\<not> (op \<notin> set (all_spent B txs) \<and> h = height \<and> bc_script_hash B (to_script_pubkey out) = sh)"
      using no made unfolding utxo_changes_def k by blast
    ultimately show ?thesis by (auto simp: k utxo_index_at restrict_map_def)
  next
    case not
    then have m: "made_in B height txs op = None" by (simp add: made_in_None)
    have "\<not> (op \<in> set (all_spent B txs) \<and> U op = Some (h, out) \<and> bc_script_hash B (to_script_pubkey out) = sh)" for out
      using no not unfolding utxo_changes_def k by blast
    then show ?thesis using m by (auto simp: k utxo_index_at restrict_map_def map_add_def split: option.splits)
  qed
qed

text \<open>
  The reducer's outputs, applied in order to the index of the unspent outputs before a block, give the
  index of those after it. Outputs made and spent in the block never show up.
\<close>

lemma utxo_index_block:
  assumes sound: "spends_soundly B (bl_txdata block) U"
    and ctx: "ctx_knows ctx (all_spent B (bl_txdata block)) (U ++ made_in B height (bl_txdata block))"
  shows "\<exists>outs. utxos_by_script_hash_reduce B policy height block ctx = Inr outs \<and>
    fold (index_step utxo_change) outs (utxo_index B U) = utxo_index B (fold (apply_tx B height) (bl_txdata block) U) \<and>
    (\<forall>x\<in>set outs. \<exists>k v. utxo_change x = Some (k, v) \<and> utxo_changes B height (bl_txdata block) U k v)"
proof -
  let ?txs = "bl_txdata block" and ?V = "U ++ made_in B height (bl_txdata block)"
  note s = sound [unfolded spends_soundly_def]
  have after: "fold (apply_tx B height) ?txs U = ?V |` (- set (all_spent B ?txs))"
    by (rule apply_block_utxos [of B ?txs "dom U"]) (use s in auto)
  obtain outs where run: "utxos_by_script_hash_reduce B policy height block ctx = Inr outs"
    and changes: "\<And>k v. (\<exists>x\<in>set outs. utxo_change x = Some (k, v)) \<longleftrightarrow> utxo_changes B height ?txs U k v"
      "\<And>x. x \<in> set outs \<Longrightarrow> \<exists>k v. utxo_change x = Some (k, v)"
    by (rule utxo_reduce_changes [OF assms, of policy]) blast
  have "fold (index_step utxo_change) outs (utxo_index B U) k = utxo_index B (?V |` (- set (all_spent B ?txs))) k" for k
  proof (cases "\<exists>v. utxo_changes B height ?txs U k v")
    case True
    then obtain v x where v: "utxo_changes B height ?txs U k v" and x: "x \<in> set outs" "utxo_change x = Some (k, v)" using changes(1) by blast
    have "utxo_index B (?V |` (- set (all_spent B ?txs))) k = v" using changed_value [OF sound v] .
    moreover have "fold (index_step utxo_change) outs (utxo_index B U) k = v"
      by (rule index_fold_present [of x]) (use x changes(1) changed_value [OF sound] v in blast)+
    ultimately show ?thesis by simp
  next
    case False
    then have "fold (index_step utxo_change) outs (utxo_index B U) k = utxo_index B U k"
      using changes(1) by (intro index_fold_absent) blast
    then show ?thesis using unchanged_value [OF sound] False by simp
  qed
  then have "fold (index_step utxo_change) outs (utxo_index B U) = utxo_index B (fold (apply_tx B height) ?txs U)"
    unfolding after by (rule ext)
  moreover have "\<forall>x\<in>set outs. \<exists>k v. utxo_change x = Some (k, v) \<and> utxo_changes B height ?txs U k v"
    using changes by blast
  ultimately show ?thesis using run by blast
qed

section \<open>The table of unspent outputs in the store\<close>

definition utxo_store_key :: "Namespace \<Rightarrow> utxo_key \<Rightarrow> bytes" where
  "utxo_store_key n k = prefix_data n UtxosByScriptHash (sc_enc utxos_by_script_hash_Key k)"

definition key_sized :: "utxo_key \<Rightarrow> bool" where
  "key_sized k = (case k of (sh, _, txid, _) \<Rightarrow> length sh = 20 \<and> length txid = 32)"

text \<open>The store holds an index: at every key of the table the encoding of what the index has.\<close>

definition holds_index :: "Namespace \<Rightarrow> kv_map \<Rightarrow> (utxo_key \<rightharpoonup> u64) \<Rightarrow> bool" where
  "holds_index n m idx \<longleftrightarrow> (\<forall>k. key_sized k \<longrightarrow> m (utxo_store_key n k) = map_option (sc_enc utxos_by_script_hash_Value) (idx k))"

lemma utxo_store_key_inject: "key_sized k \<Longrightarrow> key_sized k' \<Longrightarrow> utxo_store_key n k = utxo_store_key n k' \<longleftrightarrow> k = k'"
proof -
  assume "key_sized k" "key_sized k'"
  then have "sc_wf utxos_by_script_hash_Key k" "sc_wf utxos_by_script_hash_Key k'"
    by (auto simp: key_sized_def utxos_by_script_hash_Key_def sc_field_def sc_array_def sc_int_def split: prod.splits)
  then show ?thesis by (simp add: utxo_store_key_def utxo_key_codec.enc_inject)
qed

lemma utxo_ops:
  "utxo_change x = Some (k, v) \<Longrightarrow>
   \<exists>a. reducer_output_to_storage_ops n x = Some [a] \<and> action_key a = utxo_store_key n k \<and> \<not> requires_previous_value a \<and>
     op_value a old = Inr (map_option (sc_enc utxos_by_script_hash_Value) v)"
  by (cases x rule: utxo_change.cases)
    (auto simp: ops_utxos_by_script_hash_def set_or_delete_def utxo_store_key_def op_value_def split: UtxoAction.splits)

lemma outputs_stored:
  assumes "\<forall>x\<in>set outs. \<exists>k v. utxo_change x = Some (k, v) \<and> key_sized k" "holds_index n m idx"
  shows "\<exists>ops m'. block_storage_ops n outs = Some ops \<and> (\<forall>a\<in>set ops. \<not> requires_previous_value a) \<and>
    run_vals op_value ops m = Inr m' \<and> holds_index n m' (fold (index_step utxo_change) outs idx)"
  using assms
proof (induction outs arbitrary: m idx)
  case (Cons x outs)
  obtain k v where x: "utxo_change x = Some (k, v)" "key_sized k" using Cons.prems(1) by auto
  obtain a where a: "reducer_output_to_storage_ops n x = Some [a]" "action_key a = utxo_store_key n k" "\<not> requires_previous_value a"
    "op_value a (m (utxo_store_key n k)) = Inr (map_option (sc_enc utxos_by_script_hash_Value) v)" using utxo_ops [OF x(1)] by blast
  let ?m = "m(utxo_store_key n k := map_option (sc_enc utxos_by_script_hash_Value) v)"
  have "holds_index n ?m (index_step utxo_change x idx)"
    using Cons.prems(2) utxo_store_key_inject [OF _ x(2)] by (auto simp: holds_index_def index_step_def x(1))
  then obtain ops m' where "block_storage_ops n outs = Some ops" "\<forall>a\<in>set ops. \<not> requires_previous_value a"
    "run_vals op_value ops ?m = Inr m'" "holds_index n m' (fold (index_step utxo_change) outs (index_step utxo_change x idx))"
    using Cons.IH [of ?m "index_step utxo_change x idx"] bspec [OF Cons.prems(1)] by (metis list.set_intros(2))
  then show ?case using a by simp
qed simp

text \<open>
  C4. The table of unspent outputs in the store follows the chain. Let the store hold the table of the unspent
  outputs U of the chain, and let the context of a block that spends soundly know what it spends.
  Then the reducer succeeds, its outputs become storage actions, and executing them in a transaction
  succeeds and leaves a store that holds the table of the unspent outputs after the block, taken
  transaction by transaction; hashes have their sizes.
\<close>

theorem stored_utxos_follow_chain:
  assumes "tikv_rw_laws T" "holds_index n (tk_get T t) (utxo_index B U)"
    and sound: "spends_soundly B (bl_txdata block) U"
    and ctx: "ctx_knows ctx (all_spent B (bl_txdata block)) (U ++ made_in B height (bl_txdata block))"
    and sizes: "\<forall>s. length (bc_script_hash B s) = 20" "\<forall>op\<in>dom U \<union> fst ` set (all_made B (bl_txdata block)). length (op_txid op) = 32"
  shows "\<exists>outs ops t'. utxos_by_script_hash_reduce B policy height block ctx = Inr outs \<and> block_storage_ops n outs = Some ops \<and>
    apply_actions T ops False t = Inr (t', None) \<and>
    holds_index n (tk_get T t') (utxo_index B (fold (apply_tx B height) (bl_txdata block) U))"
proof -
  obtain outs where outs: "utxos_by_script_hash_reduce B policy height block ctx = Inr outs"
    "fold (index_step utxo_change) outs (utxo_index B U) = utxo_index B (fold (apply_tx B height) (bl_txdata block) U)"
    "\<forall>x\<in>set outs. \<exists>k v. utxo_change x = Some (k, v) \<and> utxo_changes B height (bl_txdata block) U k v"
    using utxo_index_block [OF sound ctx] by blast
  have "key_sized k" if "utxo_changes B height (bl_txdata block) U k v" for k v
    using that sizes by (force simp: utxo_changes_def key_sized_def)
  then obtain ops m' where ops: "block_storage_ops n outs = Some ops" "\<forall>a\<in>set ops. \<not> requires_previous_value a"
    "run_vals op_value ops (tk_get T t) = Inr m'" "holds_index n m' (utxo_index B (fold (apply_tx B height) (bl_txdata block) U))"
    using outputs_stored [OF _ assms(2), of outs] outs(2,3) by metis
  have "stable_batch ops" using ops(2) by (simp add: stable_batch_def)
  from apply_actions_plain [OF assms(1) this, of t] ops(3,4) show ?thesis
    using outs(1) ops(1) by (auto split: sum.splits)
qed

section \<open>Balances\<close>

text \<open>The weight of all unspent outputs, and how a block changes it.\<close>

definition weight :: "(OutPoint \<Rightarrow> TxOut \<Rightarrow> int) \<Rightarrow> utxos \<Rightarrow> int" where
  "weight w U = (\<Sum>op\<in>dom U. w op (snd (the (U op))))"

lemma weight_after_block:
  assumes sound: "spends_soundly B txs U" and fin: "finite (dom U)"
  shows "weight w (fold (apply_tx B height) txs U) = weight w U + sum_list (map (\<lambda>(op, out). w op out) (all_made B txs)) -
    sum_list (map (\<lambda>op. w op (snd (the ((U ++ made_in B height txs) op)))) (all_spent B txs))"
proof -
  let ?M = "made_in B height txs" and ?S = "set (all_spent B txs)"
  let ?V = "U ++ ?M"
  note s = sound [unfolded spends_soundly_def]
  have after: "fold (apply_tx B height) txs U = ?V |` (- ?S)"
    by (rule apply_block_utxos [of B txs "dom U"]) (use s in auto)
  have domM: "dom ?M = fst ` set (all_made B txs)" using made_in_None [of B height txs] by (auto simp: dom_def)
  have fins: "finite (dom ?V)" "?S \<subseteq> dom ?V" "finite (dom ?M)" "dom U \<inter> dom ?M = {}"
    using fin domM spends_known_spent [of B "dom U" txs] s by auto
  have "weight w (?V |` (- ?S)) = (\<Sum>op\<in>dom ?V - ?S. w op (snd (the (?V op))))"
  proof -
    have "dom (?V |` (- ?S)) = dom ?V - ?S" unfolding dom_restrict by (simp only: Diff_eq)
    then show ?thesis unfolding weight_def by (intro sum.cong) auto
  qed
  also have "\<dots> = (\<Sum>op\<in>dom ?V. w op (snd (the (?V op)))) - (\<Sum>op\<in>?S. w op (snd (the (?V op))))"
    using fins(1,2) by (rule sum_diff)
  also have "(\<Sum>op\<in>dom ?V. w op (snd (the (?V op)))) = (\<Sum>op\<in>dom U. w op (snd (the (?V op)))) + (\<Sum>op\<in>dom ?M. w op (snd (the (?V op))))"
    using fin fins(3,4) by (simp add: sum.union_disjoint Un_commute)
  also have "(\<Sum>op\<in>dom U. w op (snd (the (?V op)))) = weight w U"
    unfolding weight_def using fins(4) by (intro sum.cong) (auto simp: map_add_def split: option.splits)
  also have "(\<Sum>op\<in>dom ?M. w op (snd (the (?V op)))) = (\<Sum>(op, out)\<in>set (all_made B txs). w op out)"
  proof -
    have inj: "inj_on fst (set (all_made B txs))" using s by (simp add: distinct_map)
    have "w (fst x) (snd (the (?V (fst x)))) = w (fst x) (snd x)" if "x \<in> set (all_made B txs)" for x
      using that made_in_Some [of B txs height "fst x" "(height, snd x)"] s by (simp add: map_add_Some_iff)
    then show ?thesis unfolding domM by (subst sum.reindex [OF inj]) (auto intro!: sum.cong)
  qed
  also have "\<dots> = sum_list (map (\<lambda>(op, out). w op out) (all_made B txs))"
    using s by (intro sum_list_distinct_conv_sum_set [symmetric]) (simp add: distinct_map)
  also have "(\<Sum>op\<in>?S. w op (snd (the (?V op)))) = sum_list (map (\<lambda>op. w op (snd (the (?V op)))) (all_spent B txs))"
    using s by (intro sum_list_distinct_conv_sum_set [symmetric]) simp
  finally show ?thesis unfolding after by simp
qed

fun signed :: "('a::len) word IncrOrDecr \<Rightarrow> int" where
  "signed (Increment x) = uint x"
| "signed (Decrement x) = - uint x"

fun sat_delta :: "bytes \<Rightarrow> ReducerOutput \<Rightarrow> int" where
  "sat_delta sh (Out_SatBalanceByScriptHash s d) = (if s = sh then signed d else 0)"
| "sat_delta sh _ = 0"

definition sat_balance :: "BitcoinCrate \<Rightarrow> bytes \<Rightarrow> utxos \<Rightarrow> int" where
  "sat_balance B sh U = weight (\<lambda>op out. if bc_script_hash B (to_script_pubkey out) = sh then uint (to_value out) else 0) U"

text \<open>What a walk emits in all, when a spent output emits the negative of what it emitted when it was made.\<close>

lemma walk_balance:
  assumes sound: "spends_soundly B txs U" and fin: "finite (dom U)"
    and spent: "\<And>op h out. op \<in> set (all_spent B txs) \<Longrightarrow> (U ++ made_in B height txs) op = Some (h, out) \<Longrightarrow>
      \<exists>os. consumed op = Inr os \<and> sum_list (map f os) = - w op out"
    and made: "\<And>op out. (op, out) \<in> set (all_made B txs) \<Longrightarrow> sum_list (map f (produced op out)) = w op out"
  shows "\<exists>outs. reduce_txos B consumed produced [] txs = Inr outs \<and>
    sum_list (map f outs) = weight w (fold (apply_tx B height) txs U) - weight w U"
proof -
  let ?V = "U ++ made_in B height txs" and ?g = "\<lambda>op. projr (consumed op)"
  have g: "consumed op = Inr (?g op) \<and> sum_list (map f (?g op)) = - w op (snd (the (?V op)))" if op: "op \<in> set (all_spent B txs)" for op
  proof -
    obtain h out where v: "?V op = Some (h, out)" using spent_known [OF sound op] .
    then obtain os where "consumed op = Inr os" "sum_list (map f os) = - w op out" using spent [OF op v] by blast
    then show ?thesis using v by simp
  qed
  obtain outs where run: "reduce_txos B consumed produced [] txs = Inr outs"
    and total: "sum_list (map f outs) = sum_list (map (\<lambda>op. sum_list (map f (?g op))) (all_spent B txs)) +
      sum_list (map (\<lambda>(op, out). sum_list (map f (produced op out))) (all_made B txs))"
    using reduce_txos_Inr [of B txs "[]" consumed ?g produced] g by auto
  have m1: "map (\<lambda>op. sum_list (map f (?g op))) (all_spent B txs) = map (\<lambda>op. - w op (snd (the (?V op)))) (all_spent B txs)"
    using g by auto
  have m2: "map (\<lambda>(op, out). sum_list (map f (produced op out))) (all_made B txs) = map (\<lambda>(op, out). w op out) (all_made B txs)"
    using made by auto
  have "sum_list (map f outs) = - sum_list (map (\<lambda>op. w op (snd (the (?V op)))) (all_spent B txs)) +
      sum_list (map (\<lambda>(op, out). w op out) (all_made B txs))" unfolding total m1 m2 by (simp add: uminus_sum_list_map comp_def)
  then show ?thesis using run weight_after_block [OF sound fin, of w height] by auto
qed

text \<open>
  C12. Balances follow the chain. For a block that spends soundly on finitely many unspent outputs and a context
  that knows what it spends, the reducer of balances succeeds, and for every script the increments
  less the decrements it emits are the value of the unspent outputs of the script after the block less
  that before.
\<close>

theorem sat_balance_follows_chain:
  assumes "spends_soundly B (bl_txdata block) U" "finite (dom U)"
    and "ctx_knows ctx (all_spent B (bl_txdata block)) (U ++ made_in B height (bl_txdata block))"
  shows "\<exists>outs. sat_balance_by_script_hash_reduce B policy block ctx = Inr outs \<and>
    (\<forall>sh. sum_list (map (sat_delta sh) outs) = sat_balance B sh (fold (apply_tx B height) (bl_txdata block) U) - sat_balance B sh U)"
proof -
  have "\<exists>outs. sat_balance_by_script_hash_reduce B policy block ctx = Inr outs \<and>
    sum_list (map (sat_delta sh) outs) = sat_balance B sh (fold (apply_tx B height) (bl_txdata block) U) - sat_balance B sh U" for sh
    unfolding sat_balance_by_script_hash_reduce_def sat_balance_def
  proof (rule walk_balance [OF assms(1,2)])
    fix op h out assume op: "op \<in> set (all_spent B (bl_txdata block))" and v: "(U ++ made_in B height (bl_txdata block)) op = Some (h, out)"
    show "\<exists>os. with_utxo policy ctx op (\<lambda>u. [Out_SatBalanceByScriptHash (bc_script_hash B (to_script_pubkey (cu_txo u))) (Decrement (to_value (cu_txo u)))]) = Inr os \<and>
        sum_list (map (sat_delta sh) os) = - (if bc_script_hash B (to_script_pubkey out) = sh then uint (to_value out) else 0)"
      using with_utxo_known [OF assms(3) op v, of policy] by auto
  qed simp
  then show ?thesis by (metis sum.inject(2))
qed

definition rune_amount :: "(RuneId \<times> u128) list \<Rightarrow> RuneId \<Rightarrow> int" where
  "rune_amount runes i = sum_list (map (\<lambda>(j, a). if j = i then uint a else 0) runes)"

definition rune_balance :: "BitcoinCrate \<Rightarrow> (OutPoint \<Rightarrow> (RuneId \<times> u128) list) \<Rightarrow> bytes \<Rightarrow> RuneId \<Rightarrow> utxos \<Rightarrow> int" where
  "rune_balance B runes sh i U = weight (\<lambda>op out. if bc_script_hash B (to_script_pubkey out) = sh then rune_amount (runes op) i else 0) U"

fun rune_delta :: "bytes \<Rightarrow> RuneId \<Rightarrow> ReducerOutput \<Rightarrow> int" where
  "rune_delta sh i (Out_RuneBalancesByScriptHash s r d) = (if s = sh \<and> r = i then signed d else 0)"
| "rune_delta sh i (Out_BalancesByRuneId r s d) = (if s = sh \<and> r = i then signed d else 0)"
| "rune_delta sh i _ = 0"

lemma rune_delta_sums:
  "sum_list (map (rune_delta sh i) (map (\<lambda>(r, a). Out_RuneBalancesByScriptHash s r (Increment a)) runes)) = (if s = sh then rune_amount runes i else 0)"
  "sum_list (map (rune_delta sh i) (map (\<lambda>(r, a). Out_RuneBalancesByScriptHash s r (Decrement a)) runes)) = - (if s = sh then rune_amount runes i else 0)"
  "sum_list (map (rune_delta sh i) (map (\<lambda>(r, a). Out_BalancesByRuneId r s (Increment a)) runes)) = (if s = sh then rune_amount runes i else 0)"
  "sum_list (map (rune_delta sh i) (map (\<lambda>(r, a). Out_BalancesByRuneId r s (Decrement a)) runes)) = - (if s = sh then rune_amount runes i else 0)"
  by (induction runes) (auto simp: rune_amount_def)

text \<open>The context has the runes of what is spent and of what is made.\<close>

definition ctx_runes :: "BlockContext \<Rightarrow> OutPoint list \<Rightarrow> (OutPoint \<Rightarrow> (RuneId \<times> u128) list) \<Rightarrow> bool" where
  "ctx_runes ctx ops runes \<longleftrightarrow> (\<forall>op\<in>set ops. or_empty (utxo_runes ctx op) = runes op)"

text \<open>
  C13. Dune balances follow the chain. If the context also has the dunes of what the block spends and makes, then
  both reducers of dune balances succeed, and for every script and every dune the increments less
  the decrements that each of them emits are the amount of the dune in the unspent outputs of the
  script after the block less that before.
\<close>

theorem rune_balances_follow_chain:
  assumes "spends_soundly B (bl_txdata block) U" "finite (dom U)"
    and "ctx_knows ctx (all_spent B (bl_txdata block)) (U ++ made_in B height (bl_txdata block))"
    and "ctx_runes ctx (all_spent B (bl_txdata block) @ map fst (all_made B (bl_txdata block))) runes"
  shows "\<exists>outs outs'. rune_balances_by_script_hash_reduce B policy block ctx = Inr outs \<and>
      balances_by_rune_id_reduce B policy block ctx = Inr outs' \<and>
    (\<forall>sh i. sum_list (map (rune_delta sh i) outs) =
        rune_balance B runes sh i (fold (apply_tx B height) (bl_txdata block) U) - rune_balance B runes sh i U \<and>
      sum_list (map (rune_delta sh i) outs') =
        rune_balance B runes sh i (fold (apply_tx B height) (bl_txdata block) U) - rune_balance B runes sh i U)"
proof -
  let ?txs = "bl_txdata block"
  have made: "or_empty (utxo_runes ctx op) = runes op" if "(op, out) \<in> set (all_made B ?txs)" for op out
    using assms(4) that unfolding ctx_runes_def by force
  have spent: "or_empty (utxo_runes ctx op) = runes op" if "op \<in> set (all_spent B ?txs)" for op
    using assms(4) that unfolding ctx_runes_def by simp
  have "\<exists>outs. rune_balances_by_script_hash_reduce B policy block ctx = Inr outs \<and>
    sum_list (map (rune_delta sh i) outs) = rune_balance B runes sh i (fold (apply_tx B height) ?txs U) - rune_balance B runes sh i U" for sh i
    unfolding rune_balances_by_script_hash_reduce_def rune_balance_def
  proof (rule walk_balance [OF assms(1,2)])
    fix op h out assume op: "op \<in> set (all_spent B ?txs)" and v: "(U ++ made_in B height ?txs) op = Some (h, out)"
    show "\<exists>os. with_utxo policy ctx op (\<lambda>u. map (\<lambda>(rune, amount). Out_RuneBalancesByScriptHash (bc_script_hash B (to_script_pubkey (cu_txo u))) rune (Decrement amount))
        (or_empty (utxo_runes ctx op))) = Inr os \<and>
      sum_list (map (rune_delta sh i) os) = - (if bc_script_hash B (to_script_pubkey out) = sh then rune_amount (runes op) i else 0)"
      using with_utxo_known [OF assms(3) op v, of policy] by (auto simp: spent [OF op] rune_delta_sums simp del: map_map)
  qed (simp add: made rune_delta_sums del: map_map)
  moreover have "\<exists>outs. balances_by_rune_id_reduce B policy block ctx = Inr outs \<and>
    sum_list (map (rune_delta sh i) outs) = rune_balance B runes sh i (fold (apply_tx B height) ?txs U) - rune_balance B runes sh i U" for sh i
    unfolding balances_by_rune_id_reduce_def rune_balance_def
  proof (rule walk_balance [OF assms(1,2)])
    fix op h out assume op: "op \<in> set (all_spent B ?txs)" and v: "(U ++ made_in B height ?txs) op = Some (h, out)"
    show "\<exists>os. (case utxo_runes ctx op of None \<Rightarrow> Inr [] | Some runes \<Rightarrow> with_utxo policy ctx op (\<lambda>u.
        map (\<lambda>(rune, amount). Out_BalancesByRuneId rune (bc_script_hash B (to_script_pubkey (cu_txo u))) (Decrement amount)) runes)) = Inr os \<and>
      sum_list (map (rune_delta sh i) os) = - (if bc_script_hash B (to_script_pubkey out) = sh then rune_amount (runes op) i else 0)"
      using with_utxo_known [OF assms(3) op v, of policy] spent [OF op]
      by (cases "utxo_runes ctx op") (auto simp: rune_delta_sums rune_amount_def simp del: map_map)
  qed (simp add: made rune_delta_sums del: map_map)
  ultimately show ?thesis by (metis sum.inject(2))
qed

section \<open>Transactions by script\<close>

lemma push_at_keys: "fst ` set (push_at k v m) = insert k (fst ` set m)" "distinct (map fst m) \<Longrightarrow> distinct (map fst (push_at k v m))"
proof -
  show keys: "fst ` set (push_at k v m) = insert k (fst ` set m)" for m
  proof (induction m)
    case (Cons e m)
    then show ?case by (cases e; cases "fst e = k") (simp_all add: insert_commute)
  qed simp
  show "distinct (map fst m) \<Longrightarrow> distinct (map fst (push_at k v m))"
  proof (induction m)
    case (Cons e m)
    then show ?case by (cases e; cases "fst e = k") (simp_all add: keys)
  qed simp
qed

lemma push_at_values:
  "distinct (map fst m) \<Longrightarrow> map_of (push_at k v m) j = (if j = k then Some ((case map_of m k of None \<Rightarrow> [] | Some vs \<Rightarrow> vs) @ [v]) else map_of m j)"
  by (induction m) auto

lemma pushed_all:
  "distinct (map fst m) \<Longrightarrow> distinct (map fst (fold (\<lambda>(h, v). push_at h v) es m)) \<and>
   map_of (fold (\<lambda>(h, v). push_at h v) es m) j =
     (let vs = map snd (filter (\<lambda>e. fst e = j) es) in
      case map_of m j of None \<Rightarrow> if vs = [] then None else Some vs | Some us \<Rightarrow> Some (us @ vs))"
proof (induction es arbitrary: m)
  case (Cons e es)
  obtain h v where e: "e = (h, v)" by (cases e)
  show ?case using Cons.IH [OF push_at_keys(2) [OF Cons.prems, of h v]] Cons.prems
    by (auto simp: e push_at_values Let_def split: option.splits)
qed (auto simp: Let_def split: option.splits)

text \<open>The scripts of the outputs a transaction spends, and of those it makes.\<close>

definition input_scripts :: "BitcoinCrate \<Rightarrow> utxos \<Rightarrow> Transaction \<Rightarrow> bytes set" where
  "input_scripts B V tx = (\<lambda>op. bc_script_hash B (to_script_pubkey (snd (the (V op))))) ` set (spent_by B tx)"

definition output_scripts :: "BitcoinCrate \<Rightarrow> Transaction \<Rightarrow> bytes set" where
  "output_scripts B tx = (\<lambda>out. bc_script_hash B (to_script_pubkey out)) ` set (tx_output tx)"


section \<open>Messages of inscriptions spread over transactions\<close>

text \<open>
  The compressor logs the messages of an inscription that is spread over several transactions; the
  reducers of balances look only at inscriptions one transaction holds. Of a block without complete
  inscriptions and without inscribed inputs they emit nothing, whatever was logged.
\<close>

theorem spread_messages_not_indexed:
  assumes "\<And>tx i. tx \<in> set (bl_txdata block) \<Longrightarrow> from_transactions [tx] \<noteq> Some (Complete i)"
    and "\<And>tx op. tx \<in> set (bl_txdata block) \<Longrightarrow> op \<in> set (tx_spent tx) \<Longrightarrow> utxo_inscriptions ctx op = None"
  shows "balances_by_brc20_reduce B policy block ctx = Inr []" "brc20_balances_by_script_hash_reduce B policy block ctx = Inr []"
proof -
  have own: "own_messages B ctx tx = []" if "tx \<in> set (bl_txdata block)" for tx
    using assms(1) [OF that] by (auto simp: own_messages_def split: option.splits ParsedInscription.splits)
  have "try_concat (\<lambda>input. case utxo_inscriptions ctx input of None \<Rightarrow> Inr []
      | Some _ \<Rightarrow> with_utxo policy ctx input (\<lambda>u. concat (map (\<lambda>(_, t). transfer (bc_script_hash B (to_script_pubkey (cu_txo u))) t)
          (used_transfers ctx input)))) (tx_spent tx) = Inr []" if "tx \<in> set (bl_txdata block)" for transfer tx
    by (subst try_concat_Inr [where g = "\<lambda>_. []"]) (use assms(2) [OF that] in auto)
  then have "brc20_tx B policy ctx transfer message tx = Inr []" if "tx \<in> set (bl_txdata block)" for transfer message tx
    using own that by (simp add: brc20_tx_def)
  then have "try_concat (brc20_tx B policy ctx transfer message) (bl_txdata block) = Inr []" for transfer message
    by (subst try_concat_Inr [where g = "\<lambda>_. []"]) auto
  then show "balances_by_brc20_reduce B policy block ctx = Inr []" "brc20_balances_by_script_hash_reduce B policy block ctx = Inr []"
    unfolding balances_by_brc20_reduce_def brc20_balances_by_script_hash_reduce_def by blast+
qed

section \<open>An example\<close>

text \<open>A coinbase, a transaction that spends an old output, and one that spends the output of the second.\<close>

definition chain_crate :: BitcoinCrate where
  "chain_crate = demo_crate\<lparr>bc_txid := (\<lambda>tx. replicate 32 (hd (to_script_pubkey (hd (tx_output tx))))), bc_script_hash := (\<lambda>s. replicate 20 (hd s))\<rparr>"

definition chain_block :: Block where
  "chain_block = \<lparr>bl_prev = [], bl_txdata =
     [\<lparr>tx_input = [\<lparr>ti_previous_output = \<lparr>op_txid = [], op_vout = - 1\<rparr>, ti_script_sig = []\<rparr>], tx_output = [\<lparr>to_value = 50, to_script_pubkey = [1]\<rparr>]\<rparr>,
      \<lparr>tx_input = [\<lparr>ti_previous_output = \<lparr>op_txid = replicate 32 7, op_vout = 0\<rparr>, ti_script_sig = []\<rparr>], tx_output = [\<lparr>to_value = 6, to_script_pubkey = [2]\<rparr>]\<rparr>,
      \<lparr>tx_input = [\<lparr>ti_previous_output = \<lparr>op_txid = replicate 32 2, op_vout = 0\<rparr>, ti_script_sig = []\<rparr>], tx_output = [\<lparr>to_value = 5, to_script_pubkey = [3]\<rparr>]\<rparr>]\<rparr>"

definition chain_utxos :: utxos where
  "chain_utxos = [\<lparr>op_txid = replicate 32 7, op_vout = 0\<rparr> \<mapsto> (4, \<lparr>to_value = 9, to_script_pubkey = [7]\<rparr>)]"

definition chain_context :: BlockContext where
  "chain_context = context_new\<lparr>
     bx_inputs := [(replicate 32 7, 0) \<mapsto> \<lparr>cu_height = 4, cu_txo = \<lparr>to_value = 9, to_script_pubkey = [7]\<rparr>, cu_ords = []\<rparr>,
       (replicate 32 2, 0) \<mapsto> \<lparr>cu_height = 9, cu_txo = \<lparr>to_value = 6, to_script_pubkey = [2]\<rparr>, cu_ords = []\<rparr>],
     bx_runes := [(replicate 32 7, 0) \<mapsto> [((1, 1), 30)], (replicate 32 2, 0) \<mapsto> [((1, 1), 30)], (replicate 32 3, 0) \<mapsto> [((1, 1), 30)]]\<rparr>"

lemma chain_parts:
  "all_made chain_crate (bl_txdata chain_block) =
     [(\<lparr>op_txid = replicate 32 1, op_vout = 0\<rparr>, \<lparr>to_value = 50, to_script_pubkey = [1]\<rparr>), (\<lparr>op_txid = replicate 32 2, op_vout = 0\<rparr>, \<lparr>to_value = 6, to_script_pubkey = [2]\<rparr>),
      (\<lparr>op_txid = replicate 32 3, op_vout = 0\<rparr>, \<lparr>to_value = 5, to_script_pubkey = [3]\<rparr>)]"
  "all_spent chain_crate (bl_txdata chain_block) = [\<lparr>op_txid = replicate 32 7, op_vout = 0\<rparr>, \<lparr>op_txid = replicate 32 2, op_vout = 0\<rparr>]"
  by (simp_all add: all_made_def all_spent_def spent_by_def tx_made_def tx_spent_def tx_is_coinbase_def chain_block_def chain_crate_def demo_crate_def)

lemma chain_sound: "spends_soundly chain_crate (bl_txdata chain_block) chain_utxos" "finite (dom chain_utxos)"
  by (simp_all add: spends_soundly_def chain_parts)
    (simp_all add: chain_utxos_def spent_by_def tx_made_def tx_spent_def tx_is_coinbase_def chain_block_def chain_crate_def demo_crate_def)

lemma chain_known: "ctx_knows chain_context (all_spent chain_crate (bl_txdata chain_block)) (chain_utxos ++ made_in chain_crate 9 (bl_txdata chain_block))"
  by (simp add: ctx_knows_def chain_parts made_in_def chain_context_def chain_utxos_def txo_ref_def map_add_def)

definition chain_store :: "(bytes \<times> bytes) list" where
  "chain_store = [(utxo_store_key sample_ns (replicate 20 7, 4, replicate 32 7, 0), sc_enc utxos_by_script_hash_Value 9)]"

lemma chain_stored: "holds_index sample_ns (map_of chain_store) (utxo_index chain_crate chain_utxos)"
proof -
  let ?k = "(replicate 20 7, 4, replicate 32 7, 0) :: utxo_key"
  have "utxo_index chain_crate chain_utxos k = (if k = ?k then Some 9 else None)" for k
    by (cases k) (auto simp: utxo_index_def chain_utxos_def chain_crate_def split: if_splits)
  moreover have "key_sized ?k" by (simp add: key_sized_def)
  ultimately show ?thesis using utxo_store_key_inject [of _ ?k]
    by (simp add: holds_index_def chain_store_def del: split_paired_All)
qed

theorem stored_utxos_follow_chain_witness:
  "\<exists>outs ops t'. utxos_by_script_hash_reduce chain_crate \<lparr>missing_data = None, ledger_errors = None, rollback_errors = None, any_error = None\<rparr> 9 chain_block chain_context = Inr outs \<and>
     block_storage_ops sample_ns outs = Some ops \<and> apply_actions ref_store ops False chain_store = Inr (t', None) \<and>
     holds_index sample_ns (map_of t') (utxo_index chain_crate (fold (apply_tx chain_crate 9) (bl_txdata chain_block) chain_utxos))"
proof -
  have "holds_index sample_ns (tk_get ref_store chain_store) (utxo_index chain_crate chain_utxos)"
    using chain_stored by (simp add: ref_store_def)
  moreover have "\<forall>s. length (bc_script_hash chain_crate s) = 20" by (simp add: chain_crate_def)
  moreover have "\<forall>op\<in>dom chain_utxos \<union> fst ` set (all_made chain_crate (bl_txdata chain_block)). length (op_txid op) = 32"
    by (simp add: chain_parts chain_utxos_def)
  ultimately show ?thesis
    using stored_utxos_follow_chain [OF ref_store_rw _ chain_sound(1) chain_known, of sample_ns chain_store]
    by (simp add: ref_store_def)
qed

theorem sat_balance_follows_chain_witness:
  "\<exists>outs. sat_balance_by_script_hash_reduce chain_crate \<lparr>missing_data = None, ledger_errors = None, rollback_errors = None, any_error = None\<rparr> chain_block chain_context = Inr outs \<and>
     sum_list (map (sat_delta (replicate 20 7)) outs) =
       sat_balance chain_crate (replicate 20 7) (fold (apply_tx chain_crate 9) (bl_txdata chain_block) chain_utxos) - sat_balance chain_crate (replicate 20 7) chain_utxos"
  using sat_balance_follows_chain [OF chain_sound chain_known] by blast

theorem rune_balances_follow_chain_witness:
  "\<exists>outs. balances_by_rune_id_reduce chain_crate \<lparr>missing_data = None, ledger_errors = None, rollback_errors = None, any_error = None\<rparr> chain_block chain_context = Inr outs \<and>
     sum_list (map (rune_delta (replicate 20 3) (1, 1)) outs) =
       rune_balance chain_crate (\<lambda>op. if op_txid op = replicate 32 1 then [] else [((1, 1), 30)]) (replicate 20 3) (1, 1) (fold (apply_tx chain_crate 9) (bl_txdata chain_block) chain_utxos) -
       rune_balance chain_crate (\<lambda>op. if op_txid op = replicate 32 1 then [] else [((1, 1), 30)]) (replicate 20 3) (1, 1) chain_utxos"
proof -
  have "ctx_runes chain_context (all_spent chain_crate (bl_txdata chain_block) @ map fst (all_made chain_crate (bl_txdata chain_block)))
      (\<lambda>op. if op_txid op = replicate 32 1 then [] else [((1, 1), 30)])"
    by (simp add: ctx_runes_def chain_parts utxo_runes_def chain_context_def txo_ref_def context_new_def)
  then show ?thesis using rune_balances_follow_chain [OF chain_sound chain_known] by blast
qed


end
