(* ===== verification/Mapi_Addresses.thy ===== *)
theory Mapi_Addresses
  imports Mapi_Tables Utxo_Index
begin

text \<open>
  The requests about addresses (\<open>services/mapi-xdg/src/api/addresses/\<close>): the unspent outputs of an
  address, the transactions it is involved in, its balance. The listing of unspent outputs is shown to
  give, page by page, the unspent outputs in the table that the indexer keeps.
\<close>

section \<open>Rows\<close>

record DuneAndAmount =
  da_dune_id :: string
  da_amount :: string

record InscriptionAndOffset =
  io_offset :: u32
  io_inscription_id :: string

record Utxo =
  ux_txid :: string
  ux_vout :: u32
  ux_address :: "string option"
  ux_script_pubkey :: string
  ux_satoshis :: string
  ux_confirmations :: u64
  ux_height :: u64
  ux_dunes :: "DuneAndAmount list"
  ux_inscriptions :: "InscriptionAndOffset list"

record InvolvedTransaction =
  iv_tx_hash :: string
  iv_height :: u64
  iv_input :: bool
  iv_output :: bool

definition dune_id_string :: "u64 \<times> u32 \<Rightarrow> string" where
  "dune_id_string d = dec_string (unat (fst d)) @ '':'' @ dec_string (unat (snd d))"

definition inscription_id_string :: "'a MapiCrates \<Rightarrow> bytes \<times> u32 \<Rightarrow> string" where
  "inscription_id_string C i = mc_txid_string C (fst i) @ ''i'' @ dec_string (unat (snd i))"

text \<open>The divisibility in the value of an etching, after hash, name, spacers and symbol.\<close>

definition etching_divisibility :: "bytes \<times> u128 option \<times> u32 option \<times> u32 option \<times> u8 option \<times> 'z \<Rightarrow> u8 option" where
  "etching_divisibility v = (case v of (_, _, _, _, d, _) \<Rightarrow> d)"

definition fetch_divisibility :: "Snapshot \<Rightarrow> Namespace \<Rightarrow> u64 \<times> u32 \<Rightarrow> MapiError + nat" where
  "fetch_divisibility S encoder dune_id =
     and_then (get_reducer_key S encoder EtchingByRuneId (sc_enc etching_by_rune_id_Key dune_id) (sc_dec etching_by_rune_id_Value))
       (\<lambda>v. Inr (unat (unwrap_or (etching_divisibility v) 0)))"

text \<open>An address without history answers with an empty list.\<close>

fun or_not_found :: "'x mapi \<Rightarrow> 'r mapi \<Rightarrow> ('x \<Rightarrow> 'r mapi) \<Rightarrow> 'r mapi" where
  "or_not_found None d f = None"
| "or_not_found (Some (Inl e)) d f = (if e = NotFound then d else Some (Inl e))"
| "or_not_found (Some (Inr x)) d f = f x"

lemma or_not_found_ok [simp]: "or_not_found (mapi_ok x) d f = f x"
  by (simp add: mapi_ok_def)

section \<open>Unspent outputs of an address\<close>

record UtxoParams =
  up_filter_dust :: "bool option"
  up_filter_dust_threshold :: "u64 option"
  up_exclude_metaprotocols :: "bool option"

definition dust_threshold :: "UtxoParams \<Rightarrow> u64" where
  "dust_threshold params =
     unwrap_or (up_filter_dust_threshold params) (if unwrap_or (up_filter_dust params) False then 100000 else 0)"

definition dust_filter :: "u64 \<Rightarrow> (bytes \<times> bytes \<Rightarrow> bool) option" where
  "dust_filter threshold =
     (if threshold > 0 then Some (\<lambda>kv. length (snd kv) \<ge> 8 \<and> threshold \<le> from_be_bytes (take 8 (snd kv))) else None)"

record 'a UtxoEnv =
  ue_mapi :: "'a Mapi"
  ue_snapshot :: Snapshot
  ue_runes_by_utxo :: Namespace
  ue_etching :: Namespace
  ue_inscriptions_by_utxo :: Namespace
  ue_exclude :: bool
  ue_address :: "'a option"
  ue_script :: bytes
  ue_tip :: u64

definition utxo_dunes :: "'a UtxoEnv \<Rightarrow> bytes \<Rightarrow> u32 \<Rightarrow> MapiError + DuneAndAmount list" where
  "utxo_dunes E utxo_hash utxo_vout =
     (if ue_exclude E then Inr []
      else and_then (get_reducer_key_maybe (ue_snapshot E) (ue_runes_by_utxo E) RunesByUtxo
          (sc_enc runes_by_utxo_Key (utxo_hash, utxo_vout)) (sc_dec runes_by_utxo_Value)) (\<lambda>fetched.
        try_map (\<lambda>(dune_id, amount). and_then (fetch_divisibility (ue_snapshot E) (ue_etching E) dune_id) (\<lambda>dec.
          Inr \<lparr>da_dune_id = dune_id_string dune_id, da_amount = decimal amount dec\<rparr>)) (unwrap_or fetched [])))"

definition utxo_inscribed :: "'a UtxoEnv \<Rightarrow> bytes \<Rightarrow> u32 \<Rightarrow> MapiError + InscriptionAndOffset list" where
  "utxo_inscribed E utxo_hash utxo_vout =
     (if ue_exclude E then Inr []
      else and_then (get_reducer_key_maybe (ue_snapshot E) (ue_inscriptions_by_utxo E) InscriptionsByUtxo
          (sc_enc inscriptions_by_utxo_Key (utxo_hash, utxo_vout)) (sc_dec inscriptions_by_utxo_Value)) (\<lambda>fetched.
        Inr (map (\<lambda>(offset, i). \<lparr>io_offset = offset, io_inscription_id = inscription_id_string (mp_crates (ue_mapi E)) i\<rparr>)
          (sort_key fst (unwrap_or fetched [])))))"

definition utxo_row :: "'a UtxoEnv \<Rightarrow> utxo_entry \<Rightarrow> MapiError + Utxo" where
  "utxo_row E kv =
     (case kv of ((_, height, utxo_hash, utxo_vout), satoshis) \<Rightarrow>
      and_then (utxo_dunes E utxo_hash utxo_vout) (\<lambda>dunes.
      and_then (utxo_inscribed E utxo_hash utxo_vout) (\<lambda>inscriptions.
      Inr \<lparr>ux_txid = mc_txid_string (mp_crates (ue_mapi E)) utxo_hash, ux_vout = utxo_vout,
        ux_address = map_option (mc_address_string (mp_crates (ue_mapi E))) (ue_address E),
        ux_script_pubkey = mc_hex_encode (mp_crates (ue_mapi E)) (ue_script E),
        ux_satoshis = dec_string (unat satoshis), ux_confirmations = saturating_sub (ue_tip E) height,
        ux_height = height, ux_dunes = dunes, ux_inscriptions = inscriptions\<rparr>)))"

definition utxo_cursor :: "'a MapiCrates \<Rightarrow> utxo_entry \<Rightarrow> string" where
  "utxo_cursor C kv =
     (case kv of ((_, height, utxo_hash, utxo_vout), _) \<Rightarrow>
        encode_base64 (mc_b64_encode C) (sc_enc utxos_by_script_hash_Cursor) (height, utxo_hash, utxo_vout))"

definition utxos_by_address ::
  "'a Mapi \<Rightarrow> HeightPaginationParams \<Rightarrow> string \<Rightarrow> UtxoParams \<Rightarrow> Utxo PaginatedResponse mapi" where
  "utxos_by_address M page_params addr_or_pk params =
     mapi_bind (mapi_lift (utxos_by_script_hash_encoder (mp_registry M))) (\<lambda>utxos_encoder.
     mapi_bind (mapi_lift (runes_by_utxo_encoder (mp_registry M))) (\<lambda>runes_encoder.
     mapi_bind (mapi_lift (etching_by_rune_id_encoder (mp_registry M))) (\<lambda>etching_encoder.
     mapi_bind (mapi_lift (inscriptions_by_utxo_encoder (mp_registry M))) (\<lambda>inscriptions_encoder.
     mapi_bind (mapi_lift (mp_snapshot M)) (\<lambda>S.
     mapi_bind (mapi_lift (get_last_updated S utxos_encoder)) (\<lambda>last_updated.
     or_not_found (parse_address_or_script_bytes M S addr_or_pk)
       (mapi_ok \<lparr>pr_data = [], pr_last_updated = last_updated, pr_next_cursor = None\<rparr>) (\<lambda>(address, script_bytes).
     mapi_bind (mapi_lift (height_parse (mp_crates M) encode_array utxos_by_script_hash_Cursor page_params utxos_encoder
       UtxosByScriptHash (Some (mc_script_hash (mp_crates M) script_bytes)))) (\<lambda>pp.
     let flt = dust_filter (dust_threshold params);
         excl_metaprotocols = unwrap_or (up_exclude_metaprotocols params) False;
         scanner = scanner_order (pp_order pp) (scanner_count (pp_count pp + 1) (scanner_new (pp_range pp)));
         E = \<lparr>ue_mapi = M, ue_snapshot = S, ue_runes_by_utxo = runes_encoder, ue_etching = etching_encoder,
           ue_inscriptions_by_utxo = inscriptions_encoder, ue_exclude = excl_metaprotocols, ue_address = address,
           ue_script = script_bytes, ue_tip = lu_block_height last_updated\<rparr>
     in mapi_bind (if excl_metaprotocols then get_non_metaprotocol_utxos S flt runes_encoder inscriptions_encoder scanner
          else execute_with_filter (sc_dec utxos_by_script_hash_Key) (sc_dec utxos_by_script_hash_Value) S flt scanner) (\<lambda>kvs.
        respond last_updated (page_rows (pp_count pp) (utxo_cursor (mp_crates M)) (\<lambda>kv. mapi_lift (utxo_row E kv)) 0 kvs [] None))))))))))"

section \<open>Transactions of an address\<close>

type_synonym tx_entry = "(bytes \<times> u64 \<times> u16 \<times> bytes) \<times> bool \<times> bool"

definition tx_cursor :: "'a MapiCrates \<Rightarrow> tx_entry \<Rightarrow> string" where
  "tx_cursor C kv =
     (case kv of ((_, height, blk_index, tx_hash), _) \<Rightarrow>
        encode_base64 (mc_b64_encode C) (sc_enc txs_by_script_hash_Cursor) (height, blk_index, tx_hash))"

definition tx_row :: "'a MapiCrates \<Rightarrow> tx_entry \<Rightarrow> InvolvedTransaction" where
  "tx_row C kv =
     (case kv of ((_, height, blk_index, tx_hash), (inp, out)) \<Rightarrow>
        \<lparr>iv_tx_hash = mc_txid_string C tx_hash, iv_height = height, iv_input = inp, iv_output = out\<rparr>)"

definition txs_by_address ::
  "'a Mapi \<Rightarrow> HeightPaginationParams \<Rightarrow> string \<Rightarrow> InvolvedTransaction PaginatedResponse mapi" where
  "txs_by_address M page_params addr_or_pk =
     mapi_bind (mapi_lift (txs_by_script_hash_encoder (mp_registry M))) (\<lambda>encoder.
     mapi_bind (mapi_lift (mp_snapshot M)) (\<lambda>S.
     mapi_bind (parse_address_or_script_bytes M S addr_or_pk) (\<lambda>(_, script_bytes).
     mapi_bind (mapi_lift (height_parse (mp_crates M) encode_array txs_by_script_hash_Cursor page_params encoder
       TxsByScriptHash (Some (mc_script_hash (mp_crates M) script_bytes)))) (\<lambda>pp.
     mapi_bind (mapi_lift (get_last_updated S encoder)) (\<lambda>last_updated.
     mapi_bind (scanner_execute (sc_dec txs_by_script_hash_Key) (sc_dec txs_by_script_hash_Value) S
       (scanner_order (pp_order pp) (scanner_count (pp_count pp + 1) (scanner_new (pp_range pp))))) (\<lambda>kvs.
     respond last_updated
       (page_rows (pp_count pp) (tx_cursor (mp_crates M)) (\<lambda>kv. mapi_ok (tx_row (mp_crates M) kv)) 0 kvs [] None)))))))"

section \<open>The balance of an address\<close>

definition total_balance_by_address :: "'a Mapi \<Rightarrow> string \<Rightarrow> string TimestampedResponse mapi" where
  "total_balance_by_address M addr_or_pk =
     mapi_bind (mapi_lift (sat_balance_by_script_hash_encoder (mp_registry M))) (\<lambda>encoder.
     mapi_bind (mapi_lift (mp_snapshot M)) (\<lambda>S.
     mapi_bind (mapi_lift (get_last_updated S encoder)) (\<lambda>last_updated.
     mapi_bind (parse_address_or_script_bytes M S addr_or_pk) (\<lambda>(_, script_bytes).
     mapi_bind (mapi_lift (get_reducer_key_maybe S encoder SatBalanceByScriptHash
       (sc_enc sat_balance_by_script_hash_Key (mc_script_hash (mp_crates M) script_bytes)) (sc_dec sat_balance_by_script_hash_Value))) (\<lambda>v.
     mapi_ok \<lparr>tr_data = dec_string (unat (unwrap_or v 0)), tr_last_updated = last_updated\<rparr>)))))"

end
