(* ===== verification/Mapi_Utxo_Listing.thy ===== *)
theory Mapi_Utxo_Listing
  imports Mapi_Addresses
begin

text \<open>
  The listing of the unspent outputs of an address, page by page, is the table of unspent outputs: the
  table in the store is an index of unspent outputs, and a request for an address reads the part for its
  script and for the heights asked for, in order.
\<close>

section \<open>Order of keys\<close>

type_synonym utxo_pos = "u64 \<times> bytes \<times> u32"

definition pos_bytes :: "utxo_pos \<Rightarrow> bytes" where
  "pos_bytes p = sc_enc utxos_by_script_hash_Cursor p"

lemma pos_bytes_simp: "pos_bytes (h, t, i) = encode_int h @ BREAK # t @ BREAK # encode_int i"
  by (simp add: pos_bytes_def utxos_by_script_hash_Cursor_def sc_field_def encode_field_def sc_int_def sc_array_def encode_array_def)

lemma pos_bytes_mono:
  assumes "length (fst (snd p)) = length (fst (snd q))" "p < q"
  shows "pos_bytes p < pos_bytes q"
proof -
  obtain h t i h' t' i' where p: "p = (h, t, i)" and q: "q = (h', t', i')" by (metis prod.exhaust)
  have le: "encode_int h < encode_int h' \<longleftrightarrow> h < h'" "encode_int i < encode_int i' \<longleftrightarrow> i < i'"
    "encode_int h = encode_int h' \<longleftrightarrow> h = h'"
    by (simp_all add: encode_int_def to_be_bytes_less_iff to_be_bytes_inject)
  have len: "length (encode_int h) = length (encode_int h')" "length t = length t'" using assms(1) p q by (simp_all add: encode_int_def)
  have "h < h' \<or> h = h' \<and> (t < t' \<or> t = t' \<and> i < i')" using assms(2) p q by auto
  then show ?thesis unfolding p q pos_bytes_simp using le len by (auto simp: append_less_append_iff)
qed

lemma store_key_pos: "utxo_store_key n (sh, p) = [dataplane_id n, instance_id n, PREFIX_DATA, reducer_u8 UtxosByScriptHash, BREAK] @ sh @ BREAK # pos_bytes p"
  by (cases p) (simp add: utxo_store_key_def pos_bytes_def utxos_by_script_hash_Key_def utxos_by_script_hash_Cursor_def
      sc_field_def encode_field_def sc_array_def encode_array_def sc_int_def)

lemma store_key_mono:
  "length (fst (snd p)) = length (fst (snd q)) \<Longrightarrow> p < q \<Longrightarrow> utxo_store_key n (sh, p) < utxo_store_key n (sh, q)"
  using pos_bytes_mono by (simp add: store_key_pos)

section \<open>The part of the table that is read\<close>

text \<open>Every key of the table is the key of an unspent output.\<close>

definition utxo_table :: "Namespace \<Rightarrow> kv_map \<Rightarrow> bool" where
  "utxo_table n db \<longleftrightarrow> (\<forall>k\<in>dom db. has_prefix [dataplane_id n, instance_id n, PREFIX_DATA, reducer_u8 UtxosByScriptHash] k \<longrightarrow>
     (\<exists>key. key_sized key \<and> k = utxo_store_key n key))"

definition height_range :: "Namespace \<Rightarrow> bytes \<Rightarrow> u64 option \<Rightarrow> u64 option \<Rightarrow> key_range" where
  "height_range n sh lo hi = reducer_key_range encode_array encode_int encode_int n UtxosByScriptHash (Some sh) lo
     (map_option (\<lambda>x. saturating_add x 1) hi)"

definition in_heights :: "u64 option \<Rightarrow> u64 option \<Rightarrow> u64 \<Rightarrow> bool" where
  "in_heights lo hi h \<longleftrightarrow> pred_option (\<lambda>l. l \<le> h) lo \<and> pred_option (\<lambda>u. h < saturating_add u 1) hi"

definition utxo_positions :: "(utxo_key \<rightharpoonup> u64) \<Rightarrow> bytes \<Rightarrow> u64 option \<Rightarrow> u64 option \<Rightarrow> utxo_pos set" where
  "utxo_positions idx sh lo hi = {(h, t, i). length t = 32 \<and> idx (sh, h, t, i) \<noteq> None \<and> in_heights lo hi h}"

lemma height_range_bounds: "snd (height_range n sh lo hi) \<noteq> []"
  by (simp add: height_range_def reducer_key_range_break break_range_def split: option.splits)

lemma in_height_range:
  assumes "length sh = 20" "key_sized key"
  shows "in_range (height_range n sh lo hi) (utxo_store_key n key) \<longleftrightarrow> fst key = sh \<and> in_heights lo hi (fst (snd key))"
proof -
  obtain p h t i where key: "key = (p, h, t, i)" by (metis prod.exhaust)
  have p: "length p = 20" using assms(2) key by (simp add: key_sized_def)
  have "utxo_store_key n key = prefix_data n UtxosByScriptHash (encode_array p @ BREAK # encode_int h @ BREAK # t @ BREAK # encode_int i)"
    by (simp add: key store_key_pos pos_bytes_simp encode_array_def)
  moreover have "pred_option (\<lambda>u. h < u) (map_option (\<lambda>x. saturating_add x 1) hi) = pred_option (\<lambda>u. h < saturating_add u 1) hi"
    by (cases hi) simp_all
  ultimately show ?thesis
    using script_scan.scan_exact [OF p assms(1), where h = h and lo = lo and up = "map_option (\<lambda>x. saturating_add x 1) hi"
        and n = n and r = UtxosByScriptHash and t = "BREAK # t @ BREAK # encode_int i"]
    by (simp add: height_range_def in_heights_def key option.pred_True)
qed

lemma height_range_prefix:
  assumes "in_range (height_range n sh lo hi) k"
  shows "has_prefix [dataplane_id n, instance_id n, PREFIX_DATA, reducer_u8 UtxosByScriptHash] k"
proof -
  from assms obtain t where "k = ([dataplane_id n, instance_id n, PREFIX_DATA, reducer_u8 UtxosByScriptHash] @ BREAK # encode_array sh) @ BREAK # t"
    unfolding height_range_def reducer_key_range_break in_break_range by blast
  then show ?thesis by (auto simp: has_prefix_append)
qed

lemma keys_in_range:
  assumes "holds_index n db idx" "utxo_table n db" "length sh = 20"
  shows "{k \<in> dom db. in_range (height_range n sh lo hi) k} = (\<lambda>p. utxo_store_key n (sh, p)) ` utxo_positions idx sh lo hi" (is "?L = ?R")
proof
  show "?L \<subseteq> ?R"
  proof
    fix k assume k: "k \<in> ?L"
    then obtain key where key: "key_sized key" "k = utxo_store_key n key"
      using height_range_prefix assms(2) unfolding utxo_table_def by blast
    obtain p h t i where kp: "key = (p, h, t, i)" by (metis prod.exhaust)
    have r: "p = sh" "in_heights lo hi h" using k in_height_range [OF assms(3) key(1)] key(2) kp by auto
    have "idx (sh, h, t, i) \<noteq> None" using k key assms(1) kp r(1) unfolding holds_index_def by fastforce
    then have "(h, t, i) \<in> utxo_positions idx sh lo hi" using r key(1) kp by (simp add: utxo_positions_def key_sized_def)
    then show "k \<in> ?R" using key(2) kp r(1) by blast
  qed
next
  show "?R \<subseteq> ?L"
  proof
    fix k assume "k \<in> ?R"
    then obtain h t i where p: "(h, t, i) \<in> utxo_positions idx sh lo hi" "k = utxo_store_key n (sh, h, t, i)" by auto
    have s: "key_sized (sh, h, t, i)" using p(1) assms(3) by (simp add: utxo_positions_def key_sized_def)
    have "in_range (height_range n sh lo hi) k" using in_height_range [OF assms(3) s] p by (simp add: utxo_positions_def)
    moreover have "db k = map_option (sc_enc utxos_by_script_hash_Value) (idx (sh, h, t, i))"
      using assms(1) s p(2) unfolding holds_index_def by blast
    then have "k \<in> dom db" using p(1) by (auto simp: utxo_positions_def)
    ultimately show "k \<in> ?L" by simp
  qed
qed

lemma finite_positions:
  assumes "holds_index n db idx" "utxo_table n db" "length sh = 20" "finite (dom db)"
  shows "finite (utxo_positions idx sh lo hi)"
proof -
  have "finite ((\<lambda>p. utxo_store_key n (sh, p)) ` utxo_positions idx sh lo hi)"
    using assms(4) unfolding keys_in_range [OF assms(1-3), symmetric] by simp
  moreover have "inj_on (\<lambda>p. utxo_store_key n (sh, p)) (utxo_positions idx sh lo hi)"
  proof (rule inj_onI)
    fix p q assume a: "p \<in> utxo_positions idx sh lo hi" "q \<in> utxo_positions idx sh lo hi" "utxo_store_key n (sh, p) = utxo_store_key n (sh, q)"
    then have "key_sized (sh, p)" "key_sized (sh, q)" using assms(3) by (auto simp: utxo_positions_def key_sized_def)
    then show "p = q" using a(3) utxo_store_key_inject by blast
  qed
  ultimately show ?thesis using finite_imageD by blast
qed

text \<open>The entries of the listing, in the order asked for.\<close>

definition utxo_entries :: "OrderParam \<Rightarrow> (utxo_key \<rightharpoonup> u64) \<Rightarrow> bytes \<Rightarrow> u64 option \<Rightarrow> u64 option \<Rightarrow> utxo_entry list" where
  "utxo_entries order idx sh lo hi =
     map (\<lambda>p. ((sh, p), the (idx (sh, p))))
       (case order of Asc \<Rightarrow> sorted_list_of_set (utxo_positions idx sh lo hi)
        | Desc \<Rightarrow> rev (sorted_list_of_set (utxo_positions idx sh lo hi)))"

definition stored_entry :: "Namespace \<Rightarrow> utxo_entry \<Rightarrow> bytes \<times> bytes" where
  "stored_entry n e = (utxo_store_key n (fst e), sc_enc utxos_by_script_hash_Value (snd e))"

lemma scanned_entries:
  assumes hold: "holds_index n db idx" "utxo_table n db" "length sh = 20" and fin: "finite (dom db)"
  shows "scan_entries order db (height_range n sh lo hi) = map (stored_entry n) (utxo_entries order idx sh lo hi)"
proof -
  let ?A = "utxo_positions idx sh lo hi" and ?f = "\<lambda>p. utxo_store_key n (sh, p)"
  note finA = finite_positions [OF hold fin, of lo hi]
  have keys: "range_keys db (height_range n sh lo hi) = map ?f (sorted_list_of_set ?A)"
    unfolding range_keys_def keys_in_range [OF hold]
    by (rule sorted_list_of_image [OF finA]) (auto simp: utxo_positions_def intro!: store_key_mono simp del: less_prod_simp)
  have v: "(?f p, the (db (?f p))) = stored_entry n ((sh, p), the (idx (sh, p)))" if "p \<in> ?A" for p
  proof -
    have "key_sized (sh, p)" using that hold(3) by (auto simp: utxo_positions_def key_sized_def)
    then have "db (?f p) = map_option (sc_enc utxos_by_script_hash_Value) (idx (sh, p))" using hold(1) unfolding holds_index_def by blast
    moreover have "idx (sh, p) \<noteq> None" using that by (auto simp: utxo_positions_def)
    ultimately show ?thesis by (auto simp: stored_entry_def)
  qed
  show ?thesis
    by (cases order)
      (use v finA in \<open>simp_all add: scan_entries_def with_values_def ordered_keys_def keys utxo_entries_def rev_map\<close>)
qed

lemma read_stored:
  assumes "key_sized key"
  shows "read_entry (sc_dec utxos_by_script_hash_Key) (sc_dec utxos_by_script_hash_Value) (stored_entry n (key, v)) = Inr (key, v)"
proof -
  have "sc_wf utxos_by_script_hash_Key key"
    using assms by (auto simp: key_sized_def utxos_by_script_hash_Key_def sc_field_def sc_array_def sc_int_def split: prod.splits)
  then have "sc_dec utxos_by_script_hash_Key (sc_enc utxos_by_script_hash_Key key @ []) = Inr (key, [])"
    by (rule utxo_key_codec.dec_enc)
  moreover have "sc_dec utxos_by_script_hash_Value (sc_enc utxos_by_script_hash_Value v) = Inr (v, [])"
    using decode_encode_int [of v "[]"] by (simp add: utxos_by_script_hash_Value_def sc_int_def)
  ultimately show ?thesis
    by (simp add: read_entry_def read_key_def key_body_def stored_entry_def utxo_store_key_def decode_to_def)
qed

section \<open>The listing\<close>

definition runes_key :: "Namespace \<Rightarrow> bytes \<Rightarrow> u32 \<Rightarrow> bytes" where
  "runes_key n t i = prefix_data n RunesByUtxo (sc_enc runes_by_utxo_Key (t, i))"

definition inscribed_key :: "Namespace \<Rightarrow> bytes \<Rightarrow> u32 \<Rightarrow> bytes" where
  "inscribed_key n t i = prefix_data n InscriptionsByUtxo (sc_enc inscriptions_by_utxo_Key (t, i))"

text \<open>An output that carries dunes or inscriptions according to the tables.\<close>

definition carries :: "'a UtxoEnv \<Rightarrow> kv_map \<Rightarrow> bytes \<Rightarrow> u32 \<Rightarrow> bool" where
  "carries E db t i \<longleftrightarrow> db (runes_key (ue_runes_by_utxo E) t i) \<noteq> None \<or> db (inscribed_key (ue_inscriptions_by_utxo E) t i) \<noteq> None"

definition decodes :: "'b decoder \<Rightarrow> bytes option \<Rightarrow> bool" where
  "decodes d v \<longleftrightarrow> pred_option (\<lambda>b. \<exists>x. decode_to d b = Inr x) v"

record 'a UtxoListing =
  ul_env :: "'a UtxoEnv"
  ul_ns :: Namespace
  ul_db :: kv_map
  ul_index :: "utxo_key \<rightharpoonup> u64"
  ul_last_updated :: LastUpdated
  ul_page :: HeightPaginationParams
  ul_input :: string
  ul_params :: UtxoParams
  ul_count :: nat

definition ul_script_hash :: "'a UtxoListing \<Rightarrow> bytes" where
  "ul_script_hash q = mc_script_hash (mp_crates (ue_mapi (ul_env q))) (ue_script (ul_env q))"

definition ul_order :: "'a UtxoListing \<Rightarrow> OrderParam" where
  "ul_order q = unwrap_or (cp_order (ul_page q)) Asc"

definition ul_wanted :: "'a UtxoListing \<Rightarrow> utxo_entry \<Rightarrow> bool" where
  "ul_wanted q e = (case e of ((_, _, t, i), v) \<Rightarrow>
     dust_threshold (ul_params q) \<le> v \<and> (ue_exclude (ul_env q) \<longrightarrow> \<not> carries (ul_env q) (ul_db q) t i))"

definition ul_items :: "'a UtxoListing \<Rightarrow> utxo_entry list" where
  "ul_items q = filter (ul_wanted q)
     (utxo_entries (ul_order q) (ul_index q) (ul_script_hash q) (hp_from (ul_page q)) (hp_to (ul_page q)))"

definition ul_rows :: "'a UtxoListing \<Rightarrow> Utxo list" where
  "ul_rows q = map (\<lambda>e. projr (utxo_row (ul_env q) e)) (ul_items q)"

definition ul_ask :: "'a UtxoListing \<Rightarrow> string option \<Rightarrow> (Utxo list \<times> string option) mapi" where
  "ul_ask q c = page_of (utxos_by_address (ue_mapi (ul_env q)) ((ul_page q)\<lparr>cp_cursor := c\<rparr>) (ul_input q) (ul_params q))"

definition ul_mark :: "'a UtxoListing \<Rightarrow> nat \<Rightarrow> string" where
  "ul_mark q j = utxo_cursor (mp_crates (ue_mapi (ul_env q))) (ul_items q ! j)"

text \<open>
  A listing that can be served: the registry and the snapshot answer, the address has a script, the page
  size is right, the store holds the index, and the entries of the other tables can be read.
\<close>

definition ul_served :: "'a UtxoListing \<Rightarrow> bool" where
  "ul_served q \<longleftrightarrow> (let E = ul_env q; M = ue_mapi E; S = ue_snapshot E; R = mp_registry M in
     utxos_by_script_hash_encoder R = Inr (ul_ns q) \<and> runes_by_utxo_encoder R = Inr (ue_runes_by_utxo E) \<and>
     etching_by_rune_id_encoder R = Inr (ue_etching E) \<and> inscriptions_by_utxo_encoder R = Inr (ue_inscriptions_by_utxo E) \<and>
     mp_snapshot M = Inr S \<and> snapshot_of (ul_db q) S \<and> get_last_updated S (ul_ns q) = Inr (ul_last_updated q) \<and>
     ue_tip E = lu_block_height (ul_last_updated q) \<and> ue_exclude E = unwrap_or (up_exclude_metaprotocols (ul_params q)) False \<and>
     parse_address_or_script_bytes M S (ul_input q) = mapi_ok (ue_address E, ue_script E) \<and>
     page_count (cp_count (ul_page q)) = Inr (ul_count q) \<and> length (ul_script_hash q) = 20 \<and>
     (\<forall>b. mc_b64_decode (mp_crates M) (mc_b64_encode (mp_crates M) b) = Some b))"

definition ul_stored :: "'a UtxoListing \<Rightarrow> bool" where
  "ul_stored q \<longleftrightarrow> holds_index (ul_ns q) (ul_db q) (ul_index q) \<and> utxo_table (ul_ns q) (ul_db q) \<and>
     (\<forall>t i. decodes (sc_dec runes_by_utxo_Value) (ul_db q (runes_key (ue_runes_by_utxo (ul_env q)) t i)) \<and>
       decodes (sc_dec inscriptions_by_utxo_Value) (ul_db q (inscribed_key (ue_inscriptions_by_utxo (ul_env q)) t i))) \<and>
     (\<forall>e\<in>set (ul_items q). \<exists>r. utxo_row (ul_env q) e = Inr r)"

definition ul_ok :: "'a UtxoListing \<Rightarrow> bool" where
  "ul_ok q \<longleftrightarrow> ul_served q \<and> ul_stored q"

lemma dust_filter_stored:
  "(case dust_filter t of None \<Rightarrow> True | Some f \<Rightarrow> f (stored_entry n (k, v))) \<longleftrightarrow> t \<le> v"
proof -
  have "sc_enc utxos_by_script_hash_Value v = to_be_bytes v" by (simp add: utxos_by_script_hash_Value_def sc_int_def encode_int_def)
  then have "take 8 (sc_enc utxos_by_script_hash_Value v) = to_be_bytes v" "length (sc_enc utxos_by_script_hash_Value v) = 8" by simp_all
  moreover have "t = 0" if "\<not> 0 < t" using that by (simp add: word_gt_0)
  ultimately show ?thesis by (auto simp: dust_filter_def stored_entry_def)
qed

lemma get_maybe_decodes:
  assumes "snapshot_of db S" "decodes d (db (prefix_data n r k))"
  shows "\<exists>x. get_reducer_key_maybe S n r k d = Inr x \<and> (x = None \<longleftrightarrow> db (prefix_data n r k) = None)"
  using assms(2) snapshot_ofD(3) [OF assms(1)]
  by (auto simp: get_reducer_key_maybe_def decodes_def split: option.splits)

lemma non_metaprotocol_stored:
  assumes "snapshot_of db (ue_snapshot E)" "key_sized (sh, h, t, i)"
    and "decodes (sc_dec runes_by_utxo_Value) (db (runes_key (ue_runes_by_utxo E) t i))"
    and "decodes (sc_dec inscriptions_by_utxo_Value) (db (inscribed_key (ue_inscriptions_by_utxo E) t i))"
  shows "non_metaprotocol (ue_snapshot E) (ue_runes_by_utxo E) (ue_inscriptions_by_utxo E) (stored_entry n ((sh, h, t, i), v)) =
    Inr (if carries E db t i then None else Some ((sh, h, t, i), v))"
proof -
  obtain x y where "get_reducer_key_maybe (ue_snapshot E) (ue_runes_by_utxo E) RunesByUtxo (sc_enc runes_by_utxo_Key (t, i)) (sc_dec runes_by_utxo_Value) = Inr x"
    "x = None \<longleftrightarrow> db (runes_key (ue_runes_by_utxo E) t i) = None"
    "get_reducer_key_maybe (ue_snapshot E) (ue_inscriptions_by_utxo E) InscriptionsByUtxo (sc_enc inscriptions_by_utxo_Key (t, i)) (sc_dec inscriptions_by_utxo_Value) = Inr y"
    "y = None \<longleftrightarrow> db (inscribed_key (ue_inscriptions_by_utxo E) t i) = None"
    using get_maybe_decodes [OF assms(1)] assms(3,4) unfolding runes_key_def inscribed_key_def by metis
  then show ?thesis using read_stored [OF assms(2)] by (simp add: non_metaprotocol_def carries_def)
qed

definition ul_fetch :: "'a UtxoListing \<Rightarrow> key_range \<Rightarrow> utxo_entry list mapi" where
  "ul_fetch q r = (let E = ul_env q; S = ue_snapshot E; flt = dust_filter (dust_threshold (ul_params q));
       scanner = scanner_order (ul_order q) (scanner_count (ul_count q + 1) (scanner_new r)) in
     if ue_exclude E then get_non_metaprotocol_utxos S flt (ue_runes_by_utxo E) (ue_inscriptions_by_utxo E) scanner
     else execute_with_filter (sc_dec utxos_by_script_hash_Key) (sc_dec utxos_by_script_hash_Value) S flt scanner)"

lemma retain_stored: "retain (dust_filter t) (map (stored_entry n) es) = map (stored_entry n) (filter (\<lambda>e. t \<le> snd e) es)"
proof -
  have "retain f (map (stored_entry n) es) = map (stored_entry n) (filter (\<lambda>e. case f of None \<Rightarrow> True | Some g \<Rightarrow> g (stored_entry n e)) es)" for f
    by (cases f) (simp_all add: retain_def filter_map comp_def)
  moreover have "(case dust_filter t of None \<Rightarrow> True | Some g \<Rightarrow> g (stored_entry n e)) \<longleftrightarrow> t \<le> snd e" for e
    using dust_filter_stored [where t = t and n = n and k = "fst e" and v = "snd e"] by (cases e) (simp only: fst_conv snd_conv)
  ultimately show ?thesis by (simp only:)
qed

lemma ul_fetch_exact:
  assumes ok: "ul_ok q" and r: "scan_entries (ul_order q) (ul_db q) r = map (stored_entry (ul_ns q)) es"
    and sized: "\<forall>e\<in>set es. key_sized (fst e)"
  shows "ul_fetch q r = mapi_ok (truncate_to (Some (Suc (ul_count q))) (filter (ul_wanted q) es))"
proof -
  let ?E = "ul_env q" and ?S = "ue_snapshot (ul_env q)" and ?flt = "dust_filter (dust_threshold (ul_params q))"
  let ?scanner = "scanner_order (ul_order q) (scanner_count (Suc (ul_count q)) (scanner_new r))"
  let ?big = "\<lambda>e. dust_threshold (ul_params q) \<le> snd e"
  have S: "snapshot_of (ul_db q) ?S" and cnt: "page_count (cp_count (ul_page q)) = Inr (ul_count q)"
    using ok by (simp_all add: ul_ok_def ul_served_def Let_def)
  have scn: "scn_order ?scanner = ul_order q" "scn_range ?scanner = r" "scn_count ?scanner = Some (Suc (ul_count q))"
    by (simp_all add: scanner_order_def scanner_count_def scanner_new_def)
  have ents: "retain ?flt (scan_entries (scn_order ?scanner) (ul_db q) (scn_range ?scanner)) = map (stored_entry (ul_ns q)) (filter ?big es)"
    unfolding scn r retain_stored ..
  show ?thesis
  proof (cases "ue_exclude ?E")
    case True
    let ?g = "\<lambda>kv. (case non_metaprotocol ?S (ue_runes_by_utxo ?E) (ue_inscriptions_by_utxo ?E) kv of Inl e \<Rightarrow> None | Inr x \<Rightarrow> x)"
    have st: "non_metaprotocol ?S (ue_runes_by_utxo ?E) (ue_inscriptions_by_utxo ?E) (stored_entry (ul_ns q) e) =
        Inr (if (case e of ((_, _, t, i), _) \<Rightarrow> carries ?E (ul_db q) t i) then None else Some e)" if "e \<in> set es" for e
    proof -
      obtain sh h t i v where e: "e = ((sh, h, t, i), v)" by (metis prod.exhaust)
      have "key_sized (sh, h, t, i)" using sized that e by fastforce
      then show ?thesis using non_metaprotocol_stored [OF S] ok e by (simp add: ul_ok_def ul_stored_def)
    qed
    have "List.map_filter ?g (map (stored_entry (ul_ns q)) xs) = filter (\<lambda>e. case e of ((_, _, t, i), _) \<Rightarrow> \<not> carries ?E (ul_db q) t i) xs"
      if "set xs \<subseteq> set es" for xs
      using that st by (induction xs) (auto simp: map_filter_simps split: prod.splits)
    from this [of "filter ?big es"]
    have "List.map_filter ?g (map (stored_entry (ul_ns q)) (filter ?big es)) = filter (ul_wanted q) es"
      using True by (auto simp: ul_wanted_def intro!: filter_cong split: prod.splits)
    moreover have "get_non_metaprotocol_utxos ?S ?flt (ue_runes_by_utxo ?E) (ue_inscriptions_by_utxo ?E) ?scanner =
      mapi_ok (truncate_to (scn_count ?scanner) (List.map_filter ?g (retain ?flt (scan_entries (scn_order ?scanner) (ul_db q) (scn_range ?scanner)))))"
    proof (rule get_non_metaprotocol_utxos_exact [OF S])
      fix kv assume "kv \<in> set (retain ?flt (scan_entries (scn_order ?scanner) (ul_db q) (scn_range ?scanner)))"
      then obtain e where "e \<in> set es" "kv = stored_entry (ul_ns q) e" unfolding ents by auto
      then show "non_metaprotocol ?S (ue_runes_by_utxo ?E) (ue_inscriptions_by_utxo ?E) kv = Inr (?g kv)" using st by simp
    qed
    ultimately show ?thesis using True by (simp add: ul_fetch_def Let_def ents scn(3))
  next
    case False
    let ?g = "\<lambda>kv. projr (read_entry (sc_dec utxos_by_script_hash_Key) (sc_dec utxos_by_script_hash_Value) kv)"
    have st: "read_entry (sc_dec utxos_by_script_hash_Key) (sc_dec utxos_by_script_hash_Value) (stored_entry (ul_ns q) e) = Inr e" if "e \<in> set es" for e
      using read_stored [of "fst e" "ul_ns q" "snd e"] sized that by simp
    have "map ?g (map (stored_entry (ul_ns q)) (filter ?big es)) = filter ?big es" unfolding map_map by (rule map_idI) (use st in simp)
    moreover have "filter ?big es = filter (ul_wanted q) es" using False by (auto simp: ul_wanted_def intro!: filter_cong split: prod.splits)
    moreover have "count_ok ?scanner" using page_count_bounds [OF cnt] by (simp add: count_ok_def scn)
    then have "execute_with_filter (sc_dec utxos_by_script_hash_Key) (sc_dec utxos_by_script_hash_Value) ?S ?flt ?scanner =
      mapi_ok (truncate_to (scn_count ?scanner) (map ?g (retain ?flt (scan_entries (scn_order ?scanner) (ul_db q) (scn_range ?scanner)))))"
    proof (rule execute_with_filter_exact [OF S])
      fix kv assume "kv \<in> set (retain ?flt (scan_entries (scn_order ?scanner) (ul_db q) (scn_range ?scanner)))"
      then obtain e where "e \<in> set es" "kv = stored_entry (ul_ns q) e" unfolding ents by auto
      then show "read_entry (sc_dec utxos_by_script_hash_Key) (sc_dec utxos_by_script_hash_Value) kv = Inr (?g kv)" using st by simp
    qed
    ultimately show ?thesis using False by (simp add: ul_fetch_def Let_def ents scn(3))
  qed
qed

lemma ul_ask_fetch:
  assumes "ul_ok q" "apply_cursor (mp_crates (ue_mapi (ul_env q))) encode_array utxos_by_script_hash_Cursor (ul_ns q) UtxosByScriptHash
      (Some (ul_script_hash q)) (ul_order q) c (height_range (ul_ns q) (ul_script_hash q) (hp_from (ul_page q)) (hp_to (ul_page q))) = Inr r"
  shows "ul_ask q c = mapi_bind (ul_fetch q r) (\<lambda>kvs.
    page_rows (ul_count q) (utxo_cursor (mp_crates (ue_mapi (ul_env q)))) (\<lambda>kv. mapi_lift (utxo_row (ul_env q) kv)) 0 kvs [] None)"
proof -
  let ?E = "ul_env q"
  note s = assms(1) [unfolded ul_ok_def ul_served_def Let_def]
  have pp: "height_parse (mp_crates (ue_mapi ?E)) encode_array utxos_by_script_hash_Cursor ((ul_page q)\<lparr>cp_cursor := c\<rparr>) (ul_ns q)
      UtxosByScriptHash (Some (ul_script_hash q)) = Inr \<lparr>pp_count = ul_count q, pp_order = ul_order q, pp_range = r\<rparr>"
    using s assms(2) by (simp add: height_parse_def Let_def height_range_def flip: ul_order_def)
  have env: "\<lparr>ue_mapi = ue_mapi ?E, ue_snapshot = ue_snapshot ?E, ue_runes_by_utxo = ue_runes_by_utxo ?E, ue_etching = ue_etching ?E,
      ue_inscriptions_by_utxo = ue_inscriptions_by_utxo ?E, ue_exclude = unwrap_or (up_exclude_metaprotocols (ul_params q)) False,
      ue_address = ue_address ?E, ue_script = ue_script ?E, ue_tip = lu_block_height (ul_last_updated q)\<rparr> = ?E"
    using s by (intro UtxoEnv.equality) simp_all
  show ?thesis
    using s by (simp add: ul_ask_def utxos_by_address_def ul_fetch_def Let_def page_of_bind pp env flip: ul_script_hash_def
        split del: if_split cong del: if_weak_cong)
qed

lemma ul_rows_from:
  assumes ok: "ul_ok q" and r: "ul_fetch q r = mapi_ok (truncate_to (Some (Suc (ul_count q))) (drop i (ul_items q)))"
    and ask: "ul_ask q c = mapi_bind (ul_fetch q r) (\<lambda>kvs.
    page_rows (ul_count q) (utxo_cursor (mp_crates (ue_mapi (ul_env q)))) (\<lambda>kv. mapi_lift (utxo_row (ul_env q) kv)) 0 kvs [] None)"
  shows "ul_ask q c = mapi_ok (page_from (ul_count q) (ul_mark q) (ul_rows q) i)"
proof -
  have "0 < ul_count q" using page_count_bounds ok by (auto simp: ul_ok_def ul_served_def Let_def)
  moreover have "mapi_lift (utxo_row (ul_env q) e) = mapi_ok (projr (utxo_row (ul_env q) e))" if "e \<in> set (ul_items q)" for e
    using that ok by (force simp: ul_ok_def ul_stored_def)
  ultimately show ?thesis
    using page_of_scan [of "ul_count q" "ul_items q" "\<lambda>kv. mapi_lift (utxo_row (ul_env q) kv)" "\<lambda>e. projr (utxo_row (ul_env q) e)"
        "utxo_cursor (mp_crates (ue_mapi (ul_env q)))" i]
    by (simp add: ask r ul_rows_def ul_mark_def [abs_def])
qed

lemma ul_entries_sized:
  assumes "ul_ok q"
  shows "\<forall>e\<in>set (utxo_entries order (ul_index q) (ul_script_hash q) lo hi). key_sized (fst e)"
proof -
  note s = assms [unfolded ul_ok_def ul_served_def ul_stored_def Let_def]
  have "finite (dom (ul_db q))" using s snapshot_ofD(1) by blast
  then have "finite (utxo_positions (ul_index q) (ul_script_hash q) lo hi)" using s by (intro finite_positions) auto
  then show ?thesis using s by (cases order) (auto simp: utxo_entries_def utxo_positions_def key_sized_def)
qed

interpretation ul: cursor_listing ul_ok ul_ask ul_rows ul_mark ul_count
proof
  fix q :: "'a UtxoListing"
  assume ok: "ul_ok q"
  let ?C = "mp_crates (ue_mapi (ul_env q))" and ?sh = "ul_script_hash q" and ?n = "ul_ns q" and ?db = "ul_db q" and ?o = "ul_order q"
  let ?r0 = "height_range ?n ?sh (hp_from (ul_page q)) (hp_to (ul_page q))"
  let ?es = "utxo_entries ?o (ul_index q) ?sh (hp_from (ul_page q)) (hp_to (ul_page q))"
  note s = ok [unfolded ul_ok_def ul_served_def ul_stored_def Let_def]
  show "0 < ul_count q" using s page_count_bounds by blast
  have db: "finite (dom ?db)" "[] \<notin> dom ?db" using s snapshot_ofD(1,2) by blast+
  have scan: "scan_entries ?o ?db ?r0 = map (stored_entry ?n) ?es" using s db by (intro scanned_entries) auto
  note sized = ul_entries_sized [OF ok, of ?o "hp_from (ul_page q)" "hp_to (ul_page q)"]
  have "apply_cursor ?C encode_array utxos_by_script_hash_Cursor ?n UtxosByScriptHash (Some ?sh) ?o None ?r0 = Inr ?r0"
    by (simp add: apply_cursor_def)
  note ask = ul_ask_fetch [OF ok this]
  have "ul_fetch q ?r0 = mapi_ok (truncate_to (Some (Suc (ul_count q))) (drop 0 (ul_items q)))"
    using ul_fetch_exact [OF ok scan sized] by (simp add: ul_items_def)
  from ul_rows_from [OF ok this ask] show "ul_ask q None = mapi_ok (page_from (ul_count q) (ul_mark q) (ul_rows q) 0)" .
  fix j assume "j < length (ul_rows q)"
  then have j: "j < length (ul_items q)" by (simp add: ul_rows_def)
  then obtain i where i: "i < length ?es" "?es ! i = ul_items q ! j" "filter (ul_wanted q) (drop (Suc i) ?es) = drop (Suc j) (ul_items q)"
    using filter_drop [of j "ul_wanted q" ?es] unfolding ul_items_def by blast
  obtain sh h t v x where e: "?es ! i = ((sh, h, t, v), x)" by (metis prod.exhaust)
  have mem: "((sh, h, t, v), x) \<in> set ?es" using i(1) e by (metis nth_mem)
  then have sh: "sh = ?sh" by (cases ?o) (auto simp: utxo_entries_def)
  have len: "length t = 32" using sized mem by (auto simp: key_sized_def)
  let ?k = "utxo_store_key ?n (?sh, h, t, v)"
  have k: "fst (scan_entries ?o ?db ?r0 ! i) = ?k" using i(1) e sh by (simp add: scan stored_entry_def)
  have "scan_entries ?o ?db ?r0 ! i \<in> set (scan_entries ?o ?db ?r0)" using i(1) by (simp add: scan)
  then have inr: "in_range ?r0 ?k" using scan_entries_in_range [OF db(1)] k by metis
  have law: "lawful utxos_by_script_hash_Cursor" by (simp add: utxos_by_script_hash_Cursor_def)
  have wf: "sc_wf utxos_by_script_hash_Cursor (h, t, v)"
    using len by (simp add: utxos_by_script_hash_Cursor_def sc_field_def sc_int_def sc_array_def)
  have key: "?k = cursor_key encode_array (sc_enc utxos_by_script_hash_Cursor) ?n UtxosByScriptHash (Some ?sh) (h, t, v)"
    by (simp add: cursor_key_def encode_triple_def store_key_pos encode_array_def flip: pos_bytes_def)
  have mark: "ul_mark q j = encode_base64 (mc_b64_encode ?C) (sc_enc utxos_by_script_hash_Cursor) (h, t, v)"
    unfolding ul_mark_def i(2) [symmetric] e by (simp add: utxo_cursor_def)
  have "apply_cursor ?C encode_array utxos_by_script_hash_Cursor ?n UtxosByScriptHash (Some ?sh) ?o (Some (ul_mark q j)) ?r0 =
      Inr (remaining_range ?o ?r0 ?k)"
    unfolding mark by (rule apply_cursor_made [OF _ law wf key inr height_range_bounds]) (use s in blast)
  note ask = ul_ask_fetch [OF ok this]
  have "scan_entries ?o ?db (remaining_range ?o ?r0 ?k) = map (stored_entry ?n) (drop (Suc i) ?es)"
    using scan_entries_after [OF db, of i ?o ?r0] i(1) k by (simp add: scan drop_map)
  from ul_fetch_exact [OF ok this] sized have "ul_fetch q (remaining_range ?o ?r0 ?k) =
      mapi_ok (truncate_to (Some (Suc (ul_count q))) (drop (Suc j) (ul_items q)))" using i(3) by (auto dest: in_set_dropD)
  from ul_rows_from [OF ok this ask]
  show "ul_ask q (Some (ul_mark q j)) = mapi_ok (page_from (ul_count q) (ul_mark q) (ul_rows q) (Suc j))" .
qed

section \<open>Properties\<close>

definition before :: "OrderParam \<Rightarrow> utxo_entry \<Rightarrow> utxo_entry \<Rightarrow> bool" where
  "before order e e' \<longleftrightarrow> (case order of Asc \<Rightarrow> snd (fst e) < snd (fst e') | Desc \<Rightarrow> snd (fst e') < snd (fst e))"

lemma utxo_entries_ordered: "sorted_wrt (before order) (utxo_entries order idx sh lo hi)"
proof -
  have "sorted_wrt (<) (sorted_list_of_set (utxo_positions idx sh lo hi))" by simp
  then show ?thesis
    by (cases order) (auto simp: utxo_entries_def sorted_wrt_map sorted_wrt_rev before_def [abs_def] simp del: less_prod_simp)
qed

text \<open>
  C5. The listing of an address follows the chain. Let the store hold the table of the unspent outputs U
  of the chain. A client that asks for the unspent outputs of an address and follows the cursors gets
  pages that are full but for the last, and all rows together are those of the unspent outputs of U that
  pay to the script of the address, were made within the heights asked for, reach the dust threshold and,
  when outputs with dunes or inscriptions are excluded, carry none; each once, in the order asked for
  of height, transaction hash and output number.
\<close>

theorem address_listing_follows_chain:
  assumes "ul_ok q" "ul_index q = utxo_index B U" "\<forall>op\<in>dom U. length (op_txid op) = 32"
  shows "\<exists>items. lists_all (ul_ask q) (ul_count q) (map (\<lambda>e. projr (utxo_row (ul_env q) e)) items) \<and>
    sorted_wrt (before (ul_order q)) items \<and>
    set items = {((ul_script_hash q, h, op_txid op, op_vout op), to_value out) | h op out.
      U op = Some (h, out) \<and> bc_script_hash B (to_script_pubkey out) = ul_script_hash q \<and>
      in_heights (hp_from (ul_page q)) (hp_to (ul_page q)) h \<and> dust_threshold (ul_params q) \<le> to_value out \<and>
      (ue_exclude (ul_env q) \<longrightarrow> \<not> carries (ul_env q) (ul_db q) (op_txid op) (op_vout op))}"
    (is "\<exists>items. _ \<and> _ \<and> _ = ?L")
proof (intro exI [of _ "ul_items q"] conjI)
  let ?sh = "ul_script_hash q" and ?lo = "hp_from (ul_page q)" and ?hi = "hp_to (ul_page q)"
  note s = assms(1) [unfolded ul_ok_def ul_served_def ul_stored_def Let_def]
  show "lists_all (ul_ask q) (ul_count q) (map (\<lambda>e. projr (utxo_row (ul_env q) e)) (ul_items q))"
    using ul.listing [OF assms(1)] by (simp add: ul_rows_def)
  show "sorted_wrt (before (ul_order q)) (ul_items q)" unfolding ul_items_def by (intro sorted_wrt_filter utxo_entries_ordered)
  have "finite (dom (ul_db q))" using s snapshot_ofD(1) by blast
  then have "finite (utxo_positions (ul_index q) ?sh ?lo ?hi)" using s by (intro finite_positions) auto
  then have items: "set (ul_items q) = {e \<in> (\<lambda>p. ((?sh, p), the (ul_index q (?sh, p)))) ` utxo_positions (ul_index q) ?sh ?lo ?hi. ul_wanted q e}"
    by (cases "ul_order q") (auto simp: ul_items_def utxo_entries_def)
  have mem: "(h, t, i) \<in> utxo_positions (ul_index q) ?sh ?lo ?hi \<longleftrightarrow> in_heights ?lo ?hi h \<and>
      (\<exists>out. U \<lparr>op_txid = t, op_vout = i\<rparr> = Some (h, out) \<and> bc_script_hash B (to_script_pubkey out) = ?sh)" for h t i
  proof -
    have "length t = 32" if "U \<lparr>op_txid = t, op_vout = i\<rparr> = Some x" for x
      using bspec [OF assms(3), of "\<lparr>op_txid = t, op_vout = i\<rparr>"] that by (simp add: domI)
    then show ?thesis
      by (cases "U \<lparr>op_txid = t, op_vout = i\<rparr>") (auto simp: utxo_positions_def assms(2) utxo_index_def split: if_splits)
  qed
  have val: "ul_index q (?sh, h, t, i) = Some (to_value out)"
    if "U \<lparr>op_txid = t, op_vout = i\<rparr> = Some (h, out)" "bc_script_hash B (to_script_pubkey out) = ?sh" for h t i out
    using that by (simp add: assms(2) utxo_index_def)
  show "set (ul_items q) = ?L"
  proof (intro set_eqI iffI)
    fix e assume "e \<in> set (ul_items q)"
    then obtain h t i where e: "e = ((?sh, h, t, i), the (ul_index q (?sh, h, t, i)))" "(h, t, i) \<in> utxo_positions (ul_index q) ?sh ?lo ?hi"
      "ul_wanted q e" unfolding items by auto
    from e(2) obtain out where out: "in_heights ?lo ?hi h" "U \<lparr>op_txid = t, op_vout = i\<rparr> = Some (h, out)"
      "bc_script_hash B (to_script_pubkey out) = ?sh" unfolding mem by blast
    show "e \<in> ?L" using e(1,3) out val [OF out(2,3)]
      by (intro CollectI exI [of _ h] exI [of _ "\<lparr>op_txid = t, op_vout = i\<rparr>"] exI [of _ out]) (simp add: ul_wanted_def)
  next
    fix e assume "e \<in> ?L"
    then obtain h op out where e: "e = ((?sh, h, op_txid op, op_vout op), to_value out)" "U op = Some (h, out)"
      "bc_script_hash B (to_script_pubkey out) = ?sh" "in_heights ?lo ?hi h" "dust_threshold (ul_params q) \<le> to_value out"
      "ue_exclude (ul_env q) \<longrightarrow> \<not> carries (ul_env q) (ul_db q) (op_txid op) (op_vout op)" by blast
    have U: "U \<lparr>op_txid = op_txid op, op_vout = op_vout op\<rparr> = Some (h, out)" using e(2) by simp
    have "(h, op_txid op, op_vout op) \<in> utxo_positions (ul_index q) ?sh ?lo ?hi" unfolding mem using U e(3,4) by blast
    moreover have "ul_wanted q e" using e by (simp add: ul_wanted_def)
    ultimately show "e \<in> set (ul_items q)" unfolding items e(1) using val [OF U e(3)] by force
  qed
qed

section \<open>A listing of two pages\<close>

definition paged_utxos :: utxos where
  "paged_utxos = [\<lparr>op_txid = replicate 32 7, op_vout = 0\<rparr> \<mapsto> (4, \<lparr>to_value = 9, to_script_pubkey = [7]\<rparr>),
     \<lparr>op_txid = replicate 32 8, op_vout = 1\<rparr> \<mapsto> (5, \<lparr>to_value = 12, to_script_pubkey = [7]\<rparr>)]"

definition paged_store :: kv_map where
  "paged_store = [utxo_store_key sample_ns (replicate 20 7, 4, replicate 32 7, 0) \<mapsto> sc_enc utxos_by_script_hash_Value 9,
     utxo_store_key sample_ns (replicate 20 7, 5, replicate 32 8, 1) \<mapsto> sc_enc utxos_by_script_hash_Value 12,
     prefix_cursor sample_ns \<mapsto> small_cursor]"

definition paged_env :: "unit UtxoEnv" where
  "paged_env = \<lparr>ue_mapi = \<lparr>mp_crates = paged_crates,
       mp_registry = \<lparr>rg_network = Mainnet, rg_zrange = (\<lambda>_. Inr [[dataplane_id sample_ns, instance_id sample_ns]])\<rparr>,
       mp_snapshot = Inr (snapshot_at paged_store), mp_mode = ModeDogecoin\<rparr>,
     ue_snapshot = snapshot_at paged_store, ue_runes_by_utxo = sample_ns, ue_etching = sample_ns,
     ue_inscriptions_by_utxo = sample_ns, ue_exclude = False, ue_address = None, ue_script = [], ue_tip = 6\<rparr>"

definition paged_listing :: "unit UtxoListing" where
  "paged_listing = \<lparr>ul_env = paged_env, ul_ns = sample_ns, ul_db = paged_store, ul_index = utxo_index chain_crate paged_utxos,
     ul_last_updated = \<lparr>lu_block_hash = replicate 32 3, lu_block_height = 6\<rparr>,
     ul_page = \<lparr>cp_count = Some 1, cp_order = None, cp_cursor = None, hp_from = None, hp_to = None\<rparr>,
     ul_input = [], ul_params = \<lparr>up_filter_dust = None, up_filter_dust_threshold = None, up_exclude_metaprotocols = None\<rparr>,
     ul_count = 1\<rparr>"

lemma paged_keys:
  "utxo_store_key sample_ns key = utxo_store_key sample_ns (replicate 20 7, 4, replicate 32 7, 0) \<longleftrightarrow> key = (replicate 20 7, 4, replicate 32 7, 0)"
  "utxo_store_key sample_ns key = utxo_store_key sample_ns (replicate 20 7, 5, replicate 32 8, 1) \<longleftrightarrow> key = (replicate 20 7, 5, replicate 32 8, 1)"
  if "key_sized key"
  using utxo_store_key_inject that by (simp_all add: key_sized_def)

lemma paged_other: "utxo_store_key n key \<noteq> prefix_cursor m"
  by (simp add: utxo_store_key_def prefix_cursor_def)

lemma paged_holds: "holds_index sample_ns paged_store (utxo_index chain_crate paged_utxos)"
proof -
  have "utxo_index chain_crate paged_utxos k = (if k = (replicate 20 7, 4, replicate 32 7, 0) then Some 9
      else if k = (replicate 20 7, 5, replicate 32 8, 1) then Some 12 else None)" for k
    by (cases k) (auto simp: utxo_index_def paged_utxos_def chain_crate_def split: if_splits)
  then show ?thesis using paged_keys paged_other
    by (simp add: holds_index_def paged_store_def del: split_paired_All)
qed

lemma paged_table: "utxo_table sample_ns paged_store"
  unfolding utxo_table_def
proof (intro ballI impI)
  fix k assume k: "k \<in> dom paged_store" "has_prefix [dataplane_id sample_ns, instance_id sample_ns, PREFIX_DATA, reducer_u8 UtxosByScriptHash] k"
  then have "k \<noteq> prefix_cursor sample_ns" by (auto simp: prefix_cursor_def has_prefix_def)
  then have "k = utxo_store_key sample_ns (replicate 20 7, 4, replicate 32 7, 0) \<or> k = utxo_store_key sample_ns (replicate 20 7, 5, replicate 32 8, 1)"
    using k(1) by (auto simp: paged_store_def split: if_splits)
  moreover have "key_sized (replicate 20 7, 4, replicate 32 7, 0)" "key_sized (replicate 20 7, 5, replicate 32 8, 1)" by (simp_all add: key_sized_def)
  ultimately show "\<exists>key. key_sized key \<and> k = utxo_store_key sample_ns key" by blast
qed

lemma paged_none: "paged_store (runes_key sample_ns t i) = None" "paged_store (inscribed_key sample_ns t i) = None"
  by (simp_all add: paged_store_def runes_key_def inscribed_key_def utxo_store_key_def prefix_cursor_def)

lemma paged_served: "ul_served paged_listing"
proof -
  have "finite (dom paged_store)" "[] \<notin> dom paged_store"
    by (simp_all add: paged_store_def utxo_store_key_def prefix_cursor_def)
  note snap = snapshot_of_at [OF this]
  have last: "get_last_updated (snapshot_at paged_store) sample_ns = Inr \<lparr>lu_block_hash = replicate 32 3, lu_block_height = 6\<rparr>"
    unfolding paged_store_def by (rule last_updated_at)
  have C: "mc_address_from_str paged_crates s = None" "mc_hex_decode paged_crates [] = Some []" "mc_script_hash paged_crates b = replicate 20 7"
    "mc_address_from_script paged_crates Mainnet b = None" for s b by (simp_all add: paged_crates_def)
  show ?thesis
    unfolding ul_served_def Let_def
    by (intro conjI)
      (simp_all add: paged_listing_def paged_env_def snap last ul_script_hash_def paged_crates_b64 C unwrap_or_def Let_def page_count_def MAX_PAGE_COUNT_def
        parse_address_or_script_bytes_def address_of_script_def encoder_for_def resolve_key_def
        utxos_by_script_hash_encoder_def runes_by_utxo_encoder_def etching_by_rune_id_encoder_def inscriptions_by_utxo_encoder_def)
qed

lemma paged_ok: "ul_ok paged_listing"
proof -
  have "get_reducer_key_maybe (snapshot_at paged_store) sample_ns RunesByUtxo (sc_enc runes_by_utxo_Key (t, i)) (sc_dec runes_by_utxo_Value) = Inr None"
    "get_reducer_key_maybe (snapshot_at paged_store) sample_ns InscriptionsByUtxo (sc_enc inscriptions_by_utxo_Key (t, i)) (sc_dec inscriptions_by_utxo_Value) = Inr None"
    for t i using paged_none [of t i] by (simp_all add: get_reducer_key_maybe_def snapshot_at_def runes_key_def inscribed_key_def)
  then have "\<exists>r. utxo_row paged_env e = Inr r" for e
    by (cases e) (simp add: utxo_row_def utxo_dunes_def utxo_inscribed_def paged_env_def split_def unwrap_or_def)
  then have "ul_stored paged_listing"
    using paged_holds paged_table paged_none by (simp add: ul_stored_def paged_listing_def decodes_def) (simp add: paged_env_def)
  then show ?thesis using paged_served by (simp add: ul_ok_def)
qed

theorem address_listing_follows_chain_witness:
  "\<exists>items. lists_all (ul_ask paged_listing) 1 (map (\<lambda>e. projr (utxo_row paged_env e)) items) \<and>
    set items = {((replicate 20 7, 4, replicate 32 7, 0), 9), ((replicate 20 7, 5, replicate 32 8, 1), 12)}"
proof -
  have "\<forall>op\<in>dom paged_utxos. length (op_txid op) = 32" by (simp add: paged_utxos_def)
  from address_listing_follows_chain [OF paged_ok _ this, of chain_crate]
  obtain items where i: "lists_all (ul_ask paged_listing) 1 (map (\<lambda>e. projr (utxo_row paged_env e)) items)"
    "set items = {((replicate 20 7, h, op_txid op, op_vout op), to_value out) | h op out.
      paged_utxos op = Some (h, out) \<and> bc_script_hash chain_crate (to_script_pubkey out) = replicate 20 7 \<and>
      in_heights None None h \<and> dust_threshold \<lparr>up_filter_dust = None, up_filter_dust_threshold = None, up_exclude_metaprotocols = None\<rparr> \<le> to_value out}"
    by (auto simp: paged_listing_def ul_script_hash_def paged_env_def paged_crates_def)
  have "set items = {((replicate 20 7, 4, replicate 32 7, 0), 9), ((replicate 20 7, 5, replicate 32 8, 1), 12)}"
    unfolding i(2)
    by (auto simp: paged_utxos_def chain_crate_def in_heights_def dust_threshold_def unwrap_or_def split: if_splits)
      (intro exI [of _ 5] exI [of _ "\<lparr>op_txid = replicate 32 8, op_vout = 1\<rparr>"], simp)
  then show ?thesis using i(1) by blast
qed

end
