(* ===== verification/Mapi_Tx_Listing.thy ===== *)
theory Mapi_Tx_Listing
  imports Mapi_Utxo_Listing
begin

text \<open>
  The listing of the transactions of an address is a listing by scanning: page by page it gives the
  transactions of the script in the table that the indexer keeps.
\<close>

definition txs_served ::
  "'a Mapi \<Rightarrow> HeightPaginationParams \<Rightarrow> string \<Rightarrow> Namespace \<Rightarrow> Snapshot \<Rightarrow> kv_map \<Rightarrow> nat \<Rightarrow> bytes \<Rightarrow>
   (bytes \<times> u64 \<times> u16 \<times> bytes \<rightharpoonup> bool \<times> bool) \<Rightarrow> bool" where
  "txs_served M page_params input n S db cnt script_hash T \<longleftrightarrow>
     txs_by_script_hash_encoder (mp_registry M) = Inr n \<and> mp_snapshot M = Inr S \<and> snapshot_of db S \<and>
     (\<exists>last_updated. get_last_updated S n = Inr last_updated) \<and> page_count (cp_count page_params) = Inr cnt \<and>
     (\<exists>address script. parse_address_or_script_bytes M S input = mapi_ok (address, script) \<and>
       mc_script_hash (mp_crates M) script = script_hash) \<and> length script_hash = 20 \<and>
     (\<forall>b. mc_b64_decode (mp_crates M) (mc_b64_encode (mp_crates M) b) = Some b) \<and>
     holds_table n TxsByScriptHash txs_by_script_hash_Key txs_by_script_hash_Value db T"

definition txs_ask :: "'a Mapi \<Rightarrow> HeightPaginationParams \<Rightarrow> string \<Rightarrow> string option \<Rightarrow> (InvolvedTransaction list \<times> string option) mapi" where
  "txs_ask M page_params input c = page_of (txs_by_address M (page_params\<lparr>cp_cursor := c\<rparr>) input)"

definition txs_order :: "HeightPaginationParams \<Rightarrow> OrderParam" where
  "txs_order page_params = unwrap_or (cp_order page_params) Asc"

definition txs_keys :: "HeightPaginationParams \<Rightarrow> bytes \<Rightarrow> (bytes \<times> u64 \<times> u16 \<times> bytes \<rightharpoonup> bool \<times> bool) \<Rightarrow> (bytes \<times> u64 \<times> u16 \<times> bytes) set" where
  "txs_keys page_params script_hash T =
     {k \<in> dom T. fst k = script_hash \<and> in_heights (hp_from page_params) (hp_to page_params) (fst (snd k))}"

definition txs_range :: "HeightPaginationParams \<Rightarrow> Namespace \<Rightarrow> bytes \<Rightarrow> key_range" where
  "txs_range page_params n script_hash = reducer_key_range encode_array encode_int encode_int n TxsByScriptHash (Some script_hash)
     (hp_from page_params) (map_option (\<lambda>x. saturating_add x 1) (hp_to page_params))"

definition txs_listing :: "'a Mapi \<Rightarrow> HeightPaginationParams \<Rightarrow> Namespace \<Rightarrow> Snapshot \<Rightarrow> kv_map \<Rightarrow> nat \<Rightarrow> bytes \<Rightarrow>
    ('a, bytes, u64 \<times> u16 \<times> bytes, bytes \<times> u64 \<times> u16 \<times> bytes, bool \<times> bool, InvolvedTransaction) ScanListing" where
  "txs_listing M page_params n S db cnt script_hash = \<lparr>sl_crates = mp_crates M, sl_snapshot = S, sl_db = db, sl_ns = n,
     sl_reducer = TxsByScriptHash, sl_params = (encode_array, Some script_hash), sl_cursor = txs_by_script_hash_Cursor,
     sl_order = txs_order page_params, sl_count = cnt, sl_range = txs_range page_params n script_hash,
     sl_key = sc_dec txs_by_script_hash_Key, sl_value = sc_dec txs_by_script_hash_Value, sl_filter = None, sl_at = (\<lambda>kv. snd (fst kv)),
     sl_row = (\<lambda>kv. mapi_ok (tx_row (mp_crates M) kv))\<rparr>"

lemma tx_laws: "lawful txs_by_script_hash_Key" "lawful txs_by_script_hash_Value" "lawful txs_by_script_hash_Cursor"
  by (simp_all add: txs_by_script_hash_Key_def txs_by_script_hash_Value_def txs_by_script_hash_Cursor_def)

lemma tx_key_simp: "sc_enc txs_by_script_hash_Key (sh, h, i, t) = sh @ BREAK # encode_int h @ BREAK # encode_int i @ BREAK # t"
  "sc_enc txs_by_script_hash_Cursor (h, i, t) = encode_int h @ BREAK # encode_int i @ BREAK # t"
  by (simp_all add: txs_by_script_hash_Key_def txs_by_script_hash_Cursor_def sc_field_def encode_field_def sc_array_def encode_array_def sc_int_def)

lemma tx_key_wf: "sc_wf txs_by_script_hash_Key (sh, h, i, t) \<longleftrightarrow> length sh = 20 \<and> length t = 32"
  "sc_wf txs_by_script_hash_Cursor (h, i, t) \<longleftrightarrow> length t = 32"
  by (simp_all add: txs_by_script_hash_Key_def txs_by_script_hash_Cursor_def sc_field_def sc_array_def sc_int_def)

lemma tx_key_mono: "sc_enc txs_by_script_hash_Key (sh, h, i, t) < sc_enc txs_by_script_hash_Key (sh, h', i', t')"
  if "(sh, h, i, t) < (sh, h', i', t')"
proof -
  have le: "encode_int h < encode_int h' \<longleftrightarrow> h < h'" "encode_int i < encode_int i' \<longleftrightarrow> i < i'"
    by (simp_all add: encode_int_def to_be_bytes_less_iff)
  have "length (encode_int h) = length (encode_int h')" "length (encode_int i) = length (encode_int i')" by (simp_all add: encode_int_def)
  moreover have "h < h' \<or> h = h' \<and> (i < i' \<or> i = i' \<and> t < t')" using that by auto
  ultimately show ?thesis unfolding tx_key_simp using le by (auto simp: append_less_append_iff)
qed

lemma txs_scanned:
  assumes "txs_served M pp input n S db cnt sh T"
  shows "finite (txs_keys pp sh T)" "sl_entries (txs_listing M pp n S db cnt sh) =
    map (\<lambda>k. (table_key n TxsByScriptHash txs_by_script_hash_Key k, sc_enc txs_by_script_hash_Value (the (T k))))
      (in_order (txs_order pp) (sorted_list_of_set (txs_keys pp sh T)))"
proof -
  note s = assms [unfolded txs_served_def]
  have fin: "finite (dom db)" using s snapshot_ofD(1) by blast
  have T: "holds_table n TxsByScriptHash txs_by_script_hash_Key txs_by_script_hash_Value db T" using s by blast
  let ?P = "\<lambda>k. fst k = sh \<and> in_heights (hp_from pp) (hp_to pp) (fst (snd k))"
  have pre: "has_prefix [dataplane_id n, instance_id n, PREFIX_DATA, reducer_u8 TxsByScriptHash, BREAK] k" if "in_range (txs_range pp n sh) k" for k
    using that unfolding txs_range_def reducer_key_range_break in_break_range by (auto simp: has_prefix_def)
  have P: "in_range (txs_range pp n sh) (table_key n TxsByScriptHash txs_by_script_hash_Key k) \<longleftrightarrow> ?P k" if "k \<in> dom T" for k
  proof -
    obtain p h i t where k: "k = (p, h, i, t)" by (metis prod.exhaust)
    have "sc_wf txs_by_script_hash_Key k" using T that unfolding holds_table_def by blast
    then have p: "length p = 20" "length sh = 20" using k s by (simp_all add: tx_key_wf)
    have "table_key n TxsByScriptHash txs_by_script_hash_Key k = prefix_data n TxsByScriptHash (encode_array p @ BREAK # encode_int h @ BREAK # encode_int i @ BREAK # t)"
      by (simp add: k table_key_simp tx_key_simp encode_array_def)
    moreover have "pred_option (\<lambda>u. h < u) (map_option (\<lambda>x. saturating_add x 1) (hp_to pp)) = pred_option (\<lambda>u. h < saturating_add u 1) (hp_to pp)"
      by (cases "hp_to pp") simp_all
    ultimately show ?thesis
      using script_scan.scan_exact [OF p, where h = h and lo = "hp_from pp" and up = "map_option (\<lambda>x. saturating_add x 1) (hp_to pp)"
          and n = n and r = TxsByScriptHash and t = "BREAK # encode_int i @ BREAK # t"]
      by (simp add: txs_range_def in_heights_def k option.pred_True)
  qed
  have mono: "sc_enc txs_by_script_hash_Key k < sc_enc txs_by_script_hash_Key k'" if "k \<in> dom T" "k' \<in> dom T" and a: "?P k" "?P k'" and less: "k < k'" for k k'
  proof -
    obtain h i t h' i' t' where "k = (sh, h, i, t)" "k' = (sh, h', i', t')" using a by (metis prod.collapse)
    then show ?thesis using less tx_key_mono by blast
  qed
  have "finite {k \<in> dom T. ?P k}" by (rule scanned_table(1) [OF T fin tx_laws(1)]) (fact pre P mono)+
  then show "finite (txs_keys pp sh T)" unfolding txs_keys_def .
  have "scan_entries order db (txs_range pp n sh) =
      map (\<lambda>k. (table_key n TxsByScriptHash txs_by_script_hash_Key k, sc_enc txs_by_script_hash_Value (the (T k))))
      (in_order order (sorted_list_of_set {k \<in> dom T. ?P k}))" for order
    by (rule scanned_table(2) [OF T fin tx_laws(1)]) (fact pre P mono)+
  then show "sl_entries (txs_listing M pp n S db cnt sh) =
    map (\<lambda>k. (table_key n TxsByScriptHash txs_by_script_hash_Key k, sc_enc txs_by_script_hash_Value (the (T k))))
      (in_order (txs_order pp) (sorted_list_of_set (txs_keys pp sh T)))"
    by (simp add: sl_entries_def txs_listing_def retain_def txs_keys_def)
qed

lemma txs_readable:
  assumes s: "txs_served M pp input n S db cnt sh T" and k: "k \<in> txs_keys pp sh T"
  defines "kv \<equiv> (table_key n TxsByScriptHash txs_by_script_hash_Key k, sc_enc txs_by_script_hash_Value (the (T k)))"
  shows "sl_readable (txs_listing M pp n S db cnt sh) kv" "sl_read (txs_listing M pp n S db cnt sh) kv = (k, the (T k))"
proof -
  obtain v where v: "T k = Some v" "fst k = sh" using k by (auto simp: txs_keys_def)
  have T: "holds_table n TxsByScriptHash txs_by_script_hash_Key txs_by_script_hash_Value db T" using s unfolding txs_served_def by blast
  have read: "read_entry (sc_dec txs_by_script_hash_Key) (sc_dec txs_by_script_hash_Value) kv = Inr (k, v)"
    using read_table_entry [OF T v(1) tx_laws(1,2)] v(1) by (simp add: kv_def)
  show "sl_read (txs_listing M pp n S db cnt sh) kv = (k, the (T k))" using read v(1) by (simp add: sl_read_def txs_listing_def)
  obtain h i t where kt: "k = (sh, h, i, t)" using v(2) by (metis prod.collapse)
  have "sc_wf txs_by_script_hash_Key k" using T v(1) unfolding holds_table_def by blast
  then have "sc_wf txs_by_script_hash_Cursor (h, i, t)" by (simp add: kt tx_key_wf)
  moreover have "fst kv = cursor_key encode_array (sc_enc txs_by_script_hash_Cursor) n TxsByScriptHash (Some sh) (h, i, t)"
    by (simp add: kv_def kt cursor_key_def encode_triple_def table_key_simp tx_key_simp encode_array_def)
  ultimately show "sl_readable (txs_listing M pp n S db cnt sh) kv"
    using read kt by (simp add: sl_readable_def txs_listing_def)
qed

lemma txs_listing_ok:
  assumes s: "txs_served M pp input n S db cnt sh T"
  shows "sl_ok (txs_listing M pp n S db cnt sh)" "sl_rows (txs_listing M pp n S db cnt sh) =
    map (\<lambda>k. tx_row (mp_crates M) (k, the (T k))) (in_order (txs_order pp) (sorted_list_of_set (txs_keys pp sh T)))"
proof -
  note E = txs_scanned [OF s] and R = txs_readable [OF s]
  have "snd (txs_range pp n sh) \<noteq> []" by (simp add: txs_range_def reducer_key_range_break break_range_def split: option.splits)
  then show "sl_ok (txs_listing M pp n S db cnt sh)"
    using s page_count_bounds [of "cp_count pp" cnt] R(1) E(1) tx_laws(3) unfolding sl_ok_def E(2)
    by (auto simp: txs_served_def txs_listing_def)
  show "sl_rows (txs_listing M pp n S db cnt sh) =
    map (\<lambda>k. tx_row (mp_crates M) (k, the (T k))) (in_order (txs_order pp) (sorted_list_of_set (txs_keys pp sh T)))"
    using E(1) R(2) by (simp add: sl_rows_def E(2) comp_def) (simp add: txs_listing_def)
qed

lemma txs_ask_scan:
  assumes "txs_served M pp input n S db cnt sh T"
  shows "txs_ask M pp input = sl_ask (txs_listing M pp n S db cnt sh)"
proof
  fix c
  note s = assms [unfolded txs_served_def]
  obtain last_updated address script where p: "get_last_updated S n = Inr last_updated" "parse_address_or_script_bytes M S input = mapi_ok (address, script)"
    "mc_script_hash (mp_crates M) script = sh" using s by blast
  have fetch: "sl_fetch (txs_listing M pp n S db cnt sh) r =
      mapi_bind (scanner_execute (sc_dec txs_by_script_hash_Key) (sc_dec txs_by_script_hash_Value) S
        (scanner_order (txs_order pp) (scanner_count (Suc cnt) (scanner_new r)))) (\<lambda>kvs.
        page_rows cnt (tx_cursor (mp_crates M)) (\<lambda>kv. mapi_ok (tx_row (mp_crates M) kv)) 0 kvs [] None)" for r
  proof -
    have "sl_mark_of (txs_listing M pp n S db cnt sh) = tx_cursor (mp_crates M)"
      by (rule ext) (simp add: sl_mark_of_def txs_listing_def tx_cursor_def split_def)
    then show ?thesis by (simp add: sl_fetch_def scanner_execute_def) (simp add: txs_listing_def)
  qed
  have q: "sl_crates (txs_listing M pp n S db cnt sh) = mp_crates M" "sl_params (txs_listing M pp n S db cnt sh) = (encode_array, Some sh)"
    "sl_cursor (txs_listing M pp n S db cnt sh) = txs_by_script_hash_Cursor" "sl_ns (txs_listing M pp n S db cnt sh) = n"
    "sl_reducer (txs_listing M pp n S db cnt sh) = TxsByScriptHash" "sl_order (txs_listing M pp n S db cnt sh) = txs_order pp"
    "sl_range (txs_listing M pp n S db cnt sh) = txs_range pp n sh" by (simp_all add: txs_listing_def)
  show "txs_ask M pp input c = sl_ask (txs_listing M pp n S db cnt sh) c"
    using s p
    by (cases "apply_cursor (mp_crates M) encode_array txs_by_script_hash_Cursor n TxsByScriptHash (Some sh) (txs_order pp) c (txs_range pp n sh)")
      (simp_all add: txs_ask_def txs_by_address_def height_parse_def Let_def page_of_bind sl_ask_def fetch q
        flip: txs_range_def txs_order_def)
qed

text \<open>
  C14. The transactions of an address are listed. When the store holds the table T of the transactions by
  script, a client that asks for the transactions of an address and follows the cursors gets, on pages
  that are full but for the last, every transaction of the script within the heights asked for, once, in
  the order asked for of height and position in the block.
\<close>

theorem address_transactions_listed:
  assumes "txs_served M page_params input n S db cnt script_hash T"
  shows "lists_all (txs_ask M page_params input) cnt
    (map (\<lambda>k. tx_row (mp_crates M) (k, the (T k)))
      (in_order (txs_order page_params) (sorted_list_of_set
        {k \<in> dom T. fst k = script_hash \<and> in_heights (hp_from page_params) (hp_to page_params) (fst (snd k))})))"
proof -
  have "sl_count (txs_listing M page_params n S db cnt script_hash) = cnt" by (simp add: txs_listing_def)
  then show ?thesis
    using sl.listing [OF txs_listing_ok(1) [OF assms]] unfolding txs_ask_scan [OF assms] txs_listing_ok(2) [OF assms] txs_keys_def by simp
qed

section \<open>Three transactions\<close>

definition tx_entries :: "tx_entry list" where
  "tx_entries = [((replicate 20 7, 4, 1, replicate 32 1), (False, True)), ((replicate 20 7, 5, 0, replicate 32 2), (True, True)),
     ((replicate 20 8, 5, 1, replicate 32 3), (True, False))]"

definition txs_store :: kv_map where
  "txs_store = table_store sample_ns TxsByScriptHash txs_by_script_hash_Key txs_by_script_hash_Value tx_entries"

definition txs_mapi :: "unit Mapi" where
  "txs_mapi = \<lparr>mp_crates = paged_crates,
     mp_registry = \<lparr>rg_network = Mainnet, rg_zrange = (\<lambda>_. Inr [[dataplane_id sample_ns, instance_id sample_ns]])\<rparr>,
     mp_snapshot = Inr (snapshot_at txs_store), mp_mode = ModeDogecoin\<rparr>"

definition txs_page :: HeightPaginationParams where
  "txs_page = \<lparr>cp_count = Some 1, cp_order = Some Desc, cp_cursor = None, hp_from = None, hp_to = None\<rparr>"

lemma txs_example: "txs_served txs_mapi txs_page [] sample_ns (snapshot_at txs_store) txs_store 1 (replicate 20 7) (map_of tx_entries)"
proof -
  have "holds_table sample_ns TxsByScriptHash txs_by_script_hash_Key txs_by_script_hash_Value txs_store (map_of tx_entries)"
    unfolding txs_store_def
    by (rule table_store_holds [OF tx_laws(1)]) (auto simp: tx_entries_def tx_key_wf txs_by_script_hash_Value_def sc_field_def sc_bool_def)
  moreover have "snapshot_of txs_store (snapshot_at txs_store)" unfolding txs_store_def by (rule table_store_snapshot)
  moreover have "\<exists>lu. get_last_updated (snapshot_at txs_store) sample_ns = Inr lu"
    unfolding txs_store_def table_store_def using last_updated_at by blast
  moreover have "mc_address_from_str paged_crates s = None" "mc_hex_decode paged_crates [] = Some []" "mc_script_hash paged_crates b = replicate 20 7" for s b
    by (simp_all add: paged_crates_def)
  ultimately show ?thesis
    by (simp add: txs_served_def txs_mapi_def txs_page_def paged_crates_b64 page_count_def MAX_PAGE_COUNT_def unwrap_or_def
        parse_address_or_script_bytes_def address_of_script_def txs_by_script_hash_encoder_def encoder_for_def resolve_key_def)
qed

theorem address_transactions_listed_witness:
  "lists_all (txs_ask txs_mapi txs_page []) 1
     [\<lparr>iv_tx_hash = mc_txid_string paged_crates (replicate 32 2), iv_height = 5, iv_input = True, iv_output = True\<rparr>,
      \<lparr>iv_tx_hash = mc_txid_string paged_crates (replicate 32 1), iv_height = 4, iv_input = False, iv_output = True\<rparr>]"
proof -
  let ?K = "{k \<in> dom (map_of tx_entries). fst k = replicate 20 7 \<and> in_heights None None (fst (snd k))}"
  have "?K = {(replicate 20 7, 4, 1, replicate 32 1), (replicate 20 7, 5, 0, replicate 32 2)}"
    by (auto simp: tx_entries_def in_heights_def split: if_splits)
  then have K: "sorted_list_of_set ?K = [(replicate 20 7, 4, 1, replicate 32 1), (replicate 20 7, 5, 0, replicate 32 2)]"
    by (simp add: insert_commute)
  have "lists_all (txs_ask txs_mapi txs_page []) 1 (map (\<lambda>k. tx_row (mp_crates txs_mapi) (k, the (map_of tx_entries k))) (in_order Desc (sorted_list_of_set ?K)))"
    using address_transactions_listed [OF txs_example] by (simp add: txs_page_def txs_order_def unwrap_or_def)
  then show ?thesis unfolding K by (simp add: in_order_def tx_row_def tx_entries_def) (simp add: txs_mapi_def)
qed

end
