(* ===== verification/Mapi_Dunes.thy ===== *)
theory Mapi_Dunes
  imports Mapi_Addresses
begin

text \<open>
  The requests about dunes (\<open>services/mapi-xdg/src/api/dunes/\<close>): the list of all dunes, what is known
  of one, its holders, its unspent outputs, those of an address, and the dunes of an address. The list of
  all dunes is shown to give, page by page, the etched dunes in the table that the indexer keeps; asked for
  in descending order, it does not.
\<close>

section \<open>Rows\<close>

record ApiDuneTerms =
  dt_mint_txs_cap :: "string option"
  dt_amount_per_mint :: "string option"
  dt_start_height :: "string option"
  dt_end_height :: "string option"
  dt_start_offset :: "string option"
  dt_end_offset :: "string option"

record DuneInfo =
  dn_id :: string
  dn_etching_cenotaph :: bool
  dn_etching_tx :: string
  dn_etching_height :: u64
  dn_name :: string
  dn_spaced_name :: string
  dn_symbol :: "u32 option"
  dn_divisibility :: u8
  dn_terms :: ApiDuneTerms
  dn_max_supply :: "string option"
  dn_circulating_supply :: string
  dn_mints :: u64
  dn_unique_holders :: u64

record DuneUtxo =
  du_txid :: string
  du_vout :: u32
  du_address :: "string option"
  du_script_pubkey :: string
  du_satoshis :: string
  du_confirmations :: u64
  du_height :: u64
  du_dune_amount :: string

record AddressDuneUtxo =
  ad_txid :: string
  ad_vout :: u32
  ad_satoshis :: string
  ad_confirmations :: u64
  ad_height :: u64
  ad_dune_amount :: string

record DuneIdAndName =
  di_id :: string
  di_spaced_name :: string

record DuneHolder =
  dh_address :: "string option"
  dh_script_pubkey :: string
  dh_balance :: string

type_synonym etching =
  "bytes \<times> u128 option \<times> u32 option \<times> u32 option \<times> u8 option \<times> u128 option \<times> u128 option \<times> u128 option \<times>
   u64 option \<times> u64 option \<times> u64 option \<times> u64 option \<times> bool \<times> bool"

text \<open>A \<open>char\<close> is a Unicode scalar value.\<close>

definition symbol_char :: "u32 \<Rightarrow> u32 option" where
  "symbol_char x = (if x < 0xD800 \<or> 0xE000 \<le> x \<and> x < 0x110000 then Some x else None)"

section \<open>The list of dunes\<close>

definition dune_list_row :: "'a MapiCrates \<Rightarrow> (u64 \<times> u32) \<times> etching \<Rightarrow> MapiError + DuneIdAndName" where
  "dune_list_row C kv =
     (case kv of (rune_id, (_, name, spacers, _)) \<Rightarrow>
      and_then (ok_or name (Internal ''expected rune name in dogecoin'')) (\<lambda>rune.
      Inr \<lparr>di_id = dune_id_string rune_id, di_spaced_name = mc_spaced_rune_string C rune (unwrap_or spacers 0)\<rparr>))"

definition dune_list_cursor :: "'a MapiCrates \<Rightarrow> (u64 \<times> u32) \<times> etching \<Rightarrow> string" where
  "dune_list_cursor C kv = encode_base64 (mc_b64_encode C) (sc_enc etching_by_rune_id_Key) (fst kv)"

definition list_dunes :: "'a Mapi \<Rightarrow> CursorPaginationParams \<Rightarrow> DuneIdAndName PaginatedResponse mapi" where
  "list_dunes M page_params =
     mapi_bind (mapi_lift (etching_by_rune_id_encoder (mp_registry M))) (\<lambda>encoder.
     mapi_bind (mapi_lift (mp_snapshot M)) (\<lambda>S.
     mapi_bind (mapi_lift (get_last_updated S encoder)) (\<lambda>last_updated.
     mapi_bind (mapi_lift (parse_no_height (mp_crates M) encode_int etching_by_rune_id_Key page_params encoder EtchingByRuneId
       (None :: u64 option))) (\<lambda>pp.
     mapi_bind (scanner_execute (sc_dec etching_by_rune_id_Key) (sc_dec etching_by_rune_id_Value) S
       (scanner_count (pp_count pp + 1) (scanner_new (pp_range pp)))) (\<lambda>kvs.
     respond last_updated
       (page_rows (pp_count pp) (dune_list_cursor (mp_crates M)) (\<lambda>kv. mapi_lift (dune_list_row (mp_crates M) kv)) 0 kvs [] None))))))"

section \<open>Holders of a dune\<close>

definition resolve_rune :: "'a Mapi \<Rightarrow> Snapshot \<Rightarrow> string \<Rightarrow> (u64 \<times> u32) option mapi" where
  "resolve_rune M S s =
     mapi_bind (mapi_lift (rune_identifier_parse (mp_crates M) s)) (\<lambda>x.
       case x of RuneId i \<Rightarrow> mapi_ok (Some i) | RuneName n \<Rightarrow> resolve_rune_name M S n)"

definition rune_params :: "u64 \<times> u32 \<Rightarrow> VarUInt \<times> VarUInt" where
  "rune_params rune_id = (VarUInt (ucast (fst rune_id)), VarUInt (ucast (snd rune_id)))"

definition fetch_etching :: "Snapshot \<Rightarrow> Namespace \<Rightarrow> u64 \<times> u32 \<Rightarrow> MapiError + etching option" where
  "fetch_etching S encoder rune_id =
     get_reducer_key_maybe S encoder EtchingByRuneId (sc_enc etching_by_rune_id_Key rune_id) (sc_dec etching_by_rune_id_Value)"

definition dune_holder_row :: "'a Mapi \<Rightarrow> Snapshot \<Rightarrow> Namespace \<Rightarrow> nat \<Rightarrow> ((VarUInt \<times> VarUInt) \<times> bytes) \<times> u128 \<Rightarrow> DuneHolder mapi" where
  "dune_holder_row M S script_encoder dec kv =
     mapi_bind (resolve_script_hash M S (snd (fst kv)) script_encoder) (\<lambda>(address, script).
     mapi_ok \<lparr>dh_address = map_option (mc_address_string (mp_crates M)) address,
       dh_script_pubkey = mc_hex_encode (mp_crates M) script, dh_balance = decimal (snd kv) dec\<rparr>)"

definition holders_by_dune :: "'a Mapi \<Rightarrow> CursorPaginationParams \<Rightarrow> string \<Rightarrow> DuneHolder PaginatedResponse mapi" where
  "holders_by_dune M page_params dune_id =
     mapi_bind (mapi_lift (balances_by_rune_id_encoder (mp_registry M))) (\<lambda>balances_encoder.
     mapi_bind (mapi_lift (etching_by_rune_id_encoder (mp_registry M))) (\<lambda>etching_encoder.
     mapi_bind (mapi_lift (script_by_script_hash_encoder (mp_registry M))) (\<lambda>script_encoder.
     mapi_bind (mapi_lift (mp_snapshot M)) (\<lambda>S.
     mapi_bind (mapi_lift (get_last_updated S balances_encoder)) (\<lambda>last_updated.
     mapi_bind (resolve_rune M S dune_id) (\<lambda>rune_id.
     case rune_id of
       None \<Rightarrow> mapi_ok \<lparr>pr_data = [], pr_last_updated = last_updated, pr_next_cursor = None\<rparr>
     | Some rune_id \<Rightarrow>
     mapi_bind (mapi_lift (parse_no_height (mp_crates M) (encode_pair encode_VarUInt encode_VarUInt) (sc_array 20) page_params
       balances_encoder BalancesByRuneId (Some (rune_params rune_id)))) (\<lambda>pp.
     mapi_bind (scanner_execute (sc_dec balances_by_rune_id_Key) decode_int S
       (scanner_count (pp_count pp + 1) (scanner_new (pp_range pp)))) (\<lambda>kvs.
     mapi_bind (mapi_lift (fetch_etching S etching_encoder rune_id)) (\<lambda>etching.
     let dec = unat (unwrap_or (Option.bind etching etching_divisibility) 0)
     in respond last_updated
       (page_rows (pp_count pp) (\<lambda>kv. encode_base64 (mc_b64_encode (mp_crates M)) encode_array (snd (fst kv)))
         (dune_holder_row M S script_encoder dec) 0 kvs [] None))))))))))"

section \<open>Unspent outputs with a dune\<close>

type_synonym rune_utxo = "((u64 \<times> u32) \<times> u64 \<times> bytes \<times> u32) \<times> bytes \<times> u128 \<times> u64"

definition rune_utxo_cursor :: "'a MapiCrates \<Rightarrow> rune_utxo \<Rightarrow> string" where
  "rune_utxo_cursor C kv = encode_base64 (mc_b64_encode C) (sc_enc utxos_by_rune_id_Cursor) (snd (fst kv))"

definition dune_utxo_row :: "'a Mapi \<Rightarrow> Snapshot \<Rightarrow> Namespace \<Rightarrow> u64 \<Rightarrow> nat \<Rightarrow> rune_utxo \<Rightarrow> DuneUtxo mapi" where
  "dune_utxo_row M S script_encoder tip dec kv =
     (case kv of ((_, height, utxo_hash, utxo_vout), (script_hash, rune_quantity, satoshis)) \<Rightarrow>
      mapi_bind (resolve_script_hash M S script_hash script_encoder) (\<lambda>(address, script).
      mapi_ok \<lparr>du_txid = mc_txid_string (mp_crates M) utxo_hash, du_vout = utxo_vout,
        du_address = map_option (mc_address_string (mp_crates M)) address, du_script_pubkey = mc_hex_encode (mp_crates M) script,
        du_satoshis = dec_string (unat satoshis), du_confirmations = saturating_sub tip height, du_height = height,
        du_dune_amount = decimal rune_quantity dec\<rparr>))"

text \<open>The etching is looked up in the namespace of the unspent outputs.\<close>

definition utxos_by_dune :: "'a Mapi \<Rightarrow> HeightPaginationParams \<Rightarrow> string \<Rightarrow> DuneUtxo PaginatedResponse mapi" where
  "utxos_by_dune M page_params rune =
     mapi_bind (mapi_lift (utxos_by_rune_id_encoder (mp_registry M))) (\<lambda>utxos_encoder.
     mapi_bind (mapi_lift (utxos_by_rune_id_encoder (mp_registry M))) (\<lambda>etching_encoder.
     mapi_bind (mapi_lift (script_by_script_hash_encoder (mp_registry M))) (\<lambda>script_encoder.
     mapi_bind (mapi_lift (mp_snapshot M)) (\<lambda>S.
     mapi_bind (resolve_rune M S rune) (\<lambda>found.
     let dune_id = unwrap_or found (0, 0) in
     mapi_bind (mapi_lift (height_parse (mp_crates M) (encode_pair encode_int encode_int) utxos_by_rune_id_Cursor page_params
       utxos_encoder UtxosByRuneId (Some dune_id))) (\<lambda>pp.
     mapi_bind (mapi_lift (get_last_updated S utxos_encoder)) (\<lambda>last_updated.
     mapi_bind (scanner_execute (sc_dec utxos_by_rune_id_Key) (sc_dec utxos_by_rune_id_Value) S
       (scanner_order (pp_order pp) (scanner_count (pp_count pp + 1) (scanner_new (pp_range pp))))) (\<lambda>kvs.
     mapi_bind (mapi_lift (fetch_etching S etching_encoder dune_id)) (\<lambda>etching.
     case etching of
       None \<Rightarrow> mapi_ok \<lparr>pr_data = [], pr_last_updated = last_updated, pr_next_cursor = None\<rparr>
     | Some etch \<Rightarrow>
         let dec = unat (unwrap_or (etching_divisibility etch) 0)
         in respond last_updated
           (page_rows (pp_count pp) (rune_utxo_cursor (mp_crates M))
             (dune_utxo_row M S script_encoder (lu_block_height last_updated) dec) 0 kvs [] None))))))))))"

definition address_dune_utxo_row :: "'a MapiCrates \<Rightarrow> u64 \<Rightarrow> nat \<Rightarrow> rune_utxo \<Rightarrow> AddressDuneUtxo" where
  "address_dune_utxo_row C tip dec kv =
     (case kv of ((_, height, utxo_hash, utxo_vout), (_, rune_quantity, satoshis)) \<Rightarrow>
      \<lparr>ad_txid = mc_txid_string C utxo_hash, ad_vout = utxo_vout, ad_satoshis = dec_string (unat satoshis),
        ad_confirmations = saturating_sub tip height, ad_height = height, ad_dune_amount = decimal rune_quantity dec\<rparr>)"

definition controlled_by :: "bytes \<Rightarrow> bytes \<times> bytes \<Rightarrow> bool" where
  "controlled_by script_hash kv =
     (case sc_dec utxos_by_rune_id_Value (snd kv) of Inl _ \<Rightarrow> False | Inr (v, _) \<Rightarrow> fst v = script_hash)"

definition dune_utxos_by_address ::
  "'a Mapi \<Rightarrow> HeightPaginationParams \<Rightarrow> string \<Rightarrow> string \<Rightarrow> AddressDuneUtxo PaginatedResponse mapi" where
  "dune_utxos_by_address M page_params addr_or_pk rune =
     mapi_bind (mapi_lift (utxos_by_rune_id_encoder (mp_registry M))) (\<lambda>utxos_encoder.
     mapi_bind (mapi_lift (etching_by_rune_id_encoder (mp_registry M))) (\<lambda>etching_encoder.
     mapi_bind (mapi_lift (mp_snapshot M)) (\<lambda>S.
     mapi_bind (parse_address_or_script_bytes M S addr_or_pk) (\<lambda>(_, script_bytes).
     mapi_bind (resolve_rune M S rune) (\<lambda>found.
     let rune_id = unwrap_or found (0, 0) in
     mapi_bind (mapi_lift (pagination_parse (mp_crates M) (encode_pair encode_int encode_int) utxos_by_rune_id_Cursor page_params
       utxos_encoder UtxosByRuneId (Some rune_id))) (\<lambda>pp.
     mapi_bind (mapi_lift (get_last_updated S utxos_encoder)) (\<lambda>last_updated.
     mapi_bind (mapi_lift (fetch_etching S etching_encoder rune_id)) (\<lambda>etching.
     case etching of
       None \<Rightarrow> mapi_ok \<lparr>pr_data = [], pr_last_updated = last_updated, pr_next_cursor = None\<rparr>
     | Some etch \<Rightarrow>
     mapi_bind (execute_with_filter (sc_dec utxos_by_rune_id_Key) (sc_dec utxos_by_rune_id_Value) S
       (Some (controlled_by (mc_script_hash (mp_crates M) script_bytes)))
       (scanner_order (pp_order pp) (scanner_count (pp_count pp + 1) (scanner_new (pp_range pp))))) (\<lambda>kvs.
     let dec = unat (unwrap_or (etching_divisibility etch) 0)
     in respond last_updated
       (page_rows (pp_count pp) (rune_utxo_cursor (mp_crates M))
         (\<lambda>kv. mapi_ok (address_dune_utxo_row (mp_crates M) (lu_block_height last_updated) dec kv)) 0 kvs [] None))))))))))"

section \<open>Dunes of an address\<close>

fun insert_balances :: "Snapshot \<Rightarrow> Namespace \<Rightarrow> ((bytes \<times> u64 \<times> u32) \<times> u128) list \<Rightarrow> (string \<rightharpoonup> string) \<Rightarrow>
    MapiError + (string \<rightharpoonup> string)" where
  "insert_balances S etching_encoder [] m = Inr m"
| "insert_balances S etching_encoder (kv # kvs) m =
     and_then (fetch_divisibility S etching_encoder (snd (fst kv))) (\<lambda>dec.
     insert_balances S etching_encoder kvs (m(dune_id_string (snd (fst kv)) \<mapsto> decimal (snd kv) dec)))"

definition dunes_by_address :: "'a Mapi \<Rightarrow> string \<Rightarrow> (string \<rightharpoonup> string) TimestampedResponse mapi" where
  "dunes_by_address M addr_or_pk =
     mapi_bind (mapi_lift (rune_balances_by_script_hash_encoder (mp_registry M))) (\<lambda>balances_encoder.
     mapi_bind (mapi_lift (etching_by_rune_id_encoder (mp_registry M))) (\<lambda>etching_encoder.
     mapi_bind (mapi_lift (mp_snapshot M)) (\<lambda>S.
     mapi_bind (parse_address_or_script_bytes M S addr_or_pk) (\<lambda>(_, script_bytes).
     mapi_bind (mapi_lift (get_last_updated S balances_encoder)) (\<lambda>last_updated.
     mapi_bind (scanner_execute (sc_dec rune_balances_by_script_hash_Key) decode_int S
       (scanner_new (reducer_key_range encode_array encode_int encode_int balances_encoder RuneBalancesByScriptHash
         (Some (mc_script_hash (mp_crates M) script_bytes)) (None :: u64 option) (None :: u64 option)))) (\<lambda>kvs.
     mapi_bind (mapi_lift (insert_balances S etching_encoder kvs Map.empty)) (\<lambda>rune_balances.
     mapi_ok \<lparr>tr_data = rune_balances, tr_last_updated = last_updated\<rparr>)))))))"

section \<open>One dune\<close>

definition max_supply :: "u128 option \<Rightarrow> u128 option \<Rightarrow> u128 option \<Rightarrow> u128 option" where
  "max_supply premine max_mint_txs amount_per_mint =
     (case max_mint_txs of
        Some mx \<Rightarrow> Some (saturating_add (unwrap_or premine 0) (saturating_mul mx (unwrap_or amount_per_mint 0)))
      | None \<Rightarrow> if amount_per_mint = Some 0 then Some (unwrap_or premine 0) else None)"

definition dune_info ::
  "'a MapiCrates \<Rightarrow> u64 \<times> u32 \<Rightarrow> etching \<Rightarrow> u128 option \<Rightarrow> u128 list \<Rightarrow> MapiError + DuneInfo" where
  "dune_info C rune_id info total_mints balances =
     (case info of (tx_hash, name, spacers, symbol, divisibility, premine, max_mint_txs, amount_per_mint, start_height, end_height,
         start_offset, end_offset, turbo, cenotaph) \<Rightarrow>
      and_then (ok_or name (Internal ''expected rune name in dogecoin'')) (\<lambda>rune.
      let dec = unat (unwrap_or divisibility 0) in
      Inr \<lparr>dn_id = dune_id_string rune_id, dn_etching_cenotaph = cenotaph, dn_etching_tx = mc_txid_string C tx_hash,
        dn_etching_height = fst rune_id, dn_name = mc_rune_string C rune,
        dn_spaced_name = mc_spaced_rune_string C rune (unwrap_or spacers 0),
        dn_symbol = map_option (\<lambda>x. unwrap_or (symbol_char x) 32) symbol,
        dn_divisibility = unwrap_or divisibility 0,
        dn_terms = \<lparr>dt_mint_txs_cap = map_option (\<lambda>x. dec_string (unat x)) max_mint_txs,
          dt_amount_per_mint = map_option (\<lambda>x. decimal x dec) amount_per_mint,
          dt_start_height = map_option (\<lambda>x. dec_string (unat x)) start_height,
          dt_end_height = map_option (\<lambda>x. dec_string (unat x)) end_height,
          dt_start_offset = map_option (\<lambda>x. dec_string (unat x)) start_offset,
          dt_end_offset = map_option (\<lambda>x. dec_string (unat x)) end_offset\<rparr>,
        dn_max_supply = map_option (\<lambda>x. decimal x dec) (max_supply premine max_mint_txs amount_per_mint),
        dn_circulating_supply = decimal (sum_list balances) dec,
        dn_mints = ucast (unwrap_or total_mints 0), dn_unique_holders = of_nat (length balances)\<rparr>))"

definition info_by_dune :: "'a Mapi \<Rightarrow> string \<Rightarrow> DuneInfo TimestampedResponse mapi" where
  "info_by_dune M rune =
     mapi_bind (mapi_lift (etching_by_rune_id_encoder (mp_registry M))) (\<lambda>etching_encoder.
     mapi_bind (mapi_lift (mints_by_rune_id_encoder (mp_registry M))) (\<lambda>mints_encoder.
     mapi_bind (mapi_lift (balances_by_rune_id_encoder (mp_registry M))) (\<lambda>balances_encoder.
     mapi_bind (mapi_lift (mp_snapshot M)) (\<lambda>S.
     mapi_bind (resolve_rune M S rune) (\<lambda>found.
     mapi_bind (mapi_lift (ok_or found NotFound)) (\<lambda>rune_id.
     mapi_bind (mapi_lift (get_last_updated S etching_encoder)) (\<lambda>last_updated.
     mapi_bind (mapi_lift (fetch_etching S etching_encoder rune_id)) (\<lambda>etching.
     mapi_bind (mapi_lift (ok_or etching NotFound)) (\<lambda>info.
     mapi_bind (mapi_lift (get_reducer_key_maybe S mints_encoder MintsByRuneId (sc_enc mints_by_rune_id_Key rune_id) decode_int)) (\<lambda>total_mints.
     mapi_bind (scanner_execute (sc_dec balances_by_rune_id_Key) decode_int S
       (scanner_new (reducer_key_range (encode_pair encode_VarUInt encode_VarUInt) encode_int encode_int balances_encoder
         BalancesByRuneId (Some (rune_params rune_id)) (None :: u64 option) (None :: u64 option)))) (\<lambda>kvs.
     mapi_bind (mapi_lift (dune_info (mp_crates M) rune_id info total_mints (map snd kvs))) (\<lambda>out.
     mapi_ok \<lparr>tr_data = out, tr_last_updated = last_updated\<rparr>))))))))))))"

section \<open>Listing all dunes\<close>

text \<open>A request that can be served, from a store that holds the etchings of the dunes.\<close>

definition dunes_served ::
  "'a Mapi \<Rightarrow> CursorPaginationParams \<Rightarrow> Namespace \<Rightarrow> Snapshot \<Rightarrow> kv_map \<Rightarrow> nat \<Rightarrow> (u64 \<times> u32 \<rightharpoonup> etching) \<Rightarrow> bool" where
  "dunes_served M page_params n S db cnt T \<longleftrightarrow>
     etching_by_rune_id_encoder (mp_registry M) = Inr n \<and> mp_snapshot M = Inr S \<and> snapshot_of db S \<and>
     (\<exists>last_updated. get_last_updated S n = Inr last_updated) \<and> page_count (cp_count page_params) = Inr cnt \<and>
     (\<forall>b. mc_b64_decode (mp_crates M) (mc_b64_encode (mp_crates M) b) = Some b) \<and>
     holds_table n EtchingByRuneId etching_by_rune_id_Key etching_by_rune_id_Value db T \<and>
     (\<forall>v\<in>ran T. fst (snd v) \<noteq> None)"

definition dunes_ask :: "'a Mapi \<Rightarrow> CursorPaginationParams \<Rightarrow> string option \<Rightarrow> (DuneIdAndName list \<times> string option) mapi" where
  "dunes_ask M page_params c = page_of (list_dunes M (page_params\<lparr>cp_cursor := c\<rparr>))"

definition dune_rows :: "'a MapiCrates \<Rightarrow> (u64 \<times> u32 \<rightharpoonup> etching) \<Rightarrow> DuneIdAndName list" where
  "dune_rows C T = map (\<lambda>i. projr (dune_list_row C (i, the (T i)))) (sorted_list_of_set (dom T))"

definition dunes_range :: "Namespace \<Rightarrow> key_range" where
  "dunes_range n = reducer_key_range encode_int encode_int encode_int n EtchingByRuneId (None :: u64 option) (None :: u64 option) (None :: u64 option)"

definition dunes_listing :: "'a Mapi \<Rightarrow> Namespace \<Rightarrow> Snapshot \<Rightarrow> kv_map \<Rightarrow> nat \<Rightarrow>
    ('a, u64, u64 \<times> u32, u64 \<times> u32, etching, DuneIdAndName) ScanListing" where
  "dunes_listing M n S db cnt = \<lparr>sl_crates = mp_crates M, sl_snapshot = S, sl_db = db, sl_ns = n, sl_reducer = EtchingByRuneId,
     sl_params = (encode_int, None), sl_cursor = etching_by_rune_id_Key, sl_order = Asc, sl_count = cnt, sl_range = dunes_range n,
     sl_key = sc_dec etching_by_rune_id_Key, sl_value = sc_dec etching_by_rune_id_Value, sl_filter = None, sl_at = fst,
     sl_row = (\<lambda>kv. mapi_lift (dune_list_row (mp_crates M) kv))\<rparr>"

lemma etching_laws: "lawful etching_by_rune_id_Key" "lawful etching_by_rune_id_Value"
  by (simp_all add: etching_by_rune_id_Key_def etching_by_rune_id_Value_def)

lemma dune_key_mono: "i < j \<Longrightarrow> sc_enc etching_by_rune_id_Key i < sc_enc etching_by_rune_id_Key j"
  by (cases i; cases j)
    (auto simp: etching_by_rune_id_Key_def sc_pair_def encode_pair_def sc_int_def encode_int_def append_less_append_iff to_be_bytes_less_iff)

lemma dunes_scanned:
  assumes "dunes_served M pp n S db cnt T"
  shows "finite (dom T)" "sl_entries (dunes_listing M n S db cnt) =
    map (\<lambda>i. (table_key n EtchingByRuneId etching_by_rune_id_Key i, sc_enc etching_by_rune_id_Value (the (T i)))) (sorted_list_of_set (dom T))"
    "scan_entries Asc db (dunes_range n) = sl_entries (dunes_listing M n S db cnt)"
proof -
  note s = assms [unfolded dunes_served_def]
  have fin: "finite (dom db)" using s snapshot_ofD(1) by blast
  have "holds_table n EtchingByRuneId etching_by_rune_id_Key etching_by_rune_id_Value db T" using s by blast
  note scan = scanned_table [OF this fin etching_laws(1), of "dunes_range n" "\<lambda>_. True"]
  have A: "finite {k \<in> dom T. True}" by (rule scan(1)) (auto simp: dunes_range_def whole_table table_key_simp has_prefix_def dune_key_mono)
  then show "finite (dom T)" by simp
  have E: "scan_entries order db (dunes_range n) = map (\<lambda>i. (table_key n EtchingByRuneId etching_by_rune_id_Key i,
      sc_enc etching_by_rune_id_Value (the (T i)))) (in_order order (sorted_list_of_set {k \<in> dom T. True}))" for order
    by (rule scan(2)) (auto simp: dunes_range_def whole_table table_key_simp has_prefix_def dune_key_mono)
  show "sl_entries (dunes_listing M n S db cnt) =
    map (\<lambda>i. (table_key n EtchingByRuneId etching_by_rune_id_Key i, sc_enc etching_by_rune_id_Value (the (T i)))) (sorted_list_of_set (dom T))"
    using E [of Asc] by (simp add: sl_entries_def dunes_listing_def retain_def in_order_def)
  show "scan_entries Asc db (dunes_range n) = sl_entries (dunes_listing M n S db cnt)"
    by (simp add: sl_entries_def dunes_listing_def retain_def)
qed

lemma dunes_read:
  assumes s: "dunes_served M pp n S db cnt T" and i: "i \<in> dom T"
  defines "kv \<equiv> (table_key n EtchingByRuneId etching_by_rune_id_Key i, sc_enc etching_by_rune_id_Value (the (T i)))"
  shows "sl_readable (dunes_listing M n S db cnt) kv" "sl_read (dunes_listing M n S db cnt) kv = (i, the (T i))"
    "mapi_lift (dune_list_row (mp_crates M) (i, the (T i))) = mapi_ok (projr (dune_list_row (mp_crates M) (i, the (T i))))"
proof -
  obtain v where v: "T i = Some v" using i by blast
  have T: "holds_table n EtchingByRuneId etching_by_rune_id_Key etching_by_rune_id_Value db T" "fst (snd v) \<noteq> None"
    using s v unfolding dunes_served_def by (blast, blast intro: ranI)
  have read: "read_entry (sc_dec etching_by_rune_id_Key) (sc_dec etching_by_rune_id_Value) kv = Inr (i, v)"
    using read_table_entry [OF T(1) v etching_laws] v by (simp add: kv_def)
  have row: "\<exists>r. dune_list_row (mp_crates M) (i, v) = Inr r"
    using T(2) by (cases v) (auto simp: dune_list_row_def split_def ok_or_def)
  then show "mapi_lift (dune_list_row (mp_crates M) (i, the (T i))) = mapi_ok (projr (dune_list_row (mp_crates M) (i, the (T i))))"
    using v by auto
  have "sc_wf etching_by_rune_id_Key i" using T(1) v unfolding holds_table_def by blast
  then show "sl_readable (dunes_listing M n S db cnt) kv"
    using read row by (auto simp: sl_readable_def dunes_listing_def kv_def cursor_key_def table_key_def)
  show "sl_read (dunes_listing M n S db cnt) kv = (i, the (T i))" using read v by (simp add: sl_read_def dunes_listing_def)
qed

lemma dunes_listing_ok:
  assumes s: "dunes_served M pp n S db cnt T"
  shows "sl_ok (dunes_listing M n S db cnt)" "sl_rows (dunes_listing M n S db cnt) = dune_rows (mp_crates M) T"
proof -
  note E = dunes_scanned [OF s] and R = dunes_read [OF s]
  have "snd (dunes_range n) \<noteq> []" by (simp add: dunes_range_def reducer_key_range_break break_range_def)
  then show "sl_ok (dunes_listing M n S db cnt)"
    using s page_count_bounds [of "cp_count pp" cnt] R(1) E(1) etching_laws unfolding sl_ok_def E(2)
    by (auto simp: dunes_served_def dunes_listing_def)
  show "sl_rows (dunes_listing M n S db cnt) = dune_rows (mp_crates M) T"
    using E(1) R(2,3) by (simp add: sl_rows_def E(2) dune_rows_def comp_def) (simp add: dunes_listing_def)
qed

lemma dunes_ask_scan:
  assumes "dunes_served M pp n S db cnt T"
  shows "dunes_ask M pp c = mapi_bind (mapi_lift (apply_cursor (mp_crates M) encode_int etching_by_rune_id_Key n EtchingByRuneId (None :: u64 option)
      (unwrap_or (cp_order pp) Asc) c (dunes_range n))) (sl_fetch (dunes_listing M n S db cnt))"
proof -
  note s = assms [unfolded dunes_served_def]
  obtain last_updated where lu: "get_last_updated S n = Inr last_updated" using s by blast
  have scn: "scanner_order Asc (scanner_count (Suc cnt) (scanner_new r)) = scanner_count (Suc cnt) (scanner_new r)" for r
    by (simp add: scanner_order_def scanner_count_def scanner_new_def)
  have fetch: "sl_fetch (dunes_listing M n S db cnt) r =
      mapi_bind (scanner_execute (sc_dec etching_by_rune_id_Key) (sc_dec etching_by_rune_id_Value) S (scanner_count (Suc cnt) (scanner_new r))) (\<lambda>kvs.
        page_rows cnt (dune_list_cursor (mp_crates M)) (\<lambda>kv. mapi_lift (dune_list_row (mp_crates M) kv)) 0 kvs [] None)" for r
    by (simp add: sl_fetch_def dunes_listing_def scanner_execute_def scn sl_mark_of_def [abs_def] dune_list_cursor_def [abs_def])
  show ?thesis
    using s lu
    by (cases "apply_cursor (mp_crates M) encode_int etching_by_rune_id_Key n EtchingByRuneId (None :: u64 option) (unwrap_or (cp_order pp) Asc) c (dunes_range n)")
      (simp_all add: dunes_ask_def list_dunes_def parse_no_height_def Let_def page_of_bind fetch flip: dunes_range_def)
qed

text \<open>
  C17. The list of dunes is complete. When the store holds the etchings T, a client that asks for the
  dunes, in the order that is the default, and follows the cursors gets every etched dune once, in the
  order of block and transaction of the etching, on pages that are full but for the last.
\<close>

theorem dunes_listed:
  assumes "dunes_served M page_params n S db cnt T" "cp_order page_params \<noteq> Some Desc"
  shows "lists_all (dunes_ask M page_params) cnt
    (map (\<lambda>i. projr (dune_list_row (mp_crates M) (i, the (T i)))) (sorted_list_of_set (dom T)))"
proof -
  let ?q = "dunes_listing M n S db cnt"
  have "unwrap_or (cp_order page_params) Asc = Asc" using assms(2) by (cases "cp_order page_params"; cases "the (cp_order page_params)") (auto simp: unwrap_or_def)
  then have "dunes_ask M page_params = sl_ask ?q"
    unfolding sl_ask_def [abs_def] by (intro ext) (simp only: dunes_ask_scan [OF assms(1)], simp add: dunes_listing_def)
  moreover have "sl_count ?q = cnt" by (simp add: dunes_listing_def)
  ultimately show ?thesis
    using sl.listing [OF dunes_listing_ok(1) [OF assms(1)]] dunes_listing_ok(2) [OF assms(1)] by (simp add: dune_rows_def)
qed

text \<open>
  C18. The list of dunes does not descend. Asked for in descending order, the first page is that of the
  ascending order, and the second, which its cursor leads to, repeats the first but for its last dune and
  is the last one: a client that follows the cursors never sees a dune that is not on the first page.
\<close>

theorem dunes_descending_incomplete:
  assumes "dunes_served M page_params n S db cnt T" "cp_order page_params = Some Desc" "cnt < card (dom T)"
  shows "follow (dunes_ask M page_params) None [take cnt (dune_rows (mp_crates M) T), take (cnt - 1) (dune_rows (mp_crates M) T)]"
proof -
  let ?q = "dunes_listing M n S db cnt" and ?E = "scan_entries Asc db (dunes_range n)" and ?rows = "dune_rows (mp_crates M) T"
  note ok = dunes_listing_ok [OF assms(1)] and E = dunes_scanned [OF assms(1)] and ask = dunes_ask_scan [OF assms(1)]
  have q [simp]: "sl_count ?q = cnt" "sl_order ?q = Asc" "sl_db ?q = db" "sl_range ?q = dunes_range n" "sl_filter ?q = None"
    by (simp_all add: dunes_listing_def)
  have cnt: "0 < cnt" using ok(1) by (simp add: sl_ok_def)
  have len: "length ?E = card (dom T)" "length ?rows = card (dom T)" using E by (simp_all add: dune_rows_def)
  let ?j = "cnt - 1"
  have j: "?j < length ?E" using assms(3) len cnt by simp
  from sl.first [OF ok(1)] have "sl_fetch ?q (dunes_range n) = mapi_ok (page_from cnt (sl_mark ?q) ?rows 0)"
    by (simp add: sl_ask_def apply_cursor_def ok(2))
  then have first: "dunes_ask M page_params None = mapi_ok (take cnt ?rows, Some (sl_mark ?q ?j))"
    using assms(3) len by (simp add: ask apply_cursor_def page_from_def)
  let ?kv = "?E ! ?j"
  have mem: "?kv \<in> set (sl_entries ?q)" using nth_mem [OF j] E(3) by simp
  then obtain e where e: "read_entry (sl_key ?q) (sl_value ?q) ?kv = Inr e" "fst ?kv = cursor_key encode_int (sc_enc etching_by_rune_id_Key) n
      EtchingByRuneId (None :: u64 option) (sl_at ?q e)" "sc_wf etching_by_rune_id_Key (sl_at ?q e)"
    using ok(1) unfolding sl_ok_def sl_readable_def by (auto simp: dunes_listing_def)
  have S: "finite (dom db)" "[] \<notin> dom db" using assms(1) snapshot_ofD(1,2) unfolding dunes_served_def by blast+
  have rng: "in_range (dunes_range n) (fst ?kv)" "snd (dunes_range n) \<noteq> []"
    using scan_entries_in_range [OF S(1) nth_mem [OF j]] ok(1) by (auto simp: sl_ok_def)
  have "sl_mark ?q ?j = encode_base64 (mc_b64_encode (mp_crates M)) (sc_enc etching_by_rune_id_Key) (sl_at ?q e)"
    using e(1) E(3) by (simp add: sl_mark_def sl_mark_of_def sl_read_def) (simp add: dunes_listing_def)
  then have cur: "apply_cursor (mp_crates M) encode_int etching_by_rune_id_Key n EtchingByRuneId (None :: u64 option) Desc (Some (sl_mark ?q ?j))
      (dunes_range n) = Inr (remaining_range Desc (dunes_range n) (fst ?kv))"
    using apply_cursor_made [OF _ etching_laws(1) e(3,2) rng] assms(1) unfolding dunes_served_def by metis
  have below: "scan_entries Asc db (remaining_range Desc (dunes_range n) (fst ?kv)) = take ?j ?E" by (rule scan_up_below [OF S j])
  have "fst ?kv \<noteq> []" using scan_entries_in_range [OF S(1) nth_mem [OF j]] S(2) by (metis domI)
  then have "sl_fetch ?q (remaining_range Desc (dunes_range n) (fst ?kv)) =
      mapi_ok (map (\<lambda>kv. mapi_value (sl_row ?q (sl_read ?q kv))) (take ?j ?E), None)"
    using sl_fetch_range [OF ok(1), of "remaining_range Desc (dunes_range n) (fst ?kv)"] below E(3) set_take_subset [of ?j ?E] j
    by (simp add: retain_def remaining_range_def)
  moreover have "map (\<lambda>kv. mapi_value (sl_row ?q (sl_read ?q kv))) (take ?j ?E) = take ?j ?rows"
    unfolding ok(2) [symmetric] sl_rows_def E(3) by (rule take_map [symmetric])
  ultimately have second: "dunes_ask M page_params (Some (sl_mark ?q ?j)) = mapi_ok (take ?j ?rows, None)"
    using cur assms(2) by (simp add: ask unwrap_or_def)
  show ?thesis by (rule follow.next_page, rule first, rule follow.last_page, rule second)
qed

section \<open>Three dunes\<close>

definition plain_etching :: "u128 \<Rightarrow> etching" where
  "plain_etching name = (replicate 32 1, Some name, None, None, None, None, None, None, None, None, None, None, False, False)"

definition three_dunes :: "((u64 \<times> u32) \<times> etching) list" where
  "three_dunes = [((5, 1), plain_etching 10), ((5, 2), plain_etching 11), ((7, 0), plain_etching 12)]"

definition dunes_store :: kv_map where
  "dunes_store = table_store sample_ns EtchingByRuneId etching_by_rune_id_Key etching_by_rune_id_Value three_dunes"

definition dunes_mapi :: "unit Mapi" where
  "dunes_mapi = \<lparr>mp_crates = paged_crates,
     mp_registry = \<lparr>rg_network = Mainnet, rg_zrange = (\<lambda>_. Inr [[dataplane_id sample_ns, instance_id sample_ns]])\<rparr>,
     mp_snapshot = Inr (snapshot_at dunes_store), mp_mode = ModeDogecoin\<rparr>"

lemma dunes_example:
  assumes "page_count (cp_count pp) = Inr cnt"
  shows "dunes_served dunes_mapi pp sample_ns (snapshot_at dunes_store) dunes_store cnt (map_of three_dunes)"
proof -
  have wf: "sc_wf etching_by_rune_id_Key k \<and> sc_wf etching_by_rune_id_Value v \<and> fst (snd v) \<noteq> None" if "(k, v) \<in> set three_dunes" for k v
    using that by (auto simp: three_dunes_def plain_etching_def etching_by_rune_id_Key_def etching_by_rune_id_Value_def
        sc_field_def sc_array_def sc_int_def sc_option_def sc_bool_def sc_pair_def)
  then have "holds_table sample_ns EtchingByRuneId etching_by_rune_id_Key etching_by_rune_id_Value dunes_store (map_of three_dunes)"
    unfolding dunes_store_def by (intro table_store_holds [OF etching_laws(1)]) blast
  moreover have "fst (snd v) \<noteq> None" if "v \<in> ran (map_of three_dunes)" for v
    using that wf map_of_SomeD unfolding ran_def by fast
  moreover have "snapshot_of dunes_store (snapshot_at dunes_store)" unfolding dunes_store_def by (rule table_store_snapshot)
  moreover have "\<exists>lu. get_last_updated (snapshot_at dunes_store) sample_ns = Inr lu"
    unfolding dunes_store_def table_store_def using last_updated_at by blast
  ultimately show ?thesis
    using assms by (simp add: dunes_served_def dunes_mapi_def paged_crates_b64 etching_by_rune_id_encoder_def encoder_for_def resolve_key_def)
qed

lemma three_sorted: "sorted_list_of_set (dom (map_of three_dunes)) = [(5, 1), (5, 2), (7, 0)]"
  by (simp add: three_dunes_def dom_map_of_conv_image_fst insert_commute)

lemma three_rows:
  "map (\<lambda>i. projr (dune_list_row (mp_crates dunes_mapi) (i, the (map_of three_dunes i)))) (sorted_list_of_set (dom (map_of three_dunes))) =
   [\<lparr>di_id = ''5:1'', di_spaced_name = ''10''\<rparr>, \<lparr>di_id = ''5:2'', di_spaced_name = ''11''\<rparr>, \<lparr>di_id = ''7:0'', di_spaced_name = ''12''\<rparr>]"
proof -
  have crates: "mp_crates dunes_mapi = paged_crates" "mc_spaced_rune_string paged_crates r s = dec_string (unat r)" for r s
    by (simp_all add: dunes_mapi_def paged_crates_def)
  have digits: "dec_string 0 = ''0''" "dec_string 1 = ''1''" "dec_string 2 = ''2''" "dec_string 5 = ''5''" "dec_string 7 = ''7''"
    "dec_string 10 = ''10''" "dec_string 11 = ''11''" "dec_string 12 = ''12''" by code_simp+
  show ?thesis
    unfolding three_sorted by (simp add: crates digits dune_list_row_def three_dunes_def plain_etching_def ok_or_def dune_id_string_def del: One_nat_def)
qed

theorem dunes_listed_witness:
  "lists_all (dunes_ask dunes_mapi \<lparr>cp_count = Some 2, cp_order = None, cp_cursor = None\<rparr>) 2
     [\<lparr>di_id = ''5:1'', di_spaced_name = ''10''\<rparr>, \<lparr>di_id = ''5:2'', di_spaced_name = ''11''\<rparr>, \<lparr>di_id = ''7:0'', di_spaced_name = ''12''\<rparr>]"
proof -
  have "page_count (Some 2) = Inr 2" by (simp add: page_count_def MAX_PAGE_COUNT_def unwrap_or_def)
  then show ?thesis
    using dunes_listed [OF dunes_example, of "\<lparr>cp_count = Some 2, cp_order = None, cp_cursor = None\<rparr>" 2]
    by (simp add: three_rows)
qed

theorem dunes_descending_incomplete_witness:
  "follow (dunes_ask dunes_mapi \<lparr>cp_count = Some 2, cp_order = Some Desc, cp_cursor = None\<rparr>) None
     [[\<lparr>di_id = ''5:1'', di_spaced_name = ''10''\<rparr>, \<lparr>di_id = ''5:2'', di_spaced_name = ''11''\<rparr>], [\<lparr>di_id = ''5:1'', di_spaced_name = ''10''\<rparr>]]"
proof -
  have "page_count (Some 2) = Inr 2" by (simp add: page_count_def MAX_PAGE_COUNT_def unwrap_or_def)
  moreover have "card (dom (map_of three_dunes)) = 3" by (simp add: three_dunes_def dom_map_of_conv_image_fst)
  ultimately show ?thesis
    using dunes_descending_incomplete [OF dunes_example, of "\<lparr>cp_count = Some 2, cp_order = Some Desc, cp_cursor = None\<rparr>" 2]
    by (simp add: dune_rows_def three_rows)
qed

end
