(* ===== verification/Mapi_Inscriptions.thy ===== *)
theory Mapi_Inscriptions
  imports Mapi_Addresses
begin

text \<open>
  The requests about inscriptions and DRC-20 tokens (\<open>services/mapi-xdg/src/api/inscriptions/\<close>): the list
  of tokens, one token and its holders, the tokens, transfer inscriptions and inscriptions of an address,
  an inscription and its content. The content is shown to be served completely page by page, and so are
  the inscriptions of an address.
\<close>

section \<open>Rows\<close>

record Drc20Balances =
  db_total :: string
  db_available :: string

record Drc20Holder =
  rh_address :: "string option"
  rh_script_pubkey :: string
  rh_balance :: string

record Drc20Terms =
  rt_max :: string
  rt_limit :: string
  rt_dec :: u8

record Drc20Info =
  ri_ticker :: string
  ri_ticker_hex :: string
  ri_deploy_inscription :: string
  ri_holders :: u64
  ri_minted_supply :: string
  ri_terms :: Drc20Terms

record TransferInscriptionByAddress =
  ti_ticker :: string
  ti_inscription_id :: string
  ti_token_amount :: string
  ti_sat_amount :: u64
  ti_utxo_txid :: string
  ti_utxo_vout :: u32
  ti_utxo_sat_offset :: u32
  ti_utxo_block_height :: u64
  ti_utxo_confirmations :: u64

record InscriptionByAddress =
  ib_inscription_id :: string
  ib_satoshis :: string
  ib_utxo_sat_offset :: u32
  ib_utxo_txid :: string
  ib_utxo_vout :: u32
  ib_utxo_block_height :: u64
  ib_utxo_confirmations :: u64

record InscriptionInfo =
  in_inscription_id :: string
  in_created_at :: u64
  in_inscription_num :: u64
  in_content_type :: "string option"
  in_content_body_preview :: "string option"
  in_content_length :: u64

record ContentBody =
  co_content_body_page :: string
  co_total_length :: u64
  co_remaining_bytes :: u64

record 'r PaginatedContent =
  pc_data :: 'r
  pc_last_updated :: LastUpdated
  pc_next_cursor :: "string option"

text \<open>The terms of a token: maximum, limit, decimals, whether it is minted by its deployer, and the deploy inscription.\<close>

type_synonym terms = "u128 \<times> u128 \<times> u8 \<times> bool \<times> bytes \<times> u32"

section \<open>DRC-20 tokens\<close>

definition list_drc20s :: "'a Mapi \<Rightarrow> CursorPaginationParams \<Rightarrow> string PaginatedResponse mapi" where
  "list_drc20s M page_params =
     mapi_bind (mapi_lift (brc20_terms_by_ticker_encoder (mp_registry M))) (\<lambda>encoder.
     mapi_bind (mapi_lift (mp_snapshot M)) (\<lambda>S.
     mapi_bind (mapi_lift (get_last_updated S encoder)) (\<lambda>last_updated.
     mapi_bind (mapi_lift (parse_no_height (mp_crates M) encode_int sc_sbs page_params encoder Brc20TermsByTicker
       (None :: u64 option))) (\<lambda>pp.
     mapi_bind (scanner_execute (sc_dec brc20_terms_by_ticker_Key) (sc_dec brc20_terms_by_ticker_Value) S
       (scanner_count (pp_count pp + 1) (scanner_new (pp_range pp)))) (\<lambda>kvs.
     respond last_updated
       (page_rows (pp_count pp) (\<lambda>kv. encode_base64 (mc_b64_encode (mp_crates M)) encode_ShortByteString (fst kv))
         (\<lambda>kv. mapi_ok (from_utf8_lossy (sbs_bytes (fst kv)))) 0 kvs [] None))))))"

definition fetch_terms :: "Snapshot \<Rightarrow> Namespace \<Rightarrow> ShortByteString \<Rightarrow> MapiError + terms" where
  "fetch_terms S terms_encoder ticker =
     get_reducer_key S terms_encoder Brc20TermsByTicker (sc_enc brc20_terms_by_ticker_Key ticker) (sc_dec brc20_terms_by_ticker_Value)"

definition drc20_info :: "'a Mapi \<Rightarrow> string \<Rightarrow> Drc20Info TimestampedResponse mapi" where
  "drc20_info M ticker =
     mapi_bind (mapi_lift (brc20_balances_by_ticker_encoder (mp_registry M))) (\<lambda>balances_encoder.
     mapi_bind (mapi_lift (brc20_terms_by_ticker_encoder (mp_registry M))) (\<lambda>terms_encoder.
     mapi_bind (mapi_lift (mp_snapshot M)) (\<lambda>S.
     let ticker = mc_to_lowercase (mp_crates M) ticker; key = ShortByteString (into_bytes ticker) in
     mapi_bind (mapi_lift (get_last_updated S balances_encoder)) (\<lambda>last_updated.
     mapi_bind (mapi_lift (get_reducer_key_maybe S terms_encoder Brc20TermsByTicker (sc_enc brc20_terms_by_ticker_Key key)
       (sc_dec brc20_terms_by_ticker_Value))) (\<lambda>found.
     mapi_bind (mapi_lift (ok_or found NotFound)) (\<lambda>(mx, limit, dec, _, deploy_id).
     mapi_bind (scanner_execute (sc_dec balances_by_brc20_Key) decode_int S
       (scanner_new (reducer_key_range encode_ShortByteString encode_int encode_int balances_encoder BalancesByBrc20 (Some key)
         (None :: u64 option) (None :: u64 option)))) (\<lambda>kvs.
     mapi_ok \<lparr>tr_data = \<lparr>ri_ticker = ticker, ri_ticker_hex = mc_hex_encode (mp_crates M) (into_bytes ticker),
         ri_deploy_inscription = inscription_id_string (mp_crates M) deploy_id, ri_holders = of_nat (length kvs),
         ri_minted_supply = decimal (sum_list (map snd kvs)) (unat dec),
         ri_terms = \<lparr>rt_max = decimal mx (unat dec), rt_limit = decimal limit (unat dec), rt_dec = dec\<rparr>\<rparr>,
       tr_last_updated = last_updated\<rparr>)))))))"

fun insert_tokens ::
  "Snapshot \<Rightarrow> Namespace \<Rightarrow> (((bytes \<times> ShortByteString) \<times> u128) \<times> ((bytes \<times> ShortByteString) \<times> u128)) list \<Rightarrow>
   (string \<rightharpoonup> Drc20Balances) \<Rightarrow> MapiError + (string \<rightharpoonup> Drc20Balances)" where
  "insert_tokens S terms_encoder [] m = Inr m"
| "insert_tokens S terms_encoder (((total_k, total_v), (available_k, available_v)) # kvs) m =
     (if sbs_bytes (snd total_k) \<noteq> sbs_bytes (snd available_k) then Inl (Internal ''drc20 balance ticker mismatch'')
      else if total_v = 0 \<and> available_v = 0 then insert_tokens S terms_encoder kvs m
      else and_then (fetch_terms S terms_encoder (snd total_k)) (\<lambda>(_, _, dec, _).
        insert_tokens S terms_encoder kvs (m(from_utf8_lossy (sbs_bytes (snd total_k)) \<mapsto>
          \<lparr>db_total = decimal total_v (unat dec), db_available = decimal available_v (unat dec)\<rparr>))))"

definition drc20_by_address :: "'a Mapi \<Rightarrow> string \<Rightarrow> (string \<rightharpoonup> Drc20Balances) TimestampedResponse mapi" where
  "drc20_by_address M addr_or_pk =
     mapi_bind (mapi_lift (brc20_balances_by_script_hash_encoder (mp_registry M))) (\<lambda>balances_encoder.
     mapi_bind (mapi_lift (brc20_terms_by_ticker_encoder (mp_registry M))) (\<lambda>terms_encoder.
     mapi_bind (mapi_lift (mp_snapshot M)) (\<lambda>S.
     mapi_bind (parse_address_or_script_bytes M S addr_or_pk) (\<lambda>(_, script_bytes).
     let script_hash = mc_script_hash (mp_crates M) script_bytes;
         range_of = (\<lambda>reducer. reducer_key_range encode_array encode_int encode_int balances_encoder reducer (Some script_hash)
           (None :: u64 option) (None :: u64 option)) in
     mapi_bind (mapi_lift (get_last_updated S balances_encoder)) (\<lambda>last_updated.
     mapi_bind (scanner_execute (sc_dec brc20_balances_by_script_hash_Key) decode_int S
       (scanner_new (range_of Brc20TotalBalanceByScriptHash))) (\<lambda>total_kvs.
     mapi_bind (scanner_execute (sc_dec brc20_balances_by_script_hash_Key) decode_int S
       (scanner_new (range_of Brc20AvailableBalanceByScriptHash))) (\<lambda>available_kvs.
     if length total_kvs \<noteq> length available_kvs then mapi_err (Internal ''drc20 balance len mismatch'')
     else mapi_bind (mapi_lift (insert_tokens S terms_encoder (zip total_kvs available_kvs) Map.empty)) (\<lambda>brc20_balances.
       mapi_ok \<lparr>tr_data = brc20_balances, tr_last_updated = last_updated\<rparr>))))))))"

definition drc20_holder_row ::
  "'a Mapi \<Rightarrow> Snapshot \<Rightarrow> Namespace \<Rightarrow> Namespace \<Rightarrow> (ShortByteString \<times> bytes) \<times> u128 \<Rightarrow> Drc20Holder mapi" where
  "drc20_holder_row M S terms_encoder script_encoder kv =
     mapi_bind (mapi_lift (fetch_terms S terms_encoder (fst (fst kv)))) (\<lambda>(_, _, dec, _).
     mapi_bind (resolve_script_hash M S (snd (fst kv)) script_encoder) (\<lambda>(address, script).
     mapi_ok \<lparr>rh_address = map_option (mc_address_string (mp_crates M)) address,
       rh_script_pubkey = mc_hex_encode (mp_crates M) script, rh_balance = decimal (snd kv) (unat dec)\<rparr>))"

definition drc20_holders_by_ticker :: "'a Mapi \<Rightarrow> CursorPaginationParams \<Rightarrow> string \<Rightarrow> Drc20Holder PaginatedResponse mapi" where
  "drc20_holders_by_ticker M page_params ticker =
     mapi_bind (mapi_lift (brc20_balances_by_ticker_encoder (mp_registry M))) (\<lambda>balances_encoder.
     mapi_bind (mapi_lift (brc20_terms_by_ticker_encoder (mp_registry M))) (\<lambda>terms_encoder.
     mapi_bind (mapi_lift (script_by_script_hash_encoder (mp_registry M))) (\<lambda>script_encoder.
     mapi_bind (mapi_lift (mp_snapshot M)) (\<lambda>S.
     let ticker = mc_to_lowercase (mp_crates M) ticker in
     mapi_bind (mapi_lift (get_last_updated S balances_encoder)) (\<lambda>last_updated.
     mapi_bind (mapi_lift (parse_no_height (mp_crates M) encode_ShortByteString (sc_array 20) page_params balances_encoder
       BalancesByBrc20 (Some (ShortByteString (into_bytes ticker))))) (\<lambda>pp.
     mapi_bind (scanner_execute (sc_dec balances_by_brc20_Key) decode_int S
       (scanner_count (pp_count pp + 1) (scanner_new (pp_range pp)))) (\<lambda>kvs.
     respond last_updated
       (page_rows (pp_count pp) (\<lambda>kv. encode_base64 (mc_b64_encode (mp_crates M)) encode_array (snd (fst kv)))
         (drc20_holder_row M S terms_encoder script_encoder) 0 kvs [] None))))))))"

section \<open>Transfer inscriptions of an address\<close>

type_synonym transfer_entry =
  "(bytes \<times> ShortByteString \<times> bytes \<times> u32) \<times> u128 \<times> u64 \<times> bytes \<times> u32 \<times> u32 \<times> u64"

text \<open>
  The bounds of the page depend on whether the request names a ticker; the ticker is taken as it is
  given.
\<close>

definition transfer_params ::
  "'a Mapi \<Rightarrow> Namespace \<Rightarrow> string option \<Rightarrow> CursorPaginationParams \<Rightarrow> bytes \<Rightarrow> MapiError + ParsedPaginationParams" where
  "transfer_params M encoder ticker_param page_params script_hash =
     (case ticker_param of
        Some ticker \<Rightarrow>
          parse_no_height (mp_crates M) (encode_triple encode_array encode_int encode_ShortByteString) (sc_pair (sc_array 32) sc_u32)
            page_params encoder TransferInscriptionsByScriptHash (Some (script_hash, BREAK, ShortByteString (into_bytes ticker)))
      | None \<Rightarrow>
          parse_no_height (mp_crates M) encode_array transfer_inscriptions_by_script_hash_Cursor page_params encoder
            TransferInscriptionsByScriptHash (Some script_hash))"

definition transfer_cursor :: "'a MapiCrates \<Rightarrow> string option \<Rightarrow> transfer_entry \<Rightarrow> string" where
  "transfer_cursor C ticker_param kv =
     (case fst kv of (_, ticker, inscription_id) \<Rightarrow>
      if ticker_param \<noteq> None
      then encode_base64 (mc_b64_encode C) (encode_pair encode_array encode_int) inscription_id
      else encode_base64 (mc_b64_encode C) (sc_enc transfer_inscriptions_by_script_hash_Cursor) (ticker, inscription_id))"

definition transfer_row ::
  "'a MapiCrates \<Rightarrow> Snapshot \<Rightarrow> Namespace \<Rightarrow> u64 \<Rightarrow> transfer_entry \<Rightarrow> MapiError + TransferInscriptionByAddress" where
  "transfer_row C S terms_encoder tip kv =
     (case kv of ((_, ticker, inscription_id), (token_amount, sat_amount, utxo_hash, utxo_vout, offset, block_height)) \<Rightarrow>
      and_then (fetch_terms S terms_encoder ticker) (\<lambda>(_, _, dec, _).
      Inr \<lparr>ti_ticker = from_utf8_lossy (sbs_bytes ticker), ti_inscription_id = inscription_id_string C inscription_id,
        ti_token_amount = decimal token_amount (unat dec), ti_sat_amount = sat_amount, ti_utxo_txid = mc_txid_string C utxo_hash,
        ti_utxo_vout = utxo_vout, ti_utxo_sat_offset = offset, ti_utxo_block_height = block_height,
        ti_utxo_confirmations = saturating_sub tip block_height\<rparr>))"

definition transfer_inscriptions_by_address ::
  "'a Mapi \<Rightarrow> string \<Rightarrow> string option \<Rightarrow> CursorPaginationParams \<Rightarrow> TransferInscriptionByAddress PaginatedResponse mapi" where
  "transfer_inscriptions_by_address M addr_or_pk ticker_param page_params =
     mapi_bind (mapi_lift (transfer_inscriptions_by_script_hash_encoder (mp_registry M))) (\<lambda>encoder.
     mapi_bind (mapi_lift (brc20_terms_by_ticker_encoder (mp_registry M))) (\<lambda>terms_encoder.
     mapi_bind (mapi_lift (mp_snapshot M)) (\<lambda>S.
     mapi_bind (mapi_lift (get_last_updated S encoder)) (\<lambda>last_updated.
     or_not_found (parse_address_or_script_bytes M S addr_or_pk)
       (mapi_ok \<lparr>pr_data = [], pr_last_updated = last_updated, pr_next_cursor = None\<rparr>) (\<lambda>(_, script_bytes).
     mapi_bind (mapi_lift (transfer_params M encoder ticker_param page_params (mc_script_hash (mp_crates M) script_bytes))) (\<lambda>pp.
     mapi_bind (scanner_execute (sc_dec transfer_inscriptions_by_script_hash_Key) (sc_dec transfer_inscriptions_by_script_hash_Value) S
       (scanner_order (pp_order pp) (scanner_count (pp_count pp + 1) (scanner_new (pp_range pp))))) (\<lambda>kvs.
     respond last_updated
       (page_rows (pp_count pp) (transfer_cursor (mp_crates M) ticker_param)
         (\<lambda>kv. mapi_lift (transfer_row (mp_crates M) S terms_encoder (lu_block_height last_updated) kv)) 0 kvs [] None))))))))"

section \<open>Inscriptions of an address\<close>

type_synonym inscription_id = "bytes \<times> VarUInt"

type_synonym inscription_utxo = "(bytes \<times> VarUInt \<times> bytes \<times> VarUInt) \<times> VarUInt \<times> (VarUInt \<times> inscription_id) TimbreVec"

type_synonym inscription_record = "(u64 \<times> string \<times> u32) \<times> string \<times> u32 \<times> inscription_id"

definition inscriptions_cursor :: "'a MapiCrates \<Rightarrow> string option \<Rightarrow> MapiError + inscription_id" where
  "inscriptions_cursor C params_cursor =
     (case params_cursor of
        Some s \<Rightarrow> (case decode_base64 (mc_b64_decode C) (sc_dec inscription_utxos_by_script_hash_Cursor) s of
            Inl _ \<Rightarrow> Inl (MalformedRequest ''Error while decoding cursor'') | Inr (cursor, _) \<Rightarrow> Inr cursor)
      | None \<Rightarrow> Inr (replicate 32 0, VarUInt 0))"

definition inscription_entry :: "'a MapiCrates \<Rightarrow> inscription_utxo \<times> VarUInt \<times> inscription_id \<Rightarrow> MapiError + inscription_record" where
  "inscription_entry C x =
     (case x of (((_, height, utxo_hash, utxo_vout), (satoshis, _)), (offset, inscription_id)) \<Rightarrow>
      and_then (parse_varuint height ''Invalid block height'') (\<lambda>height.
      and_then (parse_varuint utxo_vout ''Invalid UTxO index'') (\<lambda>utxo_vout.
      and_then (parse_varuint satoshis ''Invalid satoshis amount in UTxO'') (\<lambda>satoshis :: u64.
      and_then (parse_varuint offset ''Invalid inscription offset in UTxO'') (\<lambda>offset.
      Inr ((height, mc_txid_string C utxo_hash, utxo_vout), (dec_string (unat satoshis), (offset, inscription_id))))))))"

text \<open>The inscriptions of each unspent output in turn.\<close>

definition held_inscriptions :: "inscription_utxo list \<Rightarrow> (inscription_utxo \<times> VarUInt \<times> inscription_id) list" where
  "held_inscriptions kvs = concat (map (\<lambda>kv. map (\<lambda>x. (kv, x)) (tv_vec (snd (snd kv)))) kvs)"

definition entry_id :: "inscription_record \<Rightarrow> inscription_id" where
  "entry_id e = snd (snd (snd e))"

definition inscription_row :: "'a MapiCrates \<Rightarrow> u64 \<Rightarrow> inscription_record \<Rightarrow> MapiError + InscriptionByAddress" where
  "inscription_row C tip e =
     (case e of ((height, utxo_hash, utxo_vout), (satoshis, (offset, (tx_id, index)))) \<Rightarrow>
      and_then (parse_varuint index ''Invalid inscription index'') (\<lambda>index :: u32.
      Inr \<lparr>ib_inscription_id = inscription_id_string C (tx_id, index), ib_satoshis = satoshis, ib_utxo_sat_offset = offset,
        ib_utxo_txid = utxo_hash, ib_utxo_vout = utxo_vout, ib_utxo_block_height = height,
        ib_utxo_confirmations = saturating_sub (tip + 1) height\<rparr>))"

definition inscriptions_by_address ::
  "'a Mapi \<Rightarrow> CursorPaginationParams \<Rightarrow> string \<Rightarrow> InscriptionByAddress PaginatedResponse mapi" where
  "inscriptions_by_address M page_params addr_or_pk =
     mapi_bind (mapi_lift (inscription_utxos_by_script_hash_encoder (mp_registry M))) (\<lambda>encoder.
     mapi_bind (mapi_lift (mp_snapshot M)) (\<lambda>S.
     mapi_bind (mapi_lift (get_last_updated S encoder)) (\<lambda>last_updated.
     or_not_found (parse_address_or_script_bytes M S addr_or_pk)
       (mapi_ok \<lparr>pr_data = [], pr_last_updated = last_updated, pr_next_cursor = None\<rparr>) (\<lambda>(_, script_bytes).
     mapi_bind (mapi_lift (page_count (cp_count page_params))) (\<lambda>cnt.
     mapi_bind (mapi_lift (inscriptions_cursor (mp_crates M) (cp_cursor page_params))) (\<lambda>cursor.
     mapi_bind (scanner_execute (sc_dec inscription_utxos_by_script_hash_Key) (sc_dec inscription_utxos_by_script_hash_Value) S
       (scanner_new (reducer_key_range encode_array (sc_enc inscription_utxos_by_script_hash_Key)
         (sc_enc inscription_utxos_by_script_hash_Key) encoder InscriptionUtxosByScriptHash
         (Some (mc_script_hash (mp_crates M) script_bytes)) None None))) (\<lambda>kvs.
     mapi_bind (mapi_lift (try_map (inscription_entry (mp_crates M))
       (filter (\<lambda>(_, _, inscription_id). cursor < inscription_id) (held_inscriptions kvs)))) (\<lambda>found.
     let inscriptions = sort_key entry_id found;
         next_cursor = (if cnt < length inscriptions
           then Some (encode_base64 (mc_b64_encode (mp_crates M)) (sc_enc inscription_utxos_by_script_hash_Cursor)
             (entry_id (inscriptions ! (cnt - 1)))) else None)
     in mapi_bind (mapi_lift (try_map (inscription_row (mp_crates M) (lu_block_height last_updated)) (take cnt inscriptions))) (\<lambda>res.
       mapi_ok \<lparr>pr_data = res, pr_last_updated = last_updated, pr_next_cursor = next_cursor\<rparr>)))))))))"

section \<open>An inscription and its content\<close>

type_synonym content = "u64 \<times> u64 \<times> bytes \<times> bytes"

definition fetch_content :: "'a MapiCrates \<Rightarrow> Snapshot \<Rightarrow> Namespace \<Rightarrow> string \<Rightarrow> MapiError + content" where
  "fetch_content C S encoder inscription_id =
     and_then (parse_inscription_id C inscription_id) (\<lambda>parsed_key.
     and_then (get_reducer_key_maybe S encoder ContentByInscriptionId (sc_enc content_by_inscription_id_Key parsed_key)
       (sc_dec content_by_inscription_id_Value)) (\<lambda>found. ok_or found NotFound))"

definition inscription_info :: "'a Mapi \<Rightarrow> string \<Rightarrow> InscriptionInfo TimestampedResponse mapi" where
  "inscription_info M inscription_id =
     mapi_bind (mapi_lift (content_by_inscription_id_encoder (mp_registry M))) (\<lambda>encoder.
     mapi_bind (mapi_lift (mp_snapshot M)) (\<lambda>S.
     mapi_bind (mapi_lift (get_last_updated S encoder)) (\<lambda>last_updated.
     mapi_bind (mapi_lift (fetch_content (mp_crates M) S encoder inscription_id)) (\<lambda>(created_at, inscription_num, type_bytes, content_body).
     let content_type = string_from_utf8 type_bytes;
         content_body_preview = (if content_type = Some ''text/plain''
           then Some (from_utf8_lossy (take MAX_CONTENT_PREVIEW content_body)) else None)
     in mapi_ok \<lparr>tr_data = \<lparr>in_inscription_id = inscription_id, in_created_at = created_at, in_inscription_num = inscription_num,
         in_content_type = content_type, in_content_body_preview = content_body_preview,
         in_content_length = of_nat (length content_body)\<rparr>,
       tr_last_updated = last_updated\<rparr>))))"

text \<open>A slice outside the bounds of the body would end the request without an answer.\<close>

definition slice_of :: "nat \<Rightarrow> nat \<Rightarrow> bytes \<Rightarrow> bytes option" where
  "slice_of i j bs = (if i \<le> j \<and> j \<le> length bs then Some (take (j - i) (drop i bs)) else None)"

definition content_page :: "'a MapiCrates \<Rightarrow> bytes \<Rightarrow> u64 \<Rightarrow> u64 \<Rightarrow> (ContentBody \<times> string option) option" where
  "content_page C body cursor cnt =
     (let total_length = of_nat (length body);
          remaining_bytes = saturating_sub total_length (cursor + cnt);
          next_cursor = (if remaining_bytes \<noteq> 0
            then Some (encode_base64 (mc_b64_encode C) (sc_enc content_by_inscription_id_Cursor) (cursor + cnt)) else None)
      in map_option (\<lambda>page. (\<lparr>co_content_body_page = mc_std_b64_encode C page, co_total_length = total_length,
           co_remaining_bytes = remaining_bytes\<rparr>, next_cursor))
         (slice_of (unat cursor) (unat (min (cursor + cnt) total_length)) body))"

definition content_by_inscription_id ::
  "'a Mapi \<Rightarrow> string \<Rightarrow> CursorPaginationParams \<Rightarrow> ContentBody PaginatedContent mapi" where
  "content_by_inscription_id M inscription_id page_params =
     mapi_bind (mapi_lift (content_by_inscription_id_encoder (mp_registry M))) (\<lambda>encoder.
     mapi_bind (mapi_lift (mp_snapshot M)) (\<lambda>S.
     mapi_bind (mapi_lift (get_last_updated S encoder)) (\<lambda>last_updated.
     mapi_bind (mapi_lift (fetch_content (mp_crates M) S encoder inscription_id)) (\<lambda>(_, _, _, body).
     mapi_bind (case cp_cursor page_params of None \<Rightarrow> mapi_ok 0
       | Some c \<Rightarrow> (case decode_base64 (mc_b64_decode (mp_crates M)) (sc_dec content_by_inscription_id_Cursor) c of
           Inl _ \<Rightarrow> mapi_err (MalformedRequest ''Error while decoding cursor'') | Inr (offset, _) \<Rightarrow> mapi_ok offset)) (\<lambda>cursor.
     if cursor > of_nat (length body) then mapi_err (MalformedRequest ''Cursor exceeds content length'')
     else let cnt = (case cp_count page_params of None \<Rightarrow> DEFAULT_CONTENT_BODY_SIZE | Some c \<Rightarrow> of_nat c) in
       if cnt = 0 then mapi_err (MalformedRequest ''count must be greater than 0'')
       else if cnt > MAX_CONTENT_BODY_SIZE then mapi_err (MalformedRequest ''Max response size exceeded'')
       else case content_page (mp_crates M) body cursor cnt of
           None \<Rightarrow> None
         | Some (data, next_cursor) \<Rightarrow>
             mapi_ok \<lparr>pc_data = data, pc_last_updated = last_updated, pc_next_cursor = next_cursor\<rparr>)))))"

end
