(* ===== verification/Mapi_Inscription_Listing.thy ===== *)
theory Mapi_Inscription_Listing
  imports Mapi_Inscriptions
begin

text \<open>
  Listings that are not scans: the content of an inscription is served in slices of its body, and the
  inscriptions of an address are collected, sorted and cut. Both satisfy the contract \<open>cursor_listing\<close>.
\<close>

section \<open>Content\<close>

text \<open>
  The rows of the listing are the bytes of the body, as a client reads them from the base64 text of the
  pages with \<open>cl_unpage\<close>.
\<close>

record 'a ContentListing =
  cl_mapi :: "'a Mapi"
  cl_id :: string
  cl_page :: CursorPaginationParams
  cl_unpage :: "string \<Rightarrow> bytes"
  cl_body :: bytes
  cl_count :: nat

definition cl_served :: "'a ContentListing \<Rightarrow> bool" where
  "cl_served q \<longleftrightarrow> (\<exists>encoder S last_updated created num type.
     content_by_inscription_id_encoder (mp_registry (cl_mapi q)) = Inr encoder \<and> mp_snapshot (cl_mapi q) = Inr S \<and>
     get_last_updated S encoder = Inr last_updated \<and>
     fetch_content (mp_crates (cl_mapi q)) S encoder (cl_id q) = Inr (created, num, type, cl_body q))"

definition cl_ok :: "'a ContentListing \<Rightarrow> bool" where
  "cl_ok q \<longleftrightarrow> cl_served q \<and> length (cl_body q) < 2 ^ 63 \<and> cl_count q = unwrap_or (cp_count (cl_page q)) 100 \<and>
     0 < cl_count q \<and> cl_count q \<le> 4096 \<and>
     (\<forall>b. cl_unpage q (mc_std_b64_encode (mp_crates (cl_mapi q)) b) = b) \<and>
     (\<forall>b. mc_b64_decode (mp_crates (cl_mapi q)) (mc_b64_encode (mp_crates (cl_mapi q)) b) = Some b)"

definition cl_ask :: "'a ContentListing \<Rightarrow> string option \<Rightarrow> (bytes \<times> string option) mapi" where
  "cl_ask q c =
     mapi_bind (content_by_inscription_id (cl_mapi q) (cl_id q) ((cl_page q)\<lparr>cp_cursor := c\<rparr>)) (\<lambda>r.
       mapi_ok (cl_unpage q (co_content_body_page (pc_data r)), pc_next_cursor r))"

definition cl_at :: "'a ContentListing \<Rightarrow> nat \<Rightarrow> string" where
  "cl_at q i = encode_base64 (mc_b64_encode (mp_crates (cl_mapi q))) (sc_enc content_by_inscription_id_Cursor) (of_nat i)"

definition cl_mark :: "'a ContentListing \<Rightarrow> nat \<Rightarrow> string" where
  "cl_mark q j = cl_at q (Suc j)"

lemma content_page_exact:
  assumes i: "i \<le> length body" "length body < 2 ^ 63" and n: "0 < n" "n \<le> 4096"
  shows "content_page C body (of_nat i) (of_nat n) =
    Some (\<lparr>co_content_body_page = mc_std_b64_encode C (take n (drop i body)), co_total_length = of_nat (length body),
        co_remaining_bytes = of_nat (length body - (i + n))\<rparr>,
      if i + n < length body then Some (encode_base64 (mc_b64_encode C) (sc_enc content_by_inscription_id_Cursor) (of_nat (i + n))) else None)"
proof -
  have small: "k < 2 ^ 64 \<Longrightarrow> unat (of_nat k :: u64) = k" for k using unat_of_nat_small [where 'a = 64, of k] by simp
  have u: "unat (of_nat i :: u64) = i" "unat (of_nat (length body) :: u64) = length body" "unat (of_nat (i + n) :: u64) = i + n"
    using i n by (intro small; simp)+
  have le: "(of_nat (i + n) :: u64) \<le> of_nat (length body) \<longleftrightarrow> i + n \<le> length body" by (simp only: word_le_nat_alt u)
  have rem: "saturating_sub (of_nat (length body)) (of_nat (i + n)) = (of_nat (length body - (i + n)) :: u64)"
    using le by (auto simp: saturating_sub_def of_nat_diff)
  have rem0: "(of_nat (length body - (i + n)) :: u64) \<noteq> 0 \<longleftrightarrow> i + n < length body"
  proof -
    have "unat (of_nat (length body - (i + n)) :: u64) = length body - (i + n)" using i by (intro small) simp
    then show ?thesis by (auto simp: unat_eq_zero [symmetric])
  qed
  have mn: "unat (min (of_nat (i + n)) (of_nat (length body)) :: u64) = min (i + n) (length body)"
    using le u by (auto simp: min_def)
  have "take (min (i + n) (length body) - i) (drop i body) = take n (drop i body)"
    using i(1) by (cases "i + n \<le> length body") (simp_all add: min_def)
  then have slice: "slice_of (unat (of_nat i :: u64)) (unat (min (of_nat (i + n)) (of_nat (length body)) :: u64)) body = Some (take n (drop i body))"
    unfolding slice_of_def u(1) mn using i(1) by simp
  have add: "(of_nat i :: u64) + of_nat n = of_nat (i + n)" by simp
  show ?thesis unfolding content_page_def Let_def add rem slice using rem0 by simp
qed

lemma cl_ask_at:
  assumes ok: "cl_ok q" and i: "i \<le> length (cl_body q)"
    and c: "c = None \<and> i = 0 \<or> c = Some (cl_at q i)"
  shows "cl_ask q c = mapi_ok (page_from (cl_count q) (cl_mark q) (cl_body q) i)"
proof -
  let ?C = "mp_crates (cl_mapi q)" and ?n = "cl_count q" and ?b = "cl_body q"
  obtain encoder S last_updated created num type where s: "content_by_inscription_id_encoder (mp_registry (cl_mapi q)) = Inr encoder"
    "mp_snapshot (cl_mapi q) = Inr S" "get_last_updated S encoder = Inr last_updated" "fetch_content ?C S encoder (cl_id q) = Inr (created, num, type, ?b)"
    using ok unfolding cl_ok_def cl_served_def by blast
  have cur: "(case c of None \<Rightarrow> mapi_ok 0
       | Some c \<Rightarrow> (case decode_base64 (mc_b64_decode ?C) (sc_dec content_by_inscription_id_Cursor) c of
           Inl _ \<Rightarrow> mapi_err (MalformedRequest ''Error while decoding cursor'') | Inr (offset, _) \<Rightarrow> mapi_ok offset)) = mapi_ok (of_nat i)"
    using c ok decode_encode_int [of "of_nat i :: u64" "[]"]
    by (auto simp: cl_ok_def cl_at_def decode_base64_def encode_base64_def content_by_inscription_id_Cursor_def sc_int_def)
  have small: "k < 2 ^ 64 \<Longrightarrow> unat (of_nat k :: u64) = k" for k using unat_of_nat_small [where 'a = 64, of k] by simp
  have n: "0 < ?n" "?n \<le> 4096" "length ?b < 2 ^ 63" using ok by (simp_all add: cl_ok_def)
  then have u: "unat (of_nat i :: u64) = i" "unat (of_nat (length ?b) :: u64) = length ?b" "unat (of_nat ?n :: u64) = ?n"
    using i by (intro small; simp)+
  have cnt: "(case cp_count (cl_page q) of None \<Rightarrow> DEFAULT_CONTENT_BODY_SIZE | Some c \<Rightarrow> of_nat c) = of_nat ?n"
    using ok by (auto simp: cl_ok_def unwrap_or_def DEFAULT_CONTENT_BODY_SIZE_def split: option.splits)
  have guards: "\<not> of_nat i > (of_nat (length ?b) :: u64)" "(of_nat ?n :: u64) \<noteq> 0" "\<not> of_nat ?n > MAX_CONTENT_BODY_SIZE"
    using i n u by (auto simp: word_less_nat_alt unat_eq_zero [symmetric] MAX_CONTENT_BODY_SIZE_def)
  have mark: "page_from ?n (cl_mark q) ?b i = (take ?n (drop i ?b), if i + ?n < length ?b then Some (cl_at q (i + ?n)) else None)"
    using n(1) by (simp add: page_from_def cl_mark_def)
  have "content_by_inscription_id (cl_mapi q) (cl_id q) ((cl_page q)\<lparr>cp_cursor := c\<rparr>) =
    mapi_ok \<lparr>pc_data = \<lparr>co_content_body_page = mc_std_b64_encode ?C (take ?n (drop i ?b)), co_total_length = of_nat (length ?b),
        co_remaining_bytes = of_nat (length ?b - (i + ?n))\<rparr>, pc_last_updated = last_updated,
      pc_next_cursor = if i + ?n < length ?b then Some (cl_at q (i + ?n)) else None\<rparr>"
    using s guards by (simp add: content_by_inscription_id_def cur cnt content_page_exact [OF i n(3,1,2)] cl_at_def)
  moreover have "cl_unpage q (mc_std_b64_encode ?C b) = b" for b using ok by (simp add: cl_ok_def)
  ultimately show ?thesis unfolding mark by (simp add: cl_ask_def)
qed

interpretation cl: cursor_listing cl_ok cl_ask cl_body cl_mark cl_count
proof
  fix q :: "'a ContentListing" and j
  assume ok: "cl_ok q"
  then show "0 < cl_count q" by (simp add: cl_ok_def)
  show "cl_ask q None = mapi_ok (page_from (cl_count q) (cl_mark q) (cl_body q) 0)" by (rule cl_ask_at [OF ok]) auto
  show "cl_ask q (Some (cl_mark q j)) = mapi_ok (page_from (cl_count q) (cl_mark q) (cl_body q) (Suc j))" if "j < length (cl_body q)"
    by (rule cl_ask_at [OF ok]) (use that in \<open>auto simp: cl_mark_def\<close>)
qed

section \<open>Inscriptions of an address\<close>

record 'a InscriptionListing =
  il_mapi :: "'a Mapi"
  il_ns :: Namespace
  il_snapshot :: Snapshot
  il_db :: kv_map
  il_tip :: u64
  il_page :: CursorPaginationParams
  il_input :: string
  il_script :: bytes
  il_table :: "bytes \<times> VarUInt \<times> bytes \<times> VarUInt \<rightharpoonup> VarUInt \<times> (VarUInt \<times> inscription_id) TimbreVec"
  il_count :: nat

definition il_script_hash :: "'a InscriptionListing \<Rightarrow> bytes" where
  "il_script_hash q = mc_script_hash (mp_crates (il_mapi q)) (il_script q)"

definition il_range :: "'a InscriptionListing \<Rightarrow> key_range" where
  "il_range q = reducer_key_range encode_array (sc_enc inscription_utxos_by_script_hash_Key) (sc_enc inscription_utxos_by_script_hash_Key)
     (il_ns q) InscriptionUtxosByScriptHash (Some (il_script_hash q)) None None"

text \<open>What the outputs of the script hold, as it is read and in the order of the listing.\<close>

definition il_held :: "'a InscriptionListing \<Rightarrow> (inscription_utxo \<times> VarUInt \<times> inscription_id) set" where
  "il_held q = {((k, v), x) | k v x. il_table q k = Some v \<and> fst k = il_script_hash q \<and> x \<in> set (tv_vec (snd v))}"

definition il_scanned :: "'a InscriptionListing \<Rightarrow> inscription_utxo list" where
  "il_scanned q = map (\<lambda>kv. projr (read_entry (sc_dec inscription_utxos_by_script_hash_Key) (sc_dec inscription_utxos_by_script_hash_Value) kv))
     (scan_entries Asc (il_db q) (il_range q))"

definition il_entry :: "'a InscriptionListing \<Rightarrow> inscription_utxo \<times> VarUInt \<times> inscription_id \<Rightarrow> inscription_record" where
  "il_entry q x = projr (inscription_entry (mp_crates (il_mapi q)) x)"

definition il_entries :: "'a InscriptionListing \<Rightarrow> inscription_record list" where
  "il_entries q = sort_key entry_id (map (il_entry q) (held_inscriptions (il_scanned q)))"

definition il_row :: "'a InscriptionListing \<Rightarrow> inscription_record \<Rightarrow> InscriptionByAddress" where
  "il_row q e = projr (inscription_row (mp_crates (il_mapi q)) (il_tip q) e)"

definition il_rows :: "'a InscriptionListing \<Rightarrow> InscriptionByAddress list" where
  "il_rows q = map (il_row q) (il_entries q)"

definition il_ask :: "'a InscriptionListing \<Rightarrow> string option \<Rightarrow> (InscriptionByAddress list \<times> string option) mapi" where
  "il_ask q c = page_of (inscriptions_by_address (il_mapi q) ((il_page q)\<lparr>cp_cursor := c\<rparr>) (il_input q))"

definition il_mark :: "'a InscriptionListing \<Rightarrow> nat \<Rightarrow> string" where
  "il_mark q j = encode_base64 (mc_b64_encode (mp_crates (il_mapi q))) (sc_enc inscription_utxos_by_script_hash_Cursor) (entry_id (il_entries q ! j))"

definition il_served :: "'a InscriptionListing \<Rightarrow> bool" where
  "il_served q \<longleftrightarrow> (let M = il_mapi q; S = il_snapshot q in
     inscription_utxos_by_script_hash_encoder (mp_registry M) = Inr (il_ns q) \<and> mp_snapshot M = Inr S \<and> snapshot_of (il_db q) S \<and>
     (\<exists>hash. get_last_updated S (il_ns q) = Inr \<lparr>lu_block_hash = hash, lu_block_height = il_tip q\<rparr>) \<and>
     (\<exists>address. parse_address_or_script_bytes M S (il_input q) = mapi_ok (address, il_script q)) \<and>
     page_count (cp_count (il_page q)) = Inr (il_count q) \<and> length (il_script_hash q) = 20 \<and>
     (\<forall>b. mc_b64_decode (mp_crates M) (mc_b64_encode (mp_crates M) b) = Some b))"

text \<open>
  The store holds the table; heights, indices, amounts and offsets fit their types; no inscription is at
  two places, and none has the identifier that comes before all others.
\<close>

definition il_stored :: "'a InscriptionListing \<Rightarrow> bool" where
  "il_stored q \<longleftrightarrow>
     holds_table (il_ns q) InscriptionUtxosByScriptHash inscription_utxos_by_script_hash_Key inscription_utxos_by_script_hash_Value
       (il_db q) (il_table q) \<and>
     (\<forall>x\<in>il_held q. (\<exists>e. inscription_entry (mp_crates (il_mapi q)) x = Inr e) \<and>
       (\<exists>r. inscription_row (mp_crates (il_mapi q)) (il_tip q) (il_entry q x) = Inr r) \<and> (replicate 32 0, VarUInt 0) < snd (snd x)) \<and>
     (\<forall>k v. il_table q k = Some v \<longrightarrow> distinct (tv_vec (snd v))) \<and> inj_on (\<lambda>x. snd (snd x)) (il_held q)"

definition il_ok :: "'a InscriptionListing \<Rightarrow> bool" where
  "il_ok q \<longleftrightarrow> il_served q \<and> il_stored q"

lemma inscription_utxo_laws: "lawful inscription_utxos_by_script_hash_Key" "lawful inscription_utxos_by_script_hash_Value"
  "lawful inscription_utxos_by_script_hash_Cursor"
  by (simp_all add: inscription_utxos_by_script_hash_Key_def inscription_utxos_by_script_hash_Value_def
      inscription_utxos_by_script_hash_Cursor_def)

lemma il_keys:
  assumes "il_ok q"
  shows "{k \<in> dom (il_db q). in_range (il_range q) k} =
    table_key (il_ns q) InscriptionUtxosByScriptHash inscription_utxos_by_script_hash_Key ` {k \<in> dom (il_table q). fst k = il_script_hash q}"
proof (rule table_range)
  note s = assms [unfolded il_ok_def il_stored_def il_served_def Let_def]
  show T: "holds_table (il_ns q) InscriptionUtxosByScriptHash inscription_utxos_by_script_hash_Key inscription_utxos_by_script_hash_Value
    (il_db q) (il_table q)" using s by blast
  show "has_prefix [dataplane_id (il_ns q), instance_id (il_ns q), PREFIX_DATA, reducer_u8 InscriptionUtxosByScriptHash, BREAK] k"
    if "in_range (il_range q) k" for k
    using that unfolding il_range_def reducer_key_range_break in_break_range by (auto simp: has_prefix_def)
  fix k assume "k \<in> dom (il_table q)"
  then obtain v where "il_table q k = Some v" by blast
  then have "sc_wf inscription_utxos_by_script_hash_Key k" using T unfolding holds_table_def by blast
  then have len: "length (fst k) = 20"
    by (simp add: inscription_utxos_by_script_hash_Key_def sc_field_def sc_array_def)
  have "\<exists>t. table_key (il_ns q) InscriptionUtxosByScriptHash inscription_utxos_by_script_hash_Key k =
      [dataplane_id (il_ns q), instance_id (il_ns q), PREFIX_DATA, reducer_u8 InscriptionUtxosByScriptHash] @ BREAK # fst k @ BREAK # t"
    by (simp add: table_key_simp inscription_utxos_by_script_hash_Key_def sc_field_def encode_field_def sc_array_def encode_array_def)
  then show "in_range (il_range q) (table_key (il_ns q) InscriptionUtxosByScriptHash inscription_utxos_by_script_hash_Key k) \<longleftrightarrow> fst k = il_script_hash q"
    using len s unfolding il_range_def reducer_key_range_break in_break_range by (auto simp: encode_array_def)
qed

lemma il_read:
  assumes "il_ok q" "kv \<in> set (scan_entries Asc (il_db q) (il_range q))"
  shows "\<exists>k v. il_table q k = Some v \<and> fst k = il_script_hash q \<and>
    kv = (table_key (il_ns q) InscriptionUtxosByScriptHash inscription_utxos_by_script_hash_Key k, sc_enc inscription_utxos_by_script_hash_Value v) \<and>
    read_entry (sc_dec inscription_utxos_by_script_hash_Key) (sc_dec inscription_utxos_by_script_hash_Value) kv = Inr (k, v)"
proof -
  note s = assms(1) [unfolded il_ok_def il_stored_def il_served_def Let_def]
  have T: "holds_table (il_ns q) InscriptionUtxosByScriptHash inscription_utxos_by_script_hash_Key inscription_utxos_by_script_hash_Value
    (il_db q) (il_table q)" using s by blast
  have fin: "finite (dom (il_db q))" using s snapshot_ofD(1) by blast
  have in_r: "in_range (il_range q) (fst kv)" and dbkv: "il_db q (fst kv) = Some (snd kv)" using scan_entries_in_range [OF fin assms(2)] by blast+
  then have "fst kv \<in> {k \<in> dom (il_db q). in_range (il_range q) k}" by blast
  then obtain k v where k: "il_table q k = Some v" "fst k = il_script_hash q"
    "fst kv = table_key (il_ns q) InscriptionUtxosByScriptHash inscription_utxos_by_script_hash_Key k"
    unfolding il_keys [OF assms(1)] by blast
  have "il_db q (fst kv) = Some (sc_enc inscription_utxos_by_script_hash_Value v)" using T k(1,3) unfolding holds_table_def by metis
  then have kv: "kv = (table_key (il_ns q) InscriptionUtxosByScriptHash inscription_utxos_by_script_hash_Key k, sc_enc inscription_utxos_by_script_hash_Value v)"
    using dbkv k(3) by (metis option.inject prod.collapse)
  show ?thesis using k(1,2) kv read_table_entry [OF T k(1) inscription_utxo_laws(1,2)] by blast
qed

lemma set_il_scanned:
  assumes "il_ok q"
  shows "set (il_scanned q) = {(k, v). il_table q k = Some v \<and> fst k = il_script_hash q}"
proof -
  note s = assms [unfolded il_ok_def il_stored_def il_served_def Let_def]
  have T: "holds_table (il_ns q) InscriptionUtxosByScriptHash inscription_utxos_by_script_hash_Key inscription_utxos_by_script_hash_Value
    (il_db q) (il_table q)" using s by blast
  have fin: "finite (dom (il_db q))" using s snapshot_ofD(1) by blast
  show ?thesis
  proof (intro set_eqI iffI)
    fix x assume "x \<in> set (il_scanned q)"
    then show "x \<in> {(k, v). il_table q k = Some v \<and> fst k = il_script_hash q}"
      using il_read [OF assms] unfolding il_scanned_def by fastforce
  next
    fix x assume "x \<in> {(k, v). il_table q k = Some v \<and> fst k = il_script_hash q}"
    then obtain k v where x: "x = (k, v)" "il_table q k = Some v" "fst k = il_script_hash q" by blast
    let ?k = "table_key (il_ns q) InscriptionUtxosByScriptHash inscription_utxos_by_script_hash_Key k"
    have "?k \<in> {k \<in> dom (il_db q). in_range (il_range q) k}" unfolding il_keys [OF assms] using x(2,3) by blast
    moreover have "il_db q ?k = Some (sc_enc inscription_utxos_by_script_hash_Value v)" using T x(2) unfolding holds_table_def by metis
    ultimately have "(?k, sc_enc inscription_utxos_by_script_hash_Value v) \<in> set (scan_entries Asc (il_db q) (il_range q))"
      using set_ordered_keys [OF fin, of Asc "il_range q"] by (force simp: scan_entries_def with_values_def)
    then show "x \<in> set (il_scanned q)"
      using read_table_entry [OF T x(2) inscription_utxo_laws(1,2)] x(1) unfolding il_scanned_def by force
  qed
qed

lemma set_held: "il_ok q \<Longrightarrow> set (held_inscriptions (il_scanned q)) = il_held q"
  by (force simp: held_inscriptions_def set_il_scanned il_held_def)

lemma distinct_held:
  "distinct kvs \<Longrightarrow> \<forall>kv\<in>set kvs. distinct (tv_vec (snd (snd kv))) \<Longrightarrow> distinct (held_inscriptions kvs)"
  by (induction kvs) (auto simp: held_inscriptions_def distinct_map inj_on_def)

lemma il_distinct:
  assumes "il_ok q"
  shows "distinct (map (\<lambda>x. snd (snd x)) (held_inscriptions (il_scanned q)))"
proof -
  note s = assms [unfolded il_ok_def il_stored_def il_served_def Let_def]
  have "inj_on (\<lambda>kv. projr (read_entry (sc_dec inscription_utxos_by_script_hash_Key) (sc_dec inscription_utxos_by_script_hash_Value) kv))
      (set (scan_entries Asc (il_db q) (il_range q)))"
    by (rule inj_onI) (use il_read [OF assms] in \<open>metis Pair_inject sum.sel(2)\<close>)
  moreover have "distinct (scan_entries Asc (il_db q) (il_range q))"
    by (simp add: scan_entries_def with_values_def ordered_keys_def range_keys_def distinct_map inj_on_def)
  ultimately have "distinct (il_scanned q)" by (simp add: il_scanned_def distinct_map)
  moreover have "\<forall>kv\<in>set (il_scanned q). distinct (tv_vec (snd (snd kv)))" using s by (auto simp: set_il_scanned [OF assms])
  ultimately have "distinct (held_inscriptions (il_scanned q))" by (rule distinct_held)
  then show ?thesis using s by (simp add: distinct_map set_held [OF assms])
qed

lemma filter_above:
  fixes f :: "'x \<Rightarrow> 'y::linorder"
  assumes "sorted_wrt (\<lambda>a b. f a < f b) xs" "j < length xs"
  shows "filter (\<lambda>x. f (xs ! j) < f x) xs = drop (Suc j) xs"
proof -
  have xs: "xs = take j xs @ xs ! j # drop (Suc j) xs" using assms(2) by (simp add: id_take_nth_drop)
  have "sorted_wrt (\<lambda>a b. f a < f b) (take j xs @ xs ! j # drop (Suc j) xs)" using assms(1) xs by simp
  then have "\<forall>a\<in>set (take j xs). f a < f (xs ! j)" "\<forall>b\<in>set (drop (Suc j) xs). f (xs ! j) < f b" by (simp_all add: sorted_wrt_append)
  then have "filter (\<lambda>x. f (xs ! j) < f x) (take j xs) = []" "filter (\<lambda>x. f (xs ! j) < f x) (drop (Suc j) xs) = drop (Suc j) xs"
    by (auto simp: filter_empty_conv filter_id_conv not_less order.strict_implies_order)
  then have "filter (\<lambda>x. f (xs ! j) < f x) (take j xs @ xs ! j # drop (Suc j) xs) = drop (Suc j) xs" by simp
  then show ?thesis using xs by metis
qed

lemma il_entry_of:
  assumes "il_ok q" "x \<in> il_held q"
  shows "inscription_entry (mp_crates (il_mapi q)) x = Inr (il_entry q x)" "entry_id (il_entry q x) = snd (snd x)"
    "inscription_row (mp_crates (il_mapi q)) (il_tip q) (il_entry q x) = Inr (il_row q (il_entry q x))" "(replicate 32 0, VarUInt 0) < snd (snd x)"
proof -
  note s = assms(1) [unfolded il_ok_def il_stored_def]
  obtain e r where e: "inscription_entry (mp_crates (il_mapi q)) x = Inr e" "inscription_row (mp_crates (il_mapi q)) (il_tip q) (il_entry q x) = Inr r"
    "(replicate 32 0, VarUInt 0) < snd (snd x)" using s assms(2) by blast
  then show "inscription_entry (mp_crates (il_mapi q)) x = Inr (il_entry q x)"
    "inscription_row (mp_crates (il_mapi q)) (il_tip q) (il_entry q x) = Inr (il_row q (il_entry q x))" "(replicate 32 0, VarUInt 0) < snd (snd x)"
    by (simp_all add: il_entry_def il_row_def)
  obtain sh h t i sat v off ins where x: "x = (((sh, h, t, i), sat, v), off, ins)" by (metis prod.exhaust)
  show "entry_id (il_entry q x) = snd (snd x)"
    using e(1) unfolding x by (auto simp: inscription_entry_def il_entry_def entry_id_def and_then_Inr_iff)
qed

lemma il_entries_sorted:
  assumes "il_ok q"
  shows "sorted_wrt (\<lambda>e e'. entry_id e < entry_id e') (il_entries q)" "set (il_entries q) = il_entry q ` il_held q"
proof -
  show "set (il_entries q) = il_entry q ` il_held q" by (simp add: il_entries_def set_held [OF assms])
  have "map (entry_id \<circ> il_entry q) (held_inscriptions (il_scanned q)) = map (\<lambda>x. snd (snd x)) (held_inscriptions (il_scanned q))"
    by (rule map_cong) (use il_entry_of(2) [OF assms] set_held [OF assms] in auto)
  then have "distinct (map entry_id (map (il_entry q) (held_inscriptions (il_scanned q))))"
    using il_distinct [OF assms] unfolding map_map by (simp only:)
  moreover have "mset (map entry_id (il_entries q)) = mset (map entry_id (map (il_entry q) (held_inscriptions (il_scanned q))))"
    by (simp add: il_entries_def multiset.map_comp)
  ultimately have "distinct (map entry_id (il_entries q))" using mset_eq_imp_distinct_iff by blast
  moreover have "sorted (map entry_id (il_entries q))" by (simp add: il_entries_def)
  ultimately have "sorted_wrt (<) (map entry_id (il_entries q))" by (simp add: strict_sorted_iff)
  then show "sorted_wrt (\<lambda>e e'. entry_id e < entry_id e') (il_entries q)" by (simp add: sorted_wrt_map)
qed

lemma il_ask_after:
  assumes ok: "il_ok q" and cur: "inscriptions_cursor (mp_crates (il_mapi q)) c = Inr cur"
    and rest: "filter (\<lambda>e. cur < entry_id e) (il_entries q) = drop i (il_entries q)"
  shows "il_ask q c = mapi_ok (page_from (il_count q) (il_mark q) (il_rows q) i)"
proof -
  let ?C = "mp_crates (il_mapi q)" and ?held = "held_inscriptions (il_scanned q)" and ?n = "il_count q"
  note s = ok [unfolded il_ok_def il_served_def Let_def]
  obtain hash address where lu: "get_last_updated (il_snapshot q) (il_ns q) = Inr \<lparr>lu_block_hash = hash, lu_block_height = il_tip q\<rparr>"
    "parse_address_or_script_bytes (il_mapi q) (il_snapshot q) (il_input q) = mapi_ok (address, il_script q)" using s by blast
  have n: "0 < ?n" using s page_count_bounds by blast
  have S: "snapshot_of (il_db q) (il_snapshot q)" using s by blast
  have scn: "scn_order (scanner_new r) = Asc" "scn_range (scanner_new r) = r" "scn_count (scanner_new r) = None" for r
    by (simp_all add: scanner_new_def)
  have "execute_with_filter (sc_dec inscription_utxos_by_script_hash_Key) (sc_dec inscription_utxos_by_script_hash_Value) (il_snapshot q) None
        (scanner_new (il_range q)) =
      mapi_ok (truncate_to (scn_count (scanner_new (il_range q)))
        (map (\<lambda>kv. projr (read_entry (sc_dec inscription_utxos_by_script_hash_Key) (sc_dec inscription_utxos_by_script_hash_Value) kv))
        (retain None (scan_entries (scn_order (scanner_new (il_range q))) (il_db q) (scn_range (scanner_new (il_range q)))))))"
  proof (rule execute_with_filter_exact [OF S])
    show "count_ok (scanner_new (il_range q))" by (simp add: count_ok_def scn)
    fix kv assume "kv \<in> set (retain None (scan_entries (scn_order (scanner_new (il_range q))) (il_db q) (scn_range (scanner_new (il_range q)))))"
    then have "kv \<in> set (scan_entries Asc (il_db q) (il_range q))" by (simp add: retain_def scn)
    from il_read [OF ok this] show "read_entry (sc_dec inscription_utxos_by_script_hash_Key) (sc_dec inscription_utxos_by_script_hash_Value) kv =
        Inr (projr (read_entry (sc_dec inscription_utxos_by_script_hash_Key) (sc_dec inscription_utxos_by_script_hash_Value) kv))" by force
  qed
  then have scan: "scanner_execute (sc_dec inscription_utxos_by_script_hash_Key) (sc_dec inscription_utxos_by_script_hash_Value) (il_snapshot q)
      (scanner_new (il_range q)) = mapi_ok (il_scanned q)"
    by (simp add: scanner_execute_def truncate_to_def retain_def il_scanned_def scn)
  have "try_map (inscription_entry ?C) (filter (\<lambda>(_, _, k). cur < k) ?held) = Inr (map (il_entry q) (filter (\<lambda>(_, _, k). cur < k) ?held))"
    by (rule try_map_Inr) (use il_entry_of(1) [OF ok] set_held [OF ok] in auto)
  moreover have "map (il_entry q) (filter (\<lambda>(_, _, k). cur < k) ?held) = filter (\<lambda>e. cur < entry_id e) (map (il_entry q) ?held)"
    using il_entry_of(2) [OF ok] set_held [OF ok] by (auto simp: filter_map comp_def split_def intro!: arg_cong [where f = "map (il_entry q)"] filter_cong)
  ultimately have found: "try_map (inscription_entry ?C) (filter (\<lambda>(_, _, k). cur < k) ?held) = Inr (filter (\<lambda>e. cur < entry_id e) (map (il_entry q) ?held))"
    by simp
  have sorted: "sort_key entry_id (filter (\<lambda>e. cur < entry_id e) (map (il_entry q) ?held)) = drop i (il_entries q)"
    unfolding rest [symmetric] by (simp add: il_entries_def filter_sort)
  have "try_map (inscription_row ?C (il_tip q)) (take ?n (drop i (il_entries q))) = Inr (map (il_row q) (take ?n (drop i (il_entries q))))"
    by (rule try_map_Inr) (use il_entry_of(3) [OF ok] il_entries_sorted(2) [OF ok] in \<open>auto dest!: in_set_takeD in_set_dropD\<close>)
  moreover have "?n < length (drop i (il_entries q)) \<longleftrightarrow> i + ?n < length (il_entries q)" by auto
  moreover have "drop i (il_entries q) ! (?n - 1) = il_entries q ! (i + ?n - 1)" if "i + ?n < length (il_entries q)" using that n by simp
  ultimately show ?thesis
    using s lu cur by (simp add: il_ask_def inscriptions_by_address_def scan [unfolded il_range_def] found Let_def sorted page_of_def
        page_from_def il_rows_def il_mark_def take_map drop_map flip: il_script_hash_def del: length_sort)
qed

interpretation il: cursor_listing il_ok il_ask il_rows il_mark il_count
proof
  fix q :: "'a InscriptionListing" and j
  assume ok: "il_ok q"
  note s = ok [unfolded il_ok_def il_served_def Let_def]
  show "0 < il_count q" using s page_count_bounds by blast
  have "(replicate 32 0, VarUInt 0) < entry_id e" if "e \<in> set (il_entries q)" for e
    using that il_entry_of(2,4) [OF ok] unfolding il_entries_sorted(2) [OF ok] by auto
  then have "filter (\<lambda>e. (replicate 32 0, VarUInt 0) < entry_id e) (il_entries q) = drop 0 (il_entries q)"
    by (simp add: filter_id_conv del: less_prod_simp)
  then show "il_ask q None = mapi_ok (page_from (il_count q) (il_mark q) (il_rows q) 0)"
    by (rule il_ask_after [OF ok, rotated]) (simp add: inscriptions_cursor_def)
  assume "j < length (il_rows q)"
  then have j: "j < length (il_entries q)" by (simp add: il_rows_def)
  then have "il_entries q ! j \<in> il_entry q ` il_held q" using il_entries_sorted(2) [OF ok] nth_mem by blast
  then obtain x where x: "x \<in> il_held q" "entry_id (il_entries q ! j) = snd (snd x)" using il_entry_of(2) [OF ok] by auto
  then obtain k v where v: "il_table q k = Some v" "snd x \<in> set (tv_vec (snd v))" by (auto simp: il_held_def)
  have "sc_wf inscription_utxos_by_script_hash_Value v" using s v(1) ok unfolding il_ok_def il_stored_def holds_table_def by blast
  then have wf: "sc_wf inscription_utxos_by_script_hash_Cursor (entry_id (il_entries q ! j))"
    using v(2) unfolding x(2) by (auto simp: inscription_utxos_by_script_hash_Value_def inscription_utxos_by_script_hash_Cursor_def
        sc_field_def sc_tvec_def sc_pair_def sc_array_def sc_varuint_def list_all_iff)
  have "inscriptions_cursor (mp_crates (il_mapi q)) (Some (il_mark q j)) = Inr (entry_id (il_entries q ! j))"
    using lawful_dec_enc [OF inscription_utxo_laws(3) wf, of "[]"] s
    by (simp add: inscriptions_cursor_def il_mark_def decode_base64_def encode_base64_def)
  then show "il_ask q (Some (il_mark q j)) = mapi_ok (page_from (il_count q) (il_mark q) (il_rows q) (Suc j))"
    by (rule il_ask_after [OF ok]) (rule filter_above [OF il_entries_sorted(1) [OF ok] j])
qed

section \<open>Properties\<close>

text \<open>
  C16. The content of an inscription is served whole. A client that asks for the content of a stored
  inscription, with a page size from 1 to 4096 bytes or the default, follows the cursors, and reads the
  pages from base64 gets the body of the inscription, in slices that have the page size but for the
  last.
\<close>

theorem content_served:
  assumes "cl_ok q"
  shows "lists_all (cl_ask q) (cl_count q) (cl_body q)"
  using cl.listing [OF assms] .

text \<open>
  C15. The inscriptions of an address are listed. When the store holds the table of the outputs that hold
  inscriptions, a client that follows the cursors gets, on pages that are full but for the last, a row for
  every inscription in an output of the script, once, in the order of the identifiers; no inscription is
  at two places and the numbers fit their types.
\<close>

theorem address_inscriptions_listed:
  assumes "il_ok q"
  shows "\<exists>entries. lists_all (il_ask q) (il_count q)
      (map (\<lambda>e. projr (inscription_row (mp_crates (il_mapi q)) (il_tip q) e)) entries) \<and>
    sorted_wrt (\<lambda>e e'. entry_id e < entry_id e') entries \<and>
    set entries = (\<lambda>x. projr (inscription_entry (mp_crates (il_mapi q)) x)) `
      {((k, v), x) | k v x. il_table q k = Some v \<and> fst k = il_script_hash q \<and> x \<in> set (tv_vec (snd v))}"
  using il.listing [OF assms] il_entries_sorted [OF assms]
  by (intro exI [of _ "il_entries q"]) (simp add: il_rows_def il_row_def [abs_def] il_entry_def [abs_def] il_held_def)

section \<open>One inscription\<close>

definition content_store :: kv_map where
  "content_store = table_store sample_ns ContentByInscriptionId content_by_inscription_id_Key content_by_inscription_id_Value
     [((replicate 32 97, 0), (5, 1, [65], [1, 2, 3, 4, 5]))]"

definition example_mapi :: "kv_map \<Rightarrow> unit Mapi" where
  "example_mapi db = \<lparr>mp_crates = paged_crates,
     mp_registry = \<lparr>rg_network = Mainnet, rg_zrange = (\<lambda>_. Inr [[dataplane_id sample_ns, instance_id sample_ns]])\<rparr>,
     mp_snapshot = Inr (snapshot_at db), mp_mode = ModeDogecoin\<rparr>"

definition content_listing :: "unit ContentListing" where
  "content_listing = \<lparr>cl_mapi = example_mapi content_store, cl_id = replicate 32 (CHR ''a'') @ ''i0'',
     cl_page = \<lparr>cp_count = Some 2, cp_order = None, cp_cursor = None\<rparr>,
     cl_unpage = map (\<lambda>c. of_nat (of_char c)), cl_body = [1, 2, 3, 4, 5], cl_count = 2\<rparr>"

lemma example_id: "parse_inscription_id paged_crates (replicate 32 (CHR ''a'') @ ''i0'') = Inr (replicate 32 97, 0)"
  by code_simp

lemma content_laws: "lawful content_by_inscription_id_Key" "lawful content_by_inscription_id_Value"
  by (simp_all add: content_by_inscription_id_Key_def content_by_inscription_id_Value_def)

lemma content_example_ok: "cl_ok content_listing"
proof -
  let ?T = "[((replicate 32 97, 0), (5, 1, [65], [1, 2, 3, 4, 5]))] :: ((bytes \<times> u32) \<times> content) list"
  have T: "holds_table sample_ns ContentByInscriptionId content_by_inscription_id_Key content_by_inscription_id_Value content_store (map_of ?T)"
    unfolding content_store_def
    by (rule table_store_holds [OF content_laws(1)])
      (auto simp: content_by_inscription_id_Key_def content_by_inscription_id_Value_def sc_pair_def sc_field_def sc_array_def sc_int_def sc_vec_def)
  then have wf: "sc_wf content_by_inscription_id_Value (5, 1, [65], [1, 2, 3, 4, 5])"
    "content_store (table_key sample_ns ContentByInscriptionId content_by_inscription_id_Key (replicate 32 97, 0)) =
      Some (sc_enc content_by_inscription_id_Value (5, 1, [65], [1, 2, 3, 4, 5]))" unfolding holds_table_def by auto
  have "decode_to (sc_dec content_by_inscription_id_Value) (sc_enc content_by_inscription_id_Value (5, 1, [65], [1, 2, 3, 4, 5])) =
      Inr (5, 1, [65], [1, 2, 3, 4, 5])"
    using lawful_dec_enc [OF content_laws(2) wf(1), of "[]"] by (simp add: decode_to_def)
  then have fetch: "fetch_content paged_crates (snapshot_at content_store) sample_ns (replicate 32 (CHR ''a'') @ ''i0'') = Inr (5, 1, [65], [1, 2, 3, 4, 5])"
    unfolding fetch_content_def example_id
    using wf(2) by (simp add: get_reducer_key_maybe_def snapshot_at_def table_key_def ok_or_def)
  have "get_last_updated (snapshot_at content_store) sample_ns = Inr \<lparr>lu_block_hash = replicate 32 3, lu_block_height = 6\<rparr>"
    unfolding content_store_def table_store_def by (rule last_updated_at)
  then have "cl_served content_listing"
    using fetch by (simp add: cl_served_def content_listing_def example_mapi_def sample_ns_def content_by_inscription_id_encoder_def encoder_for_def resolve_key_def)
  moreover have "word_of_nat (unat b mod 256) = b" for b :: u8
  proof -
    have "unat b < 256" using unsigned_less [of b] by simp
    then show ?thesis by simp
  qed
  then have "map (\<lambda>c. of_nat (of_char c)) (mc_std_b64_encode paged_crates b) = b" for b by (simp add: paged_crates_def comp_def)
  ultimately show ?thesis
    by (simp add: cl_ok_def paged_crates_b64 unwrap_or_def) (simp add: content_listing_def example_mapi_def paged_crates_b64 unwrap_or_def)
qed

theorem content_served_witness: "lists_all (cl_ask content_listing) 2 [1, 2, 3, 4, 5]"
  using content_served [OF content_example_ok] by (simp add: content_listing_def)

definition held_utxo :: inscription_utxo where
  "held_utxo = ((replicate 20 7, VarUInt 4, replicate 32 7, VarUInt 0),
     (VarUInt 9, TimbreVec [(VarUInt 0, (replicate 32 2, VarUInt 0)), (VarUInt 3, (replicate 32 1, VarUInt 1))]))"

definition held_store :: kv_map where
  "held_store = table_store sample_ns InscriptionUtxosByScriptHash inscription_utxos_by_script_hash_Key
     inscription_utxos_by_script_hash_Value [held_utxo]"

definition held_listing :: "unit InscriptionListing" where
  "held_listing = \<lparr>il_mapi = example_mapi held_store, il_ns = sample_ns, il_snapshot = snapshot_at held_store, il_db = held_store,
     il_tip = 6, il_page = \<lparr>cp_count = Some 1, cp_order = None, cp_cursor = None\<rparr>, il_input = [], il_script = [],
     il_table = map_of [held_utxo], il_count = 1\<rparr>"

lemma held_example:
  "il_held held_listing = {(held_utxo, (VarUInt 0, (replicate 32 2, VarUInt 0))), (held_utxo, (VarUInt 3, (replicate 32 1, VarUInt 1)))}"
  by (auto simp: il_held_def held_listing_def il_script_hash_def example_mapi_def paged_crates_def held_utxo_def split: if_splits)

lemma held_served: "il_served held_listing"
proof -
  have "get_last_updated (snapshot_at held_store) sample_ns = Inr \<lparr>lu_block_hash = replicate 32 3, lu_block_height = 6\<rparr>"
    unfolding held_store_def table_store_def by (rule last_updated_at)
  moreover have "snapshot_of held_store (snapshot_at held_store)" unfolding held_store_def by (rule table_store_snapshot)
  moreover have "mc_address_from_str paged_crates s = None" "mc_hex_decode paged_crates [] = Some []" "mc_script_hash paged_crates b = replicate 20 7" for s b
    by (simp_all add: paged_crates_def)
  ultimately show ?thesis
    by (simp add: il_served_def Let_def il_script_hash_def held_listing_def example_mapi_def paged_crates_b64 page_count_def MAX_PAGE_COUNT_def
        unwrap_or_def parse_address_or_script_bytes_def address_of_script_def inscription_utxos_by_script_hash_encoder_def encoder_for_def resolve_key_def)
qed

lemma held_entries:
  "inscription_entry paged_crates (held_utxo, (VarUInt 0, (replicate 32 2, VarUInt 0))) =
     Inr ((4, mc_txid_string paged_crates (replicate 32 7), 0), (dec_string 9, (0, (replicate 32 2, VarUInt 0))))"
  "inscription_entry paged_crates (held_utxo, (VarUInt 3, (replicate 32 1, VarUInt 1))) =
     Inr ((4, mc_txid_string paged_crates (replicate 32 7), 0), (dec_string 9, (3, (replicate 32 1, VarUInt 1))))"
  by (simp_all add: inscription_entry_def held_utxo_def parse_varuint_def try_from_varuint_def try_from_def)

lemma held_ok: "il_ok held_listing"
proof -
  have "holds_table sample_ns InscriptionUtxosByScriptHash inscription_utxos_by_script_hash_Key inscription_utxos_by_script_hash_Value
      held_store (map_of [held_utxo])"
    unfolding held_store_def
    by (rule table_store_holds [OF inscription_utxo_laws(1)])
      (auto simp: held_utxo_def inscription_utxos_by_script_hash_Key_def inscription_utxos_by_script_hash_Value_def
        sc_pair_def sc_field_def sc_array_def sc_varuint_def sc_tvec_def)
  moreover have "mp_crates (il_mapi held_listing) = paged_crates" by (simp add: held_listing_def example_mapi_def)
  moreover have "\<exists>r. inscription_row paged_crates tip (il_entry held_listing x) = Inr r" if "x \<in> il_held held_listing" for tip x
    using that unfolding held_example
    by (auto simp: il_entry_def held_listing_def example_mapi_def held_entries inscription_row_def parse_varuint_def try_from_varuint_def try_from_def)
  moreover have "\<forall>x\<in>il_held held_listing. (\<exists>e. inscription_entry paged_crates x = Inr e) \<and> (replicate 32 0, VarUInt 0) < snd (snd x)"
  proof -
    have "(replicate 32 0, VarUInt 0) < (replicate 32 (2 :: u8), VarUInt 0)" "(replicate 32 0, VarUInt 0) < (replicate 32 (1 :: u8), VarUInt 1)"
      by (simp_all add: numeral_nat)
    then show ?thesis unfolding held_example by (simp add: held_entries)
  qed
  ultimately have "il_stored held_listing"
    unfolding il_stored_def held_example by (auto simp: held_listing_def held_utxo_def inj_on_def)
  then show ?thesis using held_served by (simp add: il_ok_def)
qed

theorem address_inscriptions_listed_witness:
  "\<exists>entries. lists_all (il_ask held_listing) 1 (map (\<lambda>e. projr (inscription_row paged_crates 6 e)) entries) \<and>
    sorted_wrt (\<lambda>e e'. entry_id e < entry_id e') entries \<and>
    set entries = {((4, mc_txid_string paged_crates (replicate 32 7), 0), (dec_string 9, (0, (replicate 32 2, VarUInt 0)))),
      ((4, mc_txid_string paged_crates (replicate 32 7), 0), (dec_string 9, (3, (replicate 32 1, VarUInt 1))))}"
  using address_inscriptions_listed [OF held_ok] unfolding il_held_def [symmetric] held_example
  by (simp add: held_entries held_listing_def example_mapi_def)

end
