(* ===== verification/Spec2Isabelle.thy ===== *)
theory Spec2Isabelle
  imports Timbre_Schema Worker_Recovery Batch_Order Tikv_Gc Chain_Sync Source_Context Mapi_Tx_Listing Mapi_Dunes Mapi_Inscription_Listing
begin

text \<open>
  Verification of the Dogecoin indexer: the compressor, which follows a node and keeps a chain
  database with outputs, dunes and inscriptions; polyphony, which reduces the blocks of the
  compressor to tables in TiKV; the API, which answers requests from these tables; and the collector of
  old versions, tikv-gc.

  \<^bold>\<open>The parts and how they interact.\<close> \<open>services/compressor-xdg\<close> pulls headers and blocks from a node
  (\<open>sync/pull.rs\<close>), numbers them and hands them to the roll stage (\<open>sync/roll.rs\<close>), which applies
  them to the chain database or rolls it back (\<open>storage/mod.rs\<close>). While a block is applied its inputs are
  resolved, its dunes and inscriptions are indexed, what is needed to undo it is recorded, and an
  entry is added to a write-ahead log. The server (\<open>serve/grpc.rs\<close>) gives clients pages of old blocks
  and then the stream of that log, each block with the outputs it spends and what they carry.
  \<open>services/polyphony-xdg\<close> is such a client: its source stage (\<open>sources/\<close>) finds a common
  point, pages and streams blocks; its reducers turn a block with its context into outputs; its
  storage stage (\<open>storage/tikv.rs\<close>) turns outputs into storage actions, merges them, executes them in a
  transaction together with their inverses, and advertises its position in Redis.
  \<open>services/mapi-xdg\<close> finds in Redis which instance serves a kind of data, takes a snapshot of TiKV and
  answers a request by scanning a range of a table, page by page.
  \<open>services/tikv-gc\<close> reads the positions in Redis and computes up to which version TiKV may forget.
  \<open>crates/timbre-xbt\<close> is the layout of keys and values that the writers and the readers of the tables share.

  \<^bold>\<open>Shared theories.\<close>
  \<^item> \<open>Rust_Prelude\<close>: machine integers with the wrap-around and the saturating operations of a release build,
    results and options as the code chains them, big-endian bytes and their order, decimal text.
  \<^item> \<open>Timbre_Codec\<close>, \<open>Timbre_Keys\<close>, \<open>Timbre_Schema\<close> (\<open>crates/timbre-xbt/src/encdec\<close>, \<open>keys\<close>, \<open>reducers\<close>): encoders and
    decoders, prefixes and key ranges, and a schema for every key, value and cursor. The locales \<open>codec\<close> and
    \<open>ordered_codec\<close> state that decoding reads back what was encoded and that bytes are ordered as values;
    \<open>keyed_scan\<close> derives which keys a range selects. They are interpreted for integers, \<open>VarUInt\<close>, hashes, cursors,
    metadata keys and the key of the unspent outputs.
  \<^item> \<open>Bitcoin_Types\<close>: blocks and transactions, and the functions of the bitcoin crate as a record of parameters.

  \<^bold>\<open>Compressor.\<close>
  \<^item> \<open>Dune_Names\<close>, \<open>Dune_Varint\<close>, \<open>Dunestone_Parser\<close>, \<open>Dune_Updater\<close>, \<open>Dune_Mints\<close> (\<open>storage/runes\<close>): names print and parse back,
    payloads decode, when the integers of a message make a cenotaph, amounts are conserved and mint caps are kept.
  \<^item> \<open>Ordinal_Ranges\<close>, \<open>Inscription_Parser\<close>, \<open>Brc20_Messages\<close>, \<open>Inscription_Updater\<close>, \<open>Brc20_Ledger\<close>, \<open>Brc20_Rollback\<close>
    (\<open>storage/inscriptions\<close>): envelopes read back, amounts parse exactly, the ledger of a ticker conserves its supply, and
    undoing its actions restores it.
  \<^item> \<open>Kv_Table\<close>, \<open>Chain_Db\<close>, \<open>Chain_Rollback\<close>, \<open>Chain_Wal\<close> (\<open>storage/kvtable.rs\<close>, \<open>storage/mod.rs\<close>, \<open>storage/mutable\<close>): tables as ordered
    maps (locale \<open>ordered_store\<close>, interpreted as \<open>kv\<close>), applying and undoing a block, the write-ahead log.
  \<^item> \<open>Chain_Sync\<close>, \<open>Chain_Serve\<close> (\<open>sync/pull.rs\<close>, \<open>sync/roll.rs\<close>, \<open>serve/grpc.rs\<close>): the database follows the chain of the node
    page after page; what the server sends for a page or an entry of the log.

  \<^bold>\<open>Polyphony.\<close>
  \<^item> \<open>Source_Compressor\<close>, \<open>Source_Context\<close> (\<open>sources\<close>): finding a common point, pages and the switch to the stream; the context of a block is
    what the compressor resolved, the stream brings a client to the tip, and a source that resumes catches up with the compressor.
  \<^item> \<open>Reducers\<close>, \<open>Reducer_Outputs\<close>, \<open>Utxo_Index\<close> (\<open>reducers\<close>): the twenty reducers and their storage actions; the stored table of
    unspent outputs and the balances follow the chain.
  \<^item> \<open>Storage_Action\<close>, \<open>Rollback_Buffer\<close>, \<open>Tikv_Exec\<close>, \<open>Tikv_Worker\<close>, \<open>Batch_Order\<close>, \<open>Worker_Recovery\<close>, \<open>Redis_Entry\<close> (\<open>storage\<close>): merging of actions, the
    buffer of recent blocks (locale \<open>undo_log\<close>, interpreted as \<open>rb_log\<close>), execution with inverses (locale \<open>value_semantics\<close>,
    interpreted with and without them), the order of a batch is irrelevant, and the stage is a machine with failing calls and
    restarts. That it applies every block once is shown for the mutable window and for commits that write nothing when they report an
    error; what happens outside of these provisos is shown by \<open>bulk_advertise_failure_loses_block\<close> and
    \<open>undetermined_commit_applied_again\<close>.
  \<^item> \<open>Tikv_Gc\<close> (\<open>services/tikv-gc\<close>): the safepoint never passes a chain tip.

  \<^bold>\<open>API.\<close>
  \<^item> \<open>Mapi_Scan\<close> (\<open>polyphony.rs\<close>, \<open>error.rs\<close>): the snapshot, typed lookups and the scanner with its retries, and what it returns.
  \<^item> \<open>Mapi_Resolver\<close> (\<open>key_resolver.rs\<close>): the groups of reducers; a reader finds the namespace of the writer.
  \<^item> \<open>Mapi_Params\<close>, \<open>Mapi_Paging\<close>, \<open>Mapi_Tables\<close> (\<open>util.rs\<close>, \<open>types/mod.rs\<close>): parameters of requests, amounts, the loop that makes a page. The
    locale \<open>cursor_listing\<close> states what a handler promises for one cursor, and proves for the client that follows the cursors that
    it gets every row once; it is interpreted for scans of a table (\<open>sl\<close>), unspent outputs (\<open>ul\<close>), content (\<open>cl\<close>) and
    inscriptions (\<open>il\<close>).
  \<^item> \<open>Mapi_Addresses\<close>, \<open>Mapi_Dunes\<close>, \<open>Mapi_Inscriptions\<close> (\<open>api/addresses\<close>, \<open>api/dunes\<close>, \<open>api/inscriptions\<close>): the seventeen handlers, and
    \<open>Mapi_Utxo_Listing\<close>, \<open>Mapi_Tx_Listing\<close>, \<open>Mapi_Inscription_Listing\<close> with what their listings give. The listing of unspent
    outputs is stated of the unspent outputs of the chain, so that with the table of \<open>Utxo_Index\<close> it spans indexer and API.

  \<^bold>\<open>Parameters.\<close> Code outside the repository is a record of functions: the bitcoin and dogecoin crates (hashes, scripts, addresses,
  text of identifiers), base64 and hex, lower case of text, the node, TiKV transactions and snapshots, and Redis. Theorems name what
  they need of it: a transaction reads what it wrote, a snapshot answers from a fixed map, an answer that is too large is an error and a
  single entry fits, text that was encoded decodes. Every theorem with such a hypothesis has a witness with concrete functions.

  \<^bold>\<open>Arithmetic and loops.\<close> Integers keep their width, and overflow wraps as in a release build, unless the code checks it. Loops over
  data are recursion. Four loops whose end depends on answers from outside are partial functions with the value \<open>None\<close> for not
  ending: the choice of intersect points, the two loops over rollback metadata and the loop of the scanner. Theorems show that they end. No
  fuel is used.

  \<^bold>\<open>Not modelled.\<close> The peer-to-peer protocol of the compressor (\<open>peer.rs\<close>), requests that the API passes on to the node, routing, JSON,
  configuration, metrics, logging, channels between stages, the console, the command line of \<open>daw\<close> and of tikv-gc: input and output without
  state of their own. The copies of the dune and inscription parsers in polyphony have the text of the compressor's and are
  covered by its model.
\<close>

end
